(* ===== verification/Eh_Prelude.thy ===== *)
theory Eh_Prelude
  imports Main "HOL-Library.Word" "HOL-Library.Monad_Syntax"
begin

text \<open>
  The prelude of the development: the type names of the C code, the error codes of
  \<^verbatim>\<open>src/src/include/eh_error.h\<close> with the conversions between error codes and
  pointers, and the generic lemmas on lists and words the components share.

  Machine integers keep their width (a \<open>64 word\<close> for \<open>eh_clock_t\<close>, a \<open>32 word\<close>
  for \<open>uint32_t\<close>); a C \<open>int\<close> that carries a return code is an \<open>int\<close>. The
  addresses of intrusive nodes are natural numbers and 0 is \<open>NULL\<close>.
\<close>

unbundle bit_operations_syntax

named_theorems eh_ret "the values of the error codes"
named_theorems eh_frame "what an operation leaves unchanged"

subsection \<open>Type names\<close>

type_synonym ptr = nat
type_synonym u8 = "8 word"
type_synonym u16 = "16 word"
type_synonym u32 = "32 word"
type_synonym u64 = "64 word"
type_synonym eh_clock = "64 word"

abbreviation NULL :: ptr where "NULL \<equiv> 0"

subsection \<open>Error codes\<close>

definition EH_RET_OK :: int where [eh_ret]: "EH_RET_OK = 0"
definition EH_RET_FAULT :: int where [eh_ret]: "EH_RET_FAULT = -1"
definition EH_RET_INVALID_PARAM :: int where [eh_ret]: "EH_RET_INVALID_PARAM = -2"
definition EH_RET_INVALID_STATE :: int where [eh_ret]: "EH_RET_INVALID_STATE = -3"
definition EH_RET_BUSY :: int where [eh_ret]: "EH_RET_BUSY = -4"
definition EH_RET_EVENT_ERROR :: int where [eh_ret]: "EH_RET_EVENT_ERROR = -6"
definition EH_RET_TIMEOUT :: int where [eh_ret]: "EH_RET_TIMEOUT = -7"
definition EH_RET_MALLOC_ERROR :: int where [eh_ret]: "EH_RET_MALLOC_ERROR = -8"
definition EH_RET_PTR_NULL :: int where [eh_ret]: "EH_RET_PTR_NULL = -9"
definition EH_RET_EXISTS :: int where [eh_ret]: "EH_RET_EXISTS = -12"
definition EH_RET_NOT_EXISTS :: int where [eh_ret]: "EH_RET_NOT_EXISTS = -13"
definition EH_RET_MIN_ERROR_NUM :: int where [eh_ret]: "EH_RET_MIN_ERROR_NUM = -1024"

text \<open>
  A pointer-valued function reports an error as a small negative pointer. The pointer is
  a 64-bit word here, and \<open>intptr_t\<close> reads it as a signed value.
\<close>

definition eh_error_to_ptr :: "int \<Rightarrow> u64" where
  "eh_error_to_ptr err_no = word_of_int err_no"

definition eh_ptr_to_error :: "u64 \<Rightarrow> int" where
  "eh_ptr_to_error p =
     (if sint p > 0 \<or> sint p \<le> EH_RET_MIN_ERROR_NUM then EH_RET_OK
      else if p = 0 then EH_RET_PTR_NULL
      else sint p)"

lemma sint_error_ptr:
  assumes "EH_RET_MIN_ERROR_NUM < e" and "e < 0"
  shows "sint (eh_error_to_ptr e) = e"
  using assms by (simp add: eh_error_to_ptr_def eh_ret int_word_sint)

lemma error_ptr_not_null:
  assumes "EH_RET_MIN_ERROR_NUM < e" and "e < 0"
  shows "eh_error_to_ptr e \<noteq> 0"
  using sint_error_ptr [OF assms] assms by (metis less_irrefl signed_0)

lemma ptr_to_error_roundtrip:
  assumes "EH_RET_MIN_ERROR_NUM < e" and "e < 0"
  shows "eh_ptr_to_error (eh_error_to_ptr e) = e"
  using assms error_ptr_not_null [OF assms] by (simp add: eh_ptr_to_error_def sint_error_ptr)

subsection \<open>Lists\<close>

lemma distinct_split_unique:
  assumes "distinct (xs @ a # ys)" and "xs @ a # ys = xs' @ a # ys'"
  shows "xs' = xs \<and> ys' = ys"
  using assms by (auto simp: append_eq_append_conv2 append_eq_Cons_conv Cons_eq_append_conv)

lemma remove1_split: "a \<notin> set xs \<Longrightarrow> remove1 a (xs @ a # ys) = xs @ ys"
  by (simp add: remove1_append)

subsection \<open>Paths along a pointer field\<close>

text \<open>\<open>path nx p ws q\<close>: following the field \<open>nx\<close> from \<open>p\<close> visits \<open>ws\<close> and arrives at \<open>q\<close>.\<close>

primrec path :: "('a::zero \<Rightarrow> 'a) \<Rightarrow> 'a \<Rightarrow> 'a list \<Rightarrow> 'a \<Rightarrow> bool" where
  "path nx p [] q \<longleftrightarrow> p = q"
| "path nx p (w # ws) q \<longleftrightarrow> p = w \<and> w \<noteq> 0 \<and> path nx (nx w) ws q"

lemma path_append [simp]: "path nx p (xs @ ys) q \<longleftrightarrow> (\<exists>r. path nx p xs r \<and> path nx r ys q)"
  by (induction xs arbitrary: p) auto

lemma path_update [simp]: "u \<notin> set ws \<Longrightarrow> path (nx(u := v)) p ws q \<longleftrightarrow> path nx p ws q"
  by (induction ws arbitrary: p) auto

lemma path_cong: "(\<And>w. w \<in> set ws \<Longrightarrow> nx' w = nx w) \<Longrightarrow> path nx' p ws q \<longleftrightarrow> path nx p ws q"
  by (induction ws arbitrary: p) auto

lemma path_start: "path nx p ws 0 \<Longrightarrow> p = (case ws of [] \<Rightarrow> 0 | w # _ \<Rightarrow> w)"
  by (cases ws) auto

lemma path_not_null: "path nx p ws q \<Longrightarrow> 0 \<notin> set ws"
  by (induction ws arbitrary: p) auto

lemma path_unique: "path nx p xs 0 \<Longrightarrow> path nx p ys 0 \<Longrightarrow> xs = ys"
proof (induction xs arbitrary: p ys)
  case Nil
  then show ?case by (cases ys) auto
next
  case (Cons x xs)
  then show ?case by (cases ys) auto
qed

subsection \<open>Aligning addresses\<close>

lemma unat_pow2:
  assumes "k < 64"
  shows "unat (2 ^ k :: 64 word) = 2 ^ k"
proof -
  have "unat (word_of_nat (2 ^ k) :: 64 word) = 2 ^ k mod 2 ^ 64" by (simp only: unat_of_nat) simp
  also have "\<dots> = 2 ^ k" using assms by (intro mod_less power_strict_increasing) simp_all
  finally show ?thesis by simp
qed

lemma and_not_mask:
  assumes "k < 64"
  shows "unat (a AND NOT (mask k) :: 64 word) = unat a div 2 ^ k * 2 ^ k"
proof -
  have "a AND NOT (mask k) = push_bit k (drop_bit k a)"
    by (rule bit_word_eqI) (auto simp: bit_simps)
  also have "\<dots> = drop_bit k a * 2 ^ k" by (simp add: push_bit_eq_mult)
  moreover note unat_pow2[OF assms]
  ultimately have "unat (a AND NOT (mask k)) = (unat a div 2 ^ k * 2 ^ k) mod 2 ^ 64"
    by (simp add: unat_word_ariths unat_drop_bit_eq drop_bit_eq_div mod_simps)
  moreover have "unat a < 2 ^ 64" by (rule order_less_le_trans[OF unsigned_less]) simp
  then have "unat a div 2 ^ k * 2 ^ k < 2 ^ 64" using div_times_less_eq_dividend[of "unat a" "2 ^ k"] by linarith
  ultimately show ?thesis by simp
qed

lemma and_not_15: "unat (a AND NOT 15 :: 64 word) = unat a div 16 * 16"
  using and_not_mask[of 4 a] by (simp add: mask_eq_exp_minus_1)

lemma unat_add_no_wrap: "unat a + unat b < 2 ^ 64 \<Longrightarrow> unat (a + b :: 64 word) = unat a + unat b"
  by (simp add: unat_word_ariths)

lemma unat_diff_no_wrap: "unat b \<le> unat a \<Longrightarrow> unat (a - b :: 64 word) = unat a - unat b"
  by (simp add: unat_sub word_le_nat_alt)

subsection \<open>Signed 32-bit words\<close>

lemma sint_diff:
  assumes "unat (a :: 32 word) < 2 ^ 31" "unat (b :: 32 word) < 2 ^ 31"
  shows "sint (a - b) = int (unat a) - int (unat b)"
proof -
  have i: "sint (word_of_int k :: 32 word) = (k + 2147483648) mod 4294967296 - 2147483648" for k
    by (simp add: int_word_sint)
  have "unat a < 2147483648" "unat b < 2147483648" using assms by simp_all
  then have "(int (unat a) - int (unat b) + 2147483648) mod 4294967296 = int (unat a) - int (unat b) + 2147483648"
    by (intro mod_pos_pos_trivial) linarith+
  then show ?thesis using i[of "int (unat a) - int (unat b)"] by simp
qed

lemma sint_small: "unat (x :: 32 word) < 2 ^ 31 \<Longrightarrow> sint x = int (unat x)"
  using sint_diff[of x 0] by simp

lemma unat32_add: "unat a + unat b < 2 ^ 32 \<Longrightarrow> unat (a + b :: 32 word) = unat a + unat b"
  by (simp add: unat_word_ariths)

lemma unat32_sub: "unat b \<le> unat a \<Longrightarrow> unat (a - b :: 32 word) = unat a - unat b"
  by (simp add: unat_sub word_le_nat_alt)

lemma sint_nonneg:
  assumes "0 \<le> sint (x :: 32 word)"
  shows "int (unat x) = sint x"
proof -
  have i: "sint (word_of_int k :: 32 word) = (k + 2147483648) mod 4294967296 - 2147483648" for k
    by (simp add: int_word_sint)
  have l: "unat x < 4294967296" by (rule order_less_le_trans[OF unsigned_less]) simp
  have "unat x < 2147483648"
  proof (rule ccontr)
    assume a: "\<not> ?thesis"
    have "sint x = (int (unat x) + 2147483648) mod 4294967296 - 2147483648" using i[of "int (unat x)"] by simp
    also have "(int (unat x) + 2147483648) mod 4294967296 = (int (unat x) + 2147483648 - 4294967296) mod 4294967296"
      by (rule minus_mod_self2[symmetric])
    also have "\<dots> = int (unat x) + 2147483648 - 4294967296" by (rule mod_pos_pos_trivial) (use a l in linarith)+
    finally show False using assms l by linarith
  qed
  then show ?thesis using sint_small[of x] by simp
qed

lemma unat_nonneg: "0 \<le> sint (x :: 32 word) \<Longrightarrow> unat x = nat (sint x)"
  using sint_nonneg[of x] by linarith

end
