(* ===== verification/Eh_List.thy ===== *)
theory Eh_List
  imports Eh_Prelude
begin

text \<open>
  The circular doubly linked list of \<^verbatim>\<open>src/src/general/include/eh_list.h\<close> at
  pointer level: a memory gives the \<open>next\<close> and \<open>prev\<close> field of every node, every
  inline function is the same sequence of field writes, and \<open>dll\<close> says that a head
  represents a list of nodes. Each operation is then shown to be the list operation the
  components above use.
\<close>

subsection \<open>The memory of list nodes\<close>

record lmem =
  lnext :: "ptr \<Rightarrow> ptr"
  lprev :: "ptr \<Rightarrow> ptr"

definition set_next :: "ptr \<Rightarrow> ptr \<Rightarrow> lmem \<Rightarrow> lmem" where
  "set_next a v m = m\<lparr>lnext := (lnext m)(a := v)\<rparr>"

definition set_prev :: "ptr \<Rightarrow> ptr \<Rightarrow> lmem \<Rightarrow> lmem" where
  "set_prev a v m = m\<lparr>lprev := (lprev m)(a := v)\<rparr>"

lemma lmem_rw [simp]:
  "lnext (set_next a v m) = (lnext m)(a := v)" "lprev (set_next a v m) = lprev m"
  "lprev (set_prev a v m) = (lprev m)(a := v)" "lnext (set_prev a v m) = lnext m"
  by (simp_all add: set_next_def set_prev_def)

subsection \<open>The operations of eh_list.h\<close>

definition eh_list_head_init :: "ptr \<Rightarrow> lmem \<Rightarrow> lmem" where
  "eh_list_head_init p m = set_prev p p (set_next p p m)"

definition list_add_between :: "ptr \<Rightarrow> ptr \<Rightarrow> ptr \<Rightarrow> lmem \<Rightarrow> lmem" where
  "list_add_between new prev nxt m =
     (let m = set_prev nxt new m;
          m = set_next new nxt m;
          m = set_prev new prev m
      in set_next prev new m)"

definition eh_list_add :: "ptr \<Rightarrow> ptr \<Rightarrow> lmem \<Rightarrow> lmem" where
  "eh_list_add new head m = list_add_between new head (lnext m head) m"

definition eh_list_add_tail :: "ptr \<Rightarrow> ptr \<Rightarrow> lmem \<Rightarrow> lmem" where
  "eh_list_add_tail new head m = list_add_between new (lprev m head) head m"

definition list_del_between :: "ptr \<Rightarrow> ptr \<Rightarrow> lmem \<Rightarrow> lmem" where
  "list_del_between prev nxt m = set_next prev nxt (set_prev nxt prev m)"

definition eh_list_del :: "ptr \<Rightarrow> lmem \<Rightarrow> lmem" where
  "eh_list_del e m =
     (let m = list_del_between (lprev m e) (lnext m e) m
      in set_prev e NULL (set_next e NULL m))"

definition eh_list_del_init :: "ptr \<Rightarrow> lmem \<Rightarrow> lmem" where
  "eh_list_del_init e m = eh_list_head_init e (list_del_between (lprev m e) (lnext m e) m)"

definition eh_list_move :: "ptr \<Rightarrow> ptr \<Rightarrow> lmem \<Rightarrow> lmem" where
  "eh_list_move node head m =
     eh_list_add node head (list_del_between (lprev m node) (lnext m node) m)"

definition eh_list_move_tail :: "ptr \<Rightarrow> ptr \<Rightarrow> lmem \<Rightarrow> lmem" where
  "eh_list_move_tail node head m =
     eh_list_add_tail node head (list_del_between (lprev m node) (lnext m node) m)"

definition eh_list_empty :: "ptr \<Rightarrow> lmem \<Rightarrow> bool" where
  "eh_list_empty head m \<longleftrightarrow> lnext m head = head"

definition list_splice_at :: "ptr \<Rightarrow> ptr \<Rightarrow> lmem \<Rightarrow> lmem" where
  "list_splice_at lst head m =
     (let first = lnext m lst;
          last = lprev m lst;
          at = lnext m head;
          m = set_prev first head m;
          m = set_next head first m;
          m = set_next last at m
      in set_prev at last m)"

definition eh_list_splice :: "ptr \<Rightarrow> ptr \<Rightarrow> lmem \<Rightarrow> lmem" where
  "eh_list_splice lst head m =
     (if eh_list_empty lst m then m else list_splice_at lst head m)"

definition eh_list_splice_init :: "ptr \<Rightarrow> ptr \<Rightarrow> lmem \<Rightarrow> lmem" where
  "eh_list_splice_init lst head m =
     (if eh_list_empty lst m then m
      else eh_list_head_init lst (list_splice_at lst head m))"

text \<open>
  The traversal macros. \<open>eh_list_for_each\<close> collects the nodes its body is called on;
  \<open>eh_list_for_each_safe\<close> threads the memory through a body that may unlink the node
  it is given, with the successor read before the body runs. A walk over a broken ring
  never ends, so the results are options.
\<close>

partial_function (option) eh_list_for_each :: "ptr \<Rightarrow> ptr \<Rightarrow> lmem \<Rightarrow> ptr list option" where
  "eh_list_for_each head pos m =
     (if pos = head then Some []
      else do { xs \<leftarrow> eh_list_for_each head (lnext m pos) m; Some (pos # xs) })"

partial_function (option) eh_list_for_each_prev :: "ptr \<Rightarrow> ptr \<Rightarrow> lmem \<Rightarrow> ptr list option" where
  "eh_list_for_each_prev head pos m =
     (if pos = head then Some []
      else do { xs \<leftarrow> eh_list_for_each_prev head (lprev m pos) m; Some (pos # xs) })"

partial_function (option) eh_list_for_each_safe ::
  "(ptr \<Rightarrow> lmem \<Rightarrow> lmem) \<Rightarrow> ptr \<Rightarrow> ptr \<Rightarrow> ptr \<Rightarrow> lmem \<Rightarrow> lmem option" where
  "eh_list_for_each_safe body head pos n m =
     (if pos = head then Some m
      else (let m' = body pos m in eh_list_for_each_safe body head n (lnext m' n) m'))"

subsection \<open>What a head represents\<close>

fun seg :: "lmem \<Rightarrow> ptr \<Rightarrow> ptr list \<Rightarrow> ptr \<Rightarrow> bool" where
  "seg m a [] b \<longleftrightarrow> lnext m a = b \<and> lprev m b = a"
| "seg m a (x # xs) b \<longleftrightarrow> lnext m a = x \<and> lprev m x = a \<and> seg m x xs b"

definition dll :: "lmem \<Rightarrow> ptr \<Rightarrow> ptr list \<Rightarrow> bool" where
  "dll m head xs \<longleftrightarrow> seg m head xs head \<and> distinct (head # xs)"

lemma seg_append [simp]:
  "seg m a (xs @ y # ys) b \<longleftrightarrow> seg m a xs y \<and> seg m y ys b"
  by (induction xs arbitrary: a) auto

lemma seg_set_next [simp]:
  "n \<noteq> a \<Longrightarrow> n \<notin> set xs \<Longrightarrow> seg (set_next n v m) a xs b = seg m a xs b"
  by (induction xs arbitrary: a) auto

lemma seg_set_prev [simp]:
  "n \<noteq> b \<Longrightarrow> n \<notin> set xs \<Longrightarrow> seg (set_prev n v m) a xs b = seg m a xs b"
  by (induction xs arbitrary: a) auto

lemma seg_ends: "seg m a xs b \<Longrightarrow> lnext m a = hd (xs @ [b]) \<and> lprev m b = last (a # xs)"
  by (induction xs arbitrary: a) auto

lemma seg_cong:
  "seg m a xs b \<Longrightarrow> (\<forall>n \<in> insert a (set xs). lnext m' n = lnext m n) \<Longrightarrow>
   (\<forall>n \<in> insert b (set xs). lprev m' n = lprev m n) \<Longrightarrow> seg m' a xs b"
  by (induction xs arbitrary: a) auto

lemma dll_cong:
  "dll m h xs \<Longrightarrow> (\<forall>n \<in> insert h (set xs). lnext m' n = lnext m n \<and> lprev m' n = lprev m n) \<Longrightarrow>
   dll m' h xs"
  by (auto simp: dll_def intro: seg_cong)

lemma dll_rotate: "dll m h (xs @ y # ys) \<Longrightarrow> dll m y (ys @ h # xs)"
  by (auto simp: dll_def)

lemma dll_empty_iff: "dll m h xs \<Longrightarrow> eh_list_empty h m \<longleftrightarrow> xs = []"
  by (cases xs) (auto simp: dll_def eh_list_empty_def)

lemma dll_first: "dll m h (x # xs) \<Longrightarrow> lnext m h = x"
  by (simp add: dll_def)

subsection \<open>Every operation is the operation on the represented list\<close>

lemma dll_head_init: "dll (eh_list_head_init p m) p []"
  by (simp add: dll_def eh_list_head_init_def)

lemma dll_add:
  assumes "dll m h xs" and "n \<noteq> h" and "n \<notin> set xs"
  shows "dll (eh_list_add n h m) h (n # xs)"
  using assms by (cases xs) (auto simp: dll_def eh_list_add_def list_add_between_def)

lemma dll_add_tail:
  assumes "dll m h xs" and "n \<noteq> h" and "n \<notin> set xs"
  shows "dll (eh_list_add_tail n h m) h (xs @ [n])"
  using assms
  by (cases xs rule: rev_cases) (auto simp: dll_def eh_list_add_tail_def list_add_between_def)

lemma dll_unlink:
  assumes "dll m h (xs @ e # ys)"
  shows "dll (list_del_between (lprev m e) (lnext m e) m) h (xs @ ys)"
proof -
  from assms have ends: "lprev m e = last (h # xs)" "lnext m e = hd (ys @ [h])"
    by (auto simp: dll_def dest: seg_ends)
  show ?thesis
    using assms unfolding ends
    by (cases xs rule: rev_cases; cases ys) (auto simp: dll_def list_del_between_def)
qed

lemma unlink_fields:
  "a \<noteq> p \<Longrightarrow> lnext (list_del_between p n m) a = lnext m a"
  "a \<noteq> n \<Longrightarrow> lprev (list_del_between p n m) a = lprev m a"
  by (simp_all add: list_del_between_def)

lemma dll_del:
  assumes "dll m h (xs @ e # ys)"
  shows "dll (eh_list_del e m) h (xs @ ys)"
  using dll_unlink [OF assms] assms
  by (auto simp: eh_list_del_def dll_def Let_def intro!: seg_cong
        elim!: seg_cong)

lemma dll_del_init:
  assumes "dll m h (xs @ e # ys)"
  shows "dll (eh_list_del_init e m) h (xs @ ys) \<and> dll (eh_list_del_init e m) e []"
  using dll_unlink [OF assms] assms
  by (auto simp: eh_list_del_init_def eh_list_head_init_def dll_def elim!: seg_cong)

text \<open>Moving a node, inside its ring and from one ring to another.\<close>

lemma dll_move:
  assumes "dll m h (xs @ e # ys)"
  shows "dll (eh_list_move e h m) h (e # xs @ ys)"
  unfolding eh_list_move_def using dll_unlink [OF assms] assms
  by (intro dll_add) (auto simp: dll_def)

lemma dll_move_tail:
  assumes "dll m h (xs @ e # ys)"
  shows "dll (eh_list_move_tail e h m) h (xs @ ys @ [e])"
  using dll_add_tail [OF dll_unlink [OF assms], of e] assms
  by (auto simp: dll_def eh_list_move_tail_def)

lemma dll_unlink_other:
  assumes "dll m h (xs @ e # ys)" and "dll m h' zs"
    and "set (h # xs @ e # ys) \<inter> set (h' # zs) = {}"
  shows "dll (list_del_between (lprev m e) (lnext m e) m) h' zs"
proof -
  from assms(1) have "lprev m e = last (h # xs)" "lnext m e = hd (ys @ [h])"
    by (auto simp: dll_def dest: seg_ends)
  then have "lprev m e \<in> set (h # xs)" "lnext m e \<in> set (ys @ [h])"
    using last_in_set [of "h # xs"] hd_in_set [of "ys @ [h]"] by simp_all
  then show ?thesis
    using assms(2,3) by (intro dll_cong [OF assms(2)]) (auto simp: list_del_between_def)
qed

lemma dll_move_to:
  assumes "dll m h (xs @ e # ys)" and "dll m h' zs"
    and "set (h # xs @ e # ys) \<inter> set (h' # zs) = {}"
  shows "dll (eh_list_move e h' m) h' (e # zs)"
  unfolding eh_list_move_def using dll_unlink_other [OF assms] assms(3)
  by (intro dll_add) auto

lemma dll_move_tail_to:
  assumes "dll m h (xs @ e # ys)" and "dll m h' zs"
    and "set (h # xs @ e # ys) \<inter> set (h' # zs) = {}"
  shows "dll (eh_list_move_tail e h' m) h' (zs @ [e])"
  unfolding eh_list_move_tail_def using dll_unlink_other [OF assms] assms(3)
  by (intro dll_add_tail) auto

text \<open>
  A head is a node like any other, so moving the head behind one of its nodes rotates the
  represented list: the nodes up to that one become the last.
\<close>

lemma dll_move_head:
  assumes "dll m h (xs @ y # ys)"
  shows "dll (eh_list_move h y m) h (ys @ xs @ [y])"
proof -
  from assms have "dll m y (ys @ h # xs)" by (rule dll_rotate)
  then have "dll (eh_list_move h y m) y ([] @ h # ys @ xs)" using dll_move by auto
  then show ?thesis using dll_rotate by fastforce
qed

text \<open>Splicing one ring in front of another.\<close>

lemma seg_restart:
  assumes "seg m a xs b"
    and "lnext m' a' = hd (xs @ [b])" and "lprev m' (hd (xs @ [b])) = a'"
    and "\<forall>n \<in> set xs. lnext m' n = lnext m n"
    and "\<forall>n \<in> set (tl (xs @ [b])). lprev m' n = lprev m n"
  shows "seg m' a' xs b"
  using assms by (cases xs) (auto elim!: seg_cong)

lemma dll_splice:
  assumes "dll m l xs" and "dll m h ys" and "set (l # xs) \<inter> set (h # ys) = {}"
  shows "dll (eh_list_splice l h m) h (xs @ ys)"
proof (cases "xs = []")
  case True
  with assms show ?thesis by (simp add: eh_list_splice_def dll_empty_iff)
next
  case False
  then obtain us u where xs: "xs = us @ [u]" by (cases xs rule: rev_cases) auto
  define f where "f = hd (us @ [u])"
  define g where "g = hd (ys @ [h])"
  from assms(1) xs have seg1: "seg m l us u" and u: "lprev m l = u" and l: "lnext m l = f"
    and d1: "distinct (l # us @ [u])"
    by (auto simp: dll_def f_def dest: seg_ends)
  from assms(2) have seg2: "seg m h ys h" and h: "lnext m h = g" and d2: "distinct (h # ys)"
    by (auto simp: dll_def g_def dest: seg_ends)
  have f: "f \<in> set (us @ [u])" and g: "g \<in> set (ys @ [h])"
    unfolding f_def g_def by (simp_all only: hd_in_set snoc_eq_iff_butlast append_is_Nil_conv not_Cons_self2 simp_thms)
  define m' where "m' = list_splice_at l h m"
  have m': "lnext m' = (lnext m)(h := f, u := g)" "lprev m' = (lprev m)(f := h, g := u)"
    by (simp_all add: m'_def list_splice_at_def Let_def u l h)
  have tl1: "f \<notin> set (tl (us @ [u]))" using d1 by (cases us) (auto simp: f_def)
  have tl2: "g \<notin> set (tl (ys @ [h]))" using d2 by (cases ys) (auto simp: g_def)
  have sub: "set (tl (us @ [u])) \<subseteq> insert u (set us)" "set (tl (ys @ [h])) \<subseteq> insert h (set ys)"
    by (cases us; auto) (cases ys; auto)
  have dis: "set (l # us @ [u]) \<inter> set (h # ys) = {}" using assms(3) xs by simp
  have "seg m' h us u"
    using f g d1 dis tl1 sub by (intro seg_restart [OF seg1]) (auto simp: m' f_def [symmetric])
  moreover have "seg m' u ys h"
    using f g d2 dis tl2 sub by (intro seg_restart [OF seg2]) (auto simp: m' g_def [symmetric])
  ultimately have "dll m' h (xs @ ys)" using d1 d2 dis by (auto simp: dll_def xs)
  then show ?thesis
    using False assms(1) by (simp add: eh_list_splice_def m'_def dll_empty_iff)
qed

lemma dll_splice_init:
  assumes "dll m l xs" and "dll m h ys" and "set (l # xs) \<inter> set (h # ys) = {}"
  shows "dll (eh_list_splice_init l h m) h (xs @ ys) \<and> dll (eh_list_splice_init l h m) l []"
proof (cases "xs = []")
  case True
  with assms show ?thesis by (simp add: eh_list_splice_init_def dll_empty_iff)
next
  case False
  have "dll (list_splice_at l h m) h (xs @ ys)"
    using dll_splice [OF assms] False assms(1) by (simp add: eh_list_splice_def dll_empty_iff)
  then have "dll (eh_list_head_init l (list_splice_at l h m)) h (xs @ ys)"
    using assms(1,3) by (elim dll_cong) (auto simp: eh_list_head_init_def dll_def)
  then show ?thesis
    using False assms(1) by (simp add: eh_list_splice_init_def dll_empty_iff dll_head_init)
qed

subsection \<open>Traversals\<close>

lemma for_each_seg:
  "seg m a xs h \<Longrightarrow> h \<notin> set xs \<Longrightarrow> eh_list_for_each h (lnext m a) m = Some xs"
proof (induction xs arbitrary: a)
  case Nil
  then show ?case by (simp add: eh_list_for_each.simps)
next
  case (Cons x xs)
  then have "eh_list_for_each h (lnext m x) m = Some xs" by simp
  with Cons.prems show ?case by (simp add: eh_list_for_each.simps [of h x])
qed

lemma for_each_prev_seg:
  "seg m h xs b \<Longrightarrow> h \<notin> set xs \<Longrightarrow> eh_list_for_each_prev h (lprev m b) m = Some (rev xs)"
proof (induction xs arbitrary: b rule: rev_induct)
  case Nil
  then show ?case by (simp add: eh_list_for_each_prev.simps)
next
  case (snoc x xs)
  then have "eh_list_for_each_prev h (lprev m x) m = Some (rev xs)" by simp
  with snoc.prems show ?case by (simp add: eh_list_for_each_prev.simps [of h x])
qed

lemma for_each_dll: "dll m h xs \<Longrightarrow> eh_list_for_each h (lnext m h) m = Some xs"
  by (auto simp: dll_def intro: for_each_seg)

lemma for_each_prev_dll: "dll m h xs \<Longrightarrow> eh_list_for_each_prev h (lprev m h) m = Some (rev xs)"
  by (auto simp: dll_def intro: for_each_prev_seg)

text \<open>
  The safe traversal with a body that unlinks the node it is given visits every node once,
  in order, and leaves the list empty.
\<close>

lemma for_each_safe_drain:
  assumes body: "\<And>m x xs. dll m h (x # xs) \<Longrightarrow> dll (body x m) h xs"
    and "dll m h xs"
  shows "eh_list_for_each_safe body h (lnext m h) (lnext m (lnext m h)) m = Some (fold body xs m)"
    and "dll (fold body xs m) h []"
proof -
  have "eh_list_for_each_safe body h (lnext m h) (lnext m (lnext m h)) m = Some (fold body xs m)
    \<and> dll (fold body xs m) h []"
    using assms(2)
  proof (induction xs arbitrary: m)
    case Nil
    then show ?case by (simp add: dll_def eh_list_for_each_safe.simps)
  next
    case (Cons x xs)
    from Cons.prems have x: "lnext m h = x" "x \<noteq> h" by (auto simp: dll_def)
    from body [OF Cons.prems] have m': "dll (body x m) h xs" .
    have "lnext m x = lnext (body x m) h"
      using Cons.prems m' by (cases xs) (auto simp: dll_def)
    with Cons.IH [OF m'] x show ?case
      by (simp add: eh_list_for_each_safe.simps [of body h x] Let_def)
  qed
  then show "eh_list_for_each_safe body h (lnext m h) (lnext m (lnext m h)) m = Some (fold body xs m)"
    and "dll (fold body xs m) h []" by simp_all
qed

subsection \<open>The interface: a ring of nodes\<close>

text \<open>
  What the scheduler, the events and the hash table rely on: the queue of nodes behind a
  head, with unlinking at any position. The lemmas of the interface are the ones a client
  needs: a queue filled at the tail and emptied at the front is first in, first out.
\<close>

locale node_ring =
  fixes rep :: "'m \<Rightarrow> ptr \<Rightarrow> ptr list \<Rightarrow> bool"
    and init :: "ptr \<Rightarrow> 'm \<Rightarrow> 'm"
    and put_front :: "ptr \<Rightarrow> ptr \<Rightarrow> 'm \<Rightarrow> 'm"
    and put_back :: "ptr \<Rightarrow> ptr \<Rightarrow> 'm \<Rightarrow> 'm"
    and unlink :: "ptr \<Rightarrow> 'm \<Rightarrow> 'm"
    and first :: "'m \<Rightarrow> ptr \<Rightarrow> ptr"
  assumes rep_init: "rep (init h m) h []"
    and rep_front: "rep m h xs \<Longrightarrow> n \<noteq> h \<Longrightarrow> n \<notin> set xs \<Longrightarrow> rep (put_front n h m) h (n # xs)"
    and rep_back: "rep m h xs \<Longrightarrow> n \<noteq> h \<Longrightarrow> n \<notin> set xs \<Longrightarrow> rep (put_back n h m) h (xs @ [n])"
    and rep_unlink: "rep m h (xs @ e # ys) \<Longrightarrow> rep (unlink e m) h (xs @ ys)"
    and rep_first: "rep m h (x # xs) \<Longrightarrow> first m h = x"
    and rep_first_empty: "rep m h [] \<Longrightarrow> first m h = h"
    and rep_distinct: "rep m h xs \<Longrightarrow> distinct (h # xs)"
begin

definition fill :: "ptr list \<Rightarrow> ptr \<Rightarrow> 'm \<Rightarrow> 'm" where
  "fill ns h m = fold (\<lambda>n. put_back n h) ns m"

lemma rep_fill:
  "rep m h xs \<Longrightarrow> distinct (h # xs @ ns) \<Longrightarrow> rep (fill ns h m) h (xs @ ns)"
proof (induction ns arbitrary: m xs)
  case Nil
  then show ?case by (simp add: fill_def)
next
  case (Cons n ns)
  have "rep (put_back n h m) h (xs @ [n])" using Cons.prems by (intro rep_back) auto
  from Cons.IH [OF this] Cons.prems show ?case by (simp add: fill_def)
qed

lemma rep_remove1: "rep m h xs \<Longrightarrow> e \<in> set xs \<Longrightarrow> rep (unlink e m) h (remove1 e xs)"
proof -
  assume rep: "rep m h xs" and "e \<in> set xs"
  then obtain ys zs where xs: "xs = ys @ e # zs" "e \<notin> set ys" by (meson split_list_first)
  with rep_unlink [of m h ys e zs] rep show ?thesis by (simp add: remove1_split)
qed

lemma fifo:
  assumes "distinct (h # ns)" and "ns \<noteq> []"
  shows "first (fill ns h (init h m)) h = hd ns"
    and "rep (unlink (hd ns) (fill ns h (init h m))) h (tl ns)"
proof -
  obtain n ms where [simp]: "ns = n # ms" using assms(2) by (cases ns) auto
  have "rep (fill ns h (init h m)) h ns" using rep_fill [OF rep_init, of h ns] assms(1) by simp
  then show "first (fill ns h (init h m)) h = hd ns"
    and "rep (unlink (hd ns) (fill ns h (init h m))) h (tl ns)"
    using rep_first rep_unlink [of _ h "[]"] by auto
qed

end

interpretation ring: node_ring dll eh_list_head_init eh_list_add eh_list_add_tail eh_list_del_init lnext
proof (unfold_locales, goal_cases)
  case (4 m h xs e ys)
  then show ?case using dll_del_init by blast
next
  case (5 m h x xs)
  then show ?case by (rule dll_first)
next
  case (6 m h)
  then show ?case by (simp add: dll_def)
next
  case (7 m h xs)
  then show ?case by (simp add: dll_def)
qed (simp_all add: dll_head_init dll_add dll_add_tail)

end
