(* ===== verification/Eh_Rbtree.thy ===== *)
theory Eh_Rbtree
  imports Eh_Prelude
begin

text \<open>
  The intrusive red-black tree of \<^verbatim>\<open>src/src/general/eh_rbtree.c\<close> and
  \<^verbatim>\<open>eh_rbtree.h\<close> at pointer level: nodes with a packed parent-and-colour word
  and two child pointers, a root with a cached leftmost node, and every function as the
  same sequence of reads, tests and writes.

  A node pointer is represented by the node's address divided by 4 (the nodes are
  \<open>eh_aligned(sizeof(long))\<close>, so the two low bits of an address are 0), which makes the
  packing of \<open>parent_and_color\<close> exact: the word \<open>pc\<close> holds \<open>4 * parent + colour\<close>,
  \<open>pc & ~3\<close> is the parent \<open>pc div 4\<close> and \<open>pc & 1\<close> is the colour
  \<open>pc mod 2\<close>. The pointer 0 is \<open>NULL\<close>. A loop that follows pointers need not
  end on a broken tree, so the functions with a loop return an option; that they return on
  every well-formed tree is proved in the theories on the proofs.
\<close>

subsection \<open>Nodes, root and memory\<close>

record rbnode =
  parent_and_color :: nat
  rb_right :: ptr
  rb_left :: ptr

record rbtree =
  rb_node :: ptr
  rb_leftmost :: ptr
  rb_mem :: "ptr \<Rightarrow> rbnode"

definition RB_RED :: nat where "RB_RED = 0"
definition RB_BLACK :: nat where "RB_BLACK = 1"

definition pc_pack :: "ptr \<Rightarrow> nat \<Rightarrow> nat" where
  "pc_pack p c = 4 * p + c"

definition pc_parent :: "nat \<Rightarrow> ptr" where
  "pc_parent pc = pc div 4"

definition pc_is_black :: "nat \<Rightarrow> bool" where
  "pc_is_black pc \<longleftrightarrow> pc mod 2 = RB_BLACK"

abbreviation pac :: "rbtree \<Rightarrow> ptr \<Rightarrow> nat" where
  "pac t n \<equiv> parent_and_color (rb_mem t n)"

definition rb_parent :: "rbtree \<Rightarrow> ptr \<Rightarrow> ptr" where
  "rb_parent t n = pc_parent (pac t n)"

definition rb_is_black :: "rbtree \<Rightarrow> ptr \<Rightarrow> bool" where
  "rb_is_black t n = pc_is_black (pac t n)"

definition rb_is_red :: "rbtree \<Rightarrow> ptr \<Rightarrow> bool" where
  "rb_is_red t n \<longleftrightarrow> \<not> rb_is_black t n"

definition rb_color :: "rbtree \<Rightarrow> ptr \<Rightarrow> nat" where
  "rb_color t n = pac t n mod 2"

abbreviation left_of :: "rbtree \<Rightarrow> ptr \<Rightarrow> ptr" where
  "left_of t n \<equiv> rb_left (rb_mem t n)"

abbreviation right_of :: "rbtree \<Rightarrow> ptr \<Rightarrow> ptr" where
  "right_of t n \<equiv> rb_right (rb_mem t n)"

definition set_left :: "ptr \<Rightarrow> ptr \<Rightarrow> rbtree \<Rightarrow> rbtree" where
  "set_left n v t = t\<lparr>rb_mem := (rb_mem t)(n := (rb_mem t n)\<lparr>rb_left := v\<rparr>)\<rparr>"

definition set_right :: "ptr \<Rightarrow> ptr \<Rightarrow> rbtree \<Rightarrow> rbtree" where
  "set_right n v t = t\<lparr>rb_mem := (rb_mem t)(n := (rb_mem t n)\<lparr>rb_right := v\<rparr>)\<rparr>"

definition set_pac :: "ptr \<Rightarrow> nat \<Rightarrow> rbtree \<Rightarrow> rbtree" where
  "set_pac n v t = t\<lparr>rb_mem := (rb_mem t)(n := (rb_mem t n)\<lparr>parent_and_color := v\<rparr>)\<rparr>"

definition set_root :: "ptr \<Rightarrow> rbtree \<Rightarrow> rbtree" where
  "set_root v t = t\<lparr>rb_node := v\<rparr>"

definition set_leftmost :: "ptr \<Rightarrow> rbtree \<Rightarrow> rbtree" where
  "set_leftmost v t = t\<lparr>rb_leftmost := v\<rparr>"

definition eh_rb_root_init :: "rbtree \<Rightarrow> rbtree" where
  "eh_rb_root_init t = set_leftmost NULL (set_root NULL t)"

definition eh_rb_root_is_empty :: "rbtree \<Rightarrow> bool" where
  "eh_rb_root_is_empty t \<longleftrightarrow> rb_node t = NULL"

definition eh_rb_node_init :: "ptr \<Rightarrow> rbtree \<Rightarrow> rbtree" where
  "eh_rb_node_init n t = set_right n NULL (set_left n NULL (set_pac n (4 * n) t))"

definition eh_rb_node_is_empty :: "rbtree \<Rightarrow> ptr \<Rightarrow> bool" where
  "eh_rb_node_is_empty t n \<longleftrightarrow> pac t n = 4 * n"

definition eh_rb_first :: "rbtree \<Rightarrow> ptr" where
  "eh_rb_first t = rb_leftmost t"

subsection \<open>Helpers\<close>

definition rb_set_parent :: "ptr \<Rightarrow> ptr \<Rightarrow> rbtree \<Rightarrow> rbtree" where
  "rb_set_parent rb p t = set_pac rb (rb_color t rb + 4 * p) t"

definition rb_set_parent_color :: "ptr \<Rightarrow> ptr \<Rightarrow> nat \<Rightarrow> rbtree \<Rightarrow> rbtree" where
  "rb_set_parent_color rb p color t = set_pac rb (pc_pack p color) t"

definition rb_change_child :: "ptr \<Rightarrow> ptr \<Rightarrow> ptr \<Rightarrow> rbtree \<Rightarrow> rbtree" where
  "rb_change_child old new parent t =
     (if parent \<noteq> NULL then
        (if left_of t parent = old then set_left parent new t else set_right parent new t)
      else set_root new t)"

partial_function (option) rb_left_deepest_node :: "ptr \<Rightarrow> rbtree \<Rightarrow> ptr option" where
  "rb_left_deepest_node node t =
     (if left_of t node \<noteq> NULL then rb_left_deepest_node (left_of t node) t
      else if right_of t node \<noteq> NULL then rb_left_deepest_node (right_of t node) t
      else Some node)"

definition rb_set_black :: "ptr \<Rightarrow> rbtree \<Rightarrow> rbtree" where
  "rb_set_black rb t = set_pac rb (or (pac t rb) RB_BLACK) t"

definition rb_red_parent :: "rbtree \<Rightarrow> ptr \<Rightarrow> ptr" where
  "rb_red_parent t red = pac t red div 4"

text \<open>The place a new node is linked at: the root pointer or a child pointer of a node.\<close>

datatype rb_link = LinkRoot | LinkLeft ptr | LinkRight ptr

definition link_get :: "rb_link \<Rightarrow> rbtree \<Rightarrow> ptr" where
  "link_get l t = (case l of LinkRoot \<Rightarrow> rb_node t | LinkLeft p \<Rightarrow> left_of t p | LinkRight p \<Rightarrow> right_of t p)"

definition link_set :: "rb_link \<Rightarrow> ptr \<Rightarrow> rbtree \<Rightarrow> rbtree" where
  "link_set l v t = (case l of LinkRoot \<Rightarrow> set_root v t | LinkLeft p \<Rightarrow> set_left p v t | LinkRight p \<Rightarrow> set_right p v t)"

definition rb_link_node :: "ptr \<Rightarrow> ptr \<Rightarrow> rb_link \<Rightarrow> rbtree \<Rightarrow> rbtree" where
  "rb_link_node node parent link t =
     link_set link node (set_left node NULL (set_right node NULL (set_pac node (4 * parent) t)))"

definition rb_rotate_set_parents :: "ptr \<Rightarrow> ptr \<Rightarrow> nat \<Rightarrow> rbtree \<Rightarrow> rbtree" where
  "rb_rotate_set_parents old new color t =
     (let parent = rb_parent t old;
          t = set_pac new (pac t old) t;
          t = rb_set_parent_color old new color t
      in rb_change_child old new parent t)"

abbreviation unless_null :: "ptr \<Rightarrow> (rbtree \<Rightarrow> rbtree) \<Rightarrow> rbtree \<Rightarrow> rbtree" where
  "unless_null p f t \<equiv> (if p \<noteq> NULL then f t else t)"

subsection \<open>Rebalancing after an insertion\<close>

text \<open>
  \<open>__rb_insert\<close>: the loop of the C function, with its two symmetric branches. The cases
  2 and 3 of a branch run once and leave the loop.
\<close>

definition rb_insert_case2_left :: "ptr \<Rightarrow> ptr \<Rightarrow> rbtree \<Rightarrow> rbtree" where
  "rb_insert_case2_left node parent t =
     (let tmp = left_of t node;
          t = set_right parent tmp t;
          t = set_left node parent t;
          t = unless_null tmp (rb_set_parent_color tmp parent RB_BLACK) t
      in rb_set_parent_color parent node RB_RED t)"

definition rb_insert_case3_left :: "ptr \<Rightarrow> ptr \<Rightarrow> ptr \<Rightarrow> rbtree \<Rightarrow> rbtree" where
  "rb_insert_case3_left tmp parent gparent t =
     (let t = set_left gparent tmp t;
          t = set_right parent gparent t;
          t = unless_null tmp (rb_set_parent_color tmp gparent RB_BLACK) t
      in rb_rotate_set_parents gparent parent RB_RED t)"

definition rb_insert_case23_left :: "ptr \<Rightarrow> ptr \<Rightarrow> ptr \<Rightarrow> rbtree \<Rightarrow> rbtree" where
  "rb_insert_case23_left node parent gparent t =
     (let tmp = right_of t parent
      in if node = tmp then
           (let t = rb_insert_case2_left node parent t; parent = node; tmp = right_of t node
            in rb_insert_case3_left tmp parent gparent t)
         else rb_insert_case3_left tmp parent gparent t)"

definition rb_insert_case2_right :: "ptr \<Rightarrow> ptr \<Rightarrow> rbtree \<Rightarrow> rbtree" where
  "rb_insert_case2_right node parent t =
     (let tmp = right_of t node;
          t = set_left parent tmp t;
          t = set_right node parent t;
          t = unless_null tmp (rb_set_parent_color tmp parent RB_BLACK) t
      in rb_set_parent_color parent node RB_RED t)"

definition rb_insert_case3_right :: "ptr \<Rightarrow> ptr \<Rightarrow> ptr \<Rightarrow> rbtree \<Rightarrow> rbtree" where
  "rb_insert_case3_right tmp parent gparent t =
     (let t = set_right gparent tmp t;
          t = set_left parent gparent t;
          t = unless_null tmp (rb_set_parent_color tmp gparent RB_BLACK) t
      in rb_rotate_set_parents gparent parent RB_RED t)"

definition rb_insert_case23_right :: "ptr \<Rightarrow> ptr \<Rightarrow> ptr \<Rightarrow> rbtree \<Rightarrow> rbtree" where
  "rb_insert_case23_right node parent gparent t =
     (let tmp = left_of t parent
      in if node = tmp then
           (let t = rb_insert_case2_right node parent t; parent = node; tmp = left_of t node
            in rb_insert_case3_right tmp parent gparent t)
         else rb_insert_case3_right tmp parent gparent t)"

definition rb_insert_case1 :: "ptr \<Rightarrow> ptr \<Rightarrow> ptr \<Rightarrow> rbtree \<Rightarrow> rbtree" where
  "rb_insert_case1 tmp parent gparent t =
     (let t = rb_set_parent_color tmp gparent RB_BLACK t;
          t = rb_set_parent_color parent gparent RB_BLACK t
      in rb_set_parent_color gparent (rb_parent t gparent) RB_RED t)"

partial_function (option) rb_insert_loop :: "ptr \<Rightarrow> ptr \<Rightarrow> rbtree \<Rightarrow> rbtree option" where
  "rb_insert_loop node parent t =
     (if parent = NULL then Some (rb_set_parent_color node NULL RB_BLACK t)
      else if rb_is_black t parent then Some t
      else
        (let gparent = rb_red_parent t parent;
             tmp = right_of t gparent
         in if parent \<noteq> tmp then
              (if tmp \<noteq> NULL \<and> rb_is_red t tmp then
                 (let t' = rb_insert_case1 tmp parent gparent t
                  in rb_insert_loop gparent (rb_parent t' gparent) t')
               else Some (rb_insert_case23_left node parent gparent t))
            else
              (let tmp = left_of t gparent
               in if tmp \<noteq> NULL \<and> rb_is_red t tmp then
                    (let t' = rb_insert_case1 tmp parent gparent t
                     in rb_insert_loop gparent (rb_parent t' gparent) t')
                  else Some (rb_insert_case23_right node parent gparent t))))"

definition rb_insert_color :: "ptr \<Rightarrow> rbtree \<Rightarrow> rbtree option" where
  "rb_insert_color node t = rb_insert_loop node (rb_red_parent t node) t"

subsection \<open>Rebalancing after a deletion\<close>

text \<open>
  \<open>____rb_erase_color\<close>: one round of the loop for each side returns the tree and, for
  the case that moves up (\<open>continue\<close>), the next node and parent.
\<close>

definition rb_erase_flip :: "ptr \<Rightarrow> ptr \<Rightarrow> rbtree \<Rightarrow> rbtree \<times> (ptr \<times> ptr) option" where
  "rb_erase_flip sibling parent t =
     (let t = rb_set_parent_color sibling parent RB_RED t
      in if rb_is_red t parent then (rb_set_black parent t, None)
         else (let node = parent; parent = rb_parent t node
               in (t, if parent \<noteq> NULL then Some (node, parent) else None)))"

definition rb_erase_case1_left :: "ptr \<Rightarrow> ptr \<Rightarrow> rbtree \<Rightarrow> rbtree" where
  "rb_erase_case1_left parent sibling t =
     (let tmp1 = left_of t sibling;
          t = set_right parent tmp1 t;
          t = set_left sibling parent t;
          t = rb_set_parent_color tmp1 parent RB_BLACK t
      in rb_rotate_set_parents parent sibling RB_RED t)"

definition rb_erase_case3_left :: "ptr \<Rightarrow> ptr \<Rightarrow> ptr \<Rightarrow> rbtree \<Rightarrow> rbtree" where
  "rb_erase_case3_left parent sibling tmp2 t =
     (let tmp1 = right_of t tmp2;
          t = set_left sibling tmp1 t;
          t = set_right tmp2 sibling t;
          t = set_right parent tmp2 t
      in unless_null tmp1 (rb_set_parent_color tmp1 sibling RB_BLACK) t)"

definition rb_erase_case4_left :: "ptr \<Rightarrow> ptr \<Rightarrow> ptr \<Rightarrow> rbtree \<Rightarrow> rbtree" where
  "rb_erase_case4_left parent sibling tmp1 t =
     (let tmp2 = left_of t sibling;
          t = set_right parent tmp2 t;
          t = set_left sibling parent t;
          t = rb_set_parent_color tmp1 sibling RB_BLACK t;
          t = unless_null tmp2 (rb_set_parent tmp2 parent) t
      in rb_rotate_set_parents parent sibling RB_BLACK t)"

definition rb_erase_balance_left :: "ptr \<Rightarrow> ptr \<Rightarrow> rbtree \<Rightarrow> rbtree \<times> (ptr \<times> ptr) option" where
  "rb_erase_balance_left parent sibling t =
     (let tmp1 = right_of t sibling
      in if tmp1 = NULL \<or> rb_is_black t tmp1 then
           (let tmp2 = left_of t sibling
            in if tmp2 = NULL \<or> rb_is_black t tmp2 then rb_erase_flip sibling parent t
               else (rb_erase_case4_left parent tmp2 sibling (rb_erase_case3_left parent sibling tmp2 t), None))
         else (rb_erase_case4_left parent sibling tmp1 t, None))"

definition rb_erase_left :: "ptr \<Rightarrow> rbtree \<Rightarrow> rbtree \<times> (ptr \<times> ptr) option" where
  "rb_erase_left parent t =
     (let sibling = right_of t parent
      in if rb_is_red t sibling then
           (let tmp1 = left_of t sibling; t = rb_erase_case1_left parent sibling t
            in rb_erase_balance_left parent tmp1 t)
         else rb_erase_balance_left parent sibling t)"

definition rb_erase_case1_right :: "ptr \<Rightarrow> ptr \<Rightarrow> rbtree \<Rightarrow> rbtree" where
  "rb_erase_case1_right parent sibling t =
     (let tmp1 = right_of t sibling;
          t = set_left parent tmp1 t;
          t = set_right sibling parent t;
          t = rb_set_parent_color tmp1 parent RB_BLACK t
      in rb_rotate_set_parents parent sibling RB_RED t)"

definition rb_erase_case3_right :: "ptr \<Rightarrow> ptr \<Rightarrow> ptr \<Rightarrow> rbtree \<Rightarrow> rbtree" where
  "rb_erase_case3_right parent sibling tmp2 t =
     (let tmp1 = left_of t tmp2;
          t = set_right sibling tmp1 t;
          t = set_left tmp2 sibling t;
          t = set_left parent tmp2 t
      in unless_null tmp1 (rb_set_parent_color tmp1 sibling RB_BLACK) t)"

definition rb_erase_case4_right :: "ptr \<Rightarrow> ptr \<Rightarrow> ptr \<Rightarrow> rbtree \<Rightarrow> rbtree" where
  "rb_erase_case4_right parent sibling tmp1 t =
     (let tmp2 = right_of t sibling;
          t = set_left parent tmp2 t;
          t = set_right sibling parent t;
          t = rb_set_parent_color tmp1 sibling RB_BLACK t;
          t = unless_null tmp2 (rb_set_parent tmp2 parent) t
      in rb_rotate_set_parents parent sibling RB_BLACK t)"

definition rb_erase_balance_right :: "ptr \<Rightarrow> ptr \<Rightarrow> rbtree \<Rightarrow> rbtree \<times> (ptr \<times> ptr) option" where
  "rb_erase_balance_right parent sibling t =
     (let tmp1 = left_of t sibling
      in if tmp1 = NULL \<or> rb_is_black t tmp1 then
           (let tmp2 = right_of t sibling
            in if tmp2 = NULL \<or> rb_is_black t tmp2 then rb_erase_flip sibling parent t
               else (rb_erase_case4_right parent tmp2 sibling (rb_erase_case3_right parent sibling tmp2 t), None))
         else (rb_erase_case4_right parent sibling tmp1 t, None))"

definition rb_erase_right :: "ptr \<Rightarrow> rbtree \<Rightarrow> rbtree \<times> (ptr \<times> ptr) option" where
  "rb_erase_right parent t =
     (let sibling = left_of t parent
      in if rb_is_red t sibling then
           (let tmp1 = right_of t sibling; t = rb_erase_case1_right parent sibling t
            in rb_erase_balance_right parent tmp1 t)
         else rb_erase_balance_right parent sibling t)"

partial_function (option) rb_erase_loop :: "ptr \<Rightarrow> ptr \<Rightarrow> rbtree \<Rightarrow> rbtree option" where
  "rb_erase_loop node parent t =
     (case (if node \<noteq> right_of t parent then rb_erase_left parent t else rb_erase_right parent t) of
        (t', None) \<Rightarrow> Some t'
      | (t', Some (node', parent')) \<Rightarrow> rb_erase_loop node' parent' t')"

definition rb_erase_color :: "ptr \<Rightarrow> rbtree \<Rightarrow> rbtree option" where
  "rb_erase_color parent t = rb_erase_loop NULL parent t"

subsection \<open>Unlinking a node\<close>

text \<open>
  The \<open>do .. while\<close> loop that finds the successor below the right child: it returns the
  successor and its parent.
\<close>

partial_function (option) rb_del_successor :: "ptr \<Rightarrow> ptr \<Rightarrow> rbtree \<Rightarrow> (ptr \<times> ptr) option" where
  "rb_del_successor successor tmp t =
     (let parent = successor; successor = tmp; tmp = left_of t tmp
      in if tmp \<noteq> NULL then rb_del_successor successor tmp t else Some (successor, parent))"

definition rb_del_replace ::
  "ptr \<Rightarrow> ptr \<Rightarrow> ptr \<Rightarrow> ptr \<Rightarrow> rbtree \<Rightarrow> ptr \<times> rbtree" where
  "rb_del_replace node successor parent child2 t =
     (let tmp = left_of t node;
          t = set_left successor tmp t;
          t = rb_set_parent tmp successor t;
          pc = pac t node;
          tmp = pc_parent pc;
          t = rb_change_child node successor tmp t;
          (rebalance, t) =
            (if child2 \<noteq> NULL then (NULL, rb_set_parent_color child2 parent RB_BLACK t)
             else (if rb_is_black t successor then parent else NULL, t));
          t = set_pac successor pc t
      in (rebalance, t))"

definition rb_del_node :: "ptr \<Rightarrow> rbtree \<Rightarrow> (ptr \<times> rbtree) option" where
  "rb_del_node node t =
     (let child = right_of t node;
          tmp = left_of t node
      in if tmp = NULL then
           (let pc = pac t node;
                parent = pc_parent pc;
                t = rb_change_child node child parent t
            in if child \<noteq> NULL then Some (NULL, set_pac child pc t)
               else Some (if pc_is_black pc then parent else NULL, t))
         else if child = NULL then
           (let pc = pac t node;
                t = set_pac tmp pc t;
                parent = pc_parent pc
            in Some (NULL, rb_change_child node tmp parent t))
         else if left_of t child = NULL then
           Some (rb_del_replace node child child (right_of t child) t)
         else do {
           (successor, parent) \<leftarrow> rb_del_successor child (left_of t child) t;
           let child2 = right_of t successor;
           let t = set_left parent child2 t;
           let t = set_right successor child t;
           let t = rb_set_parent child successor t;
           Some (rb_del_replace node successor parent child2 t)
         })"

subsection \<open>Neighbours\<close>

partial_function (option) rb_walk_left :: "ptr \<Rightarrow> rbtree \<Rightarrow> ptr option" where
  "rb_walk_left node t =
     (if left_of t node \<noteq> NULL then rb_walk_left (left_of t node) t else Some node)"

partial_function (option) rb_walk_right :: "ptr \<Rightarrow> rbtree \<Rightarrow> ptr option" where
  "rb_walk_right node t =
     (if right_of t node \<noteq> NULL then rb_walk_right (right_of t node) t else Some node)"

partial_function (option) rb_climb_right :: "ptr \<Rightarrow> rbtree \<Rightarrow> ptr option" where
  "rb_climb_right node t =
     (let parent = rb_parent t node
      in if parent \<noteq> NULL \<and> node = right_of t parent then rb_climb_right parent t else Some parent)"

partial_function (option) rb_climb_left :: "ptr \<Rightarrow> rbtree \<Rightarrow> ptr option" where
  "rb_climb_left node t =
     (let parent = rb_parent t node
      in if parent \<noteq> NULL \<and> node = left_of t parent then rb_climb_left parent t else Some parent)"

definition eh_rb_last :: "rbtree \<Rightarrow> ptr option" where
  "eh_rb_last t = (let n = rb_node t in if n = NULL then Some NULL else rb_walk_right n t)"

definition eh_rb_next :: "ptr \<Rightarrow> rbtree \<Rightarrow> ptr option" where
  "eh_rb_next node t =
     (if eh_rb_node_is_empty t node then Some NULL
      else if right_of t node \<noteq> NULL then rb_walk_left (right_of t node) t
      else rb_climb_right node t)"

definition eh_rb_prev :: "ptr \<Rightarrow> rbtree \<Rightarrow> ptr option" where
  "eh_rb_prev node t =
     (if eh_rb_node_is_empty t node then Some NULL
      else if left_of t node \<noteq> NULL then rb_walk_right (left_of t node) t
      else rb_climb_left node t)"

definition eh_rb_del :: "ptr \<Rightarrow> rbtree \<Rightarrow> (ptr \<times> rbtree) option" where
  "eh_rb_del node t =
     do {
       (leftmost, t) \<leftarrow>
         (if rb_leftmost t = node
          then do { nx \<leftarrow> eh_rb_next node t; Some (nx, set_leftmost nx t) }
          else Some (NULL, t));
       (rebalance, t) \<leftarrow> rb_del_node node t;
       t \<leftarrow> (if rebalance \<noteq> NULL then rb_erase_color rebalance t else Some t);
       Some (leftmost, t)
     }"

definition rb_replace_node :: "ptr \<Rightarrow> ptr \<Rightarrow> rbtree \<Rightarrow> rbtree" where
  "rb_replace_node victim new t =
     (let parent = rb_parent t victim;
          t = t\<lparr>rb_mem := (rb_mem t)(new := rb_mem t victim)\<rparr>;
          t = unless_null (left_of t victim) (rb_set_parent (left_of t victim) new) t;
          t = unless_null (right_of t victim) (rb_set_parent (right_of t victim) new) t
      in rb_change_child victim new parent t)"

subsection \<open>Insertion and search\<close>

text \<open>
  The comparison function of a root is an argument; it returns a negative, zero or positive
  \<open>int\<close>. \<open>eh_rb_find_new_add\<close> calls a constructor for the new node, which may fail.
\<close>

partial_function (option) rb_add_search ::
  "(ptr \<Rightarrow> int) \<Rightarrow> rb_link \<Rightarrow> ptr \<Rightarrow> bool \<Rightarrow> rbtree \<Rightarrow> (rb_link \<times> ptr \<times> bool) option" where
  "rb_add_search cmp link parent leftmost t =
     (if link_get link t \<noteq> NULL then
        (let parent = link_get link t
         in if cmp parent < 0 then rb_add_search cmp (LinkLeft parent) parent leftmost t
            else rb_add_search cmp (LinkRight parent) parent False t)
      else Some (link, parent, leftmost))"

definition eh_rb_add :: "(ptr \<Rightarrow> ptr \<Rightarrow> int) \<Rightarrow> ptr \<Rightarrow> rbtree \<Rightarrow> (ptr \<times> rbtree) option" where
  "eh_rb_add cmp node t =
     do {
       (link, parent, leftmost) \<leftarrow> rb_add_search (cmp node) LinkRoot NULL True t;
       let t = rb_link_node node parent link t;
       let t = (if leftmost then set_leftmost node t else t);
       t \<leftarrow> rb_insert_color node t;
       Some (if leftmost then node else NULL, t)
     }"

text \<open>The search of \<open>eh_rb_find_add\<close> and \<open>eh_rb_find_new_add\<close> stops at an equal node.\<close>

partial_function (option) rb_find_search ::
  "(ptr \<Rightarrow> int) \<Rightarrow> rb_link \<Rightarrow> ptr \<Rightarrow> bool \<Rightarrow> rbtree \<Rightarrow> (ptr + rb_link \<times> ptr \<times> bool) option" where
  "rb_find_search cmp link parent leftmost t =
     (if link_get link t \<noteq> NULL then
        (let parent = link_get link t; c = cmp parent
         in if c < 0 then rb_find_search cmp (LinkLeft parent) parent leftmost t
            else if c > 0 then rb_find_search cmp (LinkRight parent) parent False t
            else Some (Inl parent))
      else Some (Inr (link, parent, leftmost)))"

definition eh_rb_find_add :: "(ptr \<Rightarrow> ptr \<Rightarrow> int) \<Rightarrow> ptr \<Rightarrow> rbtree \<Rightarrow> (ptr \<times> rbtree) option" where
  "eh_rb_find_add cmp node t =
     do {
       r \<leftarrow> rb_find_search (cmp node) LinkRoot NULL True t;
       (case r of
          Inl found \<Rightarrow> Some (found, t)
        | Inr (link, parent, leftmost) \<Rightarrow> do {
            let t = rb_link_node node parent link t;
            let t = (if leftmost then set_leftmost node t else t);
            t \<leftarrow> rb_insert_color node t;
            Some (node, t)
          })
     }"

definition eh_rb_find_new_add ::
  "(ptr \<Rightarrow> int) \<Rightarrow> ptr option \<Rightarrow> rbtree \<Rightarrow> (ptr \<times> rbtree) option" where
  "eh_rb_find_new_add cmp_key new_node t =
     do {
       r \<leftarrow> rb_find_search cmp_key LinkRoot NULL True t;
       (case r of
          Inl found \<Rightarrow> Some (found, t)
        | Inr (link, parent, leftmost) \<Rightarrow>
            (case new_node of
               None \<Rightarrow> Some (NULL, t)
             | Some node \<Rightarrow> do {
                 let t = rb_link_node node parent link t;
                 let t = (if leftmost then set_leftmost node t else t);
                 t \<leftarrow> rb_insert_color node t;
                 Some (node, t)
               }))
     }"

partial_function (option) rb_match_find :: "(ptr \<Rightarrow> int) \<Rightarrow> ptr \<Rightarrow> rbtree \<Rightarrow> ptr option" where
  "rb_match_find match node t =
     (if node \<noteq> NULL then
        (let c = match node
         in if c < 0 then rb_match_find match (left_of t node) t
            else if c > 0 then rb_match_find match (right_of t node) t
            else Some node)
      else Some NULL)"

definition eh_rb_match_find :: "(ptr \<Rightarrow> int) \<Rightarrow> rbtree \<Rightarrow> ptr option" where
  "eh_rb_match_find match t = rb_match_find match (rb_node t) t"

partial_function (option) rb_find_first :: "(ptr \<Rightarrow> int) \<Rightarrow> ptr \<Rightarrow> ptr \<Rightarrow> rbtree \<Rightarrow> ptr option" where
  "rb_find_first match match_node node t =
     (if node \<noteq> NULL then
        (let c = match node
         in if c \<le> 0 then rb_find_first match (if c = 0 then node else match_node) (left_of t node) t
            else rb_find_first match match_node (right_of t node) t)
      else Some match_node)"

definition eh_rb_find_first :: "(ptr \<Rightarrow> int) \<Rightarrow> rbtree \<Rightarrow> ptr option" where
  "eh_rb_find_first match t = rb_find_first match NULL (rb_node t) t"

definition eh_rb_next_match :: "(ptr \<Rightarrow> int) \<Rightarrow> ptr \<Rightarrow> rbtree \<Rightarrow> ptr option" where
  "eh_rb_next_match match node t =
     do {
       node \<leftarrow> eh_rb_next node t;
       Some (if node \<noteq> NULL \<and> match node \<noteq> 0 then NULL else node)
     }"

subsection \<open>Traversal in postorder\<close>

definition rb_next_postorder :: "ptr \<Rightarrow> rbtree \<Rightarrow> ptr option" where
  "rb_next_postorder node t =
     (if node = NULL then Some NULL
      else (let parent = rb_parent t node
            in if parent \<noteq> NULL \<and> node = left_of t parent \<and> right_of t parent \<noteq> NULL
               then rb_left_deepest_node (right_of t parent) t
               else Some parent))"

definition rb_first_postorder :: "rbtree \<Rightarrow> ptr option" where
  "rb_first_postorder t =
     (if rb_node t = NULL then Some NULL else rb_left_deepest_node (rb_node t) t)"

partial_function (option) eh_rb_postorder_from :: "ptr \<Rightarrow> rbtree \<Rightarrow> ptr list option" where
  "eh_rb_postorder_from pos t =
     (if pos = NULL then Some []
      else do {
        n \<leftarrow> rb_next_postorder pos t;
        ns \<leftarrow> eh_rb_postorder_from n t;
        Some (pos # ns)
      })"

definition eh_rb_postorder_for_each :: "rbtree \<Rightarrow> ptr list option" where
  "eh_rb_postorder_for_each t = do { p \<leftarrow> rb_first_postorder t; eh_rb_postorder_from p t }"

partial_function (option) eh_rb_next_from :: "ptr \<Rightarrow> rbtree \<Rightarrow> ptr list option" where
  "eh_rb_next_from pos t =
     (if pos = NULL then Some []
      else do { n \<leftarrow> eh_rb_next pos t; ns \<leftarrow> eh_rb_next_from n t; Some (pos # ns) })"

definition eh_rb_next_for_each :: "rbtree \<Rightarrow> ptr list option" where
  "eh_rb_next_for_each t = eh_rb_next_from (eh_rb_first t) t"

end
