(* ===== verification/Eh_Rbtree_Fun.thy ===== *)
theory Eh_Rbtree_Fun
  imports Eh_Prelude "HOL-Library.Tree"
begin

text \<open>
  The red-black tree algorithms of \<^verbatim>\<open>eh_rbtree.c\<close> on trees instead of pointers: a
  tree whose nodes carry the node pointer and its colour (\<open>True\<close> is black), and a context
  (the frames from a subtree up to the root) for a position inside it. The functions
  \<open>ins_fix\<close>, \<open>del_fix\<close> and \<open>unlink\<close> are what the pointer code does to that
  tree; this theory shows that they keep the order of the nodes and the red-black invariant.
  The theory \<open>Eh_Rbtree_Sim\<close> shows that the pointer code implements them.
\<close>

subsection \<open>Trees and contexts\<close>

type_synonym ctree = "(ptr \<times> bool) tree"

datatype frame = FL ptr bool ctree | FR ptr bool ctree

fun nodes :: "ctree \<Rightarrow> ptr list" where
  "nodes Leaf = []"
| "nodes (Node l (a, b) r) = nodes l @ a # nodes r"

fun black :: "ctree \<Rightarrow> bool" where
  "black Leaf = True"
| "black (Node l (a, b) r) = b"

fun paint :: "bool \<Rightarrow> ctree \<Rightarrow> ctree" where
  "paint c Leaf = Leaf"
| "paint c (Node l (a, b) r) = Node l (a, c) r"

fun plug :: "frame list \<Rightarrow> ctree \<Rightarrow> ctree" where
  "plug [] s = s"
| "plug (FL a b r # c) s = plug c (Node s (a, b) r)"
| "plug (FR a b l # c) s = plug c (Node l (a, b) s)"

fun before :: "frame list \<Rightarrow> ptr list" where
  "before [] = []"
| "before (FL a b r # c) = before c"
| "before (FR a b l # c) = before c @ nodes l @ [a]"

fun after :: "frame list \<Rightarrow> ptr list" where
  "after [] = []"
| "after (FL a b r # c) = a # nodes r @ after c"
| "after (FR a b l # c) = after c"

fun par :: "frame list \<Rightarrow> ptr" where
  "par [] = NULL"
| "par (FL a b r # c) = a"
| "par (FR a b l # c) = a"

lemma nodes_plug: "nodes (plug c s) = before c @ nodes s @ after c"
  by (induction c s rule: plug.induct) auto

lemma nodes_paint [simp]: "nodes (paint b s) = nodes s"
  by (induction b s rule: paint.induct) auto

lemma black_paint [simp]: "black (paint True s)"
  by (cases s) auto

lemma paint_black [simp]: "black s \<Longrightarrow> paint True s = s"
  by (cases s) auto

lemma plug_append: "plug (c @ d) s = plug d (plug c s)"
  by (induction c s rule: plug.induct) auto

lemma before_append: "before (c @ d) = before d @ before c"
  by (induction c rule: before.induct) auto

lemma after_append: "after (c @ d) = after c @ after d"
  by (induction c rule: after.induct) auto

lemma par_in_ctx: "c \<noteq> [] \<Longrightarrow> par c \<in> set (before c) \<union> set (after c)"
  by (cases c rule: par.cases) auto

lemma focus: "n \<in> set (nodes s) \<Longrightarrow> \<exists>c l b r. s = plug c (Node l (n, b) r)"
proof (induction s)
  case (Node l x r)
  obtain a b where x: "x = (a, b)" by (cases x)
  consider "n = a" | "n \<in> set (nodes l)" | "n \<in> set (nodes r)"
    using Node.prems x by auto
  then show ?case
  proof cases
    case 1
    then have "Node l x r = plug [] (Node l (n, b) r)" using x by simp
    then show ?thesis by blast
  next
    case 2
    then obtain c l' b' r' where "l = plug c (Node l' (n, b') r')" using Node.IH by blast
    then have "Node l x r = plug (c @ [FL a b r]) (Node l' (n, b') r')"
      using x by (simp add: plug_append)
    then show ?thesis by blast
  next
    case 3
    then obtain c l' b' r' where "r = plug c (Node l' (n, b') r')" using Node.IH by blast
    then have "Node l x r = plug (c @ [FR a b l]) (Node l' (n, b') r')"
      using x by (simp add: plug_append)
    then show ?thesis by blast
  qed
qed simp

subsection \<open>The red-black invariant, of a tree and of a context\<close>

fun invc :: "ctree \<Rightarrow> bool" where
  "invc Leaf = True"
| "invc (Node l (a, b) r) = (invc l \<and> invc r \<and> (\<not> b \<longrightarrow> black l \<and> black r))"

fun bheight :: "ctree \<Rightarrow> nat" where
  "bheight Leaf = 0"
| "bheight (Node l (a, b) r) = bheight l + of_bool b"

fun invh :: "ctree \<Rightarrow> bool" where
  "invh Leaf = True"
| "invh (Node l (a, b) r) = (invh l \<and> invh r \<and> bheight l = bheight r)"

definition rbt :: "ctree \<Rightarrow> bool" where
  "rbt s \<longleftrightarrow> invc s \<and> invh s \<and> black s"

fun ctxc :: "frame list \<Rightarrow> bool \<Rightarrow> bool" where
  "ctxc [] k = True"
| "ctxc (FL a b r # c) k = (invc r \<and> (\<not> b \<longrightarrow> k \<and> black r) \<and> ctxc c b)"
| "ctxc (FR a b l # c) k = (invc l \<and> (\<not> b \<longrightarrow> k \<and> black l) \<and> ctxc c b)"

fun ctxh :: "frame list \<Rightarrow> nat \<Rightarrow> bool" where
  "ctxh [] h = True"
| "ctxh (FL a b r # c) h = (invh r \<and> bheight r = h \<and> ctxh c (h + of_bool b))"
| "ctxh (FR a b l # c) h = (invh l \<and> bheight l = h \<and> ctxh c (h + of_bool b))"

fun topblack :: "frame list \<Rightarrow> bool \<Rightarrow> bool" where
  "topblack [] k = k"
| "topblack (FL a b r # c) k = topblack c b"
| "topblack (FR a b l # c) k = topblack c b"

lemma invc_plug: "invc (plug c s) \<longleftrightarrow> invc s \<and> ctxc c (black s)"
  by (induction c s rule: plug.induct) auto

lemma invh_plug: "invh (plug c s) \<longleftrightarrow> invh s \<and> ctxh c (bheight s)"
  by (induction c s rule: plug.induct) auto

lemma black_plug: "black (plug c s) \<longleftrightarrow> topblack c (black s)"
  by (induction c s rule: plug.induct) auto

lemma rbt_plug:
  "rbt (plug c s) \<longleftrightarrow>
     invc s \<and> ctxc c (black s) \<and> invh s \<and> ctxh c (bheight s) \<and> topblack c (black s)"
  by (auto simp: rbt_def invc_plug invh_plug black_plug)

lemma invc_paint: "invc s \<Longrightarrow> invc (paint True s)"
  by (cases s) auto

lemma invh_paint [simp]: "invh (paint b s) = invh s"
  by (cases s) auto

lemma ctxc_mono: "ctxc c False \<Longrightarrow> ctxc c k"
  by (cases c rule: par.cases) auto

lemma ctxc_True: "ctxc c k \<Longrightarrow> ctxc c True"
  by (cases c rule: par.cases) auto

lemma topblack_True: "topblack c k \<Longrightarrow> topblack c True"
  by (cases c rule: par.cases) auto

lemma topblack_cons: "c \<noteq> [] \<Longrightarrow> topblack c k = topblack c k'"
  by (cases c rule: par.cases) auto

subsection \<open>Insertion\<close>

text \<open>\<open>ins_fix c s\<close>: the subtree \<open>s\<close> with a red root was put into the context \<open>c\<close>.\<close>

fun rot_ll :: "ptr \<Rightarrow> bool \<Rightarrow> ctree \<Rightarrow> ptr \<Rightarrow> ctree \<Rightarrow> ctree \<Rightarrow> ctree" where
  "rot_ll p bg s g pr u = Node s (p, bg) (Node (paint True pr) (g, False) u)"

fun ins_fix :: "frame list \<Rightarrow> ctree \<Rightarrow> ctree" where
  "ins_fix [] s = paint True s"
| "ins_fix (FL p True r # c) s = plug (FL p True r # c) s"
| "ins_fix (FR p True l # c) s = plug (FR p True l # c) s"
| "ins_fix (FL p False r # FL g bg u # c) s =
     (if \<not> black u then ins_fix c (Node (Node s (p, True) r) (g, False) (paint True u))
      else plug c (Node s (p, bg) (Node (paint True r) (g, False) u)))"
| "ins_fix (FR p False l # FL g bg u # c) s =
     (if \<not> black u then ins_fix c (Node (Node l (p, True) s) (g, False) (paint True u))
      else (case s of
              Node sl (n, _) sr \<Rightarrow>
                plug c (Node (Node l (p, False) (paint True sl)) (n, bg)
                             (Node (paint True sr) (g, False) u))
            | Leaf \<Rightarrow> Leaf))"
| "ins_fix (FR p False l # FR g bg u # c) s =
     (if \<not> black u then ins_fix c (Node (paint True u) (g, False) (Node l (p, True) s))
      else plug c (Node (Node u (g, False) (paint True l)) (p, bg) s))"
| "ins_fix (FL p False r # FR g bg u # c) s =
     (if \<not> black u then ins_fix c (Node (paint True u) (g, False) (Node s (p, True) r))
      else (case s of
              Node sl (n, _) sr \<Rightarrow>
                plug c (Node (Node u (g, False) (paint True sl)) (n, bg)
                             (Node (paint True sr) (p, False) r))
            | Leaf \<Rightarrow> Leaf))"
| "ins_fix [FL p False r] s = plug [FL p False r] s"
| "ins_fix [FR p False l] s = plug [FR p False l] s"

lemma nodes_ins_fix: "s \<noteq> Leaf \<Longrightarrow> nodes (ins_fix c s) = before c @ nodes s @ after c"
  by (induction c s rule: ins_fix.induct) (auto simp: nodes_plug split: tree.splits)

lemma bheight_paint: "bheight (paint True s) = (if black s then bheight s else Suc (bheight s))"
  by (cases s) auto

lemma invh_ins_fix:
  "\<lbrakk>s \<noteq> Leaf; \<not> black s; invc s; invh s; ctxh c (bheight s); ctxc c True; topblack c True\<rbrakk>
   \<Longrightarrow> invh (ins_fix c s)"
  by (induction c s rule: ins_fix.induct)
     (auto simp: invh_plug bheight_paint invc_paint split: tree.splits)

lemma invc_ins_fix:
  "\<lbrakk>s \<noteq> Leaf; \<not> black s; invc s; ctxc c True; topblack c True\<rbrakk> \<Longrightarrow> invc (ins_fix c s)"
  by (induction c s rule: ins_fix.induct)
     (auto simp: invc_plug invc_paint intro: ctxc_mono ctxc_True split: tree.splits)

lemma black_ins_fix:
  "\<lbrakk>s \<noteq> Leaf; \<not> black s; ctxc c True; topblack c True\<rbrakk> \<Longrightarrow> black (ins_fix c s)"
  by (induction c s rule: ins_fix.induct)
     (auto simp: black_plug elim: topblack_True split: tree.splits)

theorem rbt_ins_fix:
  assumes "rbt (plug c Leaf)"
  shows "rbt (ins_fix c (Node Leaf (n, False) Leaf))"
  using assms by (simp add: rbt_plug) (simp add: rbt_def invh_ins_fix invc_ins_fix black_ins_fix)

subsection \<open>Deletion\<close>

text \<open>
  \<open>del_l p b s sib\<close> rebalances the node \<open>p\<close> of colour \<open>b\<close> whose left child \<open>s\<close>
  is one black node short and whose right child \<open>sib\<close> has a black root; the second result
  says that the new subtree is still short. \<open>del_r\<close> is its mirror image.
\<close>

fun del_l :: "ptr \<Rightarrow> bool \<Rightarrow> ctree \<Rightarrow> ctree \<Rightarrow> ctree \<times> bool" where
  "del_l p b s Leaf = (Node s (p, b) Leaf, False)"
| "del_l p b s (Node sl (x, bx) sr) =
     (if black sr then
        (case sl of
           Node ul (y, False) ur \<Rightarrow>
             (Node (Node s (p, True) ul) (y, b) (Node (paint True ur) (x, True) sr), False)
         | _ \<Rightarrow> (Node s (p, True) (Node sl (x, False) sr), b))
      else (Node (Node s (p, True) sl) (x, b) (paint True sr), False))"

fun del_r :: "ptr \<Rightarrow> bool \<Rightarrow> ctree \<Rightarrow> ctree \<Rightarrow> ctree \<times> bool" where
  "del_r p b s Leaf = (Node Leaf (p, b) s, False)"
| "del_r p b s (Node sl (x, bx) sr) =
     (if black sl then
        (case sr of
           Node ul (y, False) ur \<Rightarrow>
             (Node (Node sl (x, True) (paint True ul)) (y, b) (Node ur (p, True) s), False)
         | _ \<Rightarrow> (Node (Node sl (x, False) sr) (p, True) s, b))
      else (Node (paint True sl) (x, b) (Node sr (p, True) s), False))"

fun del_step :: "frame \<Rightarrow> ctree \<Rightarrow> ctree \<times> bool" where
  "del_step (FL p b sib) s =
     (case sib of
        Node sl (x, False) sr \<Rightarrow>
          (let (u, k) = del_l p False s (paint True sl) in (Node u (x, b) sr, k))
      | _ \<Rightarrow> del_l p b s sib)"
| "del_step (FR p b sib) s =
     (case sib of
        Node sl (x, False) sr \<Rightarrow>
          (let (u, k) = del_r p False s (paint True sr) in (Node sl (x, b) u, k))
      | _ \<Rightarrow> del_r p b s sib)"

fun del_fix :: "frame list \<Rightarrow> ctree \<Rightarrow> ctree" where
  "del_fix [] s = s"
| "del_fix (f # c) s = (let (u, short) = del_step f s in if short then del_fix c u else plug c u)"

lemma nodes_del_l: "nodes (fst (del_l p b s sib)) = nodes s @ p # nodes sib"
  by (induction p b s sib rule: del_l.induct) (auto split: tree.splits bool.splits)

lemma nodes_del_r: "nodes (fst (del_r p b s sib)) = nodes sib @ p # nodes s"
  by (induction p b s sib rule: del_r.induct) (auto split: tree.splits bool.splits)

lemma nodes_del_step: "nodes (fst (del_step f s)) = before [f] @ nodes s @ after [f]"
  by (cases f) (auto simp: nodes_del_l nodes_del_r Let_def split: tree.splits bool.splits prod.splits
      dest!: arg_cong[where f = "\<lambda>x. nodes (fst x)"])

lemma nodes_del_fix: "nodes (del_fix c s) = before c @ nodes s @ after c"
proof (induction c s rule: del_fix.induct)
  case (2 f c s)
  obtain u k where u: "del_step f s = (u, k)" by fastforce
  then have "nodes u = before [f] @ nodes s @ after [f]" using nodes_del_step[of f s] by simp
  then show ?case using 2[OF u[symmetric] refl] u
    by (cases f) (auto simp: nodes_plug)
qed simp

text \<open>What a rebalancing step gives: a subtree with the right black height, or one less.\<close>

definition del_ok :: "bool \<Rightarrow> nat \<Rightarrow> ctree \<times> bool \<Rightarrow> bool" where
  "del_ok b h r \<longleftrightarrow>
     (case r of (u, short) \<Rightarrow>
        invc u \<and> invh u \<and> (b \<longrightarrow> black u) \<and> (short \<longrightarrow> b)
        \<and> bheight u + of_bool short = h + 1 + of_bool b)"

lemma del_l_ok:
  "\<lbrakk>invc s; black s; invh s; invc sib; black sib; invh sib; bheight sib = Suc (bheight s)\<rbrakk>
   \<Longrightarrow> del_ok b (bheight s) (del_l p b s sib)"
  by (cases "(p, b, s, sib)" rule: del_l.cases)
     (auto simp: del_ok_def bheight_paint invc_paint split: tree.splits bool.splits)

lemma del_r_ok:
  "\<lbrakk>invc s; black s; invh s; invc sib; black sib; invh sib; bheight sib = Suc (bheight s)\<rbrakk>
   \<Longrightarrow> del_ok b (bheight s) (del_r p b s sib)"
  by (cases "(p, b, s, sib)" rule: del_r.cases)
     (auto simp: del_ok_def bheight_paint invc_paint split: tree.splits bool.splits)

lemma del_step_ok:
  assumes s: "invc s" "black s" "invh s"
    and f: "ctxc [f] True" "ctxh [f] (Suc (bheight s))"
    and b: "b = topblack [f] True"
  shows "del_ok b (bheight s) (del_step f s)"
proof (cases f)
  case (FL p b' sib)
  with b have b': "b' = b" by simp
  have sib: "invc sib" "invh sib" "bheight sib = Suc (bheight s)" "\<not> b \<longrightarrow> black sib"
    using f FL b' by auto
  show ?thesis
  proof (cases "black sib")
    case True
    then have "del_step f s = del_l p b s sib" using FL b' by (auto split: tree.split bool.split)
    then show ?thesis using del_l_ok s sib True by simp
  next
    case False
    then obtain sl x sr where eq: "sib = Node sl (x, False) sr" and "b"
      using sib by (cases sib rule: black.cases) auto
    obtain u k where u: "del_l p False s (paint True sl) = (u, k)" by fastforce
    have "del_ok False (bheight s) (u, k)"
      using del_l_ok[of s "paint True sl" False p] s sib eq u by auto
    then show ?thesis using FL b' eq u sib \<open>b\<close> by (auto simp: del_ok_def)
  qed
next
  case (FR p b' sib)
  with b have b': "b' = b" by simp
  have sib: "invc sib" "invh sib" "bheight sib = Suc (bheight s)" "\<not> b \<longrightarrow> black sib"
    using f FR b' by auto
  show ?thesis
  proof (cases "black sib")
    case True
    then have "del_step f s = del_r p b s sib" using FR b' by (auto split: tree.split bool.split)
    then show ?thesis using del_r_ok s sib True by simp
  next
    case False
    then obtain sl x sr where eq: "sib = Node sl (x, False) sr" and "b"
      using sib by (cases sib rule: black.cases) auto
    obtain u k where u: "del_r p False s (paint True sr) = (u, k)" by fastforce
    have "del_ok False (bheight s) (u, k)"
      using del_r_ok[of s "paint True sr" False p] s sib eq u by auto
    then show ?thesis using FR b' eq u sib \<open>b\<close> by (auto simp: del_ok_def)
  qed
qed

lemma ctx_cons:
  "ctxc (f # c) k \<longleftrightarrow> ctxc [f] k \<and> ctxc c (topblack [f] k)"
  "ctxh (f # c) h \<longleftrightarrow> ctxh [f] h \<and> ctxh c (h + of_bool (topblack [f] True))"
  "topblack (f # c) k \<longleftrightarrow> topblack c (topblack [f] k)"
  by (cases f; simp)+

text \<open>Rebalancing a position that is one black node short gives a red-black tree.\<close>

theorem rbt_del_fix:
  "\<lbrakk>invc s; black s; invh s; ctxc c True; ctxh c (Suc (bheight s)); topblack c True\<rbrakk>
   \<Longrightarrow> rbt (del_fix c s)"
proof (induction c s rule: del_fix.induct)
  case (2 f c s)
  define b where "b = topblack [f] True"
  obtain u k where u: "del_step f s = (u, k)" by fastforce
  have ok: "del_ok b (bheight s) (u, k)"
    using del_step_ok[OF 2(2,3,4) _ _ b_def] 2(5,6) u by (simp add: ctx_cons(1,2)[of f c])
  have c: "ctxc c b" "ctxh c (Suc (bheight s) + of_bool b)" "topblack c b"
    using 2(5,6,7) b_def by (auto simp: ctx_cons[of f c])
  show ?case
  proof (cases k)
    case True
    then have "rbt (del_fix c u)"
      using 2(1)[OF u[symmetric] refl] ok c by (auto simp: del_ok_def)
    then show ?thesis using u True by simp
  next
    case False
    have bu: "b \<longrightarrow> black u" using ok by (simp add: del_ok_def)
    have "ctxc c (black u)" using c(1) bu ctxc_True by (cases "black u"; cases b) auto
    moreover have "topblack c (black u)" using c(3) bu topblack_True by (cases "black u"; cases b) auto
    ultimately have "rbt (plug c u)" using ok c False by (auto simp: rbt_plug del_ok_def)
    then show ?thesis using u False by simp
  qed
qed (simp add: rbt_def)

subsection \<open>Unlinking a node\<close>

text \<open>
  \<open>split_min r c\<close> walks to the leftmost node of \<open>r\<close>: the frames to it, the node, its
  colour and its right subtree.
\<close>

fun split_min :: "ctree \<Rightarrow> frame list \<Rightarrow> frame list \<times> ptr \<times> bool \<times> ctree" where
  "split_min Leaf c = (c, NULL, True, Leaf)"
| "split_min (Node l (a, b) r) c =
     (if l = Leaf then (c, a, b, r) else split_min l (FL a b r # c))"

text \<open>
  \<open>unlink c b l r\<close>: the node between the subtrees \<open>l\<close> and \<open>r\<close>, of colour \<open>b\<close>, is
  taken out of the context \<open>c\<close>; the result is a context and a subtree, and whether that
  position is one black node short.
\<close>

definition unlink ::
  "frame list \<Rightarrow> bool \<Rightarrow> ctree \<Rightarrow> ctree \<Rightarrow> frame list \<times> ctree \<times> bool" where
  "unlink c b l r =
     (if l = Leaf then (if r = Leaf then (c, Leaf, b) else (c, paint b r, False))
      else if r = Leaf then (c, paint b l, False)
      else
        (case split_min r [] of (fs, s, bs, r') \<Rightarrow>
           let c' = fs @ FR s b l # c
           in if r' = Leaf then (c', Leaf, bs) else (c', paint True r', False)))"

definition del_node :: "frame list \<Rightarrow> bool \<Rightarrow> ctree \<Rightarrow> ctree \<Rightarrow> ctree" where
  "del_node c b l r =
     (case unlink c b l r of (c', s, short) \<Rightarrow> if short then del_fix c' s else plug c' s)"

lemma split_min_plug:
  "\<lbrakk>r \<noteq> Leaf; split_min r c = (fs, s, bs, r')\<rbrakk>
   \<Longrightarrow> plug fs (Node Leaf (s, bs) r') = plug c r"
  by (induction r c rule: split_min.induct) (auto split: if_splits)

lemma split_min_frames:
  "\<lbrakk>r \<noteq> Leaf; split_min r c = (fs, s, bs, r')\<rbrakk> \<Longrightarrow> \<exists>gs. fs = gs @ c \<and> before gs = []"
proof (induction r c rule: split_min.induct)
  case (2 l a b r c)
  show ?case
  proof (cases "l = Leaf")
    case False
    then obtain gs where "fs = gs @ FL a b r # c" "before gs = []" using 2 by auto
    then have "fs = (gs @ [FL a b r]) @ c" "before (gs @ [FL a b r]) = []"
      by (auto simp: before_append)
    then show ?thesis by blast
  qed (use 2 in auto)
qed simp

lemma split_min_before: "\<lbrakk>r \<noteq> Leaf; split_min r [] = (fs, s, bs, r')\<rbrakk> \<Longrightarrow> before fs = []"
  using split_min_frames[of r "[]" fs s bs r'] by auto

lemma nodes_del_node: "nodes (del_node c b l r) = before c @ nodes l @ nodes r @ after c"
proof -
  obtain fs s bs r' where m: "split_min r [] = (fs, s, bs, r')" by (cases "split_min r []") auto
  have "r \<noteq> Leaf \<Longrightarrow> nodes r = s # nodes r' @ after fs"
    using split_min_plug[OF _ m] nodes_plug[of fs "Node Leaf (s, bs) r'"] split_min_before[OF _ m]
    by simp
  then show ?thesis
    using m split_min_before[OF _ m]
    by (auto simp: del_node_def unlink_def Let_def nodes_plug nodes_del_fix before_append after_append)
qed

text \<open>Taking out a node with at most one child.\<close>

lemma rbt_one_child:
  assumes "rbt (plug c (Node Leaf (n, b) r)) \<or> rbt (plug c (Node r (n, b) Leaf))"
  shows "r = Leaf \<Longrightarrow> b \<Longrightarrow> rbt (del_fix c Leaf)"
    and "r = Leaf \<Longrightarrow> \<not> b \<Longrightarrow> rbt (plug c Leaf)"
    and "r \<noteq> Leaf \<Longrightarrow> b \<and> rbt (plug c (paint True r))"
proof -
  have h: "invc r" "invh r" "bheight r = 0" "\<not> b \<longrightarrow> black r" "ctxc c b" "ctxh c (of_bool b)"
    "topblack c b"
    using assms by (auto simp: rbt_plug)
  show "rbt (del_fix c Leaf)" if "r = Leaf" "b" using h that by (intro rbt_del_fix) auto
  show "rbt (plug c Leaf)" if "r = Leaf" "\<not> b"
    using h that ctxc_mono topblack_True by (auto simp: rbt_plug)
  show "b \<and> rbt (plug c (paint True r))" if "r \<noteq> Leaf"
  proof -
    have "\<not> black r" using h that by (cases r rule: black.cases) auto
    then show ?thesis using h by (auto simp: rbt_plug bheight_paint invc_paint)
  qed
qed

theorem rbt_del_node:
  assumes "rbt (plug c (Node l (n, b) r))"
  shows "rbt (del_node c b l r)"
proof -
  obtain fs s bs r' where m: "split_min r [] = (fs, s, bs, r')" by (cases "split_min r []") auto
  consider "l = Leaf" | "l \<noteq> Leaf" "r = Leaf" | "l \<noteq> Leaf" "r \<noteq> Leaf" by blast
  then show ?thesis
  proof cases
    case 1
    then show ?thesis using assms rbt_one_child[of c n b r] by (auto simp: del_node_def unlink_def)
  next
    case 2
    then show ?thesis using assms rbt_one_child[of c n b l] by (auto simp: del_node_def unlink_def)
  next
    case 3
    let ?c = "fs @ FR s b l # c"
    have "plug ?c (Node Leaf (s, bs) r') = plug c (Node l (s, b) r)"
      using split_min_plug[OF 3(2) m] by (simp add: plug_append)
    moreover have "rbt (plug c (Node l (s, b) r))" using assms by (auto simp: rbt_plug)
    ultimately have "rbt (plug ?c (Node Leaf (s, bs) r'))" by simp
    then show ?thesis
      using rbt_one_child[of ?c s bs r'] 3 m by (auto simp: del_node_def unlink_def Let_def)
  qed
qed

subsection \<open>Height\<close>

lemma bheight_le: "invh s \<Longrightarrow> 2 ^ bheight s \<le> size s + 1"
proof (induction s rule: invh.induct)
  case (2 l a b r)
  then have "2 ^ bheight l \<le> size l + 1" "2 ^ bheight r \<le> size r + 1" "bheight l = bheight r"
    by auto
  then show ?case by auto
qed simp

lemma height_bheight:
  "\<lbrakk>invc s; invh s\<rbrakk> \<Longrightarrow> height s \<le> (if black s then 2 * bheight s else 2 * bheight s + 1)"
  by (induction s rule: invc.induct) (auto split: if_splits)

theorem rbt_height: "rbt s \<Longrightarrow> 2 ^ (height s div 2) \<le> size s + 1"
proof -
  assume "rbt s"
  then have "height s \<le> 2 * bheight s" "2 ^ bheight s \<le> size s + 1"
    using height_bheight[of s] bheight_le[of s] by (auto simp: rbt_def)
  moreover from this(1) have "(2::nat) ^ (height s div 2) \<le> 2 ^ bheight s"
    by (intro power_increasing) auto
  ultimately show ?thesis by linarith
qed

end
