(* ===== verification/Eh_Rbtree_Sim.thy ===== *)
theory Eh_Rbtree_Sim
  imports Eh_Rbtree Eh_Rbtree_Fun
begin

text \<open>
  The simulation between the pointer code of \<open>Eh_Rbtree\<close> and the tree algorithms of
  \<open>Eh_Rbtree_Fun\<close>: \<open>rep t p q s\<close> says that the memory of \<open>t\<close> holds the tree \<open>s\<close> at
  the pointer \<open>q\<close> below the parent \<open>p\<close>, \<open>repc t q c\<close> that it holds the context \<open>c\<close>
  around a subtree at \<open>q\<close>. Each function of the C file is shown to carry the
  representation of a tree to that of the algorithm's result and to write no node outside it.
\<close>

subsection \<open>Reading after writing\<close>

lemma rb_mem_write [simp]:
  "rb_mem (set_left n v t) m = (if m = n then (rb_mem t n)\<lparr>rb_left := v\<rparr> else rb_mem t m)"
  "rb_mem (set_right n v t) m = (if m = n then (rb_mem t n)\<lparr>rb_right := v\<rparr> else rb_mem t m)"
  "rb_mem (set_pac n c t) m = (if m = n then (rb_mem t n)\<lparr>parent_and_color := c\<rparr> else rb_mem t m)"
  "rb_mem (set_root v t) = rb_mem t"
  "rb_mem (set_leftmost v t) = rb_mem t"
  by (auto simp: set_left_def set_right_def set_pac_def set_root_def set_leftmost_def)

lemma rb_node_write [simp]:
  "rb_node (set_left n v t) = rb_node t" "rb_node (set_right n v t) = rb_node t"
  "rb_node (set_pac n c t) = rb_node t" "rb_node (set_root v t) = v"
  "rb_node (set_leftmost v t) = rb_node t"
  by (auto simp: set_left_def set_right_def set_pac_def set_root_def set_leftmost_def)

lemma rb_leftmost_write [simp]:
  "rb_leftmost (set_left n v t) = rb_leftmost t" "rb_leftmost (set_right n v t) = rb_leftmost t"
  "rb_leftmost (set_pac n c t) = rb_leftmost t" "rb_leftmost (set_root v t) = rb_leftmost t"
  "rb_leftmost (set_leftmost v t) = v"
  by (auto simp: set_left_def set_right_def set_pac_def set_root_def set_leftmost_def)

lemma pc_simps [simp]:
  "pc_parent (4 * p + of_bool b) = p" "pc_parent (4 * p) = p" "pc_parent (Suc (4 * p)) = p"
  "(4 * p + of_bool b) div 4 = p" "Suc (4 * p) div 4 = p"
  "pc_is_black (4 * p + of_bool b) = b" "\<not> pc_is_black (4 * p)" "pc_is_black (Suc (4 * p))"
  "(4 * p + of_bool b) mod 2 = of_bool b" "Suc (4 * p) mod 2 = 1"
  by (auto simp: pc_parent_def pc_is_black_def RB_BLACK_def of_bool_def) presburger+

lemma or_black [simp]: "or (4 * p) (Suc 0) = Suc (4 * p)"
  by (simp add: or_Suc_0_eq)

subsection \<open>The representation\<close>

fun rep :: "rbtree \<Rightarrow> ptr \<Rightarrow> ptr \<Rightarrow> ctree \<Rightarrow> bool" where
  "rep t p q Leaf = (q = NULL)"
| "rep t p q (Node l (a, b) r) =
     (q = a \<and> a \<noteq> NULL \<and> pac t a = 4 * p + of_bool b
      \<and> rep t a (left_of t a) l \<and> rep t a (right_of t a) r)"

fun repc :: "rbtree \<Rightarrow> ptr \<Rightarrow> frame list \<Rightarrow> bool" where
  "repc t q [] = (rb_node t = q)"
| "repc t q (FL a b r # c) =
     (a \<noteq> NULL \<and> pac t a = 4 * par c + of_bool b \<and> left_of t a = q
      \<and> rep t a (right_of t a) r \<and> repc t a c)"
| "repc t q (FR a b l # c) =
     (a \<noteq> NULL \<and> pac t a = 4 * par c + of_bool b \<and> right_of t a = q
      \<and> rep t a (left_of t a) l \<and> repc t a c)"

fun fnodes :: "frame list \<Rightarrow> ptr set" where
  "fnodes [] = {}"
| "fnodes (FL a b r # c) = insert a (set (nodes r) \<union> fnodes c)"
| "fnodes (FR a b l # c) = insert a (set (nodes l) \<union> fnodes c)"

fun fdistinct :: "frame list \<Rightarrow> bool" where
  "fdistinct [] = True"
| "fdistinct (FL a b r # c) =
     (a \<notin> set (nodes r) \<and> a \<notin> fnodes c \<and> set (nodes r) \<inter> fnodes c = {} \<and> distinct (nodes r) \<and> fdistinct c)"
| "fdistinct (FR a b l # c) =
     (a \<notin> set (nodes l) \<and> a \<notin> fnodes c \<and> set (nodes l) \<inter> fnodes c = {} \<and> distinct (nodes l) \<and> fdistinct c)"

definition separate :: "frame list \<Rightarrow> ctree \<Rightarrow> bool" where
  "separate c s \<longleftrightarrow> fdistinct c \<and> distinct (nodes s) \<and> set (nodes s) \<inter> fnodes c = {}"

lemma fnodes_eq: "fnodes c = set (before c) \<union> set (after c)"
  by (induction c rule: fnodes.induct) auto

lemma separate_iff: "separate c s \<longleftrightarrow> distinct (nodes (plug c s))"
proof (induction c s rule: plug.induct)
  case (2 a b r c s)
  have "separate (FL a b r # c) s \<longleftrightarrow> separate c (Node s (a, b) r)"
    by (auto simp: separate_def)
  then show ?case using 2 by simp
next
  case (3 a b l c s)
  have "separate (FR a b l # c) s \<longleftrightarrow> separate c (Node l (a, b) s)"
    by (auto simp: separate_def)
  then show ?case using 3 by simp
qed (simp add: separate_def)

lemma rep_plug: "rep t NULL (rb_node t) (plug c s) \<longleftrightarrow> (\<exists>q. repc t q c \<and> rep t (par c) q s)"
  by (induction c s rule: plug.induct) auto

lemma rep_not_null: "rep t p q s \<Longrightarrow> NULL \<notin> set (nodes s)"
  by (induction t p q s rule: rep.induct) auto

lemma repc_not_null: "repc t q c \<Longrightarrow> NULL \<notin> fnodes c"
  by (induction t q c rule: repc.induct) (auto simp: rep_not_null)

lemma rep_root: "rep t p q s \<Longrightarrow> q \<noteq> NULL \<Longrightarrow> q \<in> set (nodes s)"
  by (cases s rule: black.cases) auto

lemma rep_red: "rep t p q s \<Longrightarrow> (q \<noteq> NULL \<and> rb_is_red t q) = (\<not> black s)"
  by (cases s rule: black.cases) (auto simp: rb_is_red_def rb_is_black_def)

lemma rep_black: "rep t p q s \<Longrightarrow> (q = NULL \<or> rb_is_black t q) = black s"
  by (cases s rule: black.cases) (auto simp: rb_is_black_def)

lemma rep_cong: "(\<And>n. n \<in> set (nodes s) \<Longrightarrow> rb_mem t' n = rb_mem t n) \<Longrightarrow> rep t' p q s = rep t p q s"
  by (induction t p q s rule: rep.induct) auto

lemma repc_cong:
  "(\<And>n. n \<in> fnodes c \<Longrightarrow> rb_mem t' n = rb_mem t n) \<Longrightarrow> rb_node t' = rb_node t
   \<Longrightarrow> repc t' q c = repc t q c"
  by (induction t q c rule: repc.induct) (auto simp: rep_cong[of _ t'])

lemma rep_frame [simp]:
  "n \<notin> set (nodes s) \<Longrightarrow> rep (set_left n v t) p q s = rep t p q s"
  "n \<notin> set (nodes s) \<Longrightarrow> rep (set_right n v t) p q s = rep t p q s"
  "n \<notin> set (nodes s) \<Longrightarrow> rep (set_pac n w t) p q s = rep t p q s"
  "rep (set_root v t) p q s = rep t p q s"
  "rep (set_leftmost v t) p q s = rep t p q s"
  by (rule rep_cong; auto)+

lemma repc_frame [simp]:
  "n \<notin> fnodes c \<Longrightarrow> repc (set_left n v t) q c = repc t q c"
  "n \<notin> fnodes c \<Longrightarrow> repc (set_right n v t) q c = repc t q c"
  "n \<notin> fnodes c \<Longrightarrow> repc (set_pac n w t) q c = repc t q c"
  "repc (set_leftmost v t) q c = repc t q c"
  by (rule repc_cong; auto)+

lemma par_fnodes: "c \<noteq> [] \<Longrightarrow> par c \<in> fnodes c"
  by (cases c rule: par.cases) auto

lemma par_eq: "a \<noteq> NULL \<Longrightarrow> a \<notin> fnodes c \<Longrightarrow> (par c = a) = False" "a \<noteq> NULL \<Longrightarrow> a \<notin> fnodes c \<Longrightarrow> (a = par c) = False"
  using par_fnodes[of c] by (cases "c = []"; auto)+

subsection \<open>Replacing the child of a parent\<close>

lemma change_child_mem: "m \<noteq> p \<Longrightarrow> rb_mem (rb_change_child old new p t) m = rb_mem t m"
  by (auto simp: rb_change_child_def)

lemma change_child_mem_null [simp]: "rb_mem (rb_change_child old new NULL t) = rb_mem t"
  by (auto simp: rb_change_child_def)

lemma change_child_leftmost [simp]: "rb_leftmost (rb_change_child old new p t) = rb_leftmost t"
  by (auto simp: rb_change_child_def)

lemma change_child_rep:
  "set (nodes s) \<inter> fnodes c = {} \<Longrightarrow> rep (rb_change_child old new (par c) t) p q s = rep t p q s"
  using par_fnodes[of c] by (cases "c = []") (force intro!: rep_cong intro: change_child_mem)+

lemma change_child_repc:
  "\<lbrakk>repc t old c; old \<noteq> NULL; old \<notin> fnodes c; fdistinct c\<rbrakk>
   \<Longrightarrow> repc (rb_change_child old new (par c) t) new c"
proof (cases c rule: par.cases)
  case (3 a b l c')
  assume h: "repc t old c" "old \<noteq> NULL" "old \<notin> fnodes c" "fdistinct c"
  then have "left_of t a \<noteq> old" using 3 rep_root by fastforce
  then show ?thesis using h 3 by (auto simp: rb_change_child_def)
qed (auto simp: rb_change_child_def)


subsection \<open>Insertion\<close>

lemmas rb_unfold =
  rb_set_parent_def rb_set_parent_color_def rb_rotate_set_parents_def rb_parent_def
  rb_color_def pc_pack_def RB_RED_def RB_BLACK_def Let_def

definition ctx_rep :: "rbtree \<Rightarrow> frame list \<Rightarrow> ctree \<Rightarrow> bool" where
  "ctx_rep t c s \<longleftrightarrow> (\<exists>q. repc t q c \<and> rep t (par c) q s)"

lemmas rb_sim =
  rb_unfold par_eq change_child_rep change_child_repc change_child_mem
  Int_Un_distrib Int_Un_distrib2 separate_def ctx_rep_def

text \<open>
  \<open>rb_to t t' c s\<close>: \<open>t'\<close> holds the subtree \<open>s\<close> in the context \<open>c\<close>, keeps the
  leftmost pointer of \<open>t\<close> and differs from \<open>t\<close> at nodes of the tree only.
\<close>

definition unch :: "ptr set \<Rightarrow> rbtree \<Rightarrow> rbtree \<Rightarrow> bool" where
  "unch A t t' \<longleftrightarrow> rb_leftmost t' = rb_leftmost t \<and> (\<forall>m. m \<notin> A \<longrightarrow> rb_mem t' m = rb_mem t m)"

definition rb_to :: "rbtree \<Rightarrow> rbtree \<Rightarrow> frame list \<Rightarrow> ctree \<Rightarrow> bool" where
  "rb_to t t' c s \<longleftrightarrow> ctx_rep t' c s \<and> unch (fnodes c \<union> set (nodes s)) t t'"

lemma unch_refl [simp]: "unch A t t"
  by (simp add: unch_def)

lemma unch_trans: "unch A t t' \<Longrightarrow> unch A t' t'' \<Longrightarrow> unch A t t''"
  by (simp add: unch_def)

lemma unch_mono: "unch A t t' \<Longrightarrow> A \<subseteq> B \<Longrightarrow> unch B t t'"
  by (auto simp: unch_def)

lemma rb_to_after:
  "\<lbrakk>rb_to t2 t3 c s; unch A t t2; A \<subseteq> fnodes c \<union> set (nodes s)\<rbrakk> \<Longrightarrow> rb_to t t3 c s"
  unfolding rb_to_def by (meson unch_mono unch_trans)

lemma change_child_mem_par:
  "m \<notin> fnodes c \<Longrightarrow> rb_mem (rb_change_child old new (par c) t) m = rb_mem t m"
  using par_fnodes[of c] by (cases "c = []") (auto intro: change_child_mem)

lemma rotate_to_left:
  assumes "repc t old c" "pac t old = 4 * par c + of_bool b" "right_of t new = old"
    and "old \<noteq> NULL" "new \<noteq> NULL" "rep t new (left_of t new) s"
    and "rep t old (left_of t old) r" "rep t old (right_of t old) u"
    and "separate c (Node s (new, b) (Node r (old, k) u))"
  shows "rb_to t (rb_rotate_set_parents old new (of_bool k) t) c (Node s (new, b) (Node r (old, k) u))"
proof -
  have "ctx_rep (rb_rotate_set_parents old new (of_bool k) t) c (Node s (new, b) (Node r (old, k) u))"
    using assms by (simp add: rb_sim split del: split_of_bool)
  moreover have "unch (fnodes c \<union> set (nodes (Node s (new, b) (Node r (old, k) u)))) t (rb_rotate_set_parents old new (of_bool k) t)"
    using assms(2) by (auto simp: rb_unfold unch_def change_child_mem_par split del: split_of_bool)
  ultimately show ?thesis by (simp add: rb_to_def)
qed

lemma rotate_to_right:
  assumes "repc t old c" "pac t old = 4 * par c + of_bool b" "left_of t new = old"
    and "old \<noteq> NULL" "new \<noteq> NULL" "rep t new (right_of t new) s"
    and "rep t old (right_of t old) r" "rep t old (left_of t old) u"
    and "separate c (Node (Node u (old, k) r) (new, b) s)"
  shows "rb_to t (rb_rotate_set_parents old new (of_bool k) t) c (Node (Node u (old, k) r) (new, b) s)"
proof -
  have "ctx_rep (rb_rotate_set_parents old new (of_bool k) t) c (Node (Node u (old, k) r) (new, b) s)"
    using assms by (simp add: rb_sim split del: split_of_bool)
  moreover have "unch (fnodes c \<union> set (nodes (Node (Node u (old, k) r) (new, b) s))) t (rb_rotate_set_parents old new (of_bool k) t)"
    using assms(2) by (auto simp: rb_unfold unch_def change_child_mem_par split del: split_of_bool)
  ultimately show ?thesis by (simp add: rb_to_def)
qed

lemma insert_case3_left:
  assumes "repc t g c" "pac t g = 4 * par c + of_bool bg" "rep t g (right_of t g) u"
    and "rep t p (left_of t p) s" "rep t p tmp r" "p \<noteq> NULL" "g \<noteq> NULL"
    and "separate c (Node s (p, bg) (Node r (g, False) u))"
  shows "rb_to t (rb_insert_case3_left tmp p g t) c (Node s (p, bg) (Node (paint True r) (g, False) u))"
proof -
  define t2 where
    "t2 = unless_null tmp (rb_set_parent_color tmp g RB_BLACK) (set_right p g (set_left g tmp t))"
  have "repc t2 g c" "pac t2 g = 4 * par c + of_bool bg" "right_of t2 p = g"
    "rep t2 p (left_of t2 p) s" "rep t2 g (left_of t2 g) (paint True r)" "rep t2 g (right_of t2 g) u"
    using assms unfolding t2_def
    by (cases r rule: black.cases; simp add: rb_sim split del: split_of_bool)+
  moreover have "rb_insert_case3_left tmp p g t = rb_rotate_set_parents g p (of_bool False) t2"
    by (simp add: rb_insert_case3_left_def t2_def RB_RED_def Let_def)
  moreover have "separate c (Node s (p, bg) (Node (paint True r) (g, False) u))"
    using assms(8) by (simp add: separate_def)
  ultimately have "rb_to t2 (rb_insert_case3_left tmp p g t) c (Node s (p, bg) (Node (paint True r) (g, False) u))"
    using assms rotate_to_left by metis
  moreover have "unch (insert p (insert g (set (nodes r)))) t t2"
    using assms(5) rep_root[OF assms(5)] unfolding t2_def unch_def by (auto simp: rb_unfold)
  ultimately show ?thesis by (rule rb_to_after) auto
qed

lemma insert_case2_left:
  assumes "repc t p (FL g bg u # c)" "pac t p = 4 * g" "right_of t p = n" "rep t p (left_of t p) l"
    and "rep t p n (Node sl (n, k) sr)" "p \<noteq> NULL"
    and "separate (FL g bg u # c) (Node l (p, False) (Node sl (n, k) sr))"
  defines "t2 \<equiv> rb_insert_case2_left n p t"
  shows "repc t2 g c" "pac t2 g = 4 * par c + of_bool bg" "rep t2 g (right_of t2 g) u"
    and "rep t2 n (left_of t2 n) (Node l (p, False) (paint True sl))" "rep t2 n (right_of t2 n) sr"
    and "unch (insert p (insert n (set (nodes sl)))) t t2"
proof -
  show "unch (insert p (insert n (set (nodes sl)))) t t2"
    using assms(5) rep_root[of t n "left_of t n" sl] unfolding t2_def unch_def
    by (auto simp: rb_unfold rb_insert_case2_left_def)
qed (use assms in \<open>cases sl rule: black.cases;
      simp add: rb_insert_case2_left_def rb_sim split del: split_of_bool\<close>)+

lemma insert_case23_left_outer:
  assumes "repc t n (FL p False r # FL g bg u # c)" "rep t p n s" "s \<noteq> Leaf"
    and "separate (FL p False r # FL g bg u # c) s"
  shows "rb_to t (rb_insert_case23_left n p g t) c (Node s (p, bg) (Node (paint True r) (g, False) u))"
proof -
  have "n \<in> set (nodes s)" using assms(2,3) by (cases s rule: black.cases) auto
  then have "n \<notin> set (nodes r)" "n \<noteq> NULL"
    using assms(4) rep_not_null[OF assms(2)] by (auto simp: separate_def Int_Un_distrib)
  then have "n \<noteq> right_of t p"
    using assms(1) rep_root[of t p "right_of t p" r] by auto
  moreover have "separate c (Node s (p, bg) (Node r (g, False) u))"
    using assms(4) by (simp add: separate_iff nodes_plug)
  ultimately show ?thesis
    using assms(1-3) insert_case3_left[of t g c bg u p s "right_of t p" r]
    by (simp add: rb_insert_case23_left_def Let_def split del: split_of_bool)
qed

lemma insert_case23_left_inner:
  assumes "repc t n (FR p False l # FL g bg u # c)" "rep t p n (Node sl (n, k) sr)"
    and "separate (FR p False l # FL g bg u # c) (Node sl (n, k) sr)"
  shows "rb_to t (rb_insert_case23_left n p g t) c
           (Node (Node l (p, False) (paint True sl)) (n, bg) (Node (paint True sr) (g, False) u))"
proof -
  define t2 where "t2 = rb_insert_case2_left n p t"
  have "separate (FL g bg u # c) (Node l (p, False) (Node sl (n, k) sr))"
    using assms(3) by (simp add: separate_iff nodes_plug)
  then have c2: "repc t2 g c" "pac t2 g = 4 * par c + of_bool bg" "rep t2 g (right_of t2 g) u"
    "rep t2 n (left_of t2 n) (Node l (p, False) (paint True sl))" "rep t2 n (right_of t2 n) sr"
    and un: "unch (insert p (insert n (set (nodes sl)))) t t2"
    using assms(1,2) insert_case2_left[where t = t and p = p and g = g and bg = bg and u = u and c = c and n = n
      and l = l and sl = sl and k = k and sr = sr, folded t2_def]
    by (auto split del: split_of_bool)
  moreover have "separate c (Node (Node l (p, False) (paint True sl)) (n, bg) (Node sr (g, False) u))"
    using assms(3) by (simp add: separate_iff nodes_plug)
  ultimately have "rb_to t2 (rb_insert_case3_left (right_of t2 n) n g t2) c
           (Node (Node l (p, False) (paint True sl)) (n, bg) (Node (paint True sr) (g, False) u))"
    using assms(1,2) by (intro insert_case3_left) auto
  then have "rb_to t (rb_insert_case3_left (right_of t2 n) n g t2) c
           (Node (Node l (p, False) (paint True sl)) (n, bg) (Node (paint True sr) (g, False) u))"
    by (rule rb_to_after[OF _ un]) auto
  then show ?thesis using assms(1) by (simp add: rb_insert_case23_left_def Let_def t2_def)
qed

lemma insert_case3_right:
  assumes "repc t g c" "pac t g = 4 * par c + of_bool bg" "rep t g (left_of t g) u"
    and "rep t p (right_of t p) s" "rep t p tmp r" "p \<noteq> NULL" "g \<noteq> NULL"
    and "separate c (Node (Node u (g, False) r) (p, bg) s)"
  shows "rb_to t (rb_insert_case3_right tmp p g t) c (Node (Node u (g, False) (paint True r)) (p, bg) s)"
proof -
  define t2 where
    "t2 = unless_null tmp (rb_set_parent_color tmp g RB_BLACK) (set_left p g (set_right g tmp t))"
  have "repc t2 g c" "pac t2 g = 4 * par c + of_bool bg" "left_of t2 p = g"
    "rep t2 p (right_of t2 p) s" "rep t2 g (right_of t2 g) (paint True r)" "rep t2 g (left_of t2 g) u"
    using assms unfolding t2_def
    by (cases r rule: black.cases; simp add: rb_sim split del: split_of_bool)+
  moreover have "rb_insert_case3_right tmp p g t = rb_rotate_set_parents g p (of_bool False) t2"
    by (simp add: rb_insert_case3_right_def t2_def RB_RED_def Let_def)
  moreover have "separate c (Node (Node u (g, False) (paint True r)) (p, bg) s)"
    using assms(8) by (simp add: separate_def)
  ultimately have "rb_to t2 (rb_insert_case3_right tmp p g t) c (Node (Node u (g, False) (paint True r)) (p, bg) s)"
    using assms rotate_to_right by metis
  moreover have "unch (insert p (insert g (set (nodes r)))) t t2"
    using assms(5) rep_root[OF assms(5)] unfolding t2_def unch_def by (auto simp: rb_unfold)
  ultimately show ?thesis by (rule rb_to_after) auto
qed

lemma insert_case2_right:
  assumes "repc t p (FR g bg u # c)" "pac t p = 4 * g" "left_of t p = n" "rep t p (right_of t p) l"
    and "rep t p n (Node sr (n, k) sl)" "p \<noteq> NULL"
    and "separate (FR g bg u # c) (Node (Node sr (n, k) sl) (p, False) l)"
  defines "t2 \<equiv> rb_insert_case2_right n p t"
  shows "repc t2 g c" "pac t2 g = 4 * par c + of_bool bg" "rep t2 g (left_of t2 g) u"
    and "rep t2 n (right_of t2 n) (Node (paint True sl) (p, False) l)" "rep t2 n (left_of t2 n) sr"
    and "unch (insert p (insert n (set (nodes sl)))) t t2"
proof -
  show "unch (insert p (insert n (set (nodes sl)))) t t2"
    using assms(5) rep_root[of t n "right_of t n" sl] unfolding t2_def unch_def
    by (auto simp: rb_unfold rb_insert_case2_right_def)
qed (use assms in \<open>cases sl rule: black.cases;
      simp add: rb_insert_case2_right_def rb_sim split del: split_of_bool\<close>)+

lemma insert_case23_right_outer:
  assumes "repc t n (FR p False r # FR g bg u # c)" "rep t p n s" "s \<noteq> Leaf"
    and "separate (FR p False r # FR g bg u # c) s"
  shows "rb_to t (rb_insert_case23_right n p g t) c (Node (Node u (g, False) (paint True r)) (p, bg) s)"
proof -
  have "n \<in> set (nodes s)" using assms(2,3) by (cases s rule: black.cases) auto
  then have "n \<notin> set (nodes r)" "n \<noteq> NULL"
    using assms(4) rep_not_null[OF assms(2)] by (auto simp: separate_def Int_Un_distrib)
  then have "n \<noteq> left_of t p"
    using assms(1) rep_root[of t p "left_of t p" r] by auto
  moreover have "separate c (Node (Node u (g, False) r) (p, bg) s)"
    using assms(4) by (simp add: separate_iff nodes_plug)
  ultimately show ?thesis
    using assms(1-3) insert_case3_right[of t g c bg u p s "left_of t p" r]
    by (simp add: rb_insert_case23_right_def Let_def split del: split_of_bool)
qed

lemma insert_case23_right_inner:
  assumes "repc t n (FL p False l # FR g bg u # c)" "rep t p n (Node sr (n, k) sl)"
    and "separate (FL p False l # FR g bg u # c) (Node sr (n, k) sl)"
  shows "rb_to t (rb_insert_case23_right n p g t) c
           (Node (Node u (g, False) (paint True sr)) (n, bg) (Node (paint True sl) (p, False) l))"
proof -
  define t2 where "t2 = rb_insert_case2_right n p t"
  have "separate (FR g bg u # c) (Node (Node sr (n, k) sl) (p, False) l)"
    using assms(3) by (simp add: separate_iff nodes_plug)
  then have c2: "repc t2 g c" "pac t2 g = 4 * par c + of_bool bg" "rep t2 g (left_of t2 g) u"
    "rep t2 n (right_of t2 n) (Node (paint True sl) (p, False) l)" "rep t2 n (left_of t2 n) sr"
    and un: "unch (insert p (insert n (set (nodes sl)))) t t2"
    using assms(1,2) insert_case2_right[where t = t and p = p and g = g and bg = bg and u = u and c = c and n = n
      and l = l and sl = sl and k = k and sr = sr, folded t2_def]
    by (auto split del: split_of_bool)
  moreover have "separate c (Node (Node u (g, False) sr) (n, bg) (Node (paint True sl) (p, False) l))"
    using assms(3) by (simp add: separate_iff nodes_plug)
  ultimately have "rb_to t2 (rb_insert_case3_right (left_of t2 n) n g t2) c
           (Node (Node u (g, False) (paint True sr)) (n, bg) (Node (paint True sl) (p, False) l))"
    using assms(1,2) by (intro insert_case3_right) auto
  then have "rb_to t (rb_insert_case3_right (left_of t2 n) n g t2) c
           (Node (Node u (g, False) (paint True sr)) (n, bg) (Node (paint True sl) (p, False) l))"
    by (rule rb_to_after[OF _ un]) auto
  then show ?thesis using assms(1) by (simp add: rb_insert_case23_right_def Let_def t2_def)
qed

lemma rb_to_plug: "rb_to t t' [] (plug c s) \<longleftrightarrow> rb_to t t' c s"
  by (simp add: rb_to_def ctx_rep_def rep_plug nodes_plug fnodes_eq Un_ac)

lemma ctx_rep_plug: "ctx_rep t [] (plug c s) \<longleftrightarrow> ctx_rep t c s"
  by (simp add: ctx_rep_def rep_plug)

lemma insert_case1_left_left:
  assumes "repc t n (FL p False r # FL g bg u # c)" "rep t p n s" "\<not> black u"
    and "separate (FL p False r # FL g bg u # c) s"
  defines "t' \<equiv> rb_insert_case1 (right_of t g) p g t"
  shows "repc t' g c" "rep t' (par c) g (Node (Node s (p, True) r) (g, False) (paint True u))"
    "unch (fnodes (FL p False r # FL g bg u # c)) t t'" "rb_parent t' g = par c"
  using assms
  by (cases u rule: black.cases; simp add: rb_insert_case1_def unch_def rb_sim split del: split_of_bool)+

lemma insert_case1_left_right:
  assumes "repc t n (FR p False r # FL g bg u # c)" "rep t p n s" "\<not> black u"
    and "separate (FR p False r # FL g bg u # c) s"
  defines "t' \<equiv> rb_insert_case1 (right_of t g) p g t"
  shows "repc t' g c" "rep t' (par c) g (Node (Node r (p, True) s) (g, False) (paint True u))"
    "unch (fnodes (FR p False r # FL g bg u # c)) t t'" "rb_parent t' g = par c"
  using assms
  by (cases u rule: black.cases; simp add: rb_insert_case1_def unch_def rb_sim split del: split_of_bool)+

lemma insert_case1_right_left:
  assumes "repc t n (FL p False r # FR g bg u # c)" "rep t p n s" "\<not> black u"
    and "separate (FL p False r # FR g bg u # c) s"
  defines "t' \<equiv> rb_insert_case1 (left_of t g) p g t"
  shows "repc t' g c" "rep t' (par c) g (Node (paint True u) (g, False) (Node s (p, True) r))"
    "unch (fnodes (FL p False r # FR g bg u # c)) t t'" "rb_parent t' g = par c"
  using assms
  by (cases u rule: black.cases; simp add: rb_insert_case1_def unch_def rb_sim split del: split_of_bool)+

lemma insert_case1_right_right:
  assumes "repc t n (FR p False r # FR g bg u # c)" "rep t p n s" "\<not> black u"
    and "separate (FR p False r # FR g bg u # c) s"
  defines "t' \<equiv> rb_insert_case1 (left_of t g) p g t"
  shows "repc t' g c" "rep t' (par c) g (Node (paint True u) (g, False) (Node r (p, True) s))"
    "unch (fnodes (FR p False r # FR g bg u # c)) t t'" "rb_parent t' g = par c"
  using assms
  by (cases u rule: black.cases; simp add: rb_insert_case1_def unch_def rb_sim split del: split_of_bool)+

text \<open>
  The loop implements \<open>ins_fix\<close>: from a node \<open>n\<close> with the red subtree \<open>s\<close> in a context
  whose topmost node is black, it ends, and the memory then holds the rebalanced tree.
\<close>

lemma insert_loop_sim:
  assumes "repc t n c" "rep t (par c) n s" "s \<noteq> Leaf" "separate c s" "topblack c True"
  shows "\<exists>t'. rb_insert_loop n (par c) t = Some t' \<and> rb_to t t' [] (ins_fix c s)"
  using assms
proof (induction c s arbitrary: t n rule: ins_fix.induct)
  case (1 s)
  then obtain l a b r where s: "s = Node l (a, b) r" by (cases s rule: black.cases) auto
  have "rb_insert_loop n (par []) t = Some (rb_set_parent_color n NULL RB_BLACK t)"
    by (simp add: rb_insert_loop.simps)
  then show ?case using 1 s
    by (simp add: rb_to_def unch_def rb_sim split del: split_of_bool)
next
  case (2 p r c s)
  then have "rb_insert_loop n (par (FL p True r # c)) t = Some t"
    by (simp add: rb_insert_loop.simps rb_is_black_def)
  then show ?case using 2 by (auto simp: rb_to_def ctx_rep_def rep_plug)
next
  case (3 p r c s)
  then have "rb_insert_loop n (par (FR p True r # c)) t = Some t"
    by (simp add: rb_insert_loop.simps rb_is_black_def)
  then show ?case using 3 by (auto simp: rb_to_def ctx_rep_def rep_plug)
next
  case (4 p r g bg u c s)
  note prems = "4.prems" and IH = "4.IH"
  let ?c = "FL p False r # FL g bg u # c"
  have np: "par ?c \<noteq> NULL" "rb_is_black t p = False" "rb_red_parent t p = g" "par ?c = p"
    using prems(1) by (auto simp: rb_is_black_def rb_red_parent_def)
  have pt: "p \<noteq> right_of t g"
    using prems rep_root[of t g "right_of t g" u] by (auto simp: separate_def)
  have u: "(right_of t g \<noteq> NULL \<and> rb_is_red t (right_of t g)) = (\<not> black u)"
    using prems rep_red[of t g "right_of t g" u] by auto
  have tb: "topblack c True" using prems(5) by (auto elim: topblack_True)
  show ?case
  proof (cases "black u")
    case False
    define t1 where "t1 = rb_insert_case1 (right_of t g) p g t"
    note c1 = insert_case1_left_left[OF prems(1) _ False prems(4), folded t1_def]
    have "rb_insert_loop n (par ?c) t = rb_insert_loop g (par c) t1"
      using np pt u False prems c1(4) by (subst rb_insert_loop.simps) (simp add: Let_def t1_def)
    moreover have "separate c (Node (Node s (p, True) r) (g, False) (paint True u))"
      using prems(4) by (simp add: separate_iff nodes_plug)
    ultimately obtain t' where "rb_insert_loop n (par ?c) t = Some t'"
      and "rb_to t1 t' [] (ins_fix c (Node (Node s (p, True) r) (g, False) (paint True u)))"
      using IH[OF False, of t1 g] c1 prems tb by auto
    moreover have "fnodes ?c \<subseteq> set (nodes (ins_fix c (Node (Node s (p, True) r) (g, False) (paint True u))))"
      by (auto simp: nodes_ins_fix fnodes_eq)
    ultimately show ?thesis using c1(3) prems False rb_to_after[of t1 t' "[]"]
      by auto
  next
    case True
    have "rb_insert_loop n (par ?c) t = Some (rb_insert_case23_left n p g t)"
      using np pt u True by (subst rb_insert_loop.simps) (auto simp: Let_def)
    then show ?thesis
      using insert_case23_left_outer[OF prems(1) _ prems(3,4)] prems True
      by (simp add: rb_to_plug)
  qed
next
  case (5 p r g bg u c s)
  note prems = "5.prems" and IH = "5.IH"
  let ?c = "FR p False r # FL g bg u # c"
  have np: "par ?c \<noteq> NULL" "rb_is_black t p = False" "rb_red_parent t p = g" "par ?c = p"
    using prems(1) by (auto simp: rb_is_black_def rb_red_parent_def)
  have pt: "p \<noteq> right_of t g"
    using prems rep_root[of t g "right_of t g" u] by (auto simp: separate_def)
  have u: "(right_of t g \<noteq> NULL \<and> rb_is_red t (right_of t g)) = (\<not> black u)"
    using prems rep_red[of t g "right_of t g" u] by auto
  have tb: "topblack c True" using prems(5) by (auto elim: topblack_True)
  show ?case
  proof (cases "black u")
    case False
    define t1 where "t1 = rb_insert_case1 (right_of t g) p g t"
    note c1 = insert_case1_left_right[OF prems(1) _ False prems(4), folded t1_def]
    have "rb_insert_loop n (par ?c) t = rb_insert_loop g (par c) t1"
      using np pt u False prems c1(4) by (subst rb_insert_loop.simps) (simp add: Let_def t1_def)
    moreover have "separate c (Node (Node r (p, True) s) (g, False) (paint True u))"
      using prems(4) by (simp add: separate_iff nodes_plug)
    ultimately obtain t' where "rb_insert_loop n (par ?c) t = Some t'"
      and "rb_to t1 t' [] (ins_fix c (Node (Node r (p, True) s) (g, False) (paint True u)))"
      using IH[OF False, of t1 g] c1 prems tb by auto
    moreover have "fnodes ?c \<subseteq> set (nodes (ins_fix c (Node (Node r (p, True) s) (g, False) (paint True u))))"
      by (auto simp: nodes_ins_fix fnodes_eq)
    ultimately show ?thesis using c1(3) prems False rb_to_after[of t1 t' "[]"]
      by auto
  next
    case True
    have "rb_insert_loop n (par ?c) t = Some (rb_insert_case23_left n p g t)"
      using np pt u True by (subst rb_insert_loop.simps) (auto simp: Let_def)
    moreover obtain sl k sr where s: "s = Node sl (n, k) sr"
      using prems(2,3) by (cases s rule: black.cases) auto
    ultimately show ?thesis
      using insert_case23_left_inner[of t n p r g bg u c] prems True
      by (simp add: rb_to_plug)
  qed
next
  case (6 p r g bg u c s)
  note prems = "6.prems" and IH = "6.IH"
  let ?c = "FR p False r # FR g bg u # c"
  have np: "par ?c \<noteq> NULL" "rb_is_black t p = False" "rb_red_parent t p = g" "par ?c = p"
    using prems(1) by (auto simp: rb_is_black_def rb_red_parent_def)
  have pt: "p = right_of t g" using prems by auto
  have u: "(left_of t g \<noteq> NULL \<and> rb_is_red t (left_of t g)) = (\<not> black u)"
    using prems rep_red[of t g "left_of t g" u] by auto
  have tb: "topblack c True" using prems(5) by (auto elim: topblack_True)
  show ?case
  proof (cases "black u")
    case False
    define t1 where "t1 = rb_insert_case1 (left_of t g) p g t"
    note c1 = insert_case1_right_right[OF prems(1) _ False prems(4), folded t1_def]
    have "rb_insert_loop n (par ?c) t = rb_insert_loop g (par c) t1"
      using np pt u False prems c1(4) by (subst rb_insert_loop.simps) (simp add: Let_def t1_def)
    moreover have "separate c (Node (paint True u) (g, False) (Node r (p, True) s))"
      using prems(4) by (simp add: separate_iff nodes_plug)
    ultimately obtain t' where "rb_insert_loop n (par ?c) t = Some t'"
      and "rb_to t1 t' [] (ins_fix c (Node (paint True u) (g, False) (Node r (p, True) s)))"
      using IH[OF False, of t1 g] c1 prems tb by auto
    moreover have "fnodes ?c \<subseteq> set (nodes (ins_fix c (Node (paint True u) (g, False) (Node r (p, True) s))))"
      by (auto simp: nodes_ins_fix fnodes_eq)
    ultimately show ?thesis using c1(3) prems False rb_to_after[of t1 t' "[]"]
      by auto
  next
    case True
    have "rb_insert_loop n (par ?c) t = Some (rb_insert_case23_right n p g t)"
      using np pt u True by (subst rb_insert_loop.simps) (auto simp: Let_def)
    then show ?thesis
      using insert_case23_right_outer[OF prems(1) _ prems(3,4)] prems True
      by (simp add: rb_to_plug)
  qed
next
  case (7 p r g bg u c s)
  note prems = "7.prems" and IH = "7.IH"
  let ?c = "FL p False r # FR g bg u # c"
  have np: "par ?c \<noteq> NULL" "rb_is_black t p = False" "rb_red_parent t p = g" "par ?c = p"
    using prems(1) by (auto simp: rb_is_black_def rb_red_parent_def)
  have pt: "p = right_of t g" using prems by auto
  have u: "(left_of t g \<noteq> NULL \<and> rb_is_red t (left_of t g)) = (\<not> black u)"
    using prems rep_red[of t g "left_of t g" u] by auto
  have tb: "topblack c True" using prems(5) by (auto elim: topblack_True)
  show ?case
  proof (cases "black u")
    case False
    define t1 where "t1 = rb_insert_case1 (left_of t g) p g t"
    note c1 = insert_case1_right_left[OF prems(1) _ False prems(4), folded t1_def]
    have "rb_insert_loop n (par ?c) t = rb_insert_loop g (par c) t1"
      using np pt u False prems c1(4) by (subst rb_insert_loop.simps) (simp add: Let_def t1_def)
    moreover have "separate c (Node (paint True u) (g, False) (Node s (p, True) r))"
      using prems(4) by (simp add: separate_iff nodes_plug)
    ultimately obtain t' where "rb_insert_loop n (par ?c) t = Some t'"
      and "rb_to t1 t' [] (ins_fix c (Node (paint True u) (g, False) (Node s (p, True) r)))"
      using IH[OF False, of t1 g] c1 prems tb by auto
    moreover have "fnodes ?c \<subseteq> set (nodes (ins_fix c (Node (paint True u) (g, False) (Node s (p, True) r))))"
      by (auto simp: nodes_ins_fix fnodes_eq)
    ultimately show ?thesis using c1(3) prems False rb_to_after[of t1 t' "[]"]
      by auto
  next
    case True
    have "rb_insert_loop n (par ?c) t = Some (rb_insert_case23_right n p g t)"
      using np pt u True by (subst rb_insert_loop.simps) (auto simp: Let_def)
    moreover obtain sl k sr where s: "s = Node sl (n, k) sr"
      using prems(2,3) by (cases s rule: black.cases) auto
    ultimately show ?thesis
      using insert_case23_right_inner[of t n p r g bg u c] prems True
      by (simp add: rb_to_plug)
  qed
qed simp_all

end
