(* ===== verification/Eh_Rbtree_Del.thy ===== *)
theory Eh_Rbtree_Del
  imports Eh_Rbtree_Sim
begin

text \<open>
  The simulation of the deletion: the pointer code of \<open>____rb_erase_color\<close> and
  \<open>__rb_del_node\<close> implements \<open>del_fix\<close> and \<open>del_node\<close>.
\<close>

subsection \<open>Rebalancing\<close>

definition repaint :: "ptr \<Rightarrow> ptr \<Rightarrow> rbtree \<Rightarrow> rbtree" where
  "repaint q p t = unless_null q (rb_set_parent_color q p RB_BLACK) t"

definition reparent :: "ptr \<Rightarrow> ptr \<Rightarrow> rbtree \<Rightarrow> rbtree" where
  "reparent q p t = unless_null q (rb_set_parent q p) t"

lemma repaint_child [simp]:
  "left_of (repaint q p t) m = left_of t m" "right_of (repaint q p t) m = right_of t m"
  "left_of (reparent q p t) m = left_of t m" "right_of (reparent q p t) m = right_of t m"
  by (auto simp: repaint_def reparent_def rb_unfold)

lemma repaint_rep: "rep t p' q s \<Longrightarrow> distinct (nodes s) \<Longrightarrow> rep (repaint q p t) p q (paint True s)"
  by (cases s rule: black.cases) (auto simp: repaint_def rb_unfold)

lemma reparent_rep: "rep t p' q s \<Longrightarrow> distinct (nodes s) \<Longrightarrow> rep (reparent q p t) p q s"
  by (cases s rule: black.cases) (auto simp: reparent_def rb_unfold)

lemma repaint_frame:
  assumes "rep t p' q s"
  shows "m \<notin> set (nodes s) \<Longrightarrow> rb_mem (repaint q p t) m = rb_mem t m"
    and "set (nodes s) \<inter> set (nodes s') = {} \<Longrightarrow> rep (repaint q p t) a b s' = rep t a b s'"
    and "set (nodes s) \<inter> fnodes c = {} \<Longrightarrow> repc (repaint q p t) b c = repc t b c"
proof -
  show m: "m \<notin> set (nodes s) \<Longrightarrow> rb_mem (repaint q p t) m = rb_mem t m" for m
    using rep_root[OF assms] by (auto simp: repaint_def rb_unfold)
  then show "set (nodes s) \<inter> set (nodes s') = {} \<Longrightarrow> rep (repaint q p t) a b s' = rep t a b s'"
    by (auto intro!: rep_cong)
  show "set (nodes s) \<inter> fnodes c = {} \<Longrightarrow> repc (repaint q p t) b c = repc t b c"
    using rep_root[OF assms] by (auto intro!: repc_cong simp: repaint_def rb_unfold)
qed

lemma reparent_frame:
  assumes "rep t p' q s"
  shows "m \<notin> set (nodes s) \<Longrightarrow> rb_mem (reparent q p t) m = rb_mem t m"
    and "set (nodes s) \<inter> set (nodes s') = {} \<Longrightarrow> rep (reparent q p t) a b s' = rep t a b s'"
    and "set (nodes s) \<inter> fnodes c = {} \<Longrightarrow> repc (reparent q p t) b c = repc t b c"
proof -
  show m: "m \<notin> set (nodes s) \<Longrightarrow> rb_mem (reparent q p t) m = rb_mem t m" for m
    using rep_root[OF assms] by (auto simp: reparent_def rb_unfold)
  then show "set (nodes s) \<inter> set (nodes s') = {} \<Longrightarrow> rep (reparent q p t) a b s' = rep t a b s'"
    by (auto intro!: rep_cong)
  show "set (nodes s) \<inter> fnodes c = {} \<Longrightarrow> repc (reparent q p t) b c = repc t b c"
    using rep_root[OF assms] by (auto intro!: repc_cong simp: reparent_def rb_unfold)
qed

lemma erase_case4_left:
  assumes "repc t p c" "pac t p = 4 * par c + of_bool b" "rep t p (left_of t p) s"
    and "rep t x (left_of t x) sl" "rep t pz z sr" "right_of t x = z" "z \<noteq> NULL" "p \<noteq> NULL" "x \<noteq> NULL"
    and "separate c (Node (Node s (p, True) sl) (x, b) sr)"
  shows "rb_to t (rb_erase_case4_left p x z t) c (Node (Node s (p, True) sl) (x, b) (paint True sr))"
proof -
  define y where "y = left_of t x"
  define t1 where "t1 = set_left x p (set_right p y t)"
  define t2 where "t2 = repaint z x t1"
  define t3 where "t3 = reparent y p t2"
  have sep: "set (nodes sr) \<inter> set (nodes s) = {}" "set (nodes sr) \<inter> set (nodes sl) = {}"
    "set (nodes sl) \<inter> set (nodes s) = {}" "set (nodes sl) \<inter> set (nodes sr) = {}"
    "set (nodes sr) \<inter> fnodes c = {}" "set (nodes sl) \<inter> fnodes c = {}"
    "p \<notin> set (nodes sl)" "p \<notin> set (nodes sr)" "x \<notin> set (nodes sl)" "x \<notin> set (nodes sr)"
    "distinct (nodes sl)" "distinct (nodes sr)"
    using assms(10) by (auto simp: separate_def)
  have t1: "repc t1 p c" "pac t1 p = 4 * par c + of_bool b" "rep t1 p (left_of t1 p) s" "left_of t1 x = p"
    "rep t1 x y sl" "right_of t1 p = y" "rep t1 pz z sr" "right_of t1 x = z"
    using assms unfolding t1_def y_def by (simp_all add: rb_sim split del: split_of_bool)
  note f2 = repaint_frame[OF t1(7), of _ x, folded t2_def]
  have t2: "repc t2 p c" "pac t2 p = 4 * par c + of_bool b" "rep t2 p (left_of t2 p) s" "left_of t2 x = p"
    "rep t2 x y sl" "right_of t2 p = y" "rep t2 x z (paint True sr)" "right_of t2 x = z"
    using t1 sep f2 repaint_rep[OF t1(7), of x] by (simp_all add: t2_def)
  note f3 = reparent_frame[OF t2(5), of _ p, folded t3_def]
  have t3: "repc t3 p c" "pac t3 p = 4 * par c + of_bool b" "rep t3 p (left_of t3 p) s" "left_of t3 x = p"
    "rep t3 p (right_of t3 p) sl" "rep t3 x (right_of t3 x) (paint True sr)"
    using t2 sep f3 reparent_rep[OF t2(5), of p] by (simp_all add: t3_def)
  have "rb_erase_case4_left p x z t = rb_rotate_set_parents p x (of_bool True) t3"
    using assms(7)
    by (simp add: rb_erase_case4_left_def t3_def t2_def t1_def y_def RB_BLACK_def Let_def repaint_def reparent_def)
  moreover have "separate c (Node (Node s (p, True) sl) (x, b) (paint True sr))"
    using assms(10) by (simp add: separate_def)
  ultimately have "rb_to t3 (rb_erase_case4_left p x z t) c (Node (Node s (p, True) sl) (x, b) (paint True sr))"
    using assms t3 rotate_to_right by metis
  moreover have "unch (insert p (insert x (set (nodes sl) \<union> set (nodes sr)))) t t3"
    using assms(7) rep_root[OF assms(4)] rep_root[OF assms(5)]
    unfolding t3_def t2_def t1_def unch_def y_def by (auto simp: rb_unfold repaint_def reparent_def)
  ultimately show ?thesis by (rule rb_to_after) auto
qed

lemma erase_case3_left:
  assumes "repc t p c" "pac t p = 4 * par c + of_bool b" "rep t p (left_of t p) s"
    and "right_of t p = x" "rep t p x (Node (Node ul (y, k) ur) (x, True) sr)" "p \<noteq> NULL"
    and "separate c (Node s (p, b) (Node (Node ul (y, k) ur) (x, True) sr))"
  defines "t2 \<equiv> rb_erase_case3_left p x y t"
  shows "repc t2 p c" "pac t2 p = 4 * par c + of_bool b" "rep t2 p (left_of t2 p) s"
    and "rep t2 y (left_of t2 y) ul" "rep t2 p x (Node (paint True ur) (x, True) sr)" "right_of t2 y = x"
    and "unch (insert p (insert x (insert y (set (nodes ur))))) t t2"
proof -
  show "unch (insert p (insert x (insert y (set (nodes ur))))) t t2"
    using assms(5) rep_root[of t y "right_of t y" ur] unfolding t2_def unch_def
    by (auto simp: rb_unfold rb_erase_case3_left_def)
qed (use assms in \<open>cases ur rule: black.cases;
      simp add: rb_erase_case3_left_def rb_sim split del: split_of_bool\<close>)+

lemma erase_case1_left:
  assumes "repc t p c" "pac t p = 4 * par c + of_bool b" "rep t p (left_of t p) s"
    and "right_of t p = x" "rep t p x (Node sl (x, k) sr)" "sl \<noteq> Leaf" "p \<noteq> NULL"
    and "separate c (Node s (p, b) (Node sl (x, k) sr))"
  shows "rb_to t (rb_erase_case1_left p x t) c (Node (Node s (p, False) (paint True sl)) (x, b) sr)"
proof -
  define y where "y = left_of t x"
  define t2 where
    "t2 = rb_set_parent_color y p RB_BLACK (set_left x p (set_right p y t))"
  have y: "y \<noteq> NULL" using assms(5,6) y_def by (cases sl rule: black.cases) auto
  have "repc t2 p c" "pac t2 p = 4 * par c + of_bool b" "left_of t2 x = p" "x \<noteq> NULL"
    "rep t2 x (right_of t2 x) sr" "rep t2 p (right_of t2 p) (paint True sl)" "rep t2 p (left_of t2 p) s"
    using assms unfolding t2_def y_def
    by (cases sl rule: black.cases; simp add: rb_sim split del: split_of_bool)+
  moreover have "rb_erase_case1_left p x t = rb_rotate_set_parents p x (of_bool False) t2"
    by (simp add: rb_erase_case1_left_def t2_def y_def RB_RED_def Let_def)
  moreover have "separate c (Node (Node s (p, False) (paint True sl)) (x, b) sr)"
    using assms(8) by (simp add: separate_iff nodes_plug)
  ultimately have "rb_to t2 (rb_erase_case1_left p x t) c (Node (Node s (p, False) (paint True sl)) (x, b) sr)"
    using assms rotate_to_right by metis
  moreover have "unch (insert p (insert x (set (nodes sl)))) t t2"
    using y assms(5) rep_root[of t x "left_of t x" sl]
    unfolding t2_def unch_def y_def by (auto simp: rb_unfold)
  ultimately show ?thesis by (rule rb_to_after) auto
qed

lemma erase_case4_right:
  assumes "repc t p c" "pac t p = 4 * par c + of_bool b" "rep t p (right_of t p) s"
    and "rep t x (right_of t x) sl" "rep t pz z sr" "left_of t x = z" "z \<noteq> NULL" "p \<noteq> NULL" "x \<noteq> NULL"
    and "separate c (Node sr (x, b) (Node sl (p, True) s))"
  shows "rb_to t (rb_erase_case4_right p x z t) c (Node (paint True sr) (x, b) (Node sl (p, True) s))"
proof -
  define y where "y = right_of t x"
  define t1 where "t1 = set_right x p (set_left p y t)"
  define t2 where "t2 = repaint z x t1"
  define t3 where "t3 = reparent y p t2"
  have sep: "set (nodes sr) \<inter> set (nodes s) = {}" "set (nodes sr) \<inter> set (nodes sl) = {}"
    "set (nodes sl) \<inter> set (nodes s) = {}" "set (nodes sl) \<inter> set (nodes sr) = {}"
    "set (nodes sr) \<inter> fnodes c = {}" "set (nodes sl) \<inter> fnodes c = {}"
    "p \<notin> set (nodes sl)" "p \<notin> set (nodes sr)" "x \<notin> set (nodes sl)" "x \<notin> set (nodes sr)"
    "distinct (nodes sl)" "distinct (nodes sr)"
    using assms(10) by (auto simp: separate_def)
  have t1: "repc t1 p c" "pac t1 p = 4 * par c + of_bool b" "rep t1 p (right_of t1 p) s" "right_of t1 x = p"
    "rep t1 x y sl" "left_of t1 p = y" "rep t1 pz z sr" "left_of t1 x = z"
    using assms unfolding t1_def y_def by (simp_all add: rb_sim split del: split_of_bool)
  note f2 = repaint_frame[OF t1(7), of _ x, folded t2_def]
  have t2: "repc t2 p c" "pac t2 p = 4 * par c + of_bool b" "rep t2 p (right_of t2 p) s" "right_of t2 x = p"
    "rep t2 x y sl" "left_of t2 p = y" "rep t2 x z (paint True sr)" "left_of t2 x = z"
    using t1 sep f2 repaint_rep[OF t1(7), of x] by (simp_all add: t2_def)
  note f3 = reparent_frame[OF t2(5), of _ p, folded t3_def]
  have t3: "repc t3 p c" "pac t3 p = 4 * par c + of_bool b" "rep t3 p (right_of t3 p) s" "right_of t3 x = p"
    "rep t3 p (left_of t3 p) sl" "rep t3 x (left_of t3 x) (paint True sr)"
    using t2 sep f3 reparent_rep[OF t2(5), of p] by (simp_all add: t3_def)
  have "rb_erase_case4_right p x z t = rb_rotate_set_parents p x (of_bool True) t3"
    using assms(7)
    by (simp add: rb_erase_case4_right_def t3_def t2_def t1_def y_def RB_BLACK_def Let_def repaint_def reparent_def)
  moreover have "separate c (Node (paint True sr) (x, b) (Node sl (p, True) s))"
    using assms(10) by (simp add: separate_def)
  ultimately have "rb_to t3 (rb_erase_case4_right p x z t) c (Node (paint True sr) (x, b) (Node sl (p, True) s))"
    using assms t3 rotate_to_left by metis
  moreover have "unch (insert p (insert x (set (nodes sl) \<union> set (nodes sr)))) t t3"
    using assms(7) rep_root[OF assms(4)] rep_root[OF assms(5)]
    unfolding t3_def t2_def t1_def unch_def y_def by (auto simp: rb_unfold repaint_def reparent_def)
  ultimately show ?thesis by (rule rb_to_after) auto
qed

lemma erase_case3_right:
  assumes "repc t p c" "pac t p = 4 * par c + of_bool b" "rep t p (right_of t p) s"
    and "left_of t p = x" "rep t p x (Node sr (x, True) (Node ur (y, k) ul))" "p \<noteq> NULL"
    and "separate c (Node (Node sr (x, True) (Node ur (y, k) ul)) (p, b) s)"
  defines "t2 \<equiv> rb_erase_case3_right p x y t"
  shows "repc t2 p c" "pac t2 p = 4 * par c + of_bool b" "rep t2 p (right_of t2 p) s"
    and "rep t2 y (right_of t2 y) ul" "rep t2 p x (Node sr (x, True) (paint True ur))" "left_of t2 y = x"
    and "unch (insert p (insert x (insert y (set (nodes ur))))) t t2"
proof -
  show "unch (insert p (insert x (insert y (set (nodes ur))))) t t2"
    using assms(5) rep_root[of t y "left_of t y" ur] unfolding t2_def unch_def
    by (auto simp: rb_unfold rb_erase_case3_right_def)
qed (use assms in \<open>cases ur rule: black.cases;
      simp add: rb_erase_case3_right_def rb_sim split del: split_of_bool\<close>)+

lemma erase_case1_right:
  assumes "repc t p c" "pac t p = 4 * par c + of_bool b" "rep t p (right_of t p) s"
    and "left_of t p = x" "rep t p x (Node sr (x, k) sl)" "sl \<noteq> Leaf" "p \<noteq> NULL"
    and "separate c (Node (Node sr (x, k) sl) (p, b) s)"
  shows "rb_to t (rb_erase_case1_right p x t) c (Node sr (x, b) (Node (paint True sl) (p, False) s))"
proof -
  define y where "y = right_of t x"
  define t2 where
    "t2 = rb_set_parent_color y p RB_BLACK (set_right x p (set_left p y t))"
  have y: "y \<noteq> NULL" using assms(5,6) y_def by (cases sl rule: black.cases) auto
  have "repc t2 p c" "pac t2 p = 4 * par c + of_bool b" "right_of t2 x = p" "x \<noteq> NULL"
    "rep t2 x (left_of t2 x) sr" "rep t2 p (left_of t2 p) (paint True sl)" "rep t2 p (right_of t2 p) s"
    using assms unfolding t2_def y_def
    by (cases sl rule: black.cases; simp add: rb_sim split del: split_of_bool)+
  moreover have "rb_erase_case1_right p x t = rb_rotate_set_parents p x (of_bool False) t2"
    by (simp add: rb_erase_case1_right_def t2_def y_def RB_RED_def Let_def)
  moreover have "separate c (Node sr (x, b) (Node (paint True sl) (p, False) s))"
    using assms(8) by (simp add: separate_iff nodes_plug)
  ultimately have "rb_to t2 (rb_erase_case1_right p x t) c (Node sr (x, b) (Node (paint True sl) (p, False) s))"
    using assms rotate_to_left by metis
  moreover have "unch (insert p (insert x (set (nodes sl)))) t t2"
    using y assms(5) rep_root[of t x "right_of t x" sl]
    unfolding t2_def unch_def y_def by (auto simp: rb_unfold)
  ultimately show ?thesis by (rule rb_to_after) auto
qed

lemma erase_flip:
  assumes "repc t p c" "pac t p = 4 * par c + of_bool b" "rep t p x (Node sl (x, True) sr)" "p \<noteq> NULL"
    and "x \<noteq> p" "p \<notin> set (nodes sl)" "p \<notin> set (nodes sr)" "x \<notin> set (nodes sl)" "x \<notin> set (nodes sr)"
    and "p \<notin> fnodes c" "x \<notin> fnodes c" "rb_erase_flip x p t = (t', r)"
  shows "repc t' p c" "pac t' p = 4 * par c + 1" "rep t' p x (Node sl (x, False) sr)"
    and "left_of t' = left_of t" "right_of t' = right_of t"
    and "r = (if b \<and> par c \<noteq> NULL then Some (p, par c) else None)"
    and "unch {p, x} t t'"
proof -
  have "pac t p = 4 * par c + of_bool b \<Longrightarrow>
      (t', r) = (if b then (set_pac x (4 * p) t, if par c \<noteq> NULL then Some (p, par c) else None)
                 else (set_pac p (Suc (4 * par c)) (set_pac x (4 * p) t), None))"
    using assms(12) not_sym[OF assms(5)]
    by (cases b; cases "par c = NULL") (simp_all add: pc_is_black_def pc_parent_def rb_erase_flip_def rb_set_black_def rb_is_red_def rb_is_black_def rb_unfold)
  then have e: "t' = (if b then set_pac x (4 * p) t else set_pac p (Suc (4 * par c)) (set_pac x (4 * p) t))"
    "r = (if b \<and> par c \<noteq> NULL then Some (p, par c) else None)"
    using assms(2) by (auto split: if_splits)
  show "r = (if b \<and> par c \<noteq> NULL then Some (p, par c) else None)" by (rule e(2))
  show "repc t' p c" "pac t' p = 4 * par c + 1" "rep t' p x (Node sl (x, False) sr)"
    and "left_of t' = left_of t" "right_of t' = right_of t" and "unch {p, x} t t'"
    using assms e(1) by (auto simp: unch_def)
qed

lemma del_step_red: "snd (del_l p False s sib) = False" "snd (del_r p False s sib) = False"
  by (cases "(p, False, s, sib)" rule: del_l.cases; auto split: tree.split bool.split)
     (cases "(p, False, s, sib)" rule: del_r.cases; auto split: tree.split bool.split)

lemma erase_balance_left:
  assumes "repc t p c" "pac t p = 4 * par c + of_bool b" "rep t p (left_of t p) s"
    and "right_of t p = x" "rep t p x (Node sl (x, True) sr)" "p \<noteq> NULL"
    and "separate c (Node s (p, b) (Node sl (x, True) sr))"
    and "del_l p b s (Node sl (x, True) sr) = (u, short)"
  obtains t' where
    "rb_erase_balance_left p x t = (t', if short \<and> par c \<noteq> NULL then Some (p, par c) else None)"
    and "rb_to t t' c u"
proof -
  have bl: "(right_of t x = NULL \<or> rb_is_black t (right_of t x)) = black sr"
    "(left_of t x = NULL \<or> rb_is_black t (left_of t x)) = black sl"
    using assms(5) rep_black by auto
  consider "\<not> black sr" | ul y ur where "black sr" "sl = (Node ul (y, False) ur)" | "black sr" "black sl"
    by (cases sl rule: black.cases) auto
  then show ?thesis
  proof cases
    case 1
    then have "rb_erase_balance_left p x t = (rb_erase_case4_left p x (right_of t x) t, None)"
      using bl by (simp add: rb_erase_balance_left_def)
    moreover have "rb_to t (rb_erase_case4_left p x (right_of t x) t) c (Node (Node s (p, True) sl) (x, b) (paint True sr))"
      using assms 1 by (intro erase_case4_left[where s = s]) (auto simp: separate_iff nodes_plug elim: black.elims)
    ultimately show ?thesis using that assms(8) 1 by auto
  next
    case 2
    define t2 where "t2 = rb_erase_case3_left p x y t"
    have y: "left_of t x = y" using assms(5) 2 by auto
    note c3 = erase_case3_left[OF assms(1-4), where ul = ul and y = y and k = False and ur = ur and sr = sr,
        folded t2_def]
    have "separate c (Node s (p, b) (Node (Node ul (y, False) ur) (x, True) sr))"
      using assms(7) 2 by simp
    then have c3: "repc t2 p c" "pac t2 p = 4 * par c + of_bool b" "rep t2 p (left_of t2 p) s"
       "rep t2 y (left_of t2 y) ul" "rep t2 p x (Node (paint True ur) (x, True) sr)" "right_of t2 y = x"
       "unch (insert p (insert x (insert y (set (nodes ur))))) t t2"
      using c3 assms(5,6) 2 by simp_all
    have ny: "y \<noteq> NULL" "x \<noteq> NULL" using assms(5) 2 by auto
    have "rb_erase_balance_left p x t = (rb_erase_case4_left p y x t2, None)"
      using bl 2 y by (simp add: rb_erase_balance_left_def t2_def)
    moreover have "rb_to t2 (rb_erase_case4_left p y x t2) c
        (Node (Node s (p, True) ul) (y, b) (paint True (Node (paint True ur) (x, True) sr)))"
      using c3 assms(6,7) ny 2 by (intro erase_case4_left[where s = s]) (auto simp: separate_iff nodes_plug)
    then have "rb_to t (rb_erase_case4_left p y x t2) c
        (Node (Node s (p, True) ul) (y, b) (Node (paint True ur) (x, True) sr))"
      using c3(7) by (auto intro: rb_to_after)
    ultimately show ?thesis using that assms(8) 2 by auto
  next
    case 3
    obtain t' r where f: "rb_erase_flip x p t = (t', r)" by fastforce
    have sep: "x \<noteq> p" "p \<notin> set (nodes sl)" "p \<notin> set (nodes sr)" "x \<notin> set (nodes sl)" "x \<notin> set (nodes sr)"
      "p \<notin> fnodes c" "x \<notin> fnodes c" "p \<notin> set (nodes s)" "x \<notin> set (nodes s)"
      using assms(7) by (auto simp: separate_def)
    have us: "u = (Node s (p, True) (Node sl (x, False) sr))" "short = b"
      using assms(8) 3 by (auto split: tree.splits bool.splits)
    have "rb_erase_balance_left p x t = (t', r)"
      using bl 3 f by (simp add: rb_erase_balance_left_def)
    moreover note fl = erase_flip[where t = t and p = p and c = c and b = b and x = x, OF assms(1,2) _ assms(6) sep(1) _ _ _ _ sep(6,7) f]
    have fl: "repc t' p c" "pac t' p = 4 * par c + 1" "rep t' p x (Node sl (x, False) sr)"
      "left_of t' = left_of t" "right_of t' = right_of t"
      "r = (if b \<and> par c \<noteq> NULL then Some (p, par c) else None)" "unch {p, x} t t'"
      using fl[of sl sr] assms(5) sep by auto
    moreover have "rep t' p (left_of t' p) s"
    proof -
      have "rep t' p (left_of t p) s = rep t p (left_of t p) s"
        using fl(7) sep by (intro rep_cong) (auto simp: unch_def)
      then show ?thesis using assms(3) fl(4,5) by (metis)
    qed
    ultimately show ?thesis
      using that us assms(4,6) fl(4,5)
      by (auto simp: rb_to_def ctx_rep_def unch_def fun_eq_iff)
  qed
qed

lemma erase_balance_right:
  assumes "repc t p c" "pac t p = 4 * par c + of_bool b" "rep t p (right_of t p) s"
    and "left_of t p = x" "rep t p x (Node sr (x, True) sl)" "p \<noteq> NULL"
    and "separate c (Node (Node sr (x, True) sl) (p, b) s)"
    and "del_r p b s (Node sr (x, True) sl) = (u, short)"
  obtains t' where
    "rb_erase_balance_right p x t = (t', if short \<and> par c \<noteq> NULL then Some (p, par c) else None)"
    and "rb_to t t' c u"
proof -
  have bl: "(left_of t x = NULL \<or> rb_is_black t (left_of t x)) = black sr"
    "(right_of t x = NULL \<or> rb_is_black t (right_of t x)) = black sl"
    using assms(5) rep_black by auto
  consider "\<not> black sr" | ul y ur where "black sr" "sl = (Node ur (y, False) ul)" | "black sr" "black sl"
    by (cases sl rule: black.cases) auto
  then show ?thesis
  proof cases
    case 1
    then have "rb_erase_balance_right p x t = (rb_erase_case4_right p x (left_of t x) t, None)"
      using bl by (simp add: rb_erase_balance_right_def)
    moreover have "rb_to t (rb_erase_case4_right p x (left_of t x) t) c (Node (paint True sr) (x, b) (Node sl (p, True) s))"
      using assms 1 by (intro erase_case4_right[where s = s]) (auto simp: separate_iff nodes_plug elim: black.elims)
    ultimately show ?thesis using that assms(8) 1 by auto
  next
    case 2
    define t2 where "t2 = rb_erase_case3_right p x y t"
    have y: "right_of t x = y" using assms(5) 2 by auto
    note c3 = erase_case3_right[OF assms(1-4), where ul = ul and y = y and k = False and ur = ur and sr = sr,
        folded t2_def]
    have "separate c (Node (Node sr (x, True) (Node ur (y, False) ul)) (p, b) s)"
      using assms(7) 2 by simp
    then have c3: "repc t2 p c" "pac t2 p = 4 * par c + of_bool b" "rep t2 p (right_of t2 p) s"
       "rep t2 y (right_of t2 y) ul" "rep t2 p x (Node sr (x, True) (paint True ur))" "left_of t2 y = x"
       "unch (insert p (insert x (insert y (set (nodes ur))))) t t2"
      using c3 assms(5,6) 2 by simp_all
    have ny: "y \<noteq> NULL" "x \<noteq> NULL" using assms(5) 2 by auto
    have "rb_erase_balance_right p x t = (rb_erase_case4_right p y x t2, None)"
      using bl 2 y by (simp add: rb_erase_balance_right_def t2_def)
    moreover have "rb_to t2 (rb_erase_case4_right p y x t2) c
        (Node (paint True (Node sr (x, True) (paint True ur))) (y, b) (Node ul (p, True) s))"
      using c3 assms(6,7) ny 2 by (intro erase_case4_right[where s = s]) (auto simp: separate_iff nodes_plug)
    then have "rb_to t (rb_erase_case4_right p y x t2) c
        (Node (Node sr (x, True) (paint True ur)) (y, b) (Node ul (p, True) s))"
      using c3(7) by (auto intro: rb_to_after)
    ultimately show ?thesis using that assms(8) 2 by auto
  next
    case 3
    obtain t' r where f: "rb_erase_flip x p t = (t', r)" by fastforce
    have sep: "x \<noteq> p" "p \<notin> set (nodes sl)" "p \<notin> set (nodes sr)" "x \<notin> set (nodes sl)" "x \<notin> set (nodes sr)"
      "p \<notin> fnodes c" "x \<notin> fnodes c" "p \<notin> set (nodes s)" "x \<notin> set (nodes s)"
      using assms(7) by (auto simp: separate_def)
    have us: "u = (Node (Node sr (x, False) sl) (p, True) s)" "short = b"
      using assms(8) 3 by (auto split: tree.splits bool.splits)
    have "rb_erase_balance_right p x t = (t', r)"
      using bl 3 f by (simp add: rb_erase_balance_right_def)
    moreover note fl = erase_flip[where t = t and p = p and c = c and b = b and x = x, OF assms(1,2) _ assms(6) sep(1) _ _ _ _ sep(6,7) f]
    have fl: "repc t' p c" "pac t' p = 4 * par c + 1" "rep t' p x (Node sr (x, False) sl)"
      "left_of t' = left_of t" "right_of t' = right_of t"
      "r = (if b \<and> par c \<noteq> NULL then Some (p, par c) else None)" "unch {p, x} t t'"
      using fl[of sr sl] assms(5) sep by auto
    moreover have "rep t' p (right_of t' p) s"
    proof -
      have "rep t' p (right_of t p) s = rep t p (right_of t p) s"
        using fl(7) sep by (intro rep_cong) (auto simp: unch_def)
      then show ?thesis using assms(3) fl(4,5) by (metis)
    qed
    ultimately show ?thesis
      using that us assms(4,6) fl(4,5)
      by (auto simp: rb_to_def ctx_rep_def unch_def fun_eq_iff)
  qed
qed

lemma erase_left_sim:
  assumes "repc t q (FL p b sib # c)" "rep t p q s" "separate (FL p b sib # c) s"
    and sib: "sib = (Node sl (x, k) sr)" "\<not> k \<longrightarrow> sl \<noteq> Leaf \<and> black sl"
    and u: "del_step (FL p b sib) s = (u, short)"
  obtains t' where
    "rb_erase_left p t = (t', if short \<and> par c \<noteq> NULL then Some (p, par c) else None)"
    and "rb_to t t' c u"
proof -
  have h: "repc t p c" "pac t p = 4 * par c + of_bool b" "rep t p (left_of t p) s" "right_of t p = x"
    "rep t p x (Node sl (x, k) sr)" "p \<noteq> NULL" "rb_is_red t x = (\<not> k)"
    using assms(1,2) sib(1) by (auto simp: rb_is_red_def rb_is_black_def)
  have sep: "separate c (Node s (p, b) (Node sl (x, k) sr))"
    using assms(3) sib(1) by (simp add: separate_iff nodes_plug)
  show ?thesis
  proof (cases k)
    case True
    have hT: "rep t p x (Node sl (x, True) sr)" "separate c (Node s (p, b) (Node sl (x, True) sr))" using h(5) sep True by simp_all
    have "del_l p b s (Node sl (x, True) sr) = (u, short)" using u sib(1) True by simp
    from erase_balance_left[OF h(1-4) hT(1) h(6) hT(2) this]
    obtain t' where "rb_erase_balance_left p x t = (t', if short \<and> par c \<noteq> NULL then Some (p, par c) else None)"
      and "rb_to t t' c u" by blast
    then show ?thesis using that h(4,7) True by (simp add: rb_erase_left_def)
  next
    case False
    with sib(2) obtain ul y ur where sl: "sl = (Node ul (y, True) ur)" by (cases sl rule: black.cases) auto
    define t1 where "t1 = rb_erase_case1_left p x t"
    have "sl \<noteq> Leaf" using sl by simp
    from erase_case1_left[OF h(1-5) this h(6) sep]
    have t1: "rb_to t t1 c (Node (Node s (p, False) sl) (x, b) sr)" using sl t1_def by simp
    then have r1: "repc t1 p (FL x b sr # c)" "rep t1 x p (Node s (p, False) sl)"
      by (auto simp: rb_to_def ctx_rep_def)
    have s1: "separate (FL x b sr # c) (Node s (p, False) sl)"
      using sep by (simp add: separate_iff nodes_plug)
    obtain v w where v: "del_l p False s sl = (v, w)" by fastforce
    then have w: "\<not> w" "u = (Node v (x, b) sr)" "\<not> short"
      using u sib(1) False sl del_step_red(1)[of p s sl] del_step_red(2)[of p s sl] by auto
    obtain t' where t': "rb_erase_balance_left p y t1 = (t', None)" "rb_to t1 t' (FL x b sr # c) v"
      using erase_balance_left[OF r1(1), of False s y ul ur v w] r1 s1 v w(1) sl h(6) by auto
    have "left_of t x = y" using h(5) sl by auto
    then have "rb_erase_left p t = (t', None)"
      using t'(1) h(4,7) False by (simp add: rb_erase_left_def t1_def Let_def)
    moreover have "rb_to t1 t' c u"
      using t'(2) w(2) by (auto simp: rb_to_def ctx_rep_def Un_ac elim!: unch_mono)
    moreover have "nodes u = nodes (Node (Node s (p, False) sl) (x, b) sr)"
      using w(2) nodes_del_l[of p False s sl] v by simp
    ultimately show ?thesis
      using that w(3) t1 rb_to_after[of t1 t' c u _ t] by (auto simp: rb_to_def)
  qed
qed

lemma erase_right_sim:
  assumes "repc t q (FR p b sib # c)" "rep t p q s" "separate (FR p b sib # c) s"
    and sib: "sib = (Node sr (x, k) sl)" "\<not> k \<longrightarrow> sl \<noteq> Leaf \<and> black sl"
    and u: "del_step (FR p b sib) s = (u, short)"
  obtains t' where
    "rb_erase_right p t = (t', if short \<and> par c \<noteq> NULL then Some (p, par c) else None)"
    and "rb_to t t' c u"
proof -
  have h: "repc t p c" "pac t p = 4 * par c + of_bool b" "rep t p (right_of t p) s" "left_of t p = x"
    "rep t p x (Node sr (x, k) sl)" "p \<noteq> NULL" "rb_is_red t x = (\<not> k)"
    using assms(1,2) sib(1) by (auto simp: rb_is_red_def rb_is_black_def)
  have sep: "separate c (Node (Node sr (x, k) sl) (p, b) s)"
    using assms(3) sib(1) by (simp add: separate_iff nodes_plug)
  show ?thesis
  proof (cases k)
    case True
    have hT: "rep t p x (Node sr (x, True) sl)" "separate c (Node (Node sr (x, True) sl) (p, b) s)" using h(5) sep True by simp_all
    have "del_r p b s (Node sr (x, True) sl) = (u, short)" using u sib(1) True by simp
    from erase_balance_right[OF h(1-4) hT(1) h(6) hT(2) this]
    obtain t' where "rb_erase_balance_right p x t = (t', if short \<and> par c \<noteq> NULL then Some (p, par c) else None)"
      and "rb_to t t' c u" by blast
    then show ?thesis using that h(4,7) True by (simp add: rb_erase_right_def)
  next
    case False
    with sib(2) obtain ul y ur where sl: "sl = (Node ur (y, True) ul)" by (cases sl rule: black.cases) auto
    define t1 where "t1 = rb_erase_case1_right p x t"
    have "sl \<noteq> Leaf" using sl by simp
    from erase_case1_right[OF h(1-5) this h(6) sep]
    have t1: "rb_to t t1 c (Node sr (x, b) (Node sl (p, False) s))" using sl t1_def by simp
    then have r1: "repc t1 p (FR x b sr # c)" "rep t1 x p (Node sl (p, False) s)"
      by (auto simp: rb_to_def ctx_rep_def)
    have s1: "separate (FR x b sr # c) (Node sl (p, False) s)"
      using sep by (simp add: separate_iff nodes_plug)
    obtain v w where v: "del_r p False s sl = (v, w)" by fastforce
    then have w: "\<not> w" "u = (Node sr (x, b) v)" "\<not> short"
      using u sib(1) False sl del_step_red(1)[of p s sl] del_step_red(2)[of p s sl] by auto
    obtain t' where t': "rb_erase_balance_right p y t1 = (t', None)" "rb_to t1 t' (FR x b sr # c) v"
      using erase_balance_right[OF r1(1), of False s y ur ul v w] r1 s1 v w(1) sl h(6) by auto
    have "right_of t x = y" using h(5) sl by auto
    then have "rb_erase_right p t = (t', None)"
      using t'(1) h(4,7) False by (simp add: rb_erase_right_def t1_def Let_def)
    moreover have "rb_to t1 t' c u"
      using t'(2) w(2) by (auto simp: rb_to_def ctx_rep_def Un_ac elim!: unch_mono)
    moreover have "nodes u = nodes (Node sr (x, b) (Node sl (p, False) s))"
      using w(2) nodes_del_r[of p False s sl] v by simp
    ultimately show ?thesis
      using that w(3) t1 rb_to_after[of t1 t' c u _ t] by (auto simp: rb_to_def)
  qed
qed

lemma del_step_black:
  "black sib \<Longrightarrow> del_step (FL p b sib) s = del_l p b s sib"
  "black sib \<Longrightarrow> del_step (FR p b sib) s = del_r p b s sib"
  by (cases sib rule: black.cases; simp split: bool.split)+

lemma del_step_red_sibling:
  "snd (del_step (FL p b (Node sl (x, False) sr)) s) = False"
  "snd (del_step (FR p b (Node sl (x, False) sr)) s) = False"
  using del_step_red by (auto split: prod.splits simp: Let_def) (metis snd_conv)+

lemma del_short_root:
  assumes "del_step f s = (u, True)"
  shows "\<exists>l r. u = Node l (par [f], True) r"
proof -
  have l: "del_l p b s sib = (u, True) \<Longrightarrow> \<exists>l r. u = Node l (p, True) r" for p b sib
    by (cases "(p, b, s, sib)" rule: del_l.cases) (auto split: tree.splits bool.splits if_splits)
  have r: "del_r p b s sib = (u, True) \<Longrightarrow> \<exists>l r. u = Node l (p, True) r" for p b sib
    by (cases "(p, b, s, sib)" rule: del_r.cases) (auto split: tree.splits bool.splits if_splits)
  obtain p b sib where f: "f = FL p b sib \<or> f = FR p b sib" by (cases f) auto
  show ?thesis
  proof (cases "black sib")
    case True
    then show ?thesis using f assms l r del_step_black[OF True] by auto
  next
    case False
    then obtain sl x sr where "sib = Node sl (x, False) sr" by (cases sib rule: black.cases) auto
    then show ?thesis using f assms del_step_red_sibling[of p b sl x sr s] by auto
  qed
qed

text \<open>One round of the loop, for either side.\<close>

lemma erase_round:
  assumes "repc t q (f # c)" "rep t (par [f]) q s" "separate (f # c) s"
    and "invc s" "black s" "ctxc [f] True" "ctxh [f] (Suc (bheight s))"
    and u: "del_step f s = (u, short)"
  obtains t' where
    "(if q \<noteq> right_of t (par [f]) then rb_erase_left (par [f]) t else rb_erase_right (par [f]) t)
       = (t', if short \<and> par c \<noteq> NULL then Some (par [f], par c) else None)"
    and "rb_to t t' c u"
proof (cases f)
  case (FL p b sib)
  obtain sl x k sr where sib: "sib = Node sl (x, k) sr"
    using assms(7) FL by (cases sib rule: black.cases) auto
  have kk: "\<not> k \<longrightarrow> sl \<noteq> Leaf \<and> black sl" using assms(6,7) FL sib by (cases sl rule: black.cases) auto
  have neq: "q \<noteq> right_of t p"
  proof
    assume "q = right_of t p"
    then have "q \<noteq> NULL" "q \<in> set (nodes sib)" using assms(1) FL sib by auto
    then show False using rep_root[OF assms(2)] assms(3) FL by (auto simp: separate_def)
  qed
  have a2: "rep t p q s" using assms(2) FL by simp
  obtain t' where
    "rb_erase_left p t = (t', if short \<and> par c \<noteq> NULL then Some (p, par c) else None)" "rb_to t t' c u"
    using erase_left_sim[OF assms(1)[unfolded FL] a2 assms(3)[unfolded FL] sib kk u[unfolded FL]] .
  then show ?thesis using that[of t'] FL neq by simp
next
  case (FR p b sib)
  obtain sl x k sr where sib: "sib = Node sr (x, k) sl"
    using assms(7) FR by (cases sib rule: black.cases) auto
  have kk: "\<not> k \<longrightarrow> sl \<noteq> Leaf \<and> black sl" using assms(6,7) FR sib by (cases sl rule: black.cases) auto
  have eq: "q = right_of t p" using assms(1) FR by auto
  have a2: "rep t p q s" using assms(2) FR by simp
  obtain t' where
    "rb_erase_right p t = (t', if short \<and> par c \<noteq> NULL then Some (p, par c) else None)" "rb_to t t' c u"
    using erase_right_sim[OF assms(1)[unfolded FR] a2 assms(3)[unfolded FR] sib kk u[unfolded FR]] .
  then show ?thesis using that[of t'] FR eq by simp
qed

lemma erase_loop_sim:
  assumes "repc t q c" "rep t (par c) q s" "separate c s" "c \<noteq> []"
    and "invc s" "black s" "invh s" "ctxc c True" "ctxh c (Suc (bheight s))"
  shows "\<exists>t'. rb_erase_loop q (par c) t = Some t' \<and> rb_to t t' [] (del_fix c s)"
  using assms
proof (induction c s arbitrary: t q rule: del_fix.induct)
  case (2 f c s)
  note prems = "2.prems" and IH = "2.IH"
  obtain u short where u: "del_step f s = (u, short)" by fastforce
  have pf: "par (f # c) = par [f]" by (cases f) auto
  define b where "b = topblack [f] True"
  have cf: "ctxc [f] True" "ctxh [f] (Suc (bheight s))" "ctxc c b" "ctxh c (Suc (bheight s) + of_bool b)"
    using prems(8,9) by (auto simp: ctx_cons[of f c] b_def)
  obtain t1 where t1:
    "(if q \<noteq> right_of t (par [f]) then rb_erase_left (par [f]) t else rb_erase_right (par [f]) t)
       = (t1, if short \<and> par c \<noteq> NULL then Some (par [f], par c) else None)" "rb_to t t1 c u"
    using erase_round[OF prems(1) _ prems(3,5,6) cf(1,2) u] prems(2) pf by metis
  have ok: "del_ok b (bheight s) (u, short)"
    using del_step_ok[OF prems(5,6,7) cf(1,2) b_def] u by simp
  show ?case
  proof (cases "short \<and> par c \<noteq> NULL")
    case False
    then have "rb_erase_loop q (par (f # c)) t = Some t1"
      unfolding pf rb_erase_loop.simps[of q] t1(1) by auto
    moreover have "short \<Longrightarrow> c = []"
      using False t1(2) repc_not_null par_fnodes by (auto simp: rb_to_def ctx_rep_def) fastforce
    ultimately show ?thesis using t1(2) u by (auto simp: rb_to_plug)
  next
    case True
    then have "rb_erase_loop q (par (f # c)) t = rb_erase_loop (par [f]) (par c) t1"
      unfolding pf rb_erase_loop.simps[of q] t1(1) by auto
    moreover have "repc t1 (par [f]) c" "rep t1 (par c) (par [f]) u"
      using t1(2) True u del_short_root[of f s u] by (auto simp: rb_to_def ctx_rep_def)
    moreover have "c \<noteq> []" using True by auto
    moreover have "separate c u"
      using prems(3) nodes_del_step[of f s] u by (cases f) (auto simp: separate_iff nodes_plug)
    ultimately obtain t' where "rb_erase_loop q (par (f # c)) t = Some t'" "rb_to t1 t' [] (del_fix c u)"
      using IH[OF u[symmetric] refl, of t1 "par [f]"] True ok cf by (auto simp: del_ok_def)
    moreover have "fnodes c \<union> set (nodes u) \<subseteq> fnodes [] \<union> set (nodes (del_fix c u))"
      by (auto simp: nodes_del_fix fnodes_eq)
    moreover have "unch (fnodes c \<union> set (nodes u)) t t1" using t1(2) by (simp add: rb_to_def)
    ultimately show ?thesis using rb_to_after[of t1 t' "[]" "del_fix c u" _ t] u True by simp
  qed
qed simp

subsection \<open>Unlinking\<close>

text \<open>\<open>repf t q fs p tp\<close>: the frames \<open>fs\<close> alone, below the parent \<open>p\<close>, with topmost node \<open>tp\<close>.\<close>

fun repf :: "rbtree \<Rightarrow> ptr \<Rightarrow> frame list \<Rightarrow> ptr \<Rightarrow> ptr \<Rightarrow> bool" where
  "repf t q [] p tp = (q = tp)"
| "repf t q (FL a b r # c) p tp =
     (a \<noteq> NULL \<and> pac t a = 4 * (if c = [] then p else par c) + of_bool b \<and> left_of t a = q
      \<and> rep t a (right_of t a) r \<and> repf t a c p tp)"
| "repf t q (FR a b l # c) p tp =
     (a \<noteq> NULL \<and> pac t a = 4 * (if c = [] then p else par c) + of_bool b \<and> right_of t a = q
      \<and> rep t a (left_of t a) l \<and> repf t a c p tp)"

lemma par_append: "par (c @ d) = (if c = [] then par d else par c)"
  by (cases c rule: par.cases) auto

lemma repc_append: "repc t q (c @ d) \<longleftrightarrow> (\<exists>tp. repf t q c (par d) tp \<and> repc t tp d)"
  by (induction c arbitrary: q rule: before.induct) (auto simp: par_append)

lemma repf_cong:
  "(\<And>n. n \<in> fnodes c \<Longrightarrow> rb_mem t' n = rb_mem t n) \<Longrightarrow> repf t' q c p tp = repf t q c p tp"
  by (induction t q c p tp rule: repf.induct) (auto simp: rep_cong[of _ t'])

lemma repf_frame:
  "n \<notin> fnodes c \<Longrightarrow> repf (set_left n v t) q c p tp = repf t q c p tp"
  "n \<notin> fnodes c \<Longrightarrow> repf (set_right n v t) q c p tp = repf t q c p tp"
  "n \<notin> fnodes c \<Longrightarrow> repf (set_pac n w t) q c p tp = repf t q c p tp"
  by (rule repf_cong; auto)+

lemma repf_tp: "repf t q fs p tp \<Longrightarrow> fs \<noteq> [] \<Longrightarrow> tp \<in> fnodes fs \<and> tp \<noteq> NULL"
proof (induction t q fs p tp rule: repf.induct)
  case (2 t q a b r c p tp)
  then show ?case by (cases "c = []") auto
next
  case (3 t q a b l c p tp)
  then show ?case by (cases "c = []") auto
qed simp

lemma repf_reparent:
  "\<lbrakk>repf t q fs p tp; fs \<noteq> []; fdistinct fs\<rbrakk> \<Longrightarrow> repf (rb_set_parent tp p' t) q fs p' tp"
proof (induction t q fs p tp rule: repf.induct)
  case (2 t q a b r c p tp)
  then have "c \<noteq> [] \<Longrightarrow> tp \<notin> set (nodes r)" using repf_tp[of t a c p tp] by auto
  then show ?case
    using 2 repf_tp[of t a c p tp] by (cases "c = []") (auto simp: rb_unfold)
next
  case (3 t q a b l c p tp)
  then have "c \<noteq> [] \<Longrightarrow> tp \<notin> set (nodes l)" using repf_tp[of t a c p tp] by auto
  then show ?case
    using 3 repf_tp[of t a c p tp] by (cases "c = []") (auto simp: rb_unfold)
qed simp

lemma repf_set_left:
  "\<lbrakk>repf t q (FL a b r # c) p tp; fdistinct (FL a b r # c)\<rbrakk>
   \<Longrightarrow> repf (set_left a q' t) q' (FL a b r # c) p tp"
  by (simp add: repf_frame)

lemma fnodes_append: "fnodes (c @ d) = fnodes c \<union> fnodes d"
  by (induction c rule: fnodes.induct) auto

lemma fdistinct_append: "fdistinct (c @ d) \<longleftrightarrow> fdistinct c \<and> fdistinct d \<and> fnodes c \<inter> fnodes d = {}"
  by (induction c rule: fdistinct.induct) (auto simp: fnodes_append)

lemma before_nil: "before fs = [] \<Longrightarrow> fs = [] \<or> (\<exists>a b r c. fs = FL a b r # c \<and> before c = [])"
  by (cases fs rule: before.cases) auto

text \<open>The last part of the unlinking: the successor takes the place of the node.\<close>

lemma del_replace_sim:
  assumes "repf t q fs s (right_of t s)" "rep t px q r'" "rep t n (left_of t n) l" "l \<noteq> Leaf"
    and "repc t n c" "pac t n = 4 * par c + of_bool b" "n \<noteq> NULL" "s \<noteq> NULL"
    and "pac t s = 4 * ps + of_bool bs" "pr = par (fs @ FR s b l # c)"
    and "separate (fs @ FR s b l # c) r'" "n \<noteq> s"
    and "n \<notin> fnodes fs" "n \<notin> fnodes c" "n \<notin> set (nodes r')" "n \<notin> set (nodes l)"
  obtains t' where
    "rb_del_replace n s pr q t = (if r' = Leaf \<and> bs then pr else NULL, t')"
    and "ctx_rep t' (fs @ FR s b l # c) (paint True r')"
    and "unch (insert s (fnodes c \<union> set (nodes l) \<union> set (nodes r'))) t t'"
proof -
  define y where "y = left_of t n"
  define t1 where "t1 = set_left s y t"
  define t2 where "t2 = reparent y s t1"
  define t3 where "t3 = rb_change_child n s (par c) t2"
  define t4 where "t4 = repaint q pr t3"
  define t5 where "t5 = set_pac s (4 * par c + of_bool b) t4"
  have sep: "s \<notin> fnodes fs" "s \<notin> fnodes c" "s \<notin> set (nodes l)" "s \<notin> set (nodes r')"
    "set (nodes l) \<inter> fnodes fs = {}" "set (nodes l) \<inter> fnodes c = {}" "set (nodes l) \<inter> set (nodes r') = {}"
    "fnodes fs \<inter> fnodes c = {}" "set (nodes r') \<inter> fnodes fs = {}" "set (nodes r') \<inter> fnodes c = {}"
    "set (nodes r') \<inter> set (nodes l) = {}"
    "distinct (nodes l)" "distinct (nodes r')" "fdistinct c"
    using assms(11) by (auto simp: separate_def fnodes_append fdistinct_append)
  have y: "y \<noteq> NULL" "y \<in> set (nodes l)"
    using assms(3,4) y_def by (cases l rule: black.cases; auto)+
  have m1: "rb_mem t1 m = rb_mem t m" if "m \<noteq> s" for m using that by (simp add: t1_def)
  have l1: "rep t1 n y l" using assms(3) sep y_def by (simp add: t1_def)
  note f2 = reparent_frame[OF l1, of _ s, folded t2_def]
  have l2: "rep t2 s y l" using reparent_rep[OF l1 sep(12)] by (simp add: t2_def)
  have c2: "repc t2 n c" using f2(3) sep assms(5) by (simp add: t1_def)
  have p2: "pac t2 n = 4 * par c + of_bool b" using f2(1)[OF assms(16)] assms(6,12) by (simp add: t1_def)
  have m3: "rb_mem t3 m = rb_mem t2 m" if "m \<notin> fnodes c" for m
    using that by (simp add: t3_def change_child_mem_par)
  have c3: "repc t3 s c" unfolding t3_def by (rule change_child_repc[OF c2 assms(7,14) sep(14)])
  have l3: "rep t3 s y l" using l2 sep by (subst rep_cong[of _ t3 t2]) (auto intro!: m3)
  have r3: "rep t3 px q r'"
  proof -
    have "rb_mem t3 m = rb_mem t m" if "m \<in> set (nodes r')" for m
    proof -
      have "m \<noteq> s" "m \<notin> fnodes c" "m \<notin> set (nodes l)" using that sep by auto
      then show ?thesis by (simp add: m3 f2(1) m1)
    qed
    then show ?thesis using assms(2) rep_cong[of r' t3 t] by simp
  qed
  note f4 = repaint_frame[OF r3, of _ pr, folded t4_def]
  have r4: "rep t4 pr q (paint True r')" using repaint_rep[OF r3 sep(13)] by (simp add: t4_def)
  have s4: "left_of t4 s = y" "right_of t4 s = right_of t s"
    using f4(1)[OF sep(4)] m3[OF sep(2)] f2(1)[OF sep(3)] by (simp_all add: t1_def)
  have r5: "rep t5 pr q (paint True r')" "repc t5 s c" "rep t5 s y l"
    "pac t5 s = 4 * par c + of_bool b" "left_of t5 s = y" "right_of t5 s = right_of t s"
    using r4 c3 l3 f4 sep s4 by (simp_all add: t5_def)
  have "rb_mem t5 m = rb_mem t m" if "m \<in> fnodes fs" for m
  proof -
    have "m \<noteq> s" "m \<notin> set (nodes r')" "m \<notin> fnodes c" "m \<notin> set (nodes l)" using that sep by auto
    then show ?thesis by (simp add: t5_def f4(1) m3 f2(1) m1)
  qed
  then have "repf t5 q fs s (right_of t5 s)" using assms(1) repf_cong[of fs t5 t] r5(6) by auto
  then have "repc t5 q (fs @ FR s b l # c)"
    using r5 assms(8) by (auto simp: repc_append)
  then have a: "ctx_rep t5 (fs @ FR s b l # c) (paint True r')"
    using r5(1) assms(10) by (auto simp: ctx_rep_def)
  have u: "unch (insert s (fnodes c \<union> set (nodes l) \<union> set (nodes r'))) t t5"
    unfolding unch_def
    using f4(1) m3 f2(1) m1 by (auto simp: t5_def t4_def t3_def t2_def t1_def repaint_def reparent_def rb_unfold)
  have ps3: "rb_is_black t3 s = bs"
    using m3[OF sep(2)] f2(1)[OF sep(3)] assms(9) by (simp add: rb_is_black_def t1_def)
  have "(q \<noteq> NULL) = (r' \<noteq> Leaf)" using assms(2) by (cases r' rule: black.cases) auto
  then have "rb_del_replace n s pr q t = (if r' = Leaf \<and> bs then pr else NULL, t5)"
    using y p2 ps3 assms(12)
    by (auto simp: rb_del_replace_def Let_def t5_def t4_def t3_def t2_def t1_def y_def[symmetric]
        reparent_def repaint_def)
  then show ?thesis using that a u by blast
qed

lemma rep_unch:
  "unch A t t' \<Longrightarrow> A \<inter> set (nodes s) = {} \<Longrightarrow> rep t' p q s = rep t p q s"
  by (rule rep_cong) (auto simp: unch_def)

lemma repc_unch:
  "unch A t t' \<Longrightarrow> rb_node t' = rb_node t \<Longrightarrow> A \<inter> fnodes c = {} \<Longrightarrow> repc t' q c = repc t q c"
  by (rule repc_cong) (auto simp: unch_def)

lemma del_successor_sim:
  "\<lbrakk>rep t p a r; r = Node l1 (a, k) r1; l1 \<noteq> Leaf; split_min r c = (fs, s, bs, r')\<rbrakk>
   \<Longrightarrow> rb_del_successor a (left_of t a) t = Some (s, par fs)"
proof (induction r c arbitrary: p a l1 k r1 rule: split_min.induct)
  case (2 l a' b r c)
  note prems = "2.prems" and IH = "2.IH"
  have e: "a' = a" "l1 = l" using prems by auto
  obtain x kx ll lr where l: "l = Node ll (x, kx) lr" using prems(3) e by (cases l rule: black.cases) auto
  have lx: "left_of t a = x" "rep t a x l" "x \<noteq> NULL" using prems(1) e l by auto
  have nx: "(left_of t x \<noteq> NULL) = (ll \<noteq> Leaf)"
    using lx(2) l by (cases ll rule: black.cases) auto
  show ?case
  proof (cases "ll = Leaf")
    case True
    then have "fs = FL a b r # c" "s = x" using prems(4) e l by auto
    then show ?thesis using lx nx True by (subst rb_del_successor.simps) (simp add: Let_def)
  next
    case False
    then have "rb_del_successor x (left_of t x) t = Some (s, par fs)"
      using IH[OF _ lx(2) l False] prems(3,4) e l by auto
    then show ?thesis using lx nx False by (subst rb_del_successor.simps) (simp add: Let_def)
  qed
qed simp

lemma del_node_leaf:
  assumes "repc t n c" "rep t (par c) n (Node Leaf (n, b) r)" "separate c (Node Leaf (n, b) r)"
  obtains t' where "rb_del_node n t = Some (if r = Leaf \<and> b then par c else NULL, t')"
    and "ctx_rep t' c (paint b r)" and "unch (fnodes c \<union> set (nodes r)) t t'"
proof -
  define q where "q = right_of t n"
  have h: "rep t n q r" "pac t n = 4 * par c + of_bool b" "left_of t n = NULL" "n \<noteq> NULL"
    using assms(2) q_def by auto
  have sep: "n \<notin> fnodes c" "fdistinct c" "set (nodes r) \<inter> fnodes c = {}" "n \<notin> set (nodes r)" "distinct (nodes r)"
    using assms(3) by (auto simp: separate_def)
  define t1 where "t1 = rb_change_child n q (par c) t"
  have t1: "repc t1 q c" "rep t1 n q r" "\<And>m. m \<notin> fnodes c \<Longrightarrow> rb_mem t1 m = rb_mem t m"
    unfolding t1_def
    using change_child_repc[OF assms(1) h(4) sep(1,2)] change_child_rep[OF sep(3)] h(1) change_child_mem_par
    by auto
  show ?thesis
  proof (cases r rule: black.cases)
    case 1
    then have "rb_del_node n t = Some (if b then par c else NULL, t1)"
      using h by (simp add: rb_del_node_def t1_def q_def Let_def split del: split_of_bool)
    moreover have "ctx_rep t1 c Leaf" using t1 1 by (auto simp: ctx_rep_def)
    moreover have "unch (fnodes c \<union> set (nodes r)) t t1"
      using t1(3) by (auto simp: unch_def t1_def)
    ultimately show ?thesis using that 1 by simp
  next
    case (2 rl x k rr)
    define t2 where "t2 = set_pac x (4 * par c + of_bool b) t1"
    have "rb_del_node n t = Some (NULL, t2)"
      using h 2 by (simp add: rb_del_node_def t2_def t1_def q_def Let_def split del: split_of_bool)
    moreover have "ctx_rep t2 c (paint b r)"
      using t1 2 sep by (auto simp: ctx_rep_def t2_def split del: split_of_bool)
    moreover have "unch (fnodes c \<union> set (nodes r)) t t2"
      using t1(3) 2 by (auto simp: unch_def t2_def t1_def)
    ultimately show ?thesis using that 2 by simp
  qed
qed

lemma del_node_left_only:
  assumes "repc t n c" "rep t (par c) n (Node l (n, b) Leaf)" "separate c (Node l (n, b) Leaf)" "l \<noteq> Leaf"
  obtains t' where "rb_del_node n t = Some (NULL, t')"
    and "ctx_rep t' c (paint b l)" and "unch (fnodes c \<union> set (nodes l)) t t'"
proof -
  obtain ll x k lr where l: "l = Node ll (x, k) lr" using assms(4) by (cases l rule: black.cases) auto
  have h: "rep t n x l" "pac t n = 4 * par c + of_bool b" "left_of t n = x" "right_of t n = NULL" "n \<noteq> NULL" "x \<noteq> NULL"
    using assms(2) l by auto
  have sep: "n \<notin> fnodes c" "fdistinct c" "set (nodes l) \<inter> fnodes c = {}" "n \<notin> set (nodes l)" "distinct (nodes l)"
    "x \<notin> fnodes c" "x \<noteq> n"
    using assms(3) l by (auto simp: separate_def)
  define t1 where "t1 = set_pac x (4 * par c + of_bool b) t"
  define t2 where "t2 = rb_change_child n x (par c) t1"
  have r1: "repc t1 n c" "rep t1 (par c) x (paint b l)"
    using assms(1) h sep l unfolding t1_def by (auto split del: split_of_bool)
  have "repc t2 x c" "rep t2 (par c) x (paint b l)"
    unfolding t2_def using change_child_repc[OF r1(1) h(5) sep(1,2)] change_child_rep[of "paint b l" c] r1(2) sep(3)
    by auto
  then have "ctx_rep t2 c (paint b l)" by (auto simp: ctx_rep_def)
  moreover have "rb_del_node n t = Some (NULL, t2)"
    using h sep by (simp add: rb_del_node_def t2_def t1_def Let_def split del: split_of_bool)
  moreover have "unch (fnodes c \<union> set (nodes l)) t t2"
    using l by (auto simp: unch_def t2_def t1_def change_child_mem_par)
  ultimately show ?thesis using that by blast
qed

lemma del_node_both:
  assumes "repc t n c" "rep t (par c) n (Node l (n, b) r)" "separate c (Node l (n, b) r)"
    and "l \<noteq> Leaf" "r \<noteq> Leaf" and m: "split_min r [] = (fs, s, bs, r')"
  defines "c' \<equiv> fs @ FR s b l # c"
  obtains t' where "rb_del_node n t = Some (if r' = Leaf \<and> bs then par c' else NULL, t')"
    and "ctx_rep t' c' (paint True r')" and "unch (fnodes c \<union> set (nodes l) \<union> set (nodes r)) t t'"
proof -
  have pr: "plug fs (Node Leaf (s, bs) r') = r" using split_min_plug[OF assms(5) m] by simp
  have bf: "before fs = []" using split_min_before[OF assms(5) m] .
  have nr: "set (nodes r) = insert s (set (nodes r') \<union> fnodes fs)"
    using nodes_plug[of fs "Node Leaf (s, bs) r'"] pr bf fnodes_eq[of fs] by auto
  have "ctx_rep t [] (plug c (Node l (n, b) r))" 
    unfolding ctx_rep_plug using assms(1,2) unfolding ctx_rep_def by blast
  then have "ctx_rep t (fs @ FR n b l # c) (Node Leaf (s, bs) r')"
    using pr unfolding ctx_rep_plug[of t "fs @ FR n b l # c", symmetric] by (simp add: plug_append)
  then have rs: "repc t s (fs @ FR n b l # c)" "rep t (par (fs @ FR n b l # c)) s (Node Leaf (s, bs) r')"
    by (auto simp: ctx_rep_def)
  define child where "child = right_of t n"
  define q where "q = right_of t s"
  have rf: "repf t s fs n child" using rs(1) child_def by (auto simp: repc_append)
  have h: "pac t n = 4 * par c + of_bool b" "rep t n (left_of t n) l" "rep t n child r" "n \<noteq> NULL" "s \<noteq> NULL"
    "rep t s q r'" "pac t s = 4 * par (fs @ FR n b l # c) + of_bool bs" "left_of t s = NULL"
    using assms(2) rs(2) child_def q_def by auto
  have sp: "separate (fs @ FR n b l # c) (Node Leaf (s, bs) r')"
    using assms(3) pr by (simp add: separate_iff plug_append)
  then have sp': "separate c' r'" "n \<noteq> s" "n \<notin> fnodes fs" "n \<notin> fnodes c" "n \<notin> set (nodes r')" "n \<notin> set (nodes l)"
    "fdistinct fs" "s \<notin> fnodes fs" "s \<notin> set (nodes l)" "s \<notin> fnodes c" "s \<notin> set (nodes r')"
    "fnodes fs \<inter> set (nodes l) = {}" "fnodes fs \<inter> fnodes c = {}" "fnodes fs \<inter> set (nodes r') = {}"
    by (auto simp: separate_def fnodes_append fdistinct_append c'_def)
  have null: "(left_of t n = NULL) = False" "(child = NULL) = False"
    using assms(2,4,5) child_def by (cases l rule: black.cases; cases r rule: black.cases; auto)+
  have frame: "insert s (fnodes c \<union> set (nodes l) \<union> set (nodes r')) \<subseteq> fnodes c \<union> set (nodes l) \<union> set (nodes r)"
    using nr by auto
  show ?thesis
  proof (cases fs)
    case Nil
    then have cs: "child = s" using rf by simp
    have "pac t s = 4 * n + of_bool bs" using h(7) Nil by simp
    moreover have "repf t q fs s (right_of t s)" using Nil q_def by simp
    ultimately obtain t' where "rb_del_replace n s s q t = (if r' = Leaf \<and> bs then s else NULL, t')"
      "ctx_rep t' c' (paint True r')" "unch (insert s (fnodes c \<union> set (nodes l) \<union> set (nodes r'))) t t'"
      using del_replace_sim[of t q fs s s r' n l c b n bs s] h assms(1,4) sp' Nil unfolding c'_def
      by auto
    moreover have "rb_del_node n t = Some (rb_del_replace n s s q t)"
      using null h(8) cs by (simp add: rb_del_node_def child_def[symmetric] Let_def q_def)
    ultimately show ?thesis using that frame unch_mono Nil c'_def by (metis append_Nil par.simps(3))
  next
    case (Cons f fs2)
    then obtain a k rr where fs: "fs = FL a k rr # fs2" using before_nil[OF bf] by auto
    have a: "a \<noteq> NULL" "left_of t a = s" "par fs = a" "par c' = a" "a \<in> fnodes fs"
      using rf fs by (auto simp: c'_def)
    obtain l1 kx r1 where r: "r = Node l1 (child, kx) r1" using h(3) assms(5) by (cases r rule: black.cases) auto
    have "l1 \<noteq> Leaf" using m r fs by auto
    then have lc: "(left_of t child = NULL) = False"
      using h(3) r by (cases l1 rule: black.cases) auto
    have succ: "rb_del_successor child (left_of t child) t = Some (s, a)"
      using del_successor_sim[OF h(3) r \<open>l1 \<noteq> Leaf\<close> m] a by simp
    define t1 where "t1 = set_right s child (set_left a q t)"
    define t3 where "t3 = rb_set_parent child s t1"
    have tc: "child \<in> fnodes fs" "child \<noteq> NULL" using repf_tp[OF rf] fs by auto
    have "repf (set_left a q t) q fs n child" using repf_set_left rf fs sp'(7) by blast
    then have "repf t1 q fs n child" using sp'(8) by (simp add: t1_def repf_frame)
    then have f3: "repf t3 q fs s child" using repf_reparent[of t1 q fs n child s] fs sp'(7) unfolding t3_def by blast
    have m3: "rb_mem t3 m = rb_mem t m" if "m \<notin> fnodes fs" "m \<noteq> s" for m
      using that a(5) tc by (auto simp: t3_def t1_def rb_unfold)
    have s3: "right_of t3 s = child" "pac t3 s = 4 * a + of_bool bs"
      using h(7) a sp'(8) tc by (auto simp: t3_def t1_def rb_unfold par_append)
    have u3: "unch (insert s (fnodes fs)) t t3" "rb_node t3 = rb_node t"
      using m3 by (simp_all add: unch_def) (simp_all add: t3_def t1_def rb_unfold)
    have r3: "rep t3 s q r'" "rep t3 n (left_of t3 n) l" "pac t3 n = 4 * par c + of_bool b"
      using h sp' m3[of n] rep_unch[OF u3(1)] by simp_all
    have c3: "repc t3 n c"
      using assms(1) repc_unch[OF u3] sp' by simp
    have f3': "repf t3 q fs s (right_of t3 s)" and pc': "a = par (fs @ FR s b l # c)"
      using f3 s3(1) a(4) by (simp_all add: c'_def)
    note sep' = sp'(1)[unfolded c'_def]
    obtain t' where "rb_del_replace n s a q t3 = (if r' = Leaf \<and> bs then a else NULL, t')"
      "ctx_rep t' c' (paint True r')" and u: "unch (insert s (fnodes c \<union> set (nodes l) \<union> set (nodes r'))) t3 t'"
      unfolding c'_def
      by (rule del_replace_sim[OF f3' r3(1,2) assms(4) c3 r3(3) h(4,5) s3(2) pc' sep' sp'(2-6)])
    moreover have "rb_del_node n t = Some (rb_del_replace n s a q t3)"
      using null lc succ a sp'(8)
      by (auto simp: rb_del_node_def child_def[symmetric] Let_def q_def t3_def t1_def)
    moreover have "insert s (fnodes fs) \<subseteq> fnodes c \<union> set (nodes l) \<union> set (nodes r)"
      using nr by auto
    then have "unch (fnodes c \<union> set (nodes l) \<union> set (nodes r)) t t'"
      by (rule unch_trans[OF unch_mono[OF u3(1)] unch_mono[OF u frame]])
    ultimately show ?thesis using that a(4) by auto
  qed
qed

text \<open>
  The unlinking as a whole: the pointer code yields the context and subtree of \<open>unlink\<close>
  and, when that position is short, the parent to rebalance from.
\<close>

lemma rb_del_node_sim:
  assumes "repc t n c" "rep t (par c) n (Node l (n, b) r)" "separate c (Node l (n, b) r)"
    and "unlink c b l r = (c', s, short)"
  obtains t' where "rb_del_node n t = Some (if short then par c' else NULL, t')"
    and "ctx_rep t' c' s" and "unch (fnodes c \<union> set (nodes l) \<union> set (nodes r)) t t'"
    and "short \<Longrightarrow> s = Leaf"
proof (cases "l = Leaf")
  case True
  obtain t' where t': "rb_del_node n t = Some (if r = Leaf \<and> b then par c else NULL, t')"
    "ctx_rep t' c (paint b r)" "unch (fnodes c \<union> set (nodes r)) t t'"
    using del_node_leaf[OF assms(1) assms(2,3)[unfolded True]] by blast
  then show ?thesis using that[of t'] assms(4) True by (auto simp: unlink_def split: if_splits)
next
  case l: False
  show ?thesis
  proof (cases "r = Leaf")
    case True
    obtain t' where t': "rb_del_node n t = Some (NULL, t')"
      "ctx_rep t' c (paint b l)" "unch (fnodes c \<union> set (nodes l)) t t'"
      using del_node_left_only[OF assms(1) assms(2,3)[unfolded True] l] by blast
    then show ?thesis using that[of t'] assms(4) True l by (auto simp: unlink_def)
  next
    case False
    obtain fs x bs r' where m: "split_min r [] = (fs, x, bs, r')" by (cases "split_min r []") auto
    obtain t' where t': "rb_del_node n t = Some (if r' = Leaf \<and> bs then par (fs @ FR x b l # c) else NULL, t')"
      "ctx_rep t' (fs @ FR x b l # c) (paint True r')"
      "unch (fnodes c \<union> set (nodes l) \<union> set (nodes r)) t t'"
      using del_node_both[OF assms(1,2,3) l False m] by blast
    then show ?thesis using that[of t'] assms(4) l False m
      by (auto simp: unlink_def Let_def split: if_splits)
  qed
qed

lemma unlink_short:
  assumes "rbt (plug c (Node l (n, b) r))" "unlink c b l r = (c', Leaf, True)"
  shows "ctxc c' True" "ctxh c' (Suc 0)"
proof -
  have "\<exists>m. rbt (plug c' (Node Leaf (m, True) Leaf))"
  proof (cases "l = Leaf \<or> r = Leaf")
    case True
    then show ?thesis using assms by (auto simp: unlink_def split: if_splits)
  next
    case False
    obtain fs x bs r' where m: "split_min r [] = (fs, x, bs, r')" by (cases "split_min r []") auto
    have "plug (fs @ FR x b l # c) (Node Leaf (x, bs) r') = plug c (Node l (x, b) r)"
      using split_min_plug[of r, OF _ m] False by (simp add: plug_append)
    moreover have "rbt (plug c (Node l (x, b) r))" using assms(1) by (auto simp: rbt_plug)
    ultimately show ?thesis
      using assms(2) False m by (auto simp: unlink_def Let_def split: if_splits) metis
  qed
  then show "ctxc c' True" "ctxh c' (Suc 0)" by (auto simp: rbt_plug)
qed

definition rb_unlink :: "ptr \<Rightarrow> rbtree \<Rightarrow> rbtree option" where
  "rb_unlink n t =
     do {
       (rebalance, t) \<leftarrow> rb_del_node n t;
       (if rebalance \<noteq> NULL then rb_erase_color rebalance t else Some t)
     }"

lemma rb_unlink_sim:
  assumes "repc t n c" "rep t (par c) n (Node l (n, b) r)" "separate c (Node l (n, b) r)"
    and "rbt (plug c (Node l (n, b) r))"
  obtains t' where "rb_unlink n t = Some t'" and "rep t' NULL (rb_node t') (del_node c b l r)"
    and "unch (set (nodes (plug c (Node l (n, b) r)))) t t'"
proof -
  obtain c' s short where u: "unlink c b l r = (c', s, short)" by (cases "unlink c b l r") auto
  obtain t1 where t1: "rb_del_node n t = Some (if short then par c' else NULL, t1)"
    "ctx_rep t1 c' s" "unch (fnodes c \<union> set (nodes l) \<union> set (nodes r)) t t1" "short \<Longrightarrow> s = Leaf"
    using rb_del_node_sim[OF assms(1-3) u] by blast
  have sub: "fnodes c \<union> set (nodes l) \<union> set (nodes r) \<subseteq> set (nodes (plug c (Node l (n, b) r)))"
    by (auto simp: nodes_plug fnodes_eq)
  have nd: "nodes (del_node c b l r) = before c @ nodes l @ nodes r @ after c" by (rule nodes_del_node)
  show ?thesis
  proof (cases "short \<and> par c' \<noteq> NULL")
    case False
    then have "rb_unlink n t = Some t1" using t1(1) by (auto simp: rb_unlink_def)
    moreover have "short \<Longrightarrow> c' = []"
      using False t1(2) repc_not_null par_fnodes by (auto simp: ctx_rep_def) fastforce
    then have "del_node c b l r = plug c' s" using u by (auto simp: del_node_def)
    ultimately show ?thesis
      using that unch_mono[OF t1(3) sub] t1(2) ctx_rep_plug[of t1 c' s] by (auto simp: ctx_rep_def)
  next
    case True
    then have s: "s = Leaf" using t1(4) by simp
    obtain q where q: "repc t1 q c'" "rep t1 (par c') q s" using t1(2) by (auto simp: ctx_rep_def)
    then have q0: "q = NULL" using s by simp
    have c': "ctxc c' True" "ctxh c' (Suc (bheight s))" using unlink_short[OF assms(4)] u s True by auto
    have dn: "del_node c b l r = del_fix c' s" using u True by (simp add: del_node_def)
    have "nodes (plug c' s) = nodes (del_node c b l r)"
      using dn by (simp add: nodes_plug nodes_del_fix)
    then have "separate c' s"
      using assms(3) nd by (auto simp: separate_iff nodes_plug)
    moreover have "c' \<noteq> []" using True by auto
    ultimately obtain t' where t': "rb_erase_loop q (par c') t1 = Some t'" "rb_to t1 t' [] (del_fix c' s)"
      using erase_loop_sim[OF q] c' s by auto
    have "rb_unlink n t = Some t'"
      using t1(1) t'(1) True q0 by (auto simp: rb_unlink_def rb_erase_color_def)
    moreover have "rep t' NULL (rb_node t') (del_node c b l r)" using t'(2) dn by (auto simp: rb_to_def ctx_rep_def)
    moreover have "unch (set (nodes (plug c (Node l (n, b) r)))) t1 t'"
      using t'(2) dn nd by (auto simp: rb_to_def nodes_plug elim!: unch_mono)
    ultimately show ?thesis using that t1(3) sub by (blast intro: unch_trans unch_mono)
  qed
qed

end
