(* ===== verification/Eh_Rbtree_Ops.thy ===== *)
theory Eh_Rbtree_Ops
  imports Eh_Rbtree_Del
begin

text \<open>
  What the functions of \<^verbatim>\<open>eh_rbtree.c\<close> promise to their callers: \<open>rb_rep t ns\<close> says
  that \<open>t\<close> is a well-formed red-black tree with a correct leftmost pointer whose nodes in
  order are the list \<open>ns\<close>. Insertion, deletion, neighbours, searches and traversals are
  specified on that list. The locale \<open>ordered_index\<close> is the interface the timers and the
  event poller rely on.
\<close>

subsection \<open>The abstract view\<close>

definition hd0 :: "ptr list \<Rightarrow> ptr" where
  "hd0 ns = (case ns of [] \<Rightarrow> NULL | n # _ \<Rightarrow> n)"

lemma hd0_simps [simp]: "hd0 [] = NULL" "hd0 (n # ns) = n"
  by (simp_all add: hd0_def)

lemma hd0_append: "xs \<noteq> [] \<Longrightarrow> hd0 (xs @ ys) = hd xs"
  by (cases xs) auto

lemma nodes_nonempty [simp]: "nodes s = [] \<longleftrightarrow> s = Leaf"
  by (cases s rule: black.cases) auto

definition rb_rep :: "rbtree \<Rightarrow> ptr list \<Rightarrow> bool" where
  "rb_rep t ns \<longleftrightarrow>
     (\<exists>s. rep t NULL (rb_node t) s \<and> rbt s \<and> distinct ns \<and> nodes s = ns \<and> rb_leftmost t = hd0 ns)"

lemma rb_repE:
  assumes "rb_rep t ns"
  obtains s where "rep t NULL (rb_node t) s" "rbt s" "distinct (nodes s)" "nodes s = ns" "rb_leftmost t = hd0 ns"
  using assms by (auto simp: rb_rep_def)

lemma rb_rep_distinct: "rb_rep t ns \<Longrightarrow> distinct ns \<and> NULL \<notin> set ns"
  using rep_not_null by (auto simp: rb_rep_def)

lemma rb_rep_unch:
  assumes "rb_rep t ns" "unch A t t'" "rb_node t' = rb_node t" "A \<inter> set ns = {}"
  shows "rb_rep t' ns"
proof -
  obtain s where "rep t NULL (rb_node t) s" "rbt s" "distinct ns" "nodes s = ns" "rb_leftmost t = hd0 ns"
    using assms(1) by (auto simp: rb_rep_def)
  moreover from this have "rep t' NULL (rb_node t') s" using rep_unch[OF assms(2)] assms(3,4) by simp
  ultimately show ?thesis using assms(2) by (auto simp: rb_rep_def unch_def)
qed

lemma rb_rep_init: "rb_rep (eh_rb_root_init t) []"
  by (auto simp: rb_rep_def eh_rb_root_init_def rbt_def intro: exI[of _ Leaf])

lemma rb_rep_root_is_empty: "rb_rep t ns \<Longrightarrow> eh_rb_root_is_empty t = (ns = [])"
  by (elim rb_repE, rename_tac s, case_tac s rule: black.cases) (auto simp: eh_rb_root_is_empty_def)

lemma rb_rep_first: "rb_rep t ns \<Longrightarrow> eh_rb_first t = hd0 ns"
  by (auto simp: rb_rep_def eh_rb_first_def)

text \<open>The position of a node: its context, subtrees and colour.\<close>

lemma rb_rep_focus:
  assumes "rb_rep t (xs @ n # ys)"
  obtains c l b r where "rbt (plug c (Node l (n, b) r))" "separate c (Node l (n, b) r)"
    "repc t n c" "rep t (par c) n (Node l (n, b) r)"
    "xs = before c @ nodes l" "ys = nodes r @ after c"
proof -
  obtain s where s: "rep t NULL (rb_node t) s" "rbt s" "distinct (nodes s)" "nodes s = xs @ n # ys"
    using assms by (elim rb_repE) auto
  obtain c l b r where e: "s = plug c (Node l (n, b) r)" using focus[of n s] s(4) by auto
  have "distinct (xs @ n # ys)" using s(3) unfolding s(4) .
  moreover have "xs @ n # ys = (before c @ nodes l) @ n # (nodes r @ after c)"
    using s(4) e by (simp add: nodes_plug)
  ultimately have xy: "before c @ nodes l = xs \<and> nodes r @ after c = ys"
    by (rule distinct_split_unique)
  have "repc t n c" "rep t (par c) n (Node l (n, b) r)"
    using s(1) unfolding e rep_plug by auto
  moreover have "separate c (Node l (n, b) r)" using s(3) by (simp add: separate_iff e)
  ultimately show ?thesis using that s(2) e xy by metis
qed

subsection \<open>Neighbours\<close>

lemma walk_left_sim: "rep t p q s \<Longrightarrow> s \<noteq> Leaf \<Longrightarrow> rb_walk_left q t = Some (hd (nodes s))"
proof (induction t p q s rule: rep.induct)
  case (2 t p q l a b r)
  then show ?case
    by (subst rb_walk_left.simps) (cases l rule: black.cases; auto simp: hd_append)
qed simp

lemma walk_right_sim: "rep t p q s \<Longrightarrow> s \<noteq> Leaf \<Longrightarrow> rb_walk_right q t = Some (last (nodes s))"
proof (induction t p q s rule: rep.induct)
  case (2 t p q l a b r)
  then show ?case
    by (subst rb_walk_right.simps) (cases r rule: black.cases; auto simp: last_append)
qed simp

lemma pac_parent: "rep t p q s \<Longrightarrow> s \<noteq> Leaf \<Longrightarrow> rb_parent t q = p"
  by (cases s rule: black.cases) (auto simp: rb_parent_def)

lemma climb_right_sim:
  "\<lbrakk>repc t q c; rep t (par c) q s; s \<noteq> Leaf; separate c s\<rbrakk> \<Longrightarrow> rb_climb_right q t = Some (hd0 (after c))"
proof (induction c arbitrary: q s rule: after.induct)
  case 1
  then show ?case by (subst rb_climb_right.simps) (simp add: pac_parent)
next
  case (2 a b r c)
  then have "q \<in> set (nodes s)" by (cases s rule: black.cases) auto
  then have "q \<notin> set (nodes r)" "q \<noteq> NULL"
    using 2 rep_not_null[OF "2.prems"(2)] by (auto simp: separate_def)
  then have "q \<noteq> right_of t a"
    using 2 rep_root[of t a "right_of t a" r] by auto
  then show ?case using 2 by (subst rb_climb_right.simps) (auto simp: pac_parent)
next
  case (3 a b l c)
  then have "rb_climb_right a t = Some (hd0 (after c))"
    using "3.IH"[of a "Node l (a, b) s"] by (auto simp: separate_iff)
  then show ?case using 3 by (subst rb_climb_right.simps) (auto simp: pac_parent)
qed

lemma climb_left_sim:
  "\<lbrakk>repc t q c; rep t (par c) q s; s \<noteq> Leaf; separate c s\<rbrakk> \<Longrightarrow> rb_climb_left q t = Some (hd0 (rev (before c)))"
proof (induction c arbitrary: q s rule: after.induct)
  case 1
  then show ?case by (subst rb_climb_left.simps) (simp add: pac_parent)
next
  case (3 a b r c)
  then have "q \<in> set (nodes s)" by (cases s rule: black.cases) auto
  then have "q \<notin> set (nodes r)" "q \<noteq> NULL"
    using 3 rep_not_null[OF "3.prems"(2)] by (auto simp: separate_def)
  then have "q \<noteq> left_of t a"
    using 3 rep_root[of t a "left_of t a" r] by auto
  then show ?case using 3 by (subst rb_climb_left.simps) (auto simp: pac_parent)
next
  case (2 a b l c)
  then have "rb_climb_left a t = Some (hd0 (rev (before c)))"
    using "2.IH"[of a "Node s (a, b) l"] by (auto simp: separate_iff)
  then show ?case using 2 by (subst rb_climb_left.simps) (auto simp: pac_parent)
qed

lemma not_node_empty:
  assumes "rep t (par c) n (Node l (n, b) r)" "separate c (Node l (n, b) r)"
  shows "\<not> eh_rb_node_is_empty t n"
proof -
  have "par c \<noteq> n"
    using assms par_fnodes[of c] by (cases "c = []") (auto simp: separate_def)
  then show ?thesis using assms(1) by (auto simp: eh_rb_node_is_empty_def of_bool_def)
qed

theorem eh_rb_next_rep:
  assumes "rb_rep t (xs @ n # ys)"
  shows "eh_rb_next n t = Some (hd0 ys)"
proof -
  obtain c l b r where f: "separate c (Node l (n, b) r)" "repc t n c"
    "rep t (par c) n (Node l (n, b) r)" "ys = nodes r @ after c"
    using rb_rep_focus[OF assms] by metis
  show ?thesis
  proof (cases r rule: black.cases)
    case 1
    then have "right_of t n = NULL" using f(3) by simp
    then show ?thesis
      using climb_right_sim[OF f(2,3) _ f(1)] not_node_empty[OF f(3,1)] f(4) 1
      by (simp add: eh_rb_next_def del: rep.simps)
  next
    case (2 rl a k rr)
    then show ?thesis
      using walk_left_sim[of t n a r] not_node_empty[OF f(3,1)] f(3,4)
      by (simp add: eh_rb_next_def hd0_append del: nodes.simps)
  qed
qed

theorem eh_rb_prev_rep:
  assumes "rb_rep t (xs @ n # ys)"
  shows "eh_rb_prev n t = Some (hd0 (rev xs))"
proof -
  obtain c l b r where f: "separate c (Node l (n, b) r)" "repc t n c"
    "rep t (par c) n (Node l (n, b) r)" "xs = before c @ nodes l"
    using rb_rep_focus[OF assms] by metis
  show ?thesis
  proof (cases l rule: black.cases)
    case 1
    then have "left_of t n = NULL" using f(3) by simp
    then show ?thesis
      using climb_left_sim[OF f(2,3) _ f(1)] not_node_empty[OF f(3,1)] f(4) 1
      by (simp add: eh_rb_prev_def del: rep.simps)
  next
    case (2 ll a k lr)
    then show ?thesis
      using walk_right_sim[of t n a l] not_node_empty[OF f(3,1)] f(3,4)
      by (simp add: eh_rb_prev_def hd0_append hd_rev del: nodes.simps)
  qed
qed

lemma eh_rb_last_rep: "rb_rep t ns \<Longrightarrow> eh_rb_last t = Some (hd0 (rev ns))"
proof (elim rb_repE)
  fix s assume s: "rep t NULL (rb_node t) s" "nodes s = ns"
  then show ?thesis
    using walk_right_sim[OF s(1)]
    by (cases s rule: black.cases) (auto simp: eh_rb_last_def Let_def hd0_def hd_rev last_rev split: list.split)
qed

subsection \<open>Deletion\<close>

lemma eh_rb_del_unlink:
  "eh_rb_del n t =
     do {
       (leftmost, t) \<leftarrow>
         (if rb_leftmost t = n then do { nx \<leftarrow> eh_rb_next n t; Some (nx, set_leftmost nx t) }
          else Some (NULL, t));
       t \<leftarrow> rb_unlink n t;
       Some (leftmost, t)
     }"
  by (auto simp: eh_rb_del_def rb_unlink_def Let_def split: Option.bind_split prod.splits)

lemma rb_unlink_rep:
  assumes "rb_rep t (xs @ n # ys)"
  obtains t' s where "rb_unlink n (set_leftmost v t) = Some t'" "rep t' NULL (rb_node t') s" "rbt s"
    "nodes s = xs @ ys" "rb_leftmost t' = v" "\<And>m. m \<notin> set (xs @ n # ys) \<Longrightarrow> rb_mem t' m = rb_mem t m"
proof -
  obtain c l b r where f: "rbt (plug c (Node l (n, b) r))" "separate c (Node l (n, b) r)"
    "repc t n c" "rep t (par c) n (Node l (n, b) r)" "xs = before c @ nodes l" "ys = nodes r @ after c"
    using rb_rep_focus[OF assms] by metis
  have "repc (set_leftmost v t) n c" "rep (set_leftmost v t) (par c) n (Node l (n, b) r)"
    using f(3,4) by (simp_all del: rep.simps)
  then obtain t' where t': "rb_unlink n (set_leftmost v t) = Some t'" "rep t' NULL (rb_node t') (del_node c b l r)"
    "unch (set (nodes (plug c (Node l (n, b) r)))) (set_leftmost v t) t'"
    using rb_unlink_sim f(1,2) by blast
  show ?thesis
  proof (rule that[OF t'(1,2) rbt_del_node[OF f(1)]])
    show "nodes (del_node c b l r) = xs @ ys" using f(5,6) by (simp add: nodes_del_node)
    show "rb_leftmost t' = v" using t'(3) by (simp add: unch_def)
    show "rb_mem t' m = rb_mem t m" if "m \<notin> set (xs @ n # ys)" for m
      using t'(3) that f(5,6) by (auto simp: unch_def nodes_plug)
  qed
qed

text \<open>
  \<open>eh_rb_del\<close> returns on every well-formed tree, takes the node out and leaves a red-black
  tree; it returns the new first node when the node was the first one.
\<close>

theorem eh_rb_del_rep:
  assumes "rb_rep t (xs @ n # ys)"
  shows "\<exists>t'. eh_rb_del n t = Some (if xs = [] then hd0 ys else NULL, t') \<and> rb_rep t' (xs @ ys)
              \<and> (\<forall>m. m \<notin> set (xs @ n # ys) \<longrightarrow> rb_mem t' m = rb_mem t m)"
proof -
  have d: "distinct (xs @ n # ys)" "NULL \<notin> set (xs @ n # ys)" using rb_rep_distinct[OF assms] by auto
  have lm: "rb_leftmost t = hd0 (xs @ n # ys)" using rb_rep_first[OF assms] by (simp add: eh_rb_first_def)
  have first: "rb_leftmost t = n \<longleftrightarrow> xs = []" using lm d by (cases xs) auto
  define v where "v = (if xs = [] then hd0 ys else rb_leftmost t)"
  obtain t' s where t': "rb_unlink n (set_leftmost v t) = Some t'" "rep t' NULL (rb_node t') s" "rbt s"
    "nodes s = xs @ ys" "rb_leftmost t' = v" "\<And>m. m \<notin> set (xs @ n # ys) \<Longrightarrow> rb_mem t' m = rb_mem t m"
    using rb_unlink_rep[OF assms] by metis
  have id: "set_leftmost (rb_leftmost t) t = t" by (simp add: set_leftmost_def)
  then have "eh_rb_del n t = Some (if xs = [] then hd0 ys else NULL, t')"
    using t'(1) first eh_rb_next_rep[OF assms] by (auto simp: eh_rb_del_unlink v_def id)
  moreover have "v = hd0 (xs @ ys)" using lm by (cases xs) (auto simp: v_def)
  then have "rb_rep t' (xs @ ys)" using t' d by (auto simp: rb_rep_def)
  ultimately show ?thesis using t'(6) by blast
qed

subsection \<open>Insertion\<close>

fun link_of :: "frame list \<Rightarrow> rb_link" where
  "link_of [] = LinkRoot"
| "link_of (FL a b r # c) = LinkLeft a"
| "link_of (FR a b l # c) = LinkRight a"

fun ins_pos :: "(ptr \<Rightarrow> int) \<Rightarrow> frame list \<Rightarrow> ctree \<Rightarrow> frame list" where
  "ins_pos cmp c Leaf = c"
| "ins_pos cmp c (Node l (a, b) r) =
     (if cmp a < 0 then ins_pos cmp (FL a b r # c) l else ins_pos cmp (FR a b l # c) r)"

lemma ins_pos_plug: "plug (ins_pos cmp c s) Leaf = plug c s"
  by (induction cmp c s rule: ins_pos.induct) auto

lemma link_get_ctx: "repc t q c \<Longrightarrow> link_get (link_of c) t = q"
  by (cases c rule: link_of.cases) (auto simp: link_get_def)

lemma rb_add_search_sim:
  "\<lbrakk>repc t q c; rep t (par c) q s\<rbrakk>
   \<Longrightarrow> \<exists>c'. c' = ins_pos cmp c s \<and> repc t NULL c'
          \<and> rb_add_search cmp (link_of c) (par c) (before c = []) t
              = Some (link_of c', par c', before c' = [])"
proof (induction cmp c s arbitrary: q rule: ins_pos.induct)
  case (1 cmp c)
  then show ?case by (subst rb_add_search.simps) (auto simp: link_get_ctx)
next
  case (2 cmp c l a b r)
  show ?case
  proof (cases "cmp a < 0")
    case True
    then show ?thesis
      using 2 link_get_ctx[of t q c] by (subst rb_add_search.simps) (auto simp: Let_def)
  next
    case False
    then show ?thesis
      using 2 link_get_ctx[of t q c] by (subst rb_add_search.simps) (auto simp: Let_def)
  qed
qed

lemma rb_link_node_sim:
  assumes "repc t NULL c" "n \<noteq> NULL" "n \<notin> fnodes c" "fdistinct c"
  defines "t' \<equiv> rb_link_node n (par c) (link_of c) t"
  shows "repc t' n c" "rep t' (par c) n (Node Leaf (n, False) Leaf)" "rb_leftmost t' = rb_leftmost t"
    and "unch (insert n (fnodes c)) t t'"
  using assms
  by (cases c rule: link_of.cases; auto simp: rb_link_node_def link_set_def unch_def)+

text \<open>
  The place of an insertion: after every node that does not compare greater. It is described
  by \<open>takeWhile\<close> when the comparison is monotone along the tree.
\<close>

definition cut :: "(ptr \<Rightarrow> int) \<Rightarrow> ptr list \<Rightarrow> bool" where
  "cut cmp ns \<longleftrightarrow> sorted_wrt (\<lambda>a b. cmp a < 0 \<longrightarrow> cmp b < 0) ns"

definition lower :: "(ptr \<Rightarrow> int) \<Rightarrow> ptr list \<Rightarrow> ptr list" where
  "lower cmp ns = takeWhile (\<lambda>a. \<not> cmp a < 0) ns"

definition upper :: "(ptr \<Rightarrow> int) \<Rightarrow> ptr list \<Rightarrow> ptr list" where
  "upper cmp ns = dropWhile (\<lambda>a. \<not> cmp a < 0) ns"

lemma lower_upper [simp]: "lower cmp ns @ upper cmp ns = ns"
  by (simp add: lower_def upper_def)

lemma lower_split:
  "\<lbrakk>\<And>a. a \<in> set xs \<Longrightarrow> \<not> cmp a < 0; \<And>a. a \<in> set ys \<Longrightarrow> cmp a < 0\<rbrakk>
   \<Longrightarrow> lower cmp (xs @ ys) = xs \<and> upper cmp (xs @ ys) = ys"
  by (cases ys) (simp_all add: lower_def upper_def takeWhile_append2 dropWhile_append2 takeWhile_eq_all_conv)

lemma ins_pos_cut:
  "\<lbrakk>cut cmp (nodes (plug c s)); \<forall>a\<in>set (before c). \<not> cmp a < 0; \<forall>a\<in>set (after c). cmp a < 0\<rbrakk>
   \<Longrightarrow> (\<forall>a\<in>set (before (ins_pos cmp c s)). \<not> cmp a < 0) \<and> (\<forall>a\<in>set (after (ins_pos cmp c s)). cmp a < 0)"
proof (induction cmp c s rule: ins_pos.induct)
  case (2 cmp c l a b r)
  note prems = "2.prems" and IH = "2.IH"
  have s: "\<forall>x\<in>set (nodes r). cmp a < 0 \<longrightarrow> cmp x < 0" "\<forall>x\<in>set (nodes l). cmp x < 0 \<longrightarrow> cmp a < 0"
    using prems(1) unfolding cut_def nodes_plug plug.simps nodes.simps sorted_wrt_append sorted_wrt.simps(2) set_append
    by (blast, fastforce)
  show ?case
  proof (cases "cmp a < 0")
    case True
    then have "\<forall>x\<in>set (after (FL a b r # c)). cmp x < 0"
      using s(1) prems(3) unfolding after.simps set_append set_simps by blast
    moreover have "cut cmp (nodes (plug (FL a b r # c) l))" "\<forall>x\<in>set (before (FL a b r # c)). \<not> cmp x < 0"
      using prems(1,2) unfolding plug.simps before.simps by blast+
    ultimately show ?thesis using IH(1)[OF True] True unfolding ins_pos.simps if_P[OF True] by blast
  next
    case False
    then have "\<forall>x\<in>set (before (FR a b l # c)). \<not> cmp x < 0"
      using s(2) prems(2) unfolding before.simps set_append set_simps by blast
    moreover have "cut cmp (nodes (plug (FR a b l # c) r))" "\<forall>x\<in>set (after (FR a b l # c)). cmp x < 0"
      using prems(1,3) unfolding plug.simps after.simps by blast+
    ultimately show ?thesis using IH(2)[OF False] unfolding ins_pos.simps if_not_P[OF False] by blast
  qed
qed simp

lemma ins_pos_nodes:
  assumes "cut cmp (nodes s)"
  shows "before (ins_pos cmp [] s) = lower cmp (nodes s)" "after (ins_pos cmp [] s) = upper cmp (nodes s)"
proof -
  have "before (ins_pos cmp [] s) @ after (ins_pos cmp [] s) = nodes s"
    using nodes_plug[of "ins_pos cmp [] s" Leaf] by (simp add: ins_pos_plug)
  moreover have "(\<forall>a\<in>set (before (ins_pos cmp [] s)). \<not> cmp a < 0) \<and> (\<forall>a\<in>set (after (ins_pos cmp [] s)). cmp a < 0)"
    using ins_pos_cut[of cmp "[]" s] assms by simp
  ultimately show "before (ins_pos cmp [] s) = lower cmp (nodes s)" "after (ins_pos cmp [] s) = upper cmp (nodes s)"
    using lower_split by metis+
qed

text \<open>Linking a fresh node at a leaf position and rebalancing.\<close>

lemma link_and_fix:
  assumes "repc t NULL c" "rbt (plug c Leaf)" "separate c Leaf" "n \<noteq> NULL" "n \<notin> fnodes c"
    and "rb_leftmost t = hd0 (before c @ after c)"
  defines "t1 \<equiv> (let t = rb_link_node n (par c) (link_of c) t
                 in if before c = [] then set_leftmost n t else t)"
  obtains t' where "rb_insert_color n t1 = Some t'" and "rb_rep t' (before c @ n # after c)"
    and "\<And>m. m \<notin> insert n (fnodes c) \<Longrightarrow> rb_mem t' m = rb_mem t m"
proof -
  let ?s = "Node Leaf (n, False) Leaf"
  have fd: "fdistinct c" using assms(3) by (simp add: separate_def)
  note ln = rb_link_node_sim[OF assms(1,4,5) fd]
  have t1: "repc t1 n c" "rep t1 (par c) n ?s"
    "rb_leftmost t1 = (if before c = [] then n else hd0 (before c @ after c))"
    "\<And>m. m \<notin> insert n (fnodes c) \<Longrightarrow> rb_mem t1 m = rb_mem t m"
    using ln assms(6) unfolding t1_def by (auto simp: Let_def unch_def)
  have sep: "separate c ?s" using assms(5) fd by (simp add: separate_def)
  have tb: "topblack c True" using assms(2) by (simp add: rbt_plug)
  have "rb_parent t1 n = par c" using t1(2) by (simp add: rb_parent_def)
  then have "rb_red_parent t1 n = par c" by (simp add: rb_red_parent_def rb_parent_def pc_parent_def)
  then obtain t' where t': "rb_insert_color n t1 = Some t'" "rb_to t1 t' [] (ins_fix c ?s)"
    using insert_loop_sim[OF t1(1,2) _ sep tb] by (auto simp: rb_insert_color_def)
  have nd: "nodes (ins_fix c ?s) = before c @ n # after c" by (simp add: nodes_ins_fix)
  have "distinct (before c @ n # after c)" using sep by (simp add: separate_iff nodes_plug)
  moreover have "rb_leftmost t' = hd0 (before c @ n # after c)"
    using t'(2) t1(3) by (cases "before c") (auto simp: rb_to_def unch_def)
  ultimately have "rb_rep t' (before c @ n # after c)"
    using t'(2) nd rbt_ins_fix[OF assms(2)] by (auto simp: rb_rep_def rb_to_def ctx_rep_def)
  moreover have "unch (insert n (fnodes c)) t1 t'"
    using t'(2) nd by (auto simp: rb_to_def fnodes_eq insert_commute elim!: unch_mono)
  ultimately show ?thesis using that[of t'] t'(1) t1(4) by (simp add: unch_def)
qed

lemma insert_at:
  assumes "rep t NULL (rb_node t) s" "rbt s" "distinct (nodes s)" "rb_leftmost t = hd0 (nodes s)"
    and "n \<notin> set (nodes s)" "n \<noteq> NULL" "cut cmp (nodes s)"
  defines "c \<equiv> ins_pos cmp [] s"
  assumes "repc t NULL c"
  obtains t' where
    "rb_insert_color n (let t = rb_link_node n (par c) (link_of c) t
                        in if before c = [] then set_leftmost n t else t) = Some t'"
    and "rb_rep t' (lower cmp (nodes s) @ n # upper cmp (nodes s))"
    and "\<forall>m. m \<notin> insert n (set (nodes s)) \<longrightarrow> rb_mem t' m = rb_mem t m"
    and "before c = lower cmp (nodes s)"
proof -
  have pl: "plug c Leaf = s" using ins_pos_plug[of cmp "[]" s] by (simp add: c_def)
  have ba: "before c = lower cmp (nodes s)" "after c = upper cmp (nodes s)"
    using ins_pos_nodes[of cmp s] assms(7) by (simp_all add: c_def)
  have fn: "fnodes c = set (nodes s)" by (simp add: fnodes_eq ba) (metis lower_upper set_append)
  have "rbt (plug c Leaf)" "separate c Leaf" "n \<notin> fnodes c" "rb_leftmost t = hd0 (before c @ after c)"
    using assms(2-5) pl fn by (simp_all add: separate_iff ba)
  then obtain t' where
    "rb_insert_color n (let t = rb_link_node n (par c) (link_of c) t
                        in if before c = [] then set_leftmost n t else t) = Some t'"
    "rb_rep t' (before c @ n # after c)" "\<And>m. m \<notin> insert n (fnodes c) \<Longrightarrow> rb_mem t' m = rb_mem t m"
    using link_and_fix[OF assms(9) _ _ assms(6)] by metis
  then show ?thesis using that ba fn by simp
qed

text \<open>
  \<open>eh_rb_add\<close> returns on every well-formed tree whose comparison with the new node is
  monotone; the node goes behind the nodes that do not compare greater, the tree is
  red-black again, and the result is the node exactly when it is the new first node.
\<close>

theorem eh_rb_add_rep:
  assumes "rb_rep t ns" "n \<notin> set ns" "n \<noteq> NULL" "cut (cmp n) ns"
  shows "\<exists>t'. eh_rb_add cmp n t = Some (if lower (cmp n) ns = [] then n else NULL, t')
              \<and> rb_rep t' (lower (cmp n) ns @ n # upper (cmp n) ns)
              \<and> (\<forall>m. m \<notin> insert n (set ns) \<longrightarrow> rb_mem t' m = rb_mem t m)"
proof -
  obtain s where s: "rep t NULL (rb_node t) s" "rbt s" "distinct (nodes s)" "nodes s = ns"
    "rb_leftmost t = hd0 ns" using assms(1) by (elim rb_repE)
  define c where "c = ins_pos (cmp n) [] s"
  have se: "repc t NULL c" "rb_add_search (cmp n) LinkRoot NULL True t = Some (link_of c, par c, before c = [])"
    using rb_add_search_sim[of t "rb_node t" "[]" s "cmp n"] s(1) by (auto simp: c_def)
  obtain t' where
    "rb_insert_color n (let t = rb_link_node n (par c) (link_of c) t
                        in if before c = [] then set_leftmost n t else t) = Some t'"
    "rb_rep t' (lower (cmp n) ns @ n # upper (cmp n) ns)"
    "\<forall>m. m \<notin> insert n (set ns) \<longrightarrow> rb_mem t' m = rb_mem t m" "before c = lower (cmp n) ns"
    using insert_at[of t s n "cmp n", folded c_def] s assms(2-4) se(1) by metis
  moreover from this(1,4) have
    "eh_rb_add cmp n t = Some (if lower (cmp n) ns = [] then n else NULL, t')"
    using se(2) by (simp add: eh_rb_add_def Let_def)
  ultimately show ?thesis by blast
qed

subsection \<open>Searches\<close>

text \<open>The comparison with the key goes down from positive over zero to negative.\<close>

definition graded :: "(ptr \<Rightarrow> int) \<Rightarrow> ptr list \<Rightarrow> bool" where
  "graded cmp ns \<longleftrightarrow> sorted_wrt (\<lambda>a b. (cmp a < 0 \<longrightarrow> cmp b < 0) \<and> (cmp a \<le> 0 \<longrightarrow> cmp b \<le> 0)) ns"

lemma graded_cut: "graded cmp ns \<Longrightarrow> cut cmp ns"
  unfolding graded_def cut_def by (erule sorted_wrt_mono_rel[rotated]) blast

lemma graded_append:
  "graded cmp (xs @ a # ys) \<Longrightarrow>
     graded cmp xs \<and> graded cmp ys \<and> (cmp a \<le> 0 \<longrightarrow> (\<forall>y\<in>set ys. cmp y \<le> 0))
     \<and> (cmp a < 0 \<longrightarrow> (\<forall>y\<in>set ys. cmp y < 0)) \<and> (cmp a > 0 \<longrightarrow> (\<forall>x\<in>set xs. cmp x > 0))
     \<and> (cmp a \<ge> 0 \<longrightarrow> (\<forall>x\<in>set xs. cmp x \<ge> 0))"
  unfolding graded_def sorted_wrt_append sorted_wrt.simps(2) set_simps
  by (intro conjI impI ballI; (blast | (rule ccontr, fastforce simp: not_less not_le)))

text \<open>The result of a search: a matching node when there is one, else \<open>NULL\<close>.\<close>

definition found :: "(ptr \<Rightarrow> int) \<Rightarrow> ptr list \<Rightarrow> ptr \<Rightarrow> bool" where
  "found m ns n \<longleftrightarrow> (if \<exists>x\<in>set ns. m x = 0 then n \<in> set ns \<and> m n = 0 else n = NULL)"

lemma found_left: "\<lbrakk>found m xs n; m a \<noteq> 0; \<forall>y\<in>set ys. m y \<noteq> 0\<rbrakk> \<Longrightarrow> found m (xs @ a # ys) n"
  and found_right: "\<lbrakk>found m ys n; m a \<noteq> 0; \<forall>x\<in>set xs. m x \<noteq> 0\<rbrakk> \<Longrightarrow> found m (xs @ a # ys) n"
  by (auto simp: found_def split: if_splits)

lemma match_find_sim:
  "\<lbrakk>rep t p q s; graded m (nodes s)\<rbrakk> \<Longrightarrow> \<exists>n. rb_match_find m q t = Some n \<and> found m (nodes s) n"
proof (induction t p q s rule: rep.induct)
  case (1 t p q)
  then show ?case by (subst rb_match_find.simps) (simp add: found_def)
next
  case (2 t p q l a b r)
  note prems = "2.prems" and IH = "2.IH"
  have g: "graded m (nodes l)" "graded m (nodes r)"
    "m a < 0 \<Longrightarrow> \<forall>y\<in>set (nodes r). m y < 0" "m a > 0 \<Longrightarrow> \<forall>x\<in>set (nodes l). m x > 0"
    using graded_append[of m "nodes l" a "nodes r"] prems(2) by auto
  have q: "q = a" "a \<noteq> NULL" using prems(1) by auto
  obtain nl nr where n: "rb_match_find m (left_of t a) t = Some nl" "found m (nodes l) nl"
    "rb_match_find m (right_of t a) t = Some nr" "found m (nodes r) nr"
    using IH(1)[OF _ g(1)] IH(2)[OF _ g(2)] prems(1) by auto
  consider "m a < 0" | "m a = 0" | "m a > 0" by linarith
  then show ?case
  proof cases
    case 1
    then have "found m (nodes l @ a # nodes r) nl" using g(3) n(2) by (intro found_left) force+
    then show ?thesis using q n 1 by (subst rb_match_find.simps) (simp add: Let_def)
  next
    case 2
    then show ?thesis using q by (subst rb_match_find.simps) (simp add: Let_def found_def)
  next
    case 3
    then have "found m (nodes l @ a # nodes r) nr" using g(4) n(4) by (intro found_right) force+
    then show ?thesis using q n 3 by (subst rb_match_find.simps) (simp add: Let_def)
  qed
qed

theorem eh_rb_match_find_rep:
  assumes "rb_rep t ns" "graded m ns"
  shows "\<exists>n. eh_rb_match_find m t = Some n \<and> found m ns n"
  using assms match_find_sim by (elim rb_repE) (auto simp: eh_rb_match_find_def)

lemma hd0_mid: "hd0 (xs @ a # ys) = hd0 (xs @ [a])"
  by (cases xs) auto

lemma find_first_sim:
  "\<lbrakk>rep t p q s; graded m (nodes s)\<rbrakk>
   \<Longrightarrow> rb_find_first m d q t = Some (hd0 (filter (\<lambda>x. m x = 0) (nodes s) @ [d]))"
proof (induction t p q s arbitrary: d rule: rep.induct)
  case (1 t p q)
  then show ?case by (subst rb_find_first.simps) simp
next
  case (2 t p q l a b r)
  have g: "graded m (nodes l)" "graded m (nodes r)"
    "m a < 0 \<Longrightarrow> \<forall>y\<in>set (nodes r). m y < 0" "m a > 0 \<Longrightarrow> \<forall>x\<in>set (nodes l). m x > 0"
    using graded_append[of m "nodes l" a "nodes r"] 2(4) by auto
  have e: "filter (\<lambda>x. m x = 0) xs = [] \<longleftrightarrow> (\<forall>x\<in>set xs. m x \<noteq> 0)" for xs
    by (simp add: filter_empty_conv)
  consider "m a < 0" | "m a = 0" | "m a > 0" by linarith
  then show ?case
  proof cases
    case 1
    then have "filter (\<lambda>x. m x = 0) (nodes r) = []" using g(3) by (force simp: e)
    then show ?thesis using 2(1)[OF _ g(1)] 2(3) 1 by (subst rb_find_first.simps) (auto simp: Let_def)
  next
    case 2
    have "rb_find_first m a (left_of t a) t = Some (hd0 (filter (\<lambda>x. m x = 0) (nodes l) @ [a]))"
      using "2.IH"(1)[OF _ g(1)] "2.prems"(1) by auto
    then show ?thesis using "2.prems"(1) 2 hd0_mid[of "filter (\<lambda>x. m x = 0) (nodes l)" a "filter (\<lambda>x. m x = 0) (nodes r) @ [d]"]
      by (subst rb_find_first.simps) (auto simp: Let_def)
  next
    case 3
    then have "filter (\<lambda>x. m x = 0) (nodes l) = []" using g(4) by (force simp: e)
    then show ?thesis using 2(2)[OF _ g(2)] 2(3) 3 by (subst rb_find_first.simps) (auto simp: Let_def)
  qed
qed

theorem eh_rb_find_first_rep:
  assumes "rb_rep t ns" "graded m ns"
  shows "eh_rb_find_first m t = Some (hd0 (filter (\<lambda>x. m x = 0) ns))"
  using assms
  by (elim rb_repE) (auto simp: eh_rb_find_first_def find_first_sim hd0_def split: list.split)

theorem eh_rb_next_match_rep:
  assumes "rb_rep t (xs @ n # ys)"
  shows "eh_rb_next_match m n t = Some (if ys \<noteq> [] \<and> m (hd ys) = 0 then hd ys else NULL)"
  using assms eh_rb_next_rep[OF assms] rb_rep_distinct[OF assms]
  by (cases ys) (auto simp: eh_rb_next_match_def Let_def)

text \<open>The search of \<open>eh_rb_find_add\<close>: an equal node or the place of \<open>eh_rb_add\<close>.\<close>

lemma find_search_sim:
  "\<lbrakk>repc t q c; rep t (par c) q s; graded cmp (nodes s)\<rbrakk>
   \<Longrightarrow> if \<exists>x\<in>set (nodes s). cmp x = 0
       then \<exists>n. rb_find_search cmp (link_of c) (par c) (before c = []) t = Some (Inl n) \<and> found cmp (nodes s) n
       else (let c' = ins_pos cmp c s in repc t NULL c'
              \<and> rb_find_search cmp (link_of c) (par c) (before c = []) t
                  = Some (Inr (link_of c', par c', before c' = [])))"
proof (induction cmp c s arbitrary: q rule: ins_pos.induct)
  case (1 cmp c)
  then show ?case by (subst rb_find_search.simps) (auto simp: link_get_ctx Let_def)
next
  case (2 cmp c l a b r)
  note prems = "2.prems" and IH = "2.IH"
  have g: "graded cmp (nodes l)" "graded cmp (nodes r)"
    "cmp a < 0 \<Longrightarrow> \<forall>y\<in>set (nodes r). cmp y < 0" "cmp a > 0 \<Longrightarrow> \<forall>x\<in>set (nodes l). cmp x > 0"
    using graded_append[of cmp "nodes l" a "nodes r"] prems(3) by auto
  have q: "q = a" "a \<noteq> NULL" "link_get (link_of c) t = a"
    using prems(2) link_get_ctx[OF prems(1)] by auto
  consider "cmp a < 0" | "cmp a = 0" | "cmp a > 0" by linarith
  then show ?case
  proof cases
    case 1
    then have z: "(\<exists>x\<in>set (nodes (Node l (a, b) r)). cmp x = 0) = (\<exists>x\<in>set (nodes l). cmp x = 0)"
      using g(3) by force
    have rr: "\<forall>y\<in>set (nodes r). cmp y \<noteq> 0" using g(3) 1 by force
    have "repc t (left_of t a) (FL a b r # c)" "rep t (par (FL a b r # c)) (left_of t a) l"
      using prems(1,2) by auto
    from IH(1)[OF 1 this g(1)] show ?thesis
      unfolding z using q 1 rr found_left[of cmp "nodes l" _ a "nodes r"]
      by (subst (1 2) rb_find_search.simps) (auto simp: Let_def split: if_splits)
  next
    case 2
    then show ?thesis using q by (subst (1 2) rb_find_search.simps) (auto simp: Let_def found_def)
  next
    case 3
    then have z: "(\<exists>x\<in>set (nodes (Node l (a, b) r)). cmp x = 0) = (\<exists>x\<in>set (nodes r). cmp x = 0)"
      using g(4) by force
    have ll: "\<forall>y\<in>set (nodes l). cmp y \<noteq> 0" using g(4) 3 by force
    have ng: "\<not> cmp a < 0" using 3 by simp
    have "repc t (right_of t a) (FR a b l # c)" "rep t (par (FR a b l # c)) (right_of t a) r"
      using prems(1,2) by auto
    from IH(2)[OF ng this g(2)] show ?thesis
      unfolding z using q 3 ll found_right[of cmp "nodes r" _ a "nodes l"]
      by (subst (1 2) rb_find_search.simps) (auto simp: Let_def split: if_splits)
  qed
qed

lemma find_search_rep:
  assumes "rep t NULL (rb_node t) s" "graded cmp (nodes s)"
  shows "if \<exists>x\<in>set (nodes s). cmp x = 0
         then \<exists>n. rb_find_search cmp LinkRoot NULL True t = Some (Inl n) \<and> found cmp (nodes s) n
         else (let c = ins_pos cmp [] s in repc t NULL c
                \<and> rb_find_search cmp LinkRoot NULL True t = Some (Inr (link_of c, par c, before c = [])))"
  using find_search_sim[of t "rb_node t" "[]" s cmp] assms
  by (cases "\<exists>x\<in>set (nodes s). cmp x = 0") (simp_all add: Let_def)

text \<open>
  \<open>eh_rb_find_add\<close> and \<open>eh_rb_find_new_add\<close>: an equal node is returned and the tree
  stays; else the new node, if there is one, is inserted.
\<close>

theorem eh_rb_find_new_add_rep:
  assumes "rb_rep t ns" "graded cmp ns" "\<forall>n. new = Some n \<longrightarrow> n \<notin> set ns \<and> n \<noteq> NULL"
  shows "\<exists>r t'. eh_rb_find_new_add cmp new t = Some (r, t')
     \<and> (if \<exists>x\<in>set ns. cmp x = 0 then t' = t \<and> r \<in> set ns \<and> cmp r = 0
        else case new of
            None \<Rightarrow> r = NULL \<and> t' = t
          | Some n \<Rightarrow> r = n \<and> rb_rep t' (lower cmp ns @ n # upper cmp ns)
                       \<and> (\<forall>m. m \<notin> insert n (set ns) \<longrightarrow> rb_mem t' m = rb_mem t m))"
proof -
  obtain s where s: "rep t NULL (rb_node t) s" "rbt s" "distinct (nodes s)" "nodes s = ns"
    "rb_leftmost t = hd0 ns" using assms(1) by (elim rb_repE)
  define c where "c = ins_pos cmp [] s"
  note se = find_search_rep[OF s(1), of cmp, folded c_def, unfolded s(4), OF assms(2)]
  show ?thesis
  proof (cases "\<exists>x\<in>set ns. cmp x = 0")
    case True
    then obtain n where "rb_find_search cmp LinkRoot NULL True t = Some (Inl n)" "found cmp ns n"
      using se by auto
    then show ?thesis using True by (auto simp: eh_rb_find_new_add_def found_def)
  next
    case False
    then have se: "repc t NULL c"
      "rb_find_search cmp LinkRoot NULL True t = Some (Inr (link_of c, par c, before c = []))"
      using se by (auto simp: Let_def)
    show ?thesis
    proof (cases new)
      case None
      then show ?thesis using se False by (auto simp: eh_rb_find_new_add_def)
    next
      case (Some n)
      then obtain t' where
        "rb_insert_color n (let t = rb_link_node n (par c) (link_of c) t
                            in if before c = [] then set_leftmost n t else t) = Some t'"
        "rb_rep t' (lower cmp ns @ n # upper cmp ns)"
        "\<forall>m. m \<notin> insert n (set ns) \<longrightarrow> rb_mem t' m = rb_mem t m"
        using insert_at[of t s n cmp, folded c_def] s assms(3) graded_cut[OF assms(2)] se(1) by metis
      moreover from this(1) have "eh_rb_find_new_add cmp new t = Some (n, t')"
        using se(2) Some by (simp add: eh_rb_find_new_add_def Let_def)
      ultimately show ?thesis using False Some by auto
    qed
  qed
qed

lemma eh_rb_find_add_new: "eh_rb_find_add cmp n t = eh_rb_find_new_add (cmp n) (Some n) t"
  unfolding eh_rb_find_add_def eh_rb_find_new_add_def option.case by (rule refl)

subsection \<open>Traversals\<close>

lemma next_from_sim: "rb_rep t (xs @ ys) \<Longrightarrow> eh_rb_next_from (hd0 ys) t = Some ys"
proof (induction ys arbitrary: xs)
  case Nil
  then show ?case by (subst eh_rb_next_from.simps) simp
next
  case (Cons y ys)
  then have "y \<noteq> NULL" "eh_rb_next y t = Some (hd0 ys)" "eh_rb_next_from (hd0 ys) t = Some ys"
    using rb_rep_distinct[OF Cons.prems] eh_rb_next_rep[OF Cons.prems] Cons.IH[of "xs @ [y]"] by auto
  then show ?case by (subst eh_rb_next_from.simps) simp
qed

theorem eh_rb_next_for_each_rep: "rb_rep t ns \<Longrightarrow> eh_rb_next_for_each t = Some ns"
  using next_from_sim[of t "[]" ns] by (simp add: eh_rb_next_for_each_def rb_rep_first)

fun postnodes :: "ctree \<Rightarrow> ptr list" where
  "postnodes Leaf = []"
| "postnodes (Node l (a, b) r) = postnodes l @ postnodes r @ [a]"

fun postafter :: "frame list \<Rightarrow> ptr list" where
  "postafter [] = []"
| "postafter (FL a b r # c) = postnodes r @ a # postafter c"
| "postafter (FR a b l # c) = a # postafter c"

lemma left_deepest_sim:
  "rep t p q s \<Longrightarrow> s \<noteq> Leaf \<Longrightarrow> rb_left_deepest_node q t = Some (hd (postnodes s))"
proof (induction t p q s rule: rep.induct)
  case (2 t p q l a b r)
  have nn: "postnodes u = [] \<longleftrightarrow> u = Leaf" for u by (cases u rule: black.cases) auto
  show ?case
    using 2 by (subst rb_left_deepest_node.simps)
      (cases l rule: black.cases; cases r rule: black.cases; auto simp: hd_append nn)
qed simp

lemma next_postorder_sim:
  assumes "repc t q c" "rep t (par c) q s" "s \<noteq> Leaf" "separate c s"
  shows "rb_next_postorder q t = Some (hd0 (postafter c))"
proof -
  have q: "q \<noteq> NULL" "rb_parent t q = par c" using assms(2,3) by (cases s rule: black.cases; auto simp: rb_parent_def)+
  show ?thesis
  proof (cases c rule: postafter.cases)
    case 1
    then show ?thesis using q by (simp add: rb_next_postorder_def)
  next
    case (2 a b r c')
    have nn: "postnodes u = [] \<longleftrightarrow> u = Leaf" for u by (cases u rule: black.cases) auto
    have "right_of t a \<noteq> NULL \<longleftrightarrow> r \<noteq> Leaf"
      using assms(1) 2 by (cases r rule: black.cases) auto
    then show ?thesis
      using q assms(1) 2 left_deepest_sim[of t a "right_of t a" r] hd0_append[of "postnodes r"] nn[of r]
      by (cases "r = Leaf") (auto simp: rb_next_postorder_def)
  next
    case (3 a b l c')
    have "q \<in> set (nodes s)" using rep_root[OF assms(2) q(1)] .
    then have "q \<notin> set (nodes l)" using assms(4) 3 by (auto simp: separate_def)
    then have "q \<noteq> left_of t a" using rep_root[of t a "left_of t a" l] assms(1) 3 q(1) by auto
    then show ?thesis using q assms(1) 3 by (auto simp: rb_next_postorder_def)
  qed
qed

text \<open>The traversal from a subtree in its context visits the rest of the postorder.\<close>

lemma postorder_up:
  "\<lbrakk>repc t q c; rep t (par c) q s; s \<noteq> Leaf; separate c s\<rbrakk>
   \<Longrightarrow> eh_rb_postorder_from q t = Some (q # xs) \<longleftrightarrow> eh_rb_postorder_from (hd0 (postafter c)) t = Some xs"
proof -
  assume a: "repc t q c" "rep t (par c) q s" "s \<noteq> Leaf" "separate c s"
  have "q \<noteq> NULL" using a(2,3) by (cases s rule: black.cases) auto
  then show ?thesis using next_postorder_sim[OF a]
    by (subst eh_rb_postorder_from.simps) (cases "eh_rb_postorder_from (hd0 (postafter c)) t"; simp)
qed

lemma hd_postnodes: "s \<noteq> Leaf \<Longrightarrow> hd0 (postnodes s @ xs) = hd (postnodes s)"
proof -
  have "postnodes s = [] \<longleftrightarrow> s = Leaf" by (cases s rule: black.cases) auto
  then show "s \<noteq> Leaf \<Longrightarrow> hd0 (postnodes s @ xs) = hd (postnodes s)" by (auto simp: hd0_append)
qed

lemma postorder_sub:
  "\<lbrakk>repc t q c; rep t (par c) q s; separate c s;
    eh_rb_postorder_from (hd0 (postafter c)) t = Some (postafter c)\<rbrakk>
   \<Longrightarrow> eh_rb_postorder_from (hd0 (postnodes s @ postafter c)) t = Some (postnodes s @ postafter c)"
proof (induction s arbitrary: q c)
  case (Node l x r)
  obtain a b where x: "x = (a, b)" by (cases x)
  have q: "q = a" using Node.prems(2) x by simp
  have up: "eh_rb_postorder_from a t = Some (a # postafter c)"
    using postorder_up[OF Node.prems(1,2) _ Node.prems(3), of "postafter c"] Node.prems(4) q by simp
  have R: "repc t (right_of t a) (FR a b l # c)" "rep t (par (FR a b l # c)) (right_of t a) r"
    "separate (FR a b l # c) r"
    using Node.prems(1-3) x by (auto simp: separate_iff)
  have r: "eh_rb_postorder_from (hd0 (postnodes r @ a # postafter c)) t = Some (postnodes r @ a # postafter c)"
    using Node.IH(2)[OF R] up by simp
  have L: "repc t (left_of t a) (FL a b r # c)" "rep t (par (FL a b r # c)) (left_of t a) l"
    "separate (FL a b r # c) l"
    using Node.prems(1-3) x by (auto simp: separate_iff)
  show ?case using Node.IH(1)[OF L] r x by simp
qed simp

theorem eh_rb_postorder_rep:
  assumes "rb_rep t ns"
  shows "\<exists>s. nodes s = ns \<and> eh_rb_postorder_for_each t = Some (postnodes s)"
proof -
  obtain s where s: "rep t NULL (rb_node t) s" "distinct (nodes s)" "nodes s = ns"
    using assms by (elim rb_repE)
  have e: "eh_rb_postorder_from NULL t = Some []" by (subst eh_rb_postorder_from.simps) simp
  have "eh_rb_postorder_from (hd0 (postnodes s)) t = Some (postnodes s)"
    using postorder_sub[of t "rb_node t" "[]" s] s e by (simp add: separate_iff)
  moreover have "rb_first_postorder t = Some (hd0 (postnodes s))"
    using left_deepest_sim[OF s(1)] s(1) hd_postnodes[of s "[]"]
    by (cases s rule: black.cases) (auto simp: rb_first_postorder_def)
  ultimately show ?thesis using s(3) by (auto simp: eh_rb_postorder_for_each_def)
qed

lemma postnodes_children:
  "distinct (nodes s) \<Longrightarrow> s = plug c (Node l (a, b) r) \<Longrightarrow> x \<in> set (nodes l) \<union> set (nodes r) \<Longrightarrow>
   \<exists>us vs ws. postnodes s = us @ x # vs @ a # ws"
proof (induction c arbitrary: s rule: rev_induct)
  case Nil
  have mem: "set (postnodes u) = set (nodes u)" for u by (induction u rule: nodes.induct) auto
  then have "x \<in> set (postnodes l @ postnodes r)" using Nil by auto
  then obtain us vs where "postnodes l @ postnodes r = us @ x # vs" by (meson split_list)
  then have "postnodes s = us @ x # vs @ a # []" using Nil by simp
  then show ?case by blast
next
  case (snoc f c)
  let ?u = "plug c (Node l (a, b) r)"
  obtain us vs ws where "postnodes ?u = us @ x # vs @ a # ws"
    using snoc.IH[of ?u] snoc.prems by (cases f) (auto simp: plug_append)
  then show ?case using snoc.prems(2)
    by (cases f) (fastforce simp: plug_append intro: exI[of _ "postnodes _ @ us"])+
qed

subsection \<open>Depth of a search\<close>

text \<open>A search reads at most \<open>2 log (n + 1)\<close> nodes of a tree of \<open>n\<close> nodes.\<close>

lemma size_nodes: "size s = length (nodes s)"
  by (induction s rule: nodes.induct) auto

theorem rb_rep_height:
  assumes "rb_rep t ns"
  shows "\<exists>s. rep t NULL (rb_node t) s \<and> nodes s = ns \<and> 2 ^ (height s div 2) \<le> length ns + 1"
  using assms rbt_height by (elim rb_repE) (auto simp: size_nodes)

subsection \<open>The interface of an ordered index\<close>

text \<open>
  What the clients of the tree use: an index of nodes that keeps them ordered by a
  comparison \<open>cmp\<close>. The laws are the specifications above; the lemmas for the clients,
  on indexes ordered by an integer key, are proved from the laws alone.
\<close>

definition by_key :: "(ptr \<Rightarrow> int) \<Rightarrow> ptr list \<Rightarrow> bool" where
  "by_key k ns \<longleftrightarrow> sorted_wrt (\<lambda>a b. k a \<le> k b) ns"

definition key_cmp :: "(ptr \<Rightarrow> int) \<Rightarrow> (ptr \<Rightarrow> ptr \<Rightarrow> int) \<Rightarrow> bool" where
  "key_cmp k cmp \<longleftrightarrow> (\<forall>a b. (cmp a b < 0) = (k a < k b) \<and> (cmp a b > 0) = (k a > k b))"

lemma by_key_cut: "\<lbrakk>by_key k ns; key_cmp k cmp\<rbrakk> \<Longrightarrow> cut (cmp n) ns"
  unfolding by_key_def cut_def key_cmp_def by (erule sorted_wrt_mono_rel[rotated]) auto

lemma by_key_lower_upper:
  assumes "by_key k ns" "key_cmp k cmp"
  shows "lower (cmp n) ns = filter (\<lambda>m. k m \<le> k n) ns" "upper (cmp n) ns = filter (\<lambda>m. k n < k m) ns"
    and "by_key k (lower (cmp n) ns @ n # upper (cmp n) ns)"
proof -
  have c: "(\<not> cmp n m < 0) = (k m \<le> k n)" for m using assms(2) by (auto simp: key_cmp_def not_less)
  show lo: "lower (cmp n) ns = filter (\<lambda>m. k m \<le> k n) ns"
    using assms(1) unfolding lower_def c by_key_def
    by (induction ns) (auto intro!: filter_False[symmetric])
  show up: "upper (cmp n) ns = filter (\<lambda>m. k n < k m) ns"
    using assms(1) unfolding upper_def c by_key_def
    by (induction ns) (auto intro!: filter_True[symmetric])
  have "sorted_wrt (\<lambda>a b. k a \<le> k b) (filter P ns)" for P
    using assms(1) by (simp add: by_key_def sorted_wrt_filter)
  then show "by_key k (lower (cmp n) ns @ n # upper (cmp n) ns)"
    unfolding lo up by_key_def by (auto simp: sorted_wrt_append)
qed

locale ordered_index =
  fixes holds :: "'t \<Rightarrow> ptr list \<Rightarrow> bool"
    and addx :: "(ptr \<Rightarrow> ptr \<Rightarrow> int) \<Rightarrow> ptr \<Rightarrow> 't \<Rightarrow> (ptr \<times> 't) option"
    and delx :: "ptr \<Rightarrow> 't \<Rightarrow> (ptr \<times> 't) option"
    and firstx :: "'t \<Rightarrow> ptr"
    and nextx :: "ptr \<Rightarrow> 't \<Rightarrow> ptr option"
  assumes holds_distinct: "holds t ns \<Longrightarrow> distinct ns \<and> NULL \<notin> set ns"
    and first_law: "holds t ns \<Longrightarrow> firstx t = hd0 ns"
    and next_law: "holds t (xs @ n # ys) \<Longrightarrow> nextx n t = Some (hd0 ys)"
    and add_law: "\<lbrakk>holds t ns; n \<notin> set ns; n \<noteq> NULL; cut (cmp n) ns\<rbrakk> \<Longrightarrow>
      \<exists>t'. addx cmp n t = Some (if lower (cmp n) ns = [] then n else NULL, t')
           \<and> holds t' (lower (cmp n) ns @ n # upper (cmp n) ns)"
    and del_law: "holds t (xs @ n # ys) \<Longrightarrow>
      \<exists>t'. delx n t = Some (if xs = [] then hd0 ys else NULL, t') \<and> holds t' (xs @ ys)"
begin

text \<open>A fresh node goes behind the nodes with the same or a smaller key.\<close>

lemma add_key:
  assumes "holds t ns" "n \<notin> set ns" "n \<noteq> NULL" "by_key k ns" "key_cmp k cmp"
  shows "\<exists>t'. addx cmp n t = Some (if \<forall>m\<in>set ns. k n < k m then n else NULL, t')
         \<and> holds t' (filter (\<lambda>m. k m \<le> k n) ns @ n # filter (\<lambda>m. k n < k m) ns)
         \<and> by_key k (filter (\<lambda>m. k m \<le> k n) ns @ n # filter (\<lambda>m. k n < k m) ns)"
proof -
  have e: "(filter (\<lambda>m. k m \<le> k n) ns = []) = (\<forall>m\<in>set ns. k n < k m)"
    by (auto simp: filter_empty_conv not_le)
  obtain t' where "addx cmp n t = Some (if lower (cmp n) ns = [] then n else NULL, t')"
    "holds t' (lower (cmp n) ns @ n # upper (cmp n) ns)"
    using add_law[of t ns n cmp, OF assms(1-3) by_key_cut[OF assms(4,5)]] by blast
  then show ?thesis
    using by_key_lower_upper(3)[OF assms(4,5), of n]
    unfolding by_key_lower_upper(1,2)[OF assms(4,5), of n] e by blast
qed

lemma del_key:
  assumes "holds t ns" "n \<in> set ns" "by_key k ns"
  shows "\<exists>r t'. delx n t = Some (r, t') \<and> holds t' (remove1 n ns) \<and> by_key k (remove1 n ns)"
proof -
  obtain xs ys where e: "ns = xs @ n # ys" using assms(2) by (meson split_list)
  have "n \<notin> set xs" using holds_distinct[OF assms(1)] e by auto
  then have r: "remove1 n ns = xs @ ys" using e by (simp add: remove1_append)
  show ?thesis using del_law[of t xs n ys] assms(1,3) e unfolding r by_key_def
    by (auto simp: sorted_wrt_append)
qed

text \<open>The first node has the smallest key.\<close>

lemma first_key:
  assumes "holds t ns" "by_key k ns" "ns \<noteq> []"
  shows "firstx t \<in> set ns \<and> (\<forall>m\<in>set ns. k (firstx t) \<le> k m)"
  using assms first_law[OF assms(1)] by (cases ns) (auto simp: by_key_def)

end

interpretation rbx: ordered_index rb_rep eh_rb_add eh_rb_del eh_rb_first eh_rb_next
proof (unfold_locales, goal_cases)
  case 1
  then show ?case by (rule rb_rep_distinct)
next
  case 2
  then show ?case by (rule rb_rep_first)
next
  case 3
  then show ?case by (rule eh_rb_next_rep)
next
  case (4 t ns n cmp)
  then show ?case using eh_rb_add_rep[of t ns n cmp] by blast
next
  case (5 t xs n ys)
  then show ?case using eh_rb_del_rep[of t xs n ys] by blast
qed

end
