(* ===== verification/Eh_Rbtree_Spec.thy ===== *)
theory Eh_Rbtree_Spec
  imports Eh_Rbtree_Ops
begin

text \<open>
  What the red-black tree promises its clients, as properties of the functions of
  \<open>Eh_Rbtree\<close>: \<open>rb_rep t ns\<close> says that the memory of \<open>t\<close> holds a well-formed red-black tree
  with the nodes \<open>ns\<close> in order and the right cached leftmost node.
\<close>

subsection \<open>Sequences of operations\<close>

datatype rb_op = AddNode ptr | DelNode ptr

fun rb_run :: "(ptr \<Rightarrow> ptr \<Rightarrow> int) \<Rightarrow> rb_op list \<Rightarrow> rbtree \<Rightarrow> rbtree option" where
  "rb_run cmp [] t = Some t"
| "rb_run cmp (AddNode n # os) t = do { (_, t) \<leftarrow> eh_rb_add cmp n t; rb_run cmp os t }"
| "rb_run cmp (DelNode n # os) t = do { (_, t) \<leftarrow> eh_rb_del n t; rb_run cmp os t }"

text \<open>The specification: a list ordered by a key, where a new node goes behind its equals.\<close>

definition insert_key :: "(ptr \<Rightarrow> int) \<Rightarrow> ptr \<Rightarrow> ptr list \<Rightarrow> ptr list" where
  "insert_key k n ns = filter (\<lambda>m. k m \<le> k n) ns @ n # filter (\<lambda>m. k n < k m) ns"

fun list_run :: "(ptr \<Rightarrow> int) \<Rightarrow> rb_op list \<Rightarrow> ptr list \<Rightarrow> ptr list" where
  "list_run k [] ns = ns"
| "list_run k (AddNode n # os) ns = list_run k os (insert_key k n ns)"
| "list_run k (DelNode n # os) ns = list_run k os (remove1 n ns)"

text \<open>A client adds only unlinked nodes and deletes only linked ones.\<close>

fun ops_ok :: "rb_op list \<Rightarrow> ptr set \<Rightarrow> bool" where
  "ops_ok [] S = True"
| "ops_ok (AddNode n # os) S = (n \<noteq> NULL \<and> n \<notin> S \<and> ops_ok os (insert n S))"
| "ops_ok (DelNode n # os) S = (n \<in> S \<and> ops_ok os (S - {n}))"

lemma set_insert_key [simp]: "set (insert_key k n ns) = insert n (set ns)"
  by (auto simp: insert_key_def)

lemma rb_run_from:
  assumes "key_cmp k cmp"
  shows "\<lbrakk>rb_rep t ns; by_key k ns; ops_ok os (set ns)\<rbrakk> \<Longrightarrow>
    \<exists>t'. rb_run cmp os t = Some t' \<and> rb_rep t' (list_run k os ns) \<and> by_key k (list_run k os ns)"
proof (induction os arbitrary: t ns)
  case (Cons op os)
  show ?case
  proof (cases op)
    case (AddNode n)
    obtain t1 where "eh_rb_add cmp n t = Some (if \<forall>m\<in>set ns. k n < k m then n else NULL, t1)"
      "rb_rep t1 (insert_key k n ns)" "by_key k (insert_key k n ns)"
      using rbx.add_key[of t ns n k cmp] Cons.prems assms AddNode unfolding insert_key_def by auto
    then show ?thesis using Cons.IH[of t1 "insert_key k n ns"] Cons.prems AddNode by simp
  next
    case (DelNode n)
    obtain r t1 where "eh_rb_del n t = Some (r, t1)" "rb_rep t1 (remove1 n ns)" "by_key k (remove1 n ns)"
      using rbx.del_key[of t ns n k] Cons.prems DelNode by auto
    moreover have "set (remove1 n ns) = set ns - {n}"
      using rb_rep_distinct[OF Cons.prems(1)] by (simp add: set_remove1_eq)
    ultimately show ?thesis using Cons.IH[of t1 "remove1 n ns"] Cons.prems DelNode by simp
  qed
qed auto

text \<open>A tree of three nodes for the examples.\<close>

definition three_nodes :: rbtree where
  "three_nodes =
     \<lparr>rb_node = 4, rb_leftmost = 2,
      rb_mem = (\<lambda>_. \<lparr>parent_and_color = 0, rb_right = 0, rb_left = 0\<rparr>)
        (2 := \<lparr>parent_and_color = 16, rb_right = 0, rb_left = 0\<rparr>,
         4 := \<lparr>parent_and_color = 1, rb_right = 6, rb_left = 2\<rparr>,
         6 := \<lparr>parent_and_color = 16, rb_right = 0, rb_left = 0\<rparr>)\<rparr>"

lemma three_nodes_rep: "rb_rep three_nodes [2, 4, 6]"
  unfolding rb_rep_def
  by (rule exI[of _ "Node (Node Leaf (2, False) Leaf) (4, True) (Node Leaf (6, False) Leaf)"])
    (simp add: three_nodes_def rbt_def hd0_def)

definition num_cmp :: "ptr \<Rightarrow> ptr \<Rightarrow> int" where
  "num_cmp a b = int a - int b"

lemma num_key_cmp: "key_cmp int num_cmp"
  by (simp add: key_cmp_def num_cmp_def)

subsection \<open>Properties\<close>

text \<open>
  C1. Any sequence of additions of unlinked nodes and deletions of linked nodes, started on an
  initialised root, returns, and the tree then holds exactly the nodes of the same sequence run
  on a list ordered by the key of the comparison, in that order; it is balanced.
\<close>

theorem rb_history_refines:
  assumes "key_cmp k cmp" "ops_ok os {}"
  shows "\<exists>t'. rb_run cmp os (eh_rb_root_init t) = Some t' \<and> rb_rep t' (list_run k os [])
              \<and> by_key k (list_run k os []) \<and> eh_rb_first t' = hd0 (list_run k os [])"
proof -
  obtain t' where "rb_run cmp os (eh_rb_root_init t) = Some t'" "rb_rep t' (list_run k os [])"
    "by_key k (list_run k os [])"
    using rb_run_from[OF assms(1) rb_rep_init, of os t] assms(2) by (auto simp: by_key_def)
  then show ?thesis using rb_rep_first by blast
qed

lemma rb_history_refines_witness:
  "\<exists>t'. rb_run num_cmp [AddNode 5, AddNode 2, AddNode 9, DelNode 5, AddNode 7] (eh_rb_root_init three_nodes) = Some t'
     \<and> rb_rep t' [2, 7, 9] \<and> eh_rb_first t' = 2"
  using rb_history_refines[OF num_key_cmp, of "[AddNode 5, AddNode 2, AddNode 9, DelNode 5, AddNode 7]" three_nodes]
  by (auto simp: insert_key_def hd0_def)

text \<open>
  \<open>eh_rb_add\<close> puts an unlinked node behind the nodes that are not greater, returns it
  exactly when it became the leftmost node, and writes no node that is not in the tree.
\<close>

theorem rb_add_spec:
  assumes "rb_rep t ns" "n \<notin> set ns" "n \<noteq> NULL" "cut (cmp n) ns"
  shows "\<exists>t'. eh_rb_add cmp n t = Some (if lower (cmp n) ns = [] then n else NULL, t')
              \<and> rb_rep t' (lower (cmp n) ns @ n # upper (cmp n) ns)
              \<and> (\<forall>m. m \<notin> insert n (set ns) \<longrightarrow> rb_mem t' m = rb_mem t m)"
  using assms by (rule eh_rb_add_rep[where cmp = cmp])

lemma rb_add_spec_witness:
  "\<exists>t'. eh_rb_add num_cmp 5 three_nodes = Some (NULL, t') \<and> rb_rep t' [2, 4, 5, 6]
     \<and> rb_mem t' 7 = rb_mem three_nodes 7"
proof -
  have "cut (num_cmp 5) [2, 4, 6]" by (simp add: cut_def num_cmp_def)
  from rb_add_spec[where cmp = num_cmp and n = 5, OF three_nodes_rep _ _ this]
  show ?thesis by (auto simp: lower_def upper_def num_cmp_def)
qed

text \<open>
  C2. \<open>eh_rb_del\<close> removes a node of the tree, keeps the others in order, returns the new
  leftmost node exactly when it removed the old one, and writes no other memory.
\<close>

theorem rb_del_spec:
  assumes "rb_rep t (xs @ n # ys)"
  shows "\<exists>t'. eh_rb_del n t = Some (if xs = [] then hd0 ys else NULL, t') \<and> rb_rep t' (xs @ ys)
              \<and> (\<forall>m. m \<notin> set (xs @ n # ys) \<longrightarrow> rb_mem t' m = rb_mem t m)"
  by (rule eh_rb_del_rep[OF assms])

lemma rb_del_spec_witness:
  "(\<exists>t'. eh_rb_del 2 three_nodes = Some (4, t') \<and> rb_rep t' [4, 6])
   \<and> (\<exists>t'. eh_rb_del 4 three_nodes = Some (NULL, t') \<and> rb_rep t' [2, 6])"
  using rb_del_spec[of three_nodes "[]" 2 "[4, 6]"] rb_del_spec[of three_nodes "[2]" 4 "[6]"] three_nodes_rep
  by (auto simp: hd0_def)

text \<open>
  On a tree whose nodes the match function orders, \<open>eh_rb_match_find\<close> returns a matching
  node, or \<open>NULL\<close> when there is none; \<open>eh_rb_find_first\<close> returns the first matching node.
\<close>

theorem rb_find_spec:
  assumes "rb_rep t ns" "graded m ns"
  shows "(\<exists>n. eh_rb_match_find m t = Some n \<and> found m ns n)
    \<and> eh_rb_find_first m t = Some (hd0 (filter (\<lambda>x. m x = 0) ns))"
  using eh_rb_match_find_rep[OF assms] eh_rb_find_first_rep[OF assms] by auto

lemma rb_find_spec_witness:
  "eh_rb_match_find (num_cmp 4) three_nodes = Some 4 \<and> eh_rb_match_find (num_cmp 3) three_nodes = Some NULL
   \<and> eh_rb_find_first (num_cmp 6) three_nodes = Some 6"
proof -
  have g: "graded (num_cmp 4) [2, 4, 6]" "graded (num_cmp 3) [2, 4, 6]" "graded (num_cmp 6) [2, 4, 6]"
    by (simp_all add: graded_def num_cmp_def)
  show ?thesis
    using rb_find_spec[OF three_nodes_rep g(1)] rb_find_spec[OF three_nodes_rep g(2)]
      rb_find_spec[OF three_nodes_rep g(3)]
    by (auto simp: found_def num_cmp_def hd0_def split: if_splits)
qed

text \<open>
  \<open>eh_rb_find_new_add\<close> returns the node that matches and leaves the tree alone; without
  one it makes a node with the constructor and adds it, and when that fails it returns
  \<open>NULL\<close> and leaves the tree alone.
\<close>

theorem rb_find_new_add_spec:
  assumes "rb_rep t ns" "graded cmp ns" "\<forall>n. new = Some n \<longrightarrow> n \<notin> set ns \<and> n \<noteq> NULL"
  shows "\<exists>r t'. eh_rb_find_new_add cmp new t = Some (r, t')
     \<and> (if \<exists>x\<in>set ns. cmp x = 0 then t' = t \<and> r \<in> set ns \<and> cmp r = 0
        else case new of
            None \<Rightarrow> r = NULL \<and> t' = t
          | Some n \<Rightarrow> r = n \<and> rb_rep t' (lower cmp ns @ n # upper cmp ns)
                       \<and> (\<forall>m. m \<notin> insert n (set ns) \<longrightarrow> rb_mem t' m = rb_mem t m))"
  by (rule eh_rb_find_new_add_rep[OF assms])

lemma rb_find_new_add_spec_witness:
  "eh_rb_find_new_add (num_cmp 4) (Some 7) three_nodes = Some (4, three_nodes)
   \<and> (\<exists>t'. eh_rb_find_new_add (num_cmp 7) (Some 7) three_nodes = Some (7, t') \<and> rb_rep t' [2, 4, 6, 7])"
proof -
  have g: "graded (num_cmp 4) [2, 4, 6]" "graded (num_cmp 7) [2, 4, 6]"
    by (simp_all add: graded_def num_cmp_def)
  show ?thesis
    using rb_find_new_add_spec[OF three_nodes_rep g(1), of "Some 7"]
      rb_find_new_add_spec[OF three_nodes_rep g(2), of "Some 7"]
    by (auto simp: num_cmp_def lower_def upper_def)
qed

text \<open>
  Iterating visits the nodes in order, \<open>eh_rb_prev\<close> is the inverse of \<open>eh_rb_next\<close>, and
  the iteration in postorder visits every node after its children, so that a client can free
  each node it visits.
\<close>

theorem rb_iteration_spec:
  assumes "rb_rep t ns"
  shows "eh_rb_next_for_each t = Some ns
    \<and> (\<forall>xs a b ys. ns = xs @ a # b # ys \<longrightarrow> eh_rb_next a t = Some b \<and> eh_rb_prev b t = Some a)
    \<and> (\<exists>s. nodes s = ns \<and> eh_rb_postorder_for_each t = Some (postnodes s))"
proof (intro conjI allI impI)
  fix xs a b ys
  assume "ns = xs @ a # b # ys"
  then show "eh_rb_next a t = Some b" "eh_rb_prev b t = Some a"
    using eh_rb_next_rep[of t xs a "b # ys"] eh_rb_prev_rep[of t "xs @ [a]" b ys] assms
    by (simp_all add: hd0_def)
qed (use eh_rb_next_for_each_rep[OF assms] eh_rb_postorder_rep[OF assms] in auto)

lemma rb_iteration_spec_witness:
  "eh_rb_next_for_each three_nodes = Some [2, 4, 6] \<and> eh_rb_next 4 three_nodes = Some 6
   \<and> eh_rb_prev 6 three_nodes = Some 4"
proof -
  have "[2, 4, 6] = [2::ptr] @ 4 # 6 # []" by simp
  then show ?thesis using rb_iteration_spec[OF three_nodes_rep] by blast
qed



end
