(* ===== verification/Eh_Kernel.thy ===== *)
theory Eh_Kernel
  imports Eh_Rbtree_Ops
begin

text \<open>
  The state of the kernel (\<^verbatim>\<open>eh_internal.h\<close>, \<^verbatim>\<open>eh.h\<close>, \<^verbatim>\<open>eh_timer.h\<close>) and the operations that
  the other parts are built from: waking a task (\<^verbatim>\<open>eh_core.c\<close>) and the receptors of an event
  (\<^verbatim>\<open>eh_event.c\<close>).

  A task, event, receptor, timer or poller is named by its pointer. The intrusive lists are
  kept as the lists of their members, in the order of the ring: the operations of
  \<open>Eh_List\<close> are proved there to do exactly the list operations used here. The ready ring has
  no head of its own in the C code; it is the ring through the node of the current task, kept
  as \<open>current_task\<close> followed by \<open>ready_list\<close>. An unlinked node is a member of no list, so
  \<open>eh_list_del\<close> removes the pointer from the lists of its kind.

  The critical sections make each operation atomic: the scheduler is cooperative and runs on
  one processor, and an interrupt runs between two operations.
\<close>

subsection \<open>State\<close>

datatype task_state = READY | RUNING | WAIT | FINISH

record task =
  t_name :: string
  t_function :: ptr
  t_arg :: ptr
  t_stack_ptr :: ptr
  t_stack :: "u8 list"
  t_ret :: int
  t_state :: task_state
  t_event :: ptr
  t_system_data :: ptr
  t_destruct :: ptr
  t_flags :: u32

definition EH_TASK_FLAGS_STATIC :: u32 where "EH_TASK_FLAGS_STATIC = 1"
definition EH_TASK_FLAGS_SYSTEM_TASK :: u32 where "EH_TASK_FLAGS_SYSTEM_TASK = 2"
definition EH_TASK_FLAGS_DETACH :: u32 where "EH_TASK_FLAGS_DETACH = 4"
definition EH_TASK_FLAGS_MASK :: u32 where "EH_TASK_FLAGS_MASK = 6"

definition is_static_stack :: "task \<Rightarrow> bool" where
  "is_static_stack t \<longleftrightarrow> t_flags t AND EH_TASK_FLAGS_STATIC \<noteq> 0"

definition is_system_task :: "task \<Rightarrow> bool" where
  "is_system_task t \<longleftrightarrow> t_flags t AND EH_TASK_FLAGS_SYSTEM_TASK \<noteq> 0"

definition is_auto_destruct :: "task \<Rightarrow> bool" where
  "is_auto_destruct t \<longleftrightarrow> t_flags t AND EH_TASK_FLAGS_DETACH \<noteq> 0"

text \<open>The \<open>wakeup_task\<close> and \<open>epoll\<close> pointers of a receptor share one field, as in the union.\<close>

record receptor =
  r_wakeup :: ptr
  r_flags :: u32

definition RECEPTOR_TRIGGER :: u32 where "RECEPTOR_TRIGGER = 1"
definition RECEPTOR_ERROR :: u32 where "RECEPTOR_ERROR = 2"
definition RECEPTOR_EPOLL :: u32 where "RECEPTOR_EPOLL = 4"
definition RECEPTOR_MASK :: u32 where "RECEPTOR_MASK = RECEPTOR_TRIGGER OR RECEPTOR_ERROR"

record epoll_node =
  n_event :: ptr
  n_userdata :: ptr

record epoll =
  e_pending :: "ptr list"
  e_tree :: rbtree
  e_wakeup :: ptr

record etimer =
  expire :: u64
  interval :: u64
  attrribute :: u32

record kernel =
  tasks :: "ptr \<Rightarrow> task"
  current_task :: ptr
  main_task :: ptr
  ready_list :: "ptr list"
  task_wait_list :: "ptr list"
  task_finish_list :: "ptr list"
  task_finish_auto_destruct_list :: "ptr list"
  loop_poll_task :: "ptr list"
  dispatch_cnt :: u32
  idle_time :: u64
  receptor_list :: "ptr \<Rightarrow> ptr list"
  receptors :: "ptr \<Rightarrow> receptor"
  epolls :: "ptr \<Rightarrow> epoll"
  epoll_nodes :: "ptr \<Rightarrow> epoll_node"
  timers :: "ptr \<Rightarrow> etimer"
  timer_tree :: rbtree
  timer_now :: u64
  clock_src :: "nat \<Rightarrow> u64"
  clock_reads :: nat
  idle_breaks :: nat
  freed :: "ptr list"

text \<open>
  The platform: the monotonic clock is a stream of readings (\<open>clock_src\<close>), of which the
  next one is taken by each read; \<open>eh_idle_break\<close> is counted; \<open>eh_free\<close> records the pointer.
\<close>

definition eh_get_clock_monotonic_time :: "kernel \<Rightarrow> u64 \<times> kernel" where
  "eh_get_clock_monotonic_time k =
     (clock_src k (clock_reads k), k\<lparr>clock_reads := Suc (clock_reads k)\<rparr>)"

definition eh_idle_break :: "kernel \<Rightarrow> kernel" where
  "eh_idle_break k = k\<lparr>idle_breaks := Suc (idle_breaks k)\<rparr>"

definition k_free :: "ptr \<Rightarrow> kernel \<Rightarrow> kernel" where
  "k_free p k = k\<lparr>freed := p # freed k\<rparr>"

subsection \<open>Task lists\<close>

definition eh_task_get_current_state :: "kernel \<Rightarrow> task_state" where
  "eh_task_get_current_state k = t_state (tasks k (current_task k))"

definition set_task_state :: "ptr \<Rightarrow> task_state \<Rightarrow> kernel \<Rightarrow> kernel" where
  "set_task_state t s k = k\<lparr>tasks := (tasks k)(t := (tasks k t)\<lparr>t_state := s\<rparr>)\<rparr>"

definition eh_task_set_current_state :: "task_state \<Rightarrow> kernel \<Rightarrow> kernel" where
  "eh_task_set_current_state s k = set_task_state (current_task k) s k"

definition task_unlink :: "ptr \<Rightarrow> kernel \<Rightarrow> kernel" where
  "task_unlink t k =
     k\<lparr>ready_list := remove1 t (ready_list k),
       task_wait_list := remove1 t (task_wait_list k),
       task_finish_list := remove1 t (task_finish_list k),
       task_finish_auto_destruct_list := remove1 t (task_finish_auto_destruct_list k)\<rparr>"

definition task_move_next :: "ptr \<Rightarrow> kernel \<Rightarrow> kernel" where
  "task_move_next t k = (let k = task_unlink t k in k\<lparr>ready_list := t # ready_list k\<rparr>)"

definition task_move_last :: "ptr \<Rightarrow> kernel \<Rightarrow> kernel" where
  "task_move_last t k = (let k = task_unlink t k in k\<lparr>ready_list := ready_list k @ [t]\<rparr>)"

definition eh_task_wake_up :: "ptr \<Rightarrow> kernel \<Rightarrow> kernel" where
  "eh_task_wake_up t k =
     (if t_state (tasks k t) \<noteq> WAIT then k
      else
        (let k = eh_idle_break k;
             k = set_task_state t READY k
         in if t = current_task k then k
            else if is_system_task (tasks k t) then task_move_next t k
            else task_move_last t k))"

subsection \<open>Receptors\<close>

definition eh_event_receptor_init :: "ptr \<Rightarrow> ptr \<Rightarrow> kernel \<Rightarrow> kernel" where
  "eh_event_receptor_init r t k =
     k\<lparr>receptors := (receptors k)(r := \<lparr>r_wakeup = t, r_flags = 0\<rparr>),
       receptor_list := (\<lambda>e. remove1 r (receptor_list k e))\<rparr>"

definition eh_event_receptor_epoll_init :: "ptr \<Rightarrow> ptr \<Rightarrow> kernel \<Rightarrow> kernel" where
  "eh_event_receptor_epoll_init r ep k =
     k\<lparr>receptors := (receptors k)(r := \<lparr>r_wakeup = ep, r_flags = RECEPTOR_EPOLL\<rparr>),
       receptor_list := (\<lambda>e. remove1 r (receptor_list k e))\<rparr>"

definition eh_event_add_receptor_no_lock :: "ptr \<Rightarrow> ptr \<Rightarrow> kernel \<Rightarrow> kernel" where
  "eh_event_add_receptor_no_lock e r k =
     k\<lparr>receptor_list := (receptor_list k)(e := receptor_list k e @ [r])\<rparr>"

definition eh_event_remove_receptor_no_lock :: "ptr \<Rightarrow> kernel \<Rightarrow> kernel" where
  "eh_event_remove_receptor_no_lock r k = k\<lparr>receptor_list := (\<lambda>e. remove1 r (receptor_list k e))\<rparr>"

definition set_receptor_flag :: "ptr \<Rightarrow> u32 \<Rightarrow> kernel \<Rightarrow> kernel" where
  "set_receptor_flag r f k =
     k\<lparr>receptors := (receptors k)(r := (receptors k r)\<lparr>r_flags := r_flags (receptors k r) OR f\<rparr>)\<rparr>"

definition clear_receptor_flags :: "ptr \<Rightarrow> u32 \<Rightarrow> kernel \<Rightarrow> kernel" where
  "clear_receptor_flags r f k =
     k\<lparr>receptors := (receptors k)(r := (receptors k r)\<lparr>r_flags := r_flags (receptors k r) AND NOT f\<rparr>)\<rparr>"

definition r_trigger :: "receptor \<Rightarrow> bool" where
  "r_trigger r \<longleftrightarrow> r_flags r AND RECEPTOR_TRIGGER \<noteq> 0"

definition r_error :: "receptor \<Rightarrow> bool" where
  "r_error r \<longleftrightarrow> r_flags r AND RECEPTOR_ERROR \<noteq> 0"

definition r_uepoll :: "receptor \<Rightarrow> bool" where
  "r_uepoll r \<longleftrightarrow> r_flags r AND RECEPTOR_EPOLL \<noteq> 0"

definition r_any :: "receptor \<Rightarrow> bool" where
  "r_any r \<longleftrightarrow> r_flags r AND RECEPTOR_MASK \<noteq> 0"

definition epoll_pending_add :: "ptr \<Rightarrow> ptr \<Rightarrow> kernel \<Rightarrow> kernel" where
  "epoll_pending_add ep r k =
     (if r \<in> set (e_pending (epolls k ep)) then k
      else k\<lparr>epolls := (epolls k)(ep := (epolls k ep)\<lparr>e_pending := e_pending (epolls k ep) @ [r]\<rparr>)\<rparr>)"

definition eh_event_trigger_receptor_no_lock :: "ptr \<Rightarrow> kernel \<Rightarrow> kernel" where
  "eh_event_trigger_receptor_no_lock r k =
     (let w = r_wakeup (receptors k r)
      in if w = NULL then k
         else if r_uepoll (receptors k r) then
           (let k = epoll_pending_add w r k
            in if e_wakeup (epolls k w) \<noteq> NULL then eh_task_wake_up (e_wakeup (epolls k w)) k else k)
         else eh_task_wake_up w k)"

subsection \<open>Events\<close>

definition eh_event_init :: "ptr \<Rightarrow> kernel \<Rightarrow> int \<times> kernel" where
  "eh_event_init e k =
     (if e = NULL then (EH_RET_INVALID_PARAM, k)
      else (EH_RET_OK, k\<lparr>receptor_list := (receptor_list k)(e := [])\<rparr>))"

fun notify_receptors :: "ptr list \<Rightarrow> kernel \<Rightarrow> kernel" where
  "notify_receptors [] k = k"
| "notify_receptors (r # rs) k =
     notify_receptors rs
       (eh_event_trigger_receptor_no_lock r (set_receptor_flag r RECEPTOR_TRIGGER k))"

definition eh_event_notify :: "ptr \<Rightarrow> kernel \<Rightarrow> int \<times> kernel" where
  "eh_event_notify e k =
     (if e = NULL then (EH_RET_INVALID_PARAM, k)
      else (EH_RET_OK, notify_receptors (receptor_list k e) k))"

fun clean_receptors :: "ptr list \<Rightarrow> kernel \<Rightarrow> kernel" where
  "clean_receptors [] k = k"
| "clean_receptors (r # rs) k =
     clean_receptors rs
       (eh_event_remove_receptor_no_lock r
         (eh_event_trigger_receptor_no_lock r (set_receptor_flag r RECEPTOR_ERROR k)))"

definition eh_event_clean :: "ptr \<Rightarrow> kernel \<Rightarrow> kernel" where
  "eh_event_clean e k = (if e = NULL then k else clean_receptors (receptor_list k e) k)"

text \<open>
  \<open>eh_event_notify_and_reorder\<close> triggers the first \<open>num\<close> receptors and then moves the list
  head behind the last one of them, which rotates the list.
\<close>

definition eh_event_notify_and_reorder :: "ptr \<Rightarrow> int \<Rightarrow> kernel \<Rightarrow> int \<times> kernel" where
  "eh_event_notify_and_reorder e num k =
     (if e = NULL then (EH_RET_INVALID_PARAM, k)
      else if num \<le> 0 then (EH_RET_OK, k)
      else
        (let rs = receptor_list k e;
             k = notify_receptors (take (nat num) rs) k
         in (EH_RET_OK,
             k\<lparr>receptor_list := (receptor_list k)(e := drop (nat num) rs @ take (nat num) rs)\<rparr>)))"

subsection \<open>What the operations leave alone\<close>

lemma set_task_state_simps [simp]:
  "tasks (set_task_state t s k) = (tasks k)(t := (tasks k t)\<lparr>t_state := s\<rparr>)"
  "current_task (set_task_state t s k) = current_task k"
  "ready_list (set_task_state t s k) = ready_list k"
  "task_wait_list (set_task_state t s k) = task_wait_list k"
  "task_finish_list (set_task_state t s k) = task_finish_list k"
  "task_finish_auto_destruct_list (set_task_state t s k) = task_finish_auto_destruct_list k"
  "receptor_list (set_task_state t s k) = receptor_list k"
  "receptors (set_task_state t s k) = receptors k"
  "epolls (set_task_state t s k) = epolls k"
  "epoll_nodes (set_task_state t s k) = epoll_nodes k"
  "timers (set_task_state t s k) = timers k" "timer_tree (set_task_state t s k) = timer_tree k"
  "timer_now (set_task_state t s k) = timer_now k"
  "main_task (set_task_state t s k) = main_task k"
  "loop_poll_task (set_task_state t s k) = loop_poll_task k"
  "dispatch_cnt (set_task_state t s k) = dispatch_cnt k"
  "clock_src (set_task_state t s k) = clock_src k"
  "clock_reads (set_task_state t s k) = clock_reads k"
  by (simp_all add: set_task_state_def)

definition linked :: "kernel \<Rightarrow> ptr list" where
  "linked k = ready_list k @ task_wait_list k @ task_finish_list k @ task_finish_auto_destruct_list k"

lemma idle_break_fields [simp]:
  "current_task (eh_idle_break k) = current_task k" "tasks (eh_idle_break k) = tasks k"
  "linked (eh_idle_break k) = linked k" "ready_list (eh_idle_break k) = ready_list k"
  by (simp_all add: eh_idle_break_def linked_def)

text \<open>
  \<open>sched_eq k k'\<close>: two states agree on everything but the task states, the task lists and
  the count of idle breaks, which is what waking tasks changes.
\<close>

definition sched_eq :: "kernel \<Rightarrow> kernel \<Rightarrow> bool" where
  "sched_eq k k' \<longleftrightarrow>
     current_task k' = current_task k \<and> main_task k' = main_task k \<and> receptor_list k' = receptor_list k
     \<and> receptors k' = receptors k \<and> epolls k' = epolls k \<and> epoll_nodes k' = epoll_nodes k
     \<and> timers k' = timers k \<and> timer_tree k' = timer_tree k \<and> timer_now k' = timer_now k
     \<and> loop_poll_task k' = loop_poll_task k \<and> dispatch_cnt k' = dispatch_cnt k \<and> idle_time k' = idle_time k
     \<and> freed k' = freed k \<and> clock_src k' = clock_src k \<and> clock_reads k' = clock_reads k"

lemma sched_eq_refl [simp]: "sched_eq k k"
  by (simp add: sched_eq_def)

lemma sched_eq_trans: "sched_eq k k' \<Longrightarrow> sched_eq k' k'' \<Longrightarrow> sched_eq k k''"
  by (simp add: sched_eq_def)

lemma sched_eq_fields:
  assumes "sched_eq k k'"
  shows
    "current_task k' = current_task k" "main_task k' = main_task k" "receptor_list k' = receptor_list k"
    "receptors k' = receptors k" "epolls k' = epolls k" "epoll_nodes k' = epoll_nodes k"
    "timers k' = timers k" "timer_tree k' = timer_tree k" "timer_now k' = timer_now k"
    "loop_poll_task k' = loop_poll_task k" "dispatch_cnt k' = dispatch_cnt k" "idle_time k' = idle_time k"
    "freed k' = freed k" "clock_src k' = clock_src k" "clock_reads k' = clock_reads k"
  using assms by (simp_all add: sched_eq_def)

lemma wake_up_sched_eq: "sched_eq k (eh_task_wake_up t k)"
  by (simp add: eh_task_wake_up_def task_move_next_def task_move_last_def task_unlink_def
      eh_idle_break_def set_task_state_def Let_def sched_eq_def)

lemmas wake_up_fields [simp] = sched_eq_fields[OF wake_up_sched_eq]

subsection \<open>Waking tasks\<close>

text \<open>
  The effect of waking: some waiting tasks become ready. \<open>woken T k k'\<close> says that exactly the
  waiting tasks in \<open>T\<close> were woken, that nothing else of any task changed, and that the ready
  list keeps the tasks it had in their order, with woken system tasks in front and the other
  woken tasks behind them.
\<close>

definition woken :: "ptr set \<Rightarrow> kernel \<Rightarrow> kernel \<Rightarrow> bool" where
  "woken T k k' \<longleftrightarrow>
     tasks k' = (\<lambda>t. if t \<in> T \<and> t_state (tasks k t) = WAIT then (tasks k t)\<lparr>t_state := READY\<rparr>
                     else tasks k t)"

text \<open>
  The invariant of the scheduler: no task is on two lists or twice on one, the current task
  is on none but the ring it heads, and the list of a task tells its state.
\<close>

definition sched_inv :: "kernel \<Rightarrow> bool" where
  "sched_inv k \<longleftrightarrow>
     distinct (current_task k # linked k)
     \<and> (\<forall>t\<in>set (ready_list k). t_state (tasks k t) = READY)
     \<and> (\<forall>t\<in>set (task_wait_list k). t_state (tasks k t) = WAIT)
     \<and> (\<forall>t\<in>set (task_finish_list k). t_state (tasks k t) = FINISH)
     \<and> (\<forall>t\<in>set (task_finish_auto_destruct_list k). t_state (tasks k t) = FINISH)"

lemma wake_up_woken: "woken {t} k (eh_task_wake_up t k)"
  by (auto simp: woken_def eh_task_wake_up_def task_move_next_def task_move_last_def task_unlink_def
      eh_idle_break_def set_task_state_def Let_def fun_eq_iff)

lemma woken_refl: "woken {} k k"
  by (simp add: woken_def)

lemma woken_trans: "\<lbrakk>woken S k k'; woken T k' k''\<rbrakk> \<Longrightarrow> woken (S \<union> T) k k''"
  by (auto simp: woken_def fun_eq_iff)

lemma woken_state:
  assumes "woken T k k'"
  shows "t_state (tasks k' t) = (if t \<in> T \<and> t_state (tasks k t) = WAIT then READY else t_state (tasks k t))"
    and "t_flags (tasks k' t) = t_flags (tasks k t)"
  using assms by (auto simp: woken_def)

text \<open>Where a woken task goes: a system task runs next, another task after all ready ones.\<close>

lemma wake_up_ready_list:
  assumes "t_state (tasks k t) = WAIT" "t \<noteq> current_task k"
  shows "ready_list (eh_task_wake_up t k) =
    (if is_system_task (tasks k t) then t # remove1 t (ready_list k) else remove1 t (ready_list k) @ [t])"
  using assms
  by (simp add: eh_task_wake_up_def task_move_next_def task_move_last_def task_unlink_def
      eh_idle_break_def Let_def is_system_task_def)

lemma wake_up_ready_set:
  "set (ready_list k) \<subseteq> set (ready_list (eh_task_wake_up t k))"
  "t_state (tasks k t) = WAIT \<Longrightarrow> t = current_task k \<or> t \<in> set (ready_list (eh_task_wake_up t k))"
proof -
  have "x \<in> set xs \<Longrightarrow> x = t \<or> x \<in> set (remove1 t xs)" for x xs by (metis in_set_remove1)
  then show "set (ready_list k) \<subseteq> set (ready_list (eh_task_wake_up t k))"
    by (auto simp: eh_task_wake_up_def task_move_next_def task_move_last_def task_unlink_def
        eh_idle_break_def Let_def)
  show "t_state (tasks k t) = WAIT \<Longrightarrow> t = current_task k \<or> t \<in> set (ready_list (eh_task_wake_up t k))"
    by (cases "t = current_task k") (auto simp: wake_up_ready_list)
qed

lemma wake_up_not_waiting: "t_state (tasks k t) \<noteq> WAIT \<Longrightarrow> eh_task_wake_up t k = k"
  by (simp add: eh_task_wake_up_def)

lemma sched_inv_wait_notin:
  assumes "sched_inv k" "t_state (tasks k t) = WAIT"
  shows "t \<notin> set (ready_list k)" "t \<notin> set (task_finish_list k)" "t \<notin> set (task_finish_auto_destruct_list k)"
  using assms by (auto simp: sched_inv_def)

theorem wake_up_inv: 
  assumes "sched_inv k"
  shows "sched_inv (eh_task_wake_up t k)"
proof (cases "t_state (tasks k t) = WAIT")
  case True
  note n = sched_inv_wait_notin[OF assms True]
  show ?thesis
  proof (cases "t = current_task k")
    case True
    then show ?thesis
      using assms by (auto simp: sched_inv_def linked_def eh_task_wake_up_def eh_idle_break_def Let_def)
  next
    case False
    then have "sched_inv (task_move_next t (set_task_state t READY (eh_idle_break k)))"
      "sched_inv (task_move_last t (set_task_state t READY (eh_idle_break k)))"
      using assms n
      by (auto simp: sched_inv_def linked_def task_move_next_def task_move_last_def task_unlink_def
          eh_idle_break_def Let_def remove1_idem set_remove1_eq)
    then show ?thesis using True False by (simp add: eh_task_wake_up_def Let_def)
  qed
qed (simp add: wake_up_not_waiting assms)

subsection \<open>Triggering receptors\<close>

definition event_eq :: "kernel \<Rightarrow> kernel \<Rightarrow> bool" where
  "event_eq k k' \<longleftrightarrow>
     current_task k' = current_task k \<and> main_task k' = main_task k \<and> receptor_list k' = receptor_list k
     \<and> epoll_nodes k' = epoll_nodes k \<and> timers k' = timers k \<and> timer_tree k' = timer_tree k
     \<and> timer_now k' = timer_now k \<and> loop_poll_task k' = loop_poll_task k
     \<and> dispatch_cnt k' = dispatch_cnt k \<and> idle_time k' = idle_time k \<and> freed k' = freed k
     \<and> clock_src k' = clock_src k \<and> clock_reads k' = clock_reads k"

lemma event_eq_refl [simp]: "event_eq k k"
  by (simp add: event_eq_def)

lemma event_eq_trans: "event_eq k k' \<Longrightarrow> event_eq k' k'' \<Longrightarrow> event_eq k k''"
  by (simp add: event_eq_def)

lemma sched_event_eq: "sched_eq k k' \<Longrightarrow> event_eq k k'"
  by (simp add: sched_eq_def event_eq_def)

text \<open>The task a receptor wakes, if any: its own, or the one waiting on its poller.\<close>

definition wake_target :: "kernel \<Rightarrow> ptr \<Rightarrow> ptr set" where
  "wake_target k r =
     (let w = r_wakeup (receptors k r)
      in if w = NULL then {}
         else if r_uepoll (receptors k r) then
           (if e_wakeup (epolls k w) \<noteq> NULL then {e_wakeup (epolls k w)} else {})
         else {w})"

definition is_poll_receptor :: "kernel \<Rightarrow> ptr \<Rightarrow> ptr \<Rightarrow> bool" where
  "is_poll_receptor k ep r \<longleftrightarrow> r_wakeup (receptors k r) = ep \<and> ep \<noteq> NULL \<and> r_uepoll (receptors k r)"

lemma set_receptor_flag_fields [simp]:
  "event_eq k (set_receptor_flag r f k)"
  "tasks (set_receptor_flag r f k) = tasks k" "epolls (set_receptor_flag r f k) = epolls k"
  "ready_list (set_receptor_flag r f k) = ready_list k" "current_task (set_receptor_flag r f k) = current_task k"
  "linked (set_receptor_flag r f k) = linked k"
  "receptor_list (set_receptor_flag r f k) = receptor_list k"
  "r_wakeup (receptors (set_receptor_flag r f k) x) = r_wakeup (receptors k x)"
  by (simp_all add: set_receptor_flag_def event_eq_def linked_def)

lemma sched_inv_frame:
  assumes "tasks k' = tasks k" "current_task k' = current_task k" "ready_list k' = ready_list k"
    "task_wait_list k' = task_wait_list k" "task_finish_list k' = task_finish_list k"
    "task_finish_auto_destruct_list k' = task_finish_auto_destruct_list k"
  shows "sched_inv k' = sched_inv k"
  using assms by (simp add: sched_inv_def linked_def)

lemma set_receptor_flag_inv [simp]: "sched_inv (set_receptor_flag r f k) = sched_inv k"
  by (rule sched_inv_frame) (simp_all add: set_receptor_flag_def)

lemma flag_keeps_uepoll:
  "f = RECEPTOR_TRIGGER \<or> f = RECEPTOR_ERROR \<Longrightarrow>
   r_uepoll (receptors (set_receptor_flag r f k) x) = r_uepoll (receptors k x)"
proof -
  have "(w OR 1) AND 4 = w AND (4 :: u32)" "(w OR 2) AND 4 = w AND (4 :: u32)" for w
    by (simp_all add: bit.conj_disj_distrib2)
  then show "f = RECEPTOR_TRIGGER \<or> f = RECEPTOR_ERROR \<Longrightarrow> ?thesis"
    by (auto simp: set_receptor_flag_def r_uepoll_def RECEPTOR_TRIGGER_def RECEPTOR_ERROR_def RECEPTOR_EPOLL_def)
qed

lemma pending_add_fields [simp]:
  "event_eq k (epoll_pending_add ep r k)" "tasks (epoll_pending_add ep r k) = tasks k"
  "receptors (epoll_pending_add ep r k) = receptors k"
  "e_wakeup (epolls (epoll_pending_add ep r k) x) = e_wakeup (epolls k x)"
  "e_tree (epolls (epoll_pending_add ep r k) x) = e_tree (epolls k x)"
  by (simp_all add: epoll_pending_add_def event_eq_def)

lemma pending_add_inv [simp]: "sched_inv (epoll_pending_add ep r k) = sched_inv k"
  by (rule sched_inv_frame) (simp_all add: epoll_pending_add_def)

lemma trigger_receptor_effect:
  defines "k' \<equiv> \<lambda>r k. eh_event_trigger_receptor_no_lock r k"
  shows "event_eq k (k' r k)" "receptors (k' r k) = receptors k" "woken (wake_target k r) k (k' r k)"
    and "sched_inv k \<Longrightarrow> sched_inv (k' r k)"
    and "e_wakeup (epolls (k' r k) ep) = e_wakeup (epolls k ep)" "e_tree (epolls (k' r k) ep) = e_tree (epolls k ep)"
    and "e_pending (epolls (k' r k) ep) =
           (if is_poll_receptor k ep r \<and> r \<notin> set (e_pending (epolls k ep))
            then e_pending (epolls k ep) @ [r] else e_pending (epolls k ep))"
    and "set (ready_list k) \<subseteq> set (ready_list (k' r k))"
    and "\<lbrakk>t \<in> wake_target k r; t_state (tasks k t) = WAIT\<rbrakk> \<Longrightarrow> t = current_task k \<or> t \<in> set (ready_list (k' r k))"
proof -
  let ?p = "epoll_pending_add (r_wakeup (receptors k r)) r k"
  have wk: "tasks ?p = tasks k" by simp
  show "event_eq k (k' r k)"
    unfolding k'_def eh_event_trigger_receptor_no_lock_def Let_def
    by (auto intro: event_eq_trans[OF pending_add_fields(1)] sched_event_eq wake_up_sched_eq)
  show "receptors (k' r k) = receptors k"
    by (simp add: k'_def eh_event_trigger_receptor_no_lock_def Let_def)
  show "woken (wake_target k r) k (k' r k)"
    using wake_up_woken[of "e_wakeup (epolls k (r_wakeup (receptors k r)))" ?p] wake_up_woken[of _ k] woken_refl[of k]
    by (auto simp: k'_def eh_event_trigger_receptor_no_lock_def Let_def wake_target_def woken_def)
  show "sched_inv k \<Longrightarrow> sched_inv (k' r k)"
    by (simp add: k'_def eh_event_trigger_receptor_no_lock_def Let_def wake_up_inv)
  show "e_wakeup (epolls (k' r k) ep) = e_wakeup (epolls k ep)" "e_tree (epolls (k' r k) ep) = e_tree (epolls k ep)"
    by (simp_all add: k'_def eh_event_trigger_receptor_no_lock_def Let_def)
  show "e_pending (epolls (k' r k) ep) =
           (if is_poll_receptor k ep r \<and> r \<notin> set (e_pending (epolls k ep))
            then e_pending (epolls k ep) @ [r] else e_pending (epolls k ep))"
    by (auto simp: k'_def eh_event_trigger_receptor_no_lock_def Let_def is_poll_receptor_def epoll_pending_add_def)
  have rl: "ready_list ?p = ready_list k" "current_task ?p = current_task k"
    by (simp_all add: epoll_pending_add_def)
  show "set (ready_list k) \<subseteq> set (ready_list (k' r k))"
    using wake_up_ready_set(1)[of ?p] wake_up_ready_set(1)[of k] rl
    by (auto simp: k'_def eh_event_trigger_receptor_no_lock_def Let_def)
  show "\<lbrakk>t \<in> wake_target k r; t_state (tasks k t) = WAIT\<rbrakk> \<Longrightarrow> t = current_task k \<or> t \<in> set (ready_list (k' r k))"
    using wake_up_ready_set(2)[of ?p t] wake_up_ready_set(2)[of k t] rl wk
    by (auto simp: k'_def eh_event_trigger_receptor_no_lock_def Let_def wake_target_def split: if_splits)
qed

text \<open>A notification, receptor by receptor.\<close>

definition notified :: "ptr list \<Rightarrow> kernel \<Rightarrow> kernel \<Rightarrow> bool" where
  "notified rs k k' \<longleftrightarrow>
     event_eq k k' \<and> woken (\<Union>r\<in>set rs. wake_target k r) k k' \<and> (sched_inv k \<longrightarrow> sched_inv k')
     \<and> receptors k' = (\<lambda>r. if r \<in> set rs
         then (receptors k r)\<lparr>r_flags := r_flags (receptors k r) OR RECEPTOR_TRIGGER\<rparr> else receptors k r)
     \<and> (\<forall>ep. e_wakeup (epolls k' ep) = e_wakeup (epolls k ep)
           \<and> e_tree (epolls k' ep) = e_tree (epolls k ep)
           \<and> e_pending (epolls k' ep) = e_pending (epolls k ep)
               @ filter (\<lambda>r. is_poll_receptor k ep r \<and> r \<notin> set (e_pending (epolls k ep))) rs)
     \<and> set (ready_list k) \<subseteq> set (ready_list k')
     \<and> (\<forall>t\<in>\<Union>r\<in>set rs. wake_target k r. t_state (tasks k t) = WAIT \<longrightarrow>
          t = current_task k \<or> t \<in> set (ready_list k'))"

lemma notify_receptors_effect: "distinct rs \<Longrightarrow> notified rs k (notify_receptors rs k)"
proof (induction rs arbitrary: k)
  case Nil
  then show ?case by (simp add: notified_def woken_refl)
next
  case (Cons r rs)
  define k1 where "k1 = set_receptor_flag r RECEPTOR_TRIGGER k"
  define k2 where "k2 = eh_event_trigger_receptor_no_lock r k1"
  note eff = trigger_receptor_effect[where r = r and k = k1, folded k2_def]
  have k1: "event_eq k k1" "tasks k1 = tasks k" "epolls k1 = epolls k" "sched_inv k1 = sched_inv k"
    "\<And>x. r_wakeup (receptors k1 x) = r_wakeup (receptors k x)"
    "\<And>x. r_uepoll (receptors k1 x) = r_uepoll (receptors k x)"
    by (simp_all add: k1_def flag_keeps_uepoll)
  have wt: "wake_target k1 x = wake_target k x" "wake_target k2 x = wake_target k x" for x
    using k1 eff(2,5) by (simp_all add: wake_target_def Let_def)
  have ip: "is_poll_receptor k1 ep x = is_poll_receptor k ep x" "is_poll_receptor k2 ep x = is_poll_receptor k ep x"
    for ep x using k1 eff(2) by (simp_all add: is_poll_receptor_def)
  have unfold: "notify_receptors (r # rs) k = notify_receptors rs k2" by (simp add: k2_def k1_def)
  have d: "r \<notin> set rs" "distinct rs" using Cons.prems by auto
  have IH: "notified rs k2 (notify_receptors rs k2)" by (rule Cons.IH[OF d(2)])
  have wk: "woken (wake_target k r) k k2" using eff(3) unfolding woken_def wt k1(2) .
  have "woken (\<Union>r\<in>set (r # rs). wake_target k r) k (notify_receptors rs k2)"
    using woken_trans[OF wk, of "\<Union>r\<in>set rs. wake_target k2 r"] IH by (simp add: wt notified_def)
  moreover have "event_eq k (notify_receptors rs k2)"
    using event_eq_trans[OF k1(1) event_eq_trans[OF eff(1)]] IH by (simp add: notified_def)
  moreover have "receptors (notify_receptors rs k2) = (\<lambda>x. if x \<in> set (r # rs)
     then (receptors k x)\<lparr>r_flags := r_flags (receptors k x) OR RECEPTOR_TRIGGER\<rparr> else receptors k x)"
    using IH d(1) eff(2) by (auto simp: notified_def k1_def set_receptor_flag_def fun_eq_iff)
  moreover have "e_pending (epolls (notify_receptors rs k2) ep) = e_pending (epolls k ep)
      @ filter (\<lambda>x. is_poll_receptor k ep x \<and> x \<notin> set (e_pending (epolls k ep))) (r # rs)" for ep
  proof -
    have pend: "e_pending (epolls k2 ep) = (if is_poll_receptor k ep r \<and> r \<notin> set (e_pending (epolls k ep))
            then e_pending (epolls k ep) @ [r] else e_pending (epolls k ep))"
      using eff(7)[where ep = ep] k1(3) by (simp add: ip)
    then have "filter (\<lambda>x. is_poll_receptor k ep x \<and> x \<notin> set (e_pending (epolls k2 ep))) rs
       = filter (\<lambda>x. is_poll_receptor k ep x \<and> x \<notin> set (e_pending (epolls k ep))) rs"
      using d(1) by (intro filter_cong) (auto split: if_splits)
    then show ?thesis using IH pend by (simp add: notified_def ip)
  qed
  moreover have "sched_inv k \<Longrightarrow> sched_inv (notify_receptors rs k2)"
    using IH eff(4) k1(4) by (simp add: notified_def)
  moreover have "e_wakeup (epolls (notify_receptors rs k2) ep) = e_wakeup (epolls k ep)" for ep
    using IH eff(5) k1(3) by (simp add: notified_def)
  moreover have "e_tree (epolls (notify_receptors rs k2) ep) = e_tree (epolls k ep)" for ep
    using IH eff(6) k1(3) by (simp add: notified_def)
  moreover have rl: "set (ready_list k) \<subseteq> set (ready_list k2)" "set (ready_list k2) \<subseteq> set (ready_list (notify_receptors rs k2))"
    using IH eff(8) by (simp_all add: notified_def k1_def)
  moreover have "t = current_task k \<or> t \<in> set (ready_list (notify_receptors rs k2))"
    if t: "t \<in> (\<Union>r\<in>set (r # rs). wake_target k r)" "t_state (tasks k t) = WAIT" for t
  proof (cases "t \<in> wake_target k r")
    case True
    then have "t \<in> wake_target k1 r" by (simp add: wt)
    then have "t = current_task k1 \<or> t \<in> set (ready_list k2)"
      using eff(9)[where t = t] t(2) by (simp add: k1(2))
    then show ?thesis using rl(2) by (auto simp: k1_def)
  next
    case False
    then have "t_state (tasks k2 t) = WAIT" using woken_state(1)[OF wk] t(2) by simp
    moreover have "t \<in> (\<Union>r\<in>set rs. wake_target k2 r)" using t(1) False by (auto simp: wt)
    moreover have "current_task k2 = current_task k" using eff(1) by (simp add: event_eq_def k1_def)
    ultimately show ?thesis using IH by (auto simp: notified_def)
  qed
  ultimately show ?case unfolding unfold by (simp add: notified_def)
qed

text \<open>Cleaning an event: every receptor is put in error, its task woken, and unlinked.\<close>

definition cleaned :: "ptr list \<Rightarrow> kernel \<Rightarrow> kernel \<Rightarrow> bool" where
  "cleaned rs k k' \<longleftrightarrow>
     current_task k' = current_task k \<and> timers k' = timers k \<and> timer_tree k' = timer_tree k
     \<and> timer_now k' = timer_now k \<and> epoll_nodes k' = epoll_nodes k
     \<and> woken (\<Union>r\<in>set rs. wake_target k r) k k' \<and> (sched_inv k \<longrightarrow> sched_inv k')
     \<and> receptors k' = (\<lambda>r. if r \<in> set rs
         then (receptors k r)\<lparr>r_flags := r_flags (receptors k r) OR RECEPTOR_ERROR\<rparr> else receptors k r)
     \<and> receptor_list k' = (\<lambda>e. fold remove1 rs (receptor_list k e))
     \<and> (\<forall>ep. e_wakeup (epolls k' ep) = e_wakeup (epolls k ep) \<and> e_tree (epolls k' ep) = e_tree (epolls k ep))
     \<and> set (ready_list k) \<subseteq> set (ready_list k')
     \<and> (\<forall>t\<in>\<Union>r\<in>set rs. wake_target k r. t_state (tasks k t) = WAIT \<longrightarrow>
          t = current_task k \<or> t \<in> set (ready_list k'))"

lemma remove_receptor_fields [simp]:
  "tasks (eh_event_remove_receptor_no_lock r k) = tasks k"
  "receptors (eh_event_remove_receptor_no_lock r k) = receptors k"
  "epolls (eh_event_remove_receptor_no_lock r k) = epolls k"
  "epoll_nodes (eh_event_remove_receptor_no_lock r k) = epoll_nodes k"
  "timers (eh_event_remove_receptor_no_lock r k) = timers k"
  "timer_tree (eh_event_remove_receptor_no_lock r k) = timer_tree k"
  "timer_now (eh_event_remove_receptor_no_lock r k) = timer_now k"
  "current_task (eh_event_remove_receptor_no_lock r k) = current_task k"
  "ready_list (eh_event_remove_receptor_no_lock r k) = ready_list k"
  "linked (eh_event_remove_receptor_no_lock r k) = linked k"
  "receptor_list (eh_event_remove_receptor_no_lock r k) = (\<lambda>e. remove1 r (receptor_list k e))"
  by (simp_all add: eh_event_remove_receptor_no_lock_def linked_def)

lemma remove_receptor_inv [simp]: "sched_inv (eh_event_remove_receptor_no_lock r k) = sched_inv k"
  by (rule sched_inv_frame) (simp_all add: eh_event_remove_receptor_no_lock_def)

lemma clean_receptors_effect: "distinct rs \<Longrightarrow> cleaned rs k (clean_receptors rs k)"
proof (induction rs arbitrary: k)
  case Nil
  then show ?case by (simp add: cleaned_def woken_refl)
next
  case (Cons r rs)
  define k1 where "k1 = set_receptor_flag r RECEPTOR_ERROR k"
  define k2 where "k2 = eh_event_trigger_receptor_no_lock r k1"
  define k3 where "k3 = eh_event_remove_receptor_no_lock r k2"
  note eff = trigger_receptor_effect[where r = r and k = k1, folded k2_def]
  have k1: "event_eq k k1" "tasks k1 = tasks k" "epolls k1 = epolls k" "sched_inv k1 = sched_inv k"
    "\<And>x. r_wakeup (receptors k1 x) = r_wakeup (receptors k x)"
    "\<And>x. r_uepoll (receptors k1 x) = r_uepoll (receptors k x)"
    by (simp_all add: k1_def flag_keeps_uepoll)
  have ev: "event_eq k k2" using event_eq_trans[OF k1(1) eff(1)] .
  have wt: "wake_target k1 x = wake_target k x" "wake_target k3 x = wake_target k x" for x
    using k1 eff(2,5) by (simp_all add: wake_target_def Let_def k3_def)
  have unfold: "clean_receptors (r # rs) k = clean_receptors rs k3" by (simp add: k3_def k2_def k1_def)
  have d: "r \<notin> set rs" "distinct rs" using Cons.prems by auto
  define k' where "k' = clean_receptors rs k3"
  have IH: "cleaned rs k3 k'" unfolding k'_def by (rule Cons.IH[OF d(2)])
  have wk: "woken (wake_target k r) k k3" using eff(3) unfolding woken_def wt k1(2) k3_def by simp
  have "woken (\<Union>r\<in>set (r # rs). wake_target k r) k k'"
    using woken_trans[OF wk, of "\<Union>r\<in>set rs. wake_target k3 r"] IH by (simp add: wt cleaned_def)
  moreover have "receptors k' = (\<lambda>x. if x \<in> set (r # rs)
     then (receptors k x)\<lparr>r_flags := r_flags (receptors k x) OR RECEPTOR_ERROR\<rparr> else receptors k x)"
    using IH d(1) eff(2) by (auto simp: cleaned_def k3_def k1_def set_receptor_flag_def fun_eq_iff)
  moreover have "current_task k' = current_task k \<and> timers k' = timers k \<and> timer_tree k' = timer_tree k
     \<and> timer_now k' = timer_now k \<and> epoll_nodes k' = epoll_nodes k"
    using IH ev by (simp add: cleaned_def k3_def event_eq_def)
  moreover have "receptor_list k' = (\<lambda>e. fold remove1 (r # rs) (receptor_list k e))"
    using IH ev by (simp add: cleaned_def k3_def event_eq_def)
  moreover have "sched_inv k \<Longrightarrow> sched_inv k'" using IH eff(4) k1(4) by (simp add: cleaned_def k3_def)
  moreover have "e_wakeup (epolls k' ep) = e_wakeup (epolls k ep)" "e_tree (epolls k' ep) = e_tree (epolls k ep)" for ep
    using IH eff(5,6) k1(3) by (simp_all add: cleaned_def k3_def)
  moreover have rl: "set (ready_list k) \<subseteq> set (ready_list k3)" "set (ready_list k3) \<subseteq> set (ready_list k')"
    using IH eff(8) by (simp_all add: cleaned_def k1_def k3_def)
  moreover have "t = current_task k \<or> t \<in> set (ready_list k')"
    if t: "t \<in> (\<Union>r\<in>set (r # rs). wake_target k r)" "t_state (tasks k t) = WAIT" for t
  proof (cases "t \<in> wake_target k r")
    case True
    then have "t \<in> wake_target k1 r" by (simp add: wt)
    then have "t = current_task k1 \<or> t \<in> set (ready_list k3)"
      using eff(9)[where t = t] t(2) by (simp add: k1(2) k3_def)
    then show ?thesis using rl(2) by (auto simp: k1_def)
  next
    case False
    then have "t_state (tasks k3 t) = WAIT" using woken_state(1)[OF wk] t(2) by simp
    moreover have "t \<in> (\<Union>r\<in>set rs. wake_target k3 r)" using t(1) False by (auto simp: wt)
    moreover have "current_task k3 = current_task k" using ev by (simp add: event_eq_def k3_def)
    ultimately show ?thesis using IH by (auto simp: cleaned_def)
  qed
  ultimately show ?case unfolding unfold k'_def[symmetric] by (simp add: cleaned_def)
qed

lemma fold_remove1_self: "distinct xs \<Longrightarrow> fold remove1 xs xs = []"
proof -
  have "fold remove1 ys (ys @ zs) = zs" for ys zs :: "'a list"
    by (induction ys) auto
  from this[of xs "[]"] show ?thesis by simp
qed

end
