(* ===== verification/Eh_Event_Spec.thy ===== *)
theory Eh_Event_Spec
  imports Eh_Kernel
begin

text \<open>
  What events promise: a notification reaches every receptor, cleaning an event reports an
  error to every receptor, and notifying one receptor at a time is fair.
\<close>

subsection \<open>A kernel for the examples\<close>

text \<open>
  Task 1 runs, task 2 waits for event 100 with receptor 201, and system task 3 waits for it
  on poller 300 with receptor 202.
\<close>

definition plain_task :: "task_state \<Rightarrow> u32 \<Rightarrow> task" where
  "plain_task s f =
     \<lparr>t_name = [], t_function = 0, t_arg = 0, t_stack_ptr = 0, t_stack = [], t_ret = 0, t_state = s,
      t_event = 0, t_system_data = 0, t_destruct = 0, t_flags = f\<rparr>"

definition empty_tree :: rbtree where
  "empty_tree = \<lparr>rb_node = 0, rb_leftmost = 0,
     rb_mem = (\<lambda>n. \<lparr>parent_and_color = 4 * n, rb_right = 0, rb_left = 0\<rparr>)\<rparr>"

definition demo :: kernel where
  "demo =
     \<lparr>tasks = (\<lambda>_. plain_task FINISH 0)(1 := plain_task RUNING 0, 2 := plain_task WAIT 0, 3 := plain_task WAIT 2),
      current_task = 1, main_task = 1, ready_list = [], task_wait_list = [2, 3], task_finish_list = [],
      task_finish_auto_destruct_list = [], loop_poll_task = [], dispatch_cnt = 1, idle_time = 0,
      receptor_list = (\<lambda>_. [])(100 := [201, 202]),
      receptors = (\<lambda>_. \<lparr>r_wakeup = 0, r_flags = 0\<rparr>)
        (201 := \<lparr>r_wakeup = 2, r_flags = 0\<rparr>, 202 := \<lparr>r_wakeup = 300, r_flags = 4\<rparr>),
      epolls = (\<lambda>_. \<lparr>e_pending = [], e_tree = empty_tree, e_wakeup = 0\<rparr>)
        (300 := \<lparr>e_pending = [], e_tree = empty_tree, e_wakeup = 3\<rparr>),
      epoll_nodes = (\<lambda>_. \<lparr>n_event = 0, n_userdata = 0\<rparr>), timers = (\<lambda>_. \<lparr>expire = 0, interval = 0, attrribute = 0\<rparr>),
      timer_tree = empty_tree, timer_now = 0, clock_src = (\<lambda>n. of_nat (10 * n)), clock_reads = 0,
      idle_breaks = 0, freed = []\<rparr>"

lemma demo_fields [simp]:
  "receptor_list demo 100 = [201, 202]" "current_task demo = 1" "ready_list demo = []"
  "tasks demo 2 = plain_task WAIT 0" "tasks demo 3 = plain_task WAIT 2" "tasks demo 1 = plain_task RUNING 0"
  "receptors demo 201 = \<lparr>r_wakeup = 2, r_flags = 0\<rparr>" "receptors demo 202 = \<lparr>r_wakeup = 300, r_flags = 4\<rparr>"
  "e_wakeup (epolls demo 300) = 3" "e_pending (epolls demo ep) = []" "timer_tree demo = empty_tree"
  "clock_src demo = (\<lambda>n. of_nat (10 * n))" "clock_reads demo = 0"
  by (simp_all add: demo_def)

lemma plain_task_fields [simp]: "t_state (plain_task s f) = s" "t_flags (plain_task s f) = f"
  by (simp_all add: plain_task_def)

lemma demo_inv: "sched_inv demo"
  by (simp add: sched_inv_def linked_def demo_def)

lemma flag_set [simp]:
  "r_trigger (r\<lparr>r_flags := r_flags r OR RECEPTOR_TRIGGER\<rparr>)"
  "r_error (r\<lparr>r_flags := r_flags r OR RECEPTOR_ERROR\<rparr>)"
proof -
  have "(w OR 1) AND 1 = (1 :: u32)" "(w OR 2) AND 2 = (2 :: u32)" for w
    by (simp_all add: bit.conj_disj_distrib2)
  then show "r_trigger (r\<lparr>r_flags := r_flags r OR RECEPTOR_TRIGGER\<rparr>)"
    "r_error (r\<lparr>r_flags := r_flags r OR RECEPTOR_ERROR\<rparr>)"
    by (simp_all add: r_trigger_def r_error_def RECEPTOR_TRIGGER_def RECEPTOR_ERROR_def)
qed

subsection \<open>Notification\<close>



text \<open>
  C5. \<open>eh_event_clean\<close> reports an error to every receptor of the event, makes every task that
  waits on one of them ready, and leaves the event without receptors.
\<close>

theorem event_clean_spec:
  assumes "e \<noteq> NULL" "distinct (receptor_list k e)" "sched_inv k"
  defines "k' \<equiv> eh_event_clean e k"
  shows "sched_inv k' \<and> receptor_list k' e = []
    \<and> (\<forall>r\<in>set (receptor_list k e). r_error (receptors k' r)
         \<and> (\<forall>t\<in>wake_target k r. t_state (tasks k t) = WAIT \<longrightarrow>
              t_state (tasks k' t) = READY \<and> (t = current_task k \<or> t \<in> set (ready_list k'))))
    \<and> (\<forall>t. t \<notin> (\<Union>r\<in>set (receptor_list k e). wake_target k r) \<longrightarrow> tasks k' t = tasks k t)"
proof -
  have n: "cleaned (receptor_list k e) k k'"
    using clean_receptors_effect[OF assms(2), of k] assms(1) by (simp add: k'_def eh_event_clean_def)
  have w: "woken (\<Union>r\<in>set (receptor_list k e). wake_target k r) k k'" using n by (simp add: cleaned_def)
  show ?thesis
    using n assms(3) woken_state(1)[OF w] w fold_remove1_self[OF assms(2)]
    by (auto simp: cleaned_def woken_def)
qed

lemma event_clean_spec_witness:
  "receptor_list (eh_event_clean 100 demo) 100 = [] \<and> r_error (receptors (eh_event_clean 100 demo) 201)
   \<and> t_state (tasks (eh_event_clean 100 demo) 2) = READY"
proof -
  have w: "2 \<in> wake_target demo 201" by (simp add: wake_target_def r_uepoll_def RECEPTOR_EPOLL_def)
  show ?thesis using event_clean_spec[of 100 demo, OF _ _ demo_inv] w by fastforce
qed

subsection \<open>Notifying one receptor at a time\<close>

definition notify_one :: "ptr \<Rightarrow> kernel \<Rightarrow> kernel" where
  "notify_one e k = snd (eh_event_notify_and_reorder e 1 k)"

lemma notify_one_effect:
  assumes "e \<noteq> NULL" "receptor_list k e = r # rs"
  shows "receptor_list (notify_one e k) = (receptor_list k)(e := rs @ [r])"
    and "receptors (notify_one e k) = (receptors k)(r := (receptors k r)\<lparr>r_flags := r_flags (receptors k r) OR RECEPTOR_TRIGGER\<rparr>)"
    and "sched_inv k \<Longrightarrow> sched_inv (notify_one e k)"
proof -
  define k1 where "k1 = notify_receptors [r] k"
  have n: "notified [r] k k1" unfolding k1_def by (rule notify_receptors_effect) simp
  have e: "notify_one e k = k1\<lparr>receptor_list := (receptor_list k1)(e := rs @ [r])\<rparr>"
    using assms by (simp add: notify_one_def eh_event_notify_and_reorder_def Let_def k1_def)
  show "receptor_list (notify_one e k) = (receptor_list k)(e := rs @ [r])"
    "receptors (notify_one e k) = (receptors k)(r := (receptors k r)\<lparr>r_flags := r_flags (receptors k r) OR RECEPTOR_TRIGGER\<rparr>)"
    unfolding e using n by (auto simp: notified_def event_eq_def)
  have "sched_inv (notify_one e k) = sched_inv k1" unfolding e by (rule sched_inv_frame) simp_all
  then show "sched_inv k \<Longrightarrow> sched_inv (notify_one e k)" using n by (simp add: notified_def)
qed

lemma flag_or_twice: "r_trigger r \<Longrightarrow> r_trigger (r\<lparr>r_flags := r_flags r OR RECEPTOR_TRIGGER\<rparr>)"
  by simp

text \<open>
  C6. Notifying one receptor at a time is fair: after \<open>n\<close> calls of \<open>eh_event_notify_and_reorder\<close>
  with \<open>num = 1\<close> the list of receptors is rotated by \<open>n\<close>, and exactly the first \<open>n\<close> receptors
  were triggered; so as many calls as there are receptors reach every one of them.
\<close>

theorem notify_one_fair:
  assumes "e \<noteq> NULL" "receptor_list k e = rs" "n \<le> length rs"
  shows "receptor_list ((notify_one e ^^ n) k) e = drop n rs @ take n rs
    \<and> (\<forall>r\<in>set (take n rs). r_trigger (receptors ((notify_one e ^^ n) k) r))
    \<and> (\<forall>r. r \<notin> set (take n rs) \<longrightarrow> receptors ((notify_one e ^^ n) k) r = receptors k r)"
  using assms(3)
proof (induction n)
  case (Suc n)
  let ?k = "(notify_one e ^^ n) k"
  have IH: "receptor_list ?k e = drop n rs @ take n rs"
    "\<forall>r\<in>set (take n rs). r_trigger (receptors ?k r)"
    "\<forall>r. r \<notin> set (take n rs) \<longrightarrow> receptors ?k r = receptors k r"
    using Suc by simp_all
  have n: "n < length rs" using Suc.prems by simp
  have l: "receptor_list ?k e = rs ! n # (drop (Suc n) rs @ take n rs)"
    using IH(1) Cons_nth_drop_Suc[OF n] by simp
  note ef = notify_one_effect[OF assms(1) l]
  have t: "take (Suc n) rs = take n rs @ [rs ! n]" by (rule take_Suc_conv_app_nth[OF n])
  show ?case using ef(1,2) IH(2,3) unfolding t by auto
qed (simp add: assms(2))

lemma notify_one_fair_witness:
  "receptor_list (notify_one 100 demo) 100 = [202, 201] \<and> r_trigger (receptors (notify_one 100 demo) 201)
   \<and> receptor_list ((notify_one 100 ^^ 2) demo) 100 = [201, 202] \<and> r_trigger (receptors ((notify_one 100 ^^ 2) demo) 202)"
  using notify_one_fair[of 100 demo "[201, 202]" 1] notify_one_fair[of 100 demo "[201, 202]" 2]
  by (simp add: numeral_2_eq_2)

end
