(* ===== verification/Eh_Clock.thy ===== *)
theory Eh_Clock
  imports Eh_Prelude
begin

text \<open>
  The conversions between clocks and milli- or microseconds of \<^verbatim>\<open>eh_core.c\<close>. The clock
  frequency \<open>EH_CONFIG_CLOCKS_PER_SEC\<close> is configured or read from the platform and is an
  argument. All values are 64-bit and wrap around.
\<close>

definition eh_msec_to_clock :: "u64 \<Rightarrow> u64 \<Rightarrow> u64" where
  "eh_msec_to_clock cps msec =
     (let clock = (msec div 1000) * cps;
          clock = clock + ((msec mod 1000) * cps) div 1000
      in if clock \<noteq> 0 then clock else (if msec \<noteq> 0 then 1 else 0))"

definition eh_usec_to_clock :: "u64 \<Rightarrow> u64 \<Rightarrow> u64" where
  "eh_usec_to_clock cps usec =
     (let clock = (usec div 1000000) * cps;
          clock = clock + ((usec mod 1000000) * cps) div 1000000
      in if clock \<noteq> 0 then clock else (if usec \<noteq> 0 then 1 else 0))"

definition eh_clock_to_msec :: "u64 \<Rightarrow> u64 \<Rightarrow> u64" where
  "eh_clock_to_msec cps clock =
     (let msec = (clock div cps) * 1000;
          msec = msec + ((clock mod cps) * 1000) div cps
      in if msec \<noteq> 0 then msec else (if clock \<noteq> 0 then 1 else 0))"

definition eh_clock_to_usec :: "u64 \<Rightarrow> u64 \<Rightarrow> u64" where
  "eh_clock_to_usec cps clock =
     (let usec = (clock div cps) * 1000000;
          usec = usec + ((clock mod cps) * 1000000) div cps
      in if usec \<noteq> 0 then usec else (if clock \<noteq> 0 then 1 else 0))"

text \<open>
  The shape the four functions share: \<open>(x div a) * b + ((x mod a) * b) div a\<close> is the exact
  floor of \<open>x * b / a\<close> as long as nothing wraps around.
\<close>

lemma split_scale: "(x::nat) div a * b + ((x mod a) * b) div a = x * b div a"
proof (cases "a = 0")
  case False
  have "x * b = (x div a * b) * a + (x mod a) * b"
    by (metis add.commute mod_mult_div_eq distrib_right mult.assoc mult.commute)
  then show ?thesis using False by (metis add.commute div_mult_self3 mult.commute)
qed simp

lemma unat_scale:
  fixes x a b :: u64
  assumes "a \<noteq> 0" "unat x * unat b div unat a < 2 ^ 64" "unat a * unat b < 2 ^ 64"
  shows "unat (x div a * b + ((x mod a) * b) div a) = unat x * unat b div unat a"
proof -
  let ?q = "unat x div unat a * unat b" and ?r = "(unat x mod unat a) * unat b div unat a"
  have s: "?q + ?r = unat x * unat b div unat a" by (rule split_scale)
  have lt: "unat x mod unat a < unat a" using assms(1) by (simp add: unat_gt_0 word_neq_0_conv)
  have "(unat x mod unat a) * unat b \<le> unat a * unat b"
    by (rule mult_le_mono1) (use lt in linarith)
  then have "(unat x mod unat a) * unat b < 2 ^ 64" by (rule le_less_trans[OF _ assms(3)])
  then have "unat (x mod a) * unat b < 2 ^ LENGTH(64)" by (simp add: unat_mod)
  from iffD1[OF unat_mult_lem this] have "unat ((x mod a) * b) = (unat x mod unat a) * unat b"
    by (simp add: unat_mod)
  then have r: "unat (((x mod a) * b) div a) = ?r" by (simp add: unat_div)
  have "unat (x div a) * unat b < 2 ^ LENGTH(64)" using s assms(2) by (simp add: unat_div)
  from iffD1[OF unat_mult_lem this] have q: "unat (x div a * b) = ?q" by (simp add: unat_div)
  have "unat (x div a * b) + unat (((x mod a) * b) div a) < 2 ^ LENGTH(64)"
    using q r s assms(2) by simp
  from iffD1[OF unat_add_lem this]
  have "unat (x div a * b + ((x mod a) * b) div a) = unat (x div a * b) + unat (((x mod a) * b) div a)" .
  then show ?thesis using q r s by simp
qed

text \<open>The conversion is the exact quotient, rounded down but never to 0 for a nonzero time.\<close>

lemma scale_nonzero:
  fixes x a b :: u64
  assumes "a \<noteq> 0" "unat x * unat b div unat a < 2 ^ 64" "unat a * unat b < 2 ^ 64"
  shows "unat (let c = x div a * b + ((x mod a) * b) div a in if c \<noteq> 0 then c else if x \<noteq> 0 then 1 else 0)
    = (if x = 0 then 0 else max 1 (unat x * unat b div unat a))"
proof -
  define c where "c = x div a * b + ((x mod a) * b) div a"
  have u: "unat c = unat x * unat b div unat a" unfolding c_def by (rule unat_scale[OF assms])
  have "c = 0 \<longleftrightarrow> unat c = 0" by (simp add: unat_eq_0)
  then show ?thesis unfolding c_def[symmetric] Let_def using u by (auto simp: max_def)
qed

end
