(* ===== verification/Eh_Timer.thy ===== *)
theory Eh_Timer
  imports Eh_Kernel Eh_Clock
begin

text \<open>
  The timers of \<^verbatim>\<open>eh_timer.c\<close>: a red-black tree of the running timers, ordered by the
  remaining time at the last reading of the clock. The event of a timer is its first member,
  so the event has the pointer of the timer; its tree node is named by the same pointer. The
  operations on the tree return an option (they follow pointers), and so do the timer
  operations.
\<close>

subsection \<open>Operations\<close>

definition FIRST_TIMER_UPDATE :: int where "FIRST_TIMER_UPDATE = 1"

definition EH_TIMER_ATTR_AUTO_CIRCULATION :: u32 where "EH_TIMER_ATTR_AUTO_CIRCULATION = 1"
definition EH_TIMER_ATTR_NOW_TIME_BASE :: u32 where "EH_TIMER_ATTR_NOW_TIME_BASE = 2"

definition eh_diff_time :: "u64 \<Rightarrow> u64 \<Rightarrow> int" where
  "eh_diff_time a b = sint (a - b)"

definition eh_remaining_time :: "u64 \<Rightarrow> etimer \<Rightarrow> int" where
  "eh_remaining_time now t = eh_diff_time (expire t) now"

definition eh_timer_rbtree_cmp :: "kernel \<Rightarrow> ptr \<Rightarrow> ptr \<Rightarrow> int" where
  "eh_timer_rbtree_cmp k a b =
     (let ra = eh_remaining_time (timer_now k) (timers k a);
          rb = eh_remaining_time (timer_now k) (timers k b)
      in if ra < rb then -1 else if ra > rb then 1 else 0)"

definition timer_node_is_empty :: "kernel \<Rightarrow> ptr \<Rightarrow> bool" where
  "timer_node_is_empty k t = eh_rb_node_is_empty (timer_tree k) t"

definition set_timer :: "ptr \<Rightarrow> etimer \<Rightarrow> kernel \<Rightarrow> kernel" where
  "set_timer t v k = k\<lparr>timers := (timers k)(t := v)\<rparr>"

definition update_timer_now :: "kernel \<Rightarrow> kernel" where
  "update_timer_now k = (let (now, k) = eh_get_clock_monotonic_time k in k\<lparr>timer_now := now\<rparr>)"

definition eh_timer_start_no_lock :: "u64 \<Rightarrow> ptr \<Rightarrow> kernel \<Rightarrow> (int \<times> kernel) option" where
  "eh_timer_start_no_lock base t k =
     (if \<not> timer_node_is_empty k t then Some (EH_RET_BUSY, k)
      else
        (let k = set_timer t ((timers k t)\<lparr>expire := base + interval (timers k t)\<rparr>) k
         in do {
              (first, tree) \<leftarrow> eh_rb_add (eh_timer_rbtree_cmp k) t (timer_tree k);
              Some (if first \<noteq> NULL then FIRST_TIMER_UPDATE else EH_RET_OK, k\<lparr>timer_tree := tree\<rparr>)
            }))"

definition timer_remove :: "ptr \<Rightarrow> kernel \<Rightarrow> kernel option" where
  "timer_remove t k =
     do {
       (_, tree) \<leftarrow> eh_rb_del t (timer_tree k);
       Some (k\<lparr>timer_tree := eh_rb_node_init t tree\<rparr>)
     }"

definition first_timer_max_time :: "u64 \<Rightarrow> int" where
  "first_timer_max_time cps = sint (eh_msec_to_clock cps (1000 * 60))"

definition eh_timer_get_first_remaining_time_on_lock :: "u64 \<Rightarrow> kernel \<Rightarrow> int \<times> kernel" where
  "eh_timer_get_first_remaining_time_on_lock cps k =
     (let k = update_timer_now k
      in if eh_rb_root_is_empty (timer_tree k) then (first_timer_max_time cps, k)
         else
           (let m = eh_diff_time (expire (timers k (eh_rb_first (timer_tree k)))) (timer_now k)
            in (if m < 0 then 0 else if m > first_timer_max_time cps then first_timer_max_time cps else m, k)))"

text \<open>One round of the loop of \<open>eh_timer_check\<close>: the first timer has expired.\<close>

definition timer_fire :: "ptr \<Rightarrow> kernel \<Rightarrow> kernel option" where
  "timer_fire t k =
     do {
       let (_, k) = eh_event_notify t k;
       k \<leftarrow> timer_remove t k;
       if attrribute (timers k t) AND EH_TIMER_ATTR_AUTO_CIRCULATION = 0 then Some k
       else
         (let tm = timers k t;
              base = (if attrribute tm AND EH_TIMER_ATTR_NOW_TIME_BASE \<noteq> 0 then timer_now k
                      else if eh_diff_time (expire tm + interval tm) (timer_now k) > 0 then expire tm
                      else timer_now k)
          in do { (_, k) \<leftarrow> eh_timer_start_no_lock base t k; Some k })
     }"

partial_function (option) timer_check_loop :: "kernel \<Rightarrow> kernel option" where
  "timer_check_loop k =
     (let t = eh_rb_first (timer_tree k)
      in if t \<noteq> NULL \<and> eh_remaining_time (timer_now k) (timers k t) \<le> 0
         then do { k \<leftarrow> timer_fire t k; timer_check_loop k }
         else Some k)"

definition eh_timer_check :: "kernel \<Rightarrow> kernel option" where
  "eh_timer_check k =
     (let k = update_timer_now k
      in if eh_rb_root_is_empty (timer_tree k) then Some k else timer_check_loop k)"

definition eh_timer_start :: "ptr \<Rightarrow> kernel \<Rightarrow> (int \<times> kernel) option" where
  "eh_timer_start t k =
     (if t = NULL then Some (EH_RET_INVALID_PARAM, k)
      else if sint (interval (timers k t)) < 0 then Some (EH_RET_INVALID_PARAM, k)
      else
        (let k = update_timer_now k
         in do {
              (ret, k) \<leftarrow> eh_timer_start_no_lock (timer_now k) t k;
              Some (ret, if ret = FIRST_TIMER_UPDATE then eh_idle_break k else k)
            }))"

definition eh_timer_stop :: "ptr \<Rightarrow> kernel \<Rightarrow> (int \<times> kernel) option" where
  "eh_timer_stop t k =
     (if t = NULL then Some (EH_RET_INVALID_PARAM, k)
      else if timer_node_is_empty k t then Some (EH_RET_OK, k)
      else do { k \<leftarrow> timer_remove t k; Some (EH_RET_OK, k) })"

definition eh_timer_restart :: "ptr \<Rightarrow> kernel \<Rightarrow> (int \<times> kernel) option" where
  "eh_timer_restart t k =
     (if t = NULL then Some (EH_RET_INVALID_PARAM, k)
      else if sint (interval (timers k t)) < 0 then Some (EH_RET_INVALID_PARAM, k)
      else
        (let k = update_timer_now k
         in do {
              k \<leftarrow> (if timer_node_is_empty k t then Some k else timer_remove t k);
              (ret, k) \<leftarrow> eh_timer_start_no_lock (timer_now k) t k;
              Some (ret, if ret = FIRST_TIMER_UPDATE then eh_idle_break k else k)
            }))"

definition eh_timer_advanced_init :: "ptr \<Rightarrow> u64 \<Rightarrow> u32 \<Rightarrow> kernel \<Rightarrow> int \<times> kernel" where
  "eh_timer_advanced_init t iv attr k =
     (if t = NULL then (EH_RET_INVALID_PARAM, k)
      else
        (let (ret, k) = eh_event_init t k
         in if ret < 0 then (ret, k)
            else (0, set_timer t \<lparr>expire = 0, interval = iv, attrribute = attr\<rparr>
                       (k\<lparr>timer_tree := eh_rb_node_init t (timer_tree k)\<rparr>))))"

definition eh_timer_init :: "ptr \<Rightarrow> kernel \<Rightarrow> int \<times> kernel" where
  "eh_timer_init t k = eh_timer_advanced_init t 0 0 k"

definition eh_timer_config_interval :: "ptr \<Rightarrow> u64 \<Rightarrow> kernel \<Rightarrow> kernel" where
  "eh_timer_config_interval t iv k = set_timer t ((timers k t)\<lparr>interval := iv\<rparr>) k"

definition eh_timer_set_attr :: "ptr \<Rightarrow> u32 \<Rightarrow> kernel \<Rightarrow> kernel" where
  "eh_timer_set_attr t attr k = set_timer t ((timers k t)\<lparr>attrribute := attr\<rparr>) k"

definition eh_timer_is_running :: "ptr \<Rightarrow> kernel \<Rightarrow> bool" where
  "eh_timer_is_running t k \<longleftrightarrow> \<not> timer_node_is_empty k t"

definition eh_timer_clean :: "ptr \<Rightarrow> kernel \<Rightarrow> kernel option" where
  "eh_timer_clean t k = do { (_, k) \<leftarrow> eh_timer_stop t k; Some (eh_event_clean t k) }"

definition eh_timer_interior_init :: "kernel \<Rightarrow> int \<times> kernel" where
  "eh_timer_interior_init k = (0, k\<lparr>timer_tree := eh_rb_root_init (timer_tree k)\<rparr>)"

end
