(* ===== verification/Eh_Timer_Lemmas.thy ===== *)
theory Eh_Timer_Lemmas
  imports Eh_Timer Eh_Event_Spec
begin

text \<open>
  The invariant of the timer tree and what the timer operations do to it. The key of a timer
  is its remaining time at the last reading of the clock; a reading of the clock keeps the
  order as long as no running timer is overdue by half the range of the clock.
\<close>

subsection \<open>The invariant\<close>

definition remaining :: "kernel \<Rightarrow> ptr \<Rightarrow> int" where
  "remaining k t = eh_remaining_time (timer_now k) (timers k t)"

definition timers_ok :: "kernel \<Rightarrow> ptr list \<Rightarrow> bool" where
  "timers_ok k ns \<longleftrightarrow> rb_rep (timer_tree k) ns \<and> by_key (remaining k) ns"

lemma timer_key_cmp: "key_cmp (remaining k) (eh_timer_rbtree_cmp k)"
  by (auto simp: key_cmp_def eh_timer_rbtree_cmp_def remaining_def Let_def)

lemma timers_ok_distinct: "timers_ok k ns \<Longrightarrow> distinct ns \<and> NULL \<notin> set ns"
  using rb_rep_distinct by (auto simp: timers_ok_def)

lemma rb_rep_node_not_empty: "\<lbrakk>rb_rep t ns; n \<in> set ns\<rbrakk> \<Longrightarrow> \<not> eh_rb_node_is_empty t n"
  by (metis not_node_empty rb_rep_focus split_list)

lemma rb_rep_node_init: "\<lbrakk>rb_rep t ns; n \<notin> set ns\<rbrakk> \<Longrightarrow> rb_rep (eh_rb_node_init n t) ns"
  by (rule rb_rep_unch[where A = "{n}"]) (auto simp: unch_def eh_rb_node_init_def)

lemma node_init_empty [simp]:
  "eh_rb_node_is_empty (eh_rb_node_init n t) m \<longleftrightarrow> m = n \<or> eh_rb_node_is_empty t m"
  by (auto simp: eh_rb_node_is_empty_def eh_rb_node_init_def pc_pack_def)

lemma by_key_cong: "(\<And>t. t \<in> set ns \<Longrightarrow> k t = k' t) \<Longrightarrow> by_key k ns = by_key k' ns"
  unfolding by_key_def by (induction ns) auto

lemma timers_ok_cong:
  assumes "timer_tree k' = timer_tree k" "\<And>t. t \<in> set ns \<Longrightarrow> remaining k' t = remaining k t"
  shows "timers_ok k' ns = timers_ok k ns"
  using by_key_cong[of ns "remaining k'" "remaining k"] assms by (simp add: timers_ok_def)

lemma by_key_shift: "(\<And>t. t \<in> set ns \<Longrightarrow> k' t = k t - d) \<Longrightarrow> by_key k ns \<Longrightarrow> by_key k' ns" for d :: int
  unfolding by_key_def by (induction ns) auto

subsection \<open>Reading the clock\<close>

lemma sint_diff_small:
  fixes a b :: u64
  assumes "- (2 ^ 63) \<le> sint a - uint b"
  shows "sint (a - b) = sint a - uint b"
proof -
  have lt: "sint a < 2 ^ 63" using sint_lt[of a] by simp
  have ge: "0 \<le> uint b" by simp
  have hi: "sint a - uint b < 2 ^ 63" using lt ge by linarith
  have "a - b = word_of_int (sint a - uint b)" by (simp flip: wi_hom_sub)
  then have "sint (a - b) = signed_take_bit 63 (sint a - uint b)"
    using sint_sbintrunc'[of "sint a - uint b", where 'a = 64] by simp
  moreover have "signed_take_bit 63 (sint a - uint b) = sint a - uint b"
    by (rule signed_take_bit_int_eq_self) (use assms hi in simp_all)
  ultimately show ?thesis by simp
qed

text \<open>How far the next reading is ahead of the last one, and the condition on it.\<close>

definition clock_step :: "kernel \<Rightarrow> u64" where
  "clock_step k = clock_src k (clock_reads k) - timer_now k"

definition in_time :: "kernel \<Rightarrow> ptr list \<Rightarrow> bool" where
  "in_time k ns \<longleftrightarrow> (\<forall>t\<in>set ns. - (2 ^ 63) \<le> remaining k t - uint (clock_step k))"

lemma update_now_fields [simp]:
  "timer_tree (update_timer_now k) = timer_tree k" "timers (update_timer_now k) = timers k"
  "receptor_list (update_timer_now k) = receptor_list k" "receptors (update_timer_now k) = receptors k"
  "tasks (update_timer_now k) = tasks k" "epolls (update_timer_now k) = epolls k"
  "current_task (update_timer_now k) = current_task k" "ready_list (update_timer_now k) = ready_list k"
  "timer_now (update_timer_now k) = clock_src k (clock_reads k)"
  "sched_inv (update_timer_now k) = sched_inv k" "wake_target (update_timer_now k) r = wake_target k r"
  by (simp_all add: update_timer_now_def eh_get_clock_monotonic_time_def wake_target_def Let_def
      sched_inv_def linked_def)

lemma remaining_update_now:
  assumes "- (2 ^ 63) \<le> remaining k t - uint (clock_step k)"
  shows "remaining (update_timer_now k) t = remaining k t - uint (clock_step k)"
proof -
  have e: "expire (timers k t) - clock_src k (clock_reads k) = (expire (timers k t) - timer_now k) - clock_step k"
    by (simp add: clock_step_def)
  have "remaining (update_timer_now k) t = sint (expire (timers k t) - timer_now k - clock_step k)"
    unfolding e[symmetric] by (simp add: remaining_def eh_remaining_time_def eh_diff_time_def)
  then show ?thesis
    using sint_diff_small[of "expire (timers k t) - timer_now k" "clock_step k"] assms
    by (simp add: remaining_def eh_remaining_time_def eh_diff_time_def)
qed

lemma update_now_ok:
  assumes "timers_ok k ns" "in_time k ns"
  shows "timers_ok (update_timer_now k) ns"
  using assms by_key_shift[of ns "remaining (update_timer_now k)" "remaining k" "uint (clock_step k)"]
  by (simp add: timers_ok_def in_time_def remaining_update_now)

subsection \<open>Starting and removing\<close>

lemma set_timer_fields [simp]:
  "timer_tree (set_timer t v k) = timer_tree k" "timer_now (set_timer t v k) = timer_now k"
  "timers (set_timer t v k) = (timers k)(t := v)"
  "receptor_list (set_timer t v k) = receptor_list k" "receptors (set_timer t v k) = receptors k"
  "tasks (set_timer t v k) = tasks k" "epolls (set_timer t v k) = epolls k"
  "current_task (set_timer t v k) = current_task k" "ready_list (set_timer t v k) = ready_list k"
  "sched_inv (set_timer t v k) = sched_inv k"
  by (simp_all add: set_timer_def sched_inv_def linked_def)

text \<open>
  \<open>timer_eq k k'\<close>: two states agree on everything that the timer tree and the timers'
  expiry times leave alone.
\<close>

definition timer_eq :: "kernel \<Rightarrow> kernel \<Rightarrow> bool" where
  "timer_eq k k' \<longleftrightarrow>
     timer_now k' = timer_now k \<and> tasks k' = tasks k \<and> current_task k' = current_task k
     \<and> ready_list k' = ready_list k \<and> receptor_list k' = receptor_list k \<and> receptors k' = receptors k
     \<and> epolls k' = epolls k \<and> sched_inv k' = sched_inv k \<and> clock_src k' = clock_src k \<and> clock_reads k' = clock_reads k
     \<and> (\<forall>t. interval (timers k' t) = interval (timers k t) \<and> attrribute (timers k' t) = attrribute (timers k t))"

definition started :: "u64 \<Rightarrow> ptr \<Rightarrow> ptr list \<Rightarrow> kernel \<Rightarrow> int \<Rightarrow> kernel \<Rightarrow> ptr list \<Rightarrow> bool" where
  "started base t ns k ret k' ns' \<longleftrightarrow>
     timers_ok k' ns' \<and> set ns' = insert t (set ns) \<and> timer_eq k k'
     \<and> timers k' = (timers k)(t := (timers k t)\<lparr>expire := base + interval (timers k t)\<rparr>)
     \<and> ret = (if \<forall>m\<in>set ns. remaining k' t < remaining k' m then FIRST_TIMER_UPDATE else EH_RET_OK)
     \<and> (\<forall>m. m \<notin> insert t (set ns) \<longrightarrow> rb_mem (timer_tree k') m = rb_mem (timer_tree k) m)"

lemma start_no_lock_effect:
  assumes ok: "timers_ok k ns" and e: "timer_node_is_empty k t" and n: "t \<noteq> NULL"
  shows "\<exists>ret k' ns'. eh_timer_start_no_lock base t k = Some (ret, k') \<and> started base t ns k ret k' ns'"
proof -
  have t: "t \<notin> set ns"
    using rb_rep_node_not_empty[of "timer_tree k" ns t] ok e by (auto simp: timers_ok_def timer_node_is_empty_def)
  define k1 where "k1 = set_timer t ((timers k t)\<lparr>expire := base + interval (timers k t)\<rparr>) k"
  have ok1: "timers_ok k1 ns"
    using timers_ok_cong[of k1 k ns] ok t by (fastforce simp: k1_def remaining_def)
  let ?lo = "filter (\<lambda>m. remaining k1 m \<le> remaining k1 t) ns" and ?up = "filter (\<lambda>m. remaining k1 t < remaining k1 m) ns"
  have lu: "lower (eh_timer_rbtree_cmp k1 t) ns = ?lo" "upper (eh_timer_rbtree_cmp k1 t) ns = ?up"
    "by_key (remaining k1) (?lo @ t # ?up)"
    using by_key_lower_upper[of "remaining k1" ns "eh_timer_rbtree_cmp k1" t] ok1 timer_key_cmp[of k1]
    by (simp_all add: timers_ok_def)
  obtain tree where add: "eh_rb_add (eh_timer_rbtree_cmp k1) t (timer_tree k1) = Some (if ?lo = [] then t else NULL, tree)"
    and rep: "rb_rep tree (?lo @ t # ?up)"
    and fr: "\<forall>m. m \<notin> insert t (set ns) \<longrightarrow> rb_mem tree m = rb_mem (timer_tree k1) m"
    using eh_rb_add_rep[of "timer_tree k1" ns t "eh_timer_rbtree_cmp k1"]
      by_key_cut[of "remaining k1" ns "eh_timer_rbtree_cmp k1" t] ok1 timer_key_cmp[of k1] t n lu
    by (auto simp: timers_ok_def)
  define ret where "ret = (if ?lo = [] then FIRST_TIMER_UPDATE else EH_RET_OK)"
  define k' where "k' = k1\<lparr>timer_tree := tree\<rparr>"
  have rem: "remaining k' = remaining k1" by (simp add: k'_def remaining_def fun_eq_iff)
  have "eh_timer_start_no_lock base t k = Some (ret, k')"
    using e add n by (simp add: eh_timer_start_no_lock_def k1_def[symmetric] Let_def ret_def k'_def)
  moreover have "started base t ns k ret k' (?lo @ t # ?up)"
  proof -
    have "timers_ok k' (?lo @ t # ?up)" using rep lu(3) rem by (simp add: timers_ok_def k'_def)
    moreover have "set (?lo @ t # ?up) = insert t (set ns)" by auto
    moreover have "timer_eq k k'"
      by (simp add: timer_eq_def k'_def k1_def set_timer_def sched_inv_def linked_def)
    moreover have "(?lo = []) = (\<forall>m\<in>set ns. remaining k' t < remaining k' m)"
      unfolding rem by (auto simp: filter_empty_conv)
    ultimately show ?thesis using fr by (auto simp: started_def ret_def k'_def k1_def)
  qed
  ultimately show ?thesis by blast
qed

definition removed :: "ptr \<Rightarrow> ptr list \<Rightarrow> kernel \<Rightarrow> kernel \<Rightarrow> bool" where
  "removed t ns k k' \<longleftrightarrow>
     timers_ok k' (remove1 t ns) \<and> timer_eq k k' \<and> timers k' = timers k
     \<and> timer_node_is_empty k' t
     \<and> (\<forall>m. m \<notin> set ns \<longrightarrow> rb_mem (timer_tree k') m = rb_mem (timer_tree k) m)"

lemma timer_remove_effect:
  assumes ok: "timers_ok k ns" and t: "t \<in> set ns"
  shows "\<exists>k'. timer_remove t k = Some k' \<and> removed t ns k k'"
proof -
  obtain xs ys where e: "ns = xs @ t # ys" using t by (meson split_list)
  have d: "distinct ns" using timers_ok_distinct[OF ok] by simp
  then have r: "remove1 t ns = xs @ ys" using e by (simp add: remove1_append)
  obtain tree where del: "eh_rb_del t (timer_tree k) = Some (if xs = [] then hd0 ys else NULL, tree)"
    and rep: "rb_rep tree (xs @ ys)" and fr: "\<forall>m. m \<notin> set ns \<longrightarrow> rb_mem tree m = rb_mem (timer_tree k) m"
    using eh_rb_del_rep[of "timer_tree k" xs t ys] ok e by (auto simp: timers_ok_def)
  define k' where "k' = k\<lparr>timer_tree := eh_rb_node_init t tree\<rparr>"
  have "timer_remove t k = Some k'" using del by (simp add: timer_remove_def k'_def)
  moreover have "removed t ns k k'"
  proof -
    have nt: "t \<notin> set (xs @ ys)" using d e by auto
    have "rb_rep (timer_tree k') (remove1 t ns)"
      using rb_rep_node_init[OF rep nt] unfolding r by (simp add: k'_def)
    moreover have "by_key (remaining k') (remove1 t ns)"
    proof -
      have "by_key (remaining k) (xs @ ys)"
        using ok unfolding e by (auto simp: timers_ok_def by_key_def sorted_wrt_append)
      then show ?thesis unfolding r by (simp add: k'_def remaining_def by_key_def)
    qed
    moreover have "timer_eq k k'" by (simp add: timer_eq_def k'_def sched_inv_def linked_def)
    moreover have "rb_mem (timer_tree k') m = rb_mem (timer_tree k) m" if "m \<notin> set ns" for m
      using fr that e by (auto simp: k'_def eh_rb_node_init_def)
    ultimately show ?thesis by (simp add: removed_def timers_ok_def k'_def timer_node_is_empty_def)
  qed
  ultimately show ?thesis by blast
qed

end
