(* ===== verification/Eh_Timer_Spec.thy ===== *)
theory Eh_Timer_Spec
  imports Eh_Timer_Lemmas Eh_Rbtree_Spec
begin

text \<open>
  What timers promise: a check of the timers fires exactly the expired ones and returns,
  unless a periodic timer has interval 0; starting, stopping and restarting keep the tree
  ordered; the first remaining time never lets the system oversleep.
\<close>

subsection \<open>Firing\<close>

definition periodic :: "kernel \<Rightarrow> ptr \<Rightarrow> bool" where
  "periodic k t \<longleftrightarrow> attrribute (timers k t) AND EH_TIMER_ATTR_AUTO_CIRCULATION \<noteq> 0"

text \<open>
  \<open>fired F k k'\<close>: the timers in \<open>F\<close> fired. Their receptors are triggered and their waiting
  tasks woken; other receptors, tasks and timers are left alone.
\<close>

definition fired :: "ptr set \<Rightarrow> kernel \<Rightarrow> kernel \<Rightarrow> bool" where
  "fired F k k' \<longleftrightarrow>
     timer_now k' = timer_now k \<and> current_task k' = current_task k \<and> receptor_list k' = receptor_list k
     \<and> (sched_inv k \<longrightarrow> sched_inv k') \<and> wake_target k' = wake_target k
     \<and> (\<forall>t\<in>F. \<forall>r\<in>set (receptor_list k t). r_trigger (receptors k' r))
     \<and> (\<forall>r. r \<notin> (\<Union>t\<in>F. set (receptor_list k t)) \<longrightarrow> receptors k' r = receptors k r)
     \<and> (\<forall>r. r_trigger (receptors k r) \<longrightarrow> r_trigger (receptors k' r))
     \<and> woken (\<Union>t\<in>F. \<Union>r\<in>set (receptor_list k t). wake_target k r) k k'
     \<and> (\<forall>t. t \<notin> F \<longrightarrow> timers k' t = timers k t)
     \<and> (\<forall>t. interval (timers k' t) = interval (timers k t) \<and> attrribute (timers k' t) = attrribute (timers k t))"

lemma fired_refl: "fired {} k k"
  by (simp add: fired_def woken_refl)

lemma fired_trans:
  assumes "fired F k k'" "fired G k' k''"
  shows "fired (F \<union> G) k k''"
proof -
  have w: "woken ((\<Union>t\<in>F. \<Union>r\<in>set (receptor_list k t). wake_target k r)
      \<union> (\<Union>t\<in>G. \<Union>r\<in>set (receptor_list k' t). wake_target k' r)) k k''"
    using assms by (intro woken_trans[of _ k k']) (simp_all add: fired_def)
  have "receptor_list k' = receptor_list k" "wake_target k' = wake_target k" using assms(1) by (simp_all add: fired_def)
  with w have "woken (\<Union>t\<in>F \<union> G. \<Union>r\<in>set (receptor_list k t). wake_target k r) k k''" by (simp add: UN_Un)
  then show ?thesis using assms unfolding fired_def by auto
qed

lemma timer_eq_fired: "timer_eq k k' \<Longrightarrow> (\<And>x. x \<noteq> t \<Longrightarrow> timers k' x = timers k x) \<Longrightarrow> fired {t} k1 k \<Longrightarrow> fired {t} k1 k'"
proof -
  assume e: "timer_eq k k'" and x: "\<And>x. x \<noteq> t \<Longrightarrow> timers k' x = timers k x" and f: "fired {t} k1 k"
  have s: "receptors k' = receptors k" "epolls k' = epolls k" using e by (simp_all add: timer_eq_def)
  have "wake_target k' = wake_target k" unfolding wake_target_def s ..
  then show ?thesis using e x f unfolding fired_def timer_eq_def woken_def by simp
qed

lemma notify_fired:
  assumes "distinct (receptor_list k t)"
  shows "fired {t} k (notify_receptors (receptor_list k t) k)"
proof -
  define k' where "k' = notify_receptors (receptor_list k t) k"
  have n: "notified (receptor_list k t) k k'" unfolding k'_def by (rule notify_receptors_effect[OF assms])
  have rc: "receptors k' = (\<lambda>r. if r \<in> set (receptor_list k t)
         then (receptors k r)\<lparr>r_flags := r_flags (receptors k r) OR RECEPTOR_TRIGGER\<rparr> else receptors k r)"
    using n by (simp add: notified_def)
  have wk: "r_wakeup (receptors k' x) = r_wakeup (receptors k x)" for x by (simp add: rc)
  have ue: "r_uepoll (receptors k' x) = r_uepoll (receptors k x)" for x
    using flag_keeps_uepoll[of RECEPTOR_TRIGGER x k x] by (simp add: rc set_receptor_flag_def)
  have "wake_target k' = wake_target k"
  proof
    fix x
    have ew: "e_wakeup (epolls k' ep) = e_wakeup (epolls k ep)" for ep using n by (simp add: notified_def)
    show "wake_target k' x = wake_target k x" unfolding wake_target_def wk ue ew ..
  qed
  then show ?thesis using n unfolding k'_def[symmetric] by (auto simp: fired_def notified_def event_eq_def)
qed

lemma notify_timers_ok:
  assumes "timers_ok k ns" "distinct (receptor_list k t)"
  defines "k' \<equiv> notify_receptors (receptor_list k t) k"
  shows "timers_ok k' ns" "timer_tree k' = timer_tree k" "remaining k' = remaining k"
    "timers k' = timers k" "timer_now k' = timer_now k"
proof -
  have "event_eq k k'" using notify_receptors_effect[OF assms(2), of k] by (simp add: notified_def k'_def)
  then show f: "timer_tree k' = timer_tree k" "timers k' = timers k" "timer_now k' = timer_now k"
    by (simp_all add: event_eq_def)
  then show "remaining k' = remaining k" by (simp add: remaining_def fun_eq_iff)
  then show "timers_ok k' ns" using timers_ok_cong[of k' k ns] f assms(1) by simp
qed

definition fire_base :: "kernel \<Rightarrow> ptr \<Rightarrow> u64" where
  "fire_base k t =
     (let tm = timers k t
      in if attrribute tm AND EH_TIMER_ATTR_NOW_TIME_BASE \<noteq> 0 then timer_now k
         else if eh_diff_time (expire tm + interval tm) (timer_now k) > 0 then expire tm
         else timer_now k)"

text \<open>A restarted timer is in the future when its interval is positive, else it expires now.\<close>

lemma fire_base_remaining:
  "sint (interval (timers k t)) > 0 \<Longrightarrow> sint (fire_base k t + interval (timers k t) - timer_now k) > 0"
  "interval (timers k t) = 0 \<Longrightarrow> eh_remaining_time (timer_now k) (timers k t) \<le> 0 \<Longrightarrow>
     sint (fire_base k t + interval (timers k t) - timer_now k) \<le> 0"
  by (auto simp: fire_base_def Let_def eh_diff_time_def eh_remaining_time_def)

lemma timer_fire_effect:
  assumes ok: "timers_ok k (t # ns)" and d: "distinct (receptor_list k t)"
  shows "\<exists>k' ns'. timer_fire t k = Some k' \<and> timers_ok k' ns' \<and> fired {t} k k'
    \<and> set ns' = set ns \<union> (if periodic k t then {t} else {})
    \<and> (\<forall>m. m \<noteq> t \<longrightarrow> remaining k' m = remaining k m)
    \<and> (periodic k t \<longrightarrow> remaining k' t = sint (fire_base k t + interval (timers k t) - timer_now k))"
proof -
  have tn: "t \<noteq> NULL" "t \<notin> set ns" using timers_ok_distinct[OF ok] by auto
  define k1 where "k1 = notify_receptors (receptor_list k t) k"
  note n = notify_timers_ok[OF ok d, folded k1_def]
  have f1: "fired {t} k k1" unfolding k1_def by (rule notify_fired[OF d])
  obtain k2 where r: "timer_remove t k1 = Some k2" and rm: "removed t (t # ns) k1 k2"
    using timer_remove_effect[OF n(1), of t] by auto
  have f2: "fired {t} k k2" using timer_eq_fired[OF _ _ f1, of k2] rm by (simp add: removed_def)
  have ev: "eh_event_notify t k = (EH_RET_OK, k1)" using tn by (simp add: eh_event_notify_def k1_def)
  have same: "timers k2 = timers k" "timer_now k2 = timer_now k" "timers_ok k2 ns"
    using rm n by (simp_all add: removed_def timer_eq_def)
  then have rem: "remaining k2 = remaining k" by (simp add: remaining_def fun_eq_iff)
  show ?thesis
  proof (cases "periodic k t")
    case False
    then have "timer_fire t k = Some k2"
      using r ev same by (simp add: timer_fire_def periodic_def)
    then show ?thesis using f2 same(3) False rem by auto
  next
    case True
    have b: "fire_base k2 t = fire_base k t" unfolding fire_base_def same ..
    obtain ret k3 ns' where s: "eh_timer_start_no_lock (fire_base k2 t) t k2 = Some (ret, k3)"
      and st: "started (fire_base k2 t) t ns k2 ret k3 ns'"
      using start_no_lock_effect[OF same(3), of t "fire_base k2 t"] tn rm by (auto simp: removed_def)
    have "timer_fire t k = Some k3"
      using r ev same True s by (simp add: timer_fire_def periodic_def fire_base_def Let_def)
    moreover have "timers k3 = (timers k2)(t := (timers k2 t)\<lparr>expire := fire_base k2 t + interval (timers k2 t)\<rparr>)"
      using st by (simp add: started_def)
    then have "fired {t} k k3" "\<forall>m. m \<noteq> t \<longrightarrow> remaining k3 m = remaining k m"
      "remaining k3 t = sint (fire_base k t + interval (timers k t) - timer_now k)"
      using timer_eq_fired[OF _ _ f2, of k3] st same b
      by (auto simp: started_def timer_eq_def remaining_def eh_remaining_time_def eh_diff_time_def)
    ultimately show ?thesis using st True by (auto simp: started_def)
  qed
qed

subsection \<open>The loop\<close>

definition expired :: "kernel \<Rightarrow> ptr list \<Rightarrow> ptr set" where
  "expired k ns = {t\<in>set ns. remaining k t \<le> 0}"

lemma loop_unfold:
  assumes "timers_ok k ns"
  shows "timer_check_loop k =
    (case ns of [] \<Rightarrow> Some k
     | t # _ \<Rightarrow> if remaining k t \<le> 0 then do { k \<leftarrow> timer_fire t k; timer_check_loop k } else Some k)"
proof -
  have f: "eh_rb_first (timer_tree k) = hd0 ns" using rb_rep_first assms by (auto simp: timers_ok_def)
  have "NULL \<notin> set ns" using timers_ok_distinct[OF assms] by simp
  then show ?thesis unfolding timer_check_loop.simps[of k] f
    by (auto simp: remaining_def Let_def split: list.splits)
qed

lemma expired_nil:
  assumes "timers_ok k ns" "ns = [] \<or> remaining k (hd ns) > 0"
  shows "expired k ns = {}"
proof (cases ns)
  case (Cons t ms)
  then have "\<forall>m\<in>set ns. remaining k t \<le> remaining k m" "remaining k t > 0"
    using assms by (auto simp: timers_ok_def by_key_def)
  then show ?thesis by (fastforce simp: expired_def)
qed (simp add: expired_def)

definition check_done :: "kernel \<Rightarrow> ptr list \<Rightarrow> kernel \<Rightarrow> bool" where
  "check_done k ns k' \<longleftrightarrow>
     (\<exists>ns'. timers_ok k' ns' \<and> fired (expired k ns) k k'
        \<and> set ns' = (set ns - expired k ns) \<union> {t\<in>expired k ns. periodic k t}
        \<and> (\<forall>t\<in>set ns'. remaining k' t > 0))"

lemma timer_check_loop_returns:
  assumes "timers_ok k ns" "\<forall>t. distinct (receptor_list k t)"
    "\<forall>t\<in>expired k ns. periodic k t \<longrightarrow> sint (interval (timers k t)) > 0"
  shows "\<exists>k'. timer_check_loop k = Some k' \<and> check_done k ns k'"
  using assms
proof (induction "card (expired k ns)" arbitrary: k ns)
  case 0
  have "finite (expired k ns)" by (simp add: expired_def)
  then have e: "expired k ns = {}" using 0(1) by simp
  have "timer_check_loop k = Some k" using e loop_unfold[OF 0(2)] by (auto simp: expired_def split: list.splits)
  moreover have "\<forall>t\<in>set ns. remaining k t > 0" using e by (auto simp: expired_def not_le)
  ultimately show ?case using 0(2) e by (auto simp: check_done_def fired_refl)
next
  case (Suc n)
  then have "expired k ns \<noteq> {}" by auto
  then have "\<not> (ns = [] \<or> remaining k (hd ns) > 0)" using expired_nil[OF Suc(3)] by blast
  then obtain t ms where ns: "ns = t # ms" and te: "remaining k t \<le> 0" by (cases ns) auto
  have tm: "t \<notin> set ms" using timers_ok_distinct[OF Suc(3)] ns by auto
  obtain k1 ns1 where f: "timer_fire t k = Some k1" "timers_ok k1 ns1" "fired {t} k k1"
    and s1: "set ns1 = set ms \<union> (if periodic k t then {t} else {})"
    and rm: "\<forall>m. m \<noteq> t \<longrightarrow> remaining k1 m = remaining k m"
    and rt: "periodic k t \<longrightarrow> remaining k1 t = sint (fire_base k t + interval (timers k t) - timer_now k)"
    using timer_fire_effect[OF Suc(3)[unfolded ns]] Suc(4) by blast
  have tin: "t \<in> expired k ns" using te ns by (simp add: expired_def)
  then have pos: "periodic k t \<longrightarrow> remaining k1 t > 0" using rt fire_base_remaining(1) Suc(5) by simp
  have e1: "expired k1 ns1 = expired k ns - {t}"
    using s1 rm pos tm ns te by (auto simp: expired_def split: if_splits)
  have same: "\<And>m. interval (timers k1 m) = interval (timers k m) \<and> attrribute (timers k1 m) = attrribute (timers k m)"
    "receptor_list k1 = receptor_list k" using f(3) by (simp_all add: fired_def)
  then have per: "periodic k1 m = periodic k m" for m by (simp add: periodic_def)
  have c: "n = card (expired k1 ns1)" using Suc(2) e1 tin by (simp add: expired_def)
  have "\<exists>k'. timer_check_loop k1 = Some k' \<and> check_done k1 ns1 k'"
    by (rule Suc(1)[OF c f(2)]) (use same Suc(4,5) e1 per in auto)
  then obtain k' ns' where k': "timer_check_loop k1 = Some k'" "timers_ok k' ns'" "fired (expired k1 ns1) k1 k'"
    "set ns' = (set ns1 - expired k1 ns1) \<union> {t\<in>expired k1 ns1. periodic k1 t}" "\<forall>t\<in>set ns'. remaining k' t > 0"
    unfolding check_done_def by blast
  have "timer_check_loop k = Some k'" using loop_unfold[OF Suc(3)] ns te f(1) k'(1) by simp
  moreover have "fired (expired k ns) k k'"
    using fired_trans[OF f(3) k'(3)] e1 tin by (simp add: insert_absorb)
  moreover have "set ns' = (set ns - expired k ns) \<union> {t\<in>expired k ns. periodic k t}"
    unfolding k'(4) e1 per using s1 tin tm ns by (auto split: if_splits)
  ultimately show ?case using k' by (auto simp: check_done_def)
qed

text \<open>A periodic timer with interval 0 that has expired stays expired: the loop has no result.\<close>

definition stuck :: "kernel \<Rightarrow> bool" where
  "stuck k \<longleftrightarrow> (\<exists>ns t. timers_ok k ns \<and> (\<forall>t. distinct (receptor_list k t)) \<and> t \<in> expired k ns
      \<and> periodic k t \<and> interval (timers k t) = 0)"

lemma stuck_step:
  assumes "stuck k"
  shows "\<exists>t k'. eh_rb_first (timer_tree k) = t \<and> t \<noteq> NULL \<and> eh_remaining_time (timer_now k) (timers k t) \<le> 0
    \<and> timer_fire t k = Some k' \<and> stuck k'"
proof -
  obtain ns t where ok: "timers_ok k ns" and d: "\<forall>t. distinct (receptor_list k t)" and t: "t \<in> expired k ns"
    "periodic k t" "interval (timers k t) = 0" using assms unfolding stuck_def by blast
  have "\<not> (ns = [] \<or> remaining k (hd ns) > 0)" using expired_nil[OF ok] t(1) by blast
  then obtain f ms where ns: "ns = f # ms" and fe: "remaining k f \<le> 0" by (cases ns) auto
  obtain k1 ns1 where f: "timer_fire f k = Some k1" "timers_ok k1 ns1" "fired {f} k k1"
    and s1: "set ns1 = set ms \<union> (if periodic k f then {f} else {})"
    and rm: "\<forall>m. m \<noteq> f \<longrightarrow> remaining k1 m = remaining k m"
    and rt: "periodic k f \<longrightarrow> remaining k1 f = sint (fire_base k f + interval (timers k f) - timer_now k)"
    using timer_fire_effect[OF ok[unfolded ns]] d by blast
  have same: "interval (timers k1 t) = interval (timers k t)" "periodic k1 t = periodic k t"
    "receptor_list k1 = receptor_list k" using f(3) by (simp_all add: fired_def periodic_def)
  have "t \<in> expired k1 ns1"
    using t s1 rm rt fe ns fire_base_remaining(2)[of k f]
    by (cases "t = f") (auto simp: expired_def remaining_def)
  then have "stuck k1" unfolding stuck_def using f(2) same t d by metis
  moreover have "eh_rb_first (timer_tree k) = f" "f \<noteq> NULL"
    using rb_rep_first[of "timer_tree k" ns] timers_ok_distinct[OF ok] ok ns by (auto simp: timers_ok_def)
  ultimately show ?thesis using fe f(1) by (auto simp: remaining_def)
qed

lemma stuck_no_result: "timer_check_loop k = Some k' \<Longrightarrow> \<not> stuck k"
proof (rule timer_check_loop.raw_induct[of "\<lambda>k k'. \<not> stuck k"])
  fix loop k k'
  assume IH: "\<And>k k'. loop k = Some k' \<Longrightarrow> \<not> stuck k"
    and r: "(let t = eh_rb_first (timer_tree k)
        in if t \<noteq> NULL \<and> eh_remaining_time (timer_now k) (timers k t) \<le> 0
           then do { k \<leftarrow> timer_fire t k; loop k } else Some k) = Some k'"
  show "\<not> stuck k"
  proof
    assume "stuck k"
    then obtain t k1 where s: "eh_rb_first (timer_tree k) = t" "t \<noteq> NULL"
      "eh_remaining_time (timer_now k) (timers k t) \<le> 0" "timer_fire t k = Some k1" "stuck k1"
      using stuck_step by blast
    then have "loop k1 = Some k'" using r by simp
    then show False using IH s(5) by blast
  qed
qed

subsection \<open>Properties\<close>

text \<open>
  C12. \<open>eh_timer_check\<close> reads the clock and returns, when no expired periodic timer has a
  non-positive interval. It triggers every receptor of every expired timer, wakes their waiting
  tasks, and leaves the receptors of the other timers alone; the one-shot timers among the
  expired ones leave the tree, the periodic ones are restarted, and afterwards no timer of the
  tree is expired.
\<close>

theorem timer_check_spec:
  assumes "timers_ok k ns" "in_time k ns" "\<forall>t. distinct (receptor_list k t)"
    "\<forall>t\<in>expired (update_timer_now k) ns. periodic k t \<longrightarrow> sint (interval (timers k t)) > 0"
  defines "E \<equiv> expired (update_timer_now k) ns"
  shows "\<exists>k' ns'. eh_timer_check k = Some k' \<and> timers_ok k' ns' \<and> (sched_inv k \<longrightarrow> sched_inv k')
    \<and> (\<forall>t\<in>E. \<forall>r\<in>set (receptor_list k t). r_trigger (receptors k' r)
         \<and> (\<forall>w\<in>wake_target k r. t_state (tasks k w) = WAIT \<longrightarrow> t_state (tasks k' w) = READY))
    \<and> (\<forall>r. r \<notin> (\<Union>t\<in>E. set (receptor_list k t)) \<longrightarrow> receptors k' r = receptors k r)
    \<and> set ns' = (set ns - E) \<union> {t\<in>E. periodic k t}
    \<and> (\<forall>t\<in>set ns'. remaining k' t > 0)"
proof -
  define k0 where "k0 = update_timer_now k"
  have ok: "timers_ok k0 ns" unfolding k0_def by (rule update_now_ok[OF assms(1,2)])
  have per: "periodic k0 t = periodic k t" for t by (simp add: k0_def periodic_def)
  have "\<exists>k'. timer_check_loop k0 = Some k' \<and> check_done k0 ns k'"
    by (rule timer_check_loop_returns[OF ok]) (use assms(3,4) in \<open>simp_all add: k0_def periodic_def\<close>)
  then obtain k' ns' where l: "timer_check_loop k0 = Some k'" and d: "timers_ok k' ns'" "fired E k0 k'"
    "set ns' = (set ns - E) \<union> {t\<in>E. periodic k0 t}" "\<forall>t\<in>set ns'. remaining k' t > 0"
    unfolding check_done_def E_def k0_def[symmetric] by blast
  have "eh_timer_check k = Some k'"
  proof (cases "ns = []")
    case True
    then have "eh_rb_root_is_empty (timer_tree k0)" using rb_rep_root_is_empty ok by (auto simp: timers_ok_def)
    then show ?thesis using l loop_unfold[OF ok] True by (simp add: eh_timer_check_def k0_def[symmetric])
  next
    case False
    then have "\<not> eh_rb_root_is_empty (timer_tree k0)" using rb_rep_root_is_empty ok by (auto simp: timers_ok_def)
    then show ?thesis using l by (simp add: eh_timer_check_def k0_def[symmetric])
  qed
  moreover have w: "woken (\<Union>t\<in>E. \<Union>r\<in>set (receptor_list k t). wake_target k r) k0 k'"
    using d(2) by (simp add: fired_def k0_def)
  then have "t_state (tasks k' x) = READY"
    if "t \<in> E" "r \<in> set (receptor_list k t)" "x \<in> wake_target k r" "t_state (tasks k x) = WAIT" for t r x
    using woken_state(1)[OF w, of x] that by (auto simp: k0_def)
  ultimately show ?thesis
    using d unfolding per by (intro exI[of _ k'] exI[of _ ns']) (simp add: fired_def k0_def)
qed

text \<open>A kernel with timers 2, 4 and 6: 2 is one-shot, 4 and 6 are periodic; the clock reads 0, 10, 20.\<close>

definition timer_demo :: "u64 \<Rightarrow> kernel" where
  "timer_demo iv =
     demo\<lparr>timers := (\<lambda>_. \<lparr>expire = 0, interval = 0, attrribute = 0\<rparr>)
            (2 := \<lparr>expire = 3, interval = 3, attrribute = 0\<rparr>, 4 := \<lparr>expire = 5, interval = iv, attrribute = 1\<rparr>,
             6 := \<lparr>expire = 30, interval = 20, attrribute = 1\<rparr>),
          timer_tree := three_nodes, clock_reads := 1,
          receptor_list := (\<lambda>_. [])(2 := [201])\<rparr>"

lemma timer_demo_ok: "timers_ok (timer_demo iv) [2, 4, 6]"
  using three_nodes_rep
  by (simp add: timers_ok_def timer_demo_def by_key_def remaining_def eh_remaining_time_def eh_diff_time_def demo_def)

lemma timer_demo_now: "remaining (update_timer_now (timer_demo iv)) 2 = -7"
  "remaining (update_timer_now (timer_demo iv)) 4 = -5" "remaining (update_timer_now (timer_demo iv)) 6 = 20"
  by (simp_all add: timer_demo_def remaining_def eh_remaining_time_def eh_diff_time_def)

lemma timer_demo_in_time: "in_time (timer_demo iv) [2, 4, 6]"
  by (simp add: in_time_def timer_demo_def remaining_def eh_remaining_time_def eh_diff_time_def
      clock_step_def demo_def)

lemma timer_demo_expired: "expired (update_timer_now (timer_demo iv)) [2, 4, 6] = {2, 4}"
  by (auto simp: expired_def timer_demo_now)

lemma timer_demo_periodic: "periodic (timer_demo iv) 2 = False" "periodic (timer_demo iv) 4 = True"
  by (simp_all add: periodic_def timer_demo_def EH_TIMER_ATTR_AUTO_CIRCULATION_def)

lemma timer_check_spec_witness:
  "\<exists>k' ns'. eh_timer_check (timer_demo 10) = Some k' \<and> timers_ok k' ns' \<and> set ns' = {4, 6}
     \<and> r_trigger (receptors k' 201) \<and> t_state (tasks k' 2) = READY"
proof -
  have d: "\<forall>t. distinct (receptor_list (timer_demo 10) t)" by (simp add: timer_demo_def)
  have p: "\<forall>t\<in>expired (update_timer_now (timer_demo 10)) [2, 4, 6].
      periodic (timer_demo 10) t \<longrightarrow> sint (interval (timers (timer_demo 10) t)) > 0"
    unfolding timer_demo_expired by (simp add: timer_demo_periodic timer_demo_def)
  have w: "receptor_list (timer_demo 10) 2 = [201]" "2 \<in> wake_target (timer_demo 10) 201"
    "t_state (tasks (timer_demo 10) 2) = WAIT"
    by (simp_all add: timer_demo_def wake_target_def r_uepoll_def RECEPTOR_EPOLL_def)
  have s: "(set [2, 4, 6] - {2, 4}) \<union> {t\<in>{2, 4}. periodic (timer_demo 10) t} = {4, 6}"
    by (auto simp: timer_demo_periodic)
  show ?thesis
    using timer_check_spec[OF timer_demo_ok timer_demo_in_time d p] unfolding timer_demo_expired s
    using w by fastforce
qed

text \<open>
  C13. When a periodic timer with interval 0 has expired, \<open>eh_timer_check\<close> never returns: the
  timer is restarted at the current time, where it has expired again.
\<close>

theorem timer_check_interval_zero:
  assumes "timers_ok k ns" "in_time k ns" "\<forall>t. distinct (receptor_list k t)"
    "t \<in> expired (update_timer_now k) ns" "periodic k t" "interval (timers k t) = 0"
  shows "eh_timer_check k = None"
proof -
  let ?k = "update_timer_now k"
  have ok: "timers_ok ?k ns" by (rule update_now_ok[OF assms(1,2)])
  have "\<forall>t. distinct (receptor_list ?k t)" "periodic ?k t" "interval (timers ?k t) = 0"
    using assms by (simp_all add: periodic_def)
  then have "stuck ?k" unfolding stuck_def using ok assms(4) by blast
  then have n: "timer_check_loop ?k = None" using stuck_no_result by (cases "timer_check_loop ?k") auto
  have "ns \<noteq> []" using assms(4) by (auto simp: expired_def)
  then have "\<not> eh_rb_root_is_empty (timer_tree ?k)"
    using rb_rep_root_is_empty[of "timer_tree ?k" ns] ok by (simp add: timers_ok_def)
  then show ?thesis using n by (simp add: eh_timer_check_def Let_def)
qed

lemma timer_check_interval_zero_witness: "eh_timer_check (timer_demo 0) = None"
proof -
  have d: "\<forall>t. distinct (receptor_list (timer_demo 0) t)" by (simp add: timer_demo_def)
  show ?thesis
    by (rule timer_check_interval_zero[OF timer_demo_ok timer_demo_in_time d, of 4])
      (simp_all add: timer_demo_expired timer_demo_periodic, simp add: timer_demo_def)
qed

text \<open>Starting at the current time: what \<open>eh_timer_start\<close> and \<open>eh_timer_restart\<close> share.\<close>

lemma start_now:
  assumes "timers_ok k ns" "timer_node_is_empty k t" "t \<noteq> NULL"
  shows "\<exists>ret k' ns'. eh_timer_start_no_lock (timer_now k) t k = Some (ret, k') \<and> timers_ok k' ns'
    \<and> set ns' = insert t (set ns) \<and> remaining k' t = sint (interval (timers k t))
    \<and> (\<forall>m. m \<noteq> t \<longrightarrow> remaining k' m = remaining k m) \<and> timer_eq k k'
    \<and> ret = (if \<forall>m\<in>set ns. remaining k' t < remaining k' m then FIRST_TIMER_UPDATE else EH_RET_OK)
    \<and> (\<forall>m. m \<notin> insert t (set ns) \<longrightarrow> timer_node_is_empty k' m = timer_node_is_empty k m)"
proof -
  obtain ret k' ns' where s: "eh_timer_start_no_lock (timer_now k) t k = Some (ret, k')"
    "started (timer_now k) t ns k ret k' ns'"
    using start_no_lock_effect[OF assms, of "timer_now k"] by blast
  have "remaining k' t = sint (interval (timers k t))" "\<forall>m. m \<noteq> t \<longrightarrow> remaining k' m = remaining k m"
    using s(2) by (auto simp: started_def timer_eq_def remaining_def eh_remaining_time_def eh_diff_time_def)
  then show ?thesis using s
    by (intro exI[of _ ret] exI[of _ k'] exI[of _ ns'])
      (auto simp: started_def timer_node_is_empty_def eh_rb_node_is_empty_def)
qed

lemma idle_break_timers [simp]:
  "timers_ok (eh_idle_break k) ns = timers_ok k ns" "remaining (eh_idle_break k) t = remaining k t"
  "timer_node_is_empty (eh_idle_break k) t = timer_node_is_empty k t"
  by (simp_all add: timers_ok_def remaining_def[abs_def] eh_idle_break_def timer_node_is_empty_def)

lemma update_now_node [simp]: "timer_node_is_empty (update_timer_now k) t = timer_node_is_empty k t"
  by (simp add: timer_node_is_empty_def)

text \<open>
  \<open>eh_timer_start\<close> on an initialised timer that does not run and has a non-negative
  interval adds it to the tree, with exactly the interval left; the other timers have the
  elapsed time less. It reports \<open>FIRST_TIMER_UPDATE\<close> exactly when the timer is the first to
  expire. A running timer is refused with \<open>EH_RET_BUSY\<close>, a negative interval with
  \<open>EH_RET_INVALID_PARAM\<close>, and the tree is then left alone.
\<close>

theorem timer_start_spec:
  assumes "timers_ok k ns" "in_time k ns" "t \<noteq> NULL" "t \<in> set ns \<or> timer_node_is_empty k t"
  shows "\<exists>ret k'. eh_timer_start t k = Some (ret, k') \<and>
    (if sint (interval (timers k t)) < 0 then ret = EH_RET_INVALID_PARAM \<and> k' = k
     else (\<forall>m\<in>set ns - {t}. remaining k' m = remaining k m - uint (clock_step k)) \<and>
       (if t \<in> set ns then ret = EH_RET_BUSY \<and> timers_ok k' ns
        else (\<exists>ns'. timers_ok k' ns' \<and> set ns' = insert t (set ns))
          \<and> remaining k' t = sint (interval (timers k t)) \<and> \<not> timer_node_is_empty k' t
          \<and> ret = (if \<forall>m\<in>set ns. remaining k' t < remaining k' m then FIRST_TIMER_UPDATE else EH_RET_OK)))"
proof (cases "sint (interval (timers k t)) < 0")
  case True
  then show ?thesis using assms(3) by (simp add: eh_timer_start_def)
next
  case False
  define k0 where "k0 = update_timer_now k"
  have ok: "timers_ok k0 ns" unfolding k0_def by (rule update_now_ok[OF assms(1,2)])
  have rem: "\<forall>m\<in>set ns. remaining k0 m = remaining k m - uint (clock_step k)"
    using assms(2) by (simp add: k0_def in_time_def remaining_update_now)
  show ?thesis
  proof (cases "t \<in> set ns")
    case True
    then have "\<not> timer_node_is_empty k0 t"
      using rb_rep_node_not_empty ok by (auto simp: timers_ok_def timer_node_is_empty_def)
    then have "eh_timer_start t k = Some (EH_RET_BUSY, k0)"
      using assms(3) False
      by (simp add: eh_timer_start_def k0_def[symmetric] Let_def eh_timer_start_no_lock_def eh_ret FIRST_TIMER_UPDATE_def)
    then show ?thesis using True False ok rem by auto
  next
    case nin: False
    then have "timer_node_is_empty k0 t" using assms(4) by (simp add: k0_def)
    then obtain ret k' ns' where s: "eh_timer_start_no_lock (timer_now k0) t k0 = Some (ret, k')" "timers_ok k' ns'"
      "set ns' = insert t (set ns)" "remaining k' t = sint (interval (timers k0 t))"
      "\<forall>m. m \<noteq> t \<longrightarrow> remaining k' m = remaining k0 m"
      "ret = (if \<forall>m\<in>set ns. remaining k' t < remaining k' m then FIRST_TIMER_UPDATE else EH_RET_OK)"
      using start_now[OF ok _ assms(3)] by blast
    have "\<not> timer_node_is_empty k' t"
      using rb_rep_node_not_empty[of "timer_tree k'" ns' t] s(2,3) by (auto simp: timers_ok_def timer_node_is_empty_def)
    moreover have "eh_timer_start t k = Some (ret, if ret = FIRST_TIMER_UPDATE then eh_idle_break k' else k')"
      using assms(3) False s(1) by (simp add: eh_timer_start_def k0_def[symmetric] Let_def)
    ultimately show ?thesis using nin False s rem
      by (intro exI[of _ ret] exI[of _ "if ret = FIRST_TIMER_UPDATE then eh_idle_break k' else k'"])
        (auto simp: k0_def)
  qed
qed

text \<open>A timer 8 that does not run, for the examples.\<close>

lemma timer_demo_8: "timer_node_is_empty (timer_demo 10) 8 = False"
  "timer_node_is_empty (timer_demo 10\<lparr>timer_tree := eh_rb_node_init 8 three_nodes\<rparr>) 8"
  by (simp_all add: timer_demo_def timer_node_is_empty_def eh_rb_node_is_empty_def three_nodes_def
      eh_rb_node_init_def pc_pack_def)

definition timer_demo8 :: kernel where
  "timer_demo8 = set_timer 8 \<lparr>expire = 0, interval = 9, attrribute = 0\<rparr>
     (timer_demo 10\<lparr>timer_tree := eh_rb_node_init 8 three_nodes\<rparr>)"

lemma timer_demo8_ok: "timers_ok timer_demo8 [2, 4, 6]" "in_time timer_demo8 [2, 4, 6]"
  "timer_node_is_empty timer_demo8 8" "interval (timers timer_demo8 8) = 9"
proof -
  have "rb_rep (timer_tree timer_demo8) [2, 4, 6]"
    using rb_rep_node_init[OF three_nodes_rep, of 8] by (simp add: timer_demo8_def)
  then show "timers_ok timer_demo8 [2, 4, 6]"
    by (simp add: timers_ok_def timer_demo8_def timer_demo_def by_key_def remaining_def eh_remaining_time_def eh_diff_time_def demo_def)
  show "in_time timer_demo8 [2, 4, 6]"
    by (simp add: in_time_def timer_demo8_def timer_demo_def remaining_def eh_remaining_time_def eh_diff_time_def
      clock_step_def demo_def set_timer_def)
  show "timer_node_is_empty timer_demo8 8"
    using timer_demo_8(2) by (simp add: timer_demo8_def timer_node_is_empty_def)
  show "interval (timers timer_demo8 8) = 9" by (simp add: timer_demo8_def)
qed

lemma timer_start_spec_witness:
  "(\<exists>k' ns'. eh_timer_start 4 timer_demo8 = Some (EH_RET_BUSY, k') \<and> timers_ok k' ns')
   \<and> (\<exists>ret k' ns'. eh_timer_start 8 timer_demo8 = Some (ret, k') \<and> timers_ok k' ns' \<and> set ns' = {2, 4, 6, 8}
        \<and> remaining k' 8 = 9)"
proof -
  have a: "\<not> sint (interval (timers timer_demo8 4)) < 0" by (simp add: timer_demo8_def timer_demo_def)
  have b: "\<not> sint (interval (timers timer_demo8 8)) < 0" "sint (interval (timers timer_demo8 8)) = 9"
    unfolding timer_demo8_ok(4) by simp_all
  have s: "insert 8 (set [2, 4, 6]) = {2, 4, 6, 8::ptr}" by auto
  have "\<exists>k' ns'. eh_timer_start 4 timer_demo8 = Some (EH_RET_BUSY, k') \<and> timers_ok k' ns'"
    using timer_start_spec[OF timer_demo8_ok(1,2), of 4] a by auto
  moreover have "\<exists>ret k' ns'. eh_timer_start 8 timer_demo8 = Some (ret, k') \<and> timers_ok k' ns'
      \<and> set ns' = {2, 4, 6, 8} \<and> remaining k' 8 = 9"
    using timer_start_spec[OF timer_demo8_ok(1,2), of 8] timer_demo8_ok(3) b s by auto
  ultimately show ?thesis by blast
qed

text \<open>
  \<open>eh_timer_restart\<close> runs a timer whether it ran before or not: afterwards it is in the
  tree with exactly its interval left, and the other timers have the elapsed time less.
  \<open>eh_timer_stop\<close> takes it out again, and a timer that does not run is left alone.
\<close>

theorem timer_restart_stop_spec:
  assumes "timers_ok k ns" "in_time k ns" "t \<noteq> NULL" "t \<in> set ns \<or> timer_node_is_empty k t"
    "sint (interval (timers k t)) \<ge> 0"
  shows "\<exists>ret k' ns'. eh_timer_restart t k = Some (ret, k') \<and> timers_ok k' ns' \<and> set ns' = insert t (set ns)
      \<and> remaining k' t = sint (interval (timers k t))
      \<and> (\<forall>m\<in>set ns - {t}. remaining k' m = remaining k m - uint (clock_step k))
      \<and> ret = (if \<forall>m\<in>set ns - {t}. remaining k' t < remaining k' m then FIRST_TIMER_UPDATE else EH_RET_OK)
      \<and> (\<exists>k''. eh_timer_stop t k' = Some (EH_RET_OK, k'') \<and> timers_ok k'' (remove1 t ns')
           \<and> timer_node_is_empty k'' t \<and> eh_timer_stop t k'' = Some (EH_RET_OK, k''))"
proof -
  define k0 where "k0 = update_timer_now k"
  have ok: "timers_ok k0 ns" unfolding k0_def by (rule update_now_ok[OF assms(1,2)])
  have d: "distinct ns" using timers_ok_distinct[OF ok] by simp
  have iv: "interval (timers k0 t) = interval (timers k t)" by (simp add: k0_def)
  have rem: "\<forall>m\<in>set ns. remaining k0 m = remaining k m - uint (clock_step k)"
    using assms(2) by (simp add: k0_def in_time_def remaining_update_now)
  have "\<exists>k1 ms. (if timer_node_is_empty k0 t then Some k0 else timer_remove t k0) = Some k1 \<and> timers_ok k1 ms
      \<and> set ms = set ns - {t} \<and> timer_node_is_empty k1 t \<and> timers k1 = timers k0 \<and> timer_now k1 = timer_now k0"
  proof (cases "t \<in> set ns")
    case True
    then have "\<not> timer_node_is_empty k0 t"
      using rb_rep_node_not_empty ok by (auto simp: timers_ok_def timer_node_is_empty_def)
    moreover have "set (remove1 t ns) = set ns - {t}" using d by simp
    ultimately show ?thesis
      using timer_remove_effect[OF ok True] by (metis removed_def timer_eq_def)
  next
    case False
    then have "timer_node_is_empty k0 t" using assms(4) by (simp add: k0_def)
    then show ?thesis using ok False by (intro exI[of _ k0] exI[of _ ns]) simp
  qed
  then obtain k1 ms where k1: "(if timer_node_is_empty k0 t then Some k0 else timer_remove t k0) = Some k1"
    "timers_ok k1 ms" "set ms = set ns - {t}" "timer_node_is_empty k1 t" "timers k1 = timers k0" "timer_now k1 = timer_now k0"
    by blast
  have r1: "remaining k1 = remaining k0" using k1(5,6) by (simp add: remaining_def fun_eq_iff)
  obtain ret k2 ns' where s: "eh_timer_start_no_lock (timer_now k1) t k1 = Some (ret, k2)" "timers_ok k2 ns'"
    "set ns' = insert t (set ms)" "remaining k2 t = sint (interval (timers k1 t))"
    "\<forall>m. m \<noteq> t \<longrightarrow> remaining k2 m = remaining k1 m"
    "ret = (if \<forall>m\<in>set ms. remaining k2 t < remaining k2 m then FIRST_TIMER_UPDATE else EH_RET_OK)"
    using start_now[OF k1(2,4) assms(3)] by blast
  define k' where "k' = (if ret = FIRST_TIMER_UPDATE then eh_idle_break k2 else k2)"
  have k': "timers_ok k' ns'" "remaining k' = remaining k2" using s(2) by (auto simp: k'_def fun_eq_iff)
  have re: "eh_timer_restart t k = Some (ret, k')"
    using assms(3,5) k1(1) s(1) k1(6)
    by (simp add: eh_timer_restart_def k0_def[symmetric] Let_def k'_def iv)
  have tin: "t \<in> set ns'" using s(3) by simp
  then have ne: "\<not> timer_node_is_empty k' t"
    using rb_rep_node_not_empty k'(1) by (auto simp: timers_ok_def timer_node_is_empty_def)
  obtain k'' where st: "timer_remove t k' = Some k''" "removed t ns' k' k''"
    using timer_remove_effect[OF k'(1) tin] by blast
  have "eh_timer_stop t k' = Some (EH_RET_OK, k'')" "eh_timer_stop t k'' = Some (EH_RET_OK, k'')"
    using assms(3) ne st by (simp_all add: eh_timer_stop_def removed_def)
  then show ?thesis
    using re k' s k1(3) rem st(2) r1 iv k1(5)
    by (intro exI[of _ ret] exI[of _ k'] exI[of _ ns']) (auto simp: removed_def)
qed

lemma timer_restart_stop_spec_witness:
  "\<exists>ret k' k'' ns'. eh_timer_restart 4 timer_demo8 = Some (ret, k') \<and> timers_ok k' ns' \<and> set ns' = {2, 4, 6}
     \<and> remaining k' 4 = 10 \<and> eh_timer_stop 4 k' = Some (EH_RET_OK, k'') \<and> timer_node_is_empty k'' 4"
proof -
  have a: "sint (interval (timers timer_demo8 4)) = 10" by (simp add: timer_demo8_def timer_demo_def)
  have s: "insert 4 (set [2, 4, 6]) = {2, 4, 6::ptr}" by auto
  show ?thesis using timer_restart_stop_spec[OF timer_demo8_ok(1,2), of 4] a s by fastforce
qed

text \<open>
  The idle wait never oversleeps: \<open>eh_timer_get_first_remaining_time_on_lock\<close> is between
  0 and \<open>FIRST_TIMER_MAX_TIME\<close>, at most the remaining time of every timer that has not
  expired, 0 when one has, and it is the remaining time of the first timer unless that
  exceeds the maximum.
\<close>

theorem timer_first_remaining_spec:
  assumes "timers_ok k ns" "in_time k ns" "first_timer_max_time cps \<ge> 0"
  defines "k0 \<equiv> update_timer_now k"
  shows "\<exists>m. eh_timer_get_first_remaining_time_on_lock cps k = (m, k0) \<and> 0 \<le> m \<and> m \<le> first_timer_max_time cps
    \<and> (\<forall>t\<in>set ns. m \<le> max 0 (remaining k0 t))
    \<and> (ns = [] \<and> m = first_timer_max_time cps
        \<or> (\<exists>t\<in>set ns. m = min (first_timer_max_time cps) (max 0 (remaining k0 t))))"
proof -
  have ok: "timers_ok k0 ns" unfolding k0_def by (rule update_now_ok[OF assms(1,2)])
  have e: "eh_rb_root_is_empty (timer_tree k0) = (ns = [])" and f: "eh_rb_first (timer_tree k0) = hd0 ns"
    using rb_rep_root_is_empty rb_rep_first ok by (auto simp: timers_ok_def)
  show ?thesis
  proof (cases ns)
    case Nil
    then show ?thesis using assms(3) e
      by (simp add: eh_timer_get_first_remaining_time_on_lock_def k0_def[symmetric] Let_def)
  next
    case (Cons t ms)
    have "\<forall>m\<in>set ns. remaining k0 t \<le> remaining k0 m" using ok Cons by (auto simp: timers_ok_def by_key_def)
    moreover have "eh_timer_get_first_remaining_time_on_lock cps k
        = (min (first_timer_max_time cps) (max 0 (remaining k0 t)), k0)"
      using e f Cons assms(3)
      by (auto simp: eh_timer_get_first_remaining_time_on_lock_def k0_def[symmetric] Let_def remaining_def
          eh_remaining_time_def min_def max_def)
    ultimately show ?thesis using assms(3) Cons by (fastforce simp: min_def max_def)
  qed
qed

lemma timer_first_remaining_spec_witness:
  "\<exists>m. eh_timer_get_first_remaining_time_on_lock 1000000 (timer_demo 10) = (m, update_timer_now (timer_demo 10)) \<and> m = 0"
proof -
  have "first_timer_max_time 1000000 \<ge> 0"
    by (simp add: first_timer_max_time_def eh_msec_to_clock_def)
  from timer_first_remaining_spec[OF timer_demo_ok[of 10] timer_demo_in_time this]
  show ?thesis using timer_demo_now(1)[of 10] by fastforce
qed

end
