(* ===== verification/Eh_Core.thy ===== *)
theory Eh_Core
  imports Eh_Timer
begin

text \<open>
  The scheduler of \<^verbatim>\<open>eh_core.c\<close>: the poll functions, \<open>eh_task_next\<close>, and the life of a task.

  Code the kernel calls but does not contain is an argument: the functions of the loop poll
  tasks, the destructor of a task's system data and the platform's idle handler are fields of
  \<open>hooks\<close>, each a function on the state. What \<open>eh_malloc\<close> returns is an argument too. A
  context that was made by \<open>co_context_make\<close> and has not run yet starts in \<open>_task_entry\<close>
  and does not count a dispatch; the pointers of such tasks are the set \<open>fresh\<close>.
\<close>

record hooks =
  h_poll_task :: "ptr \<Rightarrow> kernel \<Rightarrow> kernel"
  h_destruct :: "ptr \<Rightarrow> ptr \<Rightarrow> kernel \<Rightarrow> kernel"
  h_idle_or_extern :: "kernel \<Rightarrow> kernel"

definition auto_destruct_task :: ptr where "auto_destruct_task = 1"

definition EH_CONFIG_TASK_DISPATCH_CNT_PER_POLL :: u32 where
  "EH_CONFIG_TASK_DISPATCH_CNT_PER_POLL = 4"

definition EH_STACK_PAD_BYTE :: u8 where "EH_STACK_PAD_BYTE = 0xFF"

definition update_task :: "ptr \<Rightarrow> (task \<Rightarrow> task) \<Rightarrow> kernel \<Rightarrow> kernel" where
  "update_task t f k = k\<lparr>tasks := (tasks k)(t := f (tasks k t))\<rparr>"

subsection \<open>The loop poll tasks\<close>

definition eh_loop_poll_task_add :: "ptr \<Rightarrow> kernel \<Rightarrow> kernel" where
  "eh_loop_poll_task_add p k =
     (if p \<in> set (loop_poll_task k) then k else k\<lparr>loop_poll_task := loop_poll_task k @ [p]\<rparr>)"

definition eh_loop_poll_task_del :: "ptr \<Rightarrow> kernel \<Rightarrow> kernel" where
  "eh_loop_poll_task_del p k = k\<lparr>loop_poll_task := remove1 p (loop_poll_task k)\<rparr>"

definition task_destroy :: "hooks \<Rightarrow> ptr \<Rightarrow> kernel \<Rightarrow> kernel" where
  "task_destroy h t k =
     (let tk = tasks k t;
          k = (if t_system_data tk \<noteq> NULL \<and> t_destruct tk \<noteq> NULL then h_destruct h (t_destruct tk) t k else k);
          k = eh_event_clean (t_event tk) k;
          k = task_unlink t k;
          k = (if \<not> is_static_stack (tasks k t) then k_free (t_stack_ptr (tasks k t)) k else k)
      in k_free t k)"

fun destroy_all :: "hooks \<Rightarrow> ptr list \<Rightarrow> kernel \<Rightarrow> kernel" where
  "destroy_all h [] k = k"
| "destroy_all h (t # ts) k = destroy_all h ts (task_destroy h t k)"

definition task_auto_destruct :: "hooks \<Rightarrow> kernel \<Rightarrow> kernel" where
  "task_auto_destruct h k =
     eh_loop_poll_task_del auto_destruct_task (destroy_all h (task_finish_auto_destruct_list k) k)"

definition kernel_clear :: "hooks \<Rightarrow> kernel \<Rightarrow> kernel" where
  "kernel_clear h k = destroy_all h (task_finish_auto_destruct_list k) k"

fun run_poll_tasks :: "hooks \<Rightarrow> ptr list \<Rightarrow> kernel \<Rightarrow> kernel" where
  "run_poll_tasks h [] k = k"
| "run_poll_tasks h (p # ps) k =
     run_poll_tasks h ps (if p = auto_destruct_task then task_auto_destruct h k else h_poll_task h p k)"

definition eh_poll_run :: "hooks \<Rightarrow> kernel \<Rightarrow> kernel" where
  "eh_poll_run h k = run_poll_tasks h (rev (loop_poll_task k)) k"

definition eh_poll :: "hooks \<Rightarrow> kernel \<Rightarrow> kernel option" where
  "eh_poll h k = eh_timer_check (h_idle_or_extern h (eh_poll_run h k))"

subsection \<open>Dispatching\<close>

definition add_idle_time :: "u64 \<Rightarrow> kernel \<Rightarrow> kernel" where
  "add_idle_time idle k =
     (if idle \<noteq> 0
      then (let (now, k) = eh_get_clock_monotonic_time k in k\<lparr>idle_time := idle_time k + (now - idle)\<rparr>)
      else k)"

text \<open>The switch to the next task of the ring, with the current task filed by its state.\<close>

definition task_switch :: "ptr set \<Rightarrow> kernel \<Rightarrow> kernel" where
  "task_switch fresh k =
     (let cur = current_task k;
          to = hd (ready_list k);
          k = k\<lparr>current_task := to, ready_list := tl (ready_list k)\<rparr>;
          k = (case t_state (tasks k cur) of
                 READY \<Rightarrow> set_task_state cur READY (k\<lparr>ready_list := ready_list k @ [cur]\<rparr>)
               | RUNING \<Rightarrow> set_task_state cur READY (k\<lparr>ready_list := ready_list k @ [cur]\<rparr>)
               | WAIT \<Rightarrow> k\<lparr>task_wait_list := task_wait_list k @ [cur]\<rparr>
               | FINISH \<Rightarrow>
                   (if is_auto_destruct (tasks k cur)
                    then eh_loop_poll_task_add auto_destruct_task
                           (k\<lparr>task_finish_auto_destruct_list := task_finish_auto_destruct_list k @ [cur]\<rparr>)
                    else k\<lparr>task_finish_list := task_finish_list k @ [cur]\<rparr>));
          k = set_task_state to RUNING k
      in if to \<in> fresh then k else k\<lparr>dispatch_cnt := dispatch_cnt k + 1\<rparr>)"

partial_function (option) task_next_loop :: "hooks \<Rightarrow> ptr set \<Rightarrow> u64 \<Rightarrow> kernel \<Rightarrow> kernel option" where
  "task_next_loop h fresh idle k =
     (if ready_list k \<noteq> [] then Some (task_switch fresh (add_idle_time idle k))
      else do {
        k \<leftarrow> eh_poll h k;
        if eh_task_get_current_state k = RUNING \<or> eh_task_get_current_state k = READY
        then Some (add_idle_time idle (eh_task_set_current_state RUNING k))
        else
          (let (idle, k) = (if idle = 0 then eh_get_clock_monotonic_time k else (idle, k))
           in task_next_loop h fresh idle k)
      })"

definition eh_task_next :: "hooks \<Rightarrow> ptr set \<Rightarrow> kernel \<Rightarrow> kernel option" where
  "eh_task_next h fresh k =
     do {
       k \<leftarrow> (if dispatch_cnt k mod EH_CONFIG_TASK_DISPATCH_CNT_PER_POLL = 0 then eh_poll h k else Some k);
       task_next_loop h fresh 0 k
     }"

definition eh_task_yield :: "hooks \<Rightarrow> ptr set \<Rightarrow> kernel \<Rightarrow> kernel option" where
  "eh_task_yield h fresh k = eh_task_next h fresh k"

definition eh_task_dispatch_cnt :: "kernel \<Rightarrow> u32" where
  "eh_task_dispatch_cnt k = dispatch_cnt k"

definition eh_task_idle_time :: "kernel \<Rightarrow> u64" where
  "eh_task_idle_time k = idle_time k"

definition eh_get_loop_idle_time :: "u64 \<Rightarrow> kernel \<Rightarrow> int \<times> kernel" where
  "eh_get_loop_idle_time cps k =
     (if ready_list k \<noteq> [] \<or> eh_task_get_current_state k = READY \<or> eh_task_get_current_state k = RUNING
      then (0, k) else eh_timer_get_first_remaining_time_on_lock cps k)"

subsection \<open>The life of a task\<close>

text \<open>The end of \<open>_task_entry\<close>, after the task function returned \<open>ret\<close>.\<close>

definition task_entry_finish :: "int \<Rightarrow> kernel \<Rightarrow> kernel" where
  "task_entry_finish ret k =
     (let cur = current_task k;
          k = update_task cur (\<lambda>t. t\<lparr>t_ret := ret\<rparr>) k;
          k = set_task_state cur FINISH k
      in snd (eh_event_notify (t_event (tasks k cur)) k))"

definition task_is_finish :: "ptr \<Rightarrow> kernel \<Rightarrow> bool" where
  "task_is_finish t k \<longleftrightarrow> t_state (tasks k t) = FINISH"

definition task_struct_init ::
  "ptr \<Rightarrow> bool \<Rightarrow> u32 \<Rightarrow> ptr \<Rightarrow> u8 list \<Rightarrow> ptr \<Rightarrow> ptr \<Rightarrow> kernel \<Rightarrow> kernel" where
  "task_struct_init t static flags sp stack arg fn k =
     (let k = task_unlink t k;
          k = update_task t (\<lambda>tk. tk\<lparr>t_function := fn, t_arg := arg, t_stack_ptr := sp, t_stack := stack, t_ret := 0,
                t_state := WAIT,
                t_flags := (flags AND EH_TASK_FLAGS_MASK) OR (if static then EH_TASK_FLAGS_STATIC else 0),
                t_system_data := NULL, t_destruct := NULL\<rparr>) k
      in snd (eh_event_init (t_event (tasks k t)) k))"

definition task_create_stack ::
  "ptr option \<Rightarrow> string \<Rightarrow> bool \<Rightarrow> u32 \<Rightarrow> ptr \<Rightarrow> nat \<Rightarrow> ptr \<Rightarrow> ptr \<Rightarrow> kernel \<Rightarrow> (int + ptr) \<times> kernel" where
  "task_create_stack mem name static flags stack stack_size arg fn k =
     (case mem of
        None \<Rightarrow> (Inl EH_RET_MALLOC_ERROR, k)
      | Some t \<Rightarrow>
          (let k = update_task t (\<lambda>tk. tk\<lparr>t_name := name\<rparr>) k;
               k = task_struct_init t static flags stack (replicate stack_size EH_STACK_PAD_BYTE) arg fn k
           in (Inr t, eh_task_wake_up t k)))"

definition eh_task_static_stack_create ::
  "ptr option \<Rightarrow> string \<Rightarrow> u32 \<Rightarrow> ptr \<Rightarrow> nat \<Rightarrow> ptr \<Rightarrow> ptr \<Rightarrow> kernel \<Rightarrow> (int + ptr) \<times> kernel" where
  "eh_task_static_stack_create mem name flags stack stack_size arg fn k =
     task_create_stack mem name True flags stack stack_size arg fn k"

text \<open>\<open>stack\<close> and \<open>mem\<close> are the results of the two allocations of \<open>eh_task_create\<close>.\<close>

definition eh_task_create ::
  "ptr option \<Rightarrow> ptr option \<Rightarrow> string \<Rightarrow> u32 \<Rightarrow> nat \<Rightarrow> ptr \<Rightarrow> ptr \<Rightarrow> kernel \<Rightarrow> (int + ptr) \<times> kernel" where
  "eh_task_create stack mem name flags stack_size arg fn k =
     (case stack of
        None \<Rightarrow> (Inl EH_RET_MALLOC_ERROR, k)
      | Some s \<Rightarrow>
          (case task_create_stack mem name False flags s stack_size arg fn k of
             (Inl e, k) \<Rightarrow> (Inl e, k_free s k)
           | (Inr t, k) \<Rightarrow> (Inr t, k)))"

definition eh_task_destroy :: "hooks \<Rightarrow> ptr \<Rightarrow> kernel \<Rightarrow> kernel" where
  "eh_task_destroy h t k = task_destroy h t k"

text \<open>\<open>eh_task_exit\<close> up to its call of \<open>eh_task_next\<close>.\<close>

definition eh_task_exit :: "int \<Rightarrow> kernel \<Rightarrow> kernel" where
  "eh_task_exit ret k =
     (let t = current_task k;
          k = update_task t (\<lambda>tk. tk\<lparr>t_ret := ret\<rparr>) k
      in if t \<noteq> main_task k
         then snd (eh_event_notify (t_event (tasks k t)) (set_task_state t FINISH k))
         else k)"

record task_sta =
  sta_state :: task_state
  sta_stack_size :: nat
  sta_stack_min_ever_free_size_level :: nat
  sta_task_name :: string

definition eh_task_sta :: "ptr \<Rightarrow> kernel \<Rightarrow> task_sta" where
  "eh_task_sta t k =
     \<lparr>sta_state = t_state (tasks k t), sta_stack_size = length (t_stack (tasks k t)),
      sta_stack_min_ever_free_size_level = length (takeWhile (\<lambda>b. b = EH_STACK_PAD_BYTE) (t_stack (tasks k t))),
      sta_task_name = t_name (tasks k t)\<rparr>"

definition eh_task_self :: "kernel \<Rightarrow> ptr" where "eh_task_self k = current_task k"
definition eh_task_main :: "kernel \<Rightarrow> ptr" where "eh_task_main k = main_task k"
definition eh_task_name :: "ptr \<Rightarrow> kernel \<Rightarrow> string" where "eh_task_name t k = t_name (tasks k t)"

definition main_task_init :: "ptr \<Rightarrow> kernel \<Rightarrow> kernel" where
  "main_task_init m k =
     (let k = k\<lparr>main_task := m, current_task := m\<rparr>;
          k = update_task m (\<lambda>t. t\<lparr>t_name := ''main_task''\<rparr>) k;
          k = task_struct_init m True 0 NULL [] NULL NULL k
      in set_task_state m RUNING k)"

definition interior_init :: "kernel \<Rightarrow> kernel" where
  "interior_init k =
     k\<lparr>ready_list := [], task_wait_list := [], task_finish_list := [],
       task_finish_auto_destruct_list := [], loop_poll_task := [],
       current_task := NULL, main_task := NULL, dispatch_cnt := 0, idle_time := 0\<rparr>"

end
