(* ===== verification/Eh_Sched_Spec.thy ===== *)
theory Eh_Sched_Spec
  imports Eh_Core Eh_Timer_Spec "HOL-Library.Multiset"
begin

text \<open>
  What the scheduler promises: the task lists stay consistent under every operation and no
  task is lost; tasks run in the order in which they became ready, woken system tasks first;
  the wait for the next task ends as soon as one is ready.
\<close>

subsection \<open>Switching\<close>

definition live :: "kernel \<Rightarrow> ptr set" where
  "live k = set (current_task k # linked k)"

lemma sched_inv_lists:
  "sched_inv k \<longleftrightarrow> distinct (current_task k # linked k)
     \<and> (\<forall>t\<in>set (ready_list k). t_state (tasks k t) = READY)
     \<and> (\<forall>t\<in>set (task_wait_list k). t_state (tasks k t) = WAIT)
     \<and> (\<forall>t\<in>set (task_finish_list k) \<union> set (task_finish_auto_destruct_list k). t_state (tasks k t) = FINISH)"
  by (auto simp: sched_inv_def)

lemma task_switch_effect:
  fixes fresh :: "ptr set"
  assumes "ready_list k = to # rest"
  defines "k' \<equiv> task_switch fresh k" and "cur \<equiv> current_task k"
  defines "s \<equiv> t_state (tasks k cur)"
  shows "current_task k' = to"
    and "ready_list k' = (if s = READY \<or> s = RUNING then rest @ [cur] else rest)"
    and "task_wait_list k' = (if s = WAIT then task_wait_list k @ [cur] else task_wait_list k)"
    and "task_finish_list k' = (if s = FINISH \<and> \<not> is_auto_destruct (tasks k cur)
           then task_finish_list k @ [cur] else task_finish_list k)"
    and "task_finish_auto_destruct_list k' = (if s = FINISH \<and> is_auto_destruct (tasks k cur)
           then task_finish_auto_destruct_list k @ [cur] else task_finish_auto_destruct_list k)"
    and "tasks k' = (tasks k)(cur := (tasks k cur)\<lparr>t_state := if s = RUNING then READY else s\<rparr>,
           to := (if to = cur then (tasks k cur)\<lparr>t_state := RUNING\<rparr> else (tasks k to)\<lparr>t_state := RUNING\<rparr>))"
    and "dispatch_cnt k' = (if to \<in> fresh then dispatch_cnt k else dispatch_cnt k + 1)"
    and "s = FINISH \<and> is_auto_destruct (tasks k cur) \<Longrightarrow> auto_destruct_task \<in> set (loop_poll_task k')"
  using assms(1)
  by (cases s; force simp: k'_def task_switch_def Let_def s_def cur_def set_task_state_def
      eh_loop_poll_task_add_def)+

lemma switch_live:
  assumes "ready_list k \<noteq> []"
  shows "mset (current_task (task_switch fresh k) # linked (task_switch fresh k)) = mset (current_task k # linked k)"
proof -
  obtain to rest where r: "ready_list k = to # rest" using assms by (cases "ready_list k") auto
  show ?thesis
    using r by (cases "t_state (tasks k (current_task k))") (simp_all add: linked_def task_switch_effect[OF r])
qed

lemma switch_inv:
  assumes "sched_inv k" "ready_list k \<noteq> []"
  shows "sched_inv (task_switch fresh k)"
proof -
  obtain to rest where r: "ready_list k = to # rest" using assms(2) by (cases "ready_list k") auto
  note e = task_switch_effect[OF r, of fresh]
  have d: "distinct (current_task k # linked k)" using assms(1) by (simp add: sched_inv_def)
  then have "distinct (current_task (task_switch fresh k) # linked (task_switch fresh k))"
    using switch_live[OF assms(2), of fresh] mset_eq_imp_distinct_iff by blast
  moreover have n: "to \<noteq> current_task k" "current_task k \<notin> set (linked k)" "to \<notin> set rest"
    "\<forall>t\<in>set (task_wait_list k) \<union> set (task_finish_list k) \<union> set (task_finish_auto_destruct_list k). t \<noteq> to"
    using d r by (auto simp: linked_def)
  then have "current_task k \<notin> set rest" "current_task k \<notin> set (task_wait_list k)"
    "current_task k \<notin> set (task_finish_list k)" "current_task k \<notin> set (task_finish_auto_destruct_list k)"
    using r by (auto simp: linked_def)
  ultimately show ?thesis
    using assms(1) r n
    by (cases "t_state (tasks k (current_task k))")
      (auto simp: sched_inv_lists e split: if_splits)
qed

subsection \<open>Every operation keeps the lists consistent\<close>

lemma set_current_state_inv: "sched_inv k \<Longrightarrow> sched_inv (eh_task_set_current_state s k)"
  by (auto simp: sched_inv_def linked_def eh_task_set_current_state_def)

lemma set_current_state_live [simp]: "live (eh_task_set_current_state s k) = live k"
  by (simp add: live_def linked_def eh_task_set_current_state_def)

lemma update_current_ret_inv:
  "sched_inv (update_task t (\<lambda>tk. tk\<lparr>t_ret := r\<rparr>) k) = sched_inv k"
  "live (update_task t (\<lambda>tk. tk\<lparr>t_ret := r\<rparr>) k) = live k"
  by (auto simp: sched_inv_def linked_def update_task_def live_def)

lemma notify_receptors_inv: "sched_inv k \<Longrightarrow> sched_inv (notify_receptors rs k)"
proof (induction rs arbitrary: k)
  case (Cons r rs)
  then show ?case using trigger_receptor_effect(4)[of "set_receptor_flag r RECEPTOR_TRIGGER k" r] by simp
qed simp

lemma clean_receptors_inv: "sched_inv k \<Longrightarrow> sched_inv (clean_receptors rs k)"
proof (induction rs arbitrary: k)
  case (Cons r rs)
  then show ?case using trigger_receptor_effect(4)[of "set_receptor_flag r RECEPTOR_ERROR k" r] by simp
qed simp

lemma receptor_list_inv [simp]: "sched_inv (k\<lparr>receptor_list := l\<rparr>) = sched_inv k"
  by (simp add: sched_inv_def linked_def)

lemma event_notify_inv: "sched_inv k \<Longrightarrow> sched_inv (snd (eh_event_notify e k))"
  by (simp add: eh_event_notify_def notify_receptors_inv)

lemma event_notify_and_reorder_inv: "sched_inv k \<Longrightarrow> sched_inv (snd (eh_event_notify_and_reorder e n k))"
  by (simp add: eh_event_notify_and_reorder_def notify_receptors_inv Let_def)

lemma event_clean_inv: "sched_inv k \<Longrightarrow> sched_inv (eh_event_clean e k)"
  by (simp add: eh_event_clean_def clean_receptors_inv)

lemma entry_finish_inv: "sched_inv k \<Longrightarrow> sched_inv (task_entry_finish ret k)"
proof -
  assume i: "sched_inv k"
  let ?k = "update_task (current_task k) (\<lambda>t. t\<lparr>t_ret := ret\<rparr>) k"
  have c: "current_task ?k = current_task k" by (simp add: update_task_def)
  have "sched_inv (set_task_state (current_task k) FINISH ?k)"
    using set_current_state_inv[of ?k FINISH] i by (simp add: update_current_ret_inv eh_task_set_current_state_def c)
  then show ?thesis using event_notify_inv by (simp add: task_entry_finish_def Let_def)
qed

lemma exit_inv: "sched_inv k \<Longrightarrow> sched_inv (eh_task_exit ret k)"
proof -
  assume i: "sched_inv k"
  let ?k = "update_task (current_task k) (\<lambda>t. t\<lparr>t_ret := ret\<rparr>) k"
  have c: "current_task ?k = current_task k" by (simp add: update_task_def)
  have "sched_inv (set_task_state (current_task k) FINISH ?k)"
    using set_current_state_inv[of ?k FINISH] i by (simp add: update_current_ret_inv eh_task_set_current_state_def c)
  then show ?thesis using event_notify_inv i by (simp add: eh_task_exit_def Let_def update_current_ret_inv)
qed

text \<open>A new task: its memory belongs to no task of the system.\<close>

lemma struct_init_effect:
  fixes flags :: u32
  assumes "t \<notin> live k"
  assumes k'_def: "k' = task_struct_init t static flags sp stack arg fn k"
  shows "linked k' = linked k" "current_task k' = current_task k" "ready_list k' = ready_list k"
    "t_state (tasks k' t) = WAIT" "\<And>x. x \<noteq> t \<Longrightarrow> tasks k' x = tasks k x"
    "sched_inv k \<Longrightarrow> sched_inv k'"
    "t_flags (tasks k' t) = (flags AND EH_TASK_FLAGS_MASK) OR (if static then EH_TASK_FLAGS_STATIC else 0)"
proof -
  have n: "t \<noteq> current_task k" "t \<notin> set (ready_list k)" "t \<notin> set (task_wait_list k)"
    "t \<notin> set (task_finish_list k)" "t \<notin> set (task_finish_auto_destruct_list k)"
    using assms(1) by (auto simp: live_def linked_def)
  show "linked k' = linked k" "current_task k' = current_task k" "ready_list k' = ready_list k"
    "t_state (tasks k' t) = WAIT" "\<And>x. x \<noteq> t \<Longrightarrow> tasks k' x = tasks k x"
    "t_flags (tasks k' t) = (flags AND EH_TASK_FLAGS_MASK) OR (if static then EH_TASK_FLAGS_STATIC else 0)"
    using n by (simp_all add: k'_def task_struct_init_def Let_def eh_event_init_def update_task_def
        task_unlink_def linked_def remove1_idem)
  show "sched_inv k \<Longrightarrow> sched_inv k'"
    using n by (auto simp: sched_inv_def k'_def task_struct_init_def Let_def eh_event_init_def update_task_def
        task_unlink_def linked_def remove1_idem)
qed

lemma create_stack_effect:
  assumes "t \<notin> live k" "sched_inv k"
  assumes r_def: "r = task_create_stack (Some t) name static flags sp n arg fn k"
  shows "fst r = Inr t" "sched_inv (snd r)" "t_state (tasks (snd r) t) = READY" "t \<in> set (ready_list (snd r))"
    "current_task (snd r) = current_task k" "\<And>x. x \<noteq> t \<Longrightarrow> tasks (snd r) x = tasks k x"
proof -
  let ?k1 = "update_task t (\<lambda>tk. tk\<lparr>t_name := name\<rparr>) k"
  let ?k2 = "task_struct_init t static flags sp (replicate n EH_STACK_PAD_BYTE) arg fn ?k1"
  have l: "t \<notin> live ?k1" "sched_inv ?k1" "current_task ?k1 = current_task k" "\<And>x. x \<noteq> t \<Longrightarrow> tasks ?k1 x = tasks k x"
    using assms by (auto simp: live_def linked_def update_task_def sched_inv_def)
  note e = struct_init_effect[OF l(1) refl, where static = static and flags = flags and sp = sp
      and stack = "replicate n EH_STACK_PAD_BYTE" and arg = arg and fn = fn]
  have r: "r = (Inr t, eh_task_wake_up t ?k2)" by (simp add: r_def task_create_stack_def Let_def)
  have nc: "t \<noteq> current_task ?k2" using e(2) l(3) assms(1) by (auto simp: live_def)
  show "fst r = Inr t" by (simp add: r)
  show "sched_inv (snd r)" using wake_up_inv[OF e(6)[OF l(2)]] by (simp add: r)
  show "t \<in> set (ready_list (snd r))" using wake_up_ready_set(2)[of ?k2 t] e(4) nc by (auto simp: r)
  note w = woken_state[OF wake_up_woken[of t ?k2]]
  show "t_state (tasks (snd r) t) = READY" using w(1)[of t] e(4) by (simp add: r)
  show "current_task (snd r) = current_task k" using e(2) l(3) by (simp add: r)
  show "\<And>x. x \<noteq> t \<Longrightarrow> tasks (snd r) x = tasks k x"
    using wake_up_woken[of t ?k2] e(5) l(4) by (simp add: r woken_def)
qed

text \<open>Destroying a finished task (its system data is already gone).\<close>

lemma unlink_inv: "sched_inv k \<Longrightarrow> sched_inv (task_unlink t k)"
  by (auto simp: sched_inv_lists linked_def task_unlink_def dest: in_set_remove1 notin_set_remove1 intro: distinct_remove1)

lemma k_free_inv [simp]: "sched_inv (k_free p k) = sched_inv k"
  by (simp add: sched_inv_def linked_def k_free_def)

lemma destroy_inv:
  assumes "sched_inv k" "t_system_data (tasks k t) = NULL"
  shows "sched_inv (task_destroy h t k)"
proof -
  have "sched_inv (task_unlink t (eh_event_clean (t_event (tasks k t)) k))"
    by (rule unlink_inv[OF event_clean_inv[OF assms(1)]])
  then show ?thesis using assms(2) by (auto simp: task_destroy_def Let_def)
qed

subsection \<open>Timers and polling\<close>

lemma tree_inv [simp]:
  "sched_inv (k\<lparr>timer_tree := x\<rparr>) = sched_inv k" "sched_inv (k\<lparr>loop_poll_task := l\<rparr>) = sched_inv k"
  "sched_inv (k\<lparr>idle_time := d\<rparr>) = sched_inv k" "sched_inv (eh_idle_break k) = sched_inv k"
  "sched_inv (snd (eh_get_clock_monotonic_time k)) = sched_inv k"
  by (simp_all add: sched_inv_def linked_def eh_idle_break_def eh_get_clock_monotonic_time_def)

lemma start_no_lock_inv: "eh_timer_start_no_lock base t k = Some (r, k') \<Longrightarrow> sched_inv k' = sched_inv k"
  by (auto simp: eh_timer_start_no_lock_def Let_def split: if_splits bind_splits)

lemma timer_remove_inv: "timer_remove t k = Some k' \<Longrightarrow> sched_inv k' = sched_inv k"
  by (auto simp: timer_remove_def split: bind_splits)

lemma timer_start_inv: "eh_timer_start t k = Some (r, k') \<Longrightarrow> sched_inv k' = sched_inv k"
  by (auto simp: eh_timer_start_def Let_def start_no_lock_inv split: if_splits bind_splits)

lemma timer_stop_inv: "eh_timer_stop t k = Some (r, k') \<Longrightarrow> sched_inv k' = sched_inv k"
  by (auto simp: eh_timer_stop_def timer_remove_inv split: if_splits bind_splits)

lemma timer_restart_inv: "eh_timer_restart t k = Some (r, k') \<Longrightarrow> sched_inv k' = sched_inv k"
  by (auto simp: eh_timer_restart_def Let_def start_no_lock_inv timer_remove_inv split: if_splits bind_splits)

lemma timer_fire_inv: "timer_fire t k = Some k' \<Longrightarrow> sched_inv k \<Longrightarrow> sched_inv k'"
  using event_notify_inv[of k t]
  by (auto simp: timer_fire_def Let_def start_no_lock_inv timer_remove_inv split: if_splits bind_splits prod.splits)

lemma timer_check_loop_inv: "timer_check_loop k = Some k' \<Longrightarrow> sched_inv k \<longrightarrow> sched_inv k'"
proof (rule timer_check_loop.raw_induct[of "\<lambda>k k'. sched_inv k \<longrightarrow> sched_inv k'"])
  fix loop k k'
  assume IH: "\<And>k k'. loop k = Some k' \<Longrightarrow> sched_inv k \<longrightarrow> sched_inv k'"
    and r: "(let t = eh_rb_first (timer_tree k)
        in if t \<noteq> NULL \<and> eh_remaining_time (timer_now k) (timers k t) \<le> 0
           then do { k \<leftarrow> timer_fire t k; loop k } else Some k) = Some k'"
  show "sched_inv k \<longrightarrow> sched_inv k'"
    using r timer_fire_inv IH by (auto simp: Let_def split: if_splits bind_splits)
qed

lemma timer_check_inv: "eh_timer_check k = Some k' \<Longrightarrow> sched_inv k \<Longrightarrow> sched_inv k'"
  using timer_check_loop_inv[of "update_timer_now k" k']
  by (auto simp: eh_timer_check_def Let_def split: if_splits)

text \<open>The code behind the hooks keeps the lists consistent, as the operations of the kernel do.\<close>

definition hooks_keep :: "(kernel \<Rightarrow> bool) \<Rightarrow> hooks \<Rightarrow> bool" where
  "hooks_keep P h \<longleftrightarrow>
     (\<forall>p k. P k \<longrightarrow> P (h_poll_task h p k)) \<and> (\<forall>d t k. P k \<longrightarrow> P (h_destruct h d t k))
     \<and> (\<forall>k. P k \<longrightarrow> P (h_idle_or_extern h k))"

lemma destroy_any_inv: "hooks_keep sched_inv h \<Longrightarrow> sched_inv k \<Longrightarrow> sched_inv (task_destroy h t k)"
proof -
  assume h: "hooks_keep sched_inv h" and i: "sched_inv k"
  let ?k = "if t_system_data (tasks k t) \<noteq> NULL \<and> t_destruct (tasks k t) \<noteq> NULL
     then h_destruct h (t_destruct (tasks k t)) t k else k"
  have "sched_inv ?k" using h i by (simp add: hooks_keep_def)
  then have "sched_inv (task_unlink t (eh_event_clean (t_event (tasks k t)) ?k))"
    by (intro unlink_inv event_clean_inv)
  then show ?thesis unfolding task_destroy_def Let_def by (simp del: k_free_inv add: k_free_inv split: if_split)
qed

lemma destroy_all_inv: "hooks_keep sched_inv h \<Longrightarrow> sched_inv k \<Longrightarrow> sched_inv (destroy_all h ts k)"
  by (induction ts arbitrary: k) (simp_all add: destroy_any_inv)

lemma run_poll_tasks_inv: "hooks_keep sched_inv h \<Longrightarrow> sched_inv k \<Longrightarrow> sched_inv (run_poll_tasks h ps k)"
proof (induction ps arbitrary: k)
  case (Cons p ps)
  then show ?case
    by (simp add: task_auto_destruct_def eh_loop_poll_task_del_def destroy_all_inv) (simp add: hooks_keep_def)
qed simp

lemma eh_poll_inv: "hooks_keep sched_inv h \<Longrightarrow> eh_poll h k = Some k' \<Longrightarrow> sched_inv k \<Longrightarrow> sched_inv k'"
  using run_poll_tasks_inv[of h k "rev (loop_poll_task k)"]
  by (auto simp: eh_poll_def eh_poll_run_def hooks_keep_def intro: timer_check_inv)

lemma add_idle_inv [simp]: "sched_inv (add_idle_time d k) = sched_inv k"
  by (auto simp: add_idle_time_def eh_get_clock_monotonic_time_def Let_def sched_inv_def linked_def)

lemma add_idle_fields [simp]: "ready_list (add_idle_time d k) = ready_list k"
  "current_task (add_idle_time d k) = current_task k" "tasks (add_idle_time d k) = tasks k"
  by (auto simp: add_idle_time_def eh_get_clock_monotonic_time_def Let_def)

lemma task_next_loop_inv:
  "task_next_loop h fresh idle k = Some k' \<Longrightarrow> hooks_keep sched_inv h \<longrightarrow> sched_inv k \<longrightarrow> sched_inv k'"
proof (rule task_next_loop.raw_induct[of "\<lambda>h fresh idle k k'. hooks_keep sched_inv h \<longrightarrow> sched_inv k \<longrightarrow> sched_inv k'"],
    intro impI)
  fix loop h fresh idle k k'
  assume IH: "\<And>h fresh idle k k'. loop h fresh idle k = Some k' \<Longrightarrow> hooks_keep sched_inv h \<longrightarrow> sched_inv k \<longrightarrow> sched_inv k'"
    and r: "(if ready_list k \<noteq> [] then Some (task_switch fresh (add_idle_time idle k))
      else do {
        k \<leftarrow> eh_poll h k;
        if eh_task_get_current_state k = RUNING \<or> eh_task_get_current_state k = READY
        then Some (add_idle_time idle (eh_task_set_current_state RUNING k))
        else
          (let (idle, k) = (if idle = 0 then eh_get_clock_monotonic_time k else (idle, k))
           in loop h fresh idle k)
      }) = Some k'"
    and h: "hooks_keep sched_inv h" and i: "sched_inv k"
  show "sched_inv k'"
  proof (cases "ready_list k = []")
    case False
    then have "k' = task_switch fresh (add_idle_time idle k)" using r by simp
    then show ?thesis using False i by (simp add: switch_inv)
  next
    case True
    then obtain k1 where k1: "eh_poll h k = Some k1" using r by (auto split: bind_splits)
    have i1: "sched_inv k1" by (rule eh_poll_inv[OF h k1 i])
    show ?thesis
    proof (cases "eh_task_get_current_state k1 = RUNING \<or> eh_task_get_current_state k1 = READY")
      case T: True
      then show ?thesis using r True k1 set_current_state_inv[OF i1] by auto
    next
      case F: False
      obtain c k2 where c: "eh_get_clock_monotonic_time k1 = (c, k2)" by fastforce
      have i2: "sched_inv k2" using i1 tree_inv(5)[of k1] c by simp
      have "loop h fresh c k2 = Some k' \<or> loop h fresh idle k1 = Some k'"
        using r True k1 F c by (cases "idle = 0") (simp_all add: Let_def)
      then show ?thesis using IH h i1 i2 by blast
    qed
  qed
qed

lemma task_next_inv:
  assumes "hooks_keep sched_inv h" "eh_task_next h fresh k = Some k'" "sched_inv k"
  shows "sched_inv k'"
  using assms eh_poll_inv[OF assms(1)] task_next_loop_inv[of h fresh]
  by (auto simp: eh_task_next_def split: bind_splits if_splits)

subsection \<open>Reachable states\<close>

text \<open>
  One step of the system: an operation of the kernel, called by the running task, by the poll
  loop or by an interrupt. A wait is \<open>step_state\<close> followed by \<open>step_next\<close>.
\<close>

inductive sched_step :: "hooks \<Rightarrow> ptr set \<Rightarrow> kernel \<Rightarrow> kernel \<Rightarrow> bool" for h fresh where
  step_next: "eh_task_next h fresh k = Some k' \<Longrightarrow> sched_step h fresh k k'"
| step_wake: "sched_step h fresh k (eh_task_wake_up t k)"
| step_notify: "sched_step h fresh k (snd (eh_event_notify e k))"
| step_notify_some: "sched_step h fresh k (snd (eh_event_notify_and_reorder e n k))"
| step_clean: "sched_step h fresh k (eh_event_clean e k)"
| step_state: "sched_step h fresh k (eh_task_set_current_state s k)"
| step_finish: "sched_step h fresh k (task_entry_finish ret k)"
| step_exit: "sched_step h fresh k (eh_task_exit ret k)"
| step_create: "t \<notin> live k \<Longrightarrow> sched_step h fresh k (snd (task_create_stack (Some t) name static flags sp n arg fn k))"
| step_destroy: "sched_step h fresh k (task_destroy h t k)"
| step_check: "eh_timer_check k = Some k' \<Longrightarrow> sched_step h fresh k k'"
| step_start: "eh_timer_start t k = Some (r, k') \<Longrightarrow> sched_step h fresh k k'"
| step_stop: "eh_timer_stop t k = Some (r, k') \<Longrightarrow> sched_step h fresh k k'"
| step_restart: "eh_timer_restart t k = Some (r, k') \<Longrightarrow> sched_step h fresh k k'"

lemma sched_step_inv: "sched_step h fresh k k' \<Longrightarrow> hooks_keep sched_inv h \<Longrightarrow> sched_inv k \<Longrightarrow> sched_inv k'"
proof (induction rule: sched_step.induct)
  case (step_create t k name static flags sp n arg fn)
  then show ?case using create_stack_effect(2)[OF step_create(1) _ refl] by blast
qed (use task_next_inv timer_check_inv timer_start_inv timer_stop_inv timer_restart_inv in blast
    | simp only: wake_up_inv event_notify_inv event_notify_and_reorder_inv event_clean_inv
      set_current_state_inv entry_finish_inv exit_inv destroy_any_inv)+

lemma struct_init_lists:
  fixes k :: kernel and flags :: u32
  assumes "k' = task_struct_init t static flags sp stack arg fn k"
  shows "ready_list k' = remove1 t (ready_list k)" "task_wait_list k' = remove1 t (task_wait_list k)"
    "task_finish_list k' = remove1 t (task_finish_list k)"
    "task_finish_auto_destruct_list k' = remove1 t (task_finish_auto_destruct_list k)"
    "current_task k' = current_task k"
proof -
  define k1 where "k1 = update_task t (\<lambda>tk. tk\<lparr>t_function := fn, t_arg := arg, t_stack_ptr := sp, t_stack := stack, t_ret := 0,
                t_state := WAIT,
                t_flags := (flags AND EH_TASK_FLAGS_MASK) OR (if static then EH_TASK_FLAGS_STATIC else 0),
                t_system_data := NULL, t_destruct := NULL\<rparr>) (task_unlink t k)"
  have "k' = snd (eh_event_init (t_event (tasks k1 t)) k1)"
    unfolding assms task_struct_init_def Let_def k1_def ..
  moreover have "ready_list k1 = remove1 t (ready_list k)" "task_wait_list k1 = remove1 t (task_wait_list k)"
    "task_finish_list k1 = remove1 t (task_finish_list k)"
    "task_finish_auto_destruct_list k1 = remove1 t (task_finish_auto_destruct_list k)"
    "current_task k1 = current_task k"
    by (simp_all add: k1_def update_task_def task_unlink_def)
  ultimately show "ready_list k' = remove1 t (ready_list k)" "task_wait_list k' = remove1 t (task_wait_list k)"
    "task_finish_list k' = remove1 t (task_finish_list k)"
    "task_finish_auto_destruct_list k' = remove1 t (task_finish_auto_destruct_list k)"
    "current_task k' = current_task k"
    by (simp_all add: eh_event_init_def)
qed

lemma main_task_init_inv:
  fixes k :: kernel and m :: ptr
  defines "k' \<equiv> main_task_init m (interior_init k)"
  shows "sched_inv k'" "live k' = {m}" "current_task k' = m" "t_state (tasks k' m) = RUNING"
proof -
  define k1 where "k1 = task_struct_init m True 0 NULL [] NULL NULL
    (update_task m (\<lambda>t. t\<lparr>t_name := ''main_task''\<rparr>) ((interior_init k)\<lparr>main_task := m, current_task := m\<rparr>))"
  have k': "k' = set_task_state m RUNING k1" by (simp add: k'_def main_task_init_def k1_def Let_def)
  have l: "ready_list k1 = [] \<and> task_wait_list k1 = [] \<and> task_finish_list k1 = []
    \<and> task_finish_auto_destruct_list k1 = [] \<and> current_task k1 = m"
    using struct_init_lists[OF k1_def] by (simp add: update_task_def interior_init_def)
  show "sched_inv k'" "live k' = {m}" "current_task k' = m" "t_state (tasks k' m) = RUNING"
    using l by (simp_all add: k' sched_inv_def live_def linked_def)
qed


definition no_hooks :: hooks where
  "no_hooks = \<lparr>h_poll_task = (\<lambda>_ k. k), h_destruct = (\<lambda>_ _ k. k), h_idle_or_extern = (\<lambda>k. k)\<rparr>"

lemma no_hooks_keep: "hooks_keep P no_hooks"
  by (simp add: hooks_keep_def no_hooks_def)


subsection \<open>The order of dispatch\<close>

text \<open>
  A run with \<open>n\<close> switches, between which tasks that are not system tasks become ready and the
  running task changes its state.
\<close>

inductive dispatches :: "ptr set \<Rightarrow> nat \<Rightarrow> kernel \<Rightarrow> kernel \<Rightarrow> bool" for fresh where
  start: "dispatches fresh 0 k k"
| wake: "dispatches fresh n k k' \<Longrightarrow> \<not> is_system_task (tasks k' t) \<Longrightarrow> dispatches fresh n k (eh_task_wake_up t k')"
| state: "dispatches fresh n k k' \<Longrightarrow> dispatches fresh n k (eh_task_set_current_state s k')"
| switch: "dispatches fresh n k k' \<Longrightarrow> ready_list k' \<noteq> [] \<Longrightarrow> dispatches fresh (Suc n) k (task_switch fresh k')"

lemma dispatches_queue:
  assumes "dispatches fresh n k k'" "sched_inv k" "n \<le> length (ready_list k)"
  shows "sched_inv k' \<and> (\<exists>zs. ready_list k' = drop n (ready_list k) @ zs)"
  using assms
proof (induction rule: dispatches.induct)
  case (start k)
  then show ?case by simp
next
  case (wake n k k' t)
  then have IH: "sched_inv k'" "\<exists>zs. ready_list k' = drop n (ready_list k) @ zs" by auto
  have "\<exists>zs. ready_list (eh_task_wake_up t k') = ready_list k' @ zs"
  proof (cases "t_state (tasks k' t) = WAIT \<and> t \<noteq> current_task k'")
    case True
    then have "t \<notin> set (ready_list k')" using sched_inv_wait_notin(1)[OF IH(1)] by blast
    then show ?thesis using wake_up_ready_list[of k' t] True wake(2) by (simp add: remove1_idem)
  next
    case False
    then show ?thesis by (auto simp: eh_task_wake_up_def Let_def)
  qed
  then show ?case using IH wake_up_inv[OF IH(1)] by auto
next
  case (state n k k' s)
  have "ready_list (eh_task_set_current_state s k') = ready_list k'" by (simp add: eh_task_set_current_state_def)
  then show ?case using state set_current_state_inv[of k' s] by simp
next
  case (switch n k k')
  then obtain zs where IH: "sched_inv k'" "ready_list k' = drop n (ready_list k) @ zs" by auto
  have n: "n < length (ready_list k)" using switch(5) by simp
  then have r: "ready_list k' = ready_list k ! n # (drop (Suc n) (ready_list k) @ zs)"
    using IH(2) Cons_nth_drop_Suc[OF n] by simp
  then show ?case using switch_inv[OF IH(1) switch(2), of fresh] task_switch_effect(2)[OF r, of fresh] by auto
qed

text \<open>
  C8. Round robin: a task behind \<open>n\<close> others on the ready list is dispatched by the switch
  after \<open>n\<close> switches, whatever tasks become ready meanwhile, as long as no system task does.
\<close>

theorem round_robin:
  assumes "sched_inv k" "ready_list k = xs @ t # ys" "dispatches fresh (length xs) k k'"
  shows "ready_list k' \<noteq> [] \<and> current_task (task_switch fresh k') = t
    \<and> t_state (tasks (task_switch fresh k') t) = RUNING"
proof -
  obtain zs where "ready_list k' = drop (length xs) (ready_list k) @ zs"
    using dispatches_queue[OF assms(3,1)] assms(2) by auto
  then have r: "ready_list k' = t # (ys @ zs)" using assms(2) by simp
  show ?thesis using task_switch_effect(1,6)[OF r, of fresh] by (simp add: r)
qed

lemma round_robin_witness:
  "current_task (task_switch {} (eh_task_wake_up 2 (task_switch {}
     (demo\<lparr>ready_list := [7, 8], tasks := (tasks demo)(7 := plain_task READY 0, 8 := plain_task READY 0)\<rparr>)))) = 8"
proof -
  let ?k = "demo\<lparr>ready_list := [7, 8], tasks := (tasks demo)(7 := plain_task READY 0, 8 := plain_task READY 0)\<rparr>"
  have i: "sched_inv ?k" by (simp add: sched_inv_def linked_def demo_def)
  have r: "ready_list ?k = [7] @ 8 # []" by simp
  have s: "dispatches {} (Suc 0) ?k (task_switch {} ?k)" by (intro dispatches.switch dispatches.start) simp
  have "\<not> is_system_task (tasks (task_switch {} ?k) 2)"
    using task_switch_effect(6)[of ?k 7 "[8]" "{}"] by (simp add: is_system_task_def)
  then have "dispatches {} (length [7::ptr]) ?k (eh_task_wake_up 2 (task_switch {} ?k))"
    using dispatches.wake[OF s, of 2] by simp
  from round_robin[OF i r this] show ?thesis by simp
qed

text \<open>
  A waiting system task that is woken is dispatched by the next switch, before all ready
  tasks; another waiting task goes behind all of them; a task that does not wait is not moved.
\<close>

theorem wake_up_order:
  assumes "sched_inv k" "t \<noteq> current_task k"
  shows "if t_state (tasks k t) \<noteq> WAIT then eh_task_wake_up t k = k
    else t_state (tasks (eh_task_wake_up t k) t) = READY \<and>
      (if is_system_task (tasks k t)
       then ready_list (eh_task_wake_up t k) = t # ready_list k
            \<and> current_task (task_switch fresh (eh_task_wake_up t k)) = t
       else ready_list (eh_task_wake_up t k) = ready_list k @ [t])"
proof (cases "t_state (tasks k t) = WAIT")
  case True
  then have n: "t \<notin> set (ready_list k)" by (rule sched_inv_wait_notin(1)[OF assms(1)])
  have s: "t_state (tasks (eh_task_wake_up t k) t) = READY" using woken_state(1)[OF wake_up_woken, of t k t] True by simp
  note r = wake_up_ready_list[OF True assms(2), unfolded remove1_idem[OF n]]
  show ?thesis
  proof (cases "is_system_task (tasks k t)")
    case T: True
    then show ?thesis using True r s task_switch_effect(1)[of "eh_task_wake_up t k" t "ready_list k" fresh] by simp
  qed (use True r s in simp)
qed (simp add: wake_up_not_waiting)

lemma wake_up_order_witness:
  "ready_list (eh_task_wake_up 3 demo) = [3] \<and> ready_list (eh_task_wake_up 2 (eh_task_wake_up 3 demo)) = [3, 2]"
proof -
  have a: "is_system_task (tasks demo 3)" "\<not> is_system_task (tasks demo 2)"
    by (simp_all add: is_system_task_def EH_TASK_FLAGS_SYSTEM_TASK_def)
  have b: "ready_list (eh_task_wake_up 3 demo) = [3]" using wake_up_order[OF demo_inv, of 3] a by simp
  have c: "tasks (eh_task_wake_up 3 demo) 2 = tasks demo 2"
    using wake_up_woken[of 3 demo] by (simp add: woken_def)
  show ?thesis using wake_up_order[OF wake_up_inv[OF demo_inv, of 3], of 2] a b c by simp
qed

end
