(* ===== verification/Eh_Wait.thy ===== *)
theory Eh_Wait
  imports Eh_Core
begin

text \<open>
  Waiting for an event (\<^verbatim>\<open>eh_event.c\<close>) and sleeping (\<^verbatim>\<open>eh_sleep.c\<close>).

  A wait is cut at its \<open>__await eh_task_next()\<close>: \<open>wait_enter\<close> is the code up to the loop,
  \<open>wait_round\<close> one round of the loop up to the point where the task gives up the processor
  or the wait returns, and the scheduler runs between the rounds. The condition of a wait
  is a function on the kernel and the object it is about (a semaphore, a mutex, flags), which
  returns its truth value and the object, which it may change. The receptors and the timer on
  the stack of the waiting task are named by arguments.
\<close>

type_synonym 'o condition = "kernel \<Rightarrow> 'o \<Rightarrow> bool \<times> 'o"

definition eval_condition :: "'o condition option \<Rightarrow> kernel \<Rightarrow> 'o \<Rightarrow> bool \<times> 'o" where
  "eval_condition c k ob = (case c of None \<Rightarrow> (False, ob) | Some f \<Rightarrow> f k ob)"

definition EH_TIME_FOREVER :: u64 where "EH_TIME_FOREVER = -1"

definition eh_time_is_forever :: "u64 \<Rightarrow> bool" where
  "eh_time_is_forever t \<longleftrightarrow> t = EH_TIME_FOREVER"

subsection \<open>Waiting without a timeout\<close>

definition wait_enter :: "ptr \<Rightarrow> ptr \<Rightarrow> 'o condition option \<Rightarrow> kernel \<Rightarrow> 'o \<Rightarrow> int option \<times> kernel \<times> 'o" where
  "wait_enter r e c k ob =
     (let (b, ob) = eval_condition c k ob
      in if b then (Some EH_RET_OK, k, ob)
         else (None, eh_event_add_receptor_no_lock e r (eh_event_receptor_init r (current_task k) k), ob))"

text \<open>The test at the head of the loop: the result of the wait, if it is over.\<close>

definition wait_test :: "ptr \<Rightarrow> 'o condition option \<Rightarrow> kernel \<Rightarrow> 'o \<Rightarrow> int option \<times> 'o" where
  "wait_test r c k ob =
     (case c of
        Some f \<Rightarrow>
          (if r_error (receptors k r) then (Some EH_RET_EVENT_ERROR, ob)
           else (let (b, ob) = f k ob in (if b then Some EH_RET_OK else None, ob)))
      | None \<Rightarrow>
          (if r_any (receptors k r)
           then (Some (if r_trigger (receptors k r) then EH_RET_OK else EH_RET_EVENT_ERROR), ob)
           else (None, ob)))"

definition wait_round :: "ptr \<Rightarrow> 'o condition option \<Rightarrow> kernel \<Rightarrow> 'o \<Rightarrow> int option \<times> kernel \<times> 'o" where
  "wait_round r c k ob =
     (case wait_test r c k ob of
        (Some ret, ob) \<Rightarrow> (Some ret, eh_event_remove_receptor_no_lock r k, ob)
      | (None, ob) \<Rightarrow> (None, eh_task_set_current_state WAIT k, ob))"

subsection \<open>Waiting with a timeout\<close>

definition wait_timeout_enter ::
  "ptr \<Rightarrow> ptr \<Rightarrow> ptr \<Rightarrow> ptr \<Rightarrow> 'o condition option \<Rightarrow> u64 \<Rightarrow> kernel \<Rightarrow> 'o \<Rightarrow> (int option \<times> kernel \<times> 'o) option" where
  "wait_timeout_enter r rt tm e c timeout k ob =
     (let (b, ob) = eval_condition c k ob
      in if b then Some (Some EH_RET_OK, k, ob)
         else do {
           let k = eh_event_receptor_init r (current_task k) k;
           let k = eh_event_receptor_init rt (current_task k) k;
           let (_, k) = eh_timer_init tm k;
           let k = eh_timer_config_interval tm timeout k;
           let k = eh_event_add_receptor_no_lock tm rt k;
           (_, k) \<leftarrow> eh_timer_start tm k;
           Some (None, eh_event_add_receptor_no_lock e r k, ob)
         })"

definition wait_timeout_test :: "ptr \<Rightarrow> ptr \<Rightarrow> 'o condition option \<Rightarrow> kernel \<Rightarrow> 'o \<Rightarrow> int option \<times> 'o" where
  "wait_timeout_test r rt c k ob =
     (case wait_test r c k ob of
        (Some ret, ob) \<Rightarrow> (Some ret, ob)
      | (None, ob) \<Rightarrow>
          (if r_any (receptors k rt)
           then (Some (if r_trigger (receptors k rt) then EH_RET_TIMEOUT else EH_RET_EVENT_ERROR), ob)
           else (None, ob)))"

definition wait_timeout_round ::
  "ptr \<Rightarrow> ptr \<Rightarrow> ptr \<Rightarrow> 'o condition option \<Rightarrow> kernel \<Rightarrow> 'o \<Rightarrow> (int option \<times> kernel \<times> 'o) option" where
  "wait_timeout_round r rt tm c k ob =
     (case wait_timeout_test r rt c k ob of
        (Some ret, ob) \<Rightarrow> do {
          (_, k) \<leftarrow> eh_timer_stop tm (eh_event_remove_receptor_no_lock r k);
          Some (Some ret, eh_event_remove_receptor_no_lock rt k, ob)
        }
      | (None, ob) \<Rightarrow> Some (None, eh_task_set_current_state WAIT k, ob))"

subsection \<open>The public wait\<close>

text \<open>
  \<open>eh_event_wait_condition_timeout\<close> chooses between waiting for ever, not waiting and waiting
  with a timer; \<open>wait_kind\<close> is that choice and the first step of it.
\<close>

datatype wait_mode = Forever | Poll | Timed

definition wait_mode_of :: "u64 \<Rightarrow> wait_mode" where
  "wait_mode_of timeout =
     (if eh_time_is_forever timeout then Forever else if timeout = 0 then Poll else Timed)"

definition eh_event_wait_condition_timeout_enter ::
  "ptr \<Rightarrow> ptr \<Rightarrow> ptr \<Rightarrow> ptr \<Rightarrow> 'o condition option \<Rightarrow> u64 \<Rightarrow> kernel \<Rightarrow> 'o \<Rightarrow> (int option \<times> kernel \<times> 'o) option" where
  "eh_event_wait_condition_timeout_enter r rt tm e c timeout k ob =
     (case wait_mode_of timeout of
        Forever \<Rightarrow> Some (wait_enter r e c k ob)
      | Poll \<Rightarrow>
          (let (b, ob) = eval_condition c k ob
           in Some (Some (if b then EH_RET_OK else EH_RET_TIMEOUT), k, ob))
      | Timed \<Rightarrow> wait_timeout_enter r rt tm e c timeout k ob)"

definition eh_event_wait_condition_timeout_round ::
  "ptr \<Rightarrow> ptr \<Rightarrow> ptr \<Rightarrow> 'o condition option \<Rightarrow> u64 \<Rightarrow> kernel \<Rightarrow> 'o \<Rightarrow> (int option \<times> kernel \<times> 'o) option" where
  "eh_event_wait_condition_timeout_round r rt tm c timeout k ob =
     (case wait_mode_of timeout of
        Timed \<Rightarrow> wait_timeout_round r rt tm c k ob
      | _ \<Rightarrow> Some (wait_round r c k ob))"

subsection \<open>Joining a task and sleeping\<close>

definition join_condition :: "ptr \<Rightarrow> unit condition" where
  "join_condition t = (\<lambda>k ob. (task_is_finish t k, ob))"

text \<open>The end of \<open>eh_task_join\<close>, after its wait returned \<open>ret\<close>: the result and the task's return value.\<close>

definition eh_task_join_finish :: "hooks \<Rightarrow> ptr \<Rightarrow> int \<Rightarrow> kernel \<Rightarrow> (int \<times> int option) \<times> kernel" where
  "eh_task_join_finish h t ret k =
     (if ret < 0 then ((ret, None), k)
      else ((EH_RET_OK, Some (t_ret (tasks k t))), task_destroy h t k))"

text \<open>\<open>eh_usleep\<close> before and after its wait on the event of the timer \<open>tm\<close>.\<close>

definition eh_usleep_begin :: "u64 \<Rightarrow> ptr \<Rightarrow> u64 \<Rightarrow> kernel \<Rightarrow> kernel option" where
  "eh_usleep_begin cps tm usec k =
     (if usec = 0 then Some k
      else do {
        let (_, k) = eh_timer_advanced_init tm (eh_usec_to_clock cps usec) 0 k;
        (_, k) \<leftarrow> eh_timer_start tm k;
        Some k
      })"

definition eh_usleep_end :: "ptr \<Rightarrow> kernel \<Rightarrow> kernel option" where
  "eh_usleep_end tm k = eh_timer_clean tm k"

end
