(* ===== verification/Eh_Sync.thy ===== *)
theory Eh_Sync
  imports Eh_Wait
begin

text \<open>
  Semaphores (\<^verbatim>\<open>eh_sem.c\<close>), mutexes (\<^verbatim>\<open>eh_mutex.c\<close>) and event flags
  (\<^verbatim>\<open>eh_event_flags.c\<close>) as objects that the waits of \<open>Eh_Wait\<close> carry along. An operation
  that waits is given by its condition and by what it does when the wait has returned.
\<close>

subsection \<open>Semaphores\<close>

record sem =
  sem_event :: ptr
  sem_num_p :: u32
  sem_num_v :: u32

definition condition_sem :: "sem condition" where
  "condition_sem k s = (\<not> (sem_num_p s = sem_num_v s), s)"

text \<open>\<open>mem\<close> is what \<open>eh_malloc\<close> returns; the event is the first member of the semaphore.\<close>

definition eh_sem_create :: "ptr option \<Rightarrow> u32 \<Rightarrow> kernel \<Rightarrow> (int + sem) \<times> kernel" where
  "eh_sem_create mem v k =
     (case mem of
        None \<Rightarrow> (Inl EH_RET_MALLOC_ERROR, k)
      | Some p \<Rightarrow> (Inr \<lparr>sem_event = p, sem_num_p = 0, sem_num_v = v\<rparr>, snd (eh_event_init p k)))"

definition eh_sem_destroy :: "sem \<Rightarrow> kernel \<Rightarrow> kernel" where
  "eh_sem_destroy s k = k_free (sem_event s) (eh_event_clean (sem_event s) k)"

definition eh_sem_wait_finish :: "int \<Rightarrow> sem \<Rightarrow> int \<times> sem" where
  "eh_sem_wait_finish ret s =
     (if ret < 0 then (ret, s) else (EH_RET_OK, s\<lparr>sem_num_p := sem_num_p s + 1\<rparr>))"

text \<open>\<open>eh_sem_wait\<close> up to its first suspension, and after each resumption.\<close>

definition sem_wait_end :: "int option \<times> kernel \<times> sem \<Rightarrow> int option \<times> kernel \<times> sem" where
  "sem_wait_end x =
     (case x of
        (None, k, s) \<Rightarrow> (None, k, s)
      | (Some ret, k, s) \<Rightarrow> (let (ret, s) = eh_sem_wait_finish ret s in (Some ret, k, s)))"

definition eh_sem_wait_enter ::
  "ptr \<Rightarrow> ptr \<Rightarrow> ptr \<Rightarrow> sem \<Rightarrow> u64 \<Rightarrow> kernel \<Rightarrow> (int option \<times> kernel \<times> sem) option" where
  "eh_sem_wait_enter r rt tm s timeout k =
     map_option sem_wait_end
       (eh_event_wait_condition_timeout_enter r rt tm (sem_event s) (Some condition_sem) timeout k s)"

definition eh_sem_wait_round ::
  "ptr \<Rightarrow> ptr \<Rightarrow> ptr \<Rightarrow> sem \<Rightarrow> u64 \<Rightarrow> kernel \<Rightarrow> (int option \<times> kernel \<times> sem) option" where
  "eh_sem_wait_round r rt tm s timeout k =
     map_option sem_wait_end (eh_event_wait_condition_timeout_round r rt tm (Some condition_sem) timeout k s)"

definition eh_sem_post :: "sem \<Rightarrow> kernel \<Rightarrow> int \<times> sem \<times> kernel" where
  "eh_sem_post s k =
     (if sem_num_v s + 1 = sem_num_p s then (EH_RET_BUSY, s, k)
      else
        (let s = s\<lparr>sem_num_v := sem_num_v s + 1\<rparr>;
             (ret, k) = eh_event_notify_and_reorder (sem_event s) 1 k
         in (ret, s, k)))"

text \<open>The number of posts not yet taken.\<close>

definition available :: "sem \<Rightarrow> nat" where
  "available s = unat (sem_num_v s - sem_num_p s)"

subsection \<open>Mutexes\<close>

datatype mutex_type = MUTEX_NORMAL | MUTEX_RECURSIVE

record mutex =
  mtx_event :: ptr
  lock_cnt :: u32
  mtx_type :: mutex_type
  lock_task :: ptr

definition EH_MUTEX_LOCK_CNT_MAX :: u32 where "EH_MUTEX_LOCK_CNT_MAX = 0xFFFFFFFF"

definition condition_mutex :: "mutex condition" where
  "condition_mutex k m =
     (lock_cnt m = 0 \<or> (mtx_type m = MUTEX_RECURSIVE \<and> lock_task m = eh_task_self k), m)"

definition mutex_type_of :: "nat \<Rightarrow> mutex_type option" where
  "mutex_type_of n = (if n = 0 then Some MUTEX_NORMAL else if n = 1 then Some MUTEX_RECURSIVE else None)"

text \<open>\<open>eh_mutex_create\<close> leaves \<open>lock_task\<close> as the allocation left it (\<open>junk\<close>).\<close>

definition eh_mutex_create :: "ptr option \<Rightarrow> nat \<Rightarrow> ptr \<Rightarrow> kernel \<Rightarrow> (int + mutex) \<times> kernel" where
  "eh_mutex_create mem ty junk k =
     (case mutex_type_of ty of
        None \<Rightarrow> (Inl EH_RET_INVALID_PARAM, k)
      | Some ty \<Rightarrow>
          (case mem of
             None \<Rightarrow> (Inl EH_RET_MALLOC_ERROR, k)
           | Some p \<Rightarrow>
               (Inr \<lparr>mtx_event = p, lock_cnt = 0, mtx_type = ty, lock_task = junk\<rparr>, snd (eh_event_init p k))))"

definition eh_mutex_destroy :: "mutex \<Rightarrow> kernel \<Rightarrow> kernel" where
  "eh_mutex_destroy m k = k_free (mtx_event m) (eh_event_clean (mtx_event m) k)"

definition eh_mutex_lock_finish :: "int \<Rightarrow> kernel \<Rightarrow> mutex \<Rightarrow> int \<times> mutex" where
  "eh_mutex_lock_finish ret k m =
     (if ret < 0 then (ret, m)
      else if lock_cnt m = EH_MUTEX_LOCK_CNT_MAX then (EH_RET_INVALID_STATE, m)
      else (EH_RET_OK, m\<lparr>lock_task := eh_task_self k, lock_cnt := lock_cnt m + 1\<rparr>))"

text \<open>\<open>eh_mutex_lock\<close> up to its first suspension, and after each resumption.\<close>

definition mutex_lock_end :: "int option \<times> kernel \<times> mutex \<Rightarrow> int option \<times> kernel \<times> mutex" where
  "mutex_lock_end x =
     (case x of
        (None, k, m) \<Rightarrow> (None, k, m)
      | (Some ret, k, m) \<Rightarrow> (let (ret, m) = eh_mutex_lock_finish ret k m in (Some ret, k, m)))"

definition eh_mutex_lock_enter ::
  "ptr \<Rightarrow> ptr \<Rightarrow> ptr \<Rightarrow> mutex \<Rightarrow> u64 \<Rightarrow> kernel \<Rightarrow> (int option \<times> kernel \<times> mutex) option" where
  "eh_mutex_lock_enter r rt tm m timeout k =
     map_option mutex_lock_end
       (eh_event_wait_condition_timeout_enter r rt tm (mtx_event m) (Some condition_mutex) timeout k m)"

definition eh_mutex_lock_round ::
  "ptr \<Rightarrow> ptr \<Rightarrow> ptr \<Rightarrow> mutex \<Rightarrow> u64 \<Rightarrow> kernel \<Rightarrow> (int option \<times> kernel \<times> mutex) option" where
  "eh_mutex_lock_round r rt tm m timeout k =
     map_option mutex_lock_end (eh_event_wait_condition_timeout_round r rt tm (Some condition_mutex) timeout k m)"

definition eh_mutex_unlock :: "mutex \<Rightarrow> kernel \<Rightarrow> int \<times> mutex \<times> kernel" where
  "eh_mutex_unlock m k =
     (if lock_cnt m = 0 then (EH_RET_OK, m, k)
      else if lock_task m \<noteq> eh_task_self k then (EH_RET_INVALID_STATE, m, k)
      else
        (let m = m\<lparr>lock_cnt := lock_cnt m - 1\<rparr>
         in if lock_cnt m \<noteq> 0 then (EH_RET_OK, m, k)
            else (let (ret, k) = eh_event_notify_and_reorder (mtx_event m) 1 k in (ret, m, k))))"

subsection \<open>Event flags\<close>

text \<open>\<open>eh_flags_t\<close> is \<open>size_t\<close>, 64 bits wide here.\<close>

type_synonym eh_flags = "64 word"

record event_flags =
  ef_event :: ptr
  ef_flags :: eh_flags

text \<open>
  The object of a wait on flags: the flags and, when the caller passed a pointer for them,
  the flags found (\<open>reality_flags\<close>).
\<close>

record ef_wait =
  w_flags :: eh_flags
  w_reality :: "eh_flags option"

datatype ef_condition_type = WAIT_CLEAN | WAIT_SET

definition condition_event_flags :: "ef_condition_type \<Rightarrow> eh_flags \<Rightarrow> eh_flags \<Rightarrow> ef_wait condition" where
  "condition_event_flags ty wait change k w =
     (let seen = w_flags w AND wait
      in case ty of
           WAIT_SET \<Rightarrow>
             (if seen \<noteq> 0
              then (True, \<lparr>w_flags = w_flags w AND NOT change, w_reality = map_option (\<lambda>_. seen) (w_reality w)\<rparr>)
              else (False, w))
         | WAIT_CLEAN \<Rightarrow>
             (if seen = 0
              then (True, \<lparr>w_flags = w_flags w OR change, w_reality = map_option (\<lambda>_. seen) (w_reality w)\<rparr>)
              else (False, w)))"

definition eh_event_flags_init :: "ptr \<Rightarrow> kernel \<Rightarrow> (int \<times> event_flags option) \<times> kernel" where
  "eh_event_flags_init p k =
     (if p = NULL then ((EH_RET_INVALID_PARAM, None), k)
      else
        (let (ret, k) = eh_event_init p k
         in if ret < 0 then ((ret, None), k) else ((0, Some \<lparr>ef_event = p, ef_flags = 0\<rparr>), k)))"

text \<open>
  The compare-and-exchange loop that updates the flags with \<open>f\<close>: \<open>obs\<close> are the values that
  failing exchanges find (an interrupt wrote them, or the exchange failed spuriously), after
  which an exchange succeeds. The result is the new value, or \<open>None\<close> when nothing changes.
\<close>

fun flags_update_loop :: "(eh_flags \<Rightarrow> eh_flags) \<Rightarrow> eh_flags list \<Rightarrow> eh_flags \<Rightarrow> eh_flags \<times> bool" where
  "flags_update_loop f obs old =
     (if f old = old then (old, False)
      else case obs of [] \<Rightarrow> (f old, True) | v # obs \<Rightarrow> flags_update_loop f obs v)"

declare flags_update_loop.simps [simp del]

definition flags_change_notify ::
  "(eh_flags \<Rightarrow> eh_flags) \<Rightarrow> eh_flags list \<Rightarrow> event_flags \<Rightarrow> kernel \<Rightarrow> int \<times> event_flags \<times> kernel" where
  "flags_change_notify f obs ef k =
     (case flags_update_loop f obs (ef_flags ef) of
        (v, False) \<Rightarrow> (EH_RET_EXISTS, ef\<lparr>ef_flags := v\<rparr>, k)
      | (v, True) \<Rightarrow> (let (ret, k) = eh_event_notify (ef_event ef) k in (ret, ef\<lparr>ef_flags := v\<rparr>, k)))"

definition eh_event_flags_set_bits_change_notify ::
  "eh_flags list \<Rightarrow> event_flags \<Rightarrow> eh_flags \<Rightarrow> kernel \<Rightarrow> int \<times> event_flags \<times> kernel" where
  "eh_event_flags_set_bits_change_notify obs ef flags k =
     flags_change_notify (\<lambda>old. old OR flags) obs ef k"

definition eh_event_flags_clear_bits_change_notify ::
  "eh_flags list \<Rightarrow> event_flags \<Rightarrow> eh_flags \<Rightarrow> kernel \<Rightarrow> int \<times> event_flags \<times> kernel" where
  "eh_event_flags_clear_bits_change_notify obs ef flags k =
     flags_change_notify (\<lambda>old. old AND NOT flags) obs ef k"

definition eh_event_flags_update_change_notify ::
  "event_flags \<Rightarrow> eh_flags \<Rightarrow> kernel \<Rightarrow> int \<times> event_flags \<times> kernel" where
  "eh_event_flags_update_change_notify ef flags k =
     (let old = ef_flags ef; ef = ef\<lparr>ef_flags := flags\<rparr>
      in if old \<noteq> flags
         then (let (ret, k) = eh_event_notify (ef_event ef) k in (ret, ef, k))
         else (0, ef, k))"

definition eh_event_flags_get :: "event_flags \<Rightarrow> eh_flags" where
  "eh_event_flags_get ef = ef_flags ef"

definition eh_event_flags_wait_bits_set ::
  "ptr \<Rightarrow> ptr \<Rightarrow> ptr \<Rightarrow> event_flags \<Rightarrow> eh_flags \<Rightarrow> eh_flags \<Rightarrow> bool \<Rightarrow> u64 \<Rightarrow> kernel
     \<Rightarrow> (int option \<times> kernel \<times> ef_wait) option" where
  "eh_event_flags_wait_bits_set r rt tm ef wait claen want timeout k =
     eh_event_wait_condition_timeout_enter r rt tm (ef_event ef)
       (Some (condition_event_flags WAIT_SET wait claen)) timeout k
       \<lparr>w_flags = ef_flags ef, w_reality = (if want then Some 0 else None)\<rparr>"

definition eh_event_flags_wait_bits_clean ::
  "ptr \<Rightarrow> ptr \<Rightarrow> ptr \<Rightarrow> event_flags \<Rightarrow> eh_flags \<Rightarrow> eh_flags \<Rightarrow> bool \<Rightarrow> u64 \<Rightarrow> kernel
     \<Rightarrow> (int option \<times> kernel \<times> ef_wait) option" where
  "eh_event_flags_wait_bits_clean r rt tm ef wait st want timeout k =
     eh_event_wait_condition_timeout_enter r rt tm (ef_event ef)
       (Some (condition_event_flags WAIT_CLEAN wait st)) timeout k
       \<lparr>w_flags = ef_flags ef, w_reality = (if want then Some 0 else None)\<rparr>"

text \<open>After a resumption, the condition reads the flags again.\<close>

definition eh_event_flags_wait_round ::
  "ef_condition_type \<Rightarrow> ptr \<Rightarrow> ptr \<Rightarrow> ptr \<Rightarrow> event_flags \<Rightarrow> eh_flags \<Rightarrow> eh_flags \<Rightarrow> eh_flags option \<Rightarrow> u64 \<Rightarrow> kernel
     \<Rightarrow> (int option \<times> kernel \<times> ef_wait) option" where
  "eh_event_flags_wait_round ty r rt tm ef wait change reality timeout k =
     eh_event_wait_condition_timeout_round r rt tm (Some (condition_event_flags ty wait change)) timeout k
       \<lparr>w_flags = ef_flags ef, w_reality = reality\<rparr>"

end
