(* ===== verification/Eh_Epoll.thy ===== *)
theory Eh_Epoll
  imports Eh_Sync
begin

text \<open>
  The event poller of \<^verbatim>\<open>eh_event.c\<close>: a red-black tree of receptors keyed by the event's
  address, and the list of receptors whose event was triggered since the last read. A receptor
  is named by one pointer for the node, its receptor, its pending node and its tree node.
  Allocation results are arguments.
\<close>

subsection \<open>The tree of receptors\<close>

definition epoll_rbtree_match :: "kernel \<Rightarrow> ptr \<Rightarrow> ptr \<Rightarrow> int" where
  "epoll_rbtree_match k e n =
     (let b = n_event (epoll_nodes k n) in if e < b then -1 else if e > b then 1 else 0)"

definition epoll_rbtree_cmp :: "kernel \<Rightarrow> ptr \<Rightarrow> ptr \<Rightarrow> int" where
  "epoll_rbtree_cmp k a b = epoll_rbtree_match k (n_event (epoll_nodes k a)) b"

definition update_epoll :: "ptr \<Rightarrow> (epoll \<Rightarrow> epoll) \<Rightarrow> kernel \<Rightarrow> kernel" where
  "update_epoll ep f k = k\<lparr>epolls := (epolls k)(ep := f (epolls k ep))\<rparr>"

definition pending_unlink :: "ptr \<Rightarrow> kernel \<Rightarrow> kernel" where
  "pending_unlink r k =
     k\<lparr>epolls := (\<lambda>ep. (epolls k ep)\<lparr>e_pending := remove1 r (e_pending (epolls k ep))\<rparr>)\<rparr>"

definition eh_epoll_new :: "ptr option \<Rightarrow> kernel \<Rightarrow> (int + ptr) \<times> kernel" where
  "eh_epoll_new mem k =
     (case mem of
        None \<Rightarrow> (Inl EH_RET_MALLOC_ERROR, k)
      | Some ep \<Rightarrow>
          (Inr ep, update_epoll ep (\<lambda>p. p\<lparr>e_pending := [], e_tree := eh_rb_root_init (e_tree p),
                                         e_wakeup := NULL\<rparr>) k))"

text \<open>The constructor of a new receptor node (\<open>_eh_event_epoll_new_node_callback\<close>).\<close>

definition epoll_new_node :: "ptr \<Rightarrow> ptr \<Rightarrow> ptr \<Rightarrow> kernel \<Rightarrow> kernel" where
  "epoll_new_node r ep e k =
     (let k = eh_event_receptor_epoll_init r ep k;
          k = pending_unlink r k
      in k\<lparr>epoll_nodes := (epoll_nodes k)(r := \<lparr>n_event = e, n_userdata = NULL\<rparr>)\<rparr>)"

text \<open>
  The result has the node whose user data the caller may set (\<open>set_userdata_ptr\<close>), or
  \<open>NULL\<close> on an error.
\<close>

definition eh_epoll_add_event_advanced ::
  "ptr \<Rightarrow> ptr \<Rightarrow> ptr option \<Rightarrow> kernel \<Rightarrow> ((int \<times> ptr) \<times> kernel) option" where
  "eh_epoll_add_event_advanced ep e mem k =
     (if ep = NULL \<or> e = NULL then Some ((EH_RET_INVALID_PARAM, NULL), k)
      else do {
        (ret_rb, tree) \<leftarrow> eh_rb_find_new_add (epoll_rbtree_match k e) mem (e_tree (epolls k ep));
        if ret_rb = NULL then Some ((EH_RET_MALLOC_ERROR, NULL), k)
        else if Some ret_rb \<noteq> mem then Some ((EH_RET_EXISTS, ret_rb), k)
        else
          (let k = epoll_new_node ret_rb ep e k;
               k = update_epoll ep (\<lambda>p. p\<lparr>e_tree := tree\<rparr>) k
           in Some ((EH_RET_OK, ret_rb), eh_event_add_receptor_no_lock e ret_rb k))
      })"

definition set_userdata :: "ptr \<Rightarrow> ptr \<Rightarrow> kernel \<Rightarrow> kernel" where
  "set_userdata n u k = k\<lparr>epoll_nodes := (epoll_nodes k)(n := (epoll_nodes k n)\<lparr>n_userdata := u\<rparr>)\<rparr>"

definition eh_epoll_add_event :: "ptr \<Rightarrow> ptr \<Rightarrow> ptr \<Rightarrow> ptr option \<Rightarrow> kernel \<Rightarrow> (int \<times> kernel) option" where
  "eh_epoll_add_event ep e userdata mem k =
     do {
       ((ret, n), k) \<leftarrow> eh_epoll_add_event_advanced ep e mem k;
       if ret < 0 then Some (ret, k) else Some (EH_RET_OK, set_userdata n userdata k)
     }"

definition eh_epoll_get_node_handle_no_lock :: "ptr \<Rightarrow> ptr \<Rightarrow> kernel \<Rightarrow> (int + ptr) option" where
  "eh_epoll_get_node_handle_no_lock ep e k =
     (if ep = NULL \<or> e = NULL then Some (Inl EH_RET_INVALID_PARAM)
      else do {
        n \<leftarrow> eh_rb_match_find (epoll_rbtree_match k e) (e_tree (epolls k ep));
        Some (if n = NULL then Inl EH_RET_NOT_EXISTS else Inr n)
      })"

definition eh_epoll_get_handle_userdata_no_lock :: "ptr \<Rightarrow> kernel \<Rightarrow> ptr" where
  "eh_epoll_get_handle_userdata_no_lock n k = n_userdata (epoll_nodes k n)"

definition epoll_remove_node :: "ptr \<Rightarrow> ptr \<Rightarrow> kernel \<Rightarrow> kernel option" where
  "epoll_remove_node ep n k =
     do {
       let k = eh_event_remove_receptor_no_lock n k;
       let k = pending_unlink n k;
       (_, tree) \<leftarrow> eh_rb_del n (e_tree (epolls k ep));
       Some (k_free n (update_epoll ep (\<lambda>p. p\<lparr>e_tree := tree\<rparr>) k))
     }"

definition eh_epoll_del_event_from_handle_no_lock :: "ptr \<Rightarrow> ptr \<Rightarrow> kernel \<Rightarrow> kernel option" where
  "eh_epoll_del_event_from_handle_no_lock ep n k =
     (if n = NULL \<or> ep = NULL then Some k else epoll_remove_node ep n k)"

definition eh_epoll_del_event :: "ptr \<Rightarrow> ptr \<Rightarrow> kernel \<Rightarrow> (int \<times> kernel) option" where
  "eh_epoll_del_event ep e k =
     (if ep = NULL \<or> e = NULL then Some (EH_RET_INVALID_PARAM, k)
      else do {
        n \<leftarrow> eh_rb_match_find (epoll_rbtree_match k e) (e_tree (epolls k ep));
        if n = NULL then Some (EH_RET_NOT_EXISTS, k)
        else do { k \<leftarrow> epoll_remove_node ep n k; Some (EH_RET_OK, k) }
      })"

fun epoll_free_nodes :: "(ptr \<Rightarrow> kernel \<Rightarrow> kernel) option \<Rightarrow> ptr list \<Rightarrow> kernel \<Rightarrow> kernel" where
  "epoll_free_nodes free_func [] k = k"
| "epoll_free_nodes free_func (n # ns) k =
     epoll_free_nodes free_func ns
       (k_free n (eh_event_remove_receptor_no_lock n (case free_func of None \<Rightarrow> k | Some f \<Rightarrow> f n k)))"

definition eh_epoll_del_advanced :: "ptr \<Rightarrow> (ptr \<Rightarrow> kernel \<Rightarrow> kernel) option \<Rightarrow> kernel \<Rightarrow> kernel option" where
  "eh_epoll_del_advanced ep free_func k =
     do {
       ns \<leftarrow> eh_rb_postorder_for_each (e_tree (epolls k ep));
       Some (k_free ep (epoll_free_nodes free_func ns k))
     }"

definition eh_epoll_del :: "ptr \<Rightarrow> kernel \<Rightarrow> kernel option" where
  "eh_epoll_del ep k = eh_epoll_del_advanced ep None k"

subsection \<open>Reading the pending list\<close>

datatype affair = AFFAIR_TRIGGER | AFFAIR_ERROR

record epoll_slot =
  sl_event :: ptr
  sl_userdata :: ptr
  sl_affair :: affair

definition epoll_slot_of :: "kernel \<Rightarrow> ptr \<Rightarrow> epoll_slot" where
  "epoll_slot_of k r =
     \<lparr>sl_event = n_event (epoll_nodes k r), sl_userdata = n_userdata (epoll_nodes k r),
      sl_affair = (if r_error (receptors k r) then AFFAIR_ERROR
                   else if r_trigger (receptors k r) then AFFAIR_TRIGGER else AFFAIR_ERROR)\<rparr>"

text \<open>
  The loop writes a slot before it compares the count with \<open>slot_size\<close>, so at least one slot
  is written when a receptor is pending.
\<close>

fun pending_read :: "ptr list \<Rightarrow> int \<Rightarrow> kernel \<Rightarrow> epoll_slot list \<times> kernel" where
  "pending_read [] slot_size k = ([], k)"
| "pending_read (r # rs) slot_size k =
     (if \<not> r_any (receptors k r) then ([], pending_unlink r k)
      else
        (let s = epoll_slot_of k r;
             k = pending_unlink r (clear_receptor_flags r RECEPTOR_MASK k)
         in if slot_size \<le> 1 then ([s], k)
            else (let (ss, k) = pending_read rs (slot_size - 1) k in (s # ss, k))))"

definition eh_epoll_pending_read_on_lock :: "ptr \<Rightarrow> int \<Rightarrow> kernel \<Rightarrow> epoll_slot list \<times> kernel" where
  "eh_epoll_pending_read_on_lock ep slot_size k = pending_read (e_pending (epolls k ep)) slot_size k"

subsection \<open>Waiting on a poller\<close>

text \<open>One round of \<open>_eh_epoll_wait\<close>; the number of slots is the length of the list.\<close>

definition epoll_wait_round :: "ptr \<Rightarrow> int \<Rightarrow> kernel \<Rightarrow> epoll_slot list option \<times> kernel" where
  "epoll_wait_round ep slot_size k =
     (let (ss, k) = eh_epoll_pending_read_on_lock ep slot_size k
      in if ss \<noteq> [] then (Some ss, update_epoll ep (\<lambda>p. p\<lparr>e_wakeup := NULL\<rparr>) k)
         else (None, update_epoll ep (\<lambda>p. p\<lparr>e_wakeup := current_task k\<rparr>) (eh_task_set_current_state WAIT k)))"

definition epoll_wait_timeout_enter :: "ptr \<Rightarrow> ptr \<Rightarrow> u64 \<Rightarrow> kernel \<Rightarrow> kernel option" where
  "epoll_wait_timeout_enter rt tm timeout k =
     do {
       let k = eh_event_receptor_init rt (current_task k) k;
       let (_, k) = eh_timer_init tm k;
       let k = eh_timer_config_interval tm timeout k;
       let k = eh_event_add_receptor_no_lock tm rt k;
       (_, k) \<leftarrow> eh_timer_start tm k;
       Some k
     }"

definition epoll_wait_timeout_round ::
  "ptr \<Rightarrow> ptr \<Rightarrow> ptr \<Rightarrow> int \<Rightarrow> kernel \<Rightarrow> ((int + epoll_slot list) option \<times> kernel) option" where
  "epoll_wait_timeout_round ep rt tm slot_size k =
     (let (ss, k) = eh_epoll_pending_read_on_lock ep slot_size k;
          finish = (\<lambda>r. do {
            let k = update_epoll ep (\<lambda>p. p\<lparr>e_wakeup := NULL\<rparr>) k;
            (_, k) \<leftarrow> eh_timer_stop tm k;
            Some (Some r, eh_event_remove_receptor_no_lock rt k)
          })
      in if ss \<noteq> [] then finish (Inr ss)
         else if r_any (receptors k rt)
         then finish (Inl (if r_trigger (receptors k rt) then EH_RET_TIMEOUT else EH_RET_EVENT_ERROR))
         else Some (None, update_epoll ep (\<lambda>p. p\<lparr>e_wakeup := current_task k\<rparr>)
                            (eh_task_set_current_state WAIT k)))"

text \<open>\<open>eh_epoll_wait\<close> with a timeout that is neither forever nor positive does not wait.\<close>

definition eh_epoll_wait_now :: "ptr \<Rightarrow> int \<Rightarrow> kernel \<Rightarrow> (int + epoll_slot list) \<times> kernel" where
  "eh_epoll_wait_now ep slot_size k =
     (let (ss, k) = eh_epoll_pending_read_on_lock ep slot_size k
      in (if ss = [] then Inl EH_RET_TIMEOUT else Inr ss, k))"

definition eh_epoll_wait_mode :: "u64 \<Rightarrow> wait_mode" where
  "eh_epoll_wait_mode timeout =
     (if eh_time_is_forever timeout then Forever else if sint timeout > 0 then Timed else Poll)"

end
