(* ===== verification/Eh_Event_Cb.thy ===== *)
theory Eh_Event_Cb
  imports Eh_Epoll
begin

text \<open>
  Event callbacks (\<^verbatim>\<open>eh_event_cb.c\<close>): slots connected to an event run in the event loop
  of a task. The poller of the task holds one node per event, whose user data is a trigger:
  the list of the connected slots and two reference counts. While the loop runs the slots of
  a trigger it moves them to a list on its stack, kept here as \<open>tr_used\<close>.
\<close>

record cb_trigger =
  tr_head :: "ptr list"
  tr_used :: "ptr list"
  connect_cnt :: "31 word"
  forced_ref :: bool

record cb_slot =
  slot_function :: ptr
  slot_param :: ptr
  slot_task :: ptr

record cb_state =
  cb_kernel :: kernel
  triggers :: "ptr \<Rightarrow> cb_trigger"
  slots :: "ptr \<Rightarrow> cb_slot"

definition EH_CONFIG_EVENT_CB_DISPATCH_CNT_PER_YIELD :: u32 where
  "EH_CONFIG_EVENT_CB_DISPATCH_CNT_PER_YIELD = 4"
definition EH_CONFIG_EVENT_CB_DISPATCH_CNT_PER_CHECKTIMER :: u32 where
  "EH_CONFIG_EVENT_CB_DISPATCH_CNT_PER_CHECKTIMER = 4"
definition EH_TASK_FLAGS_INTERIOR_REQUEST_QUIT :: u32 where
  "EH_TASK_FLAGS_INTERIOR_REQUEST_QUIT = 0x80000000"

subsection \<open>Triggers\<close>

definition update_trigger :: "ptr \<Rightarrow> (cb_trigger \<Rightarrow> cb_trigger) \<Rightarrow> cb_state \<Rightarrow> cb_state" where
  "update_trigger tr f c = c\<lparr>triggers := (triggers c)(tr := f (triggers c tr))\<rparr>"

definition cb_free :: "ptr \<Rightarrow> cb_state \<Rightarrow> cb_state" where
  "cb_free p c = c\<lparr>cb_kernel := k_free p (cb_kernel c)\<rparr>"

definition slot_linked :: "ptr \<Rightarrow> ptr set \<Rightarrow> cb_state \<Rightarrow> bool" where
  "slot_linked s trs c \<longleftrightarrow> (\<exists>tr\<in>trs. s \<in> set (tr_head (triggers c tr)) \<union> set (tr_used (triggers c tr)))"

definition slot_unlink :: "ptr \<Rightarrow> cb_state \<Rightarrow> cb_state" where
  "slot_unlink s c =
     c\<lparr>triggers := (\<lambda>tr. (triggers c tr)\<lparr>tr_head := remove1 s (tr_head (triggers c tr)),
                                        tr_used := remove1 s (tr_used (triggers c tr))\<rparr>)\<rparr>"

definition trigger_weak_ref_new :: "ptr \<Rightarrow> cb_state \<Rightarrow> cb_state" where
  "trigger_weak_ref_new tr c =
     update_trigger tr (\<lambda>_. \<lparr>tr_head = [], tr_used = [], connect_cnt = 0, forced_ref = False\<rparr>) c"

definition trigger_connect :: "ptr \<Rightarrow> ptr \<Rightarrow> cb_state \<Rightarrow> cb_state" where
  "trigger_connect tr s c =
     update_trigger tr (\<lambda>t. t\<lparr>tr_head := s # tr_head t, connect_cnt := connect_cnt t + 1\<rparr>) c"

definition trigger_disconnect :: "ptr \<Rightarrow> ptr \<Rightarrow> cb_state \<Rightarrow> 31 word \<times> cb_state" where
  "trigger_disconnect tr s c =
     (let c = slot_unlink s c;
          c = update_trigger tr (\<lambda>t. t\<lparr>connect_cnt := connect_cnt t - 1\<rparr>) c;
          ret = connect_cnt (triggers c tr)
      in (ret, if ret = 0 \<and> \<not> forced_ref (triggers c tr) then cb_free tr c else c))"

definition trigger_forced_get_ref :: "ptr \<Rightarrow> cb_state \<Rightarrow> cb_state" where
  "trigger_forced_get_ref tr c = update_trigger tr (\<lambda>t. t\<lparr>forced_ref := True\<rparr>) c"

definition trigger_forced_release_ref :: "ptr \<Rightarrow> cb_state \<Rightarrow> cb_state" where
  "trigger_forced_release_ref tr c =
     (let c = update_trigger tr (\<lambda>t. t\<lparr>forced_ref := False\<rparr>) c
      in if connect_cnt (triggers c tr) = 0 then cb_free tr c else c)"

definition trigger_clean :: "ptr \<Rightarrow> cb_state \<Rightarrow> cb_state" where
  "trigger_clean tr c =
     (if tr = NULL then c
      else
        (let c = update_trigger tr (\<lambda>t. t\<lparr>tr_head := [], connect_cnt := 0\<rparr>) c
         in if \<not> forced_ref (triggers c tr) then cb_free tr c else c))"

definition epoll_userdata_free :: "ptr \<Rightarrow> cb_state \<Rightarrow> cb_state" where
  "epoll_userdata_free n c =
     (let tr = eh_epoll_get_handle_userdata_no_lock n (cb_kernel c)
      in if tr = NULL then c else cb_free tr (update_trigger tr (\<lambda>t. t\<lparr>tr_head := []\<rparr>) c))"

subsection \<open>The poller of a task\<close>

text \<open>
  \<open>TASK_DESTRUCT\<close> stands for the pointer to \<open>task_system_data_destruct_function\<close>.
\<close>

definition TASK_DESTRUCT :: ptr where "TASK_DESTRUCT = 1"

definition task_get_epoll :: "ptr \<Rightarrow> kernel \<Rightarrow> ptr" where
  "task_get_epoll t k = t_system_data (tasks k t)"

definition task_get_epoll_try_new ::
  "ptr option \<Rightarrow> ptr option \<Rightarrow> ptr \<Rightarrow> kernel \<Rightarrow> ((int + ptr) \<times> kernel) option" where
  "task_get_epoll_try_new mem_ep mem_node t k =
     (if t_system_data (tasks k t) \<noteq> NULL then Some (Inr (t_system_data (tasks k t)), k)
      else
        (case eh_epoll_new mem_ep k of
           (Inl e, k) \<Rightarrow> Some (Inl e, k)
         | (Inr ep, k) \<Rightarrow> do {
             (ret, k) \<leftarrow> eh_epoll_add_event ep (t_event (tasks k t)) NULL mem_node k;
             if ret < 0 then do { k \<leftarrow> eh_epoll_del ep k; Some (Inl ret, k) }
             else Some (Inr ep, update_task t (\<lambda>tk. tk\<lparr>t_system_data := ep, t_destruct := TASK_DESTRUCT\<rparr>) k)
           }))"

fun epoll_free_triggers :: "ptr list \<Rightarrow> cb_state \<Rightarrow> cb_state" where
  "epoll_free_triggers [] c = c"
| "epoll_free_triggers (n # ns) c =
     (let c = epoll_userdata_free n c
      in epoll_free_triggers ns
           (c\<lparr>cb_kernel := k_free n (eh_event_remove_receptor_no_lock n (cb_kernel c))\<rparr>))"

definition task_system_data_destruct_function :: "ptr \<Rightarrow> cb_state \<Rightarrow> cb_state option" where
  "task_system_data_destruct_function t c =
     do {
       let ep = t_system_data (tasks (cb_kernel c) t);
       (_, k) \<leftarrow> eh_epoll_del_event ep (t_event (tasks (cb_kernel c) t)) (cb_kernel c);
       ns \<leftarrow> eh_rb_postorder_for_each (e_tree (epolls k ep));
       let c = epoll_free_triggers ns (c\<lparr>cb_kernel := k\<rparr>);
       Some (c\<lparr>cb_kernel := update_task t (\<lambda>tk. tk\<lparr>t_system_data := NULL, t_destruct := NULL\<rparr>)
                (k_free ep (cb_kernel c))\<rparr>)
     }"

subsection \<open>Connecting slots\<close>

definition eh_event_cb_slot_init :: "ptr \<Rightarrow> ptr \<Rightarrow> ptr \<Rightarrow> cb_state \<Rightarrow> cb_state" where
  "eh_event_cb_slot_init s fn param c =
     (let c = slot_unlink s c
      in c\<lparr>slots := (slots c)(s := \<lparr>slot_function = fn, slot_param = param, slot_task = NULL\<rparr>)\<rparr>)"

text \<open>
  The allocations are arguments: the poller and the node of the task's own event (on the first
  connection of the task), the node of \<open>e\<close>, and the trigger. \<open>on_list\<close> is whether the slot's
  node is on a list.
\<close>

definition eh_event_cb_connect ::
  "ptr option \<Rightarrow> ptr option \<Rightarrow> ptr option \<Rightarrow> ptr option \<Rightarrow> bool \<Rightarrow> ptr \<Rightarrow> ptr \<Rightarrow> ptr \<Rightarrow> cb_state
     \<Rightarrow> (int \<times> cb_state) option" where
  "eh_event_cb_connect mem_ep mem_own mem_node mem_tr on_list e s t c =
     (if e = NULL \<or> s = NULL \<or> t = NULL then Some (EH_RET_INVALID_PARAM, c)
      else if on_list then Some (EH_RET_BUSY, c)
      else if e = t_event (tasks (cb_kernel c) t) then Some (EH_RET_INVALID_PARAM, c)
      else do {
        (epoll, k) \<leftarrow> task_get_epoll_try_new mem_ep mem_own t (cb_kernel c);
        let c = c\<lparr>cb_kernel := k\<rparr>;
        (case epoll of
           Inl err \<Rightarrow> Some (err, c)
         | Inr ep \<Rightarrow> do {
             ((ret, n), k) \<leftarrow> eh_epoll_add_event_advanced ep e mem_node k;
             let c = c\<lparr>cb_kernel := k\<rparr>;
             if ret \<noteq> EH_RET_OK \<and> ret \<noteq> EH_RET_EXISTS then Some (ret, c)
             else if ret = EH_RET_EXISTS then
               (let tr = n_userdata (epoll_nodes k n);
                    c = trigger_connect tr s c
                in Some (EH_RET_OK, c\<lparr>slots := (slots c)(s := (slots c s)\<lparr>slot_task := t\<rparr>)\<rparr>))
             else
               (case mem_tr of
                  None \<Rightarrow> Some (EH_RET_MALLOC_ERROR, c)
                | Some tr \<Rightarrow>
                    (let c = trigger_weak_ref_new tr c;
                         c = c\<lparr>cb_kernel := set_userdata n tr (cb_kernel c)\<rparr>;
                         c = trigger_connect tr s c
                     in Some (EH_RET_OK, c\<lparr>slots := (slots c)(s := (slots c s)\<lparr>slot_task := t\<rparr>)\<rparr>)))
           })
      })"

definition eh_event_cb_disconnect :: "bool \<Rightarrow> ptr \<Rightarrow> ptr \<Rightarrow> cb_state \<Rightarrow> cb_state option" where
  "eh_event_cb_disconnect on_list e s c =
     (if s = NULL \<or> e = NULL \<or> \<not> on_list \<or> slot_task (slots c s) = NULL then Some c
      else
        (let ep = task_get_epoll (slot_task (slots c s)) (cb_kernel c)
         in if ep = NULL then Some c
            else do {
              h \<leftarrow> eh_epoll_get_node_handle_no_lock ep e (cb_kernel c);
              (case h of
                 Inl err \<Rightarrow> Some c
               | Inr n \<Rightarrow>
                   (let tr = eh_epoll_get_handle_userdata_no_lock n (cb_kernel c);
                        (left, c) = trigger_disconnect tr s c
                    in if left \<noteq> 0 then Some c
                       else do {
                         k \<leftarrow> eh_epoll_del_event_from_handle_no_lock ep n (cb_kernel c);
                         Some (c\<lparr>cb_kernel := k\<rparr>)
                       }))
            }))"

definition eh_event_cb_clean_from_task :: "ptr \<Rightarrow> ptr \<Rightarrow> cb_state \<Rightarrow> cb_state option" where
  "eh_event_cb_clean_from_task e t c =
     (let ep = task_get_epoll t (cb_kernel c)
      in if e = NULL \<or> t = NULL \<or> ep = NULL then Some c
         else do {
           h \<leftarrow> eh_epoll_get_node_handle_no_lock ep e (cb_kernel c);
           (case h of
              Inl err \<Rightarrow> Some c
            | Inr n \<Rightarrow>
                (let tr = eh_epoll_get_handle_userdata_no_lock n (cb_kernel c)
                 in if tr = NULL then Some c
                    else
                      (let c = trigger_clean tr c
                       in do {
                            k \<leftarrow> eh_epoll_del_event_from_handle_no_lock ep n (cb_kernel c);
                            Some (c\<lparr>cb_kernel := k\<rparr>)
                          })))
         })"

subsection \<open>The event loop\<close>

text \<open>
  What the loop does with the slots that \<open>eh_epoll_wait\<close> returned: the first pass drops the
  events in error and takes a reference on the other triggers, and returns the slots with the
  triggers left to run.
\<close>

fun event_loop_mark :: "ptr \<Rightarrow> epoll_slot list \<Rightarrow> cb_state \<Rightarrow> (epoll_slot list \<times> cb_state) option" where
  "event_loop_mark ep [] c = Some ([], c)"
| "event_loop_mark ep (s # ss) c =
     (let tr = sl_userdata s
      in if sl_affair s = AFFAIR_ERROR then do {
           let c = (if tr \<noteq> NULL then trigger_clean tr c else c);
           (_, k) \<leftarrow> eh_epoll_del_event ep (sl_event s) (cb_kernel c);
           (ss', c) \<leftarrow> event_loop_mark ep ss (c\<lparr>cb_kernel := k\<rparr>);
           Some ((if tr \<noteq> NULL then s\<lparr>sl_userdata := NULL\<rparr> else s) # ss', c)
         }
         else do {
           let c = (if tr = NULL then c else trigger_forced_get_ref tr c);
           (ss', c) \<leftarrow> event_loop_mark ep ss c;
           Some (s # ss', c)
         })"

text \<open>
  The slot functions are arguments: \<open>call fn e param\<close> is a function on the state, which may
  connect and disconnect slots. The loop ends when the list of the trigger is empty, which a
  slot function that keeps connecting slots can prevent.
\<close>

partial_function (option) run_slots ::
  "(ptr \<Rightarrow> ptr \<Rightarrow> ptr \<Rightarrow> cb_state \<Rightarrow> cb_state) \<Rightarrow> ptr \<Rightarrow> ptr \<Rightarrow> cb_state \<Rightarrow> cb_state option" where
  "run_slots call e tr c =
     (case tr_head (triggers c tr) of
        [] \<Rightarrow> Some c
      | s # _ \<Rightarrow>
          (let c = update_trigger tr (\<lambda>t. t\<lparr>tr_head := tl (tr_head t), tr_used := tr_used t @ [s]\<rparr>) c;
               sl = slots c s;
               c = (if slot_function sl \<noteq> NULL then call (slot_function sl) e (slot_param sl) c else c)
           in run_slots call e tr c))"

definition run_trigger ::
  "(ptr \<Rightarrow> ptr \<Rightarrow> ptr \<Rightarrow> cb_state \<Rightarrow> cb_state) \<Rightarrow> ptr \<Rightarrow> ptr \<Rightarrow> cb_state \<Rightarrow> cb_state option" where
  "run_trigger call e tr c =
     do {
       c \<leftarrow> run_slots call e tr (update_trigger tr (\<lambda>t. t\<lparr>tr_used := []\<rparr>) c);
       let c = update_trigger tr (\<lambda>t. t\<lparr>tr_head := tr_used t @ tr_head t, tr_used := []\<rparr>) c;
       Some (trigger_forced_release_ref tr c)
     }"

fun event_loop_dispatch ::
  "(ptr \<Rightarrow> ptr \<Rightarrow> ptr \<Rightarrow> cb_state \<Rightarrow> cb_state) \<Rightarrow> epoll_slot list \<Rightarrow> u32 \<Rightarrow> cb_state \<Rightarrow> (u32 \<times> cb_state) option" where
  "event_loop_dispatch call [] cnt1 c = Some (cnt1, c)"
| "event_loop_dispatch call (s # ss) cnt1 c =
     (if sl_userdata s = NULL then event_loop_dispatch call ss cnt1 c
      else do {
        c \<leftarrow> run_trigger call (sl_event s) (sl_userdata s) c;
        let cnt1 = cnt1 + 1;
        c \<leftarrow> (if cnt1 mod EH_CONFIG_EVENT_CB_DISPATCH_CNT_PER_CHECKTIMER = 0
              then do { k \<leftarrow> eh_timer_check (cb_kernel c); Some (c\<lparr>cb_kernel := k\<rparr>) }
              else Some c);
        event_loop_dispatch call ss cnt1 c
      })"

datatype loop_next = LoopQuit | LoopYield u32 | LoopContinue u32

text \<open>
  The end of a round: quit on request; yield after a number of rounds in which no other task
  was dispatched. \<open>cnt0\<close> counts those rounds and \<open>last_cnt\<close> is the dispatch count of the last one.
\<close>

definition event_loop_end :: "ptr \<Rightarrow> u32 \<Rightarrow> u32 \<Rightarrow> kernel \<Rightarrow> loop_next \<times> u32" where
  "event_loop_end t last_cnt cnt0 k =
     (if t_flags (tasks k t) AND EH_TASK_FLAGS_INTERIOR_REQUEST_QUIT \<noteq> 0 then (LoopQuit, last_cnt)
      else
        (let now = eh_task_dispatch_cnt k
         in if last_cnt \<noteq> now then (LoopContinue 0, now)
            else if cnt0 + 1 \<ge> EH_CONFIG_EVENT_CB_DISPATCH_CNT_PER_YIELD then (LoopYield 0, last_cnt)
            else (LoopContinue (cnt0 + 1), last_cnt)))"

text \<open>
  The loop \<open>eh_event_loop\<close> is entered and then makes rounds; a round is cut at the wait for the poller, where
  the task sleeps (\<open>None\<close>) and the round starts again. \<open>cnt0\<close>, \<open>cnt1\<close> and \<open>last_cnt\<close> are its variables.
\<close>

definition EH_EVENT_CB_EPOLL_SLOT_SIZE :: int where "EH_EVENT_CB_EPOLL_SLOT_SIZE = 8"

definition eh_event_loop_enter :: "ptr option \<Rightarrow> ptr option \<Rightarrow> kernel \<Rightarrow> ((int + ptr) \<times> kernel) option" where
  "eh_event_loop_enter mem_ep mem_node k =
     (let t = eh_task_self k
      in if t_flags (tasks k t) AND EH_TASK_FLAGS_INTERIOR_REQUEST_QUIT \<noteq> 0 then Some (Inl EH_RET_OK, k)
         else task_get_epoll_try_new mem_ep mem_node t k)"

definition event_loop_round ::
  "(ptr \<Rightarrow> ptr \<Rightarrow> ptr \<Rightarrow> cb_state \<Rightarrow> cb_state) \<Rightarrow> ptr \<Rightarrow> ptr \<Rightarrow> u32 \<Rightarrow> u32 \<Rightarrow> u32 \<Rightarrow> cb_state
     \<Rightarrow> (loop_next option \<times> u32 \<times> u32 \<times> cb_state) option" where
  "event_loop_round call ep t last_cnt cnt0 cnt1 c =
     (let (ss, k) = epoll_wait_round ep EH_EVENT_CB_EPOLL_SLOT_SIZE (cb_kernel c);
          c = c\<lparr>cb_kernel := k\<rparr>
      in case ss of
           None \<Rightarrow> Some (None, last_cnt, cnt1, c)
         | Some ss \<Rightarrow> do {
             (ss, c) \<leftarrow> event_loop_mark ep ss c;
             (cnt1, c) \<leftarrow> event_loop_dispatch call ss cnt1 c;
             let (next, last_cnt) = event_loop_end t last_cnt cnt0 (cb_kernel c);
             Some (Some next, last_cnt, cnt1, c)
           })"

definition eh_event_loop_request_quit :: "ptr \<Rightarrow> kernel \<Rightarrow> kernel" where
  "eh_event_loop_request_quit t k =
     (let (_, k) = eh_event_notify (t_event (tasks k t)) k
      in update_task t (\<lambda>tk. tk\<lparr>t_flags := t_flags tk OR EH_TASK_FLAGS_INTERIOR_REQUEST_QUIT\<rparr>) k)"

end
