(* ===== verification/Eh_Mem.thy ===== *)
theory Eh_Mem
  imports Eh_Prelude
begin

text \<open>
  The heap allocator of \<^verbatim>\<open>src/src/eh_mem.c\<close>: first fit on a list of free blocks that
  is sorted by address, with splitting on allocation and merging of neighbours on release. Addresses
  and sizes are \<open>unsigned long\<close>, here 64-bit words; the header of a block is the pair of the
  fields \<open>m_next\<close> and \<open>m_size\<close> at its address. \<open>mem_ok\<close> is the representation:
  the free list from \<open>first_block\<close> visits blocks that are aligned, in order and never
  adjacent.
\<close>

subsection \<open>The state\<close>

definition EH_MEM_ALIGN_SIZE :: u64 where "EH_MEM_ALIGN_SIZE = 16"
definition EH_MEM_ALIGN_MASK :: u64 where "EH_MEM_ALIGN_MASK = EH_MEM_ALIGN_SIZE - 1"

definition EH_MEM_ALIGN_DOWN :: "u64 \<Rightarrow> u64" where
  "EH_MEM_ALIGN_DOWN a = a AND NOT EH_MEM_ALIGN_MASK"

definition EH_MEM_ALIGN_UP :: "u64 \<Rightarrow> u64" where
  "EH_MEM_ALIGN_UP a = (a + EH_MEM_ALIGN_MASK) AND NOT EH_MEM_ALIGN_MASK"

text \<open>The header holds a pointer and a size: 16 bytes.\<close>

definition EH_MEM_BLOCK_HEAD_SIZE :: u64 where "EH_MEM_BLOCK_HEAD_SIZE = EH_MEM_ALIGN_UP 16"

definition EH_MEM_HEAP_ARRAY_NUM :: nat where "EH_MEM_HEAP_ARRAY_NUM = 8"

record mem_heap =
  heap_start :: u64
  heap_size :: u64

record mem =
  m_next :: "u64 \<Rightarrow> u64"
  m_size :: "u64 \<Rightarrow> u64"
  first_block :: u64
  mem_total_size :: u64
  mem_free_size :: u64
  mem_use_block_cnt :: u64
  mem_min_ever_free_size_level :: u64
  mem_heap_array :: "mem_heap list"

definition set_mnext :: "u64 \<Rightarrow> u64 \<Rightarrow> mem \<Rightarrow> mem" where
  "set_mnext b v m = m\<lparr>m_next := (m_next m)(b := v)\<rparr>"

definition set_msize :: "u64 \<Rightarrow> u64 \<Rightarrow> mem \<Rightarrow> mem" where
  "set_msize b v m = m\<lparr>m_size := (m_size m)(b := v)\<rparr>"

definition add_free :: "u64 \<Rightarrow> mem \<Rightarrow> mem" where
  "add_free n m = m\<lparr>mem_free_size := mem_free_size m + n\<rparr>"

subsection \<open>The operations\<close>

partial_function (option) insert_search :: "u64 \<Rightarrow> u64 \<Rightarrow> u64 \<Rightarrow> mem \<Rightarrow> (u64 \<times> u64) option" where
  "insert_search prev pos new m =
     (if pos \<noteq> 0 \<and> pos < new then insert_search pos (m_next m pos) new m else Some (prev, pos))"

definition merge_blocks :: "u64 \<Rightarrow> u64 \<Rightarrow> mem \<Rightarrow> mem" where
  "merge_blocks a b m =
     (let m = set_msize a (m_size m a + (m_size m b + EH_MEM_BLOCK_HEAD_SIZE)) m;
          m = set_mnext a (m_next m b) m
      in add_free EH_MEM_BLOCK_HEAD_SIZE m)"

definition eh_mem_insert :: "u64 \<Rightarrow> mem \<Rightarrow> mem option" where
  "eh_mem_insert new m =
     (case insert_search (first_block m) (m_next m (first_block m)) new m of
        None \<Rightarrow> None
      | Some (prev, pos) \<Rightarrow>
          let m = set_mnext prev new m;
              m = set_mnext new pos m;
              m = add_free (m_size m new) m;
              (new, m) = (if prev + m_size m prev + EH_MEM_BLOCK_HEAD_SIZE = new
                          then (prev, merge_blocks prev new m) else (new, m));
              m = (if new + m_size m new + EH_MEM_BLOCK_HEAD_SIZE = pos
                   then merge_blocks new pos m else m)
          in Some (m\<lparr>mem_use_block_cnt := mem_use_block_cnt m - 1\<rparr>))"

partial_function (option) fit_search :: "u64 \<Rightarrow> u64 \<Rightarrow> u64 \<Rightarrow> mem \<Rightarrow> (u64 \<times> u64) option" where
  "fit_search prev pos align_size m =
     (if pos \<noteq> 0 \<and> m_size m pos < align_size then fit_search pos (m_next m pos) align_size m
      else Some (prev, pos))"

text \<open>Cutting the front of a free block off, when the rest can hold a block.\<close>

definition split_block :: "u64 \<Rightarrow> u64 \<Rightarrow> mem \<Rightarrow> mem" where
  "split_block new_block align_size m =
     (let new_free_block_size = m_size m new_block - align_size - EH_MEM_BLOCK_HEAD_SIZE
      in if new_free_block_size > EH_MEM_ALIGN_SIZE \<and> m_size m new_block > new_free_block_size
         then let new_free_block = new_block + align_size + EH_MEM_BLOCK_HEAD_SIZE;
                  m = set_msize new_free_block new_free_block_size m;
                  m = set_mnext new_free_block (m_next m new_block) m;
                  m = set_msize new_block align_size m;
                  m = set_mnext new_block new_free_block m
              in add_free new_free_block_size m
         else m)"

definition update_min_ever :: "mem \<Rightarrow> mem" where
  "update_min_ever m =
     (if mem_free_size m < mem_min_ever_free_size_level m
      then m\<lparr>mem_min_ever_free_size_level := mem_free_size m\<rparr> else m)"

definition eh_malloc :: "u64 \<Rightarrow> mem \<Rightarrow> (u64 \<times> mem) option" where
  "eh_malloc sz m =
     (let align_size = EH_MEM_ALIGN_UP sz
      in if align_size = 0 \<or> align_size < sz then Some (0, m)
         else if mem_free_size m < align_size then Some (0, m)
         else case fit_search (first_block m) (m_next m (first_block m)) align_size m of
                None \<Rightarrow> None
              | Some (prev, pos) \<Rightarrow>
                  if pos = 0 then Some (0, m)
                  else let m = m\<lparr>mem_free_size := mem_free_size m - m_size m pos\<rparr>;
                           m = split_block pos align_size m;
                           m = update_min_ever m;
                           m = set_mnext prev (m_next m pos) m
                       in Some (pos + EH_MEM_BLOCK_HEAD_SIZE,
                                m\<lparr>mem_use_block_cnt := mem_use_block_cnt m + 1\<rparr>))"

definition eh_free :: "u64 \<Rightarrow> mem \<Rightarrow> mem option" where
  "eh_free ptr m = (if ptr = 0 then Some m else eh_mem_insert (ptr - EH_MEM_BLOCK_HEAD_SIZE) m)"

declare insert_search.simps [code] fit_search.simps [code]

text \<open>\<open>heap\<close> is \<open>None\<close> for a null pointer; the parameter assertions return an error.\<close>

definition eh_mem_heap_register :: "mem_heap option \<Rightarrow> mem \<Rightarrow> int \<times> mem" where
  "eh_mem_heap_register heap m =
     (case heap of
        None \<Rightarrow> (EH_RET_INVALID_PARAM, m)
      | Some h \<Rightarrow>
          if heap_start h = 0 then (EH_RET_INVALID_PARAM, m)
          else if \<not> heap_size h > EH_MEM_BLOCK_HEAD_SIZE then (EH_RET_INVALID_PARAM, m)
          else if length (mem_heap_array m) \<ge> EH_MEM_HEAP_ARRAY_NUM then (EH_RET_BUSY, m)
          else (EH_RET_OK, m\<lparr>mem_heap_array := mem_heap_array m @ [h]\<rparr>))"

record heap_info =
  total_size :: u64
  free_size :: u64
  min_ever_free_size_level :: u64

definition eh_mem_get_heap_info :: "mem \<Rightarrow> heap_info" where
  "eh_mem_get_heap_info m =
     \<lparr>total_size = mem_total_size m, free_size = mem_free_size m,
      min_ever_free_size_level = mem_min_ever_free_size_level m\<rparr>"

text \<open>The calls of \<open>dump_func\<close>, in order.\<close>

partial_function (option) free_block_walk :: "u64 \<Rightarrow> mem \<Rightarrow> (u64 \<times> u64) list option" where
  "free_block_walk pos m =
     (if pos = 0 then Some []
      else Option.bind (free_block_walk (m_next m pos) m)
             (\<lambda>r. Some ((pos, m_size m pos + EH_MEM_BLOCK_HEAD_SIZE) # r)))"

definition eh_free_block_dump :: "mem \<Rightarrow> (u64 \<times> u64) list option" where
  "eh_free_block_dump m = free_block_walk (m_next m (first_block m)) m"

definition heap_block :: "mem_heap \<Rightarrow> u64" where
  "heap_block h = EH_MEM_ALIGN_UP (heap_start h)"

definition heap_end :: "mem_heap \<Rightarrow> u64" where
  "heap_end h = EH_MEM_ALIGN_DOWN (heap_start h + heap_size h)"

primrec init_heaps :: "mem_heap list \<Rightarrow> mem \<Rightarrow> mem option" where
  "init_heaps [] m = Some m"
| "init_heaps (h # hs) m =
     (let block = heap_block h;
          m = set_mnext block 0 m;
          m = set_msize block (heap_end h - block - EH_MEM_BLOCK_HEAD_SIZE) m
      in case eh_mem_insert block m of None \<Rightarrow> None | Some m \<Rightarrow> init_heaps hs m)"

definition eh_mem_init :: "mem \<Rightarrow> (int \<times> mem) option" where
  "eh_mem_init m =
     (let m = set_msize (first_block m) 0 (set_mnext (first_block m) 0 m);
          m = m\<lparr>mem_total_size := 0, mem_free_size := 0, mem_min_ever_free_size_level := 0\<rparr>
      in if mem_heap_array m = [] then Some (EH_RET_INVALID_PARAM, m)
         else case init_heaps (mem_heap_array m) m of
                None \<Rightarrow> None
              | Some m \<Rightarrow> Some (0, m\<lparr>mem_use_block_cnt := 0, mem_total_size := mem_free_size m,
                                     mem_min_ever_free_size_level := mem_free_size m\<rparr>))"

end
