(* ===== verification/Eh_Mem_Lemmas.thy ===== *)
theory Eh_Mem_Lemmas
  imports Eh_Mem
begin

text \<open>
  The representation of the free list by \<open>mem_ok\<close>, and the effect of merging, inserting,
  searching and splitting on it.
\<close>

subsection \<open>The representation\<close>

definition bend :: "mem \<Rightarrow> u64 \<Rightarrow> nat" where
  "bend m w = unat w + 16 + unat (m_size m w)"

definition extent :: "mem \<Rightarrow> u64 \<Rightarrow> nat set" where
  "extent m w = {unat w ..< bend m w}"

definition fits :: "mem \<Rightarrow> u64 \<Rightarrow> bool" where
  "fits m w \<longleftrightarrow> w \<noteq> 0 \<and> 16 dvd unat w \<and> 16 dvd unat (m_size m w) \<and> bend m w < 2 ^ 64
     \<and> unat (first_block m) \<notin> extent m w \<and> unat (first_block m + 16) \<notin> extent m w"

definition mem_weak :: "mem \<Rightarrow> u64 list \<Rightarrow> bool" where
  "mem_weak m ws \<longleftrightarrow> path (m_next m) (m_next m (first_block m)) ws 0
     \<and> sorted_wrt (\<lambda>a b. bend m a \<le> unat b) ws \<and> (\<forall>w\<in>set ws. fits m w)
     \<and> m_size m (first_block m) = 0 \<and> mem_free_size m = sum_list (map (m_size m) ws)"

definition gapped :: "mem \<Rightarrow> u64 list \<Rightarrow> bool" where
  "gapped m ws \<longleftrightarrow> sorted_wrt (\<lambda>a b. bend m a < unat b) ws"

definition mem_ok :: "mem \<Rightarrow> u64 list \<Rightarrow> bool" where
  "mem_ok m ws \<longleftrightarrow> mem_weak m ws \<and> gapped m ws"

lemma head_size [simp]: "EH_MEM_BLOCK_HEAD_SIZE = 16"
  by (simp add: EH_MEM_BLOCK_HEAD_SIZE_def EH_MEM_ALIGN_UP_def EH_MEM_ALIGN_MASK_def EH_MEM_ALIGN_SIZE_def)

lemma mem_rw [simp]:
  "m_next (set_mnext b v m) = (m_next m)(b := v)" "m_size (set_mnext b v m) = m_size m"
  "m_size (set_msize b v m) = (m_size m)(b := v)" "m_next (set_msize b v m) = m_next m"
  "m_next (add_free n m) = m_next m" "m_size (add_free n m) = m_size m"
  "mem_free_size (add_free n m) = mem_free_size m + n"
  "mem_free_size (set_mnext b v m) = mem_free_size m" "mem_free_size (set_msize b v m) = mem_free_size m"
  "first_block (set_mnext b v m) = first_block m" "first_block (set_msize b v m) = first_block m"
  "first_block (add_free n m) = first_block m"
  by (simp_all add: set_mnext_def set_msize_def add_free_def)

text \<open>What the operations on the free list leave alone.\<close>

definition same_rest :: "mem \<Rightarrow> mem \<Rightarrow> bool" where
  "same_rest m m' \<longleftrightarrow> first_block m' = first_block m \<and> mem_total_size m' = mem_total_size m
     \<and> mem_use_block_cnt m' = mem_use_block_cnt m \<and> mem_heap_array m' = mem_heap_array m
     \<and> mem_min_ever_free_size_level m' = mem_min_ever_free_size_level m"

lemma same_rest_simps [simp]:
  "same_rest m m" "same_rest m (set_mnext b v m') = same_rest m m'"
  "same_rest m (set_msize b v m') = same_rest m m'" "same_rest m (add_free n m') = same_rest m m'"
  by (simp_all add: same_rest_def set_mnext_def set_msize_def add_free_def)

lemma bend_gt: "unat w < bend m w"
  by (simp add: bend_def)

lemma fits_outside: "fits m w \<Longrightarrow> w \<noteq> first_block m \<and> w \<noteq> first_block m + 16 \<and> w \<noteq> 0"
  using bend_gt[of w m] by (auto simp: fits_def extent_def)

lemma mem_weak_distinct:
  assumes "sorted_wrt (\<lambda>a b. bend m a \<le> unat b) ws"
  shows "distinct ws"
  using assms
proof (induction ws)
  case (Cons w ws)
  then show ?case using bend_gt[of w m] by fastforce
qed simp

lemma weak_distinct: "mem_weak m ws \<Longrightarrow> distinct ws"
  unfolding mem_weak_def using mem_weak_distinct by blast

lemma sorted_bend_cong:
  assumes "\<And>x. x \<in> set ws \<Longrightarrow> bend m' x = bend m x"
  shows "sorted_wrt (\<lambda>a b. bend m' a \<le> unat b) ws \<longleftrightarrow> sorted_wrt (\<lambda>a b. bend m a \<le> unat b) ws"
    "gapped m' ws \<longleftrightarrow> gapped m ws"
  using assms by (induction ws) (auto simp: gapped_def)

lemma unat_next:
  assumes "fits m w"
  shows "unat (w + m_size m w + 16) = bend m w"
proof -
  have b: "unat w + unat (m_size m w) + 16 < 2 ^ 64" using assms by (simp add: fits_def bend_def)
  then have "unat (w + m_size m w) = unat w + unat (m_size m w)" by (intro unat_add_no_wrap) simp
  then show ?thesis using b unat_add_no_wrap[of "w + m_size m w" 16] by (simp add: bend_def)
qed

lemma next_eq_iff: "fits m w \<Longrightarrow> w + m_size m w + 16 = b \<longleftrightarrow> bend m w = unat b"
  using unat_next by (metis word_unat_eq_iff)

lemma touches_iff:
  assumes "fits m a"
  shows "a + m_size m a + 16 = (case ys of [] \<Rightarrow> 0 | y # _ \<Rightarrow> y)
    \<longleftrightarrow> (\<exists>y ys'. ys = y # ys' \<and> bend m a = unat y)"
  using next_eq_iff[OF assms] by (cases ys) (auto simp: bend_def)

subsection \<open>Merging\<close>

lemma merge_blocks_simps [simp]:
  "m_size (merge_blocks a b m) = (m_size m)(a := m_size m a + (m_size m b + 16))"
  "m_next (merge_blocks a b m) = (m_next m)(a := m_next m b)"
  "mem_free_size (merge_blocks a b m) = mem_free_size m + 16"
  "first_block (merge_blocks a b m) = first_block m" "same_rest m' (merge_blocks a b m) = same_rest m' m"
  by (simp_all add: merge_blocks_def Let_def)

lemma merge_bend:
  assumes "fits m a" "fits m b" "bend m a = unat b"
  shows "unat (m_size m a + (m_size m b + 16)) = unat (m_size m a) + unat (m_size m b) + 16"
    "bend (merge_blocks a b m) a = bend m b" "fits (merge_blocks a b m) a"
proof -
  have 1: "unat (m_size m b + 16) = unat (m_size m b) + 16"
    using assms(2) unat_add_no_wrap[of "m_size m b" 16] by (simp add: fits_def bend_def)
  show s: "unat (m_size m a + (m_size m b + 16)) = unat (m_size m a) + unat (m_size m b) + 16"
    using assms unat_add_no_wrap[of "m_size m a" "m_size m b + 16"] unfolding 1 by (simp add: fits_def bend_def)
  show e: "bend (merge_blocks a b m) a = bend m b"
    using assms(3) s by (simp add: bend_def)
  have "16 dvd unat (m_size m a) + unat (m_size m b) + 16" using assms(1,2) by (simp add: fits_def)
  moreover have "extent (merge_blocks a b m) a = extent m a \<union> extent m b"
    unfolding extent_def e using assms(3) bend_gt[of a m] bend_gt[of b m] by auto
  ultimately show "fits (merge_blocks a b m) a" using assms(1,2) e s by (simp add: fits_def)
qed

lemma bend_other [simp]: "w \<noteq> a \<Longrightarrow> bend (merge_blocks a b m) w = bend m w"
  by (simp add: bend_def)

lemma fits_other: "w \<noteq> a \<Longrightarrow> fits (merge_blocks a b m) w = fits m w"
  by (simp add: fits_def extent_def)

lemma merge_weak:
  assumes "mem_weak m (xs @ a # b # ys)" "bend m a = unat b"
  shows "mem_weak (merge_blocks a b m) (xs @ a # ys)"
    "extent (merge_blocks a b m) a = extent m a \<union> extent m b"
proof -
  let ?m = "merge_blocks a b m"
  note w = assms(1)[unfolded mem_weak_def]
  have d: "distinct (xs @ a # b # ys)" using w mem_weak_distinct by blast
  have f: "fits m a" "fits m b" using w by auto
  note e = merge_bend[OF f assms(2)]
  have fb: "first_block m \<noteq> a" using fits_outside[OF f(1)] by blast
  have o: "bend ?m x = bend m x" "fits ?m x = fits m x" "m_size ?m x = m_size m x" if "x \<in> set xs \<union> set ys" for x
  proof -
    have "x \<noteq> a" using that d by auto
    then show "bend ?m x = bend m x" "fits ?m x = fits m x" "m_size ?m x = m_size m x" by (simp_all add: fits_other)
  qed
  have p: "path (m_next ?m) (m_next ?m (first_block ?m)) (xs @ a # ys) 0"
    using w d fb by (auto simp: path_append)
  have s: "sorted_wrt (\<lambda>a b. bend ?m a \<le> unat b) (xs @ a # ys)"
  proof -
    have x: "sorted_wrt (\<lambda>a b. bend ?m a \<le> unat b) xs" "sorted_wrt (\<lambda>a b. bend ?m a \<le> unat b) ys"
      using w o sorted_bend_cong(1)[of xs ?m m] sorted_bend_cong(1)[of ys ?m m] by (simp_all add: sorted_wrt_append)
    show ?thesis using w o e x by (auto simp: sorted_wrt_append)
  qed
  have c: "map (m_size ?m) xs = map (m_size m) xs" "map (m_size ?m) ys = map (m_size m) ys" using o by auto
  have "mem_free_size ?m = sum_list (map (m_size ?m) (xs @ a # ys))"
    using w unfolding map_append list.map sum_list_append sum_list.Cons c by (simp add: algebra_simps)
  then show "mem_weak ?m (xs @ a # ys)" unfolding mem_weak_def using p s w o e fb by auto
  show "extent ?m a = extent m a \<union> extent m b"
    unfolding extent_def e(2) using assms(2) bend_gt[of a m] bend_gt[of b m] by auto
qed

subsection \<open>Inserting\<close>

abbreviation first_of :: "u64 list \<Rightarrow> u64" where
  "first_of ys \<equiv> (case ys of [] \<Rightarrow> 0 | y # _ \<Rightarrow> y)"

lemma insert_search_result:
  assumes "path (m_next m) p (xs @ ys) 0" "\<And>x. x \<in> set xs \<Longrightarrow> x < new" "\<And>y. y \<in> set ys \<Longrightarrow> \<not> y < new"
  shows "insert_search prev p new m = Some (last (prev # xs), first_of ys)"
  using assms
proof (induction xs arbitrary: prev p)
  case Nil
  then show ?case by (cases ys) (simp_all add: insert_search.simps)
next
  case (Cons x xs)
  then have i: "insert_search x (m_next m x) new m = Some (last (x # xs), first_of ys)" by simp
  have "p = x" "x \<noteq> 0" "x < new" using Cons.prems by auto
  then show ?case using i insert_search.simps[of prev x new m] by simp
qed

lemma link_weak:
  assumes "mem_ok m (xs @ ys)" "fits m n"
    "\<And>x. x \<in> set xs \<Longrightarrow> bend m x \<le> unat n" "\<And>y. y \<in> set ys \<Longrightarrow> bend m n \<le> unat y"
  defines "m' \<equiv> add_free (m_size m n) (set_mnext n (first_of ys) (set_mnext (last (first_block m # xs)) n m))"
  shows "mem_weak m' (xs @ n # ys)"
proof -
  note w = assms(1)[unfolded mem_ok_def mem_weak_def]
  have b: "bend m' = bend m" by (simp add: m'_def bend_def fun_eq_iff)
  have f: "fits m' = fits m" by (simp add: fits_def extent_def b fun_eq_iff) (simp add: m'_def)
  have s: "sorted_wrt (\<lambda>a b. bend m' a \<le> unat b) (xs @ n # ys)"
    using w assms(3,4) by (auto simp: b sorted_wrt_append)
  then have d: "distinct (xs @ n # ys)" by (rule mem_weak_distinct)
  have fb: "first_block m \<noteq> n" "first_block m \<notin> set (xs @ ys)" "n \<noteq> 0" using fits_outside assms(2) w by blast+
  have y: "path (m_next m) (first_of ys) ys 0"
    using w by (cases ys) auto
  have "path (m_next m') (m_next m' (first_block m')) (xs @ n # ys) 0"
  proof (cases xs rule: rev_cases)
    case Nil
    then show ?thesis using y d fb assms(2) by (simp add: m'_def fits_def)
  next
    case (snoc zs z)
    then show ?thesis using y d fb assms(2) w by (auto simp: m'_def fits_def)
  qed
  moreover have "mem_free_size m' = sum_list (map (m_size m') (xs @ n # ys))" using w by (simp add: m'_def)
  ultimately show ?thesis unfolding mem_weak_def using s w assms(2) fb by (auto simp: f) (simp_all add: m'_def)
qed

text \<open>Merging with the successor if they touch.\<close>

definition merge_next :: "u64 \<Rightarrow> u64 \<Rightarrow> mem \<Rightarrow> mem" where
  "merge_next a b m = (if a + m_size m a + 16 = b then merge_blocks a b m else m)"

definition inserted :: "mem \<Rightarrow> u64 set \<Rightarrow> mem \<Rightarrow> u64 list \<Rightarrow> bool" where
  "inserted m A m' ws \<longleftrightarrow> (\<Union>w\<in>set ws. extent m' w) = (\<Union>w\<in>A. extent m w) \<and> set ws \<subseteq> A
     \<and> (\<forall>w. w \<notin> A \<longrightarrow> m_size m' w = m_size m w) \<and> same_rest m m'"

lemma merge_next_weak:
  assumes "mem_weak m (xs @ a # ys)"
  shows "\<exists>zs. mem_weak (merge_next a (first_of ys) m) (xs @ a # zs)
    \<and> inserted m (set (xs @ a # ys)) (merge_next a (first_of ys) m) (xs @ a # zs)
    \<and> (gapped m (xs @ [a]) \<and> gapped m ys \<longrightarrow> gapped (merge_next a (first_of ys) m) (xs @ a # zs))
    \<and> (gapped m ys \<longrightarrow> gapped (merge_next a (first_of ys) m) zs)
    \<and> (gapped m ys \<longrightarrow> (\<forall>z\<in>set zs. bend (merge_next a (first_of ys) m) a < unat z))"
proof -
  have fa: "fits m a" using assms by (simp add: mem_weak_def)
  note t = touches_iff[OF fa, of ys]
  show ?thesis
  proof (cases "\<exists>y ys'. ys = y # ys' \<and> bend m a = unat y")
    case True
    then obtain b zs where ys: "ys = b # zs" "bend m a = unat b" by blast
    let ?m = "merge_blocks a b m"
    have m: "merge_next a (first_of ys) m = ?m" using t ys by (simp add: merge_next_def)
    have fb: "fits m b" using assms ys by (simp add: mem_weak_def)
    note k = merge_weak[OF assms[unfolded ys(1)] ys(2)] and e = merge_bend[OF fa fb ys(2)]
    have d: "distinct (xs @ a # b # zs)" using weak_distinct[OF assms] ys by simp
    have o: "bend ?m x = bend m x" if "x \<in> set xs \<union> set zs" for x using that d by (intro bend_other) auto
    have x: "extent ?m x = extent m x" if "x \<in> set xs \<union> set zs" for x using o[OF that] by (simp add: extent_def)
    have "inserted m (set (xs @ a # ys)) ?m (xs @ a # zs)"
      unfolding inserted_def using x k(2) ys by auto
    moreover have z: "gapped ?m zs \<and> (\<forall>z\<in>set zs. bend ?m a < unat z)" if "gapped m ys"
      using that ys e(2) sorted_bend_cong(2)[of zs ?m m] o by (simp add: gapped_def)
    moreover have "gapped ?m (xs @ a # zs)" if "gapped m (xs @ [a])" "gapped m ys"
    proof -
      have "unat b < unat z" if "z \<in> set zs" for z
        using that \<open>gapped m ys\<close> ys bend_gt[of b m] by (fastforce simp: gapped_def)
      moreover have "bend m x < unat b" if "x \<in> set xs" for x
        using that \<open>gapped m (xs @ [a])\<close> ys(2) bend_gt[of a m] by (fastforce simp: gapped_def sorted_wrt_append)
      ultimately have "\<forall>x\<in>set xs. \<forall>z\<in>set zs. bend ?m x < unat z" using o by fastforce
      then show ?thesis using that z sorted_bend_cong(2)[of xs ?m m] o by (simp add: gapped_def sorted_wrt_append)
    qed
    ultimately show ?thesis unfolding m using k(1) by blast
  next
    case False
    have m: "merge_next a (first_of ys) m = m"
      unfolding merge_next_def using False t by (simp only: if_False)
    have s: "sorted_wrt (\<lambda>a b. bend m a \<le> unat b) (xs @ a # ys)" using assms by (simp add: mem_weak_def)
    have g: "\<forall>y\<in>set ys. bend m a < unat y"
    proof (cases ys)
      case (Cons y zs)
      then have "bend m a < unat y" using False s by (auto simp: sorted_wrt_append)
      moreover have "unat y < unat z" if "z \<in> set zs" for z
        using that s Cons bend_gt[of y m] by (fastforce simp: sorted_wrt_append)
      ultimately show ?thesis using Cons by fastforce
    qed simp
    have "inserted m (set (xs @ a # ys)) m (xs @ a # ys)" by (simp add: inserted_def)
    moreover have "gapped m (xs @ a # ys)" if "gapped m (xs @ [a])" "gapped m ys"
    proof -
      have "bend m x < unat y" if "x \<in> set xs" "y \<in> set ys" for x y
        using that \<open>gapped m (xs @ [a])\<close> g bend_gt[of a m] by (fastforce simp: gapped_def sorted_wrt_append)
      then show ?thesis using that g by (simp add: gapped_def sorted_wrt_append)
    qed
    ultimately show ?thesis unfolding m using assms g by blast
  qed
qed

lemma inserted_trans:
  assumes "inserted m A m1 us" "inserted m1 (set us) m2 vs"
  shows "inserted m A m2 vs"
proof -
  note a = assms[unfolded inserted_def]
  have "m_size m2 w = m_size m w" if "w \<notin> A" for w
  proof -
    have "w \<notin> set us" using that a by auto
    then show ?thesis using that a by simp
  qed
  moreover have "same_rest m m2" using a by (simp add: same_rest_def)
  ultimately show ?thesis unfolding inserted_def using a by auto
qed

lemma gapped_snoc: "gapped m (xs @ [a]) \<longleftrightarrow> gapped m xs \<and> (\<forall>x\<in>set xs. bend m x < unat a)"
  by (auto simp: gapped_def sorted_wrt_append)

text \<open>The first merge of \<open>eh_mem_insert\<close>: a block \<open>n\<close> that may touch both neighbours.\<close>

lemma merge_prev_effect:
  assumes "mem_weak m (xs @ n # ys)" "gapped m xs" "gapped m ys"
  defines "prev \<equiv> last (first_block m # xs)"
  defines "touch \<equiv> prev + m_size m prev + 16 = n"
  defines "m' \<equiv> (if touch then merge_blocks prev n m else m)" and "c \<equiv> (if touch then prev else n)"
  shows "\<exists>zs. mem_weak m' (zs @ c # ys) \<and> gapped m' (zs @ [c]) \<and> gapped m' ys
    \<and> inserted m (set (xs @ n # ys)) m' (zs @ c # ys)"
proof (cases xs rule: rev_cases)
  case Nil
  have "fits m n" "m_size m (first_block m) = 0" using assms(1) by (simp_all add: mem_weak_def)
  then have "\<not> touch" using fits_outside[of m n] by (auto simp: touch_def prev_def Nil)
  then show ?thesis
    using assms(1,3) Nil by (intro exI[of _ "[]"]) (simp add: m'_def c_def gapped_def inserted_def)
next
  case (snoc zs z)
  have w: "mem_weak m (zs @ z # n # ys)" using assms(1) snoc by simp
  have f: "fits m z" "fits m n" using w by (simp_all add: mem_weak_def)
  have t: "touch \<longleftrightarrow> bend m z = unat n"
    using next_eq_iff[OF f(1)] by (simp add: touch_def prev_def snoc)
  have d: "distinct (zs @ z # n # ys)" by (rule weak_distinct[OF w])
  have gz: "gapped m (zs @ [z])" using assms(2) snoc by simp
  show ?thesis
  proof (cases touch)
    case True
    let ?m = "merge_blocks z n m"
    have mc: "m' = ?m" "c = z" using True by (simp_all add: m'_def c_def prev_def snoc)
    note k = merge_weak[OF w t[THEN iffD1, OF True]]
    have o: "bend ?m x = bend m x" "extent ?m x = extent m x" if "x \<in> set zs \<union> set ys" for x
    proof -
      have "x \<noteq> z" using that d by auto
      then show "bend ?m x = bend m x" "extent ?m x = extent m x" by (simp_all add: extent_def)
    qed
    have "gapped ?m (zs @ [z])"
      using gz sorted_bend_cong(2)[of zs ?m m] o by (simp add: gapped_snoc)
    moreover have "gapped ?m ys" using assms(3) sorted_bend_cong(2)[of ys ?m m] o by simp
    moreover have "inserted m (set (xs @ n # ys)) ?m (zs @ z # ys)"
      unfolding inserted_def using o k(2) snoc by auto
    ultimately show ?thesis unfolding mc using k(1) by blast
  next
    case False
    have mc: "m' = m" "c = n" using False by (simp_all add: m'_def c_def)
    have s: "sorted_wrt (\<lambda>a b. bend m a \<le> unat b) (zs @ z # n # ys)" using w by (simp add: mem_weak_def)
    have zn: "bend m z < unat n" using s False t by (auto simp: sorted_wrt_append)
    have "bend m x < unat n" if "x \<in> set zs" for x
      using that gz zn bend_gt[of z m] by (fastforce simp: gapped_snoc)
    then have "gapped m (xs @ [n])" unfolding gapped_snoc using assms(2) zn snoc by auto
    then show ?thesis unfolding mc using assms(1,3) by (auto simp: inserted_def)
  qed
qed

lemma split_at:
  assumes "sorted_wrt (\<lambda>a b. bend m a \<le> unat b) ws" "\<forall>w\<in>set ws. bend m w \<le> unat n \<or> bend m n \<le> unat w"
  shows "\<exists>xs ys. ws = xs @ ys \<and> (\<forall>x\<in>set xs. x < n \<and> bend m x \<le> unat n) \<and> (\<forall>y\<in>set ys. \<not> y < n \<and> bend m n \<le> unat y)"
  using assms
proof (induction ws)
  case (Cons w ws)
  show ?case
  proof (cases "bend m w \<le> unat n")
    case True
    then have "w < n" using bend_gt[of w m] by (simp add: word_less_nat_alt)
    moreover obtain xs ys where "ws = xs @ ys" "\<forall>x\<in>set xs. x < n \<and> bend m x \<le> unat n"
      "\<forall>y\<in>set ys. \<not> y < n \<and> bend m n \<le> unat y" using Cons by auto
    ultimately show ?thesis using True by (intro exI[of _ "w # xs"] exI[of _ ys]) auto
  next
    case False
    then have "bend m n \<le> unat w" using Cons.prems by simp
    moreover have "bend m n \<le> unat v" if "v \<in> set ws" for v
      using that Cons.prems False bend_gt[of w m] \<open>bend m n \<le> unat w\<close> by fastforce
    ultimately have "\<forall>v\<in>set (w # ws). bend m n \<le> unat v" by simp
    then have "\<forall>v\<in>set (w # ws). \<not> v < n \<and> bend m n \<le> unat v"
      using bend_gt[of n m] by (auto simp: word_less_nat_alt)
    then show ?thesis by (intro exI[of _ "[]"] exI[of _ "w # ws"]) auto
  qed
qed simp

lemma mem_ok_cnt [simp]: "mem_ok (m\<lparr>mem_use_block_cnt := x\<rparr>) ws = mem_ok m ws"
  by (simp add: mem_ok_def mem_weak_def gapped_def fits_def extent_def bend_def)

text \<open>What is left alone but for the number of used blocks.\<close>

definition same_rest_cnt :: "mem \<Rightarrow> mem \<Rightarrow> bool" where
  "same_rest_cnt m m' \<longleftrightarrow> first_block m' = first_block m \<and> mem_total_size m' = mem_total_size m
     \<and> mem_heap_array m' = mem_heap_array m
     \<and> mem_min_ever_free_size_level m' = mem_min_ever_free_size_level m"

lemma eh_mem_insert_effect:
  assumes "mem_ok m ws" "fits m n" "\<forall>w\<in>set ws. bend m w \<le> unat n \<or> bend m n \<le> unat w"
  shows "\<exists>m' ws'. eh_mem_insert n m = Some m' \<and> mem_ok m' ws'
    \<and> (\<Union>w\<in>set ws'. extent m' w) = extent m n \<union> (\<Union>w\<in>set ws. extent m w)
    \<and> set ws' \<subseteq> insert n (set ws) \<and> (\<forall>w. w \<notin> insert n (set ws) \<longrightarrow> m_size m' w = m_size m w)
    \<and> mem_use_block_cnt m' = mem_use_block_cnt m - 1 \<and> same_rest_cnt m m'"
proof -
  have so: "sorted_wrt (\<lambda>a b. bend m a \<le> unat b) ws" and pa: "path (m_next m) (m_next m (first_block m)) ws 0"
    and gw: "gapped m ws" using assms(1) by (simp_all add: mem_ok_def mem_weak_def)
  obtain xs ys where ws: "ws = xs @ ys" and x: "\<forall>x\<in>set xs. x < n \<and> bend m x \<le> unat n"
    and y: "\<forall>y\<in>set ys. \<not> y < n \<and> bend m n \<le> unat y" using split_at[OF so assms(3)] by blast
  define prev where "prev = last (first_block m # xs)"
  have s: "insert_search (first_block m) (m_next m (first_block m)) n m = Some (prev, first_of ys)"
    unfolding prev_def by (rule insert_search_result[OF pa[unfolded ws]]) (use x y in auto)
  define m1 where "m1 = add_free (m_size m n) (set_mnext n (first_of ys) (set_mnext prev n m))"
  have w1: "mem_weak m1 (xs @ n # ys)"
    unfolding m1_def prev_def by (rule link_weak[OF assms(1)[unfolded ws] assms(2)]) (use x y in auto)
  have sz: "m_size m1 = m_size m" "first_block m1 = first_block m" by (simp_all add: m1_def)
  have g1: "gapped m1 xs" "gapped m1 ys"
    using gw by (simp_all add: ws gapped_def bend_def sz sorted_wrt_append)
  have i1: "inserted m (set (xs @ n # ys)) m1 (xs @ n # ys)"
    by (simp add: inserted_def extent_def bend_def sz) (simp add: m1_def)
  define m2 where "m2 = (if prev + m_size m1 prev + 16 = n then merge_blocks prev n m1 else m1)"
  define c where "c = (if prev + m_size m1 prev + 16 = n then prev else n)"
  obtain zs where 2: "mem_weak m2 (zs @ c # ys)" "gapped m2 (zs @ [c])" "gapped m2 ys"
      "inserted m1 (set (xs @ n # ys)) m2 (zs @ c # ys)"
    using merge_prev_effect[OF w1 g1] unfolding m2_def c_def prev_def sz by blast
  define m3 where "m3 = merge_next c (first_of ys) m2"
  obtain vs where 3: "mem_weak m3 (zs @ c # vs)" "gapped m3 (zs @ c # vs)"
      "inserted m2 (set (zs @ c # ys)) m3 (zs @ c # vs)"
    using merge_next_weak[OF 2(1)] 2(2,3) unfolding m3_def by blast
  have r: "eh_mem_insert n m = Some (m3\<lparr>mem_use_block_cnt := mem_use_block_cnt m3 - 1\<rparr>)"
    unfolding eh_mem_insert_def s option.case prod.case Let_def head_size
    by (simp add: m3_def m2_def c_def m1_def merge_next_def)
  have i: "inserted m (set (xs @ n # ys)) m3 (zs @ c # vs)"
    using inserted_trans[OF inserted_trans[OF i1 2(4)] 3(3)] .
  let ?m = "m3\<lparr>mem_use_block_cnt := mem_use_block_cnt m3 - 1\<rparr>"
  have "mem_ok ?m (zs @ c # vs)" unfolding mem_ok_cnt unfolding mem_ok_def using 3(1,2) by blast
  moreover have "(\<Union>w\<in>set (zs @ c # vs). extent ?m w) = extent m n \<union> (\<Union>w\<in>set ws. extent m w)"
    using i by (auto simp: inserted_def extent_def bend_def ws)
  moreover have "set (zs @ c # vs) \<subseteq> insert n (set ws)" using i by (auto simp: inserted_def ws)
  moreover have "\<forall>w. w \<notin> insert n (set ws) \<longrightarrow> m_size ?m w = m_size m w" using i by (auto simp: inserted_def ws)
  moreover have "mem_use_block_cnt ?m = mem_use_block_cnt m - 1" "same_rest_cnt m ?m"
    using i by (simp_all add: inserted_def same_rest_def same_rest_cnt_def)
  ultimately show ?thesis unfolding r by blast
qed

subsection \<open>Allocating\<close>

lemma fit_search_result:
  assumes "path (m_next m) p (xs @ ys) 0" "\<And>x. x \<in> set xs \<Longrightarrow> m_size m x < a"
    "ys = [] \<or> \<not> m_size m (hd ys) < a"
  shows "fit_search prev p a m = Some (last (prev # xs), first_of ys)"
  using assms
proof (induction xs arbitrary: prev p)
  case Nil
  then show ?case by (cases ys) (simp_all add: fit_search.simps)
next
  case (Cons x xs)
  then have i: "fit_search x (m_next m x) a m = Some (last (x # xs), first_of ys)" by simp
  have "p = x" "x \<noteq> 0" "m_size m x < a" using Cons.prems by auto
  then show ?case using i fit_search.simps[of prev x a m] by simp
qed

lemma sum_bound:
  assumes "sorted_wrt (\<lambda>a b. bend m a \<le> unat b) ws" "\<forall>w\<in>set ws. fits m w"
  shows "sum_list (map (\<lambda>w. unat (m_size m w)) ws) + unat (first_of ws) < 2 ^ 64
    \<and> unat (sum_list (map (m_size m) ws)) = sum_list (map (\<lambda>w. unat (m_size m w)) ws)"
  using assms
proof (induction ws)
  case (Cons w ws)
  let ?s = "sum_list (map (\<lambda>w. unat (m_size m w)) ws)"
  have i: "?s + unat (first_of ws) < 2 ^ 64" "unat (sum_list (map (m_size m) ws)) = ?s" using Cons by auto
  have b: "bend m w < 2 ^ 64" using Cons.prems by (simp add: fits_def)
  have "unat (m_size m w) + unat w + ?s < 2 ^ 64"
  proof (cases ws)
    case Nil
    then show ?thesis using b by (simp add: bend_def)
  next
    case (Cons v vs)
    then show ?thesis using i(1) Cons.prems(1) by (simp add: bend_def)
  qed
  moreover from this have "unat (m_size m w + sum_list (map (m_size m) ws)) = unat (m_size m w) + ?s"
    using unat_add_no_wrap[of "m_size m w" "sum_list (map (m_size m) ws)"] i(2) by simp
  ultimately show ?case by simp
qed simp

text \<open>The accounting does not overflow: the number of free bytes is the sum of the sizes.\<close>

lemma free_size_sum:
  assumes "mem_ok m ws"
  shows "unat (mem_free_size m) = sum_list (map (\<lambda>w. unat (m_size m w)) ws)"
  using sum_bound[of m ws] assms by (simp add: mem_ok_def mem_weak_def)

lemma align_up_size:
  assumes "EH_MEM_ALIGN_UP sz \<noteq> 0" "\<not> EH_MEM_ALIGN_UP sz < sz"
  shows "16 dvd unat (EH_MEM_ALIGN_UP sz)" "unat sz \<le> unat (EH_MEM_ALIGN_UP sz)" "0 < unat (EH_MEM_ALIGN_UP sz)"
proof -
  show "16 dvd unat (EH_MEM_ALIGN_UP sz)"
    using and_not_15[of "sz + 15"] by (simp add: EH_MEM_ALIGN_UP_def EH_MEM_ALIGN_MASK_def EH_MEM_ALIGN_SIZE_def)
  show "unat sz \<le> unat (EH_MEM_ALIGN_UP sz)" using assms(2) by (simp add: word_le_nat_alt not_less)
  show "0 < unat (EH_MEM_ALIGN_UP sz)" using assms(1) by (simp add: unat_gt_0)
qed

text \<open>Cutting a block: nothing, or the rest behind the front of size \<open>a\<close> becomes a free block.\<close>

lemma split_effect:
  assumes "mem_weak m (xs @ b # ys)" "gapped m (xs @ b # ys)" "unat a \<le> unat (m_size m b)" "16 dvd unat a"
  defines "m' \<equiv> split_block b a (m\<lparr>mem_free_size := mem_free_size m - m_size m b\<rparr>)"
    and "c \<equiv> b + a + 16"
  shows "(m' = m\<lparr>mem_free_size := mem_free_size m - m_size m b\<rparr>)
    \<or> (fits m' c \<and> unat c = unat b + 16 + unat a \<and> bend m' c = bend m b
       \<and> m_next m' = (m_next m)(c := m_next m b, b := c)
       \<and> m_size m' = (m_size m)(c := m_size m' c, b := a)
       \<and> mem_free_size m' = mem_free_size m - m_size m b + m_size m' c \<and> same_rest m m')"
proof -
  let ?f = "m_size m b - a - 16"
  have fb: "fits m b" using assms(1) by (simp add: mem_weak_def)
  note fd = fb[unfolded fits_def bend_def]
  have s1: "unat (m_size m b - a) = unat (m_size m b) - unat a" by (rule unat_diff_no_wrap[OF assms(3)])
  show ?thesis
  proof (cases "?f > 16 \<and> m_size m b > ?f")
    case False
    have z: "m_size (m\<lparr>mem_free_size := v\<rparr>) = m_size m" for v by simp
    have "m' = m\<lparr>mem_free_size := mem_free_size m - m_size m b\<rparr>"
      unfolding m'_def split_block_def Let_def head_size EH_MEM_ALIGN_SIZE_def z by (rule if_not_P[OF False])
    then show ?thesis by blast
  next
    case True
    have ge: "16 \<le> unat (m_size m b - a)"
    proof (rule ccontr)
      assume "\<not> ?thesis"
      then have l: "unat (m_size m b - a) < 16" by simp
      have "unat ?f = (unat (m_size m b - a) + (2 ^ 64 - 16)) mod 2 ^ 64"
        using l by (simp add: unat_sub_if' )
      also have "\<dots> = unat (m_size m b - a) + (2 ^ 64 - 16)" using l by simp
      finally have "unat ?f \<ge> 2 ^ 64 - 16" by simp
      moreover have "unat ?f < unat (m_size m b)" using True by (simp add: word_less_nat_alt)
      ultimately show False using fd by simp
    qed
    have f: "unat ?f = unat (m_size m b) - unat a - 16"
      using unat_diff_no_wrap[of 16 "m_size m b - a"] ge s1 by simp
    have ba: "unat (b + a) = unat b + unat a" using fd assms(3) by (intro unat_add_no_wrap) simp
    have c: "unat c = unat b + 16 + unat a"
      using fd assms(3) ba unat_add_no_wrap[of "b + a" 16] by (simp add: c_def)
    have m': "m' = add_free ?f (set_mnext b c (set_msize b a (set_mnext c (m_next m b) (set_msize c ?f
        (m\<lparr>mem_free_size := mem_free_size m - m_size m b\<rparr>)))))"
      using True unfolding m'_def split_block_def Let_def head_size EH_MEM_ALIGN_SIZE_def c_def
      by (simp add: set_msize_def set_mnext_def add_free_def)
    have bc: "b \<noteq> c" using c by (metis add_cancel_right_right add.assoc add_is_0 zero_neq_numeral)
    have s: "m_size m' = (m_size m)(c := ?f, b := a)" by (simp add: m')
    have e: "bend m' c = bend m b"
      using bc c f ge s1 by (simp add: bend_def s)
    have "extent m' c \<subseteq> extent m b" unfolding extent_def e using c by auto
    moreover have "16 dvd unat (m_size m b) - unat a - 16" "16 dvd unat b + 16 + unat a"
      using fd assms(4) by (simp_all add: dvd_diff_nat)
    moreover have "c \<noteq> 0" using c by (metis add_is_0 unat_0 zero_neq_numeral)
    moreover have "first_block m' = first_block m" by (simp add: m')
    ultimately have "fits m' c" using fb e c bc f by (auto simp: fits_def s)
    then show ?thesis using c e s bc by (simp add: m' same_rest_def set_msize_def set_mnext_def add_free_def)
  qed
qed

lemma extent_disjoint:
  assumes "mem_weak m (xs @ b # ys)" "w \<in> set xs \<union> set ys"
  shows "extent m w \<inter> extent m b = {}"
  using assms by (auto simp: mem_weak_def sorted_wrt_append extent_def)

lemma unlink_path:
  assumes "path nx (nx fb) (xs @ b # ys) 0" "distinct (fb # xs @ b # ys)"
  shows "path (nx(last (fb # xs) := nx b)) ((nx(last (fb # xs) := nx b)) fb) (xs @ ys) 0"
proof (cases xs rule: rev_cases)
  case Nil
  then show ?thesis using assms by simp
next
  case (snoc zs z)
  then show ?thesis using assms by auto
qed

text \<open>Taking the block \<open>b\<close> out of the list of \<open>m1\<close>, where the sizes are already split.\<close>

definition taken :: "mem \<Rightarrow> u64 \<Rightarrow> u64 \<Rightarrow> mem \<Rightarrow> mem" where
  "taken m prev b m1 =
     (let m2 = set_mnext prev (m_next (update_min_ever m1) b) (update_min_ever m1)
      in m2\<lparr>mem_use_block_cnt := mem_use_block_cnt m2 + 1\<rparr>)"

lemma taken_simps [simp]:
  "m_size (taken m prev b m1) = m_size m1" "m_next (taken m prev b m1) = (m_next m1)(prev := m_next m1 b)"
  "mem_free_size (taken m prev b m1) = mem_free_size m1" "first_block (taken m prev b m1) = first_block m1"
  "mem_total_size (taken m prev b m1) = mem_total_size m1" "mem_heap_array (taken m prev b m1) = mem_heap_array m1"
  "mem_use_block_cnt (taken m prev b m1) = mem_use_block_cnt m1 + 1"
  "mem_min_ever_free_size_level (taken m prev b m1) = min (mem_min_ever_free_size_level m1) (mem_free_size m1)"
  by (simp_all add: taken_def Let_def update_min_ever_def set_mnext_def)

definition malloc_done :: "mem \<Rightarrow> u64 \<Rightarrow> u64 \<Rightarrow> u64 list \<Rightarrow> mem \<Rightarrow> bool" where
  "malloc_done m b a zs m' \<longleftrightarrow> fits m' b \<and> unat a \<le> unat (m_size m' b)
     \<and> extent m' b \<union> (\<Union>z\<in>set zs. extent m' z) = extent m b \<and> extent m' b \<inter> (\<Union>z\<in>set zs. extent m' z) = {}
     \<and> (\<forall>w. unat w \<notin> extent m b \<longrightarrow> m_size m' w = m_size m w)
     \<and> mem_use_block_cnt m' = mem_use_block_cnt m + 1 \<and> first_block m' = first_block m
     \<and> mem_total_size m' = mem_total_size m \<and> mem_heap_array m' = mem_heap_array m
     \<and> mem_min_ever_free_size_level m' = min (mem_min_ever_free_size_level m) (mem_free_size m')"

lemma taken_effect:
  assumes "mem_ok m (xs @ b # ys)" "unat a \<le> unat (m_size m b)" "16 dvd unat a"
  defines "m1 \<equiv> split_block b a (m\<lparr>mem_free_size := mem_free_size m - m_size m b\<rparr>)"
  defines "m' \<equiv> taken m (last (first_block m # xs)) b m1"
  shows "\<exists>zs. mem_ok m' (xs @ zs @ ys) \<and> malloc_done m b a zs m'"
proof -
  have w: "mem_weak m (xs @ b # ys)" and g: "gapped m (xs @ b # ys)" using assms(1) by (simp_all add: mem_ok_def)
  note wd = w[unfolded mem_weak_def]
  have fb: "fits m b" using wd by simp
  have fbn: "first_block m \<notin> set (xs @ b # ys)" using wd fits_outside by blast
  have d: "distinct (first_block m # xs @ b # ys)" using weak_distinct[OF w] fbn by simp
  have si: "unat w \<notin> extent m b" if "w \<in> set xs \<union> set ys" for w
    using extent_disjoint[OF w that] bend_gt[of w m] by (auto simp: extent_def)
  consider (keep) "m1 = m\<lparr>mem_free_size := mem_free_size m - m_size m b\<rparr>"
    | (split) c where "c = b + a + 16" "fits m1 c" "unat c = unat b + 16 + unat a" "bend m1 c = bend m b"
        "m_next m1 = (m_next m)(c := m_next m b, b := c)" "m_size m1 = (m_size m)(c := m_size m1 c, b := a)"
        "mem_free_size m1 = mem_free_size m - m_size m b + m_size m1 c" "same_rest m m1"
    using split_effect[OF w g assms(2,3)] unfolding m1_def by blast
  then show ?thesis
  proof cases
    case keep
    have s: "m_size m' = m_size m" "m_next m' = (m_next m)(last (first_block m # xs) := m_next m b)"
      "first_block m' = first_block m" "mem_free_size m' = mem_free_size m - m_size m b"
      by (simp_all add: m'_def keep)
    have e: "bend m' = bend m" "extent m' = extent m" "fits m' = fits m"
      by (simp_all add: fun_eq_iff bend_def extent_def fits_def s)
    have p: "path (m_next m') (m_next m' (first_block m')) (xs @ ys) 0"
      unfolding s by (rule unlink_path) (use wd d in auto)
    have "mem_weak m' (xs @ ys)"
      unfolding mem_weak_def e using p wd by (auto simp: sorted_wrt_append s)
    moreover have "gapped m' (xs @ ys)" using g by (simp add: gapped_def e sorted_wrt_append)
    moreover have "malloc_done m b a [] m'"
      unfolding malloc_done_def e s(1) using fb assms(2) by (simp add: m'_def keep)
    ultimately show ?thesis unfolding mem_ok_def by (metis append_Nil)
  next
    case split
    note S = split(6) and N = split(5)
    have cb: "c \<noteq> b" using split(3) by (metis add_cancel_right_right add.assoc add_is_0 zero_neq_numeral)
    have cin: "unat c \<in> extent m b" using split(3) split(4) bend_gt[of c m1] by (simp add: extent_def)
    then have cn: "c \<notin> set xs \<union> set ys" using si by blast
    have cf: "c \<noteq> first_block m" using fb cin by (auto simp: fits_def)
    have sz: "m_size m1 x = m_size m x" if "x \<noteq> b" "x \<noteq> c" for x using that by (subst S) simp
    have s: "m_size m' = m_size m1" "first_block m' = first_block m" "mem_free_size m' = mem_free_size m1"
      using split(8) by (simp_all add: m'_def same_rest_def)
    have e: "bend m' x = bend m x" "extent m' x = extent m x" "fits m' x = fits m x" if "x \<in> set xs \<union> set ys" for x
    proof -
      have "x \<noteq> b" "x \<noteq> c" using that d cn by auto
      then show b: "bend m' x = bend m x" by (simp add: bend_def s sz)
      then show e: "extent m' x = extent m x" by (simp add: extent_def)
      show "fits m' x = fits m x" using \<open>x \<noteq> b\<close> \<open>x \<noteq> c\<close> by (simp add: fits_def b e s sz)
    qed
    have ec: "bend m' c = bend m b" "fits m' c"
      using split(2,4,8) by (simp_all add: bend_def fits_def extent_def s same_rest_def)
    have sb: "m_size m' b = a" using S by (metis s(1) fun_upd_same)
    have eb: "bend m' b = unat c" using split(3) by (simp add: bend_def sb)
    have N': "m_next m1 b = c" "m_next m1 c = m_next m b" using N cb by simp_all
    have np: "path (m_next m1) (m_next m1 (first_block m)) (xs @ b # c # ys) 0"
    proof -
      have p: "path (m_next m) (m_next m (first_block m)) xs b" "path (m_next m) (m_next m b) ys 0"
        using wd by auto
      have o: "m_next m1 x = m_next m x" if "x \<noteq> b" "x \<noteq> c" for x using that by (simp add: N)
      have ox: "m_next m1 x = m_next m x" if "x \<in> set xs \<union> set ys" for x
      proof -
        have "x \<noteq> b" "x \<noteq> c" using that d cn by auto
        then show ?thesis by (rule o)
      qed
      have f: "m_next m1 (first_block m) = m_next m (first_block m)" using cf d o by auto
      have "path (m_next m1) (m_next m (first_block m)) xs b"
        using p(1) by (subst path_cong[where nx = "m_next m"]) (simp_all add: ox)
      moreover have "path (m_next m1) (m_next m b) ys 0"
        using p(2) by (subst path_cong[where nx = "m_next m"]) (simp_all add: ox)
      moreover have "b \<noteq> 0" "c \<noteq> 0" using fits_outside fb split(2) by blast+
      ultimately show ?thesis using N' f by auto
    qed
    have p: "path (m_next m') (m_next m' (first_block m')) (xs @ c # ys) 0"
    proof -
      have n: "m_next m' = (m_next m1)(last (first_block m # xs) := m_next m1 b)" by (simp add: m'_def)
      show ?thesis unfolding s n by (rule unlink_path[OF np]) (use d cn cb cf in auto)
    qed
    have bc: "unat b < unat c" "\<forall>x\<in>set xs. bend m x < unat b" "\<forall>y\<in>set ys. bend m b < unat y"
      using split(3) g by (auto simp: gapped_def sorted_wrt_append)
    have so: "gapped m' (xs @ c # ys)"
    proof -
      have "gapped m' xs" "gapped m' ys" using g e sorted_bend_cong(2)[of xs m' m] sorted_bend_cong(2)[of ys m' m]
        by (simp_all add: gapped_def sorted_wrt_append)
      moreover have "\<forall>x\<in>set xs. \<forall>y\<in>set ys. bend m' x < unat y"
        using g e by (simp add: gapped_def sorted_wrt_append)
      ultimately show ?thesis using bc e ec by (fastforce simp: gapped_def sorted_wrt_append)
    qed
    have wk: "sorted_wrt (\<lambda>a b. bend m' a \<le> unat b) (xs @ c # ys)"
      using so unfolding gapped_def by (rule sorted_wrt_mono_rel[rotated]) simp
    have sx: "m_size m1 x = m_size m x" if "x \<in> set xs \<union> set ys" for x
    proof -
      have "x \<noteq> b" "x \<noteq> c" using that d cn by auto
      then show ?thesis by (rule sz)
    qed
    have mp: "map (m_size m') xs = map (m_size m) xs" "map (m_size m') ys = map (m_size m) ys"
      unfolding s(1) using sx by auto
    have fr: "mem_free_size m' = sum_list (map (m_size m') (xs @ c # ys))"
      unfolding map_append list.map mp sum_list_append sum_list.Cons unfolding s using wd split(7) by simp
    have z: "m_size m' (first_block m') = 0" using sz[of "first_block m"] d cf wd by (auto simp: s)
    have "mem_weak m' (xs @ c # ys)"
      unfolding mem_weak_def using p wk fr z e(3) ec(2) wd by simp
    moreover have "malloc_done m b a [c] m'"
    proof -
      have x: "extent m' b \<union> extent m' c = extent m b" "extent m' b \<inter> extent m' c = {}" "extent m' b \<subseteq> extent m b"
        using ec(1) eb bc(1) cin by (auto simp: extent_def)
      have "fits m' b" using fb x(3) eb cin assms(3) by (auto simp: fits_def sb sb[unfolded s(1)] s extent_def)
      moreover have "m_size m' w = m_size m w" if "unat w \<notin> extent m b" for w
      proof -
        have "w \<noteq> b" "w \<noteq> c" using that cin bend_gt[of b m] by (auto simp: extent_def)
        then show ?thesis unfolding s by (rule sz)
      qed
      ultimately show ?thesis using x split(8) by (simp add: malloc_done_def sb) (simp add: m'_def same_rest_def)
    qed
    ultimately show ?thesis using so unfolding mem_ok_def by (metis append_Cons append_Nil)
  qed
qed

text \<open>Success: the first block that is large enough.\<close>

lemma eh_malloc_found:
  assumes "mem_ok m (xs @ b # ys)" "EH_MEM_ALIGN_UP sz \<noteq> 0" "\<not> EH_MEM_ALIGN_UP sz < sz"
    "\<forall>x\<in>set xs. m_size m x < EH_MEM_ALIGN_UP sz" "\<not> m_size m b < EH_MEM_ALIGN_UP sz"
  shows "\<exists>m' zs. eh_malloc sz m = Some (b + 16, m') \<and> mem_ok m' (xs @ zs @ ys)
    \<and> malloc_done m b (EH_MEM_ALIGN_UP sz) zs m'"
proof -
  let ?a = "EH_MEM_ALIGN_UP sz" and ?prev = "last (first_block m # xs)"
  let ?m1 = "split_block b ?a (m\<lparr>mem_free_size := mem_free_size m - m_size m b\<rparr>)"
  have p: "path (m_next m) (m_next m (first_block m)) (xs @ b # ys) 0"
    using assms(1) by (simp add: mem_ok_def mem_weak_def)
  have f: "fit_search (first_block m) (m_next m (first_block m)) ?a m = Some (?prev, b)"
    using fit_search_result[OF p, of ?a] assms(4,5) by simp
  have b0: "b \<noteq> 0" using path_not_null[OF p] by auto
  have "unat (m_size m b) \<le> unat (mem_free_size m)" using free_size_sum[OF assms(1)] by simp
  then have nl: "\<not> mem_free_size m < ?a" using assms(5) by (simp add: word_less_nat_alt)
  have r: "eh_malloc sz m = Some (b + 16, taken m ?prev b ?m1)"
    unfolding eh_malloc_def Let_def f option.case prod.case head_size taken_def
    using assms(2,3) nl b0 by simp
  have "unat ?a \<le> unat (m_size m b)" using assms(5) by (simp add: word_less_nat_alt)
  from taken_effect[OF assms(1) this align_up_size(1)[OF assms(2,3)]] show ?thesis unfolding r by blast
qed

text \<open>Failure: nothing changes.\<close>

lemma eh_malloc_fails:
  assumes "mem_ok m ws" "EH_MEM_ALIGN_UP sz = 0 \<or> EH_MEM_ALIGN_UP sz < sz \<or> (\<forall>w\<in>set ws. m_size m w < EH_MEM_ALIGN_UP sz)"
  shows "eh_malloc sz m = Some (0, m)"
proof (cases "EH_MEM_ALIGN_UP sz = 0 \<or> EH_MEM_ALIGN_UP sz < sz")
  case False
  have p: "path (m_next m) (m_next m (first_block m)) (ws @ []) 0"
    using assms(1) by (simp add: mem_ok_def mem_weak_def)
  have "fit_search (first_block m) (m_next m (first_block m)) (EH_MEM_ALIGN_UP sz) m
    = Some (last (first_block m # ws), 0)"
    using fit_search_result[OF p, of "EH_MEM_ALIGN_UP sz"] assms(2) False by simp
  then show ?thesis unfolding eh_malloc_def Let_def using False by simp
qed (auto simp: eh_malloc_def)

subsection \<open>Counting bytes\<close>

lemma finite_extent: "finite (extent m w)" "card (extent m w) = unat (m_size m w) + 16"
  by (simp_all add: extent_def bend_def)

text \<open>Every byte of the free list is a byte of a header or a free byte.\<close>

lemma card_extents:
  assumes "sorted_wrt (\<lambda>a b. bend m a \<le> unat b) ws"
  shows "card (\<Union>w\<in>set ws. extent m w) = sum_list (map (\<lambda>w. unat (m_size m w)) ws) + 16 * length ws"
  using assms
proof (induction ws)
  case (Cons w ws)
  have "extent m w \<inter> (\<Union>w\<in>set ws. extent m w) = {}" using Cons.prems by (fastforce simp: extent_def)
  then have "card (\<Union>w\<in>set (w # ws). extent m w) = card (extent m w) + card (\<Union>w\<in>set ws. extent m w)"
    using finite_extent(1) by (simp add: card_Un_disjoint)
  then show ?case using Cons finite_extent(2) by simp
qed simp

lemma free_bytes:
  assumes "mem_ok m ws"
  shows "card (\<Union>w\<in>set ws. extent m w) = unat (mem_free_size m) + 16 * length ws"
  unfolding free_size_sum[OF assms] by (rule card_extents) (use assms in \<open>simp add: mem_ok_def mem_weak_def\<close>)

lemma insert_free_size:
  assumes "mem_ok m ws" "mem_ok m' ws'" "set ws' \<subseteq> insert n (set ws)"
    "(\<Union>w\<in>set ws'. extent m' w) = extent m n \<union> (\<Union>w\<in>set ws. extent m w)"
    "extent m n \<inter> (\<Union>w\<in>set ws. extent m w) = {}"
  shows "mem_free_size m \<le> mem_free_size m'"
proof -
  have d: "distinct ws" "distinct ws'" using assms(1,2) weak_distinct by (auto simp: mem_ok_def)
  have "length ws' \<le> Suc (length ws)"
    using card_mono[OF _ assms(3)] card_insert_le_m1[of "Suc (length ws)" "set ws" n] d
    by (simp add: distinct_card)
  moreover have "card (\<Union>w\<in>set ws'. extent m' w) = card (extent m n) + card (\<Union>w\<in>set ws. extent m w)"
    unfolding assms(4) using assms(5) finite_extent(1) by (simp add: card_Un_disjoint)
  ultimately have "unat (mem_free_size m) \<le> unat (mem_free_size m')"
    unfolding free_bytes[OF assms(1)] free_bytes[OF assms(2)] finite_extent(2) by simp
  then show ?thesis by (simp add: word_le_nat_alt)
qed

end
