(* ===== verification/Eh_Mem_Spec.thy ===== *)
theory Eh_Mem_Spec
  imports Eh_Mem_Lemmas
begin

text \<open>
  What the allocator promises over its whole life: from the initialisation on, the blocks handed
  out are disjoint parts of the registered heaps, every call returns, and when everything is
  released the free list is the one of the start.
\<close>

subsection \<open>Lists of intervals with gaps\<close>

definition spans :: "(nat \<times> nat) list \<Rightarrow> nat set" where
  "spans xs = (\<Union>(a, b)\<in>set xs. {a..<b})"

definition spaced :: "(nat \<times> nat) list \<Rightarrow> bool" where
  "spaced xs \<longleftrightarrow> sorted_wrt (\<lambda>x y. snd x < fst y) xs \<and> (\<forall>x\<in>set xs. fst x < snd x)"

lemma spaced_Cons:
  assumes "spaced ((a, b) # xs)"
  shows "a < b" "spaced xs" "spans ((a, b) # xs) = {a..<b} \<union> spans xs" "\<forall>n\<in>spans xs. b < n" "b \<notin> spans ((a, b) # xs)"
  using assms by (fastforce simp: spaced_def spans_def)+

text \<open>A list of intervals with gaps is determined by the numbers it covers.\<close>

lemma spaced_unique:
  assumes "spaced xs" "spaced ys" "spans xs = spans ys"
  shows "xs = ys"
  using assms
proof (induction xs arbitrary: ys)
  case Nil
  then show ?case by (cases ys) (fastforce simp: spans_def spaced_def)+
next
  case (Cons x xs)
  obtain a b where x: "x = (a, b)" by fastforce
  note X = spaced_Cons[OF Cons.prems(1)[unfolded x]]
  have ne: "a \<in> spans ys" using X(1,3) Cons.prems(3) x by (metis UnI1 atLeastLessThan_iff order_refl)
  then obtain c d zs where ys: "ys = (c, d) # zs" by (cases ys) (auto simp: spans_def)
  note Y = spaced_Cons[OF Cons.prems(2)[unfolded ys]]
  have u: "{a..<b} \<union> spans xs = {c..<d} \<union> spans zs" using Cons.prems(3) X(3) Y(3) x ys by simp
  have ac: "a = c"
  proof (rule antisym)
    have "c \<in> {a..<b} \<union> spans xs" unfolding u using Y(1) by simp
    then show "a \<le> c" using X(1,4) by force
    have "a \<in> {c..<d} \<union> spans zs" unfolding u[symmetric] using X(1) by simp
    then show "c \<le> a" using Y(1,4) by force
  qed
  have bd: "b = d"
  proof (rule ccontr)
    assume "b \<noteq> d"
    then consider "b < d" | "d < b" by linarith
    then show False
    proof cases
      case 1
      then have "b \<in> {c..<d} \<union> spans zs" using ac X(1) by simp
      then show False unfolding u[symmetric] using X(4) by auto
    next
      case 2
      then have "d \<in> {a..<b} \<union> spans xs" using ac Y(1) by simp
      then show False unfolding u using Y(4) by auto
    qed
  qed
  have "spans xs = spans zs"
  proof -
    have "spans xs = {n \<in> {a..<b} \<union> spans xs. b < n}" using X(4) by auto
    also have "\<dots> = spans zs" unfolding u using Y(4) bd by auto
    finally show ?thesis .
  qed
  then show ?case using Cons.IH[OF X(2) Y(2)] x ys ac bd by simp
qed

definition ivs :: "mem \<Rightarrow> u64 list \<Rightarrow> (nat \<times> nat) list" where
  "ivs m ws = map (\<lambda>w. (unat w, bend m w)) ws"

lemma ivs_spaced: "gapped m ws \<Longrightarrow> spaced (ivs m ws)"
  by (auto simp: spaced_def ivs_def gapped_def sorted_wrt_map bend_gt)

lemma ivs_spans: "spans (ivs m ws) = (\<Union>w\<in>set ws. extent m w)"
  by (auto simp: spans_def ivs_def extent_def)

lemma ivs_inj:
  assumes "ivs m ws = ivs m' ws'"
  shows "ws = ws'" "\<And>w. w \<in> set ws \<Longrightarrow> m_size m w = m_size m' w"
proof -
  have "map (\<lambda>w. unat w) ws = map (\<lambda>w. unat w) ws'" using arg_cong[OF assms, of "map fst"] by (simp add: ivs_def comp_def)
  then show e: "ws = ws'" by (metis (mono_tags, lifting) inj_onI map_injective word_unat_eq_iff injI)
  show "m_size m w = m_size m' w" if "w \<in> set ws" for w
    using assms that unfolding e ivs_def by (simp add: bend_def word_unat_eq_iff)
qed

lemma interval_apart:
  assumes "{a..<b} \<inter> {c..<d} = {}" "a < b" "(c::nat) < d"
  shows "b \<le> c \<or> d \<le> a"
proof (rule ccontr)
  assume "\<not> ?thesis"
  then have "max a c \<in> {a..<b} \<inter> {c..<d}" using assms(2,3) by auto
  then show False using assms(1) by blast
qed

lemma apart:
  assumes "extent m w \<inter> extent m n = {}"
  shows "bend m w \<le> unat n \<or> bend m n \<le> unat w"
  using interval_apart[OF assms[unfolded extent_def]] bend_gt by blast

text \<open>The calls of \<open>eh_free_block_dump\<close> visit the free list.\<close>

lemma free_block_walk_result:
  assumes "path (m_next m) p ws 0"
  shows "free_block_walk p m = Some (map (\<lambda>w. (w, m_size m w + 16)) ws)"
  using assms by (induction ws arbitrary: p) (simp_all add: free_block_walk.simps)

lemma eh_free_block_dump_result:
  "mem_ok m ws \<Longrightarrow> eh_free_block_dump m = Some (map (\<lambda>w. (w, m_size m w + 16)) ws)"
  by (simp add: mem_ok_def mem_weak_def eh_free_block_dump_def free_block_walk_result)

subsection \<open>Initialisation\<close>

definition region :: "mem_heap \<Rightarrow> nat set" where
  "region h = {unat (heap_block h) ..< unat (heap_end h)}"

text \<open>
  The registered heaps are usable: after aligning there is room for a header, they do not overlap
  and they do not hold the allocator's own variables.
\<close>

definition heaps_ok :: "u64 \<Rightarrow> mem_heap list \<Rightarrow> bool" where
  "heaps_ok fb hs \<longleftrightarrow> sorted_wrt (\<lambda>g h. region g \<inter> region h = {}) hs
     \<and> (\<forall>h\<in>set hs. heap_block h \<noteq> 0 \<and> unat (heap_block h) + 16 \<le> unat (heap_end h)
          \<and> unat fb \<notin> region h \<and> unat (fb + 16) \<notin> region h)"

lemma heap_block_aligned: "16 dvd unat (heap_block h)" "16 dvd unat (heap_end h)"
  using and_not_15[of "heap_start h + 15"] and_not_15[of "heap_start h + heap_size h"]
  by (simp_all add: heap_block_def heap_end_def EH_MEM_ALIGN_UP_def EH_MEM_ALIGN_DOWN_def
      EH_MEM_ALIGN_MASK_def EH_MEM_ALIGN_SIZE_def)

definition put_heap :: "mem_heap \<Rightarrow> mem \<Rightarrow> mem" where
  "put_heap h m = set_msize (heap_block h) (heap_end h - heap_block h - 16) (set_mnext (heap_block h) 0 m)"

lemma put_heap_effect:
  assumes "mem_ok m ws" "heaps_ok (first_block m) [h]" "(\<Union>w\<in>set ws. extent m w) \<inter> region h = {}"
  shows "mem_ok (put_heap h m) ws" "fits (put_heap h m) (heap_block h)"
    "extent (put_heap h m) (heap_block h) = region h"
    "\<And>w. w \<in> set ws \<Longrightarrow> extent (put_heap h m) w = extent m w" "same_rest m (put_heap h m)"
proof -
  let ?b = "heap_block h" and ?m = "put_heap h m"
  have h: "?b \<noteq> 0" "unat ?b + 16 \<le> unat (heap_end h)" "unat (first_block m) \<notin> region h"
    "unat (first_block m + 16) \<notin> region h" using assms(2) by (simp_all add: heaps_ok_def)
  have s1: "unat (heap_end h - ?b) = unat (heap_end h) - unat ?b" using h(2) by (intro unat_diff_no_wrap) simp
  have s: "unat (heap_end h - ?b - 16) = unat (heap_end h) - unat ?b - 16"
    using unat_diff_no_wrap[of 16 "heap_end h - ?b"] h(2) s1 by simp
  have sz: "m_size ?m ?b = heap_end h - ?b - 16" by (simp add: put_heap_def)
  have e: "bend ?m ?b = unat (heap_end h)" using h(2) by (simp add: bend_def sz s)
  then show x: "extent ?m ?b = region h" by (simp add: extent_def region_def)
  have l: "unat (heap_end h) < 2 ^ 64" by (rule order_less_le_trans[OF unsigned_less]) simp
  have "16 dvd unat (heap_end h) - unat ?b - 16" using heap_block_aligned by (simp add: dvd_diff_nat)
  then show "fits ?m ?b"
    using h heap_block_aligned(1) l by (simp add: fits_def x e sz s) (simp add: put_heap_def)
  have bn: "?b \<notin> set ws"
  proof
    assume b: "?b \<in> set ws"
    have "unat ?b \<in> extent m ?b" using bend_gt by (simp add: extent_def)
    moreover have "unat ?b \<in> region h" using h(2) by (simp add: region_def)
    ultimately show False using assms(3) b by blast
  qed
  have bf: "?b \<noteq> first_block m" using h(2,3) by (auto simp: region_def)
  have o: "m_size ?m w = m_size m w" "m_next ?m w = m_next m w" if "w \<noteq> ?b" for w
    using that by (simp_all add: put_heap_def)
  have b: "bend ?m w = bend m w" if "w \<in> set ws" for w
    using that bn o(1)[of w] by (metis bend_def)
  then show ex: "extent ?m w = extent m w" if "w \<in> set ws" for w using that by (simp add: extent_def)
  have fi: "fits ?m w" if "w \<in> set ws" for w
  proof -
    have "fits m w" using assms(1) that by (simp add: mem_ok_def mem_weak_def)
    moreover have "m_size ?m w = m_size m w" using that bn o(1)[of w] by metis
    ultimately show ?thesis using b[OF that] ex[OF that] by (simp add: fits_def) (simp add: put_heap_def)
  qed
  have mp: "map (m_size ?m) ws = map (m_size m) ws" using bn o(1) by (metis map_cong)
  have so: "sorted_wrt (\<lambda>a b. bend ?m a \<le> unat b) ws" "gapped ?m ws"
    using assms(1) sorted_bend_cong[of ws ?m m] b by (simp_all add: mem_ok_def mem_weak_def)
  have f: "first_block ?m = first_block m" "mem_free_size ?m = mem_free_size m" by (simp_all add: put_heap_def)
  have p: "path (m_next ?m) (m_next ?m (first_block ?m)) ws 0"
  proof -
    have "path (m_next m) (m_next m (first_block m)) ws 0" using assms(1) by (simp add: mem_ok_def mem_weak_def)
    moreover have "m_next ?m (first_block m) = m_next m (first_block m)" using bf o(2) by metis
    moreover have "path (m_next ?m) q ws 0 = path (m_next m) q ws 0" for q
      by (rule path_cong) (use bn o(2) in metis)
    ultimately show ?thesis by (simp add: f)
  qed
  have "m_size ?m (first_block ?m) = 0" using assms(1) bf o(1) f(1) by (simp add: mem_ok_def mem_weak_def)
  then show "mem_ok ?m ws"
    unfolding mem_ok_def mem_weak_def mp using p so fi assms(1) f(2) by (simp add: mem_ok_def mem_weak_def)
  show "same_rest m ?m" by (simp add: put_heap_def)
qed

lemma same_rest_cnt_trans: "same_rest_cnt a b \<Longrightarrow> same_rest_cnt b c \<Longrightarrow> same_rest_cnt a c"
  by (simp add: same_rest_cnt_def)

lemma init_heaps_effect:
  assumes "mem_ok m ws" "heaps_ok (first_block m) hs"
    "\<forall>h\<in>set hs. (\<Union>w\<in>set ws. extent m w) \<inter> region h = {}"
  shows "\<exists>m' ws'. init_heaps hs m = Some m' \<and> mem_ok m' ws' \<and> same_rest_cnt m m'
    \<and> (\<Union>w\<in>set ws'. extent m' w) = (\<Union>w\<in>set ws. extent m w) \<union> (\<Union>h\<in>set hs. region h)"
  using assms
proof (induction hs arbitrary: m ws)
  case Nil
  then show ?case by (auto simp: same_rest_cnt_def)
next
  case (Cons h hs)
  let ?b = "heap_block h" and ?m = "put_heap h m"
  have h: "heaps_ok (first_block m) [h]" "heaps_ok (first_block m) hs"
    and dj: "\<forall>g\<in>set hs. region h \<inter> region g = {}"
    using Cons.prems(2) by (simp_all add: heaps_ok_def)
  note p = put_heap_effect[OF Cons.prems(1) h(1)]
  have d: "(\<Union>w\<in>set ws. extent m w) \<inter> region h = {}" using Cons.prems(3) by simp
  note p = p[OF d]
  have ap: "\<forall>w\<in>set ws. bend ?m w \<le> unat ?b \<or> bend ?m ?b \<le> unat w"
    using d p(3,4) by (intro ballI apart) auto
  obtain m1 ws1 where 1: "eh_mem_insert ?b ?m = Some m1" "mem_ok m1 ws1"
      "(\<Union>w\<in>set ws1. extent m1 w) = extent ?m ?b \<union> (\<Union>w\<in>set ws. extent ?m w)" "same_rest_cnt ?m m1"
    using eh_mem_insert_effect[OF p(1,2) ap] by blast
  have e1: "(\<Union>w\<in>set ws1. extent m1 w) = region h \<union> (\<Union>w\<in>set ws. extent m w)" using 1(3) p(3,4) by simp
  have s: "same_rest_cnt m ?m" using p(5) by (simp add: same_rest_def same_rest_cnt_def)
  have f: "first_block m1 = first_block m" using same_rest_cnt_trans[OF s 1(4)] by (simp add: same_rest_cnt_def)
  have dd: "\<forall>g\<in>set hs. (\<Union>w\<in>set ws1. extent m1 w) \<inter> region g = {}"
    unfolding e1 Int_Un_distrib2 using dj Cons.prems(3) by simp
  obtain m2 ws2 where 2: "init_heaps hs m1 = Some m2" "mem_ok m2 ws2" "same_rest_cnt m1 m2"
      "(\<Union>w\<in>set ws2. extent m2 w) = (\<Union>w\<in>set ws1. extent m1 w) \<union> (\<Union>g\<in>set hs. region g)"
    using Cons.IH[OF 1(2) _ dd] h(2) f by auto
  have "init_heaps (h # hs) m = Some m2"
    using 1(1) 2(1) by (simp add: put_heap_def Let_def)
  then show ?case using 2(2,4) e1 same_rest_cnt_trans[OF same_rest_cnt_trans[OF s 1(4)] 2(3)]
    by (intro exI[of _ m2] exI[of _ ws2]) auto
qed


lemma eh_mem_init_effect:
  assumes "heaps_ok (first_block m) (mem_heap_array m)" "mem_heap_array m \<noteq> []"
  shows "\<exists>m' ws. eh_mem_init m = Some (0, m') \<and> mem_ok m' ws \<and> first_block m' = first_block m
    \<and> (\<Union>w\<in>set ws. extent m' w) = (\<Union>h\<in>set (mem_heap_array m). region h)
    \<and> mem_use_block_cnt m' = 0 \<and> mem_total_size m' = mem_free_size m'
    \<and> mem_min_ever_free_size_level m' = mem_free_size m'"
proof -
  let ?m0 = "set_msize (first_block m) 0 (set_mnext (first_block m) 0 m)"
  let ?m = "?m0\<lparr>mem_total_size := 0, mem_free_size := 0, mem_min_ever_free_size_level := 0\<rparr>"
  have ok: "mem_ok ?m []" by (simp add: mem_ok_def mem_weak_def gapped_def)
  have a: "mem_heap_array ?m = mem_heap_array m" "first_block ?m = first_block m"
    by (simp_all add: set_msize_def set_mnext_def)
  obtain m1 ws where 1: "init_heaps (mem_heap_array m) ?m = Some m1" "mem_ok m1 ws" "same_rest_cnt ?m m1"
    "(\<Union>w\<in>set ws. extent m1 w) = (\<Union>h\<in>set (mem_heap_array m). region h)"
    using init_heaps_effect[OF ok, of "mem_heap_array m"] assms(1) unfolding a by auto
  let ?r = "m1\<lparr>mem_use_block_cnt := 0, mem_total_size := mem_free_size m1,
    mem_min_ever_free_size_level := mem_free_size m1\<rparr>"
  have r: "eh_mem_init m = Some (0, ?r)"
    using assms(2) 1(1) unfolding eh_mem_init_def Let_def a by simp
  have "mem_ok ?r ws" using 1(2) by (simp add: mem_ok_def mem_weak_def gapped_def fits_def extent_def bend_def)
  moreover have "extent ?r = extent m1" by (simp add: extent_def bend_def fun_eq_iff)
  moreover have "first_block ?r = first_block m" using 1(3) a(2) by (simp add: same_rest_cnt_def)
  ultimately show ?thesis unfolding r using 1(4) by (intro exI[of _ ?r] exI[of _ ws]) simp
qed

subsection \<open>The life of the heap\<close>

text \<open>
  \<open>heap_run m0 m U\<close>: calls of \<open>eh_malloc\<close> and \<open>eh_free\<close> lead from \<open>m0\<close> to \<open>m\<close>
  and \<open>U\<close> are the pointers in use; only these are released.
\<close>

inductive heap_run :: "mem \<Rightarrow> mem \<Rightarrow> u64 set \<Rightarrow> bool" for m0 where
  start: "heap_run m0 m0 {}"
| malloc: "heap_run m0 m U \<Longrightarrow> eh_malloc sz m = Some (p, m') \<Longrightarrow> heap_run m0 m' (if p = 0 then U else insert p U)"
| free: "heap_run m0 m U \<Longrightarrow> p \<in> U \<Longrightarrow> eh_free p m = Some m' \<Longrightarrow> heap_run m0 m' (U - {p})"

definition block_of :: "u64 \<Rightarrow> u64" where "block_of p = p - 16"

definition heap_inv :: "mem \<Rightarrow> mem \<Rightarrow> u64 set \<Rightarrow> nat set \<Rightarrow> u64 list \<Rightarrow> bool" where
  "heap_inv m0 m U R ws \<longleftrightarrow> mem_ok m ws \<and> finite U
     \<and> (\<forall>p\<in>U. fits m (block_of p))
     \<and> (\<forall>p\<in>U. \<forall>q\<in>U. p \<noteq> q \<longrightarrow> extent m (block_of p) \<inter> extent m (block_of q) = {})
     \<and> (\<forall>p\<in>U. \<forall>w\<in>set ws. extent m (block_of p) \<inter> extent m w = {})
     \<and> (\<Union>p\<in>U. extent m (block_of p)) \<union> (\<Union>w\<in>set ws. extent m w) = R
     \<and> mem_use_block_cnt m = of_nat (card U) \<and> mem_min_ever_free_size_level m \<le> mem_free_size m
     \<and> first_block m = first_block m0 \<and> mem_total_size m = mem_total_size m0"

lemma block_of_inj: "block_of p = block_of q \<longleftrightarrow> p = q"
  by (simp add: block_of_def)

lemma extent_self: "unat w \<in> extent m w"
  using bend_gt by (simp add: extent_def)

lemma heap_inv_fits: "heap_inv m0 m U R ws \<Longrightarrow> p \<in> U \<Longrightarrow> fits m (block_of p)"
  by (simp add: heap_inv_def)

lemma heap_inv_inside:
  assumes "heap_inv m0 m U R ws" "p \<in> U"
  shows "extent m (block_of p) \<subseteq> R"
proof -
  have "(\<Union>p\<in>U. extent m (block_of p)) \<union> (\<Union>w\<in>set ws. extent m w) = R" using assms(1) by (simp add: heap_inv_def)
  then show ?thesis using assms(2) by blast
qed

lemma heap_inv_apart:
  assumes "heap_inv m0 m U R ws" "p \<in> U" "q \<in> U" "p \<noteq> q"
  shows "extent m (block_of p) \<inter> extent m (block_of q) = {}"
  using assms by (simp add: heap_inv_def)

text \<open>The sizes of blocks that lie outside of what an operation touches stay.\<close>

lemma blocks_kept:
  assumes "first_block m' = first_block m" "\<forall>p\<in>U. m_size m' (block_of p) = m_size m (block_of p)"
  shows "\<forall>p\<in>U. extent m' (block_of p) = extent m (block_of p)"
    "\<forall>p\<in>U. fits m' (block_of p) = fits m (block_of p)"
  using assms by (simp_all add: extent_def bend_def fits_def)

lemma heap_inv_malloc_none:
  "heap_inv m0 m U R ws \<Longrightarrow> EH_MEM_ALIGN_UP sz = 0 \<or> EH_MEM_ALIGN_UP sz < sz
     \<or> (\<forall>w\<in>set ws. m_size m w < EH_MEM_ALIGN_UP sz) \<Longrightarrow> eh_malloc sz m = Some (0, m)"
  by (rule eh_malloc_fails) (simp_all add: heap_inv_def)

lemma disjoint_sub: "A \<inter> X = {} \<Longrightarrow> B \<subseteq> X \<Longrightarrow> A \<inter> B = {}"
  by blast

lemma heap_inv_malloc:
  assumes "heap_inv m0 m U R (xs @ b # ys)" "EH_MEM_ALIGN_UP sz \<noteq> 0" "\<not> EH_MEM_ALIGN_UP sz < sz"
    "\<forall>x\<in>set xs. m_size m x < EH_MEM_ALIGN_UP sz" "\<not> m_size m b < EH_MEM_ALIGN_UP sz"
  shows "\<exists>m' zs. eh_malloc sz m = Some (b + 16, m') \<and> b + 16 \<notin> U \<and> b + 16 \<noteq> 0
    \<and> heap_inv m0 m' (insert (b + 16) U) R (xs @ zs @ ys) \<and> unat sz \<le> unat (m_size m' b)
    \<and> (\<forall>p\<in>U. m_size m' (block_of p) = m_size m (block_of p))"
proof -
  note i = assms(1)[unfolded heap_inv_def]
  have ok: "mem_ok m (xs @ b # ys)" using i by (rule conjunct1)
  obtain m' zs where r: "eh_malloc sz m = Some (b + 16, m')" "mem_ok m' (xs @ zs @ ys)"
      "malloc_done m b (EH_MEM_ALIGN_UP sz) zs m'"
    using eh_malloc_found[OF ok assms(2-5)] by blast
  note d = r(3)[unfolded malloc_done_def]
  let ?p = "b + 16"
  have bp: "block_of ?p = b" by (simp add: block_of_def)
  have w: "mem_weak m (xs @ b # ys)" using i by (simp add: mem_ok_def)
  have fb: "fits m b" using w by (simp add: mem_weak_def)
  have pU: "?p \<notin> U"
  proof
    assume "?p \<in> U"
    then have "extent m b \<inter> extent m b = {}" using i bp by auto
    then show False using extent_self by blast
  qed
  have szU: "\<forall>p\<in>U. m_size m' (block_of p) = m_size m (block_of p)"
  proof
    fix p assume "p \<in> U"
    then have "extent m (block_of p) \<inter> extent m b = {}" using i by auto
    then have "unat (block_of p) \<notin> extent m b" using extent_self by blast
    then show "m_size m' (block_of p) = m_size m (block_of p)" using d by blast
  qed
  have fbs: "first_block m' = first_block m" using d by simp
  note k = blocks_kept[OF fbs szU]
  have eo: "extent m' x = extent m x" if "x \<in> set xs \<union> set ys" for x
  proof -
    have "unat x \<notin> extent m b" using extent_disjoint[OF w that] extent_self by blast
    then show ?thesis using d by (simp add: extent_def bend_def)
  qed
  have zsub: "extent m' z \<subseteq> extent m b" if "z \<in> set zs" for z using d that by blast
  have bsub: "extent m' b \<subseteq> extent m b" using d by blast
  have bz: "extent m' b \<inter> extent m' z = {}" if "z \<in> set zs" for z using d that by blast
  have un: "(\<Union>z\<in>set zs. extent m' z) \<union> extent m' b = extent m b" using d by blast
  have "(\<Union>p\<in>insert ?p U. extent m' (block_of p)) \<union> (\<Union>w\<in>set (xs @ zs @ ys). extent m' w) = R"
  proof -
    have "(\<Union>w\<in>set (xs @ zs @ ys). extent m' w) = (\<Union>w\<in>set xs \<union> set ys. extent m w) \<union> (\<Union>z\<in>set zs. extent m' z)"
      using eo by auto
    moreover have "(\<Union>p\<in>insert ?p U. extent m' (block_of p)) = extent m' b \<union> (\<Union>p\<in>U. extent m (block_of p))"
      using k(1) bp by simp
    moreover have "R = (\<Union>p\<in>U. extent m (block_of p)) \<union> (extent m b \<union> (\<Union>w\<in>set xs \<union> set ys. extent m w))"
      using i by auto
    moreover have "A \<union> P \<union> (W \<union> Z) = P \<union> (B \<union> W)" if "Z \<union> A = B" for A B P W Z :: "nat set"
      using that by blast
    ultimately show ?thesis using un by simp
  qed
  moreover have "\<forall>p\<in>insert ?p U. \<forall>w\<in>set (xs @ zs @ ys). extent m' (block_of p) \<inter> extent m' w = {}"
  proof (intro ballI)
    fix p w assume p: "p \<in> insert ?p U" and w': "w \<in> set (xs @ zs @ ys)"
    show "extent m' (block_of p) \<inter> extent m' w = {}"
    proof (cases "p = ?p")
      case True
      then show ?thesis using w' bz bsub extent_disjoint[OF w, of w] eo bp by fastforce
    next
      case False
      then have pu: "p \<in> U" using p by simp
      then have "extent m (block_of p) \<inter> extent m b = {}" "\<forall>x\<in>set xs \<union> set ys. extent m (block_of p) \<inter> extent m x = {}"
        using i by auto
      then show ?thesis using w' zsub eo k(1)[rule_format, OF pu] by fastforce
    qed
  qed
  moreover have "\<forall>p\<in>insert ?p U. \<forall>q\<in>insert ?p U. p \<noteq> q \<longrightarrow> extent m' (block_of p) \<inter> extent m' (block_of q) = {}"
  proof -
    have "extent m' b \<inter> extent m' (block_of q) = {}" if "q \<in> U" for q
    proof -
      have "extent m (block_of q) \<inter> extent m b = {}" using i that by simp
      then have "extent m (block_of q) \<inter> extent m' b = {}" using bsub by (rule disjoint_sub)
      then show ?thesis using k(1) that by (simp add: Int_commute)
    qed
    then show ?thesis using i k(1) bp by (auto simp: Int_commute)
  qed
  moreover have "mem_use_block_cnt m' = of_nat (card (insert ?p U))" using i pU d by simp
  moreover have "mem_min_ever_free_size_level m' \<le> mem_free_size m'" using d by simp
  ultimately have "heap_inv m0 m' (insert ?p U) R (xs @ zs @ ys)"
    unfolding heap_inv_def using r(2) i d k(2) bp by simp
  moreover have "unat sz \<le> unat (m_size m' b)" using d align_up_size(2)[OF assms(2,3)] by linarith
  moreover have "?p \<noteq> 0"
  proof -
    have "unat b + 16 < 2 ^ 64" using fb by (simp add: fits_def bend_def)
    then have "unat ?p = unat b + 16" using unat_add_no_wrap[of b 16] by simp
    then show ?thesis by (metis add_is_0 unat_0 zero_neq_numeral)
  qed
  ultimately show ?thesis using r(1) pU szU by blast
qed

lemma heap_inv_free:
  assumes "heap_inv m0 m U R ws" "p \<in> U"
  shows "\<exists>m' ws'. eh_free p m = Some m' \<and> heap_inv m0 m' (U - {p}) R ws'"
proof -
  note i = assms(1)[unfolded heap_inv_def]
  let ?n = "block_of p"
  have f: "fits m ?n" using i assms(2) by blast
  have p0: "p \<noteq> 0"
  proof
    assume "p = 0"
    then have "unat ?n = 2 ^ 64 - 16" by (simp add: block_of_def)
    then show False using f by (simp add: fits_def bend_def)
  qed
  have "\<forall>w\<in>set ws. bend m w \<le> unat ?n \<or> bend m ?n \<le> unat w"
    using i assms(2) by (intro ballI apart) (simp add: Int_commute)
  then obtain m' ws' where r: "eh_mem_insert ?n m = Some m'" "mem_ok m' ws'"
    "(\<Union>w\<in>set ws'. extent m' w) = extent m ?n \<union> (\<Union>w\<in>set ws. extent m w)" "set ws' \<subseteq> insert ?n (set ws)"
    "\<forall>w. w \<notin> insert ?n (set ws) \<longrightarrow> m_size m' w = m_size m w"
    "mem_use_block_cnt m' = mem_use_block_cnt m - 1" "same_rest_cnt m m'"
    using eh_mem_insert_effect[of m ws ?n] i f by blast
  let ?U = "U - {p}"
  have sz: "\<forall>q\<in>?U. m_size m' (block_of q) = m_size m (block_of q)"
  proof
    fix q assume q: "q \<in> ?U"
    then have "block_of q \<noteq> ?n" by (simp add: block_of_inj)
    moreover have "block_of q \<notin> set ws" using i q extent_self by blast
    ultimately show "m_size m' (block_of q) = m_size m (block_of q)" using r(5) by blast
  qed
  have fbs: "first_block m' = first_block m" using r(7) by (simp add: same_rest_cnt_def)
  note k = blocks_kept[OF fbs sz]
  have "(\<Union>q\<in>?U. extent m' (block_of q)) \<union> (\<Union>w\<in>set ws'. extent m' w) = R"
    unfolding r(3) using i k(1) assms(2) by auto
  moreover have "\<forall>q\<in>?U. \<forall>w\<in>set ws'. extent m' (block_of q) \<inter> extent m' w = {}"
  proof (intro ballI)
    fix q w assume q: "q \<in> ?U" and w: "w \<in> set ws'"
    have "extent m (block_of q) \<inter> (extent m ?n \<union> (\<Union>w\<in>set ws. extent m w)) = {}"
      using i q assms(2) by blast
    moreover have "extent m' w \<subseteq> extent m ?n \<union> (\<Union>w\<in>set ws. extent m w)" using r(3) w by blast
    ultimately have "extent m (block_of q) \<inter> extent m' w = {}" by (rule disjoint_sub)
    then show "extent m' (block_of q) \<inter> extent m' w = {}" using k(1) q by simp
  qed
  moreover have "mem_use_block_cnt m' = of_nat (card ?U)"
    using r(6) i card.remove[OF _ assms(2)] by simp
  moreover have "mem_min_ever_free_size_level m' \<le> mem_free_size m'"
  proof -
    have "\<forall>w\<in>set ws. extent m ?n \<inter> extent m w = {}" using i assms(2) by blast
    then have "extent m ?n \<inter> (\<Union>w\<in>set ws. extent m w) = {}" by blast
    then have "mem_free_size m \<le> mem_free_size m'"
      by (rule insert_free_size[OF conjunct1[OF i] r(2) r(4) r(3)])
    moreover have "mem_min_ever_free_size_level m \<le> mem_free_size m" using i by blast
    ultimately have "mem_min_ever_free_size_level m \<le> mem_free_size m'" by (rule order_trans[rotated])
    then show ?thesis using r(7) by (simp add: same_rest_cnt_def)
  qed
  ultimately have "heap_inv m0 m' ?U R ws'"
    unfolding heap_inv_def using r(2,7) i k by (simp add: same_rest_cnt_def)
  then show ?thesis using r(1) p0 by (auto simp: eh_free_def block_of_def)
qed

lemma first_fit:
  assumes "\<not> (\<forall>w\<in>set ws. m_size m w < a)"
  obtains xs b ys where "ws = xs @ b # ys" "\<forall>x\<in>set xs. m_size m x < a" "\<not> m_size m b < a"
  using split_list_first_prop[of ws "\<lambda>w. \<not> m_size m w < a"] assms by auto

lemma heap_run_inv:
  assumes "heap_run m0 m U" "heap_inv m0 m0 {} R ws0"
  shows "\<exists>ws. heap_inv m0 m U R ws"
  using assms
proof (induction rule: heap_run.induct)
  case start
  then show ?case by blast
next
  case (malloc m U sz p m')
  then obtain ws where i: "heap_inv m0 m U R ws" by blast
  show ?case
  proof (cases "EH_MEM_ALIGN_UP sz = 0 \<or> EH_MEM_ALIGN_UP sz < sz \<or> (\<forall>w\<in>set ws. m_size m w < EH_MEM_ALIGN_UP sz)")
    case True
    then show ?thesis using heap_inv_malloc_none[OF i True] malloc.hyps(2) i by auto
  next
    case False
    then obtain xs b ys where "ws = xs @ b # ys" "\<forall>x\<in>set xs. m_size m x < EH_MEM_ALIGN_UP sz"
      "\<not> m_size m b < EH_MEM_ALIGN_UP sz" using first_fit by blast
    then show ?thesis using heap_inv_malloc[of m0 m U R xs b ys sz] i False malloc.hyps(2) by auto
  qed
next
  case (free m U p m')
  then show ?case using heap_inv_free by fastforce
qed

lemma heap_inv_start:
  assumes "heaps_ok (first_block m) (mem_heap_array m)" "mem_heap_array m \<noteq> []"
  shows "\<exists>m0 ws. eh_mem_init m = Some (0, m0) \<and> heap_inv m0 m0 {} (\<Union>h\<in>set (mem_heap_array m). region h) ws
    \<and> mem_total_size m0 = mem_free_size m0"
proof -
  from eh_mem_init_effect[OF assms] obtain m0 ws where "eh_mem_init m = Some (0, m0)" "mem_ok m0 ws"
    "(\<Union>w\<in>set ws. extent m0 w) = (\<Union>h\<in>set (mem_heap_array m). region h)" "mem_use_block_cnt m0 = 0"
    "mem_total_size m0 = mem_free_size m0" "mem_min_ever_free_size_level m0 = mem_free_size m0" by blast
  then show ?thesis by (intro exI[of _ m0] exI[of _ ws]) (simp add: heap_inv_def)
qed

lemma heap_reached:
  assumes "heaps_ok (first_block m) (mem_heap_array m)" "mem_heap_array m \<noteq> []"
    "eh_mem_init m = Some (r, m0)" "heap_run m0 m' U"
  shows "\<exists>ws0 ws. heap_inv m0 m0 {} (\<Union>h\<in>set (mem_heap_array m). region h) ws0
    \<and> heap_inv m0 m' U (\<Union>h\<in>set (mem_heap_array m). region h) ws \<and> mem_total_size m0 = mem_free_size m0"
proof -
  from heap_inv_start[OF assms(1,2)] obtain ws0 where i: "heap_inv m0 m0 {} (\<Union>h\<in>set (mem_heap_array m). region h) ws0"
    "mem_total_size m0 = mem_free_size m0" using assms(3) by auto
  then show ?thesis using heap_run_inv[OF assms(4) i(1)] by blast
qed

definition payload :: "mem \<Rightarrow> u64 \<Rightarrow> nat set" where
  "payload m p = {unat p ..< unat p + unat (m_size m (block_of p))}"

lemma payload_block:
  assumes "fits m (block_of p)"
  shows "payload m p \<subseteq> extent m (block_of p)" "16 dvd unat p" "p \<noteq> 0" "unat p = unat (block_of p) + 16"
proof -
  have f: "unat (block_of p) + 16 + unat (m_size m (block_of p)) < 2 ^ 64" "16 dvd unat (block_of p)"
    using assms by (simp_all add: fits_def bend_def)
  have "unat (block_of p + 16) = unat (block_of p) + 16"
    using f(1) unat_add_no_wrap[of "block_of p" 16] by simp
  then show p: "unat p = unat (block_of p) + 16" by (simp add: block_of_def)
  then show "payload m p \<subseteq> extent m (block_of p)" by (auto simp: payload_def extent_def bend_def)
  show "16 dvd unat p" using p f(2) by simp
  show "p \<noteq> 0" using p by (metis add_is_0 unat_0 zero_neq_numeral)
qed

subsection \<open>The properties\<close>

text \<open>
  C16. \<open>eh_malloc\<close> is first fit: a request of size 0, one that overflows when aligned, and one
  that no free block can hold return \<open>NULL\<close> and change nothing; otherwise the first block that
  is large enough is taken, its front of at least the requested size is handed out and the rest, if
  any, stays in its place on the free list; headers outside that block are not touched.
\<close>

theorem malloc_spec:
  fixes sz :: u64
  assumes "mem_ok m ws"
  defines "a \<equiv> EH_MEM_ALIGN_UP sz"
  shows "if a = 0 \<or> a < sz \<or> (\<forall>w\<in>set ws. m_size m w < a) then eh_malloc sz m = Some (0, m)
    else \<exists>xs b ys m' zs. ws = xs @ b # ys \<and> (\<forall>x\<in>set xs. m_size m x < a) \<and> \<not> m_size m b < a
      \<and> eh_malloc sz m = Some (b + 16, m') \<and> mem_ok m' (xs @ zs @ ys) \<and> unat sz \<le> unat (m_size m' b)
      \<and> extent m' b \<union> (\<Union>z\<in>set zs. extent m' z) = extent m b \<and> extent m' b \<inter> (\<Union>z\<in>set zs. extent m' z) = {}
      \<and> (\<forall>w. unat w \<notin> extent m b \<longrightarrow> m_size m' w = m_size m w)
      \<and> mem_use_block_cnt m' = mem_use_block_cnt m + 1"
proof (cases "a = 0 \<or> a < sz \<or> (\<forall>w\<in>set ws. m_size m w < a)")
  case True
  then show ?thesis using eh_malloc_fails[OF assms(1), of sz] by (simp add: a_def)
next
  case False
  then obtain xs b ys where f: "ws = xs @ b # ys" "\<forall>x\<in>set xs. m_size m x < a" "\<not> m_size m b < a"
    using first_fit by blast
  have n: "a \<noteq> 0" "\<not> a < sz" using False by auto
  obtain m' zs where r: "eh_malloc sz m = Some (b + 16, m')" "mem_ok m' (xs @ zs @ ys)" "malloc_done m b a zs m'"
    using eh_malloc_found[of m xs b ys sz] assms(1) f n unfolding a_def by blast
  note d = r(3)[unfolded malloc_done_def]
  have "unat sz \<le> unat (m_size m' b)" using d align_up_size(2)[OF n[unfolded a_def]] unfolding a_def by linarith
  then show ?thesis
    unfolding if_not_P[OF False] using f r(1,2) d
    by (intro exI[of _ xs] exI[of _ b] exI[of _ ys] exI[of _ m'] exI[of _ zs]) simp
qed

text \<open>
  C14. The blocks in use are safe. After any sequence of \<open>eh_malloc\<close> and \<open>eh_free\<close> on an
  initialised heap, every pointer in use is aligned to 16, its bytes lie inside the registered heaps,
  and no two pointers in use share a byte; every further call returns; and a further allocation
  hands out at least the requested bytes, none of them in use, and keeps the sizes of the blocks
  in use.
\<close>

theorem heap_safety:
  assumes "heaps_ok (first_block m) (mem_heap_array m)" "mem_heap_array m \<noteq> []"
    "eh_mem_init m = Some (r, m0)" "heap_run m0 m1 U"
  shows "(\<forall>p\<in>U. p \<noteq> 0 \<and> 16 dvd unat p \<and> payload m1 p \<subseteq> (\<Union>h\<in>set (mem_heap_array m). region h))
    \<and> (\<forall>p\<in>U. \<forall>q\<in>U. p \<noteq> q \<longrightarrow> payload m1 p \<inter> payload m1 q = {})
    \<and> (\<forall>p\<in>U. \<exists>m2. eh_free p m1 = Some m2)
    \<and> (\<exists>p m2. eh_malloc sz m1 = Some (p, m2) \<and> (p \<noteq> 0 \<longrightarrow> p \<notin> U \<and> unat sz \<le> unat (m_size m2 (block_of p))
         \<and> (\<forall>q\<in>U. payload m2 q = payload m1 q \<and> payload m2 p \<inter> payload m2 q = {})))"
proof -
  let ?R = "\<Union>h\<in>set (mem_heap_array m). region h"
  obtain ws where i: "heap_inv m0 m1 U ?R ws" using heap_reached[OF assms] by blast
  have f: "fits m1 (block_of p)" if "p \<in> U" for p by (rule heap_inv_fits[OF i that])
  have 1: "p \<noteq> 0 \<and> 16 dvd unat p \<and> payload m1 p \<subseteq> ?R" if "p \<in> U" for p
    using payload_block[OF f[OF that]] order_trans[OF _ heap_inv_inside[OF i that]] by simp
  have 2: "payload m1 p \<inter> payload m1 q = {}" if "p \<in> U" "q \<in> U" "p \<noteq> q" for p q
    using payload_block(1)[OF f[OF that(1)]] payload_block(1)[OF f[OF that(2)]] heap_inv_apart[OF i that] by blast
  have 3: "\<exists>m2. eh_free p m1 = Some m2" if "p \<in> U" for p using heap_inv_free[OF i that] by blast
  have 4: "\<exists>p m2. eh_malloc sz m1 = Some (p, m2) \<and> (p \<noteq> 0 \<longrightarrow> p \<notin> U \<and> unat sz \<le> unat (m_size m2 (block_of p))
         \<and> (\<forall>q\<in>U. payload m2 q = payload m1 q \<and> payload m2 p \<inter> payload m2 q = {}))"
  proof (cases "EH_MEM_ALIGN_UP sz = 0 \<or> EH_MEM_ALIGN_UP sz < sz \<or> (\<forall>w\<in>set ws. m_size m1 w < EH_MEM_ALIGN_UP sz)")
    case True
    show ?thesis using heap_inv_malloc_none[OF i True] by simp
  next
    case False
    then obtain xs b ys where s: "ws = xs @ b # ys" "\<forall>x\<in>set xs. m_size m1 x < EH_MEM_ALIGN_UP sz"
      "\<not> m_size m1 b < EH_MEM_ALIGN_UP sz" using first_fit by blast
    obtain m2 zs where r: "eh_malloc sz m1 = Some (b + 16, m2)" "b + 16 \<notin> U"
        "heap_inv m0 m2 (insert (b + 16) U) ?R (xs @ zs @ ys)" "unat sz \<le> unat (m_size m2 b)"
        "\<forall>p\<in>U. m_size m2 (block_of p) = m_size m1 (block_of p)"
      using heap_inv_malloc[of m0 m1 U ?R xs b ys sz] i s False by blast
    have b: "block_of (b + 16) = b" by (simp add: block_of_def)
    have g: "fits m2 (block_of q)" if "q \<in> insert (b + 16) U" for q by (rule heap_inv_fits[OF r(3) that])
    have "payload m2 (b + 16) \<inter> payload m2 q = {}" if "q \<in> U" for q
    proof -
      have "extent m2 (block_of (b + 16)) \<inter> extent m2 (block_of q) = {}"
        by (rule heap_inv_apart[OF r(3)]) (use r(2) that in auto)
      then show ?thesis using payload_block(1)[OF g, of "b + 16"] payload_block(1)[OF g, of q] that by blast
    qed
    moreover have "payload m2 q = payload m1 q" if "q \<in> U" for q using r(5) that by (simp add: payload_def)
    ultimately show ?thesis using r(1,2,4) b by auto
  qed
  show ?thesis using 1 2 3 4 by blast
qed

text \<open>
  C15. Releasing everything restores the heap: when no pointer is in use any more, the free list
  has the blocks of the initialised heap, all fragments are merged again and every byte is free.
\<close>

theorem heap_restored:
  assumes "heaps_ok (first_block m) (mem_heap_array m)" "mem_heap_array m \<noteq> []"
    "eh_mem_init m = Some (r, m0)" "heap_run m0 m1 {}"
  shows "eh_free_block_dump m1 = eh_free_block_dump m0 \<and> eh_free_block_dump m0 \<noteq> None
    \<and> mem_free_size m1 = mem_total_size m1 \<and> mem_use_block_cnt m1 = 0"
proof -
  obtain ws0 ws where i: "heap_inv m0 m0 {} (\<Union>h\<in>set (mem_heap_array m). region h) ws0"
      "heap_inv m0 m1 {} (\<Union>h\<in>set (mem_heap_array m). region h) ws" "mem_total_size m0 = mem_free_size m0"
    using heap_reached[OF assms] by blast
  have ok: "mem_ok m0 ws0" "mem_ok m1 ws" using i by (simp_all add: heap_inv_def)
  have u: "(\<Union>w\<in>set ws0. extent m0 w) = (\<Union>w\<in>set ws. extent m1 w)" using i by (simp add: heap_inv_def)
  have v: "ivs m0 ws0 = ivs m1 ws"
    by (rule spaced_unique) (use ok u in \<open>simp_all add: ivs_spaced ivs_spans mem_ok_def\<close>)
  note e = ivs_inj[OF v]
  have "mem_free_size m1 = mem_free_size m0"
    using ok e by (simp add: mem_ok_def mem_weak_def cong: map_cong)
  moreover have "mem_total_size m1 = mem_free_size m0" "mem_use_block_cnt m1 = 0"
    using i by (simp_all add: heap_inv_def)
  moreover have "eh_free_block_dump m1 = eh_free_block_dump m0"
    unfolding eh_free_block_dump_result[OF ok(1)] eh_free_block_dump_result[OF ok(2)] using e by simp
  ultimately show ?thesis using eh_free_block_dump_result[OF ok(1)] by simp
qed

text \<open>
  The accounting is exact: the free bytes, the bytes in use and 16 bytes for the header of every
  block add up to the bytes of the registered heaps; the low-water mark is never above the free bytes.
\<close>

theorem heap_accounting:
  assumes "heaps_ok (first_block m) (mem_heap_array m)" "mem_heap_array m \<noteq> []"
    "eh_mem_init m = Some (r, m0)" "heap_run m0 m1 U"
  shows "\<exists>fl. eh_free_block_dump m1 = Some fl
    \<and> unat (mem_free_size m1) + (\<Sum>p\<in>U. unat (m_size m1 (block_of p))) + 16 * (length fl + card U)
        = card (\<Union>h\<in>set (mem_heap_array m). region h)
    \<and> min_ever_free_size_level (eh_mem_get_heap_info m1) \<le> free_size (eh_mem_get_heap_info m1)
    \<and> mem_use_block_cnt m1 = of_nat (card U)"
proof -
  let ?R = "\<Union>h\<in>set (mem_heap_array m). region h"
  obtain ws where i: "heap_inv m0 m1 U ?R ws" using heap_reached[OF assms] by blast
  note d = i[unfolded heap_inv_def]
  have fin: "finite U" and ok: "mem_ok m1 ws" using d by simp_all
  have "(\<Union>p\<in>U. extent m1 (block_of p)) \<inter> (\<Union>w\<in>set ws. extent m1 w) = {}" using d by blast
  then have "card ?R = card (\<Union>p\<in>U. extent m1 (block_of p)) + card (\<Union>w\<in>set ws. extent m1 w)"
    using d fin finite_extent(1) card_Un_disjoint[of "\<Union>p\<in>U. extent m1 (block_of p)" "\<Union>w\<in>set ws. extent m1 w"] by auto
  moreover have "card (\<Union>p\<in>U. extent m1 (block_of p)) = (\<Sum>p\<in>U. unat (m_size m1 (block_of p)) + 16)"
    using card_UN_disjoint[of U "\<lambda>p. extent m1 (block_of p)"] d fin finite_extent by simp
  moreover have "(\<Sum>p\<in>U. unat (m_size m1 (block_of p)) + 16) = (\<Sum>p\<in>U. unat (m_size m1 (block_of p))) + 16 * card U"
    by (simp add: sum.distrib)
  ultimately show ?thesis
    using free_bytes[OF ok] eh_free_block_dump_result[OF ok] d
    by (intro exI[of _ "map (\<lambda>w. (w, m_size m1 w + 16)) ws"]) (simp add: eh_mem_get_heap_info_def)
qed

subsection \<open>An example\<close>

text \<open>Two heaps, the second one not aligned; 100 and 50 bytes are allocated and released.\<close>

definition mem_demo :: mem where
  "mem_demo = \<lparr>m_next = (\<lambda>_. 0), m_size = (\<lambda>_. 0), first_block = 64, mem_total_size = 0, mem_free_size = 0,
     mem_use_block_cnt = 0, mem_min_ever_free_size_level = 0,
     mem_heap_array = [\<lparr>heap_start = 4096, heap_size = 256\<rparr>, \<lparr>heap_start = 8200, heap_size = 100\<rparr>]\<rparr>"

definition mem_demo0 :: mem where "mem_demo0 = snd (the (eh_mem_init mem_demo))"
definition mem_demo1 :: mem where "mem_demo1 = snd (the (eh_malloc 100 mem_demo0))"
definition mem_demo2 :: mem where "mem_demo2 = snd (the (eh_malloc 50 mem_demo1))"
definition mem_demo3 :: mem where "mem_demo3 = the (eh_free 4112 mem_demo2)"
definition mem_demo4 :: mem where "mem_demo4 = the (eh_free 4240 mem_demo3)"

lemma mem_demo_calls:
  "eh_mem_init mem_demo \<noteq> None" "map_option fst (eh_mem_init mem_demo) = Some 0"
  "map_option fst (eh_malloc 100 mem_demo0) = Some 4112" "map_option fst (eh_malloc 50 mem_demo1) = Some 4240"
  "eh_free 4112 mem_demo2 \<noteq> None" "eh_free 4240 mem_demo3 \<noteq> None" "m_size mem_demo2 4224 = 64"
  by code_simp+

lemma mem_demo_results:
  "eh_mem_init mem_demo = Some (0, mem_demo0)"
  "eh_malloc 100 mem_demo0 = Some (4112, mem_demo1)" "eh_malloc 50 mem_demo1 = Some (4240, mem_demo2)"
  "eh_free 4112 mem_demo2 = Some mem_demo3" "eh_free 4240 mem_demo3 = Some mem_demo4"
  using mem_demo_calls
  by (auto simp: mem_demo0_def mem_demo1_def mem_demo2_def mem_demo3_def mem_demo4_def)

lemma mem_demo_heaps: "heaps_ok (first_block mem_demo) (mem_heap_array mem_demo)" "mem_heap_array mem_demo \<noteq> []"
  by (simp_all add: heaps_ok_def mem_demo_def region_def heap_block_def heap_end_def EH_MEM_ALIGN_UP_def
      EH_MEM_ALIGN_DOWN_def EH_MEM_ALIGN_MASK_def EH_MEM_ALIGN_SIZE_def) 

lemma mem_demo_run: "heap_run mem_demo0 mem_demo2 {4112, 4240}" "heap_run mem_demo0 mem_demo4 {}"
proof -
  have "heap_run mem_demo0 mem_demo1 {4112}"
    using heap_run.malloc[OF heap_run.start mem_demo_results(2)] by simp
  then show r: "heap_run mem_demo0 mem_demo2 {4112, 4240}"
    using heap_run.malloc[OF _ mem_demo_results(3)] by (fastforce simp: insert_commute)
  have "heap_run mem_demo0 mem_demo3 {4240}"
    using heap_run.free[OF r _ mem_demo_results(4)] by (simp add: insert_Diff_if)
  then show "heap_run mem_demo0 mem_demo4 {}"
    using heap_run.free[OF _ _ mem_demo_results(5), of mem_demo0 "{4240}"] by simp
qed

definition mem_one :: mem where
  "mem_one = \<lparr>m_next = (\<lambda>_. 0)(64 := 4096), m_size = (\<lambda>_. 0)(4096 := 240), first_block = 64,
     mem_total_size = 240, mem_free_size = 240, mem_use_block_cnt = 0, mem_min_ever_free_size_level = 240,
     mem_heap_array = []\<rparr>"

lemma mem_one_ok: "mem_ok mem_one [4096]"
  by (simp add: mem_ok_def mem_weak_def gapped_def fits_def extent_def bend_def mem_one_def)

lemma malloc_spec_witness: "\<exists>m'. eh_malloc 50 mem_one = Some (4112, m') \<and> 50 \<le> unat (m_size m' 4096)"
proof -
  have a: "EH_MEM_ALIGN_UP 50 = 64"
    by (simp add: EH_MEM_ALIGN_UP_def EH_MEM_ALIGN_MASK_def EH_MEM_ALIGN_SIZE_def)
  have s: "m_size mem_one 4096 = 240" by (simp add: mem_one_def)
  show ?thesis using malloc_spec[OF mem_one_ok, of 50] unfolding a by (auto simp: s Cons_eq_append_conv)
qed

lemma heap_safety_witness: "payload mem_demo2 4112 \<inter> payload mem_demo2 4240 = {} \<and> eh_free 4240 mem_demo2 \<noteq> None"
  using heap_safety[OF mem_demo_heaps mem_demo_results(1) mem_demo_run(1), of 0] by fastforce

lemma heap_restored_witness: "eh_free_block_dump mem_demo4 = eh_free_block_dump mem_demo0"
  using heap_restored[OF mem_demo_heaps mem_demo_results(1) mem_demo_run(2)] by blast

lemma heap_accounting_witness: "mem_use_block_cnt mem_demo2 = 2"
  using heap_accounting[OF mem_demo_heaps mem_demo_results(1) mem_demo_run(1)] by auto

end
