(* ===== verification/Eh_Mem_Pool.thy ===== *)
theory Eh_Mem_Pool
  imports Eh_Prelude
begin

text \<open>
  The memory pool of \<^verbatim>\<open>src/src/eh_mem_pool.c\<close>: a fixed number of equal blocks. A node
  of the free list belongs to every block; a pointer to the node \<open>free_list + i\<close> is \<open>Some i\<close>
  here and \<open>NULL\<close> is \<open>None\<close>. A node that points to itself marks a block in use. Addresses
  and sizes are 64-bit words.
\<close>

subsection \<open>The state and its operations\<close>

record mem_pool =
  base :: u64
  align_size :: u64
  num :: u64
  free_list_head :: "nat option"
  free_list :: "nat \<Rightarrow> nat option"

definition eh_align_up :: "u64 \<Rightarrow> u64 \<Rightarrow> u64" where
  "eh_align_up x align = (x + (align - 1)) AND NOT (align - 1)"

definition pool_allocation_size :: "u64 \<Rightarrow> u64 \<Rightarrow> u64 \<Rightarrow> u64" where
  "pool_allocation_size align sz n = 32 + n * 8 + (eh_align_up sz align * n + (align - 1))"

primrec pool_link :: "nat \<Rightarrow> (nat \<Rightarrow> nat option) \<Rightarrow> nat \<Rightarrow> nat option" where
  "pool_link 0 l = l"
| "pool_link (Suc i) l = (pool_link i l)(i := Some (i + 1))"

text \<open>\<open>alloc\<close> is what \<open>eh_malloc\<close> returns, 0 for \<open>NULL\<close>; \<open>junk\<close> is what the memory holds.\<close>

definition eh_mem_pool_create ::
    "(u64 \<Rightarrow> u64) \<Rightarrow> (nat \<Rightarrow> nat option) \<Rightarrow> u64 \<Rightarrow> u64 \<Rightarrow> u64 \<Rightarrow> int + mem_pool" where
  "eh_mem_pool_create alloc junk align sz n =
     (let pool = alloc (pool_allocation_size align sz n)
      in if pool = 0 then Inl EH_RET_MALLOC_ERROR
         else Inr \<lparr>base = eh_align_up (pool + 32 + n * 8) align, align_size = eh_align_up sz align,
                   num = n, free_list_head = Some 0,
                   free_list = (pool_link (unat (n - 1)) junk)(unat (n - 1) := None)\<rparr>)"

definition eh_mem_pool_idx_is_used :: "mem_pool \<Rightarrow> nat \<Rightarrow> bool" where
  "eh_mem_pool_idx_is_used pool idx \<longleftrightarrow> free_list pool idx = Some idx"

definition eh_mem_pool_idx_to_ptr :: "mem_pool \<Rightarrow> nat \<Rightarrow> u64" where
  "eh_mem_pool_idx_to_ptr pool idx = base pool + word_of_nat idx * align_size pool"

definition eh_mem_pool_alloc :: "mem_pool \<Rightarrow> u64 \<times> mem_pool" where
  "eh_mem_pool_alloc pool =
     (case free_list_head pool of
        None \<Rightarrow> (0, pool)
      | Some index \<Rightarrow>
          if index \<ge> unat (num pool) then (0, pool)
          else (base pool + word_of_nat index * align_size pool,
                let pool = pool\<lparr>free_list_head := free_list pool index\<rparr>
                in pool\<lparr>free_list := (free_list pool)(index := Some index)\<rparr>))"

definition eh_mem_pool_free :: "mem_pool \<Rightarrow> u64 \<Rightarrow> mem_pool" where
  "eh_mem_pool_free pool ptr =
     (let index = (ptr - base pool) div align_size pool
      in if index \<ge> num pool then pool
         else if \<not> eh_mem_pool_idx_is_used pool (unat index) then pool
         else let pool = pool\<lparr>free_list := (free_list pool)(unat index := free_list_head pool)\<rparr>
              in pool\<lparr>free_list_head := Some (unat index)\<rparr>)"

definition eh_mem_pool_ptr_to_idx :: "mem_pool \<Rightarrow> u64 \<Rightarrow> int" where
  "eh_mem_pool_ptr_to_idx pool ptr =
     (if ptr < base pool \<or> ptr \<ge> base pool + num pool * align_size pool then -1
      else let offset = ptr - base pool
           in if offset mod align_size pool \<noteq> 0 then -1
              else sint (ucast (offset div align_size pool) :: 32 word))"

text \<open>The blocks that \<open>eh_mem_pool_destroy\<close> reports as not freed, and the list of \<open>eh_mem_pool_dump\<close>.\<close>

definition eh_mem_pool_destroy :: "mem_pool \<Rightarrow> nat list" where
  "eh_mem_pool_destroy pool = filter (eh_mem_pool_idx_is_used pool) [0..<unat (num pool)]"

partial_function (option) pool_walk :: "nat option \<Rightarrow> mem_pool \<Rightarrow> nat list option" where
  "pool_walk node pool =
     (case node of None \<Rightarrow> Some []
      | Some i \<Rightarrow> Option.bind (pool_walk (free_list pool i) pool) (\<lambda>r. Some (i # r)))"

definition eh_mem_pool_dump :: "mem_pool \<Rightarrow> nat list option" where
  "eh_mem_pool_dump pool = pool_walk (free_list_head pool) pool"

subsection \<open>The invariant\<close>

primrec opath :: "(nat \<Rightarrow> nat option) \<Rightarrow> nat option \<Rightarrow> nat list \<Rightarrow> bool" where
  "opath nx p [] \<longleftrightarrow> p = None"
| "opath nx p (i # fs) \<longleftrightarrow> p = Some i \<and> opath nx (nx i) fs"

lemma opath_update [simp]: "i \<notin> set fs \<Longrightarrow> opath (nx(i := v)) p fs = opath nx p fs"
  by (induction fs arbitrary: p) auto

text \<open>
  The free list visits \<open>fs\<close>; the blocks not on it are in use. The blocks do not wrap around
  the address space.
\<close>

definition pool_ok :: "mem_pool \<Rightarrow> nat list \<Rightarrow> bool" where
  "pool_ok pool fs \<longleftrightarrow> opath (free_list pool) (free_list_head pool) fs \<and> distinct fs
     \<and> (\<forall>i\<in>set fs. i < unat (num pool) \<and> free_list pool i \<noteq> Some i)
     \<and> (\<forall>i<unat (num pool). i \<notin> set fs \<longrightarrow> free_list pool i = Some i)
     \<and> 0 < unat (align_size pool) \<and> 0 < unat (base pool)
     \<and> unat (base pool) + unat (num pool) * unat (align_size pool) < 2 ^ 64"

definition in_use :: "mem_pool \<Rightarrow> nat set" where
  "in_use pool = {i. i < unat (num pool) \<and> eh_mem_pool_idx_is_used pool i}"

lemma pool_ok_in_use:
  "pool_ok pool fs \<Longrightarrow> in_use pool = {..<unat (num pool)} - set fs"
  by (auto simp: pool_ok_def in_use_def eh_mem_pool_idx_is_used_def)

lemma pool_in_use_card: "pool_ok pool fs \<Longrightarrow> card (in_use pool) + length fs = unat (num pool)"
proof -
  assume ok: "pool_ok pool fs"
  have "set fs \<subseteq> {..<unat (num pool)}" using ok by (auto simp: pool_ok_def)
  moreover have "card (set fs) = length fs" using ok by (simp add: pool_ok_def distinct_card)
  ultimately show ?thesis
    unfolding pool_ok_in_use[OF ok] using card_mono[of "{..<unat (num pool)}" "set fs"]
    by (simp add: card_Diff_subset)
qed

lemma idx_to_ptr:
  assumes "pool_ok pool fs" "i < unat (num pool)"
  shows "unat (eh_mem_pool_idx_to_ptr pool i) = unat (base pool) + i * unat (align_size pool)"
    "eh_mem_pool_idx_to_ptr pool i \<noteq> 0"
    "(eh_mem_pool_idx_to_ptr pool i - base pool) div align_size pool = word_of_nat i"
    "unat (word_of_nat i :: u64) = i"
proof -
  have b: "unat (base pool) + unat (num pool) * unat (align_size pool) < 2 ^ 64" "0 < unat (align_size pool)"
    "0 < unat (base pool)" using assms(1) by (simp_all add: pool_ok_def)
  have "unat (num pool) < 2 ^ 64" by (rule order_less_le_trans[OF unsigned_less]) simp
  then show u: "unat (word_of_nat i :: u64) = i" using assms(2) by (simp add: unat_of_nat)
  have le: "i * unat (align_size pool) \<le> unat (num pool) * unat (align_size pool)" using assms(2) by simp
  have lt: "i * unat (align_size pool) < 2 ^ 64" using le b(1) by linarith
  have m: "unat (word_of_nat i * align_size pool) = i * unat (align_size pool)"
    using u lt by (simp add: unat_word_ariths)
  have "unat (base pool) + unat (word_of_nat i * align_size pool) < 2 ^ 64" unfolding m using le b(1) by linarith
  from unat_add_no_wrap[OF this] show p: "unat (eh_mem_pool_idx_to_ptr pool i) = unat (base pool) + i * unat (align_size pool)"
    unfolding eh_mem_pool_idx_to_ptr_def m .
  then show "eh_mem_pool_idx_to_ptr pool i \<noteq> 0" using b(3) by auto
  have "unat ((eh_mem_pool_idx_to_ptr pool i - base pool) div align_size pool) = unat (word_of_nat i :: u64)"
    unfolding eh_mem_pool_idx_to_ptr_def u using b(2) by (simp add: unat_div m)
  then show "(eh_mem_pool_idx_to_ptr pool i - base pool) div align_size pool = word_of_nat i"
    by (simp only: unsigned_word_eqI)
qed

subsection \<open>The operations on the invariant\<close>

lemma pool_link_eq: "pool_link n l = (\<lambda>i. if i < n then Some (i + 1) else l i)"
  by (induction n) (auto simp: fun_eq_iff)

lemma opath_upto:
  assumes "\<And>j. i \<le> j \<Longrightarrow> j < n \<Longrightarrow> nx j = Some (Suc j)" "nx n = None" "i \<le> n"
  shows "opath nx (Some i) [i..<Suc n]"
  using assms
proof (induction "n - i" arbitrary: i)
  case 0
  then show ?case by simp
next
  case (Suc k)
  have "opath nx (Some (Suc i)) [Suc i..<Suc n]" using Suc.hyps Suc.prems by (intro Suc.hyps(1)) auto
  then show ?case using Suc.hyps(2) Suc.prems(1)[of i] by (simp add: upt_conv_Cons[of i] del: upt_Suc)
qed

lemma alloc_effect:
  assumes "pool_ok pool fs"
  shows "case fs of
      [] \<Rightarrow> eh_mem_pool_alloc pool = (0, pool)
    | i # is \<Rightarrow> \<exists>pool'. eh_mem_pool_alloc pool = (eh_mem_pool_idx_to_ptr pool i, pool') \<and> pool_ok pool' is
        \<and> base pool' = base pool \<and> num pool' = num pool \<and> align_size pool' = align_size pool
        \<and> in_use pool' = insert i (in_use pool) \<and> i \<notin> in_use pool"
proof (cases fs)
  case Nil
  then show ?thesis using assms by (simp add: pool_ok_def eh_mem_pool_alloc_def)
next
  case (Cons i js)
  note ok = assms[unfolded pool_ok_def Cons]
  let ?p = "pool\<lparr>free_list_head := free_list pool i, free_list := (free_list pool)(i := Some i)\<rparr>"
  have e: "eh_mem_pool_alloc pool = (eh_mem_pool_idx_to_ptr pool i, ?p)"
    using ok by (simp add: eh_mem_pool_alloc_def eh_mem_pool_idx_to_ptr_def)
  have o: "pool_ok ?p js" unfolding pool_ok_def using ok by auto
  have "in_use ?p = insert i (in_use pool)" "i \<notin> in_use pool"
    unfolding pool_ok_in_use[OF o] pool_ok_in_use[OF assms] Cons using ok by auto
  then show ?thesis using e o Cons by simp
qed

text \<open>Only a pointer into a block that is in use is released.\<close>

lemma free_effect:
  assumes "pool_ok pool fs" "i \<in> in_use pool" "(ptr - base pool) div align_size pool = word_of_nat i"
  shows "pool_ok (eh_mem_pool_free pool ptr) (i # fs)"
    "in_use (eh_mem_pool_free pool ptr) = in_use pool - {i}"
    "base (eh_mem_pool_free pool ptr) = base pool" "num (eh_mem_pool_free pool ptr) = num pool"
    "align_size (eh_mem_pool_free pool ptr) = align_size pool"
proof -
  note ok = assms(1)[unfolded pool_ok_def]
  have i: "i < unat (num pool)" "i \<notin> set fs" "free_list pool i = Some i"
    using assms(2) pool_ok_in_use[OF assms(1)] by (auto simp: in_use_def eh_mem_pool_idx_is_used_def)
  let ?p = "pool\<lparr>free_list := (free_list pool)(i := free_list_head pool), free_list_head := Some i\<rparr>"
  note u = idx_to_ptr(4)[OF assms(1) i(1)]
  have "\<not> word_of_nat i \<ge> num pool" using i(1) u by (simp add: word_le_nat_alt)
  then have e: "eh_mem_pool_free pool ptr = ?p"
    using i(3) unfolding eh_mem_pool_free_def assms(3) Let_def u by (simp add: eh_mem_pool_idx_is_used_def)
  have "free_list_head pool \<noteq> Some i" using ok i(2) by (cases fs) auto
  then have o: "pool_ok ?p (i # fs)" unfolding pool_ok_def using ok i by auto
  show "pool_ok (eh_mem_pool_free pool ptr) (i # fs)" unfolding e by (rule o)
  show "in_use (eh_mem_pool_free pool ptr) = in_use pool - {i}"
    unfolding e pool_ok_in_use[OF o] pool_ok_in_use[OF assms(1)] by auto
  show "base (eh_mem_pool_free pool ptr) = base pool" "num (eh_mem_pool_free pool ptr) = num pool"
    "align_size (eh_mem_pool_free pool ptr) = align_size pool" unfolding e by simp_all
qed

lemma free_ignored:
  assumes "unat ((ptr - base pool) div align_size pool) \<notin> in_use pool"
  shows "eh_mem_pool_free pool ptr = pool"
  using assms by (auto simp: eh_mem_pool_free_def in_use_def Let_def word_le_nat_alt not_le)

subsection \<open>The life of a pool\<close>

text \<open>\<open>pool_run p0 p U\<close>: allocations and releases of any pointers lead from \<open>p0\<close> to \<open>p\<close>, and
  \<open>U\<close> are the pointers in use.\<close>

inductive pool_run :: "mem_pool \<Rightarrow> mem_pool \<Rightarrow> u64 set \<Rightarrow> bool" for p0 where
  start: "pool_run p0 p0 {}"
| alloc: "pool_run p0 p U \<Longrightarrow> eh_mem_pool_alloc p = (ptr, p') \<Longrightarrow> pool_run p0 p' (if ptr = 0 then U else insert ptr U)"
| free: "pool_run p0 p U \<Longrightarrow> ptr \<in> U \<or> unat ((ptr - base p) div align_size p) \<notin> in_use p \<Longrightarrow>
    pool_run p0 (eh_mem_pool_free p ptr) (U - {ptr})"

definition pool_inv :: "mem_pool \<Rightarrow> mem_pool \<Rightarrow> u64 set \<Rightarrow> bool" where
  "pool_inv p0 p U \<longleftrightarrow> (\<exists>fs. pool_ok p fs) \<and> base p = base p0 \<and> num p = num p0 \<and> align_size p = align_size p0
     \<and> U = eh_mem_pool_idx_to_ptr p0 ` in_use p"

lemma idx_to_ptr_same:
  "base p = base p0 \<Longrightarrow> align_size p = align_size p0 \<Longrightarrow> eh_mem_pool_idx_to_ptr p = eh_mem_pool_idx_to_ptr p0"
  by (simp add: eh_mem_pool_idx_to_ptr_def fun_eq_iff)

lemma idx_to_ptr_inj:
  assumes "pool_ok pool fs"
  shows "inj_on (eh_mem_pool_idx_to_ptr pool) {..<unat (num pool)}"
proof (rule inj_onI)
  fix i j assume "i \<in> {..<unat (num pool)}" "j \<in> {..<unat (num pool)}" "eh_mem_pool_idx_to_ptr pool i = eh_mem_pool_idx_to_ptr pool j"
  then have "unat (word_of_nat i :: u64) = unat (word_of_nat j :: u64)"
    using idx_to_ptr(3)[OF assms, of i] idx_to_ptr(3)[OF assms, of j] by simp
  then show "i = j" using idx_to_ptr(4)[OF assms] \<open>i \<in> _\<close> \<open>j \<in> _\<close> by simp
qed

lemma pool_run_inv:
  assumes "pool_run p0 p U" "pool_inv p0 p0 {}"
  shows "pool_inv p0 p U"
  using assms
proof (induction rule: pool_run.induct)
  case (alloc p U ptr p')
  then obtain fs where ok: "pool_ok p fs" and s: "base p = base p0" "num p = num p0" "align_size p = align_size p0"
    and U: "U = eh_mem_pool_idx_to_ptr p0 ` in_use p" by (auto simp: pool_inv_def)
  show ?case
  proof (cases fs)
    case Nil
    then show ?thesis using alloc_effect[OF ok] alloc by simp
  next
    case (Cons i js)
    obtain p1 where a: "eh_mem_pool_alloc p = (eh_mem_pool_idx_to_ptr p i, p1)" "pool_ok p1 js"
      "base p1 = base p" "num p1 = num p" "align_size p1 = align_size p" "in_use p1 = insert i (in_use p)"
      using alloc_effect[OF ok] Cons by auto
    have "i < unat (num p)" using ok Cons by (simp add: pool_ok_def)
    then have "ptr \<noteq> 0" using idx_to_ptr(2)[OF ok] a(1) alloc.hyps(2) by simp
    moreover have "ptr = eh_mem_pool_idx_to_ptr p0 i" "p' = p1"
      using a(1) alloc.hyps(2) idx_to_ptr_same[OF s(1,3)] by simp_all
    ultimately show ?thesis using a s U by (auto simp: pool_inv_def)
  qed
next
  case (free p U ptr)
  then obtain fs where ok: "pool_ok p fs" and s: "base p = base p0" "num p = num p0" "align_size p = align_size p0"
    and U: "U = eh_mem_pool_idx_to_ptr p0 ` in_use p" by (auto simp: pool_inv_def)
  note same = idx_to_ptr_same[OF s(1,3)]
  have lt: "in_use p \<subseteq> {..<unat (num p)}" by (auto simp: in_use_def)
  show ?case
  proof (cases "ptr \<in> U")
    case True
    then obtain i where i: "i \<in> in_use p" "ptr = eh_mem_pool_idx_to_ptr p i" using U same by auto
    have d: "(ptr - base p) div align_size p = word_of_nat i"
      using idx_to_ptr(3)[OF ok, of i] i lt by auto
    note f = free_effect[OF ok i(1) d]
    have "U - {ptr} = eh_mem_pool_idx_to_ptr p ` (in_use p - {i})"
      unfolding U i(2) same[symmetric]
      using inj_on_image_set_diff[OF idx_to_ptr_inj[OF ok], of "in_use p" "{i}"] i(1) lt by auto
    then show ?thesis using f s same by (auto simp: pool_inv_def)
  next
    case False
    then have "unat ((ptr - base p) div align_size p) \<notin> in_use p" using free.hyps(2) by blast
    then show ?thesis using free_ignored[of ptr p] free.IH free.prems False by (simp add: Diff_triv)
  qed
qed (simp add: pool_inv_def)

subsection \<open>Creation\<close>

lemma align_up_nat:
  assumes "k < 64" "unat x + 2 ^ k \<le> 2 ^ 64"
  shows "unat (eh_align_up x (2 ^ k)) = (unat x + 2 ^ k - 1) div 2 ^ k * 2 ^ k"
proof -
  have m: "(2 ^ k - 1 :: u64) = mask k" by (simp add: mask_eq_exp_minus_1)
  have u: "unat (2 ^ k - 1 :: u64) = 2 ^ k - 1"
    using unat_diff_no_wrap[of 1 "2 ^ k"] unat_pow2[OF assms(1)] by simp
  have "unat x + unat (2 ^ k - 1 :: u64) < 2 ^ 64" unfolding u using assms(2) by (simp add: less_diff_conv2 algebra_simps)
  then have "unat (x + (2 ^ k - 1)) = unat x + 2 ^ k - 1" using unat_add_no_wrap[of x "2 ^ k - 1"] u by simp
  then show ?thesis unfolding eh_align_up_def m using and_not_mask[OF assms(1)] m by simp
qed

text \<open>The memory of a pool fits into the address space: what the allocation must provide.\<close>

definition pool_fits :: "nat \<Rightarrow> u64 \<Rightarrow> u64 \<Rightarrow> u64 \<Rightarrow> bool" where
  "pool_fits k sz n pool \<longleftrightarrow> k < 64 \<and> 0 < unat sz \<and> unat sz + 2 ^ k \<le> 2 ^ 64 \<and> 0 < unat n
     \<and> unat pool + 32 + unat n * 8 + unat (eh_align_up sz (2 ^ k)) * unat n + 2 ^ k \<le> 2 ^ 64"

definition pool_created :: "nat \<Rightarrow> u64 \<Rightarrow> u64 \<Rightarrow> u64 \<Rightarrow> mem_pool \<Rightarrow> bool" where
  "pool_created k sz n pool p \<longleftrightarrow> pool_ok p [0..<unat n] \<and> num p = n
    \<and> 2 ^ k dvd unat (base p) \<and> 2 ^ k dvd unat (align_size p) \<and> unat sz \<le> unat (align_size p)
    \<and> unat pool + 32 + unat n * 8 \<le> unat (base p)
    \<and> unat (base p) + unat n * unat (align_size p) \<le> unat pool + 32 + unat n * 8 + unat (align_size p) * unat n + (2 ^ k - 1)"

lemma create_effect:
  assumes "pool_fits k sz n pool" "alloc (pool_allocation_size (2 ^ k) sz n) = pool" "pool \<noteq> 0"
  shows "\<exists>p. eh_mem_pool_create alloc junk (2 ^ k) sz n = Inr p \<and> pool_created k sz n pool p"
proof -
  have f: "k < 64" "0 < unat sz" "unat sz + 2 ^ k \<le> 2 ^ 64" "0 < unat n"
    "unat pool + 32 + unat n * 8 + unat (eh_align_up sz (2 ^ k)) * unat n + 2 ^ k \<le> 2 ^ 64"
    using assms(1) by (simp_all add: pool_fits_def)
  have kp: "0 < (2::nat) ^ k" by simp
  let ?p = "\<lparr>base = eh_align_up (pool + 32 + n * 8) (2 ^ k), align_size = eh_align_up sz (2 ^ k), num = n,
    free_list_head = Some 0, free_list = (pool_link (unat (n - 1)) junk)(unat (n - 1) := None)\<rparr>"
  have e: "eh_mem_pool_create alloc junk (2 ^ k) sz n = Inr ?p"
    using assms(2,3) by (simp add: eh_mem_pool_create_def Let_def)
  have up: "x \<le> (x + 2 ^ k - 1) div 2 ^ k * 2 ^ k \<and> (x + 2 ^ k - 1) div 2 ^ k * 2 ^ k \<le> x + 2 ^ k - 1" for x :: nat
  proof -
    have "(x + 2 ^ k - 1) mod 2 ^ k < 2 ^ k" by simp
    moreover have "(x + 2 ^ k - 1) div 2 ^ k * 2 ^ k + (x + 2 ^ k - 1) mod 2 ^ k = x + 2 ^ k - 1" by (rule div_mult_mod_eq)
    moreover have "0 < (2::nat) ^ k" by simp
    ultimately show ?thesis by linarith
  qed
  have asz: "unat (align_size ?p) = (unat sz + 2 ^ k - 1) div 2 ^ k * 2 ^ k" using align_up_nat[of k sz] f by simp
  have n8: "unat (n * 8) = unat n * 8"
  proof -
    have "unat n * 8 < 2 ^ 64" using f(5) kp by linarith
    then show ?thesis by (simp add: unat_word_ariths)
  qed
  have t: "unat (32 :: u64) = 32" by simp
  have "unat pool + unat (32 :: u64) < 2 ^ 64" unfolding t using f(5) kp by linarith
  from unat_add_no_wrap[OF this] have p32: "unat (pool + 32) = unat pool + 32" by simp
  have "unat (pool + 32) + unat (n * 8) < 2 ^ 64" unfolding p32 n8 using f(5) kp by linarith
  from unat_add_no_wrap[OF this] have x: "unat (pool + 32 + n * 8) = unat pool + 32 + unat n * 8" unfolding p32 n8 .
  have "unat (pool + 32 + n * 8) + 2 ^ k \<le> 2 ^ 64" unfolding x using f by linarith
  from align_up_nat[OF _ this] have b: "unat (base ?p) = (unat pool + 32 + unat n * 8 + 2 ^ k - 1) div 2 ^ k * 2 ^ k"
    unfolding x using f by simp
  have bl: "unat pool + 32 + unat n * 8 \<le> unat (base ?p)" "unat (base ?p) \<le> unat pool + 32 + unat n * 8 + 2 ^ k - 1"
    unfolding b by (rule conjunct1[OF up], rule conjunct2[OF up])
  have al: "unat sz \<le> unat (align_size ?p)" unfolding asz using up by simp
  have nn: "unat (n - 1) = unat n - 1" using unat_diff_no_wrap[of 1 n] f by simp
  have c: "unat n = Suc (unat n - 1)" using f by simp
  have "opath (free_list ?p) (Some 0) [0..<Suc (unat n - 1)]"
    by (rule opath_upto) (simp_all add: pool_link_eq nn)
  then have path: "opath (free_list ?p) (free_list_head ?p) [0..<unat n]" using c by simp
  have "pool_ok ?p [0..<unat n]"
    unfolding pool_ok_def
  proof (intro conjI)
    show "opath (free_list ?p) (free_list_head ?p) [0..<unat n]" by (rule path)
    show "\<forall>i\<in>set [0..<unat n]. i < unat (num ?p) \<and> free_list ?p i \<noteq> Some i"
      by (auto simp: pool_link_eq nn)
    show "0 < unat (align_size ?p)" using al f by linarith
    show "0 < unat (base ?p)" using bl by linarith
    show "unat (base ?p) + unat (num ?p) * unat (align_size ?p) < 2 ^ 64"
    proof -
      have "unat (base ?p) + unat (eh_align_up sz (2 ^ k)) * unat n < 2 ^ 64" using bl(2) f(5) kp by linarith
      then show ?thesis by (simp add: mult.commute)
    qed
  qed simp_all
  moreover have "2 ^ k dvd unat (base ?p)" "2 ^ k dvd unat (align_size ?p)" unfolding b asz by simp_all
  moreover have "unat (base ?p) + unat n * unat (align_size ?p) \<le> unat pool + 32 + unat n * 8 + unat (align_size ?p) * unat n + (2 ^ k - 1)"
  proof -
    have "0 < (2::nat) ^ k" by simp
    moreover have "unat n * unat (align_size ?p) = unat (align_size ?p) * unat n" by simp
    ultimately show ?thesis using bl(2) by linarith
  qed
  ultimately have "pool_created k sz n pool ?p" unfolding pool_created_def using al bl(1) by simp
  then show ?thesis using e by blast
qed

subsection \<open>The properties\<close>

lemma pool_slots_apart:
  assumes "pool_ok p fs" "i < unat (num p)" "j < unat (num p)" "i \<noteq> j"
  shows "{unat (eh_mem_pool_idx_to_ptr p i) ..< unat (eh_mem_pool_idx_to_ptr p i) + unat (align_size p)}
    \<inter> {unat (eh_mem_pool_idx_to_ptr p j) ..< unat (eh_mem_pool_idx_to_ptr p j) + unat (align_size p)} = {}"
proof -
  have "{a + x * s ..< a + x * s + s} \<inter> {a + y * s ..< a + y * s + s} = {}" if "x < y" for a s x y :: nat
  proof -
    have "(x + 1) * s \<le> y * s" using that by (intro mult_le_mono1) simp
    then show ?thesis by (auto simp: algebra_simps)
  qed
  then show ?thesis
    unfolding idx_to_ptr(1)[OF assms(1,2)] idx_to_ptr(1)[OF assms(1,3)] using assms(4) by (metis nat_neq_iff Int_commute)
qed

text \<open>
  C17. A pool of \<open>n\<close> blocks hands out \<open>n\<close> blocks. After any sequence of allocations and
  releases on a created pool, where released pointers may be wrong as long as they do not point into
  a block that is in use, the pointers in use are aligned, hold the requested size, lie inside the
  allocation and share no byte; an allocation fails exactly when all \<open>n\<close> blocks are in use and
  otherwise returns a new one; releasing a block twice changes nothing.
\<close>

theorem pool_history:
  assumes "pool_fits k sz n pool" "alloc (pool_allocation_size (2 ^ k) sz n) = pool" "pool \<noteq> 0"
  shows "\<exists>p0. eh_mem_pool_create alloc junk (2 ^ k) sz n = Inr p0 \<and> (\<forall>p U. pool_run p0 p U \<longrightarrow>
      card U \<le> unat n
    \<and> (fst (eh_mem_pool_alloc p) = 0 \<longleftrightarrow> card U = unat n)
    \<and> (card U < unat n \<longrightarrow> fst (eh_mem_pool_alloc p) \<notin> U)
    \<and> (\<forall>q\<in>U. 2 ^ k dvd unat q \<and> unat pool + 32 + 8 * unat n \<le> unat q
         \<and> unat q + unat sz \<le> unat pool + 32 + 8 * unat n + unat (align_size p) * unat n + (2 ^ k - 1)
         \<and> eh_mem_pool_free (eh_mem_pool_free p q) q = eh_mem_pool_free p q)
    \<and> (\<forall>q\<in>U. \<forall>r\<in>U. q \<noteq> r \<longrightarrow> {unat q..<unat q + unat sz} \<inter> {unat r..<unat r + unat sz} = {}))"
proof -
  obtain p0 where c0: "eh_mem_pool_create alloc junk (2 ^ k) sz n = Inr p0" and d: "pool_created k sz n pool p0"
    using create_effect[where alloc = alloc, OF assms, of junk] by blast
  have c: "pool_ok p0 [0..<unat n]" "num p0 = n"
    "2 ^ k dvd unat (base p0)" "2 ^ k dvd unat (align_size p0)" "unat sz \<le> unat (align_size p0)"
    "unat pool + 32 + unat n * 8 \<le> unat (base p0)"
    "unat (base p0) + unat n * unat (align_size p0) \<le> unat pool + 32 + unat n * 8 + unat (align_size p0) * unat n + (2 ^ k - 1)"
    using d by (simp_all add: pool_created_def)
  have i0: "pool_inv p0 p0 {}" 
  proof -
    have "in_use p0 = {}" unfolding pool_ok_in_use[OF c(1)] by (auto simp: c(2))
    then show ?thesis using c(1) unfolding pool_inv_def by blast
  qed
  {
    fix p U assume "pool_run p0 p U"
    then have "pool_inv p0 p U" using pool_run_inv i0 by blast
    then obtain fs where ok: "pool_ok p fs" and s: "base p = base p0" "num p = n" "align_size p = align_size p0"
      and U: "U = eh_mem_pool_idx_to_ptr p ` in_use p"
      using idx_to_ptr_same[of p p0] c(2) by (auto simp: pool_inv_def)
    have lt: "in_use p \<subseteq> {..<unat (num p)}" by (auto simp: in_use_def)
    have cu: "card U = card (in_use p)"
      unfolding U by (rule card_image[OF inj_on_subset[OF idx_to_ptr_inj[OF ok] lt]])
    note ci = pool_in_use_card[OF ok]
    have al: "(fst (eh_mem_pool_alloc p) = 0 \<longleftrightarrow> card U = unat n) \<and> (card U < unat n \<longrightarrow> fst (eh_mem_pool_alloc p) \<notin> U)"
    proof (cases fs)
      case Nil
      then show ?thesis using alloc_effect[OF ok] ci cu s(2) by simp
    next
      case (Cons i js)
      have i: "i < unat (num p)" using ok Cons by (simp add: pool_ok_def)
      have a: "fst (eh_mem_pool_alloc p) = eh_mem_pool_idx_to_ptr p i" "i \<notin> in_use p"
        using alloc_effect[OF ok] Cons by auto
      have "eh_mem_pool_idx_to_ptr p i \<notin> U"
        unfolding U using a(2) i lt inj_onD[OF idx_to_ptr_inj[OF ok]] by fastforce
      then show ?thesis using a(1) idx_to_ptr(2)[OF ok i] ci cu s(2) Cons by simp
    qed
    have el: "2 ^ k dvd unat q \<and> unat pool + 32 + 8 * unat n \<le> unat q
         \<and> unat q + unat sz \<le> unat pool + 32 + 8 * unat n + unat (align_size p) * unat n + (2 ^ k - 1)
         \<and> eh_mem_pool_free (eh_mem_pool_free p q) q = eh_mem_pool_free p q" if q: "q \<in> U" for q
    proof -
      obtain i where i: "i \<in> in_use p" "q = eh_mem_pool_idx_to_ptr p i" using q U by blast
      have il: "i < unat (num p)" using i(1) lt by blast
      note v = idx_to_ptr[OF ok il, folded i(2)]
      have "(i + 1) * unat (align_size p) \<le> unat n * unat (align_size p)" using il s(2) by (intro mult_le_mono1) simp
      then have "unat q + unat (align_size p) \<le> unat (base p) + unat n * unat (align_size p)" using v(1) by simp
      then have bd: "unat q + unat sz \<le> unat pool + 32 + 8 * unat n + unat (align_size p) * unat n + (2 ^ k - 1)"
        using c(5,7) s by (simp add: mult.commute)
      note f = free_effect[OF ok i(1) v(3)]
      have "eh_mem_pool_free (eh_mem_pool_free p q) q = eh_mem_pool_free p q"
        by (rule free_ignored) (use f v in simp)
      moreover have "2 ^ k dvd unat q" using v(1) c(3,4) s by simp
      moreover have "unat pool + 32 + 8 * unat n \<le> unat q" using v(1) c(6) s by simp
      ultimately show ?thesis using bd by blast
    qed
    have dj: "{unat q..<unat q + unat sz} \<inter> {unat r..<unat r + unat sz} = {}" if qr: "q \<in> U" "r \<in> U" "q \<noteq> r" for q r
    proof -
      obtain i j where ij: "i \<in> in_use p" "q = eh_mem_pool_idx_to_ptr p i" "j \<in> in_use p" "r = eh_mem_pool_idx_to_ptr p j"
        using qr(1,2) U by blast
      have "{unat q ..< unat q + unat (align_size p)} \<inter> {unat r ..< unat r + unat (align_size p)} = {}"
        unfolding ij(2,4) by (rule pool_slots_apart[OF ok]) (use ij lt qr(3) in auto)
      then show ?thesis using c(5) s(3) by auto
    qed
    have "card U \<le> unat n" using ci cu s(2) by simp
    note this al el dj
  }
  then show ?thesis using c0 by blast
qed

lemma pool_history_witness:
  "\<exists>p0. eh_mem_pool_create (\<lambda>_. 4096) (\<lambda>_. None) 8 20 3 = Inr p0
     \<and> (fst (eh_mem_pool_alloc p0) = 0 \<longleftrightarrow> card ({} :: u64 set) = 3)"
proof -
  have f: "pool_fits 3 20 3 4096" by (simp add: pool_fits_def eh_align_up_def)
  show ?thesis
    using pool_history[OF f, where alloc = "\<lambda>_. 4096" and junk = "\<lambda>_. None"] pool_run.start by fastforce
qed

text \<open>
  Index and pointer of a block determine each other, and what is not the start of a block of
  the pool has the index \<open>-1\<close>; but \<open>eh_mem_pool_free\<close> does not test the alignment: a pointer
  to any byte of a block in use releases the block.
\<close>

theorem pool_index_roundtrip:
  assumes "pool_ok p fs" "unat (num p) < 2 ^ 31"
  shows "(\<forall>i<unat (num p). eh_mem_pool_ptr_to_idx p (eh_mem_pool_idx_to_ptr p i) = int i)
    \<and> (\<forall>q. eh_mem_pool_ptr_to_idx p q = -1 \<or> (\<exists>i<unat (num p). q = eh_mem_pool_idx_to_ptr p i))
    \<and> (\<forall>i\<in>in_use p. \<forall>d<unat (align_size p).
         in_use (eh_mem_pool_free p (eh_mem_pool_idx_to_ptr p i + word_of_nat d)) = in_use p - {i})"
proof (intro conjI allI ballI impI)
  have b: "unat (base p) + unat (num p) * unat (align_size p) < 2 ^ 64" "0 < unat (align_size p)"
    using assms(1) by (simp_all add: pool_ok_def)
  have na: "unat (num p * align_size p) = unat (num p) * unat (align_size p)"
    using b(1) by (simp add: unat_word_ariths)
  have e: "unat (base p + num p * align_size p) = unat (base p) + unat (num p) * unat (align_size p)"
    using unat_add_no_wrap[of "base p" "num p * align_size p"] b(1) unfolding na by simp
  {
    fix i assume i: "i < unat (num p)"
    note v = idx_to_ptr[OF assms(1) i]
    let ?q = "eh_mem_pool_idx_to_ptr p i"
    have "i * unat (align_size p) < unat (num p) * unat (align_size p)" using i b(2) by simp
    then have r: "\<not> (?q < base p \<or> ?q \<ge> base p + num p * align_size p)"
      unfolding word_less_nat_alt word_le_nat_alt e v(1) by simp
    have o: "unat (?q - base p) = i * unat (align_size p)"
      using unat_diff_no_wrap[of "base p" ?q] v(1) by simp
    have m: "\<not> (?q - base p) mod align_size p \<noteq> 0"
      by (simp add: word_unat_eq_iff unat_mod o)
    have "unat (ucast (word_of_nat i :: u64) :: 32 word) = i"
      using i assms(2) v(4) by (simp add: unsigned_ucast_eq take_bit_nat_eq_self_iff)
    then have "sint (ucast (word_of_nat i :: u64) :: 32 word) = int i"
      using sint_small[of "ucast (word_of_nat i :: u64)"] i assms(2) by simp
    then show "eh_mem_pool_ptr_to_idx p ?q = int i"
      unfolding eh_mem_pool_ptr_to_idx_def if_not_P[OF r] Let_def if_not_P[OF m] v(3) .
  }
  {
    fix q
    show "eh_mem_pool_ptr_to_idx p q = -1 \<or> (\<exists>i<unat (num p). q = eh_mem_pool_idx_to_ptr p i)"
    proof (cases "q < base p \<or> q \<ge> base p + num p * align_size p \<or> (q - base p) mod align_size p \<noteq> 0")
      case True
      then show ?thesis unfolding eh_mem_pool_ptr_to_idx_def Let_def by (cases "q < base p \<or> q \<ge> base p + num p * align_size p") simp_all
    next
      case False
      have g: "unat (base p) \<le> unat q" "unat q < unat (base p) + unat (num p) * unat (align_size p)"
        using False by (simp_all add: word_less_nat_alt word_le_nat_alt e not_less not_le)
      have o: "unat (q - base p) = unat q - unat (base p)" by (rule unat_diff_no_wrap[OF g(1)])
      have "unat ((q - base p) mod align_size p) = 0" using False by simp
      then have "unat (align_size p) dvd unat q - unat (base p)" by (simp add: unat_mod o mod_eq_0_iff_dvd)
      then obtain i where i: "unat q - unat (base p) = unat (align_size p) * i" by (rule dvdE)
      have "unat (align_size p) * i < unat (align_size p) * unat (num p)"
        unfolding i[symmetric] mult.commute[of "unat (align_size p)" "unat (num p)"] using g by linarith
      then have l: "i < unat (num p)" by simp
      have "unat q = unat (eh_mem_pool_idx_to_ptr p i)"
        unfolding idx_to_ptr(1)[OF assms(1) l] using g(1) i by (simp add: mult.commute)
      then show ?thesis using l by (auto simp: word_unat_eq_iff)
    qed
  }
  {
    fix i d assume i: "i \<in> in_use p" and d: "d < unat (align_size p)"
    have il: "i < unat (num p)" using i by (simp add: in_use_def)
    note v = idx_to_ptr[OF assms(1) il]
    have "d < 2 ^ 64" by (rule order_less_trans[OF d], rule order_less_le_trans[OF unsigned_less]) simp
    then have du: "unat (word_of_nat d :: u64) = d" by (simp add: unat_of_nat)
    have "(i + 1) * unat (align_size p) \<le> unat (num p) * unat (align_size p)" using il by (intro mult_le_mono1) simp
    then have "unat (eh_mem_pool_idx_to_ptr p i) + unat (word_of_nat d :: u64) < 2 ^ 64"
      unfolding v(1) du using b(1) d by simp
    from unat_add_no_wrap[OF this]
    have s: "unat (eh_mem_pool_idx_to_ptr p i + word_of_nat d) = unat (base p) + i * unat (align_size p) + d"
      unfolding v(1) du .
    have o: "unat (eh_mem_pool_idx_to_ptr p i + word_of_nat d - base p) = i * unat (align_size p) + d"
      using unat_diff_no_wrap[of "base p" "eh_mem_pool_idx_to_ptr p i + word_of_nat d"] s by simp
    have "unat ((eh_mem_pool_idx_to_ptr p i + word_of_nat d - base p) div align_size p) = unat (word_of_nat i :: u64)"
      unfolding unat_div o v(4) using d b(2) by (simp add: div_mult_self3)
    then have "(eh_mem_pool_idx_to_ptr p i + word_of_nat d - base p) div align_size p = word_of_nat i"
      by (rule unsigned_word_eqI)
    from free_effect(2)[OF assms(1) i this]
    show "in_use (eh_mem_pool_free p (eh_mem_pool_idx_to_ptr p i + word_of_nat d)) = in_use p - {i}" .
  }
qed

lemma pool_index_roundtrip_witness:
  "\<exists>p. eh_mem_pool_create (\<lambda>_. 4096) (\<lambda>_. None) 8 20 3 = Inr p
     \<and> eh_mem_pool_ptr_to_idx p (eh_mem_pool_idx_to_ptr p 2) = 2"
proof -
  have f: "pool_fits 3 20 3 4096" by (simp add: pool_fits_def eh_align_up_def)
  obtain p where "eh_mem_pool_create (\<lambda>_. 4096) (\<lambda>_. None) 8 20 3 = Inr p" "pool_ok p [0..<3]" "num p = 3"
    using create_effect[OF f, where alloc = "\<lambda>_. 4096" and junk = "\<lambda>_. None"]
    by (auto simp: pool_created_def)
  then show ?thesis using pool_index_roundtrip[of p "[0..<3]"] by fastforce
qed

end
