(* ===== verification/Eh_Ringbuf.thy ===== *)
theory Eh_Ringbuf
  imports Eh_Prelude
begin

text \<open>
  The ring buffer of \<^verbatim>\<open>src/src/general/eh_ringbuf.c\<close>. The read and the write index run
  modulo twice the size, so that a full buffer differs from an empty one. Indices are
  \<open>uint32_t\<close> and sizes \<open>int32_t\<close>, both 32-bit words; a signed comparison reads the word
  with \<open>sint\<close>. Buffers of the caller are lists of bytes; the functions that fill one return its
  new contents.
\<close>

type_synonym i32 = "32 word"

subsection \<open>The state\<close>

record ringbuf =
  rb_w :: u32
  rb_r :: u32
  rb_size :: i32
  rb_buf :: "u8 list"

text \<open>\<open>memcpy (dst + off, src, n)\<close>.\<close>

definition memcpy :: "'a list \<Rightarrow> nat \<Rightarrow> 'a list \<Rightarrow> nat \<Rightarrow> 'a list" where
  "memcpy dst off src n = take off dst @ take n src @ drop (off + n) dst"

text \<open>A copy from position \<open>p\<close> of a ring to \<open>dst\<close>, and one from \<open>src\<close> to it, cut at the end.\<close>

definition ring_get :: "'a list \<Rightarrow> nat \<Rightarrow> nat \<Rightarrow> 'a list \<Rightarrow> nat \<Rightarrow> 'a list" where
  "ring_get buf p first_max dst n =
     (if n \<le> first_max then memcpy dst 0 (drop p buf) n
      else memcpy (memcpy dst 0 (drop p buf) first_max) first_max buf (n - first_max))"

definition ring_put :: "'a list \<Rightarrow> nat \<Rightarrow> nat \<Rightarrow> 'a list \<Rightarrow> nat \<Rightarrow> 'a list" where
  "ring_put buf p first_max src n =
     (if n \<le> first_max then memcpy buf p src n
      else memcpy (memcpy buf p src first_max) 0 (drop first_max src) (n - first_max))"

subsection \<open>The operations\<close>

definition eh_ringbuf_fix :: "ringbuf \<Rightarrow> u32 \<Rightarrow> u32" where
  "eh_ringbuf_fix rb pos = pos mod push_bit 1 (rb_size rb)"

text \<open>
  \<open>alloc\<close> tells whether \<open>eh_malloc\<close> returned memory and \<open>mem\<close> are the bytes of the buffer,
  of the caller or allocated.
\<close>

definition eh_ringbuf_create :: "i32 \<Rightarrow> bool \<Rightarrow> u8 list \<Rightarrow> int + ringbuf" where
  "eh_ringbuf_create sz alloc mem =
     (if sint sz \<le> 0 then Inl EH_RET_INVALID_PARAM
      else if \<not> alloc then Inl EH_RET_MALLOC_ERROR
      else Inr \<lparr>rb_w = 0, rb_r = 0, rb_size = sz, rb_buf = mem\<rparr>)"

definition eh_ringbuf_size :: "ringbuf \<Rightarrow> i32" where
  "eh_ringbuf_size rb =
     (let diff = rb_w rb - rb_r rb
      in if sint diff \<ge> 0 then diff else push_bit 1 (rb_size rb) + diff)"

definition eh_ringbuf_free_size :: "ringbuf \<Rightarrow> i32" where
  "eh_ringbuf_free_size rb =
     (let diff = rb_w rb - rb_r rb
      in if sint diff \<ge> 0 then rb_size rb - diff else - (rb_size rb + diff))"

definition eh_ringbuf_total_size :: "ringbuf \<Rightarrow> i32" where
  "eh_ringbuf_total_size rb = rb_size rb"

definition eh_ringbuf_write :: "ringbuf \<Rightarrow> u8 list \<Rightarrow> i32 \<Rightarrow> i32 \<times> ringbuf" where
  "eh_ringbuf_write rb buf len =
     (let free_size = eh_ringbuf_free_size rb;
          wl = (if sint len > sint free_size then free_size else len)
      in if sint wl \<le> 0 then (0, rb)
         else let w = rb_w rb mod rb_size rb;
                  write_size_first_max = rb_size rb - w;
                  rb = rb\<lparr>rb_buf := ring_put (rb_buf rb) (unat w) (unat write_size_first_max) buf (unat wl)\<rparr>
              in (wl, rb\<lparr>rb_w := eh_ringbuf_fix rb (rb_w rb + wl)\<rparr>))"

definition eh_ringbuf_draft_write :: "ringbuf \<Rightarrow> i32 \<Rightarrow> u8 list \<Rightarrow> i32 \<Rightarrow> i32 \<times> ringbuf" where
  "eh_ringbuf_draft_write rb offset buf len =
     (let free_size = eh_ringbuf_free_size rb - offset;
          wl = (if sint len > sint free_size then free_size else len)
      in if sint wl \<le> 0 then (0, rb)
         else let w = (rb_w rb + offset) mod rb_size rb;
                  write_size_first_max = rb_size rb - w
              in (wl, rb\<lparr>rb_buf := ring_put (rb_buf rb) (unat w) (unat write_size_first_max) buf (unat wl)\<rparr>))"

definition eh_ringbuf_write_skip :: "ringbuf \<Rightarrow> i32 \<Rightarrow> i32 \<times> ringbuf" where
  "eh_ringbuf_write_skip rb len =
     (let free_size = eh_ringbuf_free_size rb;
          wl = (if sint len > sint free_size then free_size else len)
      in if sint wl \<le> 0 then (0, rb)
         else (wl, rb\<lparr>rb_w := eh_ringbuf_fix rb (rb_w rb + wl)\<rparr>))"

text \<open>The result has the bytes of the caller's buffer as well.\<close>

definition eh_ringbuf_read :: "ringbuf \<Rightarrow> u8 list \<Rightarrow> i32 \<Rightarrow> i32 \<times> u8 list \<times> ringbuf" where
  "eh_ringbuf_read rb buf len =
     (let sz = eh_ringbuf_size rb;
          rl = (if sint len > sint sz then sz else len)
      in if sint rl \<le> 0 then (0, buf, rb)
         else let r = rb_r rb mod rb_size rb;
                  read_size_first_max = rb_size rb - r;
                  buf = ring_get (rb_buf rb) (unat r) (unat read_size_first_max) buf (unat rl)
              in (rl, buf, rb\<lparr>rb_r := eh_ringbuf_fix rb (rb_r rb + rl)\<rparr>))"

definition eh_ringbuf_read_skip :: "ringbuf \<Rightarrow> i32 \<Rightarrow> i32 \<times> ringbuf" where
  "eh_ringbuf_read_skip rb len =
     (let sz = eh_ringbuf_size rb;
          rl = (if sint len > sint sz then sz else len)
      in if sint rl \<le> 0 then (0, rb)
         else (rl, rb\<lparr>rb_r := eh_ringbuf_fix rb (rb_r rb + rl)\<rparr>))"

text \<open>What \<open>eh_ringbuf_peek\<close> returns: \<open>NULL\<close>, a pointer into the ring, or the buffer of the caller.\<close>

datatype peek_ptr = PeekNull | PeekInner nat | PeekBuf

definition eh_ringbuf_peek :: "ringbuf \<Rightarrow> i32 \<Rightarrow> u8 list \<Rightarrow> i32 \<Rightarrow> peek_ptr \<times> u8 list \<times> i32" where
  "eh_ringbuf_peek rb offset buf len =
     (let sz = eh_ringbuf_size rb - offset;
          rl = len
      in if sint sz < sint rl then (PeekNull, buf, len)
         else let r = (rb_r rb + offset) mod rb_size rb;
                  read_size_first_max = rb_size rb - r
              in if sint rl \<le> sint read_size_first_max
                 then (PeekInner (unat r), buf, if sint sz > sint read_size_first_max then read_size_first_max else sz)
                 else (PeekBuf, ring_get (rb_buf rb) (unat r) (unat read_size_first_max) buf (unat rl), len))"

definition eh_ringbuf_peek_copy :: "ringbuf \<Rightarrow> i32 \<Rightarrow> u8 list \<Rightarrow> i32 \<Rightarrow> i32 \<times> u8 list" where
  "eh_ringbuf_peek_copy rb offset buf len =
     (let sz = eh_ringbuf_size rb - offset;
          rl = len
      in if sint sz < sint rl then (0, buf)
         else let r = (rb_r rb + offset) mod rb_size rb;
                  read_size_first_max = rb_size rb - r
              in (rl, ring_get (rb_buf rb) (unat r) (unat read_size_first_max) buf (unat rl)))"

definition eh_ringbuf_clear :: "ringbuf \<Rightarrow> ringbuf" where
  "eh_ringbuf_clear rb = rb\<lparr>rb_r := rb_w rb\<rparr>"

definition eh_ringbuf_reset :: "ringbuf \<Rightarrow> ringbuf" where
  "eh_ringbuf_reset rb = rb\<lparr>rb_w := 0, rb_r := 0\<rparr>"

subsection \<open>Copies that wrap around\<close>

lemma length_memcpy [simp]:
  "off + n \<le> length dst \<Longrightarrow> n \<le> length src \<Longrightarrow> length (memcpy dst off src n) = length dst"
  by (simp add: memcpy_def)

lemma nth_memcpy:
  "off + n \<le> length dst \<Longrightarrow> n \<le> length src \<Longrightarrow> j < length dst \<Longrightarrow>
   memcpy dst off src n ! j = (if off \<le> j \<and> j < off + n then src ! (j - off) else dst ! j)"
  by (auto simp: memcpy_def nth_append min_def)

definition ring_slice :: "'a list \<Rightarrow> nat \<Rightarrow> nat \<Rightarrow> 'a list" where
  "ring_slice buf p n = map (\<lambda>i. buf ! ((p + i) mod length buf)) [0..<n]"

lemma length_ring_slice [simp]: "length (ring_slice buf p n) = n"
  by (simp add: ring_slice_def)

lemma nth_ring_slice [simp]: "i < n \<Longrightarrow> ring_slice buf p n ! i = buf ! ((p + i) mod length buf)"
  by (simp add: ring_slice_def)

lemma drop_ring_slice:
  "k \<le> n \<Longrightarrow> drop k (ring_slice buf p n) = ring_slice buf ((p + k) mod length buf) (n - k)"
  by (rule nth_equalityI) (simp_all add: mod_simps add.assoc)

lemma take_ring_slice: "k \<le> n \<Longrightarrow> take k (ring_slice buf p n) = ring_slice buf p k"
  by (rule nth_equalityI) simp_all

lemma ring_get_slice:
  assumes "p < length buf" "n \<le> length buf" "n \<le> length dst"
  shows "ring_get buf p (length buf - p) dst n = ring_slice buf p n @ drop n dst"
proof (rule nth_equalityI)
  show len: "length (ring_get buf p (length buf - p) dst n) = length (ring_slice buf p n @ drop n dst)"
    using assms by (simp add: ring_get_def)
  fix i assume "i < length (ring_get buf p (length buf - p) dst n)"
  then have i: "i < length dst" using assms len by simp
  have m: "(p + i) mod length buf = (if p + i < length buf then p + i else p + i - length buf)" if "i < n"
    using that assms by (simp add: mod_if)
  show "ring_get buf p (length buf - p) dst n ! i = (ring_slice buf p n @ drop n dst) ! i"
  proof (cases "i < n")
    case True
    then show ?thesis using assms i m by (auto simp: ring_get_def ring_slice_def nth_append nth_memcpy add.commute)
  next
    case False
    then show ?thesis using assms i by (auto simp: ring_get_def nth_append nth_memcpy)
  qed
qed

lemma ring_put_length [simp]:
  "p < length buf \<Longrightarrow> n \<le> length buf \<Longrightarrow> n \<le> length src \<Longrightarrow> length (ring_put buf p (length buf - p) src n) = length buf"
  by (auto simp: ring_put_def)

lemma ring_put_nth:
  assumes "p < length buf" "n \<le> length buf" "n \<le> length src"
  shows "i < n \<Longrightarrow> ring_put buf p (length buf - p) src n ! ((p + i) mod length buf) = src ! i"
    "j < length buf \<Longrightarrow> (\<And>i. i < n \<Longrightarrow> j \<noteq> (p + i) mod length buf) \<Longrightarrow>
      ring_put buf p (length buf - p) src n ! j = buf ! j"
proof -
  show "ring_put buf p (length buf - p) src n ! ((p + i) mod length buf) = src ! i" if "i < n"
  proof -
    have m: "(p + i) mod length buf = (if p + i < length buf then p + i else p + i - length buf)"
      using that assms by (simp add: mod_if)
    show ?thesis unfolding m using assms that by (auto simp: ring_put_def nth_memcpy)
  qed
  assume j: "j < length buf" "\<And>i. i < n \<Longrightarrow> j \<noteq> (p + i) mod length buf"
  have a: "\<not> (p \<le> j \<and> j < p + n)"
  proof
    assume a: "p \<le> j \<and> j < p + n"
    then have "j - p < n" by linarith
    then show False using j(2)[of "j - p"] j(1) a by simp
  qed
  moreover have "\<not> (j + length buf < p + n)"
  proof
    assume c: "j + length buf < p + n"
    then have "j + length buf - p < n" using assms(1) by linarith
    then show False using j(2)[of "j + length buf - p"] j(1) assms c by simp
  qed
  ultimately show "ring_put buf p (length buf - p) src n ! j = buf ! j"
    using assms j(1) by (auto simp: ring_put_def nth_memcpy)
qed

end
