(* ===== verification/Eh_Ringbuf_Spec.thy ===== *)
theory Eh_Ringbuf_Spec
  imports Eh_Ringbuf
begin

text \<open>
  The ring buffer as a queue of bytes: \<open>rb_ok\<close> is its invariant, \<open>content\<close> the bytes it
  holds, oldest first. The interface \<open>byte_fifo\<close> states what a bounded queue of bytes promises;
  the ring buffer is an instance of it.
\<close>

subsection \<open>Invariant and content\<close>

definition cap :: "ringbuf \<Rightarrow> nat" where
  "cap rb = unat (rb_size rb)"

definition used :: "ringbuf \<Rightarrow> nat" where
  "used rb = (if unat (rb_r rb) \<le> unat (rb_w rb) then unat (rb_w rb) - unat (rb_r rb)
              else 2 * cap rb + unat (rb_w rb) - unat (rb_r rb))"

text \<open>The size is at most \<open>2 ^ 30\<close>, so that twice the size is still a positive index.\<close>

definition rb_ok :: "ringbuf \<Rightarrow> bool" where
  "rb_ok rb \<longleftrightarrow> 0 < cap rb \<and> cap rb \<le> 2 ^ 30 \<and> unat (rb_w rb) < 2 * cap rb \<and> unat (rb_r rb) < 2 * cap rb
     \<and> used rb \<le> cap rb \<and> length (rb_buf rb) = cap rb"

lemma rb_okD:
  assumes "rb_ok rb"
  shows "0 < cap rb" "cap rb \<le> 1073741824" "unat (rb_w rb) < 2 * cap rb" "unat (rb_r rb) < 2 * cap rb"
    "used rb \<le> cap rb" "length (rb_buf rb) = cap rb"
  using assms by (simp_all add: rb_ok_def)

definition content :: "ringbuf \<Rightarrow> u8 list" where
  "content rb = ring_slice (rb_buf rb) (unat (rb_r rb) mod cap rb) (used rb)"

lemma length_content [simp]: "length (content rb) = used rb"
  by (simp add: content_def)

subsection \<open>Words\<close>

lemma unat32_mod: "unat (a mod b :: 32 word) = unat a mod unat b"
  by (simp add: unat_mod)

lemma double_size:
  assumes "rb_ok rb"
  shows "unat (push_bit 1 (rb_size rb)) = 2 * cap rb"
  using assms by (simp add: push_bit_eq_mult unat_word_ariths rb_ok_def cap_def)

lemma eh_ringbuf_size_eq:
  assumes "rb_ok rb"
  shows "unat (eh_ringbuf_size rb) = used rb" "sint (eh_ringbuf_size rb) = int (used rb)"
    "unat (eh_ringbuf_free_size rb) = cap rb - used rb" "sint (eh_ringbuf_free_size rb) = int (cap rb - used rb)"
proof -
  note ok = rb_okD[OF assms]
  have d: "sint (rb_w rb - rb_r rb) = int (unat (rb_w rb)) - int (unat (rb_r rb))"
    using ok by (intro sint_diff) auto
  have "unat (eh_ringbuf_size rb) = used rb \<and> unat (eh_ringbuf_free_size rb) = cap rb - used rb"
  proof (cases "unat (rb_r rb) \<le> unat (rb_w rb)")
    case True
    have u: "unat (rb_w rb - rb_r rb) = used rb" using unat32_sub[OF True] True by (simp add: used_def)
    have "unat (rb_size rb - (rb_w rb - rb_r rb)) = cap rb - used rb"
      using unat32_sub[of "rb_w rb - rb_r rb" "rb_size rb"] u ok by (simp add: cap_def)
    moreover have "0 \<le> int (unat (rb_w rb)) - int (unat (rb_r rb))" using True by linarith
    ultimately show ?thesis
      unfolding eh_ringbuf_size_def eh_ringbuf_free_size_def Let_def d using u by (simp only: if_True)
  next
    case False
    have u: "unat (rb_r rb - rb_w rb) = unat (rb_r rb) - unat (rb_w rb)" using False by (intro unat32_sub) simp
    have s: "push_bit 1 (rb_size rb) + (rb_w rb - rb_r rb) = push_bit 1 (rb_size rb) - (rb_r rb - rb_w rb)"
      "- (rb_size rb + (rb_w rb - rb_r rb)) = (rb_r rb - rb_w rb) - rb_size rb" by simp_all
    have us: "used rb = 2 * cap rb + unat (rb_w rb) - unat (rb_r rb)" using False by (simp add: used_def)
    have le: "unat (rb_r rb - rb_w rb) \<le> unat (push_bit 1 (rb_size rb))"
      unfolding u double_size[OF assms] using ok(4) by linarith
    have "unat (push_bit 1 (rb_size rb) - (rb_r rb - rb_w rb)) = used rb"
      unfolding unat32_sub[OF le] u double_size[OF assms] us using False by linarith
    moreover have "unat ((rb_r rb - rb_w rb) - rb_size rb) = cap rb - used rb"
      using unat32_sub[of "rb_size rb" "rb_r rb - rb_w rb"] ok us False unfolding u by (simp add: cap_def)
    moreover have "\<not> 0 \<le> int (unat (rb_w rb)) - int (unat (rb_r rb))" using False by linarith
    ultimately show ?thesis
      unfolding eh_ringbuf_size_def eh_ringbuf_free_size_def Let_def d s by (simp only: if_False)
  qed
  then show 1: "unat (eh_ringbuf_size rb) = used rb" "unat (eh_ringbuf_free_size rb) = cap rb - used rb" by simp_all
  show "sint (eh_ringbuf_size rb) = int (used rb)" "sint (eh_ringbuf_free_size rb) = int (cap rb - used rb)"
    using sint_small[of "eh_ringbuf_size rb"] sint_small[of "eh_ringbuf_free_size rb"] 1 ok by simp_all
qed

lemma fix_eq:
  assumes "rb_ok rb" "unat pos + unat n < 2 ^ 32"
  shows "unat (eh_ringbuf_fix rb (pos + n)) = (unat pos + unat n) mod (2 * cap rb)"
  unfolding eh_ringbuf_fix_def unat32_mod double_size[OF assms(1)] unat32_add[OF assms(2)] by (rule refl)

text \<open>The write index is \<open>used\<close> steps ahead of the read index, modulo twice the size.\<close>

lemma write_index:
  assumes "rb_ok rb"
  shows "(unat (rb_r rb) + used rb) mod (2 * cap rb) = unat (rb_w rb)"
    "(unat (rb_r rb) + used rb) mod cap rb = unat (rb_w rb) mod cap rb"
proof -
  note ok = rb_okD[OF assms]
  show 1: "(unat (rb_r rb) + used rb) mod (2 * cap rb) = unat (rb_w rb)"
    using ok by (auto simp: used_def mod_if)
  show "(unat (rb_r rb) + used rb) mod cap rb = unat (rb_w rb) mod cap rb"
    unfolding 1[symmetric] by (simp add: mod_mod_cancel)
qed

lemma used_advance:
  assumes "r < 2 * c" "w = (r + u) mod (2 * c)" "u \<le> c" "0 < (c::nat)"
  shows "u = (if r \<le> w then w - r else 2 * c + w - r)"
proof (cases "r + u < 2 * c")
  case False
  then have "w = r + u - 2 * c" using assms by (simp add: mod_if)
  then show ?thesis using False assms by auto
qed (use assms in simp)

lemma used_eqI:
  assumes "unat (rb_r rb) < 2 * cap rb" "unat (rb_w rb) = (unat (rb_r rb) + u) mod (2 * cap rb)" "u \<le> cap rb" "0 < cap rb"
  shows "used rb = u"
  using used_advance[OF assms] by (simp add: used_def)

subsection \<open>Moving the indices\<close>

lemma skip_write:
  assumes "rb_ok rb" "unat n \<le> cap rb - used rb"
  defines "rb' \<equiv> rb\<lparr>rb_w := eh_ringbuf_fix rb (rb_w rb + n)\<rparr>"
  shows "rb_ok rb'" "used rb' = used rb + unat n" "cap rb' = cap rb"
proof -
  note ok = rb_okD[OF assms(1)]
  have c: "cap rb' = cap rb" "rb_r rb' = rb_r rb" "rb_buf rb' = rb_buf rb" by (simp_all add: rb'_def cap_def)
  have w': "rb_w rb' = eh_ringbuf_fix rb (rb_w rb + n)" by (simp add: rb'_def)
  have bound: "unat (rb_w rb) + unat n < 2 ^ 32" using ok assms(2) by simp
  have "unat (rb_w rb') = (unat (rb_w rb) + unat n) mod (2 * cap rb)"
    unfolding w' by (rule fix_eq[OF assms(1)]) (use bound in linarith)
  also have "\<dots> = (unat (rb_r rb) + (used rb + unat n)) mod (2 * cap rb)"
    unfolding write_index(1)[OF assms(1), symmetric] by (simp add: mod_simps add.assoc)
  finally have w: "unat (rb_w rb') = (unat (rb_r rb') + (used rb + unat n)) mod (2 * cap rb')" by (simp add: c)
  show u: "used rb' = used rb + unat n" by (rule used_eqI) (use w ok assms(2) c in auto)
  show "rb_ok rb'" unfolding rb_ok_def c u using ok assms(2) w c by simp
  show "cap rb' = cap rb" by (rule c)
qed

lemma skip_read:
  assumes "rb_ok rb" "unat n \<le> used rb"
  defines "rb' \<equiv> rb\<lparr>rb_r := eh_ringbuf_fix rb (rb_r rb + n)\<rparr>"
  shows "rb_ok rb'" "used rb' = used rb - unat n" "cap rb' = cap rb" "content rb' = drop (unat n) (content rb)"
proof -
  note ok = rb_okD[OF assms(1)]
  have c: "cap rb' = cap rb" "rb_w rb' = rb_w rb" "rb_buf rb' = rb_buf rb" by (simp_all add: rb'_def cap_def)
  have r': "rb_r rb' = eh_ringbuf_fix rb (rb_r rb + n)" by (simp add: rb'_def)
  have bound: "unat (rb_r rb) + unat n < 2 ^ 32" using ok assms(2) by simp
  have r: "unat (rb_r rb') = (unat (rb_r rb) + unat n) mod (2 * cap rb)"
    unfolding r' by (rule fix_eq[OF assms(1)]) (use bound in linarith)
  have rl: "unat (rb_r rb') < 2 * cap rb'" using ok by (simp add: r c)
  have "unat (rb_w rb') = (unat (rb_r rb) + used rb) mod (2 * cap rb)" using write_index(1)[OF assms(1)] by (simp add: c)
  also have "\<dots> = (unat (rb_r rb') + (used rb - unat n)) mod (2 * cap rb')"
  proof -
    have "unat (rb_r rb) + used rb = (unat (rb_r rb) + unat n) + (used rb - unat n)" using assms(2) by simp
    then show ?thesis unfolding r c by (simp only: mod_add_left_eq)
  qed
  finally show u: "used rb' = used rb - unat n" by (intro used_eqI) (use rl ok c in auto)
  show "rb_ok rb'" unfolding rb_ok_def u using ok rl c by auto
  show "cap rb' = cap rb" by (rule c)
  have "unat (rb_r rb') mod cap rb = (unat (rb_r rb) mod cap rb + unat n) mod cap rb"
    unfolding r by (simp add: mod_simps mod_mod_cancel)
  moreover have "length (rb_buf rb) = cap rb" using ok by simp
  ultimately show "content rb' = drop (unat n) (content rb)"
    unfolding content_def c u by (simp add: drop_ring_slice assms(2))
qed


subsection \<open>Writing into the free part\<close>

text \<open>
  Bytes put \<open>k\<close> steps behind the write index, inside the free part: the content stays, and they
  are the content's continuation.
\<close>

lemma put_effect:
  assumes "rb_ok rb" "k + n \<le> cap rb - used rb" "n \<le> length src"
  defines "p \<equiv> (unat (rb_w rb) + k) mod cap rb"
  defines "rb' \<equiv> rb\<lparr>rb_buf := ring_put (rb_buf rb) p (cap rb - p) src n\<rparr>"
  shows "rb_ok rb'" "content rb' = content rb" "used rb' = used rb" "cap rb' = cap rb"
    "k = 0 \<Longrightarrow> ring_slice (rb_buf rb') (unat (rb_r rb) mod cap rb) (used rb + n) = content rb @ take n src"
proof -
  note ok = rb_okD[OF assms(1)]
  have pl: "p < length (rb_buf rb)" using ok by (simp add: p_def)
  have nl: "n \<le> length (rb_buf rb)" using ok assms(2) by simp
  show c: "cap rb' = cap rb" "used rb' = used rb" by (simp_all add: rb'_def cap_def used_def)
  have r': "rb_r rb' = rb_r rb" by (simp add: rb'_def)
  have l: "length (rb_buf rb') = cap rb" using ring_put_length[OF pl nl assms(3)] ok by (simp add: rb'_def)
  show "rb_ok rb'" using assms(1) c l by (simp add: rb_ok_def) (simp add: rb'_def)
  have pe: "p = (unat (rb_r rb) + (used rb + k)) mod cap rb"
  proof -
    have "p = (unat (rb_w rb) mod cap rb + k) mod cap rb" by (simp add: p_def mod_simps)
    also have "\<dots> = ((unat (rb_r rb) + used rb) mod cap rb + k) mod cap rb" by (simp only: write_index(2)[OF assms(1)])
    finally show ?thesis by (simp add: mod_simps add.assoc)
  qed
  note put = ring_put_nth[OF pl nl assms(3)]
  have old: "rb_buf rb' ! ((unat (rb_r rb) + i) mod cap rb) = rb_buf rb ! ((unat (rb_r rb) + i) mod cap rb)" if "i < used rb" for i
  proof -
    have "(unat (rb_r rb) + i) mod cap rb \<noteq> (p + j) mod cap rb" if "j < n" for j
    proof
      assume "(unat (rb_r rb) + i) mod cap rb = (p + j) mod cap rb"
      then have "(unat (rb_r rb) + i) mod cap rb = (unat (rb_r rb) + (used rb + k + j)) mod cap rb"
        unfolding pe by (simp add: mod_simps add.assoc)
      then have "cap rb dvd (unat (rb_r rb) + (used rb + k + j)) - (unat (rb_r rb) + i)"
        by (metis mod_eq_dvd_iff_nat add_le_cancel_left \<open>i < used rb\<close> less_imp_le_nat order_trans le_add1 add.assoc)
      then have "cap rb dvd used rb + k + j - i" by simp
      moreover have "0 < used rb + k + j - i" "used rb + k + j - i < cap rb + 1"
        using \<open>i < used rb\<close> \<open>j < n\<close> assms(2) by linarith+
      ultimately have "used rb + k + j - i = cap rb" by (metis dvd_imp_le le_antisym less_add_one less_Suc_eq_le Suc_eq_plus1)
      then show False using \<open>j < n\<close> assms(2) ok(5) \<open>i < used rb\<close> by linarith
    qed
    then show ?thesis unfolding rb'_def using put(2)[of "(unat (rb_r rb) + i) mod cap rb"] ok by simp
  qed
  then show "content rb' = content rb"
    unfolding content_def c by (intro nth_equalityI) (simp_all add: l ok mod_simps r')
  assume k: "k = 0"
  show "ring_slice (rb_buf rb') (unat (rb_r rb) mod cap rb) (used rb + n) = content rb @ take n src"
  proof (rule nth_equalityI)
    show "length (ring_slice (rb_buf rb') (unat (rb_r rb) mod cap rb) (used rb + n)) = length (content rb @ take n src)"
      using assms(3) by simp
    fix i assume "i < length (ring_slice (rb_buf rb') (unat (rb_r rb) mod cap rb) (used rb + n))"
    then have i: "i < used rb + n" by simp
    have e: "ring_slice (rb_buf rb') (unat (rb_r rb) mod cap rb) (used rb + n) ! i
      = rb_buf rb' ! ((unat (rb_r rb) + i) mod cap rb)" using i l by (simp add: mod_simps)
    show "ring_slice (rb_buf rb') (unat (rb_r rb) mod cap rb) (used rb + n) ! i = (content rb @ take n src) ! i"
    proof (cases "i < used rb")
      case True
      then show ?thesis unfolding e old[OF True] by (simp add: nth_append content_def ok mod_simps)
    next
      case False
      then obtain j where j: "i = used rb + j" "j < n" using i by (metis le_add_diff_inverse nat_add_left_cancel_less not_less)
      have "(unat (rb_r rb) + i) mod cap rb = (p + j) mod cap rb" unfolding pe k j(1) by (simp add: mod_simps add.assoc)
      then show ?thesis unfolding e using put(1)[OF j(2)] ok j by (simp add: rb'_def nth_append)
    qed
  qed
qed

subsection \<open>The interface of a bounded queue of bytes\<close>

text \<open>
  \<open>put\<close> accepts a prefix of the bytes and \<open>get\<close> returns the oldest ones; both report how many
  bytes they moved.
\<close>

type_synonym 'q put_op = "'q \<Rightarrow> u8 list \<Rightarrow> nat \<times> 'q"
type_synonym 'q get_op = "'q \<Rightarrow> nat \<Rightarrow> u8 list \<times> 'q"

text \<open>A run of puts and gets: the bytes accepted, the bytes returned and the final queue.\<close>

fun fifo_run :: "'q put_op \<Rightarrow> 'q get_op \<Rightarrow> (u8 list + nat) list \<Rightarrow> 'q \<Rightarrow> u8 list \<times> u8 list \<times> 'q" where
  "fifo_run put get [] q = ([], [], q)"
| "fifo_run put get (Inl xs # os) q =
     (let (n, q) = put q xs; (i, out, q) = fifo_run put get os q in (take n xs @ i, out, q))"
| "fifo_run put get (Inr k # os) q =
     (let (ys, q) = get q k; (i, out, q) = fifo_run put get os q in (i, ys @ out, q))"

locale byte_fifo =
  fixes inv :: "'q \<Rightarrow> bool"
    and bytes :: "'q \<Rightarrow> u8 list"
    and room :: "'q \<Rightarrow> nat"
    and put :: "'q put_op"
    and get :: "'q get_op"
  assumes put_law: "inv q \<Longrightarrow> inv (snd (put q xs)) \<and> fst (put q xs) = min (length xs) (room q)
      \<and> bytes (snd (put q xs)) = bytes q @ take (fst (put q xs)) xs
      \<and> room (snd (put q xs)) + fst (put q xs) = room q"
    and get_law: "inv q \<Longrightarrow> inv (snd (get q n)) \<and> fst (get q n) = take n (bytes q)
      \<and> bytes (snd (get q n)) = drop n (bytes q)
      \<and> room (snd (get q n)) = room q + length (fst (get q n))"
begin

lemma run_fifo:
  "inv q \<Longrightarrow> (case fifo_run put get os q of (i, out, q') \<Rightarrow> inv q' \<and> out @ bytes q' = bytes q @ i
     \<and> length (bytes q') + room q' = length (bytes q) + room q)"
proof (induction os arbitrary: q)
  case (Cons x os)
  show ?case
  proof (cases x)
    case (Inl xs)
    obtain n q1 where p: "put q xs = (n, q1)" by fastforce
    obtain i out q2 where r: "fifo_run put get os q1 = (i, out, q2)" by (metis prod_cases3)
    have "inv q1" "n = min (length xs) (room q)" "bytes q1 = bytes q @ take n xs" "room q1 + n = room q"
      using put_law[OF Cons.prems, of xs] p by simp_all
    then show ?thesis using Cons.IH[of q1] Inl p r by simp
  next
    case (Inr k)
    obtain ys q1 where p: "get q k = (ys, q1)" by fastforce
    obtain i out q2 where r: "fifo_run put get os q1 = (i, out, q2)" by (metis prod_cases3)
    have g: "inv q1" "ys = take k (bytes q)" "bytes q1 = drop k (bytes q)" "room q1 = room q + length ys"
      using get_law[OF Cons.prems, of k] p by simp_all
    then have "bytes q = ys @ bytes q1" by simp
    then show ?thesis using Cons.IH[of q1] Inr p r g by simp
  qed
qed simp

end

subsection \<open>The operations\<close>

text \<open>Clipping a requested length at a bound: a negative request moves nothing.\<close>

definition clip :: "int \<Rightarrow> nat \<Rightarrow> nat" where
  "clip len bound = nat (min len (int bound))"

lemma clip_word:
  fixes len f :: "32 word"
  assumes "sint f = int F"
  defines "x \<equiv> (if sint len > sint f then f else len)"
  shows "sint x \<le> 0 \<Longrightarrow> clip (sint len) F = 0" "\<not> sint x \<le> 0 \<Longrightarrow> unat x = clip (sint len) F"
    "clip (sint len) F \<le> F"
  using unat_nonneg[of x] assms(1) by (auto simp: x_def clip_def split: if_splits)

lemma index_mod:
  assumes "rb_ok rb"
  shows "unat (x mod rb_size rb) = unat x mod cap rb"
    "unat (rb_size rb - x mod rb_size rb) = cap rb - unat x mod cap rb"
proof -
  show m: "unat (x mod rb_size rb) = unat x mod cap rb" by (simp add: unat32_mod cap_def)
  have "unat x mod cap rb \<le> cap rb" using rb_okD(1)[OF assms] by (simp add: less_imp_le)
  then show "unat (rb_size rb - x mod rb_size rb) = cap rb - unat x mod cap rb"
    using unat32_sub[of "x mod rb_size rb" "rb_size rb"] m by (simp add: cap_def)
qed

lemma write_effect:
  assumes "rb_ok rb" "sint len \<le> int (length data)"
  defines "n \<equiv> clip (sint len) (cap rb - used rb)"
  shows "\<exists>wl rb'. eh_ringbuf_write rb data len = (wl, rb') \<and> unat wl = n \<and> rb_ok rb'
    \<and> content rb' = content rb @ take n data \<and> used rb' = used rb + n \<and> cap rb' = cap rb"
proof -
  let ?f = "eh_ringbuf_free_size rb"
  let ?wl = "if sint len > sint ?f then ?f else len"
  note c = clip_word[OF eh_ringbuf_size_eq(4)[OF assms(1)], of len, folded n_def]
  show ?thesis
  proof (cases "sint ?wl \<le> 0")
    case True
    then show ?thesis using c(1) assms(1) unfolding eh_ringbuf_write_def Let_def by simp
  next
    case False
    let ?p = "unat (rb_w rb) mod cap rb"
    have u: "unat ?wl = n" by (rule c(2)[OF False])
    have nl: "n \<le> length data" using assms(2) by (auto simp: n_def clip_def)
    define rb1 where "rb1 = rb\<lparr>rb_buf := ring_put (rb_buf rb) ?p (cap rb - ?p) data n\<rparr>"
    note p = put_effect[OF assms(1), of 0 n data, simplified, OF c(3) nl, folded rb1_def]
    define rb2 where "rb2 = rb1\<lparr>rb_w := eh_ringbuf_fix rb1 (rb_w rb1 + ?wl)\<rparr>"
    have f: "unat ?wl \<le> cap rb1 - used rb1" unfolding u p(3,4) by (rule c(3))
    note s = skip_write[OF p(1) f, folded rb2_def]
    have e: "eh_ringbuf_write rb data len = (?wl, rb2)"
      unfolding eh_ringbuf_write_def Let_def if_not_P[OF False] index_mod[OF assms(1)] u rb2_def rb1_def
      by (simp add: eh_ringbuf_fix_def)
    have "content rb2 = ring_slice (rb_buf rb1) (unat (rb_r rb) mod cap rb) (used rb + n)"
      unfolding content_def s(2,3) p(3,4) u by (simp add: rb2_def rb1_def)
    moreover have "rb_buf rb1 = ring_put (rb_buf rb) ?p (cap rb - ?p) data n" by (simp add: rb1_def)
    ultimately show ?thesis using e u s p by simp
  qed
qed

lemma read_effect:
  assumes "rb_ok rb" "sint len \<le> int (length dst)"
  defines "n \<equiv> clip (sint len) (used rb)"
  shows "\<exists>rl rb'. eh_ringbuf_read rb dst len = (rl, take n (content rb) @ drop n dst, rb') \<and> unat rl = n \<and> rb_ok rb'
    \<and> content rb' = drop n (content rb) \<and> used rb' = used rb - n \<and> cap rb' = cap rb"
proof -
  let ?s = "eh_ringbuf_size rb"
  let ?rl = "if sint len > sint ?s then ?s else len"
  note ok = rb_okD[OF assms(1)]
  note c = clip_word[OF eh_ringbuf_size_eq(2)[OF assms(1)], of len, folded n_def]
  show ?thesis
  proof (cases "sint ?rl \<le> 0")
    case True
    then show ?thesis using c(1) assms(1) unfolding eh_ringbuf_read_def Let_def by simp
  next
    case False
    let ?p = "unat (rb_r rb) mod cap rb"
    have u: "unat ?rl = n" by (rule c(2)[OF False])
    have nl: "n \<le> length dst" using assms(2) by (auto simp: n_def clip_def)
    have f: "unat ?rl \<le> used rb" unfolding u by (rule c(3))
    note s = skip_read[OF assms(1) f]
    have "ring_get (rb_buf rb) ?p (cap rb - ?p) dst n = ring_slice (rb_buf rb) ?p n @ drop n dst"
      using ring_get_slice[of ?p "rb_buf rb" n dst] ok c(3) nl by simp
    also have "ring_slice (rb_buf rb) ?p n = take n (content rb)"
      unfolding content_def by (rule take_ring_slice[OF c(3), symmetric])
    finally have g: "ring_get (rb_buf rb) ?p (cap rb - ?p) dst n = take n (content rb) @ drop n dst" .
    have "eh_ringbuf_read rb dst len = (?rl, take n (content rb) @ drop n dst, rb\<lparr>rb_r := eh_ringbuf_fix rb (rb_r rb + ?rl)\<rparr>)"
      unfolding eh_ringbuf_read_def Let_def if_not_P[OF False] index_mod[OF assms(1)] u g by (rule refl)
    then show ?thesis using u s by simp
  qed
qed

lemma clear_effect:
  assumes "rb_ok rb"
  shows "rb_ok (eh_ringbuf_clear rb)" "content (eh_ringbuf_clear rb) = []"
    "rb_ok (eh_ringbuf_reset rb)" "content (eh_ringbuf_reset rb) = []"
  using rb_okD[OF assms]
  by (simp_all add: eh_ringbuf_clear_def eh_ringbuf_reset_def rb_ok_def cap_def used_def content_def ring_slice_def)

lemma read_skip_effect:
  fixes len :: i32
  assumes "rb_ok rb"
  defines "n \<equiv> clip (sint len) (used rb)"
  shows "\<exists>rl rb'. eh_ringbuf_read_skip rb len = (rl, rb') \<and> unat rl = n \<and> rb_ok rb' \<and> content rb' = drop n (content rb)"
proof -
  let ?s = "eh_ringbuf_size rb"
  let ?rl = "if sint len > sint ?s then ?s else len"
  note c = clip_word[OF eh_ringbuf_size_eq(2)[OF assms(1)], of len, folded n_def]
  show ?thesis
  proof (cases "sint ?rl \<le> 0")
    case True
    then show ?thesis using c(1) assms(1) unfolding eh_ringbuf_read_skip_def Let_def by simp
  next
    case False
    have u: "unat ?rl = n" by (rule c(2)[OF False])
    have "unat ?rl \<le> used rb" unfolding u by (rule c(3))
    then show ?thesis using skip_read(1,4)[OF assms(1), of ?rl] u
      unfolding eh_ringbuf_read_skip_def Let_def if_not_P[OF False] by simp
  qed
qed

subsection \<open>The ring buffer is a bounded queue of bytes\<close>

definition room :: "ringbuf \<Rightarrow> nat" where
  "room rb = cap rb - used rb"

text \<open>Calls with all bytes of a list, and with a buffer of the requested length; a length is at most
  \<open>INT32_MAX\<close>.\<close>

definition rb_put :: "ringbuf put_op" where
  "rb_put rb xs =
     (let (wl, rb) = eh_ringbuf_write rb xs (word_of_nat (min (length xs) (2 ^ 31 - 1))) in (unat wl, rb))"

definition rb_get :: "ringbuf get_op" where
  "rb_get rb n =
     (let n = min n (2 ^ 31 - 1);
          (rl, dst, rb) = eh_ringbuf_read rb (replicate n 0) (word_of_nat n)
      in (take (unat rl) dst, rb))"

lemma sint_of_nat: "sint (word_of_nat (min n (2 ^ 31 - 1)) :: 32 word) = int (min n (2 ^ 31 - 1))"
proof -
  have u: "unat (word_of_nat (min n (2 ^ 31 - 1)) :: 32 word) = min n (2 ^ 31 - 1)"
    by (simp add: unat_of_nat)
  show ?thesis using sint_small[of "word_of_nat (min n (2 ^ 31 - 1))"] unfolding u by simp
qed

lemma clip_nat:
  assumes "b \<le> 2 ^ 30"
  shows "clip (int (min n (2 ^ 31 - 1))) b = min n b"
  using assms by (auto simp: clip_def min_def)

interpretation ringq: byte_fifo rb_ok content room rb_put rb_get
proof
  fix rb and xs :: "u8 list" assume ok: "rb_ok rb"
  note o = rb_okD[OF ok]
  let ?l = "word_of_nat (min (length xs) (2 ^ 31 - 1)) :: 32 word"
  have r: "clip (sint ?l) (cap rb - used rb) = min (length xs) (room rb)"
    unfolding sint_of_nat room_def by (rule clip_nat) (use o in simp)
  have le: "sint ?l \<le> int (length xs)" unfolding sint_of_nat by simp
  obtain wl rb' where e: "eh_ringbuf_write rb xs ?l = (wl, rb')" "unat wl = min (length xs) (room rb)" "rb_ok rb'"
      "content rb' = content rb @ take (min (length xs) (room rb)) xs" "used rb' = used rb + min (length xs) (room rb)"
      "cap rb' = cap rb" using write_effect[OF ok le] unfolding r by blast
  have p: "rb_put rb xs = (min (length xs) (room rb), rb')" unfolding rb_put_def e(1) by (simp add: e(2))
  show "rb_ok (snd (rb_put rb xs)) \<and> fst (rb_put rb xs) = min (length xs) (room rb)
      \<and> content (snd (rb_put rb xs)) = content rb @ take (fst (rb_put rb xs)) xs
      \<and> room (snd (rb_put rb xs)) + fst (rb_put rb xs) = room rb"
    unfolding p using e(3,4) by (simp add: room_def e(5,6))
next
  fix rb and n :: nat assume ok: "rb_ok rb"
  note o = rb_okD[OF ok]
  let ?m = "min n (2 ^ 31 - 1)"
  have r: "clip (sint (word_of_nat ?m :: 32 word)) (used rb) = min n (used rb)"
    unfolding sint_of_nat by (rule clip_nat) (use o in simp)
  have le: "sint (word_of_nat ?m :: 32 word) \<le> int (length (replicate ?m (0 :: u8)))" unfolding sint_of_nat by simp
  obtain rl rb' where e: "eh_ringbuf_read rb (replicate ?m 0) (word_of_nat ?m)
      = (rl, take (min n (used rb)) (content rb) @ drop (min n (used rb)) (replicate ?m 0), rb')"
      "unat rl = min n (used rb)" "rb_ok rb'" "content rb' = drop (min n (used rb)) (content rb)"
      "used rb' = used rb - min n (used rb)" "cap rb' = cap rb" using read_effect[OF ok le] unfolding r by blast
  have t: "take (min n (used rb)) (content rb) = take n (content rb)" "drop (min n (used rb)) (content rb) = drop n (content rb)"
    by (simp_all add: min_def)
  have p: "rb_get rb n = (take n (content rb), rb')"
    unfolding rb_get_def Let_def e(1) by (simp add: e(2) t(1))
  show "rb_ok (snd (rb_get rb n)) \<and> fst (rb_get rb n) = take n (content rb)
      \<and> content (snd (rb_get rb n)) = drop n (content rb)
      \<and> room (snd (rb_get rb n)) = room rb + length (fst (rb_get rb n))"
    unfolding p using e(3,4) o by (simp add: room_def e(5,6) t(2))
qed

lemma create_ok:
  assumes "0 < sint sz" "unat sz \<le> 2 ^ 30" "length mem = unat sz"
  shows "\<exists>rb. eh_ringbuf_create sz True mem = Inr rb \<and> rb_ok rb \<and> content rb = [] \<and> cap rb = unat sz"
proof -
  have "0 < unat sz" using assms(1) by (metis gr0I signed_0 less_irrefl unat_eq_0)
  then show ?thesis using assms by (auto simp: eh_ringbuf_create_def rb_ok_def cap_def used_def content_def ring_slice_def)
qed



text \<open>
  Peeking reads without moving the indices. For an offset and a length inside the
  content, \<open>eh_ringbuf_peek\<close> returns a pointer into the ring where at least the requested and at
  most the stored bytes follow in one piece, or copies the requested bytes to the caller's buffer;
  when fewer bytes are stored it returns \<open>NULL\<close>. \<open>eh_ringbuf_peek_copy\<close> always copies.
\<close>

theorem ringbuf_peek_spec:
  assumes "rb_ok rb" "0 \<le> sint offset" "sint offset \<le> int (used rb)" "0 \<le> sint len" "unat len \<le> length dst"
  shows "if used rb - unat offset < unat len
    then eh_ringbuf_peek rb offset dst len = (PeekNull, dst, len) \<and> eh_ringbuf_peek_copy rb offset dst len = (0, dst)
    else (case eh_ringbuf_peek rb offset dst len of
        (PeekNull, _, _) \<Rightarrow> False
      | (PeekInner p, dst', len') \<Rightarrow> dst' = dst \<and> unat len \<le> unat len' \<and> unat len' \<le> used rb - unat offset
          \<and> take (unat len') (drop p (rb_buf rb)) = take (unat len') (drop (unat offset) (content rb))
      | (PeekBuf, dst', len') \<Rightarrow> len' = len
          \<and> dst' = take (unat len) (drop (unat offset) (content rb)) @ drop (unat len) dst)
     \<and> eh_ringbuf_peek_copy rb offset dst len
        = (len, take (unat len) (drop (unat offset) (content rb)) @ drop (unat len) dst)"
proof -
  note ok = rb_okD[OF assms(1)]
  define off where "off = unat offset"
  define n where "n = unat len"
  have off: "off \<le> used rb" "sint offset = int off" using unat_nonneg[OF assms(2)] assms(2,3) by (simp_all add: off_def)
  have n: "sint len = int n" using unat_nonneg[OF assms(4)] assms(4) by (simp add: n_def)
  have su: "unat (eh_ringbuf_size rb - offset) = used rb - off"
    using unat32_sub[of offset "eh_ringbuf_size rb"] off(1) eh_ringbuf_size_eq(1)[OF assms(1)] by (simp add: off_def)
  have ss: "sint (eh_ringbuf_size rb - offset) = int (used rb - off)"
    using sint_small[of "eh_ringbuf_size rb - offset"] su ok by simp
  define p where "p = (unat (rb_r rb) + off) mod cap rb"
  have ro: "unat (rb_r rb + offset) = unat (rb_r rb) + off"
    using unat32_add[of "rb_r rb" offset] ok off(1) by (simp add: off_def)
  have pw: "unat ((rb_r rb + offset) mod rb_size rb) = p" "unat (rb_size rb - (rb_r rb + offset) mod rb_size rb) = cap rb - p"
    using index_mod[OF assms(1), of "rb_r rb + offset"] unfolding ro p_def by simp_all
  have pl: "p < cap rb" using ok by (simp add: p_def)
  have sf: "sint (rb_size rb - (rb_r rb + offset) mod rb_size rb) = int (cap rb - p)"
    using sint_small[of "rb_size rb - (rb_r rb + offset) mod rb_size rb"] pw(2) ok by simp
  have dc: "drop off (content rb) = ring_slice (rb_buf rb) p (used rb - off)"
    unfolding content_def drop_ring_slice[OF off(1)] p_def by (simp add: ok mod_simps)
  show ?thesis
  proof (cases "used rb - off < n")
    case True
    then have "sint (eh_ringbuf_size rb - offset) < sint len" by (simp add: ss n)
    then show ?thesis
      using True unfolding eh_ringbuf_peek_def eh_ringbuf_peek_copy_def Let_def off_def[symmetric] n_def[symmetric] by simp
  next
    case False
    then have nlt: "\<not> sint (eh_ringbuf_size rb - offset) < sint len" by (simp add: ss n)
    have g: "ring_get (rb_buf rb) p (cap rb - p) dst n = take n (drop off (content rb)) @ drop n dst"
      unfolding dc using ring_get_slice[of p "rb_buf rb" n dst] pl ok False assms(5)
      by (simp add: n_def take_ring_slice)
    have copy: "eh_ringbuf_peek_copy rb offset dst len = (len, take n (drop off (content rb)) @ drop n dst)"
      unfolding eh_ringbuf_peek_copy_def Let_def if_not_P[OF nlt] pw n_def[symmetric] g by (rule refl)
    show ?thesis
    proof (cases "n \<le> cap rb - p")
      case inner: True
      let ?l = "if sint (eh_ringbuf_size rb - offset) > sint (rb_size rb - (rb_r rb + offset) mod rb_size rb)
        then rb_size rb - (rb_r rb + offset) mod rb_size rb else eh_ringbuf_size rb - offset"
      have l: "unat ?l = min (used rb - off) (cap rb - p)" unfolding ss sf using su pw(2) by (simp add: min_def)
      have "sint len \<le> sint (rb_size rb - (rb_r rb + offset) mod rb_size rb)" using inner n sf by simp
      then have e: "eh_ringbuf_peek rb offset dst len = (PeekInner p, dst, ?l)"
        unfolding eh_ringbuf_peek_def Let_def if_not_P[OF nlt] pw by (simp only: if_True)
      have "take (unat ?l) (drop p (rb_buf rb)) = take (unat ?l) (drop off (content rb))"
        unfolding dc l
      proof (rule nth_equalityI)
        fix i assume "i < length (take (min (used rb - off) (cap rb - p)) (drop p (rb_buf rb)))"
        then have i: "i < used rb - off" "p + i < cap rb" by auto
        then show "take (min (used rb - off) (cap rb - p)) (drop p (rb_buf rb)) ! i =
            take (min (used rb - off) (cap rb - p)) (ring_slice (rb_buf rb) p (used rb - off)) ! i"
          using ok by simp
      qed (simp add: ok)
      then show ?thesis using e copy False inner l off_def n_def by simp
    next
      case outer: False
      then have "\<not> sint len \<le> sint (rb_size rb - (rb_r rb + offset) mod rb_size rb)" by (simp add: n sf)
      then have "eh_ringbuf_peek rb offset dst len = (PeekBuf, take n (drop off (content rb)) @ drop n dst, len)"
        unfolding eh_ringbuf_peek_def Let_def if_not_P[OF nlt] pw n_def[symmetric] g by (simp only: if_False)
      then show ?thesis using copy False off_def n_def by simp
    qed
  qed
qed

definition ring_demo :: ringbuf where
  "ring_demo = \<lparr>rb_w = 6, rb_r = 3, rb_size = 4, rb_buf = [40, 50, 9, 30]\<rparr>"

lemma ring_demo_ok: "rb_ok ring_demo" "used ring_demo = 3" "content ring_demo = [30, 40, 50]"
  by (simp_all add: rb_ok_def cap_def used_def ring_demo_def content_def ring_slice_def upt_rec)

lemma ringbuf_peek_spec_witness: "eh_ringbuf_peek_copy ring_demo 1 [0, 0] 2 = (2, [40, 50])"
  using ringbuf_peek_spec[OF ring_demo_ok(1), of 1 2 "[0, 0]"] by (simp add: ring_demo_ok)

text \<open>
  C19. A draft is invisible until it is committed: \<open>eh_ringbuf_draft_write\<close> inside the free
  room changes neither the content nor the indices, and drafting bytes at the write position and then
  skipping over them with \<open>eh_ringbuf_write_skip\<close> is \<open>eh_ringbuf_write\<close>.
\<close>

theorem ringbuf_draft_spec:
  assumes "rb_ok rb" "0 \<le> sint offset" "sint offset \<le> int (room rb)" "sint len \<le> int (length data)"
  shows "(case eh_ringbuf_draft_write rb offset data len of (n, rb') \<Rightarrow>
        rb_ok rb' \<and> content rb' = content rb \<and> unat n = clip (sint len) (room rb - unat offset)
        \<and> rb_w rb' = rb_w rb \<and> rb_r rb' = rb_r rb)
    \<and> eh_ringbuf_write rb data len
       = (case eh_ringbuf_draft_write rb 0 data len of (n, rb') \<Rightarrow> eh_ringbuf_write_skip rb' n)"
proof
  note ok = rb_okD[OF assms(1)]
  define off where "off = unat offset"
  have off: "off \<le> cap rb - used rb" "sint offset = int off"
    using unat_nonneg[OF assms(2)] assms(2,3) by (simp_all add: off_def room_def)
  let ?f = "eh_ringbuf_free_size rb - offset"
  have fu: "unat ?f = cap rb - used rb - off"
    using unat32_sub[of offset "eh_ringbuf_free_size rb"] off(1) eh_ringbuf_size_eq(3)[OF assms(1)] by (simp add: off_def)
  have fs: "sint ?f = int (room rb - off)"
    using sint_small[of ?f] fu ok by (simp add: room_def)
  let ?wl = "if sint len > sint ?f then ?f else len"
  note c = clip_word[OF fs, of len]
  show "case eh_ringbuf_draft_write rb offset data len of (n, rb') \<Rightarrow>
        rb_ok rb' \<and> content rb' = content rb \<and> unat n = clip (sint len) (room rb - unat offset)
        \<and> rb_w rb' = rb_w rb \<and> rb_r rb' = rb_r rb"
  proof (cases "sint ?wl \<le> 0")
    case True
    have "eh_ringbuf_draft_write rb offset data len = (0, rb)"
      unfolding eh_ringbuf_draft_write_def Let_def by (rule if_P[OF True])
    then show ?thesis using c(1)[OF True] assms(1) by (simp add: off_def)
  next
    case False
    define n where "n = clip (sint len) (room rb - off)"
    have u: "unat ?wl = n" unfolding n_def by (rule c(2)[OF False])
    let ?p = "(unat (rb_w rb) + off) mod cap rb"
    have wo: "unat (rb_w rb + offset) = unat (rb_w rb) + off"
      using unat32_add[of "rb_w rb" offset] ok off(1) by (simp add: off_def)
    note i = index_mod[OF assms(1), of "rb_w rb + offset", unfolded wo]
    have k: "off + n \<le> cap rb - used rb" "n \<le> length data"
      using c(3) off(1) assms(4) by (auto simp: n_def room_def clip_def)
    have "eh_ringbuf_draft_write rb offset data len
        = (?wl, rb\<lparr>rb_buf := ring_put (rb_buf rb) ?p (cap rb - ?p) data n\<rparr>)"
      unfolding eh_ringbuf_draft_write_def Let_def if_not_P[OF False] i u by (rule refl)
    then show ?thesis using put_effect(1,2)[OF assms(1) k] u by (simp add: n_def off_def)
  qed
  show "eh_ringbuf_write rb data len
       = (case eh_ringbuf_draft_write rb 0 data len of (n, rb') \<Rightarrow> eh_ringbuf_write_skip rb' n)"
    by (auto simp: eh_ringbuf_write_def eh_ringbuf_draft_write_def eh_ringbuf_write_skip_def
        eh_ringbuf_free_size_def eh_ringbuf_fix_def Let_def)
qed

lemma ringbuf_draft_spec_witness:
  "eh_ringbuf_write ring_demo [7, 8] 2
     = (case eh_ringbuf_draft_write ring_demo 0 [7, 8] 2 of (n, rb') \<Rightarrow> eh_ringbuf_write_skip rb' n)"
  using ringbuf_draft_spec[OF ring_demo_ok(1), of 1 2 "[7, 8]"] by (simp add: room_def ring_demo_ok) (simp add: cap_def ring_demo_def)

text \<open>
  The bound on the size is needed: \<open>eh_ringbuf_create\<close> accepts a size above \<open>2 ^ 30\<close>, but
  then the difference of the indices no longer fits: with size \<open>2 ^ 31 - 1\<close>, one stored byte, the
  read index at the last position and the write index wrapped to 0, \<open>eh_ringbuf_size\<close> is 3.
\<close>

theorem ringbuf_large_size:
  "\<exists>rb. eh_ringbuf_create 2147483647 True mem = Inr rb
     \<and> (let rb' = rb\<lparr>rb_w := 0, rb_r := 4294967293\<rparr> in
         eh_ringbuf_fix rb' (rb_r rb' + 1) = rb_w rb' \<and> used rb' = 1 \<and> eh_ringbuf_size rb' = 3)"
  by (simp add: eh_ringbuf_create_def used_def cap_def eh_ringbuf_size_def eh_ringbuf_fix_def)

end
