(* ===== verification/Eh_Hashtbl.thy ===== *)
theory Eh_Hashtbl
  imports Eh_Prelude Complex_Main
begin

text \<open>
  The hash table of \<^verbatim>\<open>src/src/general/eh_hashtbl.c\<close>. The number of buckets is a power of
  two; when it doubles, the new buckets are marked as "need remake" and filled on the first access
  (incremental rehashing). A bucket is an intrusive list, here the list of its nodes; \<open>None\<close> is a
  bucket whose \<open>next\<close> pointer is \<open>NULL\<close>, which needs remaking. Hash values, the mask and the
  counters are 32-bit words, key and value lengths 16-bit words.
\<close>

subsection \<open>The state\<close>

definition EH_CONFIG_HASHTBL_MIN_SIZE :: nat where "EH_CONFIG_HASHTBL_MIN_SIZE = 16"

record hash_node =
  hash_val :: u32
  value_len :: u16
  key_len :: u16
  key :: "u8 list"
  node_linked :: bool

record hashtbl =
  table :: "nat \<Rightarrow> ptr list option"
  tbl_mask :: u32
  threshold :: u32
  count :: u32
  nodes :: "ptr \<Rightarrow> hash_node"
  node_freed :: "ptr list"

abbreviation update_node :: "ptr \<Rightarrow> (hash_node \<Rightarrow> hash_node) \<Rightarrow> hashtbl \<Rightarrow> hashtbl" where
  "update_node n f t \<equiv> t\<lparr>nodes := (nodes t)(n := f (nodes t n))\<rparr>"

definition eh_hash_table_node_is_need_remake :: "hashtbl \<Rightarrow> nat \<Rightarrow> bool" where
  "eh_hash_table_node_is_need_remake t idx \<longleftrightarrow> table t idx = None"

definition eh_hashtbl_node_is_insert :: "hashtbl \<Rightarrow> ptr \<Rightarrow> bool" where
  "eh_hashtbl_node_is_insert t n \<longleftrightarrow> node_linked (nodes t n)"

subsection \<open>The hash function\<close>

definition FNV_OFFSET_BASIS_32 :: u32 where "FNV_OFFSET_BASIS_32 = 2166136261"
definition FNV_PRIME_32 :: u32 where "FNV_PRIME_32 = 16777619"

definition fnv1a :: "u8 list \<Rightarrow> u32" where
  "fnv1a data = foldl (\<lambda>h b. (h XOR ucast b) * FNV_PRIME_32) FNV_OFFSET_BASIS_32 data"

text \<open>A string ends at its first null byte; the length is cut to 16 bits.\<close>

definition fnv1a_str :: "u8 list \<Rightarrow> u32 \<times> u16" where
  "fnv1a_str str = (let s = takeWhile (\<lambda>b. b \<noteq> 0) str in (fnv1a s, word_of_nat (length s)))"

subsection \<open>Growing and remaking\<close>

text \<open>
  The list heads of the old table are copied, those of the new half are \<open>NULL\<close>. The size of the
  allocation, \<open>new_mask + 1\<close>, does not wrap around for a mask below \<open>2 ^ 31 - 1\<close>; larger tables are left out.
\<close>

definition eh_hashtbl_resize :: "bool \<Rightarrow> hashtbl \<Rightarrow> int \<times> hashtbl" where
  "eh_hashtbl_resize alloc t =
     (let old_size = tbl_mask t + 1;
          new_mask = push_bit 1 (tbl_mask t) + 1
      in if \<not> alloc then (EH_RET_MALLOC_ERROR, t)
         else (EH_RET_OK,
               t\<lparr>table := (\<lambda>i. if i < unat old_size then table t i else None), tbl_mask := new_mask,
                 threshold := push_bit 1 (threshold t)\<rparr>))"

text \<open>The smaller mask under which the bucket of \<open>idx\<close> is made.\<close>

function remake_mask :: "(nat \<Rightarrow> ptr list option) \<Rightarrow> u32 \<Rightarrow> u32 \<Rightarrow> u32" where
  "remake_mask tb idx m =
     (if m \<noteq> 0 \<and> tb (unat (idx AND m)) = None then remake_mask tb idx (drop_bit 1 m) else m)"
  by auto
termination
proof (relation "measure (\<lambda>(_, _, m). unat m)")
  fix tb :: "nat \<Rightarrow> ptr list option" and idx m :: u32
  assume "m \<noteq> 0 \<and> tb (unat (idx AND m)) = None"
  then have "0 < unat m" by (simp add: unat_gt_0)
  then show "((tb, idx, drop_bit 1 m), tb, idx, m) \<in> measure (\<lambda>(_, _, m). unat m)"
    by (simp add: drop_bit_eq_div unat_div)
qed simp

declare remake_mask.simps [simp del]

text \<open>Moving a node of the old bucket to its bucket, which is initialised if needed.\<close>

definition remake_move :: "nat \<Rightarrow> ptr \<Rightarrow> hashtbl \<Rightarrow> hashtbl" where
  "remake_move old_idx n t =
     (let new_idx = unat (hash_val (nodes t n) AND tbl_mask t)
      in if new_idx \<noteq> old_idx
         then let t = t\<lparr>table := (table t)(old_idx := map_option (remove1 n) (table t old_idx))\<rparr>;
                  t = (if eh_hash_table_node_is_need_remake t new_idx
                       then t\<lparr>table := (table t)(new_idx := Some [])\<rparr> else t)
              in t\<lparr>table := (table t)(new_idx := map_option ((#) n) (table t new_idx))\<rparr>
         else t)"

definition eh_hashtbl_try_remake :: "hashtbl \<Rightarrow> u32 \<Rightarrow> hashtbl" where
  "eh_hashtbl_try_remake t idx =
     (if eh_hash_table_node_is_need_remake t (unat idx)
      then let mask_tmp = remake_mask (table t) idx (drop_bit 1 (tbl_mask t));
               old_idx = unat (idx AND mask_tmp);
               t = fold (remake_move old_idx) (case table t old_idx of None \<Rightarrow> [] | Some l \<Rightarrow> l) t
           in if eh_hash_table_node_is_need_remake t (unat idx)
              then t\<lparr>table := (table t)(unat idx := Some [])\<rparr> else t
      else t)"

subsection \<open>Nodes\<close>

text \<open>
  A new node at the address \<open>p\<close> that the allocation returned (\<open>NULL\<close> is 0). The hash value and
  the key of \<open>eh_hashtbl_node_new\<close> are what the memory held.
\<close>

definition eh_hashtbl_node_new :: "ptr \<Rightarrow> u16 \<Rightarrow> u16 \<Rightarrow> hashtbl \<Rightarrow> ptr \<times> hashtbl" where
  "eh_hashtbl_node_new p klen vlen t =
     (if p = NULL then (NULL, t)
      else (p, update_node p (\<lambda>n. n\<lparr>node_linked := False, value_len := vlen, key_len := klen\<rparr>) t))"

definition eh_hashtbl_node_new_refresh :: "ptr \<Rightarrow> u8 list \<Rightarrow> u16 \<Rightarrow> u16 \<Rightarrow> hashtbl \<Rightarrow> ptr \<times> hashtbl" where
  "eh_hashtbl_node_new_refresh p k klen vlen t =
     (if p = NULL then (NULL, t)
      else (p, update_node p (\<lambda>_. \<lparr>hash_val = fnv1a (take (unat klen) k), value_len = vlen, key_len = klen,
                                   key = take (unat klen) k, node_linked = False\<rparr>) t))"

definition eh_hashtbl_node_new_with_string_refresh :: "ptr \<Rightarrow> u8 list \<Rightarrow> u16 \<Rightarrow> hashtbl \<Rightarrow> ptr \<times> hashtbl" where
  "eh_hashtbl_node_new_with_string_refresh p str vlen t =
     (let (hv, klen) = fnv1a_str str
      in if p = NULL then (NULL, t)
         else (p, update_node p (\<lambda>_. \<lparr>hash_val = hv, value_len = vlen, key_len = klen,
                                      key = take (unat klen) str, node_linked = False\<rparr>) t))"

text \<open>The new node takes the place of the old one in its list.\<close>

definition eh_hashtbl_node_renew :: "ptr \<Rightarrow> ptr \<Rightarrow> u16 \<Rightarrow> hashtbl \<Rightarrow> ptr \<times> hashtbl" where
  "eh_hashtbl_node_renew p old vlen t =
     (if value_len (nodes t old) = vlen then (old, t)
      else if p = NULL then (NULL, t)
      else let o_node = nodes t old;
               t = update_node p (\<lambda>_. \<lparr>hash_val = hash_val o_node, value_len = vlen, key_len = key_len o_node,
                                       key = key o_node, node_linked = node_linked o_node\<rparr>) t;
               t = (if node_linked o_node
                    then t\<lparr>table := (\<lambda>i. map_option (map (\<lambda>n. if n = old then p else n)) (table t i))\<rparr> else t)
           in (p, t\<lparr>node_freed := old # node_freed t\<rparr>))"

text \<open>Unlinking a node from the list it is on.\<close>

definition hash_unlink :: "ptr \<Rightarrow> hashtbl \<Rightarrow> hashtbl" where
  "hash_unlink n t = t\<lparr>table := (\<lambda>i. map_option (remove1 n) (table t i))\<rparr>"

text \<open>Adding in front of a bucket that needs remaking dereferences \<open>NULL\<close>: there is no result.\<close>

definition bucket_add :: "ptr \<Rightarrow> nat \<Rightarrow> hashtbl \<Rightarrow> hashtbl option" where
  "bucket_add n idx t =
     (case table t idx of
        None \<Rightarrow> None
      | Some l \<Rightarrow> Some (update_node n (\<lambda>x. x\<lparr>node_linked := True\<rparr>) (t\<lparr>table := (table t)(idx := Some (n # l))\<rparr>)))"

definition eh_hashtbl_node_key_refresh :: "ptr \<Rightarrow> hashtbl \<Rightarrow> hashtbl option" where
  "eh_hashtbl_node_key_refresh n t =
     (let t = update_node n (\<lambda>x. x\<lparr>hash_val := fnv1a (take (unat (key_len x)) (key x))\<rparr>) t
      in if eh_hashtbl_node_is_insert t n
         then let idx = hash_val (nodes t n) AND tbl_mask t
              in bucket_add n (unat idx) (hash_unlink n t)
         else Some t)"

definition eh_hashtbl_node_delete :: "ptr \<Rightarrow> hashtbl \<Rightarrow> hashtbl" where
  "eh_hashtbl_node_delete n t =
     (let t = (if eh_hashtbl_node_is_insert t n
               then update_node n (\<lambda>x. x\<lparr>node_linked := False\<rparr>) (hash_unlink n (t\<lparr>count := count t - 1\<rparr>)) else t)
      in t\<lparr>node_freed := n # node_freed t\<rparr>)"

subsection \<open>The table\<close>

definition eh_hashtbl_insert :: "bool \<Rightarrow> ptr \<Rightarrow> hashtbl \<Rightarrow> (int \<times> hashtbl) option" where
  "eh_hashtbl_insert alloc n t =
     (if eh_hashtbl_node_is_insert t n then Some (EH_RET_EXISTS, t)
      else let (ret, t) = (if count t + 1 \<ge> threshold t \<and> tbl_mask t \<noteq> -1 then eh_hashtbl_resize alloc t
                           else (EH_RET_OK, t))
           in if ret \<noteq> EH_RET_OK then Some (ret, t)
              else let idx = hash_val (nodes t n) AND tbl_mask t;
                       t = eh_hashtbl_try_remake t idx
                   in map_option (\<lambda>t. (EH_RET_OK, t\<lparr>count := count t + 1\<rparr>)) (bucket_add n (unat idx) t))"

definition eh_hashtbl_remove :: "ptr \<Rightarrow> hashtbl \<Rightarrow> hashtbl" where
  "eh_hashtbl_remove n t =
     (if eh_hashtbl_node_is_insert t n
      then let t = update_node n (\<lambda>x. x\<lparr>node_linked := False\<rparr>) (hash_unlink n t)
           in t\<lparr>count := count t - 1\<rparr>
      else t)"

definition bucket :: "hashtbl \<Rightarrow> nat \<Rightarrow> ptr list" where
  "bucket t i = (case table t i of None \<Rightarrow> [] | Some l \<Rightarrow> l)"

definition eh_hashtbl_find_list_head :: "u8 list \<Rightarrow> hashtbl \<Rightarrow> nat \<times> hashtbl" where
  "eh_hashtbl_find_list_head k t =
     (let idx = fnv1a k AND tbl_mask t in (unat idx, eh_hashtbl_try_remake t idx))"

definition eh_hashtbl_find_list_head_with_string :: "u8 list \<Rightarrow> hashtbl \<Rightarrow> nat \<times> hashtbl" where
  "eh_hashtbl_find_list_head_with_string str t =
     (let (hv, klen) = fnv1a_str str; idx = hv AND tbl_mask t in (unat idx, eh_hashtbl_try_remake t idx))"

text \<open>\<open>out\<close> is what \<open>*out_node\<close> holds before the call.\<close>

definition node_matches :: "hashtbl \<Rightarrow> u8 list \<Rightarrow> u16 \<Rightarrow> ptr \<Rightarrow> bool" where
  "node_matches t k klen n \<longleftrightarrow> key_len (nodes t n) = klen \<and> take (unat klen) (key (nodes t n)) = take (unat klen) k"

definition eh_hashtbl_find :: "u8 list \<Rightarrow> u16 \<Rightarrow> ptr \<Rightarrow> hashtbl \<Rightarrow> int \<times> ptr \<times> hashtbl" where
  "eh_hashtbl_find k klen out t =
     (let idx = fnv1a (take (unat klen) k) AND tbl_mask t;
          t = eh_hashtbl_try_remake t idx
      in case find (node_matches t k klen) (bucket t (unat idx)) of
           None \<Rightarrow> (EH_RET_NOT_EXISTS, out, t)
         | Some n \<Rightarrow> (EH_RET_OK, n, t))"

definition eh_hashtbl_find_with_string :: "u8 list \<Rightarrow> ptr \<Rightarrow> hashtbl \<Rightarrow> int \<times> ptr \<times> hashtbl" where
  "eh_hashtbl_find_with_string str out t =
     (let (hv, klen) = fnv1a_str str;
          idx = hv AND tbl_mask t;
          t = eh_hashtbl_try_remake t idx
      in case find (node_matches t str klen) (bucket t (unat idx)) of
           None \<Rightarrow> (EH_RET_NOT_EXISTS, out, t)
         | Some n \<Rightarrow> (EH_RET_OK, n, t))"

text \<open>The load factor is a \<open>float\<close>; scaling it by a power of two is exact.\<close>

definition eh_hashtbl_create :: "bool \<Rightarrow> bool \<Rightarrow> (ptr \<Rightarrow> hash_node) \<Rightarrow> rat \<Rightarrow> int + hashtbl" where
  "eh_hashtbl_create alloc alloc_table nds load_factor =
     (if load_factor \<le> 0 then Inl EH_RET_INVALID_PARAM
      else if \<not> alloc then Inl EH_RET_MALLOC_ERROR
      else if \<not> alloc_table then Inl EH_RET_MALLOC_ERROR
      else Inr \<lparr>table = (\<lambda>i. if i < EH_CONFIG_HASHTBL_MIN_SIZE then Some [] else None),
                tbl_mask = word_of_nat EH_CONFIG_HASHTBL_MIN_SIZE - 1,
                threshold = word_of_int \<lfloor>rat_of_nat EH_CONFIG_HASHTBL_MIN_SIZE * load_factor\<rfloor>,
                count = 0, nodes = nds, node_freed = []\<rparr>)"

text \<open>The nodes in the order of \<open>eh_hashtbl_for_each_safe\<close>; destroying frees them in this order.\<close>

definition eh_hashtbl_for_each :: "hashtbl \<Rightarrow> ptr list" where
  "eh_hashtbl_for_each t = concat (map (bucket t) [0..<Suc (unat (tbl_mask t))])"

definition eh_hashtbl_destroy :: "hashtbl \<Rightarrow> ptr list" where
  "eh_hashtbl_destroy t = rev (eh_hashtbl_for_each t) @ node_freed t"

definition eh_hashtbl_for_each_with_key :: "u8 list \<Rightarrow> u16 \<Rightarrow> hashtbl \<Rightarrow> ptr list \<times> hashtbl" where
  "eh_hashtbl_for_each_with_key k len t =
     (let (head, t) = eh_hashtbl_find_list_head (take (unat len) k) t
      in (filter (node_matches t k len) (bucket t head), t))"

text \<open>\<open>strncmp\<close> over the length of the node's key: equality up to the first null byte.\<close>

fun strncmp_eq :: "u8 list \<Rightarrow> u8 list \<Rightarrow> nat \<Rightarrow> bool" where
  "strncmp_eq a b 0 = True"
| "strncmp_eq a b (Suc n) =
     (let x = (case a of [] \<Rightarrow> 0 | x # _ \<Rightarrow> x); y = (case b of [] \<Rightarrow> 0 | y # _ \<Rightarrow> y)
      in x = y \<and> (x = 0 \<or> strncmp_eq (tl a) (tl b) n))"

definition eh_hashtbl_for_each_with_string :: "u8 list \<Rightarrow> hashtbl \<Rightarrow> ptr list \<times> hashtbl" where
  "eh_hashtbl_for_each_with_string str t =
     (let (head, t) = eh_hashtbl_find_list_head_with_string str t
      in (filter (\<lambda>n. strncmp_eq (key (nodes t n)) str (unat (key_len (nodes t n)))) (bucket t head), t))"

end
