(* ===== verification/Eh_Hashtbl_Lemmas.thy ===== *)
theory Eh_Hashtbl_Lemmas
  imports Eh_Hashtbl
begin

text \<open>
  The hash table as a set of nodes with keys. \<open>home\<close> is the bucket a hash value belongs to while
  some buckets still need remaking: the first made bucket under smaller and smaller masks. The
  invariant \<open>hash_inv\<close> puts every node into its home; remaking and growing keep it.
\<close>

subsection \<open>Homes\<close>

fun lev :: "(nat \<Rightarrow> 'a option) \<Rightarrow> nat \<Rightarrow> nat \<Rightarrow> nat" where
  "lev tb h 0 = 0"
| "lev tb h (Suc k) = (if tb (h mod 2 ^ Suc k) = None then lev tb h k else Suc k)"

definition home :: "(nat \<Rightarrow> 'a option) \<Rightarrow> nat \<Rightarrow> nat \<Rightarrow> nat" where
  "home tb h k = h mod 2 ^ lev tb h k"

lemma lev_le: "lev tb h k \<le> k"
  by (induction k) (auto intro: le_SucI)

lemma home_made: "tb 0 \<noteq> None \<Longrightarrow> tb (home tb h k) \<noteq> None"
  by (induction k) (auto simp: home_def)

lemma lev_above: "lev tb h k < j \<Longrightarrow> j \<le> k \<Longrightarrow> tb (h mod 2 ^ j) = None"
proof (induction k)
  case (Suc k)
  then show ?case by (cases "j = Suc k") (auto split: if_splits)
qed simp

lemma lev_unique:
  assumes "J \<le> k" "J = 0 \<or> tb (h mod 2 ^ J) \<noteq> None" "\<And>j. J < j \<Longrightarrow> j \<le> k \<Longrightarrow> tb (h mod 2 ^ j) = None"
  shows "lev tb h k = J"
  using assms
proof (induction k)
  case (Suc k)
  show ?case
  proof (cases "J = Suc k")
    case True
    then show ?thesis using Suc.prems(2) by (auto simp del: power_Suc)
  next
    case False
    then have "J < Suc k" using Suc.prems(1) by simp
    then have "tb (h mod 2 ^ Suc k) = None" by (rule Suc.prems(3)) simp
    then show ?thesis using Suc False by (simp del: power_Suc)
  qed
qed simp

lemma mod_pow2_le: "j \<le> (k::nat) \<Longrightarrow> (h::nat) mod 2 ^ k mod 2 ^ j = h mod 2 ^ j"
  by (simp add: mod_mod_cancel le_imp_power_dvd)

lemma lev_mod: "k \<le> K \<Longrightarrow> lev tb (h mod 2 ^ K) k = lev tb h k"
  by (induction k) (simp_all add: mod_pow2_le del: power_Suc)

lemma home_mod: "home tb (h mod 2 ^ k) k = home tb h k"
  using lev_le[of tb h k] by (simp add: home_def lev_mod mod_pow2_le)

text \<open>Making buckets whose home was \<open>B\<close> moves only hash values whose home was \<open>B\<close>.\<close>

lemma home_other:
  assumes made: "\<And>i. tb' i \<noteq> None \<longleftrightarrow> tb i \<noteq> None \<or> i \<in> N"
    and N: "\<And>x. x \<in> N \<Longrightarrow> x < 2 ^ k \<and> home tb x k = B"
    and h: "home tb h k \<noteq> B" and "tb 0 \<noteq> None"
  shows "home tb' h k = home tb h k"
proof -
  define j where "j = lev tb h k"
  have "lev tb' h k = j"
  proof (rule lev_unique)
    show "j \<le> k" using lev_le by (simp add: j_def)
    show "j = 0 \<or> tb' (h mod 2 ^ j) \<noteq> None" using home_made[of tb h k] assms(4) made by (simp add: home_def j_def)
    fix j' assume j': "j < j'" "j' \<le> k"
    have un: "tb (h mod 2 ^ i) = None" if "j < i" "i \<le> k" for i using lev_above[of tb h k i] that j_def by simp
    show "tb' (h mod 2 ^ j') = None"
    proof (rule ccontr)
      assume "tb' (h mod 2 ^ j') \<noteq> None"
      then have x: "h mod 2 ^ j' \<in> N" using made un j' by blast
      let ?x = "h mod 2 ^ j'"
      have xm: "?x mod 2 ^ i = (if i \<le> j' then h mod 2 ^ i else ?x)" for i
      proof (cases "i \<le> j'")
        case False
        have "?x < 2 ^ j'" by simp
        also have "(2::nat) ^ j' \<le> 2 ^ i" using False by (intro power_increasing) auto
        finally show ?thesis using False by simp
      qed (simp add: mod_pow2_le)
      have "lev tb ?x k = j"
      proof (rule lev_unique)
        show "j \<le> k" using lev_le by (simp add: j_def)
        show "j = 0 \<or> tb (?x mod 2 ^ j) \<noteq> None"
          using home_made[of tb h k] assms(4) j' by (simp add: home_def j_def xm)
        show "tb (?x mod 2 ^ i) = None" if "j < i" "i \<le> k" for i using un that j' by (simp add: xm)
      qed
      then have "home tb ?x k = home tb h k" using j' by (simp add: home_def xm) (simp add: j_def)
      then show False using N[OF x] h by simp
    qed
  qed
  then show ?thesis by (simp add: home_def j_def)
qed

text \<open>Doubling the table with buckets that need remaking changes no home.\<close>

lemma home_double:
  assumes "\<And>i. 2 ^ k \<le> i \<Longrightarrow> tb i = None" "tb 0 \<noteq> None"
  shows "home tb h (Suc k) = home tb h k"
proof (cases "tb (h mod 2 ^ Suc k) = None")
  case True
  then show ?thesis by (simp add: home_def)
next
  case False
  have "\<not> 2 ^ k \<le> h mod 2 ^ Suc k" by (rule contrapos_nn[OF False assms(1)])
  then have "h mod 2 ^ Suc k < 2 ^ k" by (simp only: not_le)
  then have "h mod 2 ^ Suc k mod 2 ^ k = h mod 2 ^ Suc k" by (rule mod_less)
  moreover have "h mod 2 ^ Suc k mod 2 ^ k = h mod 2 ^ k" by (rule mod_pow2_le) simp
  ultimately have e: "h mod 2 ^ Suc k = h mod 2 ^ k" by (simp only:)
  have m: "tb (h mod 2 ^ k) \<noteq> None" using False unfolding e .
  have "lev tb h k = k" by (rule lev_unique) (use m in simp_all)
  moreover have "lev tb h (Suc k) = Suc k" using False by (auto simp del: power_Suc)
  ultimately show ?thesis using e by (simp only: home_def)
qed

subsection \<open>Masks\<close>

lemma unat_and_mask: "unat (h AND mask k :: 32 word) = unat h mod 2 ^ k"
  by (simp only: take_bit_eq_mask[symmetric] unsigned_take_bit_eq) (simp only: take_bit_eq_mod)

lemma drop_mask: "k \<le> 32 \<Longrightarrow> drop_bit 1 (mask k :: 32 word) = mask (k - 1)"
  by (rule bit_word_eqI) (auto simp: bit_simps)

lemma mask_nonzero: "0 < k \<Longrightarrow> (mask k :: 32 word) \<noteq> 0"
  by (metis bit_0 bit_mask_iff possible_bit_word len_gt_0 gr0_conv_Suc mask_eq_0_iff neq0_conv)

lemma remake_mask_lev:
  "k \<le> 32 \<Longrightarrow> remake_mask tb idx (mask k) = mask (lev tb (unat idx) k)"
proof (induction k)
  case 0
  then show ?case by (simp add: remake_mask.simps)
next
  case (Suc k)
  then show ?case
    using drop_mask[of "Suc k"] mask_nonzero[of "Suc k"]
    by (subst remake_mask.simps) (simp add: unat_and_mask)
qed

subsection \<open>The invariant\<close>

definition members :: "hashtbl \<Rightarrow> ptr set" where
  "members t = {n. \<exists>i. n \<in> set (bucket t i)}"

definition home_of :: "hashtbl \<Rightarrow> nat \<Rightarrow> u32 \<Rightarrow> nat" where
  "home_of t k h = home (table t) (unat h) k"

definition buckets_ok :: "nat \<Rightarrow> hashtbl \<Rightarrow> bool" where
  "buckets_ok k t \<longleftrightarrow> tbl_mask t = mask k \<and> 0 < k \<and> k \<le> 32 \<and> table t 0 \<noteq> None
     \<and> (\<forall>i. 2 ^ k \<le> i \<longrightarrow> table t i = None)
     \<and> (\<forall>i. distinct (bucket t i) \<and> (\<forall>n\<in>set (bucket t i). i = home_of t k (hash_val (nodes t n))))"

definition nodes_ok :: "hashtbl \<Rightarrow> bool" where
  "nodes_ok t \<longleftrightarrow> finite (members t) \<and> (\<forall>n. node_linked (nodes t n) \<longleftrightarrow> n \<in> members t)
     \<and> (\<forall>n\<in>members t. hash_val (nodes t n) = fnv1a (key (nodes t n)) \<and> unat (key_len (nodes t n)) = length (key (nodes t n)))
     \<and> count t = word_of_nat (card (members t))"

definition hash_inv :: "nat \<Rightarrow> hashtbl \<Rightarrow> bool" where
  "hash_inv k t \<longleftrightarrow> buckets_ok k t \<and> nodes_ok t"

text \<open>Operations that only rearrange the table.\<close>

definition retabled :: "hashtbl \<Rightarrow> hashtbl \<Rightarrow> bool" where
  "retabled t t' \<longleftrightarrow> t' = t\<lparr>table := table t'\<rparr>"

lemma retabled_simps:
  assumes "retabled t t'"
  shows "tbl_mask t' = tbl_mask t" "nodes t' = nodes t" "count t' = count t" "threshold t' = threshold t" "node_freed t' = node_freed t"
  using assms unfolding retabled_def by (metis hashtbl.select_convs hashtbl.surjective hashtbl.update_convs(1))+

lemma retabled_trans: "retabled t t' \<Longrightarrow> retabled t' t'' \<Longrightarrow> retabled t t''"
  by (cases t, cases t', cases t'') (simp add: retabled_def)

lemma retabled_update [simp]: "retabled t (t\<lparr>table := x\<rparr>)" "retabled t t"
  by (simp_all add: retabled_def)

lemma nodes_ok_retabled:
  assumes "nodes_ok t" "retabled t t'" "members t' = members t"
  shows "nodes_ok t'"
  using assms(1) retabled_simps[OF assms(2)] by (simp add: nodes_ok_def assms(3))

lemma bucket_update [simp]:
  "bucket (t\<lparr>table := tb\<rparr>) i = (case tb i of None \<Rightarrow> [] | Some l \<Rightarrow> l)"
  by (simp add: bucket_def)

subsection \<open>Remaking\<close>

definition new_idx :: "hashtbl \<Rightarrow> ptr \<Rightarrow> nat" where
  "new_idx t n = unat (hash_val (nodes t n) AND tbl_mask t)"

text \<open>The nodes \<open>xs\<close> of bucket \<open>B\<close> have moved to their places.\<close>

definition moved :: "nat \<Rightarrow> ptr list \<Rightarrow> hashtbl \<Rightarrow> hashtbl \<Rightarrow> bool" where
  "moved B xs t t' \<longleftrightarrow> retabled t t'
     \<and> (\<forall>i. table t' i \<noteq> None \<longleftrightarrow> table t i \<noteq> None \<or> (i \<noteq> B \<and> (\<exists>n\<in>set xs. new_idx t n = i)))
     \<and> set (bucket t' B) = set (bucket t B) - {n \<in> set xs. new_idx t n \<noteq> B}
     \<and> (\<forall>i. i \<noteq> B \<longrightarrow> set (bucket t' i) = set (bucket t i) \<union> {n \<in> set xs. new_idx t n = i})
     \<and> (\<forall>i. distinct (bucket t' i))"

lemma remake_move_moved:
  assumes "\<forall>i. distinct (bucket t i)" "n \<in> set (bucket t B)" "\<forall>i. i \<noteq> B \<longrightarrow> n \<notin> set (bucket t i)"
  shows "moved B [n] t (remake_move B n t)"
proof (cases "new_idx t n = B")
  case True
  then have "remake_move B n t = t" by (simp add: remake_move_def new_idx_def)
  then show ?thesis using True assms(1) by (auto simp: moved_def)
next
  case False
  obtain l where l: "table t B = Some l" "n \<in> set l" using assms(2) by (cases "table t B") (auto simp: bucket_def)
  let ?j = "new_idx t n"
  have e: "remake_move B n t = t\<lparr>table := (table t)(B := Some (remove1 n l), ?j := Some (n # bucket t ?j))\<rparr>"
    using False l by (auto simp: remake_move_def new_idx_def[symmetric] Let_def eh_hash_table_node_is_need_remake_def bucket_def
        fun_upd_twist split: option.splits)
  have dl: "distinct l" using assms(1) l by (metis bucket_def option.simps(5))
  show ?thesis
    unfolding moved_def e using False l dl assms by (auto simp: bucket_def split: option.splits)
qed

lemma moved_trans:
  assumes "moved B xs t t1" "moved B ys t1 t2"
  shows "moved B (xs @ ys) t t2"
proof -
  have r: "retabled t t1" using assms(1) by (simp add: moved_def)
  have ni: "new_idx t1 = new_idx t" using retabled_simps[OF r] by (simp add: new_idx_def fun_eq_iff)
  have "retabled t t2" using retabled_trans r assms(2) by (auto simp: moved_def)
  then show ?thesis using assms unfolding moved_def ni by auto
qed

lemma fold_move_moved:
  assumes "\<forall>i. distinct (bucket t i)" "distinct xs" "set xs \<subseteq> set (bucket t B)"
    "\<forall>n\<in>set xs. \<forall>i. i \<noteq> B \<longrightarrow> n \<notin> set (bucket t i)"
  shows "moved B xs t (fold (remake_move B) xs t)"
  using assms
proof (induction xs arbitrary: t)
  case Nil
  then show ?case by (auto simp: moved_def)
next
  case (Cons x xs)
  let ?t = "remake_move B x t"
  have m: "moved B [x] t ?t" by (rule remake_move_moved) (use Cons.prems in auto)
  have "moved B xs ?t (fold (remake_move B) xs ?t)"
    by (rule Cons.IH) (use m Cons.prems in \<open>auto simp: moved_def\<close>)
  then show ?case using moved_trans[OF m] by simp
qed

lemma home_full:
  assumes "tb (h mod 2 ^ k) \<noteq> None"
  shows "home tb h k = h mod 2 ^ k"
proof -
  have "lev tb h k = k" by (rule lev_unique) (use assms in simp_all)
  then show ?thesis by (simp add: home_def)
qed

lemma new_idx_eq:
  assumes "buckets_ok k t"
  shows "new_idx t n = unat (hash_val (nodes t n)) mod 2 ^ k"
  using assms unat_and_mask by (simp add: new_idx_def buckets_ok_def)

lemma remake_source:
  assumes "buckets_ok k t" "unat idx < 2 ^ k" "table t (unat idx) = None"
  shows "unat (idx AND remake_mask (table t) idx (drop_bit 1 (tbl_mask t))) = home (table t) (unat idx) k"
proof -
  have k: "tbl_mask t = mask k" "0 < k" "k \<le> 32" using assms(1) by (simp_all add: buckets_ok_def)
  obtain k' where k': "k = Suc k'" using k(2) gr0_conv_Suc by blast
  have l: "lev (table t) (unat idx) k = lev (table t) (unat idx) k'"
    unfolding k' using assms(2,3) by (simp add: k' del: power_Suc)
  show ?thesis
    unfolding k(1) drop_mask[OF k(3)] using remake_mask_lev[of k' "table t" idx] k(3)
    by (simp add: k' unat_and_mask home_def l[unfolded k'] del: lev.simps)
qed

text \<open>
  Remaking the bucket \<open>idx\<close>: it is made afterwards, all nodes are kept, and every node is in its home.
\<close>

lemma try_remake_effect:
  assumes ok: "buckets_ok k t" and idx: "unat idx < 2 ^ k"
  defines "t' \<equiv> eh_hashtbl_try_remake t idx"
  shows "buckets_ok k t' \<and> members t' = members t \<and> retabled t t' \<and> table t' (unat idx) \<noteq> None"
proof (cases "table t (unat idx) = None")
  case False
  then have "t' = t" by (auto simp: t'_def eh_hashtbl_try_remake_def eh_hash_table_node_is_need_remake_def)
  then show ?thesis using ok False by simp
next
  case True
  define B where "B = home (table t) (unat idx) k"
  define t1 where "t1 = fold (remake_move B) (bucket t B) t"
  have t': "t' = (if table t1 (unat idx) = None then t1\<lparr>table := (table t1)(unat idx := Some [])\<rparr> else t1)"
    using True unfolding t'_def eh_hashtbl_try_remake_def eh_hash_table_node_is_need_remake_def Let_def
      remake_source[OF ok idx True] B_def[symmetric] t1_def bucket_def by simp
  have t0: "table t 0 \<noteq> None" and big: "\<And>i. 2 ^ k \<le> i \<Longrightarrow> table t i = None" using ok by (simp_all add: buckets_ok_def)
  have d: "\<forall>i. distinct (bucket t i)" and h: "\<And>i n. n \<in> set (bucket t i) \<Longrightarrow> i = home (table t) (unat (hash_val (nodes t n))) k"
    using ok by (auto simp: buckets_ok_def home_of_def)
  have B: "table t B \<noteq> None" unfolding B_def by (rule home_made[of "table t", OF t0])
  have one: "i = j" if "n \<in> set (bucket t i)" "n \<in> set (bucket t j)" for n i j
    by (rule trans[OF h[OF that(1)] h[OF that(2), symmetric]])
  have m: "moved B (bucket t B) t t1"
    unfolding t1_def by (rule fold_move_moved) (use d one in blast)+
  note m' = m[unfolded moved_def]
  define N where "N = insert (unat idx) {new_idx t n | n. n \<in> set (bucket t B)}"
  have made: "table t' i \<noteq> None \<longleftrightarrow> table t i \<noteq> None \<or> i \<in> N" for i
    using m' B unfolding t' N_def by auto
  have bk: "bucket t' i = bucket t1 i" for i unfolding t' by (simp add: bucket_def)
  have r: "retabled t t'" using m' retabled_trans[of t t1] unfolding t' by simp
  have N: "x < 2 ^ k \<and> home (table t) x k = B" if xN: "x \<in> N" for x
  proof (cases "x = unat idx")
    case True
    then show ?thesis using idx by (simp add: B_def)
  next
    case False
    then obtain n where n: "n \<in> set (bucket t B)" "x = unat (hash_val (nodes t n)) mod 2 ^ k"
      using xN new_idx_eq[OF ok] by (auto simp: N_def)
    then show ?thesis using h[OF n(1)] by (simp add: home_mod)
  qed
  have loc: "i = home (table t') (unat (hash_val (nodes t n))) k" if n: "n \<in> set (bucket t' i)" for n i
  proof (cases "n \<in> set (bucket t B)")
    case True
    have i: "i = new_idx t n"
    proof (cases "i = B")
      case True
      then show ?thesis using n m' unfolding bk by auto
    next
      case False
      then have "n \<in> set (bucket t i) \<or> new_idx t n = i" using n m' unfolding bk by blast
      then show ?thesis using one[OF True, of i] False by blast
    qed
    have "table t' (unat (hash_val (nodes t n)) mod 2 ^ k) \<noteq> None"
      using made[of "new_idx t n"] True unfolding N_def new_idx_eq[OF ok] by blast
    then show ?thesis using i home_full[of "table t'"] new_idx_eq[OF ok] by simp
  next
    case False
    have ib: "n \<in> set (bucket t i)" "i \<noteq> B"
    proof -
      show "i \<noteq> B" using n m' False unfolding bk by auto
      then show "n \<in> set (bucket t i)" using n m' False unfolding bk by auto
    qed
    have "home (table t') (unat (hash_val (nodes t n))) k = home (table t) (unat (hash_val (nodes t n))) k"
      by (rule home_other[of "table t'" "table t" N k B]) (use made N t0 h[OF ib(1)] ib(2) in auto)
    then show ?thesis using h[OF ib(1)] by simp
  qed
  have mem: "members t' = members t"
  proof -
    have "n \<in> members t' \<longleftrightarrow> n \<in> members t" for n
    proof
      assume "n \<in> members t'"
      then obtain i where i: "n \<in> set (bucket t1 i)" by (auto simp: members_def bk)
      then show "n \<in> members t" using m' by (cases "i = B") (auto simp: members_def)
    next
      assume "n \<in> members t"
      then obtain i where i: "n \<in> set (bucket t i)" by (auto simp: members_def)
      have "n \<in> set (bucket t1 (if i = B then new_idx t n else i))" using i m' by auto
      then show "n \<in> members t'" by (auto simp: members_def bk)
    qed
    then show ?thesis by blast
  qed
  have "\<forall>i. 2 ^ k \<le> i \<longrightarrow> table t' i = None" using made N big by (metis leD)
  moreover have "table t' 0 \<noteq> None" using made t0 by blast
  moreover have "\<forall>i. distinct (bucket t' i)" using m' by (simp add: bk)
  ultimately have "buckets_ok k t'"
    using ok loc retabled_simps[OF r] by (simp add: buckets_ok_def home_of_def)
  moreover have "table t' (unat idx) \<noteq> None" using made by (simp add: N_def)
  ultimately show ?thesis using mem r by blast
qed

subsection \<open>Growing\<close>

lemma unat_mask_suc:
  assumes "k < 32"
  shows "unat (mask k + 1 :: 32 word) = 2 ^ k" "push_bit 1 (mask k) + 1 = (mask (Suc k) :: 32 word)"
proof -
  have m: "(mask k + 1 :: 32 word) = 2 ^ k" by (simp add: mask_eq_exp_minus_1)
  have "unat (word_of_nat (2 ^ k) :: 32 word) = 2 ^ k mod 2 ^ 32" by (simp only: unat_of_nat) simp
  also have "\<dots> = 2 ^ k" using assms by (intro mod_less power_strict_increasing) simp_all
  finally show "unat (mask k + 1 :: 32 word) = 2 ^ k" unfolding m by simp
  show "push_bit 1 (mask k) + 1 = (mask (Suc k) :: 32 word)"
    by (simp add: mask_eq_exp_minus_1 push_bit_eq_mult algebra_simps)
qed

lemma mask_full: "k \<le> 32 \<Longrightarrow> (mask k :: 32 word) \<noteq> -1 \<Longrightarrow> k < 32"
  by (cases "k = 32") (simp_all add: mask_eq_exp_minus_1)

lemma resize_effect:
  assumes "buckets_ok k t" "tbl_mask t \<noteq> -1"
  shows "\<exists>t'. eh_hashtbl_resize True t = (EH_RET_OK, t') \<and> buckets_ok (Suc k) t' \<and> table t' = table t
    \<and> nodes t' = nodes t \<and> count t' = count t \<and> node_freed t' = node_freed t"
proof -
  note ok = assms(1)[unfolded buckets_ok_def]
  have k: "k < 32" using ok assms(2) mask_full by auto
  have tb: "(\<lambda>i. if i < 2 ^ k then table t i else None) = table t" using ok by (auto simp: fun_eq_iff)
  let ?t = "t\<lparr>table := table t, tbl_mask := mask (Suc k), threshold := push_bit 1 (threshold t)\<rparr>"
  have e: "eh_hashtbl_resize True t = (EH_RET_OK, ?t)"
    using ok unfolding eh_hashtbl_resize_def Let_def by (simp only: unat_mask_suc[OF k] tb) simp
  have h: "home_of ?t (Suc k) v = home_of t k v" for v
    unfolding home_of_def using home_double[of k "table t" "unat v"] ok by simp
  have "bucket ?t = bucket t" by (simp add: bucket_def fun_eq_iff)
  then have "buckets_ok (Suc k) ?t" using ok k h by (simp add: buckets_ok_def)
  then show ?thesis using e by auto
qed

subsection \<open>Adding and removing nodes\<close>

definition node_ready :: "hashtbl \<Rightarrow> ptr \<Rightarrow> bool" where
  "node_ready t n \<longleftrightarrow> hash_val (nodes t n) = fnv1a (key (nodes t n)) \<and> unat (key_len (nodes t n)) = length (key (nodes t n))"

text \<open>The keys of the nodes in the table: the abstract state.\<close>

definition keys :: "hashtbl \<Rightarrow> ptr \<rightharpoonup> u8 list" where
  "keys t = (\<lambda>n. if n \<in> members t then Some (key (nodes t n)) else None)"

lemma home_made_eq:
  assumes "buckets_ok k t" "table t (new_idx t n) \<noteq> None"
  shows "home_of t k (hash_val (nodes t n)) = new_idx t n"
  using assms home_full[of "table t"] new_idx_eq[OF assms(1)] by (simp add: home_of_def)

lemma lev_cong:
  assumes "\<And>i. tb' i = None \<longleftrightarrow> tb i = None"
  shows "lev tb' h k = lev tb h k"
proof (induction k)
  case (Suc k)
  then show ?case using assms[of "h mod 2 ^ Suc k"] by (simp del: power_Suc)
qed simp

lemma buckets_ok_update:
  assumes "buckets_ok k t" "tbl_mask t' = tbl_mask t" "\<And>i. table t' i = None \<longleftrightarrow> table t i = None"
    "\<And>n. hash_val (nodes t' n) = hash_val (nodes t n)" "\<And>i. distinct (bucket t' i)"
    "\<And>i n. n \<in> set (bucket t' i) \<Longrightarrow> i = home_of t k (hash_val (nodes t n))"
  shows "buckets_ok k t'"
proof -
  have "home_of t' k v = home_of t k v" for v
    using lev_cong[of "table t'" "table t", OF assms(3)] by (simp add: home_of_def home_def)
  then show ?thesis using assms by (simp add: buckets_ok_def)
qed

lemma bucket_add_effect:
  assumes ok: "hash_inv k t" and made: "table t (new_idx t n) \<noteq> None" and n: "n \<notin> members t" "node_ready t n"
  shows "\<exists>t'. bucket_add n (new_idx t n) t = Some t' \<and> hash_inv k (t'\<lparr>count := count t' + 1\<rparr>)
    \<and> keys (t'\<lparr>count := count t' + 1\<rparr>) = (keys t)(n \<mapsto> key (nodes t n))"
proof -
  let ?i = "new_idx t n"
  obtain l where l: "table t ?i = Some l" using made by blast
  let ?t = "update_node n (\<lambda>x. x\<lparr>node_linked := True\<rparr>) (t\<lparr>table := (table t)(?i := Some (n # l))\<rparr>)"
  define t' where "t' = ?t\<lparr>count := count ?t + 1\<rparr>"
  have e: "bucket_add n ?i t = Some ?t" using l by (simp add: bucket_add_def)
  have bo: "buckets_ok k t" and no: "nodes_ok t" using ok by (simp_all add: hash_inv_def)
  have bk: "bucket t' j = (if j = ?i then n # bucket t j else bucket t j)" for j
    using l by (simp add: t'_def bucket_def)
  have "set (bucket t j) \<subseteq> set (bucket t' j)" "set (bucket t' j) \<subseteq> insert n (set (bucket t j))"
    "n \<in> set (bucket t' ?i)" for j unfolding bk by auto
  then have mem: "members t' = insert n (members t)" unfolding members_def by blast
  have hv: "hash_val (nodes t' m) = hash_val (nodes t m)" "key (nodes t' m) = key (nodes t m)"
    "key_len (nodes t' m) = key_len (nodes t m)" "node_linked (nodes t' m) \<longleftrightarrow> m = n \<or> node_linked (nodes t m)" for m
    by (simp_all add: t'_def)
  have c: "count t' = count t + 1" "tbl_mask t' = tbl_mask t" by (simp_all add: t'_def)
  have "buckets_ok k t'"
  proof (rule buckets_ok_update[OF bo c(2) _ hv(1)])
    show "table t' i = None \<longleftrightarrow> table t i = None" for i using l by (simp add: t'_def)
    show "distinct (bucket t' i)" for i unfolding bk using bo n(1) by (auto simp: buckets_ok_def members_def)
    show "i = home_of t k (hash_val (nodes t m))" if "m \<in> set (bucket t' i)" for i m
      using that home_made_eq[OF bo made] bo unfolding bk by (auto simp: buckets_ok_def split: if_splits)
  qed
  moreover have "nodes_ok t'"
    using no n unfolding nodes_ok_def mem hv c by (auto simp: node_ready_def)
  moreover have "keys t' = (keys t)(n \<mapsto> key (nodes t n))" unfolding keys_def mem hv by auto
  ultimately show ?thesis using e unfolding t'_def by (auto simp: hash_inv_def)
qed

lemma unlink_effect:
  assumes "hash_inv k t" "n \<in> members t"
  defines "t' \<equiv> (update_node n (\<lambda>x. x\<lparr>node_linked := False\<rparr>) (hash_unlink n t))\<lparr>count := count t - 1\<rparr>"
  shows "hash_inv k t'" "keys t' = (keys t)(n := None)"
proof -
  have bo: "buckets_ok k t" and no: "nodes_ok t" using assms(1) by (simp_all add: hash_inv_def)
  have bk: "bucket t' j = remove1 n (bucket t j)" for j
    by (simp add: t'_def bucket_def hash_unlink_def split: option.splits)
  have d: "distinct (bucket t j)" for j using bo by (simp add: buckets_ok_def)
  have mem: "members t' = members t - {n}" using d by (auto simp: members_def bk)
  have hv: "hash_val (nodes t' m) = hash_val (nodes t m)" "key (nodes t' m) = key (nodes t m)"
    "key_len (nodes t' m) = key_len (nodes t m)" "node_linked (nodes t' m) \<longleftrightarrow> m \<noteq> n \<and> node_linked (nodes t m)" for m
    by (simp_all add: t'_def hash_unlink_def)
  have c: "count t' = count t - 1" "tbl_mask t' = tbl_mask t" by (simp_all add: t'_def hash_unlink_def)
  have "buckets_ok k t'"
  proof (rule buckets_ok_update[OF bo c(2) _ hv(1)])
    show "table t' i = None \<longleftrightarrow> table t i = None" for i by (simp add: t'_def hash_unlink_def)
    show "distinct (bucket t' i)" for i unfolding bk using d by simp
    show "i = home_of t k (hash_val (nodes t m))" if "m \<in> set (bucket t' i)" for i m
    proof -
      have "m \<in> set (bucket t i)" using that unfolding bk by (meson notin_set_remove1)
      then show ?thesis using bo by (simp add: buckets_ok_def)
    qed
  qed
  moreover have "nodes_ok t'"
  proof -
    have f: "finite (members t)" "count t = word_of_nat (card (members t))" using no by (simp_all add: nodes_ok_def)
    have "card (members t) = Suc (card (members t - {n}))" by (rule card.remove[OF f(1) assms(2)])
    then have "count t - 1 = word_of_nat (card (members t - {n}))" using f(2) by simp
    then show ?thesis using no unfolding nodes_ok_def mem hv c by auto
  qed
  ultimately show "hash_inv k t'" by (simp add: hash_inv_def)
  show "keys t' = (keys t)(n := None)" unfolding keys_def mem hv by auto
qed

subsection \<open>The operations of the table\<close>

lemma keys_dom: "dom (keys t) = members t"
  by (auto simp: keys_def split: if_splits)

lemma keys_retabled: "retabled t t' \<Longrightarrow> members t' = members t \<Longrightarrow> keys t' = keys t"
  using retabled_simps(2)[of t t'] by (simp add: keys_def cong: if_cong)

lemma remake_inv:
  assumes "hash_inv k t" "unat idx < 2 ^ k"
  shows "hash_inv k (eh_hashtbl_try_remake t idx)" "keys (eh_hashtbl_try_remake t idx) = keys t"
    "table (eh_hashtbl_try_remake t idx) (unat idx) \<noteq> None" "retabled t (eh_hashtbl_try_remake t idx)"
proof -
  have b: "buckets_ok k t" "nodes_ok t" using assms(1) by (simp_all add: hash_inv_def)
  let ?t = "eh_hashtbl_try_remake t idx"
  have e: "buckets_ok k ?t" "members ?t = members t" "retabled t ?t" "table ?t (unat idx) \<noteq> None"
    using try_remake_effect[OF b(1) assms(2)] by blast+
  show "hash_inv k ?t" unfolding hash_inv_def using e(1) nodes_ok_retabled[OF b(2) e(3,2)] by (rule conjI)
  show "keys ?t = keys t" by (rule keys_retabled[OF e(3,2)])
  show "table ?t (unat idx) \<noteq> None" "retabled t ?t" by (rule e)+
qed

lemma idx_less:
  assumes "hash_inv k t"
  shows "unat (h AND tbl_mask t) < 2 ^ k"
  using assms by (simp add: hash_inv_def buckets_ok_def unat_and_mask)

lemma linked_iff: "hash_inv k t \<Longrightarrow> eh_hashtbl_node_is_insert t n \<longleftrightarrow> n \<in> members t"
  by (simp add: hash_inv_def nodes_ok_def eh_hashtbl_node_is_insert_def)

text \<open>The growing step of an insertion.\<close>

definition grown :: "bool \<Rightarrow> hashtbl \<Rightarrow> int \<times> hashtbl" where
  "grown alloc t = (if count t + 1 \<ge> threshold t \<and> tbl_mask t \<noteq> -1 then eh_hashtbl_resize alloc t else (EH_RET_OK, t))"

lemma grown_effect:
  assumes "hash_inv k t"
  shows "(\<exists>k' t'. grown alloc t = (EH_RET_OK, t') \<and> hash_inv k' t' \<and> keys t' = keys t \<and> nodes t' = nodes t \<and> members t' = members t)
    \<or> (\<not> alloc \<and> grown alloc t = (EH_RET_MALLOC_ERROR, t))"
proof (cases "count t + 1 \<ge> threshold t \<and> tbl_mask t \<noteq> -1")
  case False
  then show ?thesis using assms by (auto simp: grown_def)
next
  case True
  then have g: "grown alloc t = eh_hashtbl_resize alloc t" by (simp add: grown_def)
  show ?thesis
  proof (cases alloc)
    case False
    then show ?thesis unfolding g by (simp add: eh_hashtbl_resize_def Let_def)
  next
    case a: True
    have bo: "buckets_ok k t" and no: "nodes_ok t" using assms by (simp_all add: hash_inv_def)
    obtain t' where r: "eh_hashtbl_resize True t = (EH_RET_OK, t')" "buckets_ok (Suc k) t'" "table t' = table t"
      "nodes t' = nodes t" "count t' = count t" using resize_effect[OF bo] True by blast
    have m: "members t' = members t" using r(3) by (simp add: members_def bucket_def)
    have "nodes_ok t'" using no by (simp add: nodes_ok_def m r(4,5))
    then have "hash_inv (Suc k) t'" using r(2) by (simp add: hash_inv_def)
    moreover have "keys t' = keys t" by (simp add: keys_def m r(4) cong: if_cong)
    ultimately show ?thesis unfolding g using a r(1,4) m by auto
  qed
qed

lemma insert_effect:
  assumes "hash_inv k t" "node_ready t n"
  shows "if n \<in> members t then eh_hashtbl_insert alloc n t = Some (EH_RET_EXISTS, t)
    else (\<exists>k' t'. eh_hashtbl_insert alloc n t = Some (EH_RET_OK, t') \<and> hash_inv k' t' \<and> keys t' = (keys t)(n \<mapsto> key (nodes t n)))
      \<or> (\<not> alloc \<and> eh_hashtbl_insert alloc n t = Some (EH_RET_MALLOC_ERROR, t))"
proof (cases "n \<in> members t")
  case True
  then show ?thesis using linked_iff[OF assms(1)] by (simp add: eh_hashtbl_insert_def)
next
  case False
  then have nl: "\<not> eh_hashtbl_node_is_insert t n" using linked_iff[OF assms(1)] by simp
  have I: "eh_hashtbl_insert alloc n t = (case grown alloc t of (ret, t) \<Rightarrow>
      if ret \<noteq> EH_RET_OK then Some (ret, t)
      else let idx = hash_val (nodes t n) AND tbl_mask t; t = eh_hashtbl_try_remake t idx
           in map_option (\<lambda>t. (EH_RET_OK, t\<lparr>count := count t + 1\<rparr>)) (bucket_add n (unat idx) t))"
    using nl by (simp add: eh_hashtbl_insert_def grown_def)
  consider (ok) k' t' where "grown alloc t = (EH_RET_OK, t')" "hash_inv k' t'" "keys t' = keys t" "nodes t' = nodes t" "members t' = members t"
    | (fail) "\<not> alloc" "grown alloc t = (EH_RET_MALLOC_ERROR, t)" using grown_effect[OF assms(1)] by blast
  then show ?thesis
  proof cases
    case ok
    define idx where "idx = hash_val (nodes t n) AND tbl_mask t'"
    define t1 where "t1 = eh_hashtbl_try_remake t' idx"
    note r = remake_inv[OF ok(2) idx_less[OF ok(2)], of "hash_val (nodes t n)", folded idx_def t1_def]
    note rs = retabled_simps[OF r(4)]
    have nt: "nodes t1 = nodes t" using rs(2) ok(4) by simp
    have ni: "new_idx t1 n = unat idx" unfolding new_idx_def rs(1) nt idx_def ..
    have "n \<notin> members t1" using False r(2) ok(3) keys_dom[of t1] keys_dom[of t] by simp
    moreover have "node_ready t1 n" using assms(2) unfolding node_ready_def nt .
    ultimately obtain t2 where t2: "bucket_add n (unat idx) t1 = Some t2" "hash_inv k' (t2\<lparr>count := count t2 + 1\<rparr>)"
      "keys (t2\<lparr>count := count t2 + 1\<rparr>) = (keys t1)(n \<mapsto> key (nodes t1 n))"
      using bucket_add_effect[OF r(1), of n] r(3) unfolding ni by blast
    have "eh_hashtbl_insert alloc n t = Some (EH_RET_OK, t2\<lparr>count := count t2 + 1\<rparr>)"
      unfolding I ok(1) by (simp add: Let_def ok(4) idx_def[symmetric] t1_def[symmetric] t2(1))
    moreover have "keys (t2\<lparr>count := count t2 + 1\<rparr>) = (keys t)(n \<mapsto> key (nodes t n))"
      unfolding t2(3) nt r(2) ok(3) ..
    ultimately show ?thesis unfolding if_not_P[OF False] using t2(2) by blast
  next
    case fail
    then show ?thesis using False unfolding I by (simp add: eh_ret)
  qed
qed

lemma find_effect:
  assumes "hash_inv k t" "unat klen = length ky"
  shows "\<exists>ret n t'. eh_hashtbl_find ky klen out t = (ret, n, t') \<and> hash_inv k t' \<and> keys t' = keys t \<and> retabled t t'
    \<and> (if ky \<in> ran (keys t) then ret = EH_RET_OK \<and> keys t n = Some ky else ret = EH_RET_NOT_EXISTS \<and> n = out)"
proof -
  define idx where "idx = fnv1a ky AND tbl_mask t"
  define t1 where "t1 = eh_hashtbl_try_remake t idx"
  note r = remake_inv[OF assms(1) idx_less[OF assms(1)], of "fnv1a ky", folded idx_def t1_def]
  note rs = retabled_simps[OF r(4)]
  have bo: "buckets_ok k t1" and no: "nodes_ok t1" using r(1) by (simp_all add: hash_inv_def)
  have m: "node_matches t1 ky klen n \<longleftrightarrow> key (nodes t1 n) = ky" if "n \<in> members t1" for n
  proof -
    have "unat (key_len (nodes t1 n)) = length (key (nodes t1 n))" using no that by (simp add: nodes_ok_def)
    then show ?thesis using assms(2) unfolding node_matches_def by (auto simp: word_unat_eq_iff)
  qed
  have inb: "n \<in> set (bucket t1 (unat idx))" if n: "n \<in> members t1" "key (nodes t1 n) = ky" for n
  proof -
    obtain i where i: "n \<in> set (bucket t1 i)" using n(1) by (auto simp: members_def)
    have hv: "hash_val (nodes t1 n) = fnv1a ky" using no n by (simp add: nodes_ok_def)
    then have ni: "new_idx t1 n = unat idx" unfolding new_idx_def rs(1) idx_def by simp
    have "i = home_of t1 k (hash_val (nodes t1 n))" using bo i by (simp add: buckets_ok_def)
    also have "\<dots> = unat idx" using home_made_eq[OF bo, of n] r(3) unfolding ni by simp
    finally show ?thesis using i by simp
  qed
  have F: "eh_hashtbl_find ky klen out t = (case find (node_matches t1 ky klen) (bucket t1 (unat idx)) of
      None \<Rightarrow> (EH_RET_NOT_EXISTS, out, t1) | Some n \<Rightarrow> (EH_RET_OK, n, t1))"
    
  proof -
    have tk: "take (unat klen) ky = ky" using assms(2) by simp
    show ?thesis unfolding eh_hashtbl_find_def Let_def tk idx_def[symmetric] t1_def[symmetric] by (rule refl)
  qed
  have kr: "ky \<in> ran (keys t) \<longleftrightarrow> (\<exists>n\<in>members t1. key (nodes t1 n) = ky)"
    unfolding r(2)[symmetric] by (auto simp: ran_def keys_def)
  have bm: "n \<in> members t1" if "n \<in> set (bucket t1 j)" for n j using that by (auto simp: members_def)
  show ?thesis
  proof (cases "find (node_matches t1 ky klen) (bucket t1 (unat idx))")
    case None
    then have "\<not> (\<exists>n\<in>members t1. key (nodes t1 n) = ky)" using inb m unfolding find_None_iff by blast
    then show ?thesis using F None r kr by simp
  next
    case (Some n)
    then have n: "n \<in> set (bucket t1 (unat idx))" "node_matches t1 ky klen n" by (auto simp: find_Some_iff)
    then have kn: "key (nodes t1 n) = ky" "n \<in> members t1" using m bm by blast+
    have "keys t n = Some ky" unfolding r(2)[symmetric] using kn by (simp add: keys_def)
    then show ?thesis using F Some r kr kn by auto
  qed
qed

end
