(* ===== verification/Eh_Hashtbl_Spec.thy ===== *)
theory Eh_Hashtbl_Spec
  imports Eh_Hashtbl_Lemmas
begin

text \<open>
  What the hash table of \<^verbatim>\<open>src/src/general/eh_hashtbl.c\<close> promises: over any history of
  creating, inserting, finding, removing and deleting it is the set of its inserted nodes, with their
  keys, whatever buckets have been remade so far.
\<close>

subsection \<open>Iteration\<close>

lemma unat_mask32: "k \<le> 32 \<Longrightarrow> unat (mask k :: 32 word) = 2 ^ k - 1"
proof -
  assume k: "k \<le> 32"
  have "(-1 :: 32 word) AND mask k = mask k" by simp
  moreover have "unat (-1 :: 32 word) = 2 ^ 32 - 1" by (simp add: unsigned_minus_1_eq_mask mask_eq_exp_minus_1)
  ultimately have "unat (mask k :: 32 word) = (2 ^ 32 - 1) mod 2 ^ k" using unat_and_mask[of "-1" k] by metis
  also have "(2::nat) ^ 32 - 1 = (2 ^ (32 - k) - 1) * 2 ^ k + (2 ^ k - 1)"
    using k power_increasing[of k 32 "2::nat"] by (simp add: diff_mult_distrib power_add[symmetric])
  also have "((2 ^ (32 - k) - 1) * 2 ^ k + (2 ^ k - 1)) mod 2 ^ k = (2::nat) ^ k - 1"
    by (subst mod_mult_self3) simp
  finally show ?thesis .
qed

lemma distinct_concat_upto:
  assumes "\<And>i. distinct (f i)" "\<And>i j. i \<noteq> j \<Longrightarrow> set (f i) \<inter> set (f j) = {}"
  shows "distinct (concat (map f [0..<n]))"
proof (induction n)
  case (Suc n)
  have "set (f n) \<inter> set (f i) = {}" if "i < n" for i using assms(2)[of n i] that by simp
  then have "set (concat (map f [0..<n])) \<inter> set (f n) = {}" by fastforce
  then show ?case using Suc assms(1)[of n] by (simp only: upt_Suc_append[OF le0] map_append concat_append distinct_append) simp
qed simp

lemma for_each_effect:
  assumes "hash_inv k t"
  shows "distinct (eh_hashtbl_for_each t)" "set (eh_hashtbl_for_each t) = members t"
proof -
  have bo: "buckets_ok k t" using assms by (simp add: hash_inv_def)
  have m: "Suc (unat (tbl_mask t)) = 2 ^ k" using bo unat_mask32[of k] by (simp add: buckets_ok_def)
  have h: "i = home_of t k (hash_val (nodes t n))" if "n \<in> set (bucket t i)" for i n
    using bo that by (simp add: buckets_ok_def)
  have "i = j" if "n \<in> set (bucket t i)" "n \<in> set (bucket t j)" for n i j
    by (rule trans[OF h[OF that(1)] h[OF that(2), symmetric]])
  then have "set (bucket t i) \<inter> set (bucket t j) = {}" if "i \<noteq> j" for i j using that by blast
  then show "distinct (eh_hashtbl_for_each t)"
    unfolding eh_hashtbl_for_each_def by (intro distinct_concat_upto) (use bo in \<open>simp_all add: buckets_ok_def\<close>)
  have "i < 2 ^ k" if "n \<in> set (bucket t i)" for n i
  proof (rule ccontr)
    assume "\<not> i < 2 ^ k"
    then have "table t i = None" using bo by (simp add: buckets_ok_def)
    then show False using that by (simp add: bucket_def)
  qed
  then show "set (eh_hashtbl_for_each t) = members t"
    unfolding eh_hashtbl_for_each_def m members_def by (simp add: set_eq_iff) (metis atLeastLessThan_iff le0)
qed

subsection \<open>The life of a table\<close>

text \<open>
  \<open>hash_run t A\<close>: a created table has become \<open>t\<close> by operations, and \<open>A\<close> are the inserted
  nodes with their keys. Addresses of new nodes are not those of inserted nodes; a node is inserted
  with the hash value of its key, and into a table of less than \<open>2 ^ 31\<close> buckets: the size of the
  next table would wrap around to 0.
\<close>

inductive hash_run :: "hashtbl \<Rightarrow> (ptr \<rightharpoonup> u8 list) \<Rightarrow> bool" where
  create: "eh_hashtbl_create True True nds lf = Inr t \<Longrightarrow> \<forall>n. \<not> node_linked (nds n) \<Longrightarrow> hash_run t Map.empty"
| new: "hash_run t A \<Longrightarrow> unat klen = length ky \<Longrightarrow> p \<notin> dom A \<Longrightarrow>
    eh_hashtbl_node_new_refresh p ky klen vlen t = (r, t') \<Longrightarrow> hash_run t' A"
| insert: "hash_run t A \<Longrightarrow> tbl_mask t < 2147483647 \<Longrightarrow> node_ready t n \<Longrightarrow> eh_hashtbl_insert alloc n t = Some (ret, t') \<Longrightarrow>
    hash_run t' (if ret = EH_RET_OK then A(n \<mapsto> key (nodes t n)) else A)"
| remove: "hash_run t A \<Longrightarrow> hash_run (eh_hashtbl_remove n t) (A(n := None))"
| delete: "hash_run t A \<Longrightarrow> hash_run (eh_hashtbl_node_delete n t) (A(n := None))"
| find: "hash_run t A \<Longrightarrow> unat klen = length ky \<Longrightarrow> eh_hashtbl_find ky klen out t = (ret, n, t') \<Longrightarrow> hash_run t' A"
| rekey: "hash_run t A \<Longrightarrow> A n = Some k0 \<Longrightarrow> length ky = length k0 \<Longrightarrow>
    eh_hashtbl_node_key_refresh n (update_node n (\<lambda>x. x\<lparr>key := ky\<rparr>) t) = Some t' \<Longrightarrow> hash_run t' (A(n \<mapsto> ky))"

lemma create_inv:
  assumes "eh_hashtbl_create True True nds lf = Inr t" "\<forall>n. \<not> node_linked (nds n)"
  shows "hash_inv 4 t" "keys t = Map.empty"
proof -
  have t: "table t = (\<lambda>i. if i < 16 then Some [] else None)" "tbl_mask t = 15" "count t = 0" "nodes t = nds"
    using assms(1) by (auto simp: eh_hashtbl_create_def EH_CONFIG_HASHTBL_MIN_SIZE_def split: if_splits)
  have m: "members t = {}" by (simp add: members_def bucket_def t)
  have "tbl_mask t = mask 4" by (simp add: t mask_eq_exp_minus_1)
  then have "buckets_ok 4 t" by (simp add: buckets_ok_def bucket_def t)
  then show "hash_inv 4 t" using assms(2) by (simp add: hash_inv_def nodes_ok_def m t)
  show "keys t = Map.empty" by (simp add: keys_def m fun_eq_iff)
qed

lemma node_change_inv:
  assumes "hash_inv k t" "n \<notin> members t" "\<not> node_linked (f (nodes t n))"
  shows "hash_inv k (update_node n f t)" "keys (update_node n f t) = keys t"
proof -
  let ?t = "update_node n f t"
  have b: "bucket ?t i = bucket t i" for i by (simp add: bucket_def)
  have m: "members ?t = members t" by (simp add: members_def b)
  have o: "nodes ?t x = nodes t x" if "x \<in> members t" for x using that assms(2) by auto
  have h: "home_of ?t k v = home_of t k v" for v by (simp add: home_of_def)
  have bo: "buckets_ok k t" and no: "nodes_ok t" using assms(1) by (simp_all add: hash_inv_def)
  have i: "i = home_of t k (hash_val (nodes ?t x))" if "x \<in> set (bucket t i)" for i x
  proof -
    have "x \<in> members t" using that by (auto simp: members_def)
    then show ?thesis unfolding o[OF \<open>x \<in> members t\<close>] using bo that by (simp add: buckets_ok_def)
  qed
  have "buckets_ok k ?t"
    unfolding buckets_ok_def h b using i bo by (simp add: buckets_ok_def)
  moreover have "nodes_ok ?t"
    unfolding nodes_ok_def m using no o assms(2,3) by (simp add: nodes_ok_def)
  ultimately show "hash_inv k ?t" by (simp add: hash_inv_def)
  show "keys ?t = keys t" unfolding keys_def m using o by (auto simp: fun_eq_iff)
qed

lemma remove_effect:
  assumes "hash_inv k t"
  shows "hash_inv k (eh_hashtbl_remove n t)" "keys (eh_hashtbl_remove n t) = (keys t)(n := None)"
proof -
  have "hash_inv k (eh_hashtbl_remove n t) \<and> keys (eh_hashtbl_remove n t) = (keys t)(n := None)"
  proof (cases "n \<in> members t")
    case True
    have e: "eh_hashtbl_remove n t = (update_node n (\<lambda>x. x\<lparr>node_linked := False\<rparr>) (hash_unlink n t))\<lparr>count := count t - 1\<rparr>"
      using True linked_iff[OF assms] by (simp add: eh_hashtbl_remove_def Let_def hash_unlink_def)
    show ?thesis unfolding e using unlink_effect[OF assms True] by blast
  next
    case False
    then have "eh_hashtbl_remove n t = t" using linked_iff[OF assms] by (simp add: eh_hashtbl_remove_def)
    moreover have "keys t n = None" using False by (simp add: keys_def)
    ultimately show ?thesis using assms by (simp add: fun_upd_idem)
  qed
  then show "hash_inv k (eh_hashtbl_remove n t)" "keys (eh_hashtbl_remove n t) = (keys t)(n := None)" by blast+
qed

lemma delete_is_remove:
  "eh_hashtbl_node_delete n t = (eh_hashtbl_remove n t)\<lparr>node_freed := n # node_freed t\<rparr>"
  by (simp add: eh_hashtbl_node_delete_def eh_hashtbl_remove_def eh_hashtbl_node_is_insert_def hash_unlink_def Let_def)

lemma freed_inv: "hash_inv k (t\<lparr>node_freed := x\<rparr>) = hash_inv k t" "keys (t\<lparr>node_freed := x\<rparr>) = keys t"
proof -
  have b: "bucket (t\<lparr>node_freed := x\<rparr>) = bucket t" by (simp add: bucket_def fun_eq_iff)
  have m: "members (t\<lparr>node_freed := x\<rparr>) = members t" by (simp add: members_def b)
  show "hash_inv k (t\<lparr>node_freed := x\<rparr>) = hash_inv k t"
    by (simp add: hash_inv_def buckets_ok_def nodes_ok_def m b home_of_def)
  show "keys (t\<lparr>node_freed := x\<rparr>) = keys t" by (simp add: keys_def m cong: if_cong)
qed

lemma rekey_effect:
  assumes inv: "hash_inv k t" and n: "n \<in> members t" and ky: "length ky = length (key (nodes t n))"
  defines "r \<equiv> eh_hashtbl_node_key_refresh n (update_node n (\<lambda>x. x\<lparr>key := ky\<rparr>) t)"
  shows "if eh_hash_table_node_is_need_remake t (unat (fnv1a ky AND tbl_mask t)) then r = None
    else \<exists>t'. r = Some t' \<and> hash_inv k t' \<and> keys t' = (keys t)(n \<mapsto> ky)"
proof -
  define idx where "idx = unat (fnv1a ky AND tbl_mask t)"
  define f where "f = (\<lambda>x :: hash_node. x\<lparr>key := ky, hash_val := fnv1a ky\<rparr>)"
  have kl: "unat (key_len (nodes t n)) = length ky" using inv n ky by (simp add: hash_inv_def nodes_ok_def)
  have li: "node_linked (nodes t n)" using linked_iff[OF inv] n by (simp add: eh_hashtbl_node_is_insert_def)
  have r: "r = bucket_add n idx (hash_unlink n (update_node n f t))"
    unfolding r_def eh_hashtbl_node_key_refresh_def Let_def using kl li
    by (simp add: eh_hashtbl_node_is_insert_def idx_def f_def)
  define u where "u = (update_node n (\<lambda>x. x\<lparr>node_linked := False\<rparr>) (hash_unlink n t))\<lparr>count := count t - 1\<rparr>"
  note ue = unlink_effect[OF inv n, folded u_def]
  have "n \<notin> dom (keys u)" unfolding ue(2) by simp
  then have nu: "n \<notin> members u" unfolding keys_dom .
  define v where "v = update_node n f u"
  have v: "hash_inv k v" "keys v = keys u"
    unfolding v_def by (rule node_change_inv[OF ue(1) nu]; simp add: f_def u_def)+
  have nv: "n \<notin> members v" using nu unfolding keys_dom[symmetric] v(2) .
  have vn: "nodes v n = (nodes t n)\<lparr>node_linked := False, key := ky, hash_val := fnv1a ky\<rparr>"
    by (simp add: v_def u_def f_def hash_unlink_def)
  have rd: "node_ready v n" using kl by (simp add: node_ready_def vn)
  have ni: "new_idx v n = idx" by (simp add: new_idx_def vn idx_def) (simp add: v_def u_def hash_unlink_def)
  have tv: "table v = table (hash_unlink n t)" "table (hash_unlink n (update_node n f t)) = table v"
    by (simp_all add: v_def u_def hash_unlink_def)
  have tn: "table v idx = None \<longleftrightarrow> table t idx = None" by (simp add: tv(1) hash_unlink_def)
  show ?thesis
  proof (cases "table t idx = None")
    case True
    have "r = None" unfolding r bucket_add_def tv(2) using tn True by simp
    then show ?thesis using True by (simp add: eh_hash_table_node_is_need_remake_def idx_def)
  next
    case False
    then obtain t' where t': "bucket_add n idx v = Some t'" "hash_inv k (t'\<lparr>count := count t' + 1\<rparr>)"
      "keys (t'\<lparr>count := count t' + 1\<rparr>) = (keys v)(n \<mapsto> key (nodes v n))"
      using bucket_add_effect[OF v(1) _ nv rd] unfolding ni tn by blast
    obtain l where l: "table v idx = Some l" using False tn by auto
    have "r = Some (t'\<lparr>count := count t' + 1\<rparr>)"
      using t'(1) unfolding r bucket_add_def tv(2) l
      by (auto simp: v_def u_def f_def hash_unlink_def)
    moreover have "keys (t'\<lparr>count := count t' + 1\<rparr>) = (keys t)(n \<mapsto> ky)"
      unfolding t'(3) v(2) ue(2) vn by simp
    ultimately show ?thesis using t'(2) False by (auto simp: eh_hash_table_node_is_need_remake_def idx_def)
  qed
qed

lemma hash_run_inv: "hash_run t A \<Longrightarrow> \<exists>k. hash_inv k t \<and> keys t = A"
proof (induction rule: hash_run.induct)
  case (create nds lf t)
  then show ?case using create_inv by blast
next
  case (new t A klen ky p vlen r t')
  then obtain k where k: "hash_inv k t" "keys t = A" by blast
  show ?case
  proof (cases "p = NULL")
    case True
    then show ?thesis using new k by (auto simp: eh_hashtbl_node_new_refresh_def)
  next
    case False
    have "p \<notin> members t" using new.hyps(3) k(2) keys_dom[of t] by simp
    define f where "f = (\<lambda>_ :: hash_node. \<lparr>hash_val = fnv1a (take (unat klen) ky), value_len = vlen, key_len = klen,
      key = take (unat klen) ky, node_linked = False\<rparr>)"
    note c = node_change_inv[where f = f, OF k(1) \<open>p \<notin> members t\<close>]
    have "t' = update_node p f t"
      using new.hyps(4)[unfolded eh_hashtbl_node_new_refresh_def if_not_P[OF False], folded f_def] by (auto simp: f_def)
    then show ?thesis using c k(2) by (auto simp: f_def)
  qed
next
  case (insert t A n alloc ret t')
  then obtain k where k: "hash_inv k t" "keys t = A" by blast
  note e = insert_effect[OF k(1) insert.hyps(3), of alloc]
  show ?case
  proof (cases "n \<in> members t")
    case True
    then have "ret = EH_RET_EXISTS" "t' = t" using e insert.hyps(4) by simp_all
    then show ?thesis using k by (auto simp: eh_ret)
  next
    case False
    note e' = e[unfolded if_not_P[OF False] insert.hyps(4)]
    then consider k' where "ret = EH_RET_OK" "hash_inv k' t'" "keys t' = (keys t)(n \<mapsto> key (nodes t n))"
      | "ret = EH_RET_MALLOC_ERROR" "t' = t" by blast
    then show ?thesis
    proof cases
      case 1
      show ?thesis unfolding if_P[OF 1(1)] using 1(2,3) k(2) by blast
    next
      case 2
      then show ?thesis using k by (auto simp: eh_ret)
    qed
  qed
next
  case (remove t A n)
  then show ?case using remove_effect by metis
next
  case (delete t A n)
  then show ?case unfolding delete_is_remove freed_inv using remove_effect by metis
next
  case (find t A klen ky out ret n t')
  then obtain k where k: "hash_inv k t" "keys t = A" by blast
  obtain r m u where "eh_hashtbl_find ky klen out t = (r, m, u)" "hash_inv k u" "keys u = keys t"
    using find_effect[OF k(1) find.hyps(2), of out] by blast
  then show ?case using find.hyps(3) k(2) by auto
next
  case (rekey t A n k0 ky t')
  then obtain k where k: "hash_inv k t" "keys t = A" by blast
  have n: "n \<in> members t" "length ky = length (key (nodes t n))"
    using rekey.hyps(2,3) unfolding k(2)[symmetric] keys_def by (simp_all split: if_splits)
  show ?case using rekey_effect[OF k(1) n] rekey.hyps(4) k(2) by (auto split: if_splits)
qed

subsection \<open>Properties\<close>

text \<open>
  C20. Refinement. Over any history of operations a table is the set \<open>A\<close> of its inserted nodes with
  their keys: iterating over it visits every inserted node once, the counter is their number, and a
  lookup succeeds exactly when a node with that key is inserted (also in a bucket that was not remade
  yet), gives one of them, and writes nothing otherwise.
\<close>

theorem hash_refines:
  assumes "hash_run t A"
  shows "distinct (eh_hashtbl_for_each t) \<and> set (eh_hashtbl_for_each t) = dom A
    \<and> count t = word_of_nat (card (dom A))
    \<and> (\<forall>ky klen out. unat klen = length ky \<longrightarrow>
        (case eh_hashtbl_find ky klen out t of (ret, n, _) \<Rightarrow>
          if ky \<in> ran A then ret = EH_RET_OK \<and> A n = Some ky else ret = EH_RET_NOT_EXISTS \<and> n = out))"
proof -
  obtain k where k: "hash_inv k t" "keys t = A" using hash_run_inv[OF assms] by blast
  have "set (eh_hashtbl_for_each t) = dom A" "count t = word_of_nat (card (dom A))"
    using for_each_effect(2)[OF k(1)] k keys_dom[of t] by (simp_all add: hash_inv_def nodes_ok_def)
  moreover have "case eh_hashtbl_find ky klen out t of (ret, n, _) \<Rightarrow>
      if ky \<in> ran A then ret = EH_RET_OK \<and> A n = Some ky else ret = EH_RET_NOT_EXISTS \<and> n = out"
    if "unat klen = length ky" for ky klen out
    using find_effect[OF k(1) that, of out] unfolding k(2) by auto
  ultimately show ?thesis using for_each_effect(1)[OF k(1)] by (intro conjI allI impI)
qed

text \<open>
  Errors of an insertion. Inserting an inserted node gives \<open>EH_RET_EXISTS\<close>; otherwise the insertion
  succeeds, except that an allocation failure, only possible when the table has to grow, gives
  \<open>EH_RET_MALLOC_ERROR\<close>. A failed insertion leaves the table as it was, and no insertion reaches
  a bucket that needs remaking.
\<close>

theorem hash_insert_errors:
  assumes "hash_run t A" "tbl_mask t < 2147483647" "node_ready t n"
  shows "if n \<in> dom A then eh_hashtbl_insert alloc n t = Some (EH_RET_EXISTS, t)
    else if alloc \<or> count t + 1 < threshold t
    then (\<exists>t'. eh_hashtbl_insert alloc n t = Some (EH_RET_OK, t') \<and> hash_run t' (A(n \<mapsto> key (nodes t n))))
    else (\<exists>t'. eh_hashtbl_insert alloc n t = Some (EH_RET_OK, t')) \<or> eh_hashtbl_insert alloc n t = Some (EH_RET_MALLOC_ERROR, t)"
proof -
  obtain k where k: "hash_inv k t" "keys t = A" using hash_run_inv[OF assms(1)] by blast
  have d: "n \<in> members t \<longleftrightarrow> n \<in> dom A" using keys_dom[of t] k(2) by simp
  have nf: "eh_hashtbl_insert alloc n t \<noteq> Some (EH_RET_MALLOC_ERROR, t)" if "count t + 1 < threshold t"
    using that by (auto simp: eh_hashtbl_insert_def Let_def eh_ret)
  show ?thesis
  proof (cases "n \<in> dom A")
    case True
    then show ?thesis using insert_effect[OF k(1) assms(3), of alloc] d by simp
  next
    case False
    note e = insert_effect[OF k(1) assms(3), of alloc, unfolded d if_not_P[OF False]]
    have run: "hash_run t' (A(n \<mapsto> key (nodes t n)))" if "eh_hashtbl_insert alloc n t = Some (EH_RET_OK, t')" for t'
      using hash_run.insert[OF assms that] by simp
    have e: "(\<exists>t'. eh_hashtbl_insert alloc n t = Some (EH_RET_OK, t') \<and> hash_run t' (A(n \<mapsto> key (nodes t n))))
      \<or> (\<not> alloc \<and> eh_hashtbl_insert alloc n t = Some (EH_RET_MALLOC_ERROR, t))"
      using e run by blast
    show ?thesis unfolding if_not_P[OF False] using e nf by (auto split: if_split)
  qed
qed

text \<open>
  C21. Refreshing the key of an inserted node. After the user has overwritten the key, the refresh
  re-hashes the node, and the table is the one with the new key; but when the new bucket still needs
  remaking, the node is added to a list head that was never initialised: the code dereferences \<open>NULL\<close>.
\<close>

theorem hash_key_refresh:
  assumes "hash_run t A" "A n = Some k0" "length ky = length k0"
  defines "r \<equiv> eh_hashtbl_node_key_refresh n (update_node n (\<lambda>x. x\<lparr>key := ky\<rparr>) t)"
  shows "if eh_hash_table_node_is_need_remake t (unat (fnv1a ky AND tbl_mask t)) then r = None
    else \<exists>t'. r = Some t' \<and> hash_run t' (A(n \<mapsto> ky)) \<and> set (eh_hashtbl_for_each t') = dom A"
proof -
  obtain k where k: "hash_inv k t" "keys t = A" using hash_run_inv[OF assms(1)] by blast
  have n: "n \<in> members t" "length ky = length (key (nodes t n))"
    using assms(2,3) unfolding k(2)[symmetric] keys_def by (simp_all split: if_splits)
  have s: "set (eh_hashtbl_for_each t') = dom A" if "hash_inv k t'" "keys t' = A(n \<mapsto> ky)" for t'
    using for_each_effect(2)[OF that(1)] keys_dom[of t'] that(2) assms(2) by auto
  show ?thesis
    using rekey_effect[OF k(1) n] hash_run.rekey[OF assms(1-3)] s unfolding r_def[symmetric] k(2)
    by (auto split: if_splits)
qed

subsection \<open>Witnesses\<close>

text \<open>A table whose small load factor makes every insertion grow it, with one node, at the address 5.\<close>

definition ex_table :: hashtbl where
  "ex_table = \<lparr>table = (\<lambda>i. if i < 16 then Some [] else None), tbl_mask = 15, threshold = 1, count = 0,
     nodes = (\<lambda>_. \<lparr>hash_val = 0, value_len = 0, key_len = 0, key = [], node_linked = False\<rparr>), node_freed = []\<rparr>"

definition ex_new :: hashtbl where
  "ex_new = snd (eh_hashtbl_node_new_refresh 5 [1] 1 0 ex_table)"

definition ex_one :: hashtbl where
  "ex_one = snd (the (eh_hashtbl_insert True 5 ex_new))"

lemma ex_run_new: "hash_run ex_new Map.empty"
proof -
  have "eh_hashtbl_create True True (nodes ex_table) (1/16) = Inr ex_table"
    by (simp add: eh_hashtbl_create_def ex_table_def EH_CONFIG_HASHTBL_MIN_SIZE_def)
  then have "hash_run ex_table Map.empty" by (rule hash_run.create) (simp add: ex_table_def)
  then show ?thesis
    by (rule hash_run.new[where klen = 1 and ky = "[1]" and p = 5 and vlen = 0 and r = 5])
      (simp_all add: ex_new_def eh_hashtbl_node_new_refresh_def)
qed

lemma ex_masks: "tbl_mask ex_new < 2147483647" "tbl_mask ex_one < 2147483647"
  by code_simp+

lemma ex_new_key: "key (nodes ex_new 5) = [1]"
  by (simp add: ex_new_def eh_hashtbl_node_new_refresh_def)

lemma ex_new_ready: "node_ready ex_new 5"
  by (simp add: node_ready_def ex_new_def eh_hashtbl_node_new_refresh_def)

lemma ex_new_insert: "\<exists>t. eh_hashtbl_insert True 5 ex_new = Some (EH_RET_OK, t)"
proof -
  obtain k where k: "hash_inv k ex_new" "keys ex_new = Map.empty" using hash_run_inv[OF ex_run_new] by blast
  have "5 \<notin> members ex_new" using keys_dom[of ex_new] k(2) by simp
  then show ?thesis using insert_effect[OF k(1) ex_new_ready, of True] by auto
qed

lemma ex_run_one: "hash_run ex_one [5 \<mapsto> [1]]"
proof -
  obtain t where t: "eh_hashtbl_insert True 5 ex_new = Some (EH_RET_OK, t)" using ex_new_insert by blast
  then have "ex_one = t" by (simp add: ex_one_def)
  then show ?thesis using hash_run.insert[OF ex_run_new ex_masks(1) ex_new_ready t] by (simp add: ex_new_key)
qed

lemma distinct_singleton: "distinct xs \<Longrightarrow> set xs = {x} \<Longrightarrow> xs = [x]"
  by (metis distinct_card card_1_singleton_iff length_0_conv length_Suc_conv One_nat_def list.set_intros(1) singletonD)

lemma hash_refines_witness:
  "eh_hashtbl_for_each ex_one = [5] \<and> (case eh_hashtbl_find [1] 1 0 ex_one of (ret, n, _) \<Rightarrow> ret = EH_RET_OK \<and> n = 5)
    \<and> (case eh_hashtbl_find [2] 1 77 ex_one of (ret, n, _) \<Rightarrow> ret = EH_RET_NOT_EXISTS \<and> n = 77)"
proof -
  note h = hash_refines[OF ex_run_one]
  have "distinct (eh_hashtbl_for_each ex_one)" "set (eh_hashtbl_for_each ex_one) = {5}" using h by simp_all
  then have "eh_hashtbl_for_each ex_one = [5]" by (rule distinct_singleton)
  moreover have "\<forall>ky klen out. unat klen = length ky \<longrightarrow> (case eh_hashtbl_find ky klen out ex_one of (ret, n, _) \<Rightarrow>
      if ky \<in> {[1]} then ret = EH_RET_OK \<and> [5 \<mapsto> [1 :: u8]] n = Some ky else ret = EH_RET_NOT_EXISTS \<and> n = out)"
    using h by simp
  note f = this[rule_format]
  have "case eh_hashtbl_find [1] 1 0 ex_one of (ret, n, _) \<Rightarrow> ret = EH_RET_OK \<and> n = 5"
    using f[of 1 "[1]" 0] by (simp split: prod.splits if_splits)
  moreover have "case eh_hashtbl_find [2] 1 77 ex_one of (ret, n, _) \<Rightarrow> ret = EH_RET_NOT_EXISTS \<and> n = 77"
    using f[of 1 "[2]" 77] by (simp split: prod.splits)
  ultimately show ?thesis by blast
qed

lemma hash_insert_errors_witness:
  "eh_hashtbl_insert True 5 ex_one = Some (EH_RET_EXISTS, ex_one)
    \<and> (\<exists>t. eh_hashtbl_insert True 5 ex_new = Some (EH_RET_OK, t) \<and> hash_run t [5 \<mapsto> [1]])"
proof
  have "node_ready ex_one 5"
  proof -
    obtain k where k: "hash_inv k ex_one" "keys ex_one = [5 \<mapsto> [1]]" using hash_run_inv[OF ex_run_one] by blast
    have "5 \<in> members ex_one" unfolding keys_dom[symmetric] k(2) by simp
    then show ?thesis using k(1) by (simp add: hash_inv_def nodes_ok_def node_ready_def)
  qed
  from hash_insert_errors[OF ex_run_one ex_masks(2) this, of True]
  show "eh_hashtbl_insert True 5 ex_one = Some (EH_RET_EXISTS, ex_one)" by simp
  show "\<exists>t. eh_hashtbl_insert True 5 ex_new = Some (EH_RET_OK, t) \<and> hash_run t [5 \<mapsto> [1]]"
    using hash_insert_errors[OF ex_run_new ex_masks(1) ex_new_ready, of True] by (simp add: ex_new_key)
qed

lemma ex_one_remake:
  "eh_hash_table_node_is_need_remake ex_one (unat (fnv1a [3] AND tbl_mask ex_one))"
  "\<not> eh_hash_table_node_is_need_remake ex_one (unat (fnv1a [2] AND tbl_mask ex_one))"
  by code_simp+

lemma hash_key_refresh_witness:
  "eh_hashtbl_node_key_refresh 5 (update_node 5 (\<lambda>x. x\<lparr>key := [3]\<rparr>) ex_one) = None
    \<and> (\<exists>t. eh_hashtbl_node_key_refresh 5 (update_node 5 (\<lambda>x. x\<lparr>key := [2]\<rparr>) ex_one) = Some t
        \<and> set (eh_hashtbl_for_each t) = {5})"
  using hash_key_refresh[OF ex_run_one, of 5 "[1]" "[3]"] hash_key_refresh[OF ex_run_one, of 5 "[1]" "[2]"]
    ex_one_remake by auto

end
