(* ===== verification/Eh_Sync_Spec.thy ===== *)
theory Eh_Sync_Spec
  imports Eh_Sync Eh_Event_Spec
begin

text \<open>
  What semaphores and mutexes promise under every interleaving of tasks and interrupts. Both hand
  over one unit at a time (\<open>eh_event_notify_and_reorder\<close> with 1), while a task that was not
  waiting may take it first; the locale \<open>handoff\<close> states what this rests on, and shows that no
  waiting task is forgotten.
\<close>

subsection \<open>The effect of a wait on the event it waits for\<close>

text \<open>\<open>joined e r k k'\<close>: the running task has added the receptor \<open>r\<close> to \<open>e\<close>.\<close>

definition joined :: "ptr \<Rightarrow> ptr \<Rightarrow> kernel \<Rightarrow> kernel \<Rightarrow> bool" where
  "joined e r k k' \<longleftrightarrow> receptor_list k' e = receptor_list k e @ [r] \<and> tasks k' = tasks k \<and> current_task k' = current_task k
     \<and> receptors k' r = \<lparr>r_wakeup = current_task k, r_flags = 0\<rparr>
     \<and> (\<forall>x\<in>set (receptor_list k e). receptors k' x = receptors k x)"

text \<open>\<open>left e r k k'\<close>: it has removed it again.\<close>

definition left :: "ptr \<Rightarrow> ptr \<Rightarrow> kernel \<Rightarrow> kernel \<Rightarrow> bool" where
  "left e r k k' \<longleftrightarrow> receptor_list k' e = remove1 r (receptor_list k e) \<and> tasks k' = tasks k
     \<and> current_task k' = current_task k \<and> receptors k' = receptors k"

text \<open>Timers leave receptors and tasks alone.\<close>

definition framed :: "kernel \<Rightarrow> kernel \<Rightarrow> bool" where
  "framed k k' \<longleftrightarrow> receptor_list k' = receptor_list k \<and> tasks k' = tasks k \<and> current_task k' = current_task k \<and> receptors k' = receptors k"

lemma framed_simps:
  assumes "framed k k'"
  shows "receptor_list k' = receptor_list k" "tasks k' = tasks k" "current_task k' = current_task k" "receptors k' = receptors k"
  using assms by (simp_all add: framed_def)

lemma start_no_lock_frame:
  assumes "eh_timer_start_no_lock base t k = Some (ret, k')"
  shows "framed k k'"
proof (cases "timer_node_is_empty k t")
  case True
  define k1 where "k1 = set_timer t ((timers k t)\<lparr>expire := base + interval (timers k t)\<rparr>) k"
  obtain first tree where "k' = k1\<lparr>timer_tree := tree\<rparr>"
    using assms True unfolding eh_timer_start_no_lock_def k1_def[symmetric] by (auto simp: Let_def bind_eq_Some_conv)
  then show ?thesis by (simp add: framed_def k1_def set_timer_def)
next
  case False
  then show ?thesis using assms by (simp add: eh_timer_start_no_lock_def framed_def)
qed

lemma timer_start_frame:
  assumes "eh_timer_start t k = Some (ret, k')"
  shows "framed k k'"
proof (cases "t = NULL \<or> sint (interval (timers k t)) < 0")
  case True
  then show ?thesis using assms by (auto simp: eh_timer_start_def framed_def split: if_splits)
next
  case False
  obtain k1 where k1: "eh_timer_start_no_lock (timer_now (update_timer_now k)) t (update_timer_now k) = Some (ret, k1)"
    "k' = (if ret = FIRST_TIMER_UPDATE then eh_idle_break k1 else k1)"
    using assms False by (auto simp: eh_timer_start_def Let_def bind_eq_Some_conv)
  have "framed k (update_timer_now k)"
    by (simp add: update_timer_now_def eh_get_clock_monotonic_time_def framed_def)
  moreover have "framed k1 k'" using k1(2) by (simp add: framed_def eh_idle_break_def)
  ultimately show ?thesis using start_no_lock_frame[OF k1(1)] by (simp add: framed_def)
qed

lemma timer_stop_frame:
  assumes "eh_timer_stop t k = Some (ret, k')"
  shows "framed k k'"
  using assms by (auto simp: eh_timer_stop_def timer_remove_def bind_eq_Some_conv framed_def split: if_splits)

lemma timed_enter_joined:
  assumes "wait_timeout_enter r rt tm e (Some f) timeout k ob = Some (res, k', ob')" "f k ob = (False, ob1)"
    "tm \<noteq> e" "tm \<noteq> NULL" "r \<noteq> rt" "r \<notin> set (receptor_list k e)" "rt \<notin> set (receptor_list k e)"
  shows "res = None \<and> ob' = ob1 \<and> joined e r k k'"
proof -
  define k0 where "k0 = eh_event_receptor_init rt (current_task k) (eh_event_receptor_init r (current_task k) k)"
  define k1 where "k1 = eh_event_add_receptor_no_lock tm rt (eh_timer_config_interval tm timeout (snd (eh_timer_init tm k0)))"
  have k0: "receptor_list k0 e = receptor_list k e" "tasks k0 = tasks k" "current_task k0 = current_task k"
    "receptors k0 = (receptors k)(r := \<lparr>r_wakeup = current_task k, r_flags = 0\<rparr>, rt := \<lparr>r_wakeup = current_task k, r_flags = 0\<rparr>)"
    using assms(6,7) by (simp_all add: k0_def eh_event_receptor_init_def remove1_idem)
  have k1: "receptor_list k1 e = receptor_list k0 e" "tasks k1 = tasks k0" "current_task k1 = current_task k0" "receptors k1 = receptors k0"
    using assms(3,4)
    by (simp_all add: k1_def eh_event_add_receptor_no_lock_def eh_timer_config_interval_def eh_timer_init_def
        eh_timer_advanced_init_def eh_event_init_def set_timer_def eh_ret)
  have "current_task (eh_event_receptor_init r (current_task k) k) = current_task k" by (simp add: eh_event_receptor_init_def)
  then obtain ret k2 where s: "eh_timer_start tm k1 = Some (ret, k2)" "res = None" "ob' = ob1" "k' = eh_event_add_receptor_no_lock e r k2"
    using assms(1,2) unfolding wait_timeout_enter_def eval_condition_def k1_def k0_def
    by (auto simp: Let_def split_beta bind_eq_Some_conv)
  have "\<forall>x\<in>set (receptor_list k e). x \<noteq> r \<and> x \<noteq> rt" using assms(6,7) by auto
  show ?thesis
    using framed_simps[OF timer_start_frame[OF s(1)]] k1 k0 s(2-) assms(5-7) by (auto simp: joined_def eh_event_add_receptor_no_lock_def)
qed

lemma enter_effect:
  assumes "eh_event_wait_condition_timeout_enter r rt tm e (Some f) timeout k ob = Some (res, k', ob')" "f k ob = (b, ob1)"
    "tm \<noteq> e" "tm \<noteq> NULL" "r \<noteq> rt" "r \<notin> set (receptor_list k e)" "rt \<notin> set (receptor_list k e)"
  shows "ob' = ob1 \<and> (if b then res = Some EH_RET_OK \<and> k' = k
    else (res = Some EH_RET_TIMEOUT \<and> timeout = 0 \<and> k' = k) \<or> (res = None \<and> timeout \<noteq> 0 \<and> joined e r k k'))"
proof (cases b)
  case True
  then show ?thesis
    using assms(1,2) unfolding eh_event_wait_condition_timeout_enter_def wait_enter_def wait_timeout_enter_def eval_condition_def
    by (cases "wait_mode_of timeout") simp_all
next
  case False
  consider (forever) "wait_mode_of timeout = Forever" "timeout \<noteq> 0" | (poll) "wait_mode_of timeout = Poll" "timeout = 0"
    | (timed) "wait_mode_of timeout = Timed" "timeout \<noteq> 0"
    by (cases "timeout = 0"; cases "timeout = -1") (simp_all add: wait_mode_of_def eh_time_is_forever_def EH_TIME_FOREVER_def)
  then show ?thesis
  proof cases
    case forever
    then have "res = None" "ob' = ob1" "k' = eh_event_add_receptor_no_lock e r (eh_event_receptor_init r (current_task k) k)"
      using assms(1,2) False by (auto simp: eh_event_wait_condition_timeout_enter_def wait_enter_def eval_condition_def)
    moreover have "joined e r k (eh_event_add_receptor_no_lock e r (eh_event_receptor_init r (current_task k) k))"
      using assms(6) by (auto simp: joined_def eh_event_add_receptor_no_lock_def eh_event_receptor_init_def remove1_idem)
    ultimately show ?thesis using False forever(2) by simp
  next
    case poll
    then show ?thesis using assms(1,2) False by (auto simp: eh_event_wait_condition_timeout_enter_def eval_condition_def)
  next
    case timed
    then have "wait_timeout_enter r rt tm e (Some f) timeout k ob = Some (res, k', ob')"
      using assms(1) by (simp add: eh_event_wait_condition_timeout_enter_def)
    from timed_enter_joined[OF this _ assms(3-7)] assms(2) False timed(2) show ?thesis by simp
  qed
qed

lemma round_effect:
  assumes "eh_event_wait_condition_timeout_round r rt tm (Some f) timeout k ob = Some (res, k', ob')" "f k ob = (b, ob1)"
    "\<not> r_error (receptors k r)" "rt \<notin> set (receptor_list k e)"
  shows "ob' = ob1 \<and> (if b then res = Some EH_RET_OK \<and> left e r k k'
    else (res = None \<and> k' = eh_task_set_current_state WAIT k) \<or> (\<exists>ret. res = Some ret \<and> ret < 0 \<and> left e r k k'))"
proof -
  have t: "wait_test r (Some f) k ob = (if b then Some EH_RET_OK else None, ob1)"
    using assms(2,3) by (simp add: wait_test_def)
  show ?thesis
  proof (cases "wait_mode_of timeout = Timed")
    case False
    then have "Some (wait_round r (Some f) k ob) = Some (res, k', ob')"
      using assms(1) by (cases "wait_mode_of timeout") (simp_all add: eh_event_wait_condition_timeout_round_def)
    then show ?thesis by (cases b) (auto simp: wait_round_def t left_def)
  next
    case True
    then have w: "wait_timeout_round r rt tm (Some f) k ob = Some (res, k', ob')"
      using assms(1) by (simp add: eh_event_wait_condition_timeout_round_def)
    have l: "left e r k (eh_event_remove_receptor_no_lock rt k2)"
      if "eh_timer_stop tm (eh_event_remove_receptor_no_lock r k) = Some (ret, k2)" for ret k2
    proof -
      have "rt \<notin> set (remove1 r (receptor_list k e))" using assms(4) by (meson notin_set_remove1)
      then show ?thesis
        using framed_simps[OF timer_stop_frame[OF that]] by (simp add: left_def remove1_idem)
    qed
    define test where "test = wait_timeout_test r rt (Some f) k ob"
    have r: "case test of (Some ret, ob) \<Rightarrow> (\<exists>k2. res = Some ret \<and> ob' = ob \<and> left e r k k')
        | (None, ob) \<Rightarrow> res = None \<and> ob' = ob \<and> k' = eh_task_set_current_state WAIT k"
      using w l unfolding wait_timeout_round_def test_def[symmetric]
      by (auto simp: bind_eq_Some_conv split: prod.splits option.splits)
    have "test = (if b then (Some EH_RET_OK, ob1) else if r_any (receptors k rt)
        then (Some (if r_trigger (receptors k rt) then EH_RET_TIMEOUT else EH_RET_EVENT_ERROR), ob1) else (None, ob1))"
      unfolding test_def wait_timeout_test_def t by simp
    then show ?thesis using r by (auto simp: eh_ret split: if_splits)
  qed
qed

subsection \<open>Waiters are not forgotten\<close>

definition awake :: "kernel \<Rightarrow> ptr \<Rightarrow> bool" where
  "awake k r \<longleftrightarrow> t_state (tasks k (r_wakeup (receptors k r))) \<noteq> WAIT"

text \<open>
  \<open>wake_ok a e k\<close>: \<open>a\<close> units are available. The receptors of \<open>e\<close> are of waiting tasks, without errors,
  and unless all these tasks are awake, at least \<open>a\<close> of them are awake at the end of the list, behind
  the last sleeping one. Notifications rotate the list, so the next ones find the sleepers first.
\<close>

definition wake_ok :: "nat \<Rightarrow> ptr \<Rightarrow> kernel \<Rightarrow> bool" where
  "wake_ok a e k \<longleftrightarrow> e \<noteq> NULL \<and> distinct (receptor_list k e)
     \<and> (\<forall>r\<in>set (receptor_list k e). r_wakeup (receptors k r) \<noteq> NULL \<and> \<not> r_uepoll (receptors k r) \<and> \<not> r_error (receptors k r))
     \<and> ((\<forall>r\<in>set (receptor_list k e). awake k r) \<or> a \<le> length (takeWhile (awake k) (rev (receptor_list k e))))"

lemma takeWhile_length_mono:
  "(\<And>x. x \<in> set xs \<Longrightarrow> P x \<Longrightarrow> Q x) \<Longrightarrow> length (takeWhile P xs) \<le> length (takeWhile Q xs)"
  by (induction xs) auto

lemma takeWhile_remove1: "length (takeWhile P xs) - 1 \<le> length (takeWhile P (remove1 x xs))"
  by (induction xs) auto

lemma rev_remove1: "distinct xs \<Longrightarrow> rev (remove1 x xs) = remove1 x (rev xs)"
  by (simp add: distinct_remove1_removeAll removeAll_filter_not_eq rev_filter)

lemma wake_ok_awake:
  assumes "wake_ok a e k"
  shows "min a (length (receptor_list k e)) \<le> length (filter (awake k) (receptor_list k e))"
proof (cases "\<forall>r\<in>set (receptor_list k e). awake k r")
  case True
  then show ?thesis by simp
next
  case False
  have t: "length (takeWhile P xs) \<le> length (filter P xs)" for P and xs :: "ptr list" by (induction xs) auto
  have "a \<le> length (takeWhile (awake k) (rev (receptor_list k e)))" using assms False by (auto simp: wake_ok_def)
  also have "\<dots> \<le> length (filter (awake k) (rev (receptor_list k e)))" by (rule t)
  finally show ?thesis by (simp add: rev_filter[symmetric])
qed

lemma wake_ok_less: "wake_ok a e k \<Longrightarrow> b \<le> a \<Longrightarrow> wake_ok b e k"
  by (auto simp: wake_ok_def)

text \<open>What other tasks and interrupts may do: anything but putting waiters to sleep or touching their receptors.\<close>

definition undisturbed :: "ptr \<Rightarrow> kernel \<Rightarrow> kernel \<Rightarrow> bool" where
  "undisturbed e k k' \<longleftrightarrow> receptor_list k' e = receptor_list k e
     \<and> (\<forall>r\<in>set (receptor_list k e). r_wakeup (receptors k' r) = r_wakeup (receptors k r)
          \<and> (r_uepoll (receptors k' r) \<longleftrightarrow> r_uepoll (receptors k r)) \<and> (r_error (receptors k' r) \<longleftrightarrow> r_error (receptors k r))
          \<and> (awake k r \<longrightarrow> awake k' r))"

lemma wake_ok_undisturbed:
  assumes "wake_ok a e k" "undisturbed e k k'"
  shows "wake_ok a e k'"
proof -
  have "length (takeWhile (awake k) (rev (receptor_list k e))) \<le> length (takeWhile (awake k') (rev (receptor_list k e)))"
    by (rule takeWhile_length_mono) (use assms(2) in \<open>auto simp: undisturbed_def\<close>)
  then show ?thesis using assms by (auto simp: wake_ok_def undisturbed_def)
qed

lemma wake_ok_left:
  assumes "wake_ok a e k" "left e r k k'"
  shows "wake_ok (a - 1) e k'"
proof -
  let ?rl = "receptor_list k e"
  have aw: "awake k' = awake k" using assms(2) by (simp add: left_def awake_def fun_eq_iff)
  have d: "distinct ?rl" using assms(1) by (simp add: wake_ok_def)
  have s: "set (remove1 r ?rl) \<subseteq> set ?rl" by (rule set_remove1_subset)
  have "length (takeWhile (awake k) (rev ?rl)) - 1 \<le> length (takeWhile (awake k) (rev (remove1 r ?rl)))"
    unfolding rev_remove1[OF d] by (rule takeWhile_remove1)
  then have "(\<forall>x\<in>set (remove1 r ?rl). awake k x) \<or> a - 1 \<le> length (takeWhile (awake k) (rev (remove1 r ?rl)))"
    using assms(1) s by (auto simp: wake_ok_def)
  then show ?thesis using assms s d unfolding wake_ok_def left_def aw[unfolded left_def] by auto
qed

lemma wake_ok_joined:
  assumes "wake_ok a e k" "joined e r k k'" "r \<notin> set (receptor_list k e)" "current_task k \<noteq> NULL"
  shows "wake_ok 0 e k'"
proof -
  have "\<not> r_uepoll \<lparr>r_wakeup = w, r_flags = 0\<rparr>" "\<not> r_error \<lparr>r_wakeup = w, r_flags = 0\<rparr>" for w
    by (simp_all add: r_uepoll_def r_error_def)
  then show ?thesis using assms by (auto simp: wake_ok_def joined_def)
qed

lemma wake_ok_sleep: "wake_ok a e k \<Longrightarrow> wake_ok 0 e (eh_task_set_current_state WAIT k)"
  by (simp add: wake_ok_def eh_task_set_current_state_def)

lemma flag_keeps_error: "r_error (r\<lparr>r_flags := r_flags r OR RECEPTOR_TRIGGER\<rparr>) = r_error r"
proof -
  have "(w OR 1) AND 2 = w AND (2 :: u32)" for w by (simp add: bit.conj_disj_distrib2)
  then show ?thesis by (simp add: r_error_def RECEPTOR_TRIGGER_def RECEPTOR_ERROR_def)
qed

lemma flag_keeps_epoll: "r_uepoll (r\<lparr>r_flags := r_flags r OR RECEPTOR_TRIGGER\<rparr>) = r_uepoll r"
proof -
  have "(w OR 1) AND 4 = w AND (4 :: u32)" for w by (simp add: bit.conj_disj_distrib2)
  then show ?thesis by (simp add: r_uepoll_def RECEPTOR_TRIGGER_def RECEPTOR_EPOLL_def)
qed

lemma notified_undisturbed: "notified rs k k' \<Longrightarrow> undisturbed e k k'"
  by (auto simp: undisturbed_def notified_def event_eq_def woken_def awake_def flag_keeps_error flag_keeps_epoll)

lemma notified_awake:
  assumes "notified rs k k'" "r \<in> set rs" "r_wakeup (receptors k r) \<noteq> NULL" "\<not> r_uepoll (receptors k r)"
  shows "awake k' r"
proof -
  have "r_wakeup (receptors k r) \<in> wake_target k r" using assms(3,4) by (simp add: wake_target_def)
  then show ?thesis using assms(1,2) by (auto simp: notified_def woken_def awake_def)
qed

text \<open>One notification makes up for one more unit.\<close>

lemma wake_ok_notify_one:
  assumes "wake_ok a e k"
  shows "fst (eh_event_notify_and_reorder e 1 k) = EH_RET_OK \<and> wake_ok (Suc a) e (snd (eh_event_notify_and_reorder e 1 k))"
proof -
  define k' where "k' = snd (eh_event_notify_and_reorder e 1 k)"
  have e: "e \<noteq> NULL" using assms by (simp add: wake_ok_def)
  have ok: "fst (eh_event_notify_and_reorder e 1 k) = EH_RET_OK" using e by (simp add: eh_event_notify_and_reorder_def Let_def)
  have "wake_ok (Suc a) e k'"
  proof (cases "receptor_list k e")
    case Nil
    then have "receptor_list k' e = []" using e by (simp add: k'_def eh_event_notify_and_reorder_def)
    then show ?thesis using e by (simp add: wake_ok_def)
  next
    case (Cons r rs)
    define k1 where "k1 = notify_receptors [r] k"
    have n: "notified [r] k k1" unfolding k1_def by (rule notify_receptors_effect) simp
    have k': "k' = k1\<lparr>receptor_list := (receptor_list k1)(e := rs @ [r])\<rparr>"
      using e Cons unfolding k'_def eh_event_notify_and_reorder_def k1_def
      by (simp add: Let_def)
    have u: "undisturbed e k k1" by (rule notified_undisturbed[OF n])
    have w: "wake_ok a e k1" by (rule wake_ok_undisturbed[OF assms u])
    have rl: "receptor_list k1 e = r # rs" using u Cons by (simp add: undisturbed_def)
    have ar: "awake k1 r"
      by (rule notified_awake[OF n]) (use assms Cons in \<open>auto simp: wake_ok_def\<close>)
    have ak: "awake k' = awake k1" unfolding k' by (simp add: awake_def fun_eq_iff)
    have "(\<forall>x\<in>set (rs @ [r]). awake k1 x) \<or> Suc a \<le> length (takeWhile (awake k1) (rev (rs @ [r])))"
    proof (cases "\<forall>x\<in>set rs. awake k1 x")
      case False
      then have f: "\<exists>x\<in>set (rev rs). \<not> awake k1 x" by simp
      then have "takeWhile (awake k1) (rev rs @ [r]) = takeWhile (awake k1) (rev rs)"
        by (metis takeWhile_append1)
      moreover have "a \<le> length (takeWhile (awake k1) (rev rs @ [r]))" using w False by (auto simp: wake_ok_def rl)
      ultimately show ?thesis using ar by simp
    qed (use ar in simp)
    then show ?thesis using w unfolding wake_ok_def ak unfolding k' by (auto simp: rl)
  qed
  then show ?thesis using ok by (simp add: k'_def)
qed

subsection \<open>Handing over one unit at a time\<close>

text \<open>
  An object with \<open>avail\<close> units whose waits have the condition \<open>cond\<close> and end with \<open>finish\<close>. A wait is only
  entered or continued when nothing is available, and a successful one takes a unit if there is one.
\<close>

definition completed :: "(int \<Rightarrow> kernel \<Rightarrow> 'o \<Rightarrow> int \<times> 'o) \<Rightarrow> int option \<times> kernel \<times> 'o \<Rightarrow> int option \<times> kernel \<times> 'o" where
  "completed finish x = (case x of (None, k, ob) \<Rightarrow> (None, k, ob)
     | (Some ret, k, ob) \<Rightarrow> (let (ret, ob) = finish ret k ob in (Some ret, k, ob)))"

locale handoff =
  fixes cond :: "'o condition"
    and avail :: "'o \<Rightarrow> nat"
    and finish :: "int \<Rightarrow> kernel \<Rightarrow> 'o \<Rightarrow> int \<times> 'o"
  assumes cond_pure: "snd (cond k ob) = ob"
    and cond_false: "\<not> fst (cond k ob) \<Longrightarrow> avail ob = 0"
    and finish_ok: "fst (cond k ob) \<Longrightarrow> eh_task_self k' = eh_task_self k \<Longrightarrow> avail (snd (finish EH_RET_OK k' ob)) \<le> avail ob - 1"
    and finish_error: "ret < 0 \<Longrightarrow> finish ret k ob = (ret, ob)"
begin

lemma cond_cases: "cond k ob = (fst (cond k ob), ob)"
  using cond_pure[of k ob] by (metis prod.collapse)

lemma enter_keeps:
  assumes "wake_ok (avail ob) e k" "current_task k \<noteq> NULL"
    "eh_event_wait_condition_timeout_enter r rt tm e (Some cond) timeout k ob = Some x" "completed finish x = (res, k', ob')"
    "tm \<noteq> e" "tm \<noteq> NULL" "r \<noteq> rt" "r \<notin> set (receptor_list k e)" "rt \<notin> set (receptor_list k e)"
  shows "wake_ok (avail ob') e k' \<and> current_task k' = current_task k
    \<and> (if fst (cond k ob) then \<exists>ret. finish EH_RET_OK k' ob = (ret, ob') \<and> res = Some ret
       else ob' = ob \<and> (res = None \<or> (\<exists>ret. res = Some ret \<and> ret < 0)))"
proof -
  obtain res1 k1 ob1 where x: "x = (res1, k1, ob1)" by (cases x)
  note e = enter_effect[OF assms(3)[unfolded x] cond_cases assms(5-9)]
  show ?thesis
  proof (cases "fst (cond k ob)")
    case True
    then have "res1 = Some EH_RET_OK" "k1 = k" "ob1 = ob" using e by simp_all
    then have d: "k' = k" "finish EH_RET_OK k ob = (the res, ob')" "res \<noteq> None"
      using assms(4) unfolding x by (auto simp: completed_def split: prod.splits)
    have "avail ob' \<le> avail ob" using finish_ok[OF True refl] d(2) by simp
    then show ?thesis using True d wake_ok_less[OF assms(1)] by auto
  next
    case False
    note a = cond_false[OF False]
    have e1: "ob1 = ob" "(res1 = Some EH_RET_TIMEOUT \<and> k1 = k) \<or> (res1 = None \<and> joined e r k k1)"
      using e False by auto
    then have d: "k' = k1" "ob' = ob" "res = res1"
      using assms(4) finish_error[of EH_RET_TIMEOUT] unfolding x by (auto simp: completed_def eh_ret)
    show ?thesis using d e1(2) a assms(1) False wake_ok_joined[OF assms(1) _ assms(8,2)] by (auto simp: joined_def eh_ret)
  qed
qed

lemma round_keeps:
  assumes "wake_ok (avail ob) e k" "r \<in> set (receptor_list k e)"
    "eh_event_wait_condition_timeout_round r rt tm (Some cond) timeout k ob = Some x" "completed finish x = (res, k', ob')"
    "rt \<notin> set (receptor_list k e)"
  shows "wake_ok (avail ob') e k' \<and> current_task k' = current_task k
    \<and> (if fst (cond k ob) then \<exists>ret. finish EH_RET_OK k' ob = (ret, ob') \<and> res = Some ret
       else ob' = ob \<and> (res = None \<or> (\<exists>ret. res = Some ret \<and> ret < 0)))"
proof -
  obtain res1 k1 ob1 where x: "x = (res1, k1, ob1)" by (cases x)
  have "\<not> r_error (receptors k r)" using assms(1,2) by (simp add: wake_ok_def)
  note e = round_effect[OF assms(3)[unfolded x] cond_cases this assms(5)]
  show ?thesis
  proof (cases "fst (cond k ob)")
    case True
    then have e1: "res1 = Some EH_RET_OK" "left e r k k1" "ob1 = ob" using e by simp_all
    then have d: "k' = k1" "finish EH_RET_OK k1 ob = (the res, ob')" "res \<noteq> None"
      using assms(4) unfolding x by (auto simp: completed_def split: prod.splits)
    have "eh_task_self k1 = eh_task_self k" using e1(2) by (simp add: left_def eh_task_self_def)
    then have "avail ob' \<le> avail ob - 1" using finish_ok[OF True] d(2) by (metis snd_conv)
    then have "wake_ok (avail ob') e k'" using wake_ok_less[OF wake_ok_left[OF assms(1) e1(2)]] d(1) by simp
    then show ?thesis using True d e1(2) by (auto simp: left_def)
  next
    case False
    note a = cond_false[OF False]
    have e1: "ob1 = ob" "(res1 = None \<and> k1 = eh_task_set_current_state WAIT k) \<or> (\<exists>ret. res1 = Some ret \<and> ret < 0 \<and> left e r k k1)"
      using e False by auto
    then have d: "k' = k1" "ob' = ob" "res = res1"
      using assms(4) finish_error unfolding x by (auto simp: completed_def)
    have "wake_ok 0 e k1" using e1(2) wake_ok_sleep[OF assms(1)] wake_ok_left[OF assms(1)] a by auto
    moreover have "current_task k1 = current_task k"
      using e1(2) by (auto simp: left_def eh_task_set_current_state_def)
    ultimately show ?thesis using d e1(2) a False by auto
  qed
qed

end

lemma sem_wait_end_completed: "sem_wait_end = completed (\<lambda>ret k s. eh_sem_wait_finish ret s)"
  by (simp add: fun_eq_iff sem_wait_end_def completed_def split: option.splits)

interpretation semaphore: handoff condition_sem available "\<lambda>ret k s. eh_sem_wait_finish ret s"
proof
  fix k k' :: kernel and s :: sem and ret :: int
  show "snd (condition_sem k s) = s" by (simp add: condition_sem_def)
  show "available s = 0" if "\<not> fst (condition_sem k s)" using that by (simp add: condition_sem_def available_def)
  show "available (snd (eh_sem_wait_finish EH_RET_OK s)) \<le> available s - 1" if "fst (condition_sem k s)"
  proof -
    have "sem_num_v s - sem_num_p s \<noteq> 0" using that by (simp add: condition_sem_def)
    from unat_minus_one[OF this] show ?thesis
      by (simp add: eh_sem_wait_finish_def available_def eh_ret diff_diff_eq[symmetric])
  qed
  show "eh_sem_wait_finish ret s = (ret, s)" if "ret < 0" using that by (simp add: eh_sem_wait_finish_def)
qed

definition mutex_free :: "mutex \<Rightarrow> nat" where
  "mutex_free m = (if lock_cnt m = 0 then 1 else 0)"

lemma mutex_lock_end_completed: "mutex_lock_end = completed eh_mutex_lock_finish"
  by (simp add: fun_eq_iff mutex_lock_end_def completed_def split: option.splits)

lemma unat_plus_one: "x + 1 \<noteq> 0 \<Longrightarrow> unat (x + 1) = Suc (unat x)" for x :: "'a::len word"
  using unatSuc[of x] unfolding add.commute[of 1 x] by blast

lemma lock_cnt_suc:
  assumes "lock_cnt m \<noteq> EH_MUTEX_LOCK_CNT_MAX"
  shows "lock_cnt m + 1 \<noteq> 0" "unat (lock_cnt m + 1) = Suc (unat (lock_cnt m))"
proof -
  have "lock_cnt m + 1 \<noteq> 0"
  proof
    assume "lock_cnt m + 1 = 0"
    then have "lock_cnt m = - 1" by (simp only: eq_neg_iff_add_eq_0)
    then show False using assms by (simp add: EH_MUTEX_LOCK_CNT_MAX_def)
  qed
  then show "lock_cnt m + 1 \<noteq> 0" "unat (lock_cnt m + 1) = Suc (unat (lock_cnt m))"
    using unat_plus_one[of "lock_cnt m"] by blast+
qed

interpretation mutexes: handoff condition_mutex mutex_free eh_mutex_lock_finish
proof
  fix k k' :: kernel and m :: mutex and ret :: int
  show "snd (condition_mutex k m) = m" by (simp add: condition_mutex_def)
  show "mutex_free m = 0" if "\<not> fst (condition_mutex k m)" using that by (simp add: condition_mutex_def mutex_free_def)
  show "mutex_free (snd (eh_mutex_lock_finish EH_RET_OK k' m)) \<le> mutex_free m - 1"
  proof -
    have "lock_cnt m \<noteq> 0" if "lock_cnt m = EH_MUTEX_LOCK_CNT_MAX" using that by (simp add: EH_MUTEX_LOCK_CNT_MAX_def)
    then show ?thesis using lock_cnt_suc(1)[of m]
      by (cases "lock_cnt m = EH_MUTEX_LOCK_CNT_MAX") (simp_all add: eh_mutex_lock_finish_def mutex_free_def eh_ret)
  qed
  show "eh_mutex_lock_finish ret k m = (ret, m)" if "ret < 0" using that by (simp add: eh_mutex_lock_finish_def)
qed

subsection \<open>The life of a semaphore\<close>

text \<open>
  \<open>sem_run k s v p\<close>: a created semaphore has come to the state \<open>s\<close> in the kernel \<open>k\<close>, after \<open>v\<close> units were
  given (the initial value and the successful posts) and \<open>p\<close> waits have succeeded. Between the steps
  of the semaphore anything may happen that leaves its waiters alone.
\<close>

definition wait_args :: "ptr \<Rightarrow> ptr \<Rightarrow> ptr \<Rightarrow> ptr \<Rightarrow> kernel \<Rightarrow> bool" where
  "wait_args r rt tm e k \<longleftrightarrow> r \<noteq> rt \<and> r \<notin> set (receptor_list k e) \<and> rt \<notin> set (receptor_list k e)
     \<and> tm \<noteq> e \<and> tm \<noteq> NULL \<and> current_task k \<noteq> NULL"

inductive sem_run :: "kernel \<Rightarrow> sem \<Rightarrow> nat \<Rightarrow> nat \<Rightarrow> bool" where
  create: "p \<noteq> NULL \<Longrightarrow> eh_sem_create (Some p) n k0 = (Inr s, k) \<Longrightarrow> sem_run k s (unat n) 0"
| enter: "sem_run k s v p \<Longrightarrow> wait_args r rt tm (sem_event s) k \<Longrightarrow>
    eh_sem_wait_enter r rt tm s timeout k = Some (res, k', s') \<Longrightarrow> sem_run k' s' v (if res = Some EH_RET_OK then Suc p else p)"
| round: "sem_run k s v p \<Longrightarrow> r \<in> set (receptor_list k (sem_event s)) \<Longrightarrow> rt \<notin> set (receptor_list k (sem_event s)) \<Longrightarrow>
    eh_sem_wait_round r rt tm s timeout k = Some (res, k', s') \<Longrightarrow> sem_run k' s' v (if res = Some EH_RET_OK then Suc p else p)"
| post: "sem_run k s v p \<Longrightarrow> eh_sem_post s k = (ret, s', k') \<Longrightarrow> sem_run k' s' (if ret = EH_RET_OK then Suc v else v) p"
| other: "sem_run k s v p \<Longrightarrow> undisturbed (sem_event s) k k' \<Longrightarrow> sem_run k' s v p"

definition sem_ok :: "kernel \<Rightarrow> sem \<Rightarrow> nat \<Rightarrow> nat \<Rightarrow> bool" where
  "sem_ok k s v p \<longleftrightarrow> wake_ok (available s) (sem_event s) k \<and> v = p + available s"

lemma sem_finish_ok:
  assumes "sem_ok k s v p" "fst (condition_sem k0 s)" "wake_ok (available s') (sem_event s) k'"
    "eh_sem_wait_finish EH_RET_OK s = (ret, s')"
  shows "ret = EH_RET_OK \<and> sem_ok k' s' v (Suc p)"
proof -
  have z: "sem_num_v s - sem_num_p s \<noteq> 0" using assms(2) by (simp add: condition_sem_def)
  have s': "ret = EH_RET_OK" "s' = s\<lparr>sem_num_p := sem_num_p s + 1\<rparr>" using assms(4) by (auto simp: eh_sem_wait_finish_def eh_ret)
  have "available s' = available s - 1" "0 < available s"
    using unat_minus_one[OF z] z by (simp_all add: s' available_def diff_diff_eq[symmetric] unat_gt_0)
  then show ?thesis using assms(1,3) by (simp add: sem_ok_def s')
qed

lemma sem_run_ok: "sem_run k s v p \<Longrightarrow> sem_ok k s v p"
proof (induction rule: sem_run.induct)
  case (create p n k0 s k)
  then show ?case
    by (auto simp: sem_ok_def eh_sem_create_def available_def wake_ok_def eh_event_init_def)
next
  case (enter k s v p r rt tm timeout res k' s')
  have a: "tm \<noteq> sem_event s" "tm \<noteq> NULL" "r \<noteq> rt" "r \<notin> set (receptor_list k (sem_event s))"
    "rt \<notin> set (receptor_list k (sem_event s))" "current_task k \<noteq> NULL"
    using enter.hyps(2) by (auto simp: wait_args_def)
  obtain x where x: "eh_event_wait_condition_timeout_enter r rt tm (sem_event s) (Some condition_sem) timeout k s = Some x"
    "completed (\<lambda>ret k s. eh_sem_wait_finish ret s) x = (res, k', s')"
    using enter.hyps(3) unfolding eh_sem_wait_enter_def sem_wait_end_completed by auto
  have w: "wake_ok (available s) (sem_event s) k" using enter.IH by (simp add: sem_ok_def)
  note e = semaphore.enter_keeps[OF w a(6) x a(1-5)]
  show ?case
  proof (cases "fst (condition_sem k s)")
    case True
    then obtain ret where "eh_sem_wait_finish EH_RET_OK s = (ret, s')" "res = Some ret" using e by auto
    then show ?thesis using sem_finish_ok[OF enter.IH True _ ] e by auto
  next
    case False
    then show ?thesis using e enter.IH by (auto simp: sem_ok_def eh_ret)
  qed
next
  case (round k s v p r rt tm timeout res k' s')
  obtain x where x: "eh_event_wait_condition_timeout_round r rt tm (Some condition_sem) timeout k s = Some x"
    "completed (\<lambda>ret k s. eh_sem_wait_finish ret s) x = (res, k', s')"
    using round.hyps(4) unfolding eh_sem_wait_round_def sem_wait_end_completed by auto
  have w: "wake_ok (available s) (sem_event s) k" using round.IH by (simp add: sem_ok_def)
  note e = semaphore.round_keeps[OF w round.hyps(2) x round.hyps(3)]
  show ?case
  proof (cases "fst (condition_sem k s)")
    case True
    then obtain ret where "eh_sem_wait_finish EH_RET_OK s = (ret, s')" "res = Some ret" using e by auto
    then show ?thesis using sem_finish_ok[OF round.IH True _ ] e by auto
  next
    case False
    then show ?thesis using e round.IH by (auto simp: sem_ok_def eh_ret)
  qed
next
  case (post k s v p ret s' k')
  have w: "wake_ok (available s) (sem_event s) k" using post.IH by (simp add: sem_ok_def)
  show ?case
  proof (cases "sem_num_v s + 1 = sem_num_p s")
    case True
    then show ?thesis using post.IH post.hyps(2) by (auto simp: eh_sem_post_def eh_ret)
  next
    case False
    have eq: "sem_num_v s + 1 - sem_num_p s = sem_num_v s - sem_num_p s + 1" by simp
    have "sem_num_v s + 1 - sem_num_p s \<noteq> 0" using False unfolding right_minus_eq .
    then have av: "unat (sem_num_v s + 1 - sem_num_p s) = Suc (available s)"
      unfolding eq available_def by (rule unat_plus_one)
    have s': "s' = s\<lparr>sem_num_v := sem_num_v s + 1\<rparr>" and n: "(ret, k') = eh_event_notify_and_reorder (sem_event s) 1 k"
      using post.hyps(2) False by (auto simp: eh_sem_post_def Let_def split: prod.splits)
    have "available s' = Suc (available s)" "sem_event s' = sem_event s"
      using av by (simp_all add: s' available_def)
    moreover have "ret = EH_RET_OK" "wake_ok (Suc (available s)) (sem_event s) k'"
      using wake_ok_notify_one[OF w] unfolding n[symmetric] by simp_all
    ultimately show ?thesis using post.IH by (simp add: sem_ok_def)
  qed
next
  case (other k s v p k')
  then show ?case using wake_ok_undisturbed by (auto simp: sem_ok_def)
qed

text \<open>
  C22. A semaphore counts exactly: at any time no more waits have succeeded than units were given, by
  the initial value and by posts, and the two counters of the code differ by the units left, across the
  wrap-around of the 32-bit counters; a post fails with \<open>EH_RET_BUSY\<close> only with \<open>2 ^ 32 - 1\<close> units left.
\<close>

theorem sem_counts:
  assumes "sem_run k s v p"
  shows "p \<le> v \<and> unat (sem_num_v s - sem_num_p s) = v - p
    \<and> (fst (eh_sem_post s k) = (if v - p = 2 ^ 32 - 1 then EH_RET_BUSY else EH_RET_OK))"
proof -
  have ok: "sem_ok k s v p" by (rule sem_run_ok[OF assms])
  then have a: "v = p + available s" "wake_ok (available s) (sem_event s) k" by (simp_all add: sem_ok_def)
  let ?d = "sem_num_v s - sem_num_p s"
  have m: "unat (-1 :: u32) = 2 ^ 32 - 1" by (simp add: unsigned_minus_1_eq_mask mask_eq_exp_minus_1)
  have "sem_num_v s + 1 = sem_num_p s \<longleftrightarrow> ?d = -1" by (simp only: eq_neg_iff_add_eq_0 eq_diff_eq diff_eq_eq) (simp add: algebra_simps eq_neg_iff_add_eq_0)
  also have "\<dots> \<longleftrightarrow> available s = 2 ^ 32 - 1" unfolding available_def m[symmetric] by (rule word_unat_eq_iff)
  finally have b: "sem_num_v s + 1 = sem_num_p s \<longleftrightarrow> v - p = 2 ^ 32 - 1" using a(1) by simp
  have "fst (eh_sem_post s k) = (if v - p = 2 ^ 32 - 1 then EH_RET_BUSY else EH_RET_OK)"
    unfolding eh_sem_post_def b using wake_ok_notify_one[OF a(2)] by (simp add: Let_def split_beta)
  then show ?thesis using a(1) by (simp add: available_def)
qed

text \<open>
  C23. No waiter of a semaphore is forgotten: at any time, at least as many of the waiting tasks are
  awake as there are units left (all of them, when there are more units than waiters), whatever tasks
  took units in between without waiting, timed out, or were woken for other reasons.
\<close>

theorem sem_waiters_awake:
  assumes "sem_run k s v p"
  shows "min (v - p) (length (receptor_list k (sem_event s)))
    \<le> length (filter (\<lambda>r. t_state (tasks k (r_wakeup (receptors k r))) \<noteq> WAIT) (receptor_list k (sem_event s)))"
proof -
  have "sem_ok k s v p" by (rule sem_run_ok[OF assms])
  then have "v - p = available s" "wake_ok (available s) (sem_event s) k" by (simp_all add: sem_ok_def)
  then show ?thesis using wake_ok_awake[of "v - p"] by (simp add: awake_def[abs_def])
qed

text \<open>What other steps of the system do to the waiters.\<close>

lemma switch_undisturbed: "undisturbed e k (task_switch fresh k)"
  by (cases "t_state (tasks k (current_task k))")
    (auto simp: undisturbed_def task_switch_def Let_def awake_def eh_loop_poll_task_add_def)

lemma notify_undisturbed: "distinct (receptor_list k e') \<Longrightarrow> undisturbed e k (snd (eh_event_notify e' k))"
  using notified_undisturbed[OF notify_receptors_effect]
  by (auto simp: eh_event_notify_def undisturbed_def)

lemma framed_undisturbed: "framed k k' \<Longrightarrow> undisturbed e k k'"
  by (simp add: framed_def undisturbed_def awake_def)

subsection \<open>The life of a mutex\<close>

text \<open>
  \<open>mutex_run k m h\<close>: as for semaphores; \<open>h t\<close> is how often the task \<open>t\<close> holds the mutex: its successful locks
  less its successful unlocks (an unlock of a free mutex succeeds and does nothing).
\<close>

inductive mutex_run :: "kernel \<Rightarrow> mutex \<Rightarrow> (ptr \<Rightarrow> nat) \<Rightarrow> bool" where
  create: "p \<noteq> NULL \<Longrightarrow> eh_mutex_create (Some p) ty junk k0 = (Inr m, k) \<Longrightarrow> mutex_run k m (\<lambda>_. 0)"
| enter: "mutex_run k m h \<Longrightarrow> wait_args r rt tm (mtx_event m) k \<Longrightarrow>
    eh_mutex_lock_enter r rt tm m timeout k = Some (res, k', m') \<Longrightarrow>
    mutex_run k' m' (if res = Some EH_RET_OK then h(current_task k := Suc (h (current_task k))) else h)"
| round: "mutex_run k m h \<Longrightarrow> r \<in> set (receptor_list k (mtx_event m)) \<Longrightarrow> rt \<notin> set (receptor_list k (mtx_event m)) \<Longrightarrow>
    eh_mutex_lock_round r rt tm m timeout k = Some (res, k', m') \<Longrightarrow>
    mutex_run k' m' (if res = Some EH_RET_OK then h(current_task k := Suc (h (current_task k))) else h)"
| unlock: "mutex_run k m h \<Longrightarrow> eh_mutex_unlock m k = (ret, m', k') \<Longrightarrow>
    mutex_run k' m' (if ret = EH_RET_OK then h(current_task k := h (current_task k) - 1) else h)"
| other: "mutex_run k m h \<Longrightarrow> undisturbed (mtx_event m) k k' \<Longrightarrow> mutex_run k' m h"

definition mutex_ok :: "kernel \<Rightarrow> mutex \<Rightarrow> (ptr \<Rightarrow> nat) \<Rightarrow> bool" where
  "mutex_ok k m h \<longleftrightarrow> wake_ok (mutex_free m) (mtx_event m) k
     \<and> (\<forall>t. h t = (if t = lock_task m then unat (lock_cnt m) else 0)) \<and> (mtx_type m = MUTEX_NORMAL \<longrightarrow> unat (lock_cnt m) \<le> 1)"

lemma mutex_finish_ok:
  assumes "mutex_ok k m h" "fst (condition_mutex k m)" "wake_ok (mutex_free m') (mtx_event m) k'"
    "eh_mutex_lock_finish EH_RET_OK k' m = (ret, m')" "current_task k' = current_task k"
  shows "mutex_ok k' m' (if Some ret = Some EH_RET_OK then h(current_task k := Suc (h (current_task k))) else h)"
proof (cases "lock_cnt m = EH_MUTEX_LOCK_CNT_MAX")
  case True
  then have "ret = EH_RET_INVALID_STATE" "m' = m" using assms(4) by (auto simp: eh_mutex_lock_finish_def eh_ret)
  then show ?thesis using assms(1,3) by (simp add: mutex_ok_def eh_ret)
next
  case False
  then have m': "ret = EH_RET_OK" "m' = m\<lparr>lock_task := current_task k, lock_cnt := lock_cnt m + 1\<rparr>"
    using assms(4,5) by (auto simp: eh_mutex_lock_finish_def eh_ret eh_task_self_def)
  have h: "h = (\<lambda>t. if t = lock_task m then unat (lock_cnt m) else 0)" using assms(1) by (simp add: mutex_ok_def fun_eq_iff)
  have c: "lock_cnt m = 0 \<or> (mtx_type m \<noteq> MUTEX_NORMAL \<and> lock_task m = current_task k)"
    using assms(2) by (auto simp: condition_mutex_def eh_task_self_def)
  show ?thesis using c assms(3) lock_cnt_suc(2)[OF False] unfolding mutex_ok_def h m' by auto
qed

lemma mutex_run_ok: "mutex_run k m h \<Longrightarrow> mutex_ok k m h"
proof (induction rule: mutex_run.induct)
  case (create p ty junk k0 m k)
  then show ?case
    by (auto simp: mutex_ok_def eh_mutex_create_def mutex_free_def wake_ok_def eh_event_init_def split: option.splits)
next
  case (enter k m h r rt tm timeout res k' m')
  have a: "tm \<noteq> mtx_event m" "tm \<noteq> NULL" "r \<noteq> rt" "r \<notin> set (receptor_list k (mtx_event m))"
    "rt \<notin> set (receptor_list k (mtx_event m))" "current_task k \<noteq> NULL"
    using enter.hyps(2) by (auto simp: wait_args_def)
  obtain x where x: "eh_event_wait_condition_timeout_enter r rt tm (mtx_event m) (Some condition_mutex) timeout k m = Some x"
    "completed eh_mutex_lock_finish x = (res, k', m')"
    using enter.hyps(3) unfolding eh_mutex_lock_enter_def mutex_lock_end_completed by auto
  have w: "wake_ok (mutex_free m) (mtx_event m) k" using enter.IH by (simp add: mutex_ok_def)
  note e = mutexes.enter_keeps[OF w a(6) x a(1-5)]
  show ?case
  proof (cases "fst (condition_mutex k m)")
    case True
    then obtain ret where f: "eh_mutex_lock_finish EH_RET_OK k' m = (ret, m')" "res = Some ret" using e by auto
    show ?thesis unfolding f(2) by (rule mutex_finish_ok[OF enter.IH True _ f(1)]) (use e in auto)
  next
    case False
    then have "m' = m" "res \<noteq> Some EH_RET_OK" "wake_ok (mutex_free m) (mtx_event m) k'" using e by (auto simp: eh_ret)
    then show ?thesis using enter.IH by (simp add: mutex_ok_def)
  qed
next
  case (round k m h r rt tm timeout res k' m')
  obtain x where x: "eh_event_wait_condition_timeout_round r rt tm (Some condition_mutex) timeout k m = Some x"
    "completed eh_mutex_lock_finish x = (res, k', m')"
    using round.hyps(4) unfolding eh_mutex_lock_round_def mutex_lock_end_completed by auto
  have w: "wake_ok (mutex_free m) (mtx_event m) k" using round.IH by (simp add: mutex_ok_def)
  note e = mutexes.round_keeps[OF w round.hyps(2) x round.hyps(3)]
  show ?case
  proof (cases "fst (condition_mutex k m)")
    case True
    then obtain ret where f: "eh_mutex_lock_finish EH_RET_OK k' m = (ret, m')" "res = Some ret" using e by auto
    show ?thesis unfolding f(2) by (rule mutex_finish_ok[OF round.IH True _ f(1)]) (use e in auto)
  next
    case False
    then have "m' = m" "res \<noteq> Some EH_RET_OK" "wake_ok (mutex_free m) (mtx_event m) k'" using e by (auto simp: eh_ret)
    then show ?thesis using round.IH by (simp add: mutex_ok_def)
  qed
next
  case (unlock k m h ret m' k')
  have w: "wake_ok (mutex_free m) (mtx_event m) k" and h: "h = (\<lambda>t. if t = lock_task m then unat (lock_cnt m) else 0)"
    and n: "mtx_type m = MUTEX_NORMAL \<longrightarrow> unat (lock_cnt m) \<le> 1"
    using unlock.IH by (simp_all add: mutex_ok_def fun_eq_iff)
  consider (unlocked) "lock_cnt m = 0" "ret = EH_RET_OK" "m' = m" "k' = k"
    | (foreign) "lock_cnt m \<noteq> 0" "ret = EH_RET_INVALID_STATE" "m' = m" "k' = k"
    | (still) "lock_cnt m \<noteq> 0" "lock_task m = current_task k" "lock_cnt m - 1 \<noteq> 0" "ret = EH_RET_OK"
        "m' = m\<lparr>lock_cnt := lock_cnt m - 1\<rparr>" "k' = k"
    | (released) "lock_cnt m \<noteq> 0" "lock_task m = current_task k" "lock_cnt m - 1 = 0"
        "m' = m\<lparr>lock_cnt := lock_cnt m - 1\<rparr>" "(ret, k') = eh_event_notify_and_reorder (mtx_event m) 1 k"
    using unlock.hyps(2) by (auto simp: eh_mutex_unlock_def eh_task_self_def Let_def split: if_splits prod.splits)
  then show ?case
  proof cases
    case unlocked
    then show ?thesis using w n by (auto simp: mutex_ok_def h)
  next
    case foreign
    then show ?thesis using unlock.IH by (simp add: eh_ret)
  next
    case still
    have "unat (lock_cnt m - 1) = unat (lock_cnt m) - 1" by (rule unat_minus_one[OF still(1)])
    then show ?thesis using still w n by (auto simp: mutex_ok_def h mutex_free_def)
  next
    case released
    have "unat (lock_cnt m - 1) = unat (lock_cnt m) - 1" by (rule unat_minus_one[OF released(1)])
    moreover have "ret = EH_RET_OK" "wake_ok (Suc (mutex_free m)) (mtx_event m) k'"
      using wake_ok_notify_one[OF w] unfolding released(5)[symmetric] by simp_all
    ultimately show ?thesis using released(1-4) n by (auto simp: mutex_ok_def h mutex_free_def)
  qed
next
  case (other k m h k')
  then show ?case using wake_ok_undisturbed by (auto simp: mutex_ok_def)
qed

text \<open>
  C24. Mutual exclusion. At any time at most one task holds the mutex, \<open>lock_task\<close> and \<open>lock_cnt\<close> say which and
  how often, a normal mutex is held at most once, and an unlock by any other task fails and changes nothing.
\<close>

theorem mutex_exclusion:
  assumes "mutex_run k m h"
  shows "(\<forall>t. h t = (if t = lock_task m then unat (lock_cnt m) else 0)) \<and> (mtx_type m = MUTEX_NORMAL \<longrightarrow> h t \<le> 1)
    \<and> (0 < h t \<and> 0 < h u \<longrightarrow> t = u)
    \<and> (0 < h t \<and> t \<noteq> current_task k \<longrightarrow> eh_mutex_unlock m k = (EH_RET_INVALID_STATE, m, k))"
proof -
  have ok: "mutex_ok k m h" by (rule mutex_run_ok[OF assms])
  then show ?thesis by (auto simp: mutex_ok_def eh_mutex_unlock_def eh_task_self_def)
qed

text \<open>
  C25. No waiter of a mutex is forgotten: whenever the mutex is free and tasks wait for it, at least one of
  them is awake and will try again, also after another task took and released it in between.
\<close>

theorem mutex_waiter_awake:
  assumes "mutex_run k m h" "lock_cnt m = 0" "receptor_list k (mtx_event m) \<noteq> []"
  shows "\<exists>r\<in>set (receptor_list k (mtx_event m)). t_state (tasks k (r_wakeup (receptors k r))) \<noteq> WAIT"
proof -
  have "mutex_ok k m h" by (rule mutex_run_ok[OF assms(1)])
  then have "wake_ok 1 (mtx_event m) k" using assms(2) by (simp add: mutex_ok_def mutex_free_def)
  then have "min 1 (length (receptor_list k (mtx_event m))) \<le> length (filter (awake k) (receptor_list k (mtx_event m)))"
    by (rule wake_ok_awake)
  then have "filter (awake k) (receptor_list k (mtx_event m)) \<noteq> []" using assms(3) by (auto simp: Suc_le_eq)
  then show ?thesis by (auto simp: filter_empty_conv awake_def)
qed

subsection \<open>Witnesses\<close>

text \<open>The running task 1 waits for a new semaphore at the address 500 (receptor 600), sleeps, and an interrupt posts.\<close>

definition ex_sem :: "nat \<Rightarrow> sem" where
  "ex_sem n = \<lparr>sem_event = 500, sem_num_p = 0, sem_num_v = word_of_nat n\<rparr>"

definition ex_created :: kernel where
  "ex_created = demo\<lparr>receptor_list := (receptor_list demo)(500 := [])\<rparr>"

definition ex_waiting :: kernel where
  "ex_waiting = eh_task_set_current_state WAIT (eh_event_add_receptor_no_lock 500 600 (eh_event_receptor_init 600 1 ex_created))"

definition ex_notified :: kernel where
  "ex_notified = snd (eh_event_notify_and_reorder 500 1 ex_waiting)"

lemma ex_created_fields: "receptor_list ex_created 500 = []" "current_task ex_created = 1"
  by (simp_all add: ex_created_def)

lemma ex_waiting_fields:
  "receptor_list ex_waiting 500 = [600]" "current_task ex_waiting = 1" "receptors ex_waiting 600 = \<lparr>r_wakeup = 1, r_flags = 0\<rparr>"
  by (simp_all add: ex_waiting_def eh_task_set_current_state_def eh_event_add_receptor_no_lock_def
      eh_event_receptor_init_def ex_created_fields)

lemma ex_notified_fields:
  "receptor_list ex_notified 500 = [600]" "r_wakeup (receptors ex_notified 600) = 1"
  using notify_one_effect[of 500 ex_waiting 600 "[]", unfolded notify_one_def, folded ex_notified_def]
  by (simp_all add: ex_waiting_fields)

lemma ex_sem_run: "sem_run ex_notified (ex_sem 1) 1 0"
proof -
  have "sem_run ex_created (ex_sem 0) (unat (0 :: u32)) 0"
    by (rule sem_run.create[where p = 500 and ?k0.0 = demo])
      (simp_all add: eh_sem_create_def ex_sem_def ex_created_def eh_event_init_def)
  then have c: "sem_run ex_created (ex_sem 0) 0 0" by simp
  let ?k = "eh_event_add_receptor_no_lock 500 600 (eh_event_receptor_init 600 1 ex_created)"
  have "eh_sem_wait_enter 600 601 602 (ex_sem 0) EH_TIME_FOREVER ex_created = Some (None, ?k, ex_sem 0)"
    by (simp add: eh_sem_wait_enter_def eh_event_wait_condition_timeout_enter_def wait_mode_of_def eh_time_is_forever_def
        wait_enter_def eval_condition_def condition_sem_def sem_wait_end_def ex_sem_def ex_created_fields)
  from sem_run.enter[OF c _ this] have e: "sem_run ?k (ex_sem 0) 0 0"
    by (simp add: wait_args_def ex_sem_def ex_created_fields)
  have k: "receptor_list ?k 500 = [600]" "receptors ?k 600 = \<lparr>r_wakeup = 1, r_flags = 0\<rparr>"
    by (simp_all add: eh_event_add_receptor_no_lock_def eh_event_receptor_init_def ex_created_fields)
  have "eh_sem_wait_round 600 601 602 (ex_sem 0) EH_TIME_FOREVER ?k = Some (None, ex_waiting, ex_sem 0)"
    by (simp add: eh_sem_wait_round_def eh_event_wait_condition_timeout_round_def wait_mode_of_def eh_time_is_forever_def
        wait_round_def wait_test_def condition_sem_def sem_wait_end_def ex_sem_def k r_error_def ex_waiting_def del: One_nat_def)
  from sem_run.round[OF e _ _ this] have w: "sem_run ex_waiting (ex_sem 0) 0 0" by (simp add: ex_sem_def k del: One_nat_def)
  have "eh_sem_post (ex_sem 0) ex_waiting = (EH_RET_OK, ex_sem 1, ex_notified)"
    by (simp add: eh_sem_post_def ex_sem_def ex_notified_def eh_event_notify_and_reorder_def Let_def)
  from sem_run.post[OF w this] show ?thesis by simp
qed

lemma sem_counts_witness:
  "unat (sem_num_v (ex_sem 1) - sem_num_p (ex_sem 1)) = 1 \<and> fst (eh_sem_post (ex_sem 1) ex_notified) = EH_RET_OK"
  using sem_counts[OF ex_sem_run] by simp

lemma sem_waiters_awake_witness: "t_state (tasks ex_notified 1) \<noteq> WAIT \<and> t_state (tasks ex_waiting 1) = WAIT"
proof
  show "t_state (tasks ex_notified 1) \<noteq> WAIT"
    using sem_waiters_awake[OF ex_sem_run] by (simp add: ex_sem_def ex_notified_fields split: if_splits)
  show "t_state (tasks ex_waiting 1) = WAIT"
    by (simp add: ex_waiting_def eh_task_set_current_state_def eh_event_add_receptor_no_lock_def
        eh_event_receptor_init_def ex_created_fields)
qed

text \<open>Task 1 holds a recursive mutex at 500, task 7 waits for it with receptor 600, and task 1 unlocks.\<close>

definition ex_mutex :: "u32 \<Rightarrow> mutex" where
  "ex_mutex n = \<lparr>mtx_event = 500, lock_cnt = n, mtx_type = MUTEX_RECURSIVE, lock_task = 1\<rparr>"

definition ex_locked :: kernel where
  "ex_locked = eh_task_set_current_state WAIT (eh_event_add_receptor_no_lock 500 600 (eh_event_receptor_init 600 7 (ex_created\<lparr>current_task := 7\<rparr>)))"

definition ex_unlocked :: kernel where
  "ex_unlocked = snd (eh_event_notify_and_reorder 500 1 (ex_locked\<lparr>current_task := 1\<rparr>))"

lemma ex_locked_fields:
  "receptor_list ex_locked 500 = [600]" "receptors ex_locked 600 = \<lparr>r_wakeup = 7, r_flags = 0\<rparr>"
  by (simp_all add: ex_locked_def eh_task_set_current_state_def eh_event_add_receptor_no_lock_def
      eh_event_receptor_init_def ex_created_fields)

lemma ex_unlocked_fields: "receptor_list ex_unlocked 500 = [600]" "r_wakeup (receptors ex_unlocked 600) = 7"
  using notify_one_effect[of 500 "ex_locked\<lparr>current_task := 1\<rparr>" 600 "[]", unfolded notify_one_def, folded ex_unlocked_def]
  by (simp_all add: ex_locked_fields)

lemma ex_mutex_locked: "mutex_run (ex_locked\<lparr>current_task := 1\<rparr>) (ex_mutex 1) ((\<lambda>_. 0)(1 := 1))"
proof -
  have c: "mutex_run ex_created (ex_mutex 0) (\<lambda>_. 0)"
    by (rule mutex_run.create[where p = 500 and ?k0.0 = demo and ty = 1 and junk = 1])
      (simp_all add: eh_mutex_create_def mutex_type_of_def ex_mutex_def ex_created_def eh_event_init_def)
  have "eh_mutex_lock_enter 600 601 602 (ex_mutex 0) EH_TIME_FOREVER ex_created = Some (Some EH_RET_OK, ex_created, ex_mutex 1)"
    by (simp add: eh_mutex_lock_enter_def eh_event_wait_condition_timeout_enter_def wait_mode_of_def eh_time_is_forever_def
        wait_enter_def eval_condition_def condition_mutex_def mutex_lock_end_def ex_mutex_def ex_created_fields
        eh_mutex_lock_finish_def EH_MUTEX_LOCK_CNT_MAX_def eh_ret eh_task_self_def)
  from mutex_run.enter[OF c _ this] have l: "mutex_run ex_created (ex_mutex 1) ((\<lambda>_. 0)(1 := 1))"
    by (simp add: wait_args_def ex_mutex_def ex_created_fields)
  have u: "undisturbed 500 k (k\<lparr>current_task := t\<rparr>)" for k t by (simp add: undisturbed_def awake_def)
  have l7: "mutex_run (ex_created\<lparr>current_task := 7\<rparr>) (ex_mutex 1) ((\<lambda>_. 0)(1 := 1))"
    by (rule mutex_run.other[OF l]) (simp add: ex_mutex_def u)
  let ?k = "eh_event_add_receptor_no_lock 500 600 (eh_event_receptor_init 600 7 (ex_created\<lparr>current_task := 7\<rparr>))"
  have "eh_mutex_lock_enter 600 601 602 (ex_mutex 1) EH_TIME_FOREVER (ex_created\<lparr>current_task := 7\<rparr>) = Some (None, ?k, ex_mutex 1)"
    by (simp add: eh_mutex_lock_enter_def eh_event_wait_condition_timeout_enter_def wait_mode_of_def eh_time_is_forever_def
        wait_enter_def eval_condition_def condition_mutex_def mutex_lock_end_def ex_mutex_def eh_task_self_def)
  from mutex_run.enter[OF l7 _ this] have e: "mutex_run ?k (ex_mutex 1) ((\<lambda>_. 0)(1 := 1))"
    by (simp add: wait_args_def ex_mutex_def ex_created_fields)
  have k: "receptor_list ?k 500 = [600]" "receptors ?k 600 = \<lparr>r_wakeup = 7, r_flags = 0\<rparr>" "current_task ?k = 7"
    by (simp_all add: eh_event_add_receptor_no_lock_def eh_event_receptor_init_def ex_created_fields)
  have "eh_mutex_lock_round 600 601 602 (ex_mutex 1) EH_TIME_FOREVER ?k = Some (None, ex_locked, ex_mutex 1)"
    by (simp add: eh_mutex_lock_round_def eh_event_wait_condition_timeout_round_def wait_mode_of_def eh_time_is_forever_def
        wait_round_def wait_test_def condition_mutex_def mutex_lock_end_def ex_mutex_def k r_error_def ex_locked_def eh_task_self_def)
  from mutex_run.round[OF e _ _ this] have w: "mutex_run ex_locked (ex_mutex 1) ((\<lambda>_. 0)(1 := 1))"
    by (simp add: ex_mutex_def k)
  show ?thesis by (rule mutex_run.other[OF w]) (simp add: ex_mutex_def u)
qed

lemma mutex_exclusion_witness:
  "eh_mutex_unlock (ex_mutex 1) (ex_locked\<lparr>current_task := 7\<rparr>) = (EH_RET_INVALID_STATE, ex_mutex 1, ex_locked\<lparr>current_task := 7\<rparr>)
    \<and> unat (lock_cnt (ex_mutex 1)) = 1"
proof -
  have "undisturbed 500 (ex_locked\<lparr>current_task := 1\<rparr>) (ex_locked\<lparr>current_task := 7\<rparr>)"
    by (simp add: undisturbed_def awake_def)
  then have "mutex_run (ex_locked\<lparr>current_task := 7\<rparr>) (ex_mutex 1) ((\<lambda>_. 0)(1 := 1))"
    by (intro mutex_run.other[OF ex_mutex_locked]) (simp add: ex_mutex_def)
  from mutex_exclusion[OF this, of 1] show ?thesis by (simp add: ex_mutex_def)
qed

lemma mutex_waiter_awake_witness: "t_state (tasks ex_unlocked 7) \<noteq> WAIT"
proof -
  have "eh_mutex_unlock (ex_mutex 1) (ex_locked\<lparr>current_task := 1\<rparr>) = (EH_RET_OK, ex_mutex 0, ex_unlocked)"
    by (simp add: eh_mutex_unlock_def ex_mutex_def eh_task_self_def ex_unlocked_def eh_event_notify_and_reorder_def Let_def)
  from mutex_run.unlock[OF ex_mutex_locked this] have "\<exists>h. mutex_run ex_unlocked (ex_mutex 0) h" by blast
  then obtain h where "mutex_run ex_unlocked (ex_mutex 0) h" ..
  from mutex_waiter_awake[OF this] show ?thesis by (simp add: ex_mutex_def ex_unlocked_fields)
qed

end
