(* ===== verification/Eh_Flags_Spec.thy ===== *)
theory Eh_Flags_Spec
  imports Eh_Sync_Spec
begin

text \<open>
  What event flags promise under every interleaving: after a change every waiting task is awake, and
  no task sleeps while its condition holds, unless a successful wait that changes flags on its way out
  makes the condition of another kind of wait true: such a change is not notified.
\<close>

subsection \<open>Waits and changes\<close>

type_synonym flags_cond = "ef_condition_type \<times> eh_flags \<times> eh_flags"

fun cond_holds :: "flags_cond \<Rightarrow> eh_flags \<Rightarrow> bool" where
  "cond_holds (WAIT_SET, w, c) fl \<longleftrightarrow> fl AND w \<noteq> 0"
| "cond_holds (WAIT_CLEAN, w, c) fl \<longleftrightarrow> fl AND w = 0"

fun cond_effect :: "flags_cond \<Rightarrow> eh_flags \<Rightarrow> eh_flags" where
  "cond_effect (WAIT_SET, w, c) fl = fl AND NOT c"
| "cond_effect (WAIT_CLEAN, w, c) fl = fl OR c"

lemma condition_flags_eq:
  "\<exists>re. condition_event_flags ty w c k \<lparr>w_flags = fl, w_reality = rl\<rparr>
    = (cond_holds (ty, w, c) fl, \<lparr>w_flags = if cond_holds (ty, w, c) fl then cond_effect (ty, w, c) fl else fl, w_reality = re\<rparr>)"
  by (cases ty) (auto simp: condition_event_flags_def Let_def)

text \<open>The waits of \<open>T\<close> do not make each other's conditions true.\<close>

definition compatible :: "flags_cond set \<Rightarrow> bool" where
  "compatible T \<longleftrightarrow> (\<forall>(ty, w, c)\<in>T. \<forall>(ty', w', c')\<in>T. ty \<noteq> ty' \<longrightarrow> c AND w' = 0)"

lemma effect_keeps_false:
  assumes "compatible T" "x \<in> T" "y \<in> T" "\<not> cond_holds y fl"
  shows "\<not> cond_holds y (cond_effect x fl)"
proof -
  obtain ty w c ty' w' c' where xy: "x = (ty, w, c)" "y = (ty', w', c')" by (metis prod_cases3)
  have d: "ty \<noteq> ty' \<Longrightarrow> c AND w' = 0" using assms(1-3) unfolding xy compatible_def by fastforce
  have a: "(fl AND NOT c) AND w' = (fl AND w') AND NOT (c AND w')" "(fl AND w') AND NOT c = (fl AND NOT c) AND w'"
    "(fl OR c) AND w' = (fl AND w') OR (c AND w')"
    by (rule bit_word_eqI; auto simp: bit_simps)+
  have z: "x OR y = 0 \<longleftrightarrow> x = 0 \<and> y = 0" for x y :: eh_flags by (simp add: or_eq_0_iff)
  show ?thesis
    using assms(4) d a unfolding xy by (cases ty; cases ty') (auto simp: z)
qed

lemma update_loop_spurious:
  "set obs \<subseteq> {old} \<Longrightarrow> flags_update_loop f obs old = (f old, f old \<noteq> old)"
proof (induction obs)
  case (Cons v obs)
  then show ?case by (subst flags_update_loop.simps) simp
qed (simp add: flags_update_loop.simps)

subsection \<open>The life of event flags\<close>

text \<open>
  \<open>flags_run T k ef W\<close>: initialised flags have come to the state \<open>ef\<close> in the kernel \<open>k\<close>, with waits of the
  kinds in \<open>T\<close> only; \<open>W r\<close> is what the receptor \<open>r\<close> waits for. A task waits with one receptor at a time. The
  exchange of a change may fail spuriously; a change by an interrupt in between is a step of its own.
\<close>

definition flags_enter ::
  "ef_condition_type \<Rightarrow> ptr \<Rightarrow> ptr \<Rightarrow> ptr \<Rightarrow> event_flags \<Rightarrow> eh_flags \<Rightarrow> eh_flags \<Rightarrow> bool \<Rightarrow> u64 \<Rightarrow> kernel
     \<Rightarrow> (int option \<times> kernel \<times> ef_wait) option" where
  "flags_enter ty = (case ty of WAIT_SET \<Rightarrow> eh_event_flags_wait_bits_set | WAIT_CLEAN \<Rightarrow> eh_event_flags_wait_bits_clean)"

inductive flags_run :: "flags_cond set \<Rightarrow> kernel \<Rightarrow> event_flags \<Rightarrow> (ptr \<Rightarrow> flags_cond) \<Rightarrow> bool" for T where
  init: "eh_event_flags_init p k0 = ((0, Some ef), k) \<Longrightarrow> flags_run T k ef W"
| enter: "flags_run T k ef W \<Longrightarrow> (ty, w, c) \<in> T \<Longrightarrow> wait_args r rt tm (ef_event ef) k \<Longrightarrow>
    current_task k \<notin> (\<lambda>x. r_wakeup (receptors k x)) ` set (receptor_list k (ef_event ef)) \<Longrightarrow>
    flags_enter ty r rt tm ef w c want timeout k = Some (res, k', ob) \<Longrightarrow>
    flags_run T k' (ef\<lparr>ef_flags := w_flags ob\<rparr>) (W(r := (ty, w, c)))"
| round: "flags_run T k ef W \<Longrightarrow> r \<in> set (receptor_list k (ef_event ef)) \<Longrightarrow> r_wakeup (receptors k r) = current_task k \<Longrightarrow>
    rt \<notin> set (receptor_list k (ef_event ef)) \<Longrightarrow> W r = (ty, w, c) \<Longrightarrow>
    eh_event_flags_wait_round ty r rt tm ef w c re timeout k = Some (res, k', ob) \<Longrightarrow>
    flags_run T k' (ef\<lparr>ef_flags := w_flags ob\<rparr>) W"
| set_bits: "flags_run T k ef W \<Longrightarrow> set obs \<subseteq> {ef_flags ef} \<Longrightarrow>
    eh_event_flags_set_bits_change_notify obs ef fl k = (ret, ef', k') \<Longrightarrow> flags_run T k' ef' W"
| clear_bits: "flags_run T k ef W \<Longrightarrow> set obs \<subseteq> {ef_flags ef} \<Longrightarrow>
    eh_event_flags_clear_bits_change_notify obs ef fl k = (ret, ef', k') \<Longrightarrow> flags_run T k' ef' W"
| update: "flags_run T k ef W \<Longrightarrow> eh_event_flags_update_change_notify ef fl k = (ret, ef', k') \<Longrightarrow> flags_run T k' ef' W"
| other: "flags_run T k ef W \<Longrightarrow> undisturbed (ef_event ef) k k' \<Longrightarrow> flags_run T k' ef W"

definition flags_ok :: "flags_cond set \<Rightarrow> kernel \<Rightarrow> event_flags \<Rightarrow> (ptr \<Rightarrow> flags_cond) \<Rightarrow> bool" where
  "flags_ok T k ef W \<longleftrightarrow> wake_ok 0 (ef_event ef) k \<and> inj_on (\<lambda>x. r_wakeup (receptors k x)) (set (receptor_list k (ef_event ef)))
     \<and> (\<forall>r\<in>set (receptor_list k (ef_event ef)). W r \<in> T \<and> (awake k r \<or> \<not> cond_holds (W r) (ef_flags ef)))"

lemma notify_all:
  assumes "wake_ok 0 e k" "eh_event_notify e k = (ret, k')"
  shows "ret = EH_RET_OK" "undisturbed e k k'" "\<forall>r\<in>set (receptor_list k e). awake k' r"
proof -
  have e: "e \<noteq> NULL" "distinct (receptor_list k e)" using assms(1) by (simp_all add: wake_ok_def)
  then have n: "notified (receptor_list k e) k k'" and r: "ret = EH_RET_OK"
    using assms(2) notify_receptors_effect by (auto simp: eh_event_notify_def)
  show "ret = EH_RET_OK" by (rule r)
  show "undisturbed e k k'" by (rule notified_undisturbed[OF n])
  show "\<forall>r\<in>set (receptor_list k e). awake k' r"
    using notified_awake[OF n] assms(1) by (auto simp: wake_ok_def)
qed

lemma notify_flags_ok:
  assumes "flags_ok T k ef W" "eh_event_notify (ef_event ef) k = (ret, k')"
  shows "flags_ok T k' (ef\<lparr>ef_flags := fl\<rparr>) W"
proof -
  have w: "wake_ok 0 (ef_event ef) k" using assms(1) by (simp add: flags_ok_def)
  note n = notify_all[OF w assms(2)]
  have "inj_on (\<lambda>x. r_wakeup (receptors k' x)) (set (receptor_list k (ef_event ef)))
      = inj_on (\<lambda>x. r_wakeup (receptors k x)) (set (receptor_list k (ef_event ef)))"
    by (rule inj_on_cong) (use n(2) in \<open>simp add: undisturbed_def\<close>)
  moreover have "receptor_list k' (ef_event ef) = receptor_list k (ef_event ef)" using n(2) by (simp add: undisturbed_def)
  ultimately show ?thesis
    using assms(1) wake_ok_undisturbed[OF w n(2)] n(3) by (simp add: flags_ok_def)
qed

lemma flags_frame:
  assumes "flags_ok T k ef W" "undisturbed (ef_event ef) k k'"
  shows "flags_ok T k' ef W"
proof -
  have "inj_on (\<lambda>x. r_wakeup (receptors k' x)) (set (receptor_list k (ef_event ef)))
      = inj_on (\<lambda>x. r_wakeup (receptors k x)) (set (receptor_list k (ef_event ef)))"
    by (rule inj_on_cong) (use assms(2) in \<open>simp add: undisturbed_def\<close>)
  moreover have "wake_ok 0 (ef_event ef) k'" using assms wake_ok_undisturbed by (auto simp: flags_ok_def)
  ultimately show ?thesis using assms by (auto simp: flags_ok_def undisturbed_def)
qed

lemma enter_flags_ok:
  assumes ok: "flags_ok T k ef W" and T: "compatible T" "(ty, w, c) \<in> T" and a: "wait_args r rt tm (ef_event ef) k"
    and cur: "current_task k \<notin> (\<lambda>x. r_wakeup (receptors k x)) ` set (receptor_list k (ef_event ef))"
    and e: "flags_enter ty r rt tm ef w c want timeout k = Some (res, k', ob)"
  shows "flags_ok T k' (ef\<lparr>ef_flags := w_flags ob\<rparr>) (W(r := (ty, w, c)))"
proof -
  have w: "wake_ok 0 (ef_event ef) k" using ok by (simp add: flags_ok_def)
  have a': "tm \<noteq> ef_event ef" "tm \<noteq> NULL" "r \<noteq> rt" "r \<notin> set (receptor_list k (ef_event ef))"
    "rt \<notin> set (receptor_list k (ef_event ef))" "current_task k \<noteq> NULL" using a by (auto simp: wait_args_def)
  obtain rl where en: "eh_event_wait_condition_timeout_enter r rt tm (ef_event ef) (Some (condition_event_flags ty w c)) timeout k
      \<lparr>w_flags = ef_flags ef, w_reality = rl\<rparr> = Some (res, k', ob)"
    using e by (cases ty) (auto simp: flags_enter_def eh_event_flags_wait_bits_set_def eh_event_flags_wait_bits_clean_def)
  let ?h = "cond_holds (ty, w, c) (ef_flags ef)"
  obtain re where cf: "condition_event_flags ty w c k \<lparr>w_flags = ef_flags ef, w_reality = rl\<rparr>
    = (?h, \<lparr>w_flags = if ?h then cond_effect (ty, w, c) (ef_flags ef) else ef_flags ef, w_reality = re\<rparr>)"
    using condition_flags_eq by blast
  note en' = enter_effect[OF en cf a'(1-5)]
  show ?thesis
  proof (cases ?h)
    case True
    then have k: "k' = k" "w_flags ob = cond_effect (ty, w, c) (ef_flags ef)" using en' by auto
    have "W x \<in> T \<and> (awake k x \<or> \<not> cond_holds (W x) (cond_effect (ty, w, c) (ef_flags ef)))"
      if "x \<in> set (receptor_list k (ef_event ef))" for x
      using ok that effect_keeps_false[OF T, of "W x"] by (auto simp: flags_ok_def)
    then show ?thesis using ok a'(4) unfolding k flags_ok_def by auto
  next
    case False
    then have f: "w_flags ob = ef_flags ef" and "k' = k \<or> joined (ef_event ef) r k k'" using en' by auto
    then consider (same) "k' = k" | (j) "joined (ef_event ef) r k k'" by blast
    then show ?thesis
    proof cases
      case same
      then show ?thesis using ok a'(4) f by (auto simp: flags_ok_def)
    next
      case j
      have w': "wake_ok 0 (ef_event ef) k'" by (rule wake_ok_joined[OF w j a'(4,6)])
      have rl: "receptor_list k' (ef_event ef) = receptor_list k (ef_event ef) @ [r]" "tasks k' = tasks k"
        "r_wakeup (receptors k' r) = current_task k" "\<And>x. x \<in> set (receptor_list k (ef_event ef)) \<Longrightarrow> receptors k' x = receptors k x"
        using j by (simp_all add: joined_def)
      have "inj_on (\<lambda>x. r_wakeup (receptors k' x)) (set (receptor_list k (ef_event ef)))
          = inj_on (\<lambda>x. r_wakeup (receptors k x)) (set (receptor_list k (ef_event ef)))"
        by (rule inj_on_cong) (simp add: rl)
      moreover have "(\<lambda>x. r_wakeup (receptors k' x)) ` set (receptor_list k (ef_event ef))
          = (\<lambda>x. r_wakeup (receptors k x)) ` set (receptor_list k (ef_event ef))"
        by (rule image_cong) (simp_all add: rl)
      ultimately have i: "inj_on (\<lambda>x. r_wakeup (receptors k' x)) (set (receptor_list k' (ef_event ef)))"
        using ok cur a'(4) by (simp add: flags_ok_def rl)
      have "(W(r := (ty, w, c))) x \<in> T \<and> (awake k' x \<or> \<not> cond_holds ((W(r := (ty, w, c))) x) (ef_flags ef))"
        if "x \<in> set (receptor_list k' (ef_event ef))" for x
        using that ok T(2) False a'(4) by (auto simp: flags_ok_def rl awake_def)
      then show ?thesis using w' i f by (simp add: flags_ok_def)
    qed
  qed
qed

lemma round_flags_ok:
  assumes ok: "flags_ok T k ef W" and T: "compatible T" and r: "r \<in> set (receptor_list k (ef_event ef))"
    "r_wakeup (receptors k r) = current_task k" "rt \<notin> set (receptor_list k (ef_event ef))" "W r = (ty, w, c)"
    and e: "eh_event_flags_wait_round ty r rt tm ef w c rl timeout k = Some (res, k', ob)"
  shows "flags_ok T k' (ef\<lparr>ef_flags := w_flags ob\<rparr>) W"
proof -
  have w: "wake_ok 0 (ef_event ef) k" and inj: "inj_on (\<lambda>x. r_wakeup (receptors k x)) (set (receptor_list k (ef_event ef)))"
    and tw: "(ty, w, c) \<in> T" using ok r(1,4) by (auto simp: flags_ok_def)
  have ne: "\<not> r_error (receptors k r)" using w r(1) by (simp add: wake_ok_def)
  let ?h = "cond_holds (ty, w, c) (ef_flags ef)"
  obtain re where cf: "condition_event_flags ty w c k \<lparr>w_flags = ef_flags ef, w_reality = rl\<rparr>
    = (?h, \<lparr>w_flags = if ?h then cond_effect (ty, w, c) (ef_flags ef) else ef_flags ef, w_reality = re\<rparr>)"
    using condition_flags_eq by blast
  note ef' = round_effect[OF e[unfolded eh_event_flags_wait_round_def] cf ne r(3)]
  have left_ok: "flags_ok T k' (ef\<lparr>ef_flags := fl\<rparr>) W"
    if l: "left (ef_event ef) r k k'" and fl: "\<And>x. x \<in> set (receptor_list k (ef_event ef)) \<Longrightarrow>
      W x \<in> T \<and> (awake k x \<or> \<not> cond_holds (W x) fl)" for fl
  proof -
    have s: "set (receptor_list k' (ef_event ef)) \<subseteq> set (receptor_list k (ef_event ef))"
      using l set_remove1_subset[of r "receptor_list k (ef_event ef)"] by (simp add: left_def)
    have "receptors k' = receptors k" "awake k' = awake k" using l by (simp_all add: left_def awake_def fun_eq_iff)
    then show ?thesis using wake_ok_left[OF w l] inj_on_subset[OF inj s] fl s by (auto simp: flags_ok_def)
  qed
  show ?thesis
  proof (cases ?h)
    case True
    then have "left (ef_event ef) r k k'" "w_flags ob = cond_effect (ty, w, c) (ef_flags ef)" using ef' by auto
    moreover have "W x \<in> T \<and> (awake k x \<or> \<not> cond_holds (W x) (cond_effect (ty, w, c) (ef_flags ef)))"
      if "x \<in> set (receptor_list k (ef_event ef))" for x
      using ok that effect_keeps_false[OF T tw, of "W x"] by (auto simp: flags_ok_def)
    ultimately show ?thesis using left_ok by simp
  next
    case False
    then consider (sleep) "w_flags ob = ef_flags ef" "k' = eh_task_set_current_state WAIT k"
      | (out) "w_flags ob = ef_flags ef" "left (ef_event ef) r k k'" using ef' by auto
    then show ?thesis
    proof cases
      case sleep
      have k': "receptor_list k' = receptor_list k" "receptors k' = receptors k" "wake_ok 0 (ef_event ef) k'"
        using wake_ok_sleep[OF w] sleep(2) by (simp_all add: eh_task_set_current_state_def)
      have "awake k' x \<or> \<not> cond_holds (W x) (ef_flags ef)" if x: "x \<in> set (receptor_list k (ef_event ef))" for x
      proof (cases "x = r")
        case True
        then show ?thesis using False r(4) by simp
      next
        case n: False
        have "r_wakeup (receptors k x) \<noteq> current_task k" using inj_onD[OF inj _ x r(1)] r(2) n by auto
        then have "awake k' x = awake k x" unfolding awake_def k'(2) sleep(2) by (simp add: eh_task_set_current_state_def)
        then show ?thesis using ok x by (auto simp: flags_ok_def)
      qed
      then show ?thesis using ok k' sleep(1) by (simp add: flags_ok_def)
    next
      case out
      show ?thesis unfolding out(1) by (rule left_ok[OF out(2)]) (use ok in \<open>auto simp: flags_ok_def\<close>)
    qed
  qed
qed

lemma change_flags_ok:
  assumes "flags_ok T k ef W" "set obs \<subseteq> {ef_flags ef}" "flags_change_notify f obs ef k = (ret, ef', k')"
  shows "flags_ok T k' ef' W"
proof (cases "f (ef_flags ef) = ef_flags ef")
  case True
  then have "k' = k" "ef' = ef" using assms(3) unfolding flags_change_notify_def update_loop_spurious[OF assms(2)] by auto
  then show ?thesis using assms(1) by simp
next
  case False
  then have "eh_event_notify (ef_event ef) k = (ret, k')" "ef' = ef\<lparr>ef_flags := f (ef_flags ef)\<rparr>"
    using assms(3) unfolding flags_change_notify_def update_loop_spurious[OF assms(2)] by (auto split: prod.splits)
  then show ?thesis using notify_flags_ok[OF assms(1)] by simp
qed

lemma flags_run_ok: "flags_run T k ef W \<Longrightarrow> compatible T \<Longrightarrow> flags_ok T k ef W"
proof (induction rule: flags_run.induct)
  case (init p k0 ef k W)
  then show ?case
    by (auto simp: flags_ok_def wake_ok_def eh_event_flags_init_def eh_event_init_def eh_ret split: if_splits)
next
  case (enter k ef W ty w c r rt tm want timeout res k' ob)
  then show ?case using enter_flags_ok by blast
next
  case (round k ef W r rt ty w c re tm timeout res k' ob)
  then show ?case using round_flags_ok by blast
next
  case (set_bits k ef W obs fl ret ef' k')
  then show ?case using change_flags_ok unfolding eh_event_flags_set_bits_change_notify_def by blast
next
  case (clear_bits k ef W obs fl ret ef' k')
  then show ?case using change_flags_ok unfolding eh_event_flags_clear_bits_change_notify_def by blast
next
  case (update k ef W fl ret ef' k')
  then have u: "flags_ok T k ef W" by blast
  show ?case
  proof (cases "ef_flags ef = fl")
    case True
    then show ?thesis using update.hyps(2) u by (auto simp: eh_event_flags_update_change_notify_def)
  next
    case False
    then have "eh_event_notify (ef_event ef) k = (ret, k')" "ef' = ef\<lparr>ef_flags := fl\<rparr>"
      using update.hyps(2) by (auto simp: eh_event_flags_update_change_notify_def Let_def split: prod.splits)
    then show ?thesis using notify_flags_ok[OF u] by simp
  qed
next
  case (other k ef W k')
  then show ?case using flags_frame by blast
qed

subsection \<open>Properties\<close>

text \<open>
  C27. No waiter on event flags is forgotten: under any interleaving of waits and changes, no task sleeps
  while the bits it waits for are as it wants them, as long as the waits for set bits and the waits for
  cleared bits do not touch each other's bits on success.
\<close>

theorem flags_no_sleeper:
  assumes "flags_run T k ef W" "compatible T" "r \<in> set (receptor_list k (ef_event ef))"
    "t_state (tasks k (r_wakeup (receptors k r))) = WAIT"
  shows "W r \<in> T \<and> \<not> cond_holds (W r) (eh_event_flags_get ef)"
proof -
  have "flags_ok T k ef W" by (rule flags_run_ok[OF assms(1,2)])
  then show ?thesis using assms(3,4) by (auto simp: flags_ok_def awake_def eh_event_flags_get_def)
qed

text \<open>Flags 500 with the bits \<open>fl\<close>; task 1 waits for them with receptor 600 and sleeps.\<close>

definition ex_flags :: "eh_flags \<Rightarrow> event_flags" where
  "ex_flags fl = \<lparr>ef_event = 500, ef_flags = fl\<rparr>"

lemma ex_flags_init: "flags_run T ex_created (ex_flags 0) W"
  by (rule flags_run.init[where p = 500 and ?k0.0 = demo])
    (simp add: eh_event_flags_init_def eh_event_init_def ex_flags_def ex_created_def eh_ret)

lemma ex_sleeping:
  assumes "flags_run T ex_created (ex_flags fl) W" "(ty, w, c) \<in> T" "\<not> cond_holds (ty, w, c) fl"
  shows "flags_run T ex_waiting (ex_flags fl) (W(600 := (ty, w, c)))"
proof -
  let ?k = "eh_event_add_receptor_no_lock 500 600 (eh_event_receptor_init 600 1 ex_created)"
  let ?ob = "\<lambda>re. \<lparr>w_flags = fl, w_reality = re\<rparr>"
  have k: "receptor_list ?k 500 = [600]" "receptors ?k 600 = \<lparr>r_wakeup = 1, r_flags = 0\<rparr>" "current_task ?k = 1"
    by (simp_all add: eh_event_add_receptor_no_lock_def eh_event_receptor_init_def ex_created_fields)
  have c: "condition_event_flags ty w c k' (?ob re) = (False, ?ob re)" for k' re
    using assms(3) by (cases ty) (simp_all add: condition_event_flags_def)
  have "flags_enter ty 600 601 602 (ex_flags fl) w c False EH_TIME_FOREVER ex_created = Some (None, ?k, ?ob None)"
    using c by (cases ty) (simp_all add: flags_enter_def eh_event_flags_wait_bits_set_def eh_event_flags_wait_bits_clean_def
        eh_event_wait_condition_timeout_enter_def wait_mode_of_def eh_time_is_forever_def wait_enter_def eval_condition_def
        ex_flags_def ex_created_fields)
  from flags_run.enter[OF assms(1,2) _ _ this]
  have e: "flags_run T ?k (ex_flags fl) (W(600 := (ty, w, c)))"
    by (simp add: wait_args_def ex_flags_def ex_created_fields)
  have "eh_event_flags_wait_round ty 600 601 602 (ex_flags fl) w c None EH_TIME_FOREVER ?k = Some (None, ex_waiting, ?ob None)"
    by (simp add: eh_event_flags_wait_round_def eh_event_wait_condition_timeout_round_def wait_mode_of_def eh_time_is_forever_def
        wait_round_def wait_test_def ex_flags_def k r_error_def ex_waiting_def c del: One_nat_def)
  from flags_run.round[OF e _ _ _ _ this] show ?thesis by (simp add: ex_flags_def k del: One_nat_def)
qed

lemma ex_waiting_sleeps: "t_state (tasks ex_waiting 1) = WAIT"
  by (simp add: ex_waiting_def eh_task_set_current_state_def eh_event_add_receptor_no_lock_def
      eh_event_receptor_init_def ex_created_fields)

lemma flags_no_sleeper_witness: "\<not> cond_holds (WAIT_SET, 1, 1) (eh_event_flags_get (ex_flags 2)) \<and> 600 \<in> set (receptor_list ex_waiting 500)"
proof -
  have "eh_event_flags_set_bits_change_notify [0] (ex_flags 0) 2 ex_created = (EH_RET_OK, ex_flags 2, ex_created)"
    by (simp add: eh_event_flags_set_bits_change_notify_def flags_change_notify_def flags_update_loop.simps
        ex_flags_def eh_event_notify_def ex_created_fields)
  from flags_run.set_bits[OF ex_flags_init _ this]
  have "flags_run {(WAIT_SET, 1, 1)} ex_created (ex_flags 2) (\<lambda>_. (WAIT_SET, 1, 1))" by (simp add: ex_flags_def)
  from ex_sleeping[OF this, of WAIT_SET 1 1]
  have run: "flags_run {(WAIT_SET, 1, 1)} ex_waiting (ex_flags 2) ((\<lambda>_. (WAIT_SET, 1, 1))(600 := (WAIT_SET, 1, 1)))" by simp
  show ?thesis
    using flags_no_sleeper[OF run, of 600] ex_waiting_sleeps by (simp add: compatible_def ex_flags_def ex_waiting_fields)
qed

text \<open>
  C28. A change made by a successful wait is not notified: a task can sleep although the bits it waits for
  are cleared. One task waits for bit 0 to be cleared; another takes the set bit 0, clearing it.
\<close>

theorem flags_lost_wakeup:
  "\<exists>k ef W. flags_run {(WAIT_SET, 1, 1), (WAIT_CLEAN, 1, 0)} k ef W \<and> receptor_list k (ef_event ef) = [600]
    \<and> t_state (tasks k (r_wakeup (receptors k 600))) = WAIT \<and> cond_holds (W 600) (eh_event_flags_get ef)"
proof -
  let ?T = "{(WAIT_SET, 1, 1), (WAIT_CLEAN, 1, 0)} :: flags_cond set"
  let ?W = "\<lambda>_ :: ptr. (WAIT_SET, 1, 1) :: flags_cond"
  have "eh_event_flags_set_bits_change_notify [] (ex_flags 0) 1 ex_created = (EH_RET_OK, ex_flags 1, ex_created)"
    by (simp add: eh_event_flags_set_bits_change_notify_def flags_change_notify_def flags_update_loop.simps
        ex_flags_def eh_event_notify_def ex_created_fields)
  from flags_run.set_bits[OF ex_flags_init _ this] have "flags_run ?T ex_created (ex_flags 1) ?W" by simp
  from ex_sleeping[OF this, of WAIT_CLEAN 1 0]
  have s: "flags_run ?T ex_waiting (ex_flags 1) (?W(600 := (WAIT_CLEAN, 1, 0)))" by simp
  let ?k = "ex_waiting\<lparr>current_task := 7\<rparr>"
  have u: "undisturbed 500 ex_waiting ?k" by (simp add: undisturbed_def awake_def)
  have o: "flags_run ?T ?k (ex_flags 1) (?W(600 := (WAIT_CLEAN, 1, 0)))"
    by (rule flags_run.other[OF s]) (simp add: ex_flags_def u)
  have "flags_enter WAIT_SET 700 701 702 (ex_flags 1) 1 1 False EH_TIME_FOREVER ?k
      = Some (Some EH_RET_OK, ?k, \<lparr>w_flags = 0, w_reality = None\<rparr>)"
    by (simp add: flags_enter_def eh_event_flags_wait_bits_set_def eh_event_wait_condition_timeout_enter_def wait_mode_of_def
        eh_time_is_forever_def wait_enter_def eval_condition_def ex_flags_def condition_event_flags_def)
  from flags_run.enter[OF o _ _ _ this]
  have "flags_run ?T ?k (ex_flags 0) (?W(600 := (WAIT_CLEAN, 1, 0), 700 := (WAIT_SET, 1, 1)))"
    by (simp add: wait_args_def ex_flags_def ex_waiting_fields)
  moreover have "receptor_list ?k (ef_event (ex_flags 0)) = [600]" "t_state (tasks ?k (r_wakeup (receptors ?k 600))) = WAIT"
    "cond_holds ((?W(600 := (WAIT_CLEAN, 1, 0), 700 := (WAIT_SET, 1, 1))) 600) (eh_event_flags_get (ex_flags 0))"
    using ex_waiting_sleeps by (simp_all add: ex_flags_def ex_waiting_fields eh_event_flags_get_def)
  ultimately show ?thesis by blast
qed

end
