(* ===== verification/Eh_Formatio.thy ===== *)
theory Eh_Formatio
  imports Eh_Prelude Complex_Main "HOL-Library.Log_Nat"
begin

text \<open>
  Formatted output (\<^verbatim>\<open>src/src/general/eh_formatio.c\<close>). Streams are states that are passed along; a
  character is a byte. Format strings and string arguments end where the list ends. \<open>int\<close> variables are
  unbounded here; reading a width or a precision that overflows, an argument of another type than
  the conversion reads, and writes outside a buffer have no result (\<open>None\<close>). \<open>alloc\<close> tells which
  allocations succeed. The data model is LP64.
\<close>

subsection \<open>Streams\<close>

record fstream =
  f_size :: nat
  f_cache :: "char list"
  f_write :: "char list list"

record nstream =
  nc_write :: "char list list"
  nc_finish :: nat

record mstream =
  mb_buf :: "char list"
  mb_pos :: nat

datatype stream = Function_Stream fstream | Function_No_Cache nstream | Memory_Stream mstream

text \<open>The cache holds the bytes up to \<open>pos\<close>; \<open>f_write\<close> and \<open>nc_write\<close> record the calls of the write function.\<close>

definition f_flush :: "fstream \<Rightarrow> fstream" where
  "f_flush f = f\<lparr>f_write := f_write f @ [f_cache f], f_cache := []\<rparr>"

fun streamout_in_byte :: "char \<Rightarrow> stream \<Rightarrow> stream" where
  "streamout_in_byte ch (Function_Stream f) =
     (let room = length (f_cache f) < f_size f;
          f = (if room then f\<lparr>f_cache := f_cache f @ [ch]\<rparr> else f)
      in Function_Stream (if length (f_cache f) = f_size f \<or> (room \<and> ch = CHR 0x0A) then f_flush f else f))"
| "streamout_in_byte ch (Function_No_Cache s) = Function_No_Cache (s\<lparr>nc_write := nc_write s @ [[ch]]\<rparr>)"
| "streamout_in_byte ch (Memory_Stream m) =
     Memory_Stream (if mb_pos m < length (mb_buf m)
                    then m\<lparr>mb_buf := (mb_buf m)[mb_pos m := ch], mb_pos := Suc (mb_pos m)\<rparr> else m)"

text \<open>Finishing a memory stream of size 0 writes in front of its buffer.\<close>

fun streamout_finish :: "stream \<Rightarrow> stream option" where
  "streamout_finish (Function_Stream f) = Some (Function_Stream (if f_cache f \<noteq> [] then f_flush f else f))"
| "streamout_finish (Function_No_Cache s) = Some (Function_No_Cache (s\<lparr>nc_finish := Suc (nc_finish s)\<rparr>))"
| "streamout_finish (Memory_Stream m) =
     (if mb_pos m < length (mb_buf m) then Some (Memory_Stream (m\<lparr>mb_buf := (mb_buf m)[mb_pos m := CHR 0x00]\<rparr>))
      else if mb_buf m = [] then None
      else Some (Memory_Stream (m\<lparr>mb_buf := (mb_buf m)[length (mb_buf m) - 1 := CHR 0x00]\<rparr>)))"

definition eh_stream_function_init :: "nat \<Rightarrow> stream" where
  "eh_stream_function_init cache_size = Function_Stream \<lparr>f_size = cache_size, f_cache = [], f_write = []\<rparr>"

definition eh_stream_function_no_cache_init :: stream where
  "eh_stream_function_no_cache_init = Function_No_Cache \<lparr>nc_write = [], nc_finish = 0\<rparr>"

definition eh_stream_memory_init :: "char list \<Rightarrow> stream" where
  "eh_stream_memory_init buf = Memory_Stream \<lparr>mb_buf = buf, mb_pos = 0\<rparr>"

text \<open>Several bytes one after the other.\<close>

definition put_bytes :: "char list \<Rightarrow> stream \<Rightarrow> stream" where
  "put_bytes cs st = fold streamout_in_byte cs st"

subsection \<open>Flags and digits\<close>

definition FORMAT_LEFT :: u32 where "FORMAT_LEFT = 0x1"
definition FORMAT_PLUS :: u32 where "FORMAT_PLUS = 0x2"
definition FORMAT_SPACE :: u32 where "FORMAT_SPACE = 0x4"
definition FORMAT_SPECIAL :: u32 where "FORMAT_SPECIAL = 0x8"
definition FORMAT_ZEROPAD :: u32 where "FORMAT_ZEROPAD = 0x10"
definition FORMAT_LARGE :: u32 where "FORMAT_LARGE = 0x20"
definition FORMAT_SIGNED :: u32 where "FORMAT_SIGNED = 0x40"
definition FORMAT_FLOAT_E :: u32 where "FORMAT_FLOAT_E = 0x80"
definition FORMAT_FLOAT_F :: u32 where "FORMAT_FLOAT_F = 0x100"
definition FORMAT_FLOAT_G :: u32 where "FORMAT_FLOAT_G = 0x200"

definition has_flag :: "u32 \<Rightarrow> u32 \<Rightarrow> bool" where
  "has_flag flags f \<longleftrightarrow> flags AND f \<noteq> 0"

definition FORMAT_STACK_CACHE_SIZE :: nat where "FORMAT_STACK_CACHE_SIZE = 16"
definition FORMAT_FLOAT_POWERS_TAB_SIZE :: nat where "FORMAT_FLOAT_POWERS_TAB_SIZE = 19"

definition small_digits :: string where "small_digits = ''0123456789abcdef''"
definition large_digits :: string where "large_digits = ''0123456789ABCDEF''"

datatype base_type = BASE_TYPE_BIN | BASE_TYPE_OCT | BASE_TYPE_DEC | BASE_TYPE_HEX

primrec base_value :: "base_type \<Rightarrow> u64" where
  "base_value BASE_TYPE_BIN = 2"
| "base_value BASE_TYPE_OCT = 8"
| "base_value BASE_TYPE_DEC = 10"
| "base_value BASE_TYPE_HEX = 16"

datatype format_qualifier = QUALIFIER_NONE | QUALIFIER_LONG | QUALIFIER_LONG_LONG | QUALIFIER_SHORT
  | QUALIFIER_CHAR | QUALIFIER_SIZE_T

definition num_rsh :: "u64 \<Rightarrow> base_type \<Rightarrow> nat \<times> u64" where
  "num_rsh num base = (unat (num mod base_value base), num div base_value base)"

function num_bit_count :: "u64 \<Rightarrow> base_type \<Rightarrow> nat" where
  "num_bit_count num base =
     (let num = num div base_value base in if num = 0 then 1 else Suc (num_bit_count num base))"
  by auto
termination
proof (relation "measure (\<lambda>(num, _). unat num)")
  fix num n :: u64 and base
  assume "n = num div base_value base" "n \<noteq> 0"
  moreover have "1 < unat (base_value base)" by (cases base) simp_all
  ultimately show "((n, base), num, base) \<in> measure (\<lambda>(num, _). unat num)"
    by (simp add: unat_div word_unat_eq_iff div_less_dividend div_greater_zero_iff)
qed simp

declare num_bit_count.simps [simp del]

text \<open>The loop that fills a buffer of \<open>i\<close> characters from its end.\<close>

primrec number_buf :: "string \<Rightarrow> base_type \<Rightarrow> nat \<Rightarrow> u64 \<Rightarrow> char list" where
  "number_buf digits base 0 num = []"
| "number_buf digits base (Suc i) num =
     (let (d, rest) = num_rsh num base in number_buf digits base i rest @ [digits ! d])"

subsection \<open>Characters, strings and integers\<close>

definition vprintf_char :: "char \<Rightarrow> int \<Rightarrow> u32 \<Rightarrow> stream \<Rightarrow> int \<times> stream" where
  "vprintf_char ch field_width flags st =
     (let n = (if field_width \<le> 1 then 1 else field_width);
          st = (if has_flag flags FORMAT_LEFT then streamout_in_byte ch st else st);
          st = put_bytes (replicate (nat (field_width - 1)) CHR '' '') st;
          st = (if \<not> has_flag flags FORMAT_LEFT then streamout_in_byte ch st else st)
      in (n, st))"

text \<open>\<open>None\<close> is the null pointer.\<close>

definition vprintf_string :: "char list option \<Rightarrow> int \<Rightarrow> int \<Rightarrow> u32 \<Rightarrow> stream \<Rightarrow> int \<times> stream" where
  "vprintf_string s field_width precision flags st =
     (let s = (case s of None \<Rightarrow> ''(null)'' | Some s \<Rightarrow> s);
          s = (if precision < 0 then s else take (nat precision) s);
          len = int (length s)
      in if field_width < 0 then (len, put_bytes s st)
         else if field_width \<le> len then (len, put_bytes s st)
         else
           (let diff = nat (field_width - len);
                st = (if \<not> has_flag flags FORMAT_LEFT then put_bytes (replicate diff CHR '' '') st else st);
                st = put_bytes s st;
                st = (if has_flag flags FORMAT_LEFT then put_bytes (replicate diff CHR '' '') st else st)
            in (len + int diff, st)))"

text \<open>The characters \<open>vprintf_number\<close> puts out, in their order; none when the allocation fails.\<close>

definition number_text ::
  "(nat \<Rightarrow> bool) \<Rightarrow> u64 \<Rightarrow> int \<Rightarrow> int \<Rightarrow> u32 \<Rightarrow> base_type \<Rightarrow> char list" where
  "number_text alloc num field_width precision flags base =
     (let digits = (if has_flag flags FORMAT_LARGE then large_digits else small_digits);
          negative = (has_flag flags FORMAT_SIGNED \<and> sint num < 0);
          num = (if negative then - num else num);
          sign = (if negative then ''-'' else if has_flag flags FORMAT_PLUS then ''+''
                  else if has_flag flags FORMAT_SPACE then '' '' else []);
          bit_count = num_bit_count num base
      in if bit_count > FORMAT_STACK_CACHE_SIZE \<and> \<not> alloc bit_count then []
         else
           (let buf = number_buf digits base bit_count num;
                special = (if has_flag flags FORMAT_SPECIAL
                           then (case base of
                                   BASE_TYPE_OCT \<Rightarrow> ''0''
                                 | BASE_TYPE_HEX \<Rightarrow> if has_flag flags FORMAT_LARGE then ''0X'' else ''0x''
                                 | BASE_TYPE_BIN \<Rightarrow> if has_flag flags FORMAT_LARGE then ''0B'' else ''0b''
                                 | BASE_TYPE_DEC \<Rightarrow> [])
                           else []);
                reality_count = int (length sign) + int (length special) + int bit_count;
                zeropad_count = (if precision > int bit_count then precision - int bit_count else 0);
                (flags, reality_count) =
                  (if precision \<ge> 0 then (flags AND NOT FORMAT_ZEROPAD, reality_count + zeropad_count)
                   else (flags, reality_count));
                (zeropad_count, spacepad_count) =
                  (if field_width > reality_count
                   then (if has_flag flags FORMAT_ZEROPAD then (field_width - reality_count, 0)
                         else (zeropad_count, field_width - reality_count))
                   else (zeropad_count, 0));
                spaces = replicate (nat spacepad_count) CHR '' ''
            in (if \<not> has_flag flags FORMAT_LEFT then spaces else []) @ sign @ special
               @ replicate (nat zeropad_count) CHR ''0'' @ buf
               @ (if has_flag flags FORMAT_LEFT then spaces else [])))"

definition vprintf_number ::
  "(nat \<Rightarrow> bool) \<Rightarrow> u64 \<Rightarrow> int \<Rightarrow> int \<Rightarrow> u32 \<Rightarrow> base_type \<Rightarrow> stream \<Rightarrow> int \<times> stream" where
  "vprintf_number alloc num field_width precision flags base st =
     (let out = number_text alloc num field_width precision flags base in (int (length out), put_bytes out st))"

subsection \<open>Arrays\<close>

definition item_size_of :: "format_qualifier \<Rightarrow> nat" where
  "item_size_of q =
     (case q of QUALIFIER_LONG \<Rightarrow> 8 | QUALIFIER_LONG_LONG \<Rightarrow> 8 | QUALIFIER_SHORT \<Rightarrow> 2 | QUALIFIER_CHAR \<Rightarrow> 1 | _ \<Rightarrow> 4)"

definition byte_digits :: "string \<Rightarrow> u8 \<Rightarrow> char list" where
  "byte_digits digits b = [digits ! unat (drop_bit 4 b AND 0x0F), digits ! unat (b AND 0x0F)]"

text \<open>The items, least significant byte first in memory, with a blank between them.\<close>

definition array_items :: "string \<Rightarrow> u8 list \<Rightarrow> nat \<Rightarrow> nat \<Rightarrow> char list" where
  "array_items digits array array_len item_size =
     concat (map (\<lambda>i. (if i \<noteq> 0 then '' '' else [])
                  @ concat (map (\<lambda>j. byte_digits digits (array ! (i * item_size + j))) (rev [0..<item_size])))
        [0..<array_len])"

definition array_text :: "u8 list \<Rightarrow> int \<Rightarrow> int \<Rightarrow> u32 \<Rightarrow> format_qualifier \<Rightarrow> char list option" where
  "array_text array field_width precision flags qualifier =
     (if precision < 0 then Some []
      else if length array < nat precision then None
      else
        (let digits = (if has_flag flags FORMAT_LARGE then large_digits else small_digits);
             item_size = item_size_of qualifier;
             array_len = nat precision div item_size;
             remainder = nat precision mod item_size;
             array_reality_len = int array_len - (if remainder \<noteq> 0 then 1 else 0);
             valid_len = array_reality_len * (int item_size * 2) + (array_reality_len - 1);
             spaces = replicate (nat (field_width - valid_len)) CHR '' '';
             tail = (if remainder \<noteq> 0
                     then '' '' @ replicate ((item_size - remainder) * 2) CHR ''?''
                       @ concat (map (\<lambda>j. byte_digits digits (array ! (array_len * item_size + j))) (rev [0..<remainder]))
                     else [])
         in Some ((if \<not> has_flag flags FORMAT_LEFT then spaces else [])
                  @ array_items digits array array_len item_size @ tail
                  @ (if has_flag flags FORMAT_LEFT then spaces else []))))"

definition vprintf_array :: "u8 list \<Rightarrow> int \<Rightarrow> int \<Rightarrow> u32 \<Rightarrow> format_qualifier \<Rightarrow> stream \<Rightarrow> (int \<times> stream) option" where
  "vprintf_array array field_width precision flags qualifier st =
     map_option (\<lambda>out. (int (length out), put_bytes out st)) (array_text array field_width precision flags qualifier)"

subsection \<open>Floating-point numbers\<close>

text \<open>
  A \<open>double\<close> is a sign and a rational magnitude, or one of the special values. The operations
  of C are those of rational numbers, rounded by \<open>rnd\<close>: to the nearest number with 53 significant
  bits (fewer below \<open>2 ^ -1022\<close>), ties to even. Overflow is not modelled: no operation below overflows
  on numbers it is applied to.
\<close>

datatype double = Finite bool rat | Infinite bool | NaN

definition flog2 :: "rat \<Rightarrow> int" where
  "flog2 x = (if x \<ge> 1 then int (floorlog 2 (nat \<lfloor>x\<rfloor>)) - 1 else - int (floorlog 2 (nat \<lceil>1 / x\<rceil> - 1)))"

definition pow2 :: "int \<Rightarrow> rat" where
  "pow2 e = (if e \<ge> 0 then 2 ^ nat e else 1 / 2 ^ nat (- e))"

definition rnd_pos :: "rat \<Rightarrow> rat" where
  "rnd_pos x =
     (let unit = pow2 (max (flog2 x) (-1022) - 52);
          q = \<lfloor>x / unit\<rfloor>;
          r = x / unit - of_int q
      in of_int (if r > 1/2 \<or> (r = 1/2 \<and> odd q) then q + 1 else q) * unit)"

definition rnd :: "rat \<Rightarrow> rat" where
  "rnd x = (if x = 0 then 0 else if x > 0 then rnd_pos x else - rnd_pos (- x))"

text \<open>The conversion to an integer type cuts off the fraction.\<close>

definition trunc :: "rat \<Rightarrow> int" where
  "trunc x = (if x \<ge> 0 then \<lfloor>x\<rfloor> else \<lceil>x\<rceil>)"

definition to_u64 :: "rat \<Rightarrow> u64" where
  "to_u64 x = word_of_int (trunc x)"

definition of_u64 :: "u64 \<Rightarrow> rat" where
  "of_u64 n = rnd (of_int (uint n))"

definition powers_of_10 :: "nat \<Rightarrow> rat" where
  "powers_of_10 p = 10 ^ p"

record double_components =
  integral :: u64
  fractional :: u64
  is_negative :: bool

definition clamp_precision :: "nat \<Rightarrow> nat" where
  "clamp_precision precision =
     (if precision \<ge> FORMAT_FLOAT_POWERS_TAB_SIZE then FORMAT_FLOAT_POWERS_TAB_SIZE - 1 else precision)"

definition float_decentralized :: "bool \<Rightarrow> rat \<Rightarrow> nat \<Rightarrow> double_components" where
  "float_decentralized sign abs_number precision =
     (let integ = to_u64 abs_number;
          precision = clamp_precision precision;
          remainder = rnd (rnd (abs_number - of_u64 integ) * powers_of_10 precision);
          frac = to_u64 remainder;
          remainder = rnd (remainder - of_u64 frac);
          (integ, frac) =
            (if remainder > 1/2
             then (if of_u64 (frac + 1) \<ge> powers_of_10 precision then (integ + 1, 0) else (integ, frac + 1))
             else if remainder = 1/2 \<and> (frac = 0 \<or> frac AND 1 \<noteq> 0) then (integ, frac + 1)
             else (integ, frac));
          integ =
            (if precision = 0
             then (let remainder = rnd (abs_number - of_u64 integ)
                   in if (\<not> remainder < 1/2 \<or> remainder > 1/2) \<and> integ AND 1 \<noteq> 0 then integ + 1 else integ)
             else integ)
      in \<lparr>integral = integ, fractional = frac, is_negative = sign\<rparr>)"

text \<open>A failing allocation is written through.\<close>

definition float_text ::
  "(nat \<Rightarrow> bool) \<Rightarrow> double_components \<Rightarrow> int \<Rightarrow> nat \<Rightarrow> u32 \<Rightarrow> int \<Rightarrow> char list option" where
  "float_text alloc num field_width precision flags floored_exp10 =
     (let fractional_precision_pad_len = precision - clamp_precision precision;
          precision = clamp_precision precision;
          sign = (if is_negative num then ''-'' else if has_flag flags FORMAT_PLUS then ''+''
                  else if has_flag flags FORMAT_SPACE then '' '' else []);
          dot = (if precision > 0 \<or> has_flag flags FORMAT_SPECIAL then ''.'' else []);
          e = has_flag flags FORMAT_FLOAT_E;
          exponent_sign_e = (if has_flag flags FORMAT_LARGE then ''E'' else ''e'');
          exponent_sign = (if floored_exp10 \<ge> 0 then ''+'' else ''-'');
          exponent = word_of_int (abs floored_exp10) :: u64;
          exponent_valid_len = (if e then num_bit_count exponent BASE_TYPE_DEC else 0);
          integral_valid_len = num_bit_count (integral num) BASE_TYPE_DEC;
          fractional_valid_len = (if precision > 0 then num_bit_count (fractional num) BASE_TYPE_DEC else 0);
          fractional_pad_len = (if precision > 0 then precision - fractional_valid_len else 0);
          need_buf_min_size = max (max integral_valid_len fractional_valid_len) exponent_valid_len
      in if need_buf_min_size > FORMAT_STACK_CACHE_SIZE \<and> \<not> alloc need_buf_min_size then None
         else
           (let dec = number_buf small_digits BASE_TYPE_DEC;
                exponent_out = (if e then exponent_sign_e @ exponent_sign @ (if exponent_valid_len < 2 then ''0'' else [])
                                  @ dec exponent_valid_len exponent else []);
                valid_len = length sign + integral_valid_len + length dot + fractional_pad_len + fractional_valid_len
                  + fractional_precision_pad_len + (if e then 2 + (if exponent_valid_len < 2 then 2 else exponent_valid_len) else 0);
                pad = nat (field_width - int valid_len)
            in Some ((if \<not> has_flag flags FORMAT_LEFT \<and> \<not> has_flag flags FORMAT_ZEROPAD then replicate pad CHR '' '' else [])
                  @ sign @ (if has_flag flags FORMAT_ZEROPAD then replicate pad CHR ''0'' else [])
                  @ dec integral_valid_len (integral num) @ dot @ replicate fractional_pad_len CHR ''0''
                  @ dec fractional_valid_len (fractional num) @ replicate fractional_precision_pad_len CHR ''0'' @ exponent_out
                  @ (if has_flag flags FORMAT_LEFT \<and> \<not> has_flag flags FORMAT_ZEROPAD then replicate pad CHR '' '' else []))))"

definition vprintf_float_decimalism_or_normalized ::
  "(nat \<Rightarrow> bool) \<Rightarrow> double_components \<Rightarrow> int \<Rightarrow> nat \<Rightarrow> u32 \<Rightarrow> int \<Rightarrow> stream \<Rightarrow> (int \<times> stream) option" where
  "vprintf_float_decimalism_or_normalized alloc num field_width precision flags floored_exp10 st =
     map_option (\<lambda>out. (int (length out), put_bytes out st)) (float_text alloc num field_width precision flags floored_exp10)"

definition FORMAT_FLOAT_F_RANGE_MAX :: rat where "FORMAT_FLOAT_F_RANGE_MAX = 10 ^ 18"

definition vprintf_float_f_or_g :: "(nat \<Rightarrow> bool) \<Rightarrow> bool \<Rightarrow> rat \<Rightarrow> int \<Rightarrow> int \<Rightarrow> u32 \<Rightarrow> stream \<Rightarrow> (int \<times> stream) option" where
  "vprintf_float_f_or_g alloc sign num field_width precision flags st =
     (if num > FORMAT_FLOAT_F_RANGE_MAX then Some (0, st)
      else
        (let precision = nat (if precision < 0 then 6 else precision)
         in vprintf_float_decimalism_or_normalized alloc (float_decentralized sign num precision) field_width precision flags 0 st))"

text \<open>The exponent format. \<open>dbl_exponent\<close> is the exponent field of a positive number, \<open>dbl_mantissa\<close> the number with the exponent 0.\<close>

definition FORMAT_DBL_EXP_OFFSET :: int where "FORMAT_DBL_EXP_OFFSET = 1023"
definition FORMAT_DBL_MIN_POW10 :: rat where "FORMAT_DBL_MIN_POW10 = rnd (1 / 10 ^ 308)"
definition DBL_MAX_10_EXP :: int where "DBL_MAX_10_EXP = 308"

definition dbl_exponent :: "rat \<Rightarrow> int" where
  "dbl_exponent x = (if x < pow2 (-1022) then 0 else flog2 x + FORMAT_DBL_EXP_OFFSET)"

definition dbl_mantissa :: "rat \<Rightarrow> rat" where
  "dbl_mantissa x = (if x < pow2 (-1022) then 1 + x / pow2 (-1022) else x / pow2 (flog2 x))"

definition bastardized_floor :: "rat \<Rightarrow> int" where
  "bastardized_floor x =
     (if x \<ge> 0 then trunc x else (let n = trunc x in if of_int n = x then n else n - 1))"

definition pow10_of_int :: "int \<Rightarrow> rat" where
  "pow10_of_int floored_exp10 =
     (if floored_exp10 = - DBL_MAX_10_EXP then FORMAT_DBL_MIN_POW10
      else
        (let f = of_int floored_exp10;
             exp2 = bastardized_floor (rnd (rnd (f * rnd (3321928094887362 / 10 ^ 15)) + 1/2));
             z = rnd (rnd (f * rnd (2302585092994046 / 10 ^ 15)) - rnd (of_int exp2 * rnd (6931471805599453 / 10 ^ 16)));
             z2 = rnd (z * z);
             exponent = (exp2 + FORMAT_DBL_EXP_OFFSET) mod 2048;
             d = (if exponent = 0 then 0 else pow2 (exponent - FORMAT_DBL_EXP_OFFSET));
             q = rnd (z2 / rnd (6 + rnd (z2 / rnd (10 + rnd (z2 / 14)))))
         in rnd (d * rnd (1 + rnd (rnd (2 * z) / rnd (rnd (2 - z) + q))))))"

definition log10_of_positive :: "rat \<Rightarrow> rat" where
  "log10_of_positive x =
     (let exp2 = dbl_exponent x - FORMAT_DBL_EXP_OFFSET;
          z = rnd (dbl_mantissa x - 3/2);
          c0 = rnd (1760912590556812420 / 10 ^ 19);
          c1 = rnd (2895296546021678851 / 10 ^ 19);
          c2 = rnd (965098848673892950 / 10 ^ 19);
          c3 = rnd (428932821632841311 / 10 ^ 19);
          c4 = rnd (30102999566398119521 / 10 ^ 20)
      in rnd (rnd (rnd (rnd (c0 + rnd (z * c1)) - rnd (rnd (z * z) * c2)) + rnd (rnd (rnd (z * z) * z) * c3))
              + rnd (of_int exp2 * c4)))"

record scaling_factor =
  raw_factor :: rat
  multiply :: bool

definition apply_scaling :: "rat \<Rightarrow> scaling_factor \<Rightarrow> rat" where
  "apply_scaling num n = (if multiply n then rnd (num * raw_factor n) else rnd (num / raw_factor n))"

definition unapply_scaling :: "rat \<Rightarrow> scaling_factor \<Rightarrow> rat" where
  "unapply_scaling num n = (if multiply n then rnd (num / raw_factor n) else rnd (num * raw_factor n))"

definition update_normalization :: "scaling_factor \<Rightarrow> rat \<Rightarrow> scaling_factor" where
  "update_normalization sf extra =
     (if multiply sf then \<lparr>raw_factor = rnd (raw_factor sf * extra), multiply = True\<rparr>
      else
        (let factor_exp2 = dbl_exponent (raw_factor sf) - FORMAT_DBL_EXP_OFFSET;
             extra_factor_exp2 = dbl_exponent extra - FORMAT_DBL_EXP_OFFSET
         in if abs factor_exp2 > abs extra_factor_exp2
            then \<lparr>raw_factor = rnd (raw_factor sf / extra), multiply = False\<rparr>
            else \<lparr>raw_factor = rnd (extra / raw_factor sf), multiply = True\<rparr>))"

definition float_normalized_decentralized ::
  "bool \<Rightarrow> nat \<Rightarrow> rat \<Rightarrow> scaling_factor \<Rightarrow> int \<Rightarrow> double_components" where
  "float_normalized_decentralized negative precision num normalization floored_exp10 =
     (let scaled = apply_scaling num normalization;
          close = (- floored_exp10 + int precision \<ge> DBL_MAX_10_EXP - 1);
          precision = clamp_precision precision
      in if close then float_decentralized negative scaled precision
         else
           (let integ = to_u64 scaled;
                remainder = rnd (num - unapply_scaling (of_u64 integ) normalization);
                prec_power_of_10 = powers_of_10 precision;
                account_for_precision = update_normalization normalization prec_power_of_10;
                scaled_remainder = apply_scaling remainder account_for_precision;
                frac = to_u64 scaled_remainder;
                scaled_remainder = rnd (scaled_remainder - of_u64 frac);
                frac = (if scaled_remainder \<ge> 1/2 then frac + 1 else frac);
                frac = (if scaled_remainder = 1/2 then frac AND NOT 1 else frac);
                (integ, frac) = (if of_u64 frac \<ge> prec_power_of_10 then (integ + 1, 0) else (integ, frac))
            in \<lparr>integral = integ, fractional = frac, is_negative = negative\<rparr>))"

text \<open>Zero is divided by the factor 0 and the result, not a number, is converted to an integer.\<close>

definition vprintf_float_e :: "(nat \<Rightarrow> bool) \<Rightarrow> bool \<Rightarrow> rat \<Rightarrow> int \<Rightarrow> int \<Rightarrow> u32 \<Rightarrow> stream \<Rightarrow> (int \<times> stream) option" where
  "vprintf_float_e alloc sign num field_width precision flags st =
     (let precision = nat (if precision < 0 then 6 else precision)
      in if num = 0 then None
         else
           (let exp10 = log10_of_positive num;
                floored_exp10 = bastardized_floor exp10;
                p10 = pow10_of_int floored_exp10;
                (floored_exp10, p10) = (if num < p10 then (floored_exp10 - 1, rnd (p10 / 10)) else (floored_exp10, p10));
                covered = (abs floored_exp10 < int FORMAT_FLOAT_POWERS_TAB_SIZE);
                normalization = \<lparr>raw_factor = (if covered then powers_of_10 (nat (abs floored_exp10)) else p10),
                                 multiply = (floored_exp10 < 0 \<and> covered)\<rparr>
            in vprintf_float_decimalism_or_normalized alloc
                 (float_normalized_decentralized sign precision num normalization floored_exp10)
                 field_width precision flags floored_exp10 st))"

definition vprintf_float :: "(nat \<Rightarrow> bool) \<Rightarrow> double \<Rightarrow> int \<Rightarrow> int \<Rightarrow> u32 \<Rightarrow> stream \<Rightarrow> (int \<times> stream) option" where
  "vprintf_float alloc num field_width precision flags st =
     (case num of
        Infinite negative \<Rightarrow>
          Some (vprintf_string (Some
            (if negative then (if has_flag flags FORMAT_LARGE then ''-INF'' else ''-inf'')
             else if has_flag flags FORMAT_PLUS then (if has_flag flags FORMAT_LARGE then ''+INF'' else ''+inf'')
             else if has_flag flags FORMAT_SPACE then (if has_flag flags FORMAT_LARGE then '' INF'' else '' inf'')
             else (if has_flag flags FORMAT_LARGE then ''INF'' else ''inf''))) field_width (-1) flags st)
      | NaN \<Rightarrow>
          Some (vprintf_string (Some (if has_flag flags FORMAT_LARGE then ''NAN'' else ''nan'')) field_width (-1) flags st)
      | Finite sign num \<Rightarrow>
          do {
            (n, st) \<leftarrow> (if has_flag flags FORMAT_FLOAT_F \<or> has_flag flags FORMAT_FLOAT_G
                       then vprintf_float_f_or_g alloc sign num field_width precision flags st else Some (0, st));
            if n > 0 then Some (n, st)
            else vprintf_float_e alloc sign num field_width precision
                   ((flags AND NOT (FORMAT_FLOAT_F OR FORMAT_FLOAT_G)) OR FORMAT_FLOAT_E) st
          })"

subsection \<open>Format strings\<close>

text \<open>The variable arguments, by the type they are passed with.\<close>

datatype va_arg = VInt u32 | VLong u64 | VPtr u64 | VStr "char list option" | VBytes "u8 list" | VDouble double

definition isdigit :: "char \<Rightarrow> bool" where
  "isdigit c \<longleftrightarrow> c \<in> set ''0123456789''"

definition digit_value :: "char \<Rightarrow> int" where
  "digit_value c = of_char c - 48"

text \<open>\<open>skip_atoi\<close> from the value \<open>i\<close> on.\<close>

fun skip_atoi :: "int \<Rightarrow> char list \<Rightarrow> (int \<times> char list) option" where
  "skip_atoi i [] = Some (i, [])"
| "skip_atoi i (c # s) =
     (if isdigit c
      then (let i = i * 10 + digit_value c in if i > 2147483647 then None else skip_atoi i s)
      else Some (i, c # s))"

fun parse_flags :: "u32 \<Rightarrow> char list \<Rightarrow> u32 \<times> char list" where
  "parse_flags flags [] = (flags, [])"
| "parse_flags flags (c # fmt) =
     (if c = CHR ''-'' then parse_flags (flags OR FORMAT_LEFT) fmt
      else if c = CHR ''+'' then parse_flags (flags OR FORMAT_PLUS) fmt
      else if c = CHR '' '' then parse_flags (flags OR FORMAT_SPACE) fmt
      else if c = CHR ''#'' then parse_flags (flags OR FORMAT_SPECIAL) fmt
      else if c = CHR ''0'' then parse_flags (flags OR FORMAT_ZEROPAD) fmt
      else (flags, c # fmt))"

definition parse_width :: "u32 \<Rightarrow> char list \<Rightarrow> va_arg list \<Rightarrow> (int \<times> u32 \<times> char list \<times> va_arg list) option" where
  "parse_width flags fmt args =
     (if fmt \<noteq> [] \<and> isdigit (hd fmt) then map_option (\<lambda>(w, fmt). (w, flags, fmt, args)) (skip_atoi 0 fmt)
      else if fmt \<noteq> [] \<and> hd fmt = CHR ''*''
      then (case args of
              VInt w # args \<Rightarrow>
                if sint w = -2147483648 then None
                else if sint w < 0 then Some (- sint w, flags OR FORMAT_LEFT, tl fmt, args)
                else Some (sint w, flags, tl fmt, args)
            | _ \<Rightarrow> None)
      else Some (-1, flags, fmt, args))"

definition parse_precision :: "char list \<Rightarrow> va_arg list \<Rightarrow> (int \<times> char list \<times> va_arg list) option" where
  "parse_precision fmt args =
     (if fmt \<noteq> [] \<and> hd fmt = CHR ''.''
      then
        (let fmt = tl fmt
         in if fmt \<noteq> [] \<and> isdigit (hd fmt) then map_option (\<lambda>(p, fmt). (p, fmt, args)) (skip_atoi 0 fmt)
            else if fmt \<noteq> [] \<and> hd fmt = CHR ''*''
            then (case args of VInt p # args \<Rightarrow> Some (if sint p < 0 then 0 else sint p, tl fmt, args) | _ \<Rightarrow> None)
            else Some (0, fmt, args))
      else Some (-1, fmt, args))"

definition parse_qualifier :: "char list \<Rightarrow> format_qualifier \<times> char list" where
  "parse_qualifier fmt =
     (if fmt \<noteq> [] \<and> hd fmt = CHR ''h''
      then (let fmt = tl fmt in if fmt \<noteq> [] \<and> hd fmt = CHR ''h'' then (QUALIFIER_CHAR, tl fmt) else (QUALIFIER_SHORT, fmt))
      else if fmt \<noteq> [] \<and> hd fmt = CHR ''l''
      then (let fmt = tl fmt in if fmt \<noteq> [] \<and> hd fmt = CHR ''l'' then (QUALIFIER_LONG_LONG, tl fmt) else (QUALIFIER_LONG, fmt))
      else if fmt \<noteq> [] \<and> hd fmt = CHR ''L'' then (QUALIFIER_LONG_LONG, tl fmt)
      else if fmt \<noteq> [] \<and> hd fmt = CHR ''z'' then (QUALIFIER_SIZE_T, tl fmt)
      else (QUALIFIER_NONE, fmt))"

text \<open>The argument of an integer conversion, extended to 64 bits.\<close>

definition number_arg :: "format_qualifier \<Rightarrow> bool \<Rightarrow> va_arg \<Rightarrow> u64 option" where
  "number_arg qualifier is_signed a =
     (case (qualifier, a) of
        (QUALIFIER_LONG, VLong x) \<Rightarrow> Some x
      | (QUALIFIER_LONG_LONG, VLong x) \<Rightarrow> Some x
      | (QUALIFIER_SIZE_T, VLong x) \<Rightarrow> Some x
      | (QUALIFIER_SHORT, VInt x) \<Rightarrow> Some (if is_signed then scast (ucast x :: 16 word) else ucast (ucast x :: 16 word))
      | (QUALIFIER_CHAR, VInt x) \<Rightarrow> Some (if is_signed then scast (ucast x :: 8 word) else ucast (ucast x :: 8 word))
      | (QUALIFIER_NONE, VInt x) \<Rightarrow> Some (if is_signed then scast x else ucast x)
      | _ \<Rightarrow> None)"

definition print_number ::
  "(nat \<Rightarrow> bool) \<Rightarrow> format_qualifier \<Rightarrow> int \<Rightarrow> int \<Rightarrow> u32 \<Rightarrow> base_type \<Rightarrow> va_arg list \<Rightarrow> stream \<Rightarrow> (int \<times> va_arg list \<times> stream) option" where
  "print_number alloc qualifier field_width precision flags base args st =
     (case args of
        [] \<Rightarrow> None
      | a # args \<Rightarrow>
          map_option (\<lambda>num. let (n, st) = vprintf_number alloc num field_width precision flags base st in (n, args, st))
            (number_arg qualifier (has_flag flags FORMAT_SIGNED) a))"

definition print_float ::
  "(nat \<Rightarrow> bool) \<Rightarrow> format_qualifier \<Rightarrow> int \<Rightarrow> int \<Rightarrow> u32 \<Rightarrow> va_arg list \<Rightarrow> stream \<Rightarrow> (int \<times> va_arg list \<times> stream) option" where
  "print_float alloc qualifier field_width precision flags args st =
     (if qualifier = QUALIFIER_LONG_LONG then Some (0, args, st)
      else
        (case args of
           VDouble d # args \<Rightarrow>
             map_option (\<lambda>(n, st). (n, args, st)) (vprintf_float alloc d field_width precision flags st)
         | _ \<Rightarrow> None))"

definition print_string :: "int \<Rightarrow> int \<Rightarrow> u32 \<Rightarrow> va_arg list \<Rightarrow> stream \<Rightarrow> (int \<times> va_arg list \<times> stream) option" where
  "print_string field_width precision flags args st =
     (case args of
        VStr s # args \<Rightarrow> (let (n, st) = vprintf_string s field_width precision flags st in Some (n, args, st))
      | _ \<Rightarrow> None)"

definition print_char :: "int \<Rightarrow> u32 \<Rightarrow> va_arg list \<Rightarrow> stream \<Rightarrow> (int \<times> va_arg list \<times> stream) option" where
  "print_char field_width flags args st =
     (case args of
        VInt x # args \<Rightarrow>
          (let (n, st) = vprintf_char (char_of (unat (ucast x :: u8))) field_width flags st in Some (n, args, st))
      | _ \<Rightarrow> None)"

definition print_pointer ::
  "(nat \<Rightarrow> bool) \<Rightarrow> int \<Rightarrow> int \<Rightarrow> u32 \<Rightarrow> va_arg list \<Rightarrow> stream \<Rightarrow> (int \<times> va_arg list \<times> stream) option" where
  "print_pointer alloc field_width precision flags args st =
     (case args of
        VPtr x # args \<Rightarrow>
          (let (field_width, flags) =
             (if field_width < 0 then (18, flags OR (FORMAT_ZEROPAD OR FORMAT_SPECIAL)) else (field_width, flags));
               (n, st) = vprintf_number alloc x field_width precision flags BASE_TYPE_HEX st
           in Some (n, args, st))
      | _ \<Rightarrow> None)"

definition print_array ::
  "format_qualifier \<Rightarrow> int \<Rightarrow> int \<Rightarrow> u32 \<Rightarrow> va_arg list \<Rightarrow> stream \<Rightarrow> (int \<times> va_arg list \<times> stream) option" where
  "print_array qualifier field_width precision flags args st =
     (case args of
        VBytes a # args \<Rightarrow>
          map_option (\<lambda>(n, st). (n, args, st)) (vprintf_array a field_width precision flags qualifier st)
      | _ \<Rightarrow> None)"

text \<open>
  The switch on the conversion character. The result has the characters counted, whether the conversion
  is known, and the arguments that are left. An unknown conversion prints the \<open>%\<close> without counting it.
\<close>

definition print_conversion ::
  "(nat \<Rightarrow> bool) \<Rightarrow> char \<Rightarrow> format_qualifier \<Rightarrow> int \<Rightarrow> int \<Rightarrow> u32 \<Rightarrow> va_arg list \<Rightarrow> stream
     \<Rightarrow> (int \<times> bool \<times> va_arg list \<times> stream) option" where
  "print_conversion alloc c qualifier field_width precision flags args st =
     (let known = map_option (\<lambda>(n, args, st). (n, True, args, st));
          number = (\<lambda>flags base. known (print_number alloc qualifier field_width precision flags base args st));
          float = (\<lambda>flags. known (print_float alloc qualifier field_width precision flags args st));
          array = (\<lambda>flags. known (print_array qualifier field_width precision flags args st))
      in if c = CHR ''s'' then known (print_string field_width precision flags args st)
         else if c = CHR ''d'' \<or> c = CHR ''i'' then number (flags OR FORMAT_SIGNED) BASE_TYPE_DEC
         else if c = CHR ''u'' then number flags BASE_TYPE_DEC
         else if c = CHR ''X'' then number (flags OR FORMAT_LARGE) BASE_TYPE_HEX
         else if c = CHR ''x'' then number flags BASE_TYPE_HEX
         else if c = CHR ''c'' then known (print_char field_width flags args st)
         else if c = CHR ''%'' then Some (1, True, args, streamout_in_byte CHR ''%'' st)
         else if c = CHR ''B'' then number (flags OR FORMAT_LARGE) BASE_TYPE_BIN
         else if c = CHR ''b'' then number flags BASE_TYPE_BIN
         else if c = CHR ''o'' then number flags BASE_TYPE_OCT
         else if c = CHR ''p'' then known (print_pointer alloc field_width precision flags args st)
         else if c = CHR ''E'' then float (flags OR FORMAT_LARGE OR FORMAT_FLOAT_E)
         else if c = CHR ''e'' then float (flags OR FORMAT_FLOAT_E)
         else if c = CHR ''G'' then float (flags OR FORMAT_LARGE OR FORMAT_FLOAT_G)
         else if c = CHR ''g'' then float (flags OR FORMAT_FLOAT_G)
         else if c = CHR ''F'' then float (flags OR FORMAT_LARGE OR FORMAT_FLOAT_F)
         else if c = CHR ''f'' then float (flags OR FORMAT_FLOAT_F)
         else if c = CHR ''Q'' then array (flags OR FORMAT_LARGE)
         else if c = CHR ''q'' then array flags
         else Some (0, False, args, streamout_in_byte CHR ''%'' st))"

text \<open>One conversion: \<open>fmt\<close> is the format behind the \<open>%\<close>, where an unknown conversion goes on.\<close>

definition conversion ::
  "(nat \<Rightarrow> bool) \<Rightarrow> char list \<Rightarrow> va_arg list \<Rightarrow> stream \<Rightarrow> (int \<times> char list \<times> va_arg list \<times> stream) option" where
  "conversion alloc fmt args st =
     (case parse_flags 0 fmt of (flags, f) \<Rightarrow>
      case parse_width flags f args of None \<Rightarrow> None | Some (field_width, flags, f, args) \<Rightarrow>
      case parse_precision f args of None \<Rightarrow> None | Some (precision, f, args) \<Rightarrow>
      case parse_qualifier f of (qualifier, f) \<Rightarrow>
      map_option (\<lambda>(n, known, args, st). (n, if known then tl f else fmt, args, st))
        (print_conversion alloc (case f of [] \<Rightarrow> CHR 0x00 | c # _ \<Rightarrow> c) qualifier field_width precision flags args st))"

lemma skip_atoi_shorter: "skip_atoi i s = Some (v, s') \<Longrightarrow> length s' \<le> length s"
  by (induction i s rule: skip_atoi.induct) (auto simp: Let_def split: if_splits)

lemma parse_shorter:
  "parse_flags fl fmt = (fl', f) \<Longrightarrow> length f \<le> length fmt"
  "parse_width fl fmt args = Some (w, fl', f, args') \<Longrightarrow> length f \<le> length fmt"
  "parse_precision fmt args = Some (p, f, args') \<Longrightarrow> length f \<le> length fmt"
  "parse_qualifier fmt = (q, f) \<Longrightarrow> length f \<le> length fmt"
proof -
  show "parse_flags fl fmt = (fl', f) \<Longrightarrow> length f \<le> length fmt"
    by (induction fl fmt rule: parse_flags.induct) (auto split: if_splits)
  show "parse_width fl fmt args = Some (w, fl', f, args') \<Longrightarrow> length f \<le> length fmt"
    by (auto simp: parse_width_def split: if_splits list.splits va_arg.splits dest: skip_atoi_shorter)
  show "parse_precision fmt args = Some (p, f, args') \<Longrightarrow> length f \<le> length fmt"
    using skip_atoi_shorter[of 0 "tl fmt"]
    by (fastforce simp: parse_precision_def Let_def split: if_splits list.splits va_arg.splits)
  show "parse_qualifier fmt = (q, f) \<Longrightarrow> length f \<le> length fmt"
    by (auto simp: parse_qualifier_def Let_def split: if_splits)
qed

lemma conversion_shorter:
  assumes "conversion alloc fmt args st = Some (n, rest, args', st')"
  shows "length rest \<le> length fmt"
proof -
  obtain fl f1 where 1: "parse_flags 0 fmt = (fl, f1)" by fastforce
  obtain w fl2 f2 a2 where 2: "parse_width fl f1 args = Some (w, fl2, f2, a2)"
    using assms 1 by (cases "parse_width fl f1 args") (auto simp: conversion_def)
  obtain p f3 a3 where 3: "parse_precision f2 a2 = Some (p, f3, a3)"
    using assms 1 2 by (cases "parse_precision f2 a2") (auto simp: conversion_def)
  obtain q f4 where 4: "parse_qualifier f3 = (q, f4)" by fastforce
  have "length f4 \<le> length fmt"
    using parse_shorter(1)[OF 1] parse_shorter(2)[OF 2] parse_shorter(3)[OF 3] parse_shorter(4)[OF 4] by simp
  then show ?thesis using assms 1 2 3 4 by (auto simp: conversion_def split: if_splits)
qed

function streamout_vprintf ::
  "(nat \<Rightarrow> bool) \<Rightarrow> char list \<Rightarrow> va_arg list \<Rightarrow> stream \<Rightarrow> (int \<times> stream) option" where
  "streamout_vprintf alloc [] args st = Some (0, st)"
| "streamout_vprintf alloc (c # fmt) args st =
     (if c \<noteq> CHR ''%'' then map_option (\<lambda>(n, st). (n + 1, st)) (streamout_vprintf alloc fmt args (streamout_in_byte c st))
      else
        (case conversion alloc fmt args st of
           None \<Rightarrow> None
         | Some (n, rest, args, st) \<Rightarrow> map_option (\<lambda>(m, st). (n + m, st)) (streamout_vprintf alloc rest args st)))"
  by pat_completeness auto
termination
  by (relation "measure (\<lambda>(_, fmt, _, _). length fmt)") (auto dest: conversion_shorter)

declare streamout_vprintf.simps(2) [simp del]

subsection \<open>The interface\<close>

text \<open>\<open>buf\<close> is the memory of the given size; the result has the memory afterwards.\<close>

definition eh_vsnprintf :: "(nat \<Rightarrow> bool) \<Rightarrow> char list \<Rightarrow> char list \<Rightarrow> va_arg list \<Rightarrow> (int \<times> char list) option" where
  "eh_vsnprintf alloc buf fmt args =
     (case streamout_vprintf alloc fmt args (eh_stream_memory_init buf) of
        None \<Rightarrow> None
      | Some (n, st) \<Rightarrow>
          (case streamout_finish st of Some (Memory_Stream m) \<Rightarrow> Some (n, mb_buf m) | _ \<Rightarrow> None))"

definition eh_snprintf :: "(nat \<Rightarrow> bool) \<Rightarrow> char list \<Rightarrow> char list \<Rightarrow> va_arg list \<Rightarrow> (int \<times> char list) option" where
  "eh_snprintf alloc buf fmt args = eh_vsnprintf alloc buf fmt args"

text \<open>
  \<open>eh_sprintf\<close> and \<open>eh_vsprintf\<close> take all memory between the address \<open>buf\<close> and \<open>LONG_MAX\<close> for their buffer; \<open>mem\<close> is the memory
  that starts there.
\<close>

definition eh_vsprintf :: "(nat \<Rightarrow> bool) \<Rightarrow> u64 \<Rightarrow> char list \<Rightarrow> char list \<Rightarrow> va_arg list \<Rightarrow> (int \<times> char list) option" where
  "eh_vsprintf alloc buf mem fmt args =
     (let n = unat (0x7FFFFFFFFFFFFFFF - buf)
      in case eh_vsnprintf alloc (take n mem) fmt args of
           None \<Rightarrow> None
         | Some (r, m) \<Rightarrow> Some (r, m @ drop n mem))"

definition eh_sprintf :: "(nat \<Rightarrow> bool) \<Rightarrow> u64 \<Rightarrow> char list \<Rightarrow> char list \<Rightarrow> va_arg list \<Rightarrow> (int \<times> char list) option" where
  "eh_sprintf alloc buf mem fmt args = eh_vsprintf alloc buf mem fmt args"

text \<open>The standard output is a function stream. A null stream is \<open>None\<close>.\<close>

definition eh_vprintf :: "(nat \<Rightarrow> bool) \<Rightarrow> char list \<Rightarrow> va_arg list \<Rightarrow> stream \<Rightarrow> (int \<times> stream) option" where
  "eh_vprintf alloc fmt args out = streamout_vprintf alloc fmt args out"

definition eh_printf :: "(nat \<Rightarrow> bool) \<Rightarrow> char list \<Rightarrow> va_arg list \<Rightarrow> stream \<Rightarrow> (int \<times> stream) option" where
  "eh_printf alloc fmt args out = streamout_vprintf alloc fmt args out"

definition eh_stream_vprintf ::
  "(nat \<Rightarrow> bool) \<Rightarrow> stream option \<Rightarrow> char list \<Rightarrow> va_arg list \<Rightarrow> (int \<times> stream option) option" where
  "eh_stream_vprintf alloc stream fmt args =
     (case stream of
        None \<Rightarrow> Some (0, None)
      | Some st \<Rightarrow> map_option (\<lambda>(n, st). (n, Some st)) (streamout_vprintf alloc fmt args st))"

definition eh_stream_printf ::
  "(nat \<Rightarrow> bool) \<Rightarrow> stream option \<Rightarrow> char list \<Rightarrow> va_arg list \<Rightarrow> (int \<times> stream option) option" where
  "eh_stream_printf alloc stream fmt args =
     (if stream = None then Some (0, None) else eh_stream_vprintf alloc stream fmt args)"

definition eh_stream_putc :: "stream option \<Rightarrow> char \<Rightarrow> stream option" where
  "eh_stream_putc stream c = map_option (streamout_in_byte c) stream"

definition eh_stream_puts :: "stream option \<Rightarrow> char list \<Rightarrow> int \<times> stream option" where
  "eh_stream_puts stream s =
     (case stream of
        None \<Rightarrow> (0, None)
      | Some (Function_No_Cache f) \<Rightarrow> (int (length s), Some (Function_No_Cache (f\<lparr>nc_write := nc_write f @ [s]\<rparr>)))
      | Some st \<Rightarrow> (int (length s), Some (put_bytes s st)))"

definition eh_stream_finish :: "stream option \<Rightarrow> stream option option" where
  "eh_stream_finish stream =
     (case stream of None \<Rightarrow> Some None | Some st \<Rightarrow> map_option Some (streamout_finish st))"

end
