(* ===== verification/Eh_Formatio_Spec.thy ===== *)
theory Eh_Formatio_Spec
  imports Eh_Formatio
begin

text \<open>
  What formatted output promises: the characters a format prints do not depend on the stream, a memory
  stream keeps the part that fits, a cached stream hands on the same bytes as an uncached one, and printed
  integers can be read back.
\<close>

subsection \<open>Streams\<close>

lemma put_bytes_simps [simp]:
  "put_bytes [] st = st" "put_bytes (c # cs) st = put_bytes cs (streamout_in_byte c st)"
  "put_bytes (xs @ ys) st = put_bytes ys (put_bytes xs st)"
  by (simp_all add: put_bytes_def)

text \<open>The bytes a function stream has handed on or holds.\<close>

definition f_all :: "fstream \<Rightarrow> char list" where
  "f_all f = concat (f_write f) @ f_cache f"

text \<open>Every write is full or ends a line, and no line ends inside a write.\<close>

definition f_ok :: "fstream \<Rightarrow> bool" where
  "f_ok f \<longleftrightarrow> length (f_cache f) < f_size f \<and> CHR 0x0A \<notin> set (f_cache f)
     \<and> (\<forall>w\<in>set (f_write f). w \<noteq> [] \<and> length w \<le> f_size f \<and> CHR 0x0A \<notin> set (butlast w)
          \<and> (length w = f_size f \<or> last w = CHR 0x0A))"

lemma in_byte_function:
  assumes "f_ok f"
  shows "\<exists>f'. streamout_in_byte c (Function_Stream f) = Function_Stream f' \<and> f_ok f' \<and> f_size f' = f_size f
    \<and> f_all f' = f_all f @ [c]"
  using assms by (auto simp: f_ok_def f_all_def f_flush_def Let_def)

lemma put_function:
  assumes "f_ok f"
  shows "\<exists>f'. put_bytes cs (Function_Stream f) = Function_Stream f' \<and> f_ok f' \<and> f_size f' = f_size f \<and> f_all f' = f_all f @ cs"
  using assms
proof (induction cs arbitrary: f)
  case (Cons c cs)
  obtain f1 where f1: "streamout_in_byte c (Function_Stream f) = Function_Stream f1" "f_ok f1" "f_size f1 = f_size f"
    "f_all f1 = f_all f @ [c]" using in_byte_function[OF Cons.prems] by blast
  obtain f2 where "put_bytes cs (Function_Stream f1) = Function_Stream f2" "f_ok f2" "f_size f2 = f_size f1"
    "f_all f2 = f_all f1 @ cs" using Cons.IH[OF f1(2)] by blast
  then show ?case using f1 by simp
qed simp

lemma put_no_cache:
  "put_bytes cs (Function_No_Cache s) = Function_No_Cache (s\<lparr>nc_write := nc_write s @ map (\<lambda>c. [c]) cs\<rparr>)"
  by (induction cs arbitrary: s) simp_all

lemma put_memory:
  assumes "mb_pos m \<le> length (mb_buf m)"
  shows "put_bytes cs (Memory_Stream m) = Memory_Stream
    (let k = min (length cs) (length (mb_buf m) - mb_pos m)
     in \<lparr>mb_buf = take (mb_pos m) (mb_buf m) @ take k cs @ drop (mb_pos m + k) (mb_buf m), mb_pos = mb_pos m + k\<rparr>)"
  using assms
proof (induction cs arbitrary: m)
  case (Cons c cs)
  show ?case
  proof (cases "mb_pos m < length (mb_buf m)")
    case False
    then have "mb_pos m = length (mb_buf m)" using Cons.prems by simp
    then show ?thesis using Cons.IH[OF Cons.prems] by simp
  next
    case True
    let ?m = "m\<lparr>mb_buf := (mb_buf m)[mb_pos m := c], mb_pos := Suc (mb_pos m)\<rparr>"
    have k: "min (length (c # cs)) (length (mb_buf m) - mb_pos m) = Suc (min (length cs) (length (mb_buf m) - Suc (mb_pos m)))"
      using True by simp
    have t: "take (Suc (mb_pos m)) ((mb_buf m)[mb_pos m := c]) = take (mb_pos m) (mb_buf m) @ [c]"
      using True by (simp add: take_Suc_conv_app_nth)
    have "put_bytes (c # cs) (Memory_Stream m) = put_bytes cs (Memory_Stream ?m)" using True by simp
    also have "\<dots> = Memory_Stream (let k = min (length cs) (length (mb_buf m) - Suc (mb_pos m))
      in \<lparr>mb_buf = take (mb_pos m) (mb_buf m) @ [c] @ take k cs @ drop (Suc (mb_pos m) + k) (mb_buf m), mb_pos = Suc (mb_pos m) + k\<rparr>)"
      using Cons.IH[of ?m] True t by (simp add: Let_def)
    finally show ?thesis unfolding k by (simp add: Let_def)
  qed
qed simp

subsection \<open>The characters of a format\<close>

text \<open>
  What is printed, and how many characters are counted, does not depend on the stream: the functions
  on streams put out a list of characters that is the same for all streams.
\<close>

lemma char_uniform: "\<exists>out. \<forall>st. vprintf_char ch w fl st = (int (length out), put_bytes out st)"
  by (rule exI[of _ "(if has_flag fl FORMAT_LEFT then [ch] else []) @ replicate (nat (w - 1)) CHR '' ''
      @ (if \<not> has_flag fl FORMAT_LEFT then [ch] else [])"])
    (simp add: vprintf_char_def Let_def)

lemma string_uniform: "\<exists>out. \<forall>st. vprintf_string s w p fl st = (int (length out), put_bytes out st)"
proof -
  define t where "t = (let s = (case s of None \<Rightarrow> ''(null)'' | Some s \<Rightarrow> s) in if p < 0 then s else take (nat p) s)"
  define sp where "sp = replicate (nat (w - int (length t))) CHR '' ''"
  have e: "vprintf_string s w p fl st =
     (if w < 0 \<or> w \<le> int (length t) then (int (length t), put_bytes t st)
      else (int (length t) + int (length sp), put_bytes ((if \<not> has_flag fl FORMAT_LEFT then sp else []) @ t
        @ (if has_flag fl FORMAT_LEFT then sp else [])) st))" for st
    unfolding vprintf_string_def t_def[unfolded Let_def, symmetric] Let_def sp_def by simp
  show ?thesis
  proof (cases "w < 0 \<or> w \<le> int (length t)")
    case True
    then show ?thesis unfolding e by (intro exI[of _ t]) simp
  next
    case False
    then show ?thesis unfolding e
      by (intro exI[of _ "(if \<not> has_flag fl FORMAT_LEFT then sp else []) @ t @ (if has_flag fl FORMAT_LEFT then sp else [])"]) simp
  qed
qed

text \<open>
  \<open>uniform\<close>: a printing function puts out the same characters \<open>out\<close> on every stream, counts them, and has
  the same further result \<open>a\<close>.
\<close>

definition uniform :: "(stream \<Rightarrow> (int \<times> stream) option) \<Rightarrow> bool" where
  "uniform F \<longleftrightarrow> (\<exists>r. \<forall>st. F st = map_option (\<lambda>out. (int (length out), put_bytes out st)) r)"

lemma uniformI: "(\<And>st. F st = map_option (\<lambda>out. (int (length out), put_bytes out st)) r) \<Longrightarrow> uniform F"
  unfolding uniform_def by blast

lemma uniform_Some:
  assumes "\<exists>out. \<forall>st. f st = (int (length out), put_bytes out st)"
  shows "uniform (\<lambda>st. Some (f st))"
proof -
  obtain out where "\<And>st. f st = (int (length out), put_bytes out st)" using assms by blast
  then show ?thesis by (intro uniformI[of _ "Some out"]) simp
qed

lemma uniform_decimal: "uniform (vprintf_float_decimalism_or_normalized alloc c w p fl e)"
  unfolding uniform_def vprintf_float_decimalism_or_normalized_def by blast

lemma uniform_array: "uniform (vprintf_array a w p fl q)"
  unfolding uniform_def vprintf_array_def by blast

lemma uniform_None: "uniform (\<lambda>st. None)"
  unfolding uniform_def by (intro exI[of _ None]) simp

lemma uniform_e: "uniform (vprintf_float_e alloc s x w p fl)"
proof (cases "x = 0")
  case True
  then have "vprintf_float_e alloc s x w p fl = (\<lambda>st. None)" by (intro ext) (simp add: vprintf_float_e_def Let_def)
  then show ?thesis using uniform_None by simp
next
  case False
  have "\<exists>c P e. \<forall>st. vprintf_float_e alloc s x w p fl st = vprintf_float_decimalism_or_normalized alloc c w P fl e st"
    unfolding vprintf_float_e_def Let_def if_not_P[OF False] split_beta by (intro exI allI) (rule refl)
  then obtain c P e where "vprintf_float_e alloc s x w p fl = vprintf_float_decimalism_or_normalized alloc c w P fl e" by blast
  then show ?thesis using uniform_decimal by simp
qed

lemma float_f_uniform:
  "\<exists>r. \<forall>st. vprintf_float_f_or_g alloc s x w p fl st = map_option (\<lambda>out. (int (length out), put_bytes out st)) r"
proof (cases "x > FORMAT_FLOAT_F_RANGE_MAX")
  case True
  then show ?thesis by (intro exI[of _ "Some []"]) (simp add: vprintf_float_f_or_g_def)
next
  case False
  then show ?thesis using uniform_decimal unfolding vprintf_float_f_or_g_def uniform_def by (simp add: Let_def)
qed

lemma uniform_float: "uniform (vprintf_float alloc d w p fl)"
proof (cases d)
  case (Finite s x)
  define g where "g = vprintf_float_e alloc s x w p ((fl AND NOT (FORMAT_FLOAT_F OR FORMAT_FLOAT_G)) OR FORMAT_FLOAT_E)"
  obtain re where re: "\<And>st. g st = map_option (\<lambda>out. (int (length out), put_bytes out st)) re"
    using uniform_e unfolding uniform_def g_def by blast
  obtain rf where rf: "\<And>st. vprintf_float_f_or_g alloc s x w p fl st = map_option (\<lambda>out. (int (length out), put_bytes out st)) rf"
    using float_f_uniform by blast
  have e: "vprintf_float alloc d w p fl st =
    (if has_flag fl FORMAT_FLOAT_F \<or> has_flag fl FORMAT_FLOAT_G
     then (case rf of None \<Rightarrow> None | Some out \<Rightarrow> if out \<noteq> [] then Some (int (length out), put_bytes out st) else g st) else g st)" for st
    unfolding Finite vprintf_float_def g_def by (cases rf) (simp_all add: rf)
  show ?thesis
  proof (cases "(has_flag fl FORMAT_FLOAT_F \<or> has_flag fl FORMAT_FLOAT_G) \<and> rf \<noteq> Some []")
    case True
    then have "vprintf_float alloc d w p fl st = map_option (\<lambda>out. (int (length out), put_bytes out st)) rf" for st
      unfolding e by (cases rf) auto
    then show ?thesis unfolding uniform_def by blast
  next
    case False
    then have "vprintf_float alloc d w p fl st = g st" for st unfolding e by auto
    then show ?thesis using re unfolding uniform_def by auto
  qed
next
  case (Infinite s)
  then show ?thesis unfolding vprintf_float_def[abs_def] by (simp add: uniform_Some[OF string_uniform])
next
  case NaN
  then show ?thesis unfolding vprintf_float_def[abs_def] by (simp add: uniform_Some[OF string_uniform])
qed

text \<open>The same for a function that counts \<open>n\<close> characters of those it puts out, and has a further result \<open>a\<close>.\<close>

definition prints :: "(stream \<Rightarrow> (int \<times> 'a \<times> stream) option) \<Rightarrow> (int \<times> 'a \<times> char list) option \<Rightarrow> bool" where
  "prints F r \<longleftrightarrow> (\<forall>st. F st = map_option (\<lambda>(n, a, out). (n, a, put_bytes out st)) r)
     \<and> (\<forall>n a out. r = Some (n, a, out) \<longrightarrow> 0 \<le> n \<and> n \<le> int (length out))"

lemma prints_ex_None: "\<exists>r. prints (\<lambda>st. None) r"
  by (rule exI[of _ None]) (simp add: prints_def)

lemma prints_Some: "0 \<le> n \<Longrightarrow> n \<le> int (length out) \<Longrightarrow> prints (\<lambda>st. Some (n, a, put_bytes out st)) (Some (n, a, out))"
  by (simp add: prints_def)

lemma prints_map:
  assumes "prints F r"
  shows "prints (\<lambda>st. map_option (\<lambda>(n, a, st). (n, h a, st)) (F st)) (map_option (\<lambda>(n, a, out). (n, h a, out)) r)"
  using assms by (cases r) (auto simp: prints_def)

lemma prints_uniform:
  assumes "uniform F"
  shows "\<exists>r. prints (\<lambda>st. map_option (\<lambda>(n, st). (n, a, st)) (F st)) r"
proof -
  obtain r where "\<And>st. F st = map_option (\<lambda>out. (int (length out), put_bytes out st)) r" using assms unfolding uniform_def by blast
  then show ?thesis by (intro exI[of _ "map_option (\<lambda>out. (int (length out), a, out)) r"]) (cases r; simp add: prints_def)
qed

lemma prints_number: "\<exists>r. prints (print_number alloc q w p fl b args) r"
proof -
  have "\<exists>r. prints (\<lambda>st. map_option (\<lambda>num. let (n, st) = vprintf_number alloc num w p fl b st in (n, as, st)) (number_arg q (has_flag fl FORMAT_SIGNED) a)) r"
    for a as
  proof (cases "number_arg q (has_flag fl FORMAT_SIGNED) a")
    case (Some num)
    then show ?thesis
      by (intro exI[of _ "Some (int (length (number_text alloc num w p fl b)), as, number_text alloc num w p fl b)"])
        (simp add: prints_def vprintf_number_def Let_def)
  qed (auto simp: prints_def)
  then show ?thesis unfolding print_number_def[abs_def] by (cases args) (simp_all add: prints_ex_None)
qed

lemma args_cases:
  obtains "args = []" | x as where "args = VInt x # as" | x as where "args = VLong x # as" | x as where "args = VPtr x # as"
  | s as where "args = VStr s # as" | b as where "args = VBytes b # as" | d as where "args = VDouble d # as"
  by (metis list.exhaust va_arg.exhaust)

lemma prints_float: "\<exists>r. prints (print_float alloc q w p fl args) r"
proof -
  have "\<exists>r. prints (\<lambda>st. case args of VDouble d # args \<Rightarrow>
             map_option (\<lambda>(n, st). (n, args, st)) (vprintf_float alloc d w p fl st) | _ \<Rightarrow> None) r"
    by (cases args rule: args_cases) (simp_all add: prints_uniform[OF uniform_float] prints_ex_None)
  moreover have "\<exists>r. prints (\<lambda>st. Some (0, args, st)) r"
    by (rule exI[of _ "Some (0, args, [])"]) (simp add: prints_def)
  ultimately show ?thesis unfolding print_float_def[abs_def] by (cases "q = QUALIFIER_LONG_LONG") simp_all
qed

lemma prints_pair:
  assumes "\<exists>out. \<forall>st. f st = (int (length out), put_bytes out st)"
  shows "\<exists>r. prints (\<lambda>st. let (n, st) = f st in Some (n, a, st)) r"
proof -
  obtain out where "\<And>st. f st = (int (length out), put_bytes out st)" using assms by blast
  then show ?thesis by (intro exI[of _ "Some (int (length out), a, out)"]) (simp add: prints_def)
qed

lemma prints_string: "\<exists>r. prints (print_string w p fl args) r"
  unfolding print_string_def[abs_def]
  by (cases args rule: args_cases) (simp_all add: prints_pair[OF string_uniform, simplified] prints_ex_None)

lemma prints_char: "\<exists>r. prints (print_char w fl args) r"
  unfolding print_char_def[abs_def]
  by (cases args rule: args_cases) (simp_all add: prints_pair[OF char_uniform, simplified] prints_ex_None)

lemma number_uniform: "\<exists>out. \<forall>st. vprintf_number alloc x w p fl b st = (int (length out), put_bytes out st)"
  by (auto simp: vprintf_number_def Let_def)

lemma prints_pointer: "\<exists>r. prints (print_pointer alloc w p fl args) r"
  unfolding print_pointer_def[abs_def]
  by (cases args rule: args_cases) (simp_all add: prints_pair[OF number_uniform, simplified] prints_ex_None)

lemma prints_array: "\<exists>r. prints (print_array q w p fl args) r"
  unfolding print_array_def[abs_def]
  by (cases args rule: args_cases) (simp_all add: prints_uniform[OF uniform_array] prints_ex_None)

text \<open>Two further results.\<close>

definition prints2 :: "(stream \<Rightarrow> (int \<times> 'a \<times> 'b \<times> stream) option) \<Rightarrow> bool" where
  "prints2 F \<longleftrightarrow> (\<exists>r. prints (\<lambda>st. map_option (\<lambda>(n, a, b, st). (n, (a, b), st)) (F st)) r)"

lemma prints2_known:
  assumes "\<exists>r. prints F r"
  shows "prints2 (\<lambda>st. map_option (\<lambda>(n, a, st). (n, k, a, st)) (F st))"
proof -
  obtain r where "prints F r" using assms by blast
  from prints_map[OF this, of "Pair k"] show ?thesis
    unfolding prints2_def by (auto simp: option.map_comp o_def case_prod_unfold intro!: exI)
qed

lemma prints2_if: "(c \<Longrightarrow> prints2 F) \<Longrightarrow> (\<not> c \<Longrightarrow> prints2 G) \<Longrightarrow> prints2 (\<lambda>st. if c then F st else G st)"
  by (cases c) simp_all

lemma prints2_byte: "0 \<le> n \<Longrightarrow> n \<le> 1 \<Longrightarrow> prints2 (\<lambda>st. Some (n, k, a, streamout_in_byte c st))"
  unfolding prints2_def by (rule exI[of _ "Some (n, (k, a), [c])"]) (simp add: prints_def)

lemma prints_conversion: "prints2 (print_conversion alloc c q w p fl args)"
  unfolding print_conversion_def[abs_def] Let_def
  by (intro prints2_if prints2_known prints2_byte prints_number prints_float prints_string prints_char prints_pointer prints_array)
    simp_all

lemma prints2_map:
  assumes "prints2 F"
  shows "prints2 (\<lambda>st. map_option (\<lambda>(n, a, b, st). (n, h a, b, st)) (F st))"
proof -
  obtain r where "prints (\<lambda>st. map_option (\<lambda>(n, a, b, st). (n, (a, b), st)) (F st)) r" using assms unfolding prints2_def by blast
  from prints_map[OF this, of "\<lambda>(a, b). (h a, b)"] show ?thesis
    unfolding prints2_def by (auto simp: option.map_comp o_def case_prod_unfold intro!: exI)
qed

lemma prints2_None: "prints2 (\<lambda>st. None)"
  unfolding prints2_def by (simp add: prints_ex_None)

lemma conversion_prints: "prints2 (conversion alloc fmt args)"
proof -
  obtain fl f1 where 1: "parse_flags 0 fmt = (fl, f1)" by fastforce
  show ?thesis
  proof (cases "parse_width fl f1 args")
    case None
    then show ?thesis unfolding conversion_def[abs_def] by (simp add: 1 prints2_None)
  next
    case (Some x)
    obtain w fl2 f2 a2 where x: "x = (w, fl2, f2, a2)" using prod_cases4 by blast
    show ?thesis
    proof (cases "parse_precision f2 a2")
      case None
      then show ?thesis unfolding conversion_def[abs_def] by (simp add: 1 Some x prints2_None)
    next
      case (Some y)
      obtain p f3 a3 where y: "y = (p, f3, a3)" using prod_cases3 by blast
      obtain q f4 where 4: "parse_qualifier f3 = (q, f4)" by fastforce
      show ?thesis unfolding conversion_def[abs_def] 1 \<open>parse_width fl f1 args = Some x\<close> x prod.case option.case Some y 4
        by (rule prints2_map[OF prints_conversion])
    qed
  qed
qed

lemma vprintf_prints:
  "\<exists>r. (\<forall>st. streamout_vprintf alloc fmt args st = map_option (\<lambda>(n, out). (n, put_bytes out st)) r)
     \<and> (\<forall>n out. r = Some (n, out) \<longrightarrow> 0 \<le> n \<and> n \<le> int (length out))"
proof (induction fmt arbitrary: args rule: length_induct)
  case (1 fmt)
  show ?case
  proof (cases fmt)
    case Nil
    show ?thesis unfolding Nil by (rule exI[of _ "Some (0, [])"]) simp
  next
    case (Cons c rest)
    show ?thesis
    proof (cases "c = CHR ''%''")
      case False
      have "length rest < length fmt" using Cons by simp
      then obtain r where r: "\<And>st. streamout_vprintf alloc rest args st = map_option (\<lambda>(n, out). (n, put_bytes out st)) r"
        "\<And>n out. r = Some (n, out) \<Longrightarrow> 0 \<le> n \<and> n \<le> int (length out)" using 1 by blast
      show ?thesis
        by (rule exI[of _ "map_option (\<lambda>(n, out). (n + 1, c # out)) r"])
          (cases r; use False r(2) in \<open>auto simp: Cons streamout_vprintf.simps(2) r(1)\<close>)
    next
      case True
      obtain rc where rc: "prints (\<lambda>st. map_option (\<lambda>(n, a, b, st). (n, (a, b), st)) (conversion alloc rest args st)) rc"
        using conversion_prints unfolding prints2_def by blast
      have e: "map_option (\<lambda>(n, a, b, st). (n, (a, b), st)) (conversion alloc rest args st)
        = map_option (\<lambda>(n, a, out). (n, a, put_bytes out st)) rc" for st using rc unfolding prints_def by blast
      show ?thesis
      proof (cases rc)
        case None
        then have "conversion alloc rest args st = None" for st using e[of st] by simp
        then show ?thesis using True by (intro exI[of _ None]) (simp add: Cons streamout_vprintf.simps(2))
      next
        case (Some x)
        obtain m f as out where x: "x = (m, (f, as), out)" by (metis prod.exhaust)
        have m: "0 \<le> m" "m \<le> int (length out)" using rc Some x unfolding prints_def by auto
        have conv: "conversion alloc rest args st = Some (m, f, as, put_bytes out st)" for st
          using e[of st] Some x by auto
        have "length f < length fmt" using conversion_shorter[OF conv] Cons by (metis length_Cons less_Suc_eq_le)
        then obtain r where r: "\<And>st. streamout_vprintf alloc f as st = map_option (\<lambda>(n, out). (n, put_bytes out st)) r"
          "\<And>n out. r = Some (n, out) \<Longrightarrow> 0 \<le> n \<and> n \<le> int (length out)" using 1 by blast
        show ?thesis
          by (rule exI[of _ "map_option (\<lambda>(n, out2). (m + n, out @ out2)) r"])
            (cases r; use True r(2) m in \<open>fastforce simp: Cons streamout_vprintf.simps(2) conv r(1)\<close>)
      qed
    qed
  qed
qed

text \<open>
  What a format prints: the count that is returned, and the characters, as a stream without a cache
  gets them.
\<close>

definition printed :: "(nat \<Rightarrow> bool) \<Rightarrow> char list \<Rightarrow> va_arg list \<Rightarrow> (int \<times> char list) option" where
  "printed alloc fmt args =
     (case streamout_vprintf alloc fmt args eh_stream_function_no_cache_init of
        Some (n, Function_No_Cache s) \<Rightarrow> Some (n, concat (nc_write s)) | _ \<Rightarrow> None)"

lemma concat_singletons [simp]: "concat (map (\<lambda>c. [c]) cs) = cs"
  by (induction cs) simp_all

lemma vprintf_printed:
  "streamout_vprintf alloc fmt args st = map_option (\<lambda>(n, out). (n, put_bytes out st)) (printed alloc fmt args)"
  "printed alloc fmt args = Some (n, out) \<Longrightarrow> 0 \<le> n \<and> n \<le> int (length out)"
proof -
  obtain r where r: "\<And>st. streamout_vprintf alloc fmt args st = map_option (\<lambda>(n, out). (n, put_bytes out st)) r"
    "\<And>n out. r = Some (n, out) \<Longrightarrow> 0 \<le> n \<and> n \<le> int (length out)" using vprintf_prints[of alloc fmt args] by blast
  have "printed alloc fmt args = r"
    by (cases r) (auto simp: printed_def r(1) eh_stream_function_no_cache_init_def put_no_cache)
  then show "streamout_vprintf alloc fmt args st = map_option (\<lambda>(n, out). (n, put_bytes out st)) (printed alloc fmt args)"
    "printed alloc fmt args = Some (n, out) \<Longrightarrow> 0 \<le> n \<and> n \<le> int (length out)" using r by auto
qed

subsection \<open>Digits\<close>

abbreviation (input) base_nat :: "base_type \<Rightarrow> nat" where
  "base_nat base \<equiv> unat (base_value base)"

definition digit_index :: "string \<Rightarrow> char \<Rightarrow> nat" where
  "digit_index digits c = length (takeWhile (\<lambda>d. d \<noteq> c) digits)"

text \<open>The value of a digit string, most significant digit first.\<close>

definition read_digits :: "string \<Rightarrow> nat \<Rightarrow> char list \<Rightarrow> nat" where
  "read_digits digits b t = foldl (\<lambda>v c. v * b + digit_index digits c) 0 t"

lemma read_digits_simps [simp]:
  "read_digits dg b [] = 0" "read_digits dg b (t @ [c]) = read_digits dg b t * b + digit_index dg c"
  by (simp_all add: read_digits_def)

abbreviation (input) digit_table :: "string \<Rightarrow> bool" where
  "digit_table dg \<equiv> dg = small_digits \<or> dg = large_digits"

lemma digit_tables:
  assumes "digit_table dg"
  shows "distinct dg" "length dg = 16" "dg ! 0 = CHR ''0''"
  using assms by (auto simp: small_digits_def large_digits_def)

lemma digit_table:
  assumes "digit_table dg" "d < 16"
  shows "digit_index dg (dg ! d) = d" "dg ! d = CHR ''0'' \<longleftrightarrow> d = 0"
proof -
  have "takeWhile (\<lambda>c. c \<noteq> dg ! d) dg = take d dg"
    using assms(2) digit_tables(1,2)[OF assms(1)] by (intro takeWhile_eq_take_P_nth) (simp_all add: nth_eq_iff_index_eq)
  then show "digit_index dg (dg ! d) = d" using assms(2) digit_tables(2)[OF assms(1)] by (simp add: digit_index_def)
  show "dg ! d = CHR ''0'' \<longleftrightarrow> d = 0"
    using nth_eq_iff_index_eq[OF digit_tables(1)[OF assms(1)], of d 0] digit_tables(2,3)[OF assms(1)] assms(2) by simp
qed

lemma base_cases: "base_nat base = 2 \<or> base_nat base = 8 \<or> base_nat base = 10 \<or> base_nat base = 16"
  by (cases base) simp_all

lemma base_bounds [simp]: "1 < base_nat base" "base_nat base \<le> 16" "0 < base_nat base"
  using base_cases[of base] by auto

lemma num_rsh_nat: "num_rsh n base = (d, r) \<Longrightarrow> d = unat n mod base_nat base \<and> unat r = unat n div base_nat base"
  by (auto simp: num_rsh_def unat_mod unat_div)

lemma length_number_buf [simp]: "length (number_buf dg base i n) = i"
  by (induction i arbitrary: n) (simp_all add: split_beta)

lemma read_number_buf:
  assumes "digit_table dg"
  shows "read_digits dg (base_nat base) (number_buf dg base i n) = unat n mod base_nat base ^ i"
proof (induction i arbitrary: n)
  case (Suc i)
  obtain d r where dr: "num_rsh n base = (d, r)" by fastforce
  have v: "d = unat n mod base_nat base" "unat r = unat n div base_nat base" using num_rsh_nat[OF dr] by auto
  have "d < base_nat base" by (simp add: v(1))
  then have "d < 16" using base_bounds(2)[of base] by linarith
  then have "read_digits dg (base_nat base) (number_buf dg base (Suc i) n)
     = (unat n div base_nat base mod base_nat base ^ i) * base_nat base + d"
    using digit_table(1)[OF assms] Suc[of r] by (simp add: dr v(2))
  also have "\<dots> = unat n mod (base_nat base * base_nat base ^ i)" by (simp add: mod_mult2_eq v(1))
  finally show ?case by simp
qed simp

lemma hd_number_buf: "hd (number_buf dg base (Suc i) n) = dg ! (unat n div base_nat base ^ i mod base_nat base)"
proof (induction i arbitrary: n)
  case 0
  show ?case by (simp add: num_rsh_def unat_mod)
next
  case (Suc i)
  obtain d r where dr: "num_rsh n base = (d, r)" by fastforce
  have v: "unat r = unat n div base_nat base" using num_rsh_nat[OF dr] by auto
  have ne: "number_buf dg base (Suc i) r \<noteq> []" using length_number_buf[of dg base "Suc i" r] by (metis length_0_conv nat.distinct(1))
  have "number_buf dg base (Suc (Suc i)) n = number_buf dg base (Suc i) r @ [dg ! d]" unfolding number_buf.simps(2)[of _ _ "Suc i"] by (simp add: dr)
  then have "hd (number_buf dg base (Suc (Suc i)) n) = hd (number_buf dg base (Suc i) r)" using ne by simp
  also have "\<dots> = dg ! (unat n div base_nat base ^ Suc i mod base_nat base)"
    unfolding Suc[of r] v by (simp add: div_mult2_eq)
  finally show ?case .
qed

lemma num_bit_count_bounds:
  "0 < num_bit_count n base \<and> unat n < base_nat base ^ num_bit_count n base
   \<and> (num_bit_count n base = Suc 0 \<or> base_nat base ^ (num_bit_count n base - 1) \<le> unat n)"
proof (induction n base rule: num_bit_count.induct)
  case (1 n base)
  let ?m = "n div base_value base"
  have m: "unat ?m = unat n div base_nat base" by (simp add: unat_div)
  show ?case
  proof (cases "?m = 0")
    case True
    then have "unat n div base_nat base = 0" using m by simp
    then have "unat n < base_nat base" using base_bounds(3)[of base] by (auto simp: div_eq_0_iff simp del: base_bounds)
    moreover have "num_bit_count n base = 1" using True by (subst num_bit_count.simps) simp
    ultimately show ?thesis by simp
  next
    case False
    have c: "num_bit_count n base = Suc (num_bit_count ?m base)" using False by (subst num_bit_count.simps) simp
    have IH: "0 < num_bit_count ?m base" "unat n div base_nat base < base_nat base ^ num_bit_count ?m base"
      "num_bit_count ?m base = Suc 0 \<or> base_nat base ^ (num_bit_count ?m base - 1) \<le> unat n div base_nat base"
      using 1[OF refl False] m by auto
    have "unat n < base_nat base ^ num_bit_count n base"
      using IH(2) unfolding c by (simp add: div_less_iff_less_mult mult.commute)
    moreover have "base_nat base ^ num_bit_count ?m base \<le> unat n"
      using IH(3)
    proof
      assume s: "num_bit_count ?m base = Suc 0"
      have "unat n div base_nat base \<noteq> 0" using False m by (metis unat_eq_zero)
      then show ?thesis unfolding s by (simp add: div_eq_0_iff)
    next
      assume "base_nat base ^ (num_bit_count ?m base - 1) \<le> unat n div base_nat base"
      then have "base_nat base ^ (num_bit_count ?m base - 1) * base_nat base \<le> unat n"
        by (simp add: less_eq_div_iff_mult_less_eq)
      then show ?thesis using IH(1) by (metis Suc_diff_1 power_Suc2)
    qed
    ultimately show ?thesis unfolding c by simp
  qed
qed

text \<open>The digits of a number in a buffer of the computed size.\<close>

lemma number_digits:
  assumes "digit_table dg"
  shows "read_digits dg (base_nat base) (number_buf dg base (num_bit_count n base) n) = unat n"
    "num_bit_count n base = 1 \<or> hd (number_buf dg base (num_bit_count n base) n) \<noteq> CHR ''0''"
proof -
  show "read_digits dg (base_nat base) (number_buf dg base (num_bit_count n base) n) = unat n"
    using read_number_buf[OF assms] num_bit_count_bounds[of n base] by simp
  obtain i where i: "num_bit_count n base = Suc i" using num_bit_count_bounds[of n base] gr0_implies_Suc by blast
  have "unat n div base_nat base ^ i \<noteq> 0" if "i \<noteq> 0"
    using num_bit_count_bounds[of n base] that unfolding i by (simp add: div_eq_0_iff)
  moreover have l: "unat n div base_nat base ^ i < base_nat base"
    using num_bit_count_bounds[of n base] unfolding i by (simp add: div_less_iff_less_mult mult.commute)
  moreover have "unat n div base_nat base ^ i < 16" using l base_bounds(2)[of base] by linarith
  ultimately show "num_bit_count n base = 1 \<or> hd (number_buf dg base (num_bit_count n base) n) \<noteq> CHR ''0''"
    using digit_table(2)[OF assms] unfolding i hd_number_buf by (cases "i = 0") simp_all
qed

subsection \<open>The properties\<close>

lemma finish_memory:
  assumes "buf \<noteq> []"
  shows "streamout_finish (put_bytes out (eh_stream_memory_init buf))
    = (let k = min (length out) (length buf - 1)
       in Some (Memory_Stream \<lparr>mb_buf = take k out @ [CHR 0x00] @ drop (Suc k) buf, mb_pos = min (length out) (length buf)\<rparr>))"
proof -
  let ?k = "min (length out) (length buf)"
  have p: "put_bytes out (eh_stream_memory_init buf) = Memory_Stream \<lparr>mb_buf = take ?k out @ drop ?k buf, mb_pos = ?k\<rparr>"
    by (simp add: eh_stream_memory_init_def put_memory Let_def)
  show ?thesis
  proof (cases "length out < length buf")
    case True
    then have "(out @ drop (length out) buf)[length out := CHR 0x00] = out @ [CHR 0x00] @ drop (Suc (length out)) buf"
      by (simp add: list_update_append Cons_nth_drop_Suc[symmetric])
    then show ?thesis using True unfolding p by (simp add: Let_def)
  next
    case False
    obtain n where n: "length buf = Suc n" using assms by (cases buf) auto
    have "(take (Suc n) out)[n := CHR 0x00] = take n out @ [CHR 0x00]"
      using False n by (simp add: take_Suc_conv_app_nth list_update_append)
    moreover have "?k = Suc n" "min (length out) (length buf - 1) = n" using False n by simp_all
    ultimately show ?thesis using n False unfolding p by (auto simp: Let_def)
  qed
qed


text \<open>
  C30. A stream with a cache hands on the same characters as one without, with the same count: after a
  \<open>eh_stream_printf\<close> and \<open>eh_stream_finish\<close> the writes put together are what is printed. No write is empty or
  longer than the cache, only the last byte of a write ends a line, and before the finish every
  write is full or ends a line.
\<close>

theorem stream_equivalence:
  assumes "0 < k"
  shows "case printed alloc fmt args of
     None \<Rightarrow> eh_stream_printf alloc (Some (eh_stream_function_init k)) fmt args = None
   | Some (n, out) \<Rightarrow>
       (\<exists>f g. eh_stream_printf alloc (Some (eh_stream_function_init k)) fmt args = Some (n, Some (Function_Stream f))
         \<and> eh_stream_finish (Some (Function_Stream f)) = Some (Some (Function_Stream g))
         \<and> concat (f_write g) = out \<and> f_cache g = []
         \<and> (\<forall>w\<in>set (f_write g). w \<noteq> [] \<and> length w \<le> k \<and> CHR 0x0A \<notin> set (butlast w))
         \<and> (\<forall>w\<in>set (f_write f). length w = k \<or> last w = CHR 0x0A))"
proof (cases "printed alloc fmt args")
  case None
  then show ?thesis by (simp add: eh_stream_printf_def eh_stream_vprintf_def vprintf_printed(1))
next
  case (Some x)
  obtain n out where x: "x = (n, out)" by (cases x)
  let ?f0 = "\<lparr>f_size = k, f_cache = [], f_write = []\<rparr>"
  have "f_ok ?f0" using assms by (simp add: f_ok_def)
  then obtain f where f: "put_bytes out (Function_Stream ?f0) = Function_Stream f" "f_ok f" "f_size f = k" "f_all f = out"
    using put_function[of ?f0 out] by (auto simp: f_all_def)
  define g where "g = (if f_cache f \<noteq> [] then f_flush f else f)"
  have "eh_stream_printf alloc (Some (eh_stream_function_init k)) fmt args = Some (n, Some (Function_Stream f))"
    by (simp add: eh_stream_printf_def eh_stream_vprintf_def vprintf_printed(1) Some x eh_stream_function_init_def f(1))
  moreover have "eh_stream_finish (Some (Function_Stream f)) = Some (Some (Function_Stream g))"
    by (simp add: eh_stream_finish_def g_def)
  moreover have "concat (f_write g) = out" "f_cache g = []" using f(4) by (auto simp: g_def f_flush_def f_all_def)
  moreover have "\<forall>w\<in>set (f_write g). w \<noteq> [] \<and> length w \<le> k \<and> CHR 0x0A \<notin> set (butlast w)"
    using f(2,3) by (auto simp: g_def f_flush_def f_ok_def dest: in_set_butlastD)
  moreover have "\<forall>w\<in>set (f_write f). length w = k \<or> last w = CHR 0x0A" using f(2,3) by (auto simp: f_ok_def)
  ultimately show ?thesis unfolding Some x option.case prod.case by blast
qed

lemma has_flag_clear [simp]:
  "\<not> has_flag (fl AND NOT FORMAT_ZEROPAD) FORMAT_ZEROPAD"
  "has_flag (fl AND NOT FORMAT_ZEROPAD) FORMAT_LEFT \<longleftrightarrow> has_flag fl FORMAT_LEFT"
  by (simp_all add: has_flag_def FORMAT_ZEROPAD_def FORMAT_LEFT_def and.assoc)

lemma sint_u64: "sint (x :: u64) = (if uint x < 2 ^ 63 then uint x else uint x - 2 ^ 64)"
proof -
  have i: "sint x = (uint x + 2 ^ 63) mod 2 ^ 64 - 2 ^ 63" using int_word_sint[of "uint x", where 'a = 64] by simp
  have b: "0 \<le> uint x" "uint x < 2 ^ 64" using uint_bounded[of x] by simp_all
  show ?thesis
  proof (cases "uint x < 2 ^ 63")
    case True
    then have "(uint x + 2 ^ 63) mod 2 ^ 64 = uint x + 2 ^ 63" using b by (intro mod_pos_pos_trivial) simp_all
    then show ?thesis using True i by simp
  next
    case False
    have "(uint x + 2 ^ 63) mod 2 ^ 64 = (uint x + 2 ^ 63 - 2 ^ 64) mod 2 ^ 64" by (simp only: minus_mod_self2)
    also have "\<dots> = uint x + 2 ^ 63 - 2 ^ 64" using False b by (intro mod_pos_pos_trivial) simp_all
    finally show ?thesis using False i by simp
  qed
qed

lemma magnitude: "int (unat (if sint (num :: u64) < 0 then - num else num)) = abs (sint num)"
proof (cases "sint num < 0")
  case True
  have b: "2 ^ 63 \<le> uint num" "uint num < 2 ^ 64" using True sint_u64[of num] uint_bounded[of num] by (auto split: if_splits)
  have s: "sint num = uint num - 2 ^ 64" using True sint_u64[of num] by (simp split: if_splits)
  have "uint (- num) = (- uint num) mod 2 ^ 64" by (simp add: uint_word_ariths)
  also have "\<dots> = (2 ^ 64 - uint num) mod 2 ^ 64" by simp
  also have "\<dots> = 2 ^ 64 - uint num" using b by (intro mod_pos_pos_trivial) simp_all
  finally have "int (unat (- num)) = 2 ^ 64 - uint num" by (simp only: uint_nat)
  then show ?thesis using True s by simp
next
  case False
  then show ?thesis using sint_u64[of num] uint_bounded[of num] by (auto split: if_splits)
qed

text \<open>The parts of a printed number, with the two paddings as the code computes them.\<close>

lemma number_text_parts:
  fixes alloc :: "nat \<Rightarrow> bool" and num :: u64 and w p :: int and fl :: u32 and base :: base_type
  assumes "\<forall>n>FORMAT_STACK_CACHE_SIZE. alloc n"
  defines "m \<equiv> (if has_flag fl FORMAT_SIGNED \<and> sint num < 0 then - num else num)"
  defines "dg \<equiv> (if has_flag fl FORMAT_LARGE then large_digits else small_digits)"
  defines "sign \<equiv> (if has_flag fl FORMAT_SIGNED \<and> sint num < 0 then ''-'' else if has_flag fl FORMAT_PLUS then ''+''
                  else if has_flag fl FORMAT_SPACE then '' '' else [])"
  defines "pre \<equiv> (if has_flag fl FORMAT_SPECIAL
                then (case base of BASE_TYPE_OCT \<Rightarrow> ''0''
                      | BASE_TYPE_HEX \<Rightarrow> if has_flag fl FORMAT_LARGE then ''0X'' else ''0x''
                      | BASE_TYPE_BIN \<Rightarrow> if has_flag fl FORMAT_LARGE then ''0B'' else ''0b''
                      | BASE_TYPE_DEC \<Rightarrow> [])
                else [])"
  shows "\<exists>z s. number_text alloc num w p fl base
      = (if \<not> has_flag fl FORMAT_LEFT then replicate s CHR '' '' else []) @ sign @ pre @ replicate z CHR ''0''
        @ number_buf dg base (num_bit_count m base) m @ (if has_flag fl FORMAT_LEFT then replicate s CHR '' '' else [])
      \<and> int (length sign + length pre + s + z + num_bit_count m base)
         = max w (int (length sign + length pre) + max p (int (num_bit_count m base)))
      \<and> p \<le> int (z + num_bit_count m base)"
proof -
  define z1 where "z1 = (if p > int (num_bit_count m base) then p - int (num_bit_count m base) else 0)"
  define r1 where "r1 = int (length sign) + int (length pre) + int (num_bit_count m base) + (if p \<ge> 0 then z1 else 0)"
  define z where "z = (if w > r1 \<and> p < 0 \<and> has_flag fl FORMAT_ZEROPAD then w - r1 else z1)"
  define s where "s = (if w > r1 \<and> \<not> (p < 0 \<and> has_flag fl FORMAT_ZEROPAD) then w - r1 else 0)"
  have no: "\<not> (num_bit_count m base > FORMAT_STACK_CACHE_SIZE \<and> \<not> alloc (num_bit_count m base))" using assms(1) by blast
  have "number_text alloc num w p fl base
      = (if \<not> has_flag fl FORMAT_LEFT then replicate (nat s) CHR '' '' else []) @ sign @ pre @ replicate (nat z) CHR ''0''
        @ number_buf dg base (num_bit_count m base) m @ (if has_flag fl FORMAT_LEFT then replicate (nat s) CHR '' '' else [])"
    unfolding number_text_def Let_def m_def[symmetric] dg_def[symmetric] sign_def[symmetric] pre_def[symmetric] if_not_P[OF no]
      z1_def[symmetric]
    by (cases "p \<ge> 0"; cases "w > r1"; cases "has_flag fl FORMAT_ZEROPAD") (simp_all add: r1_def z_def s_def)
  moreover have "int (length sign + length pre + nat s + nat z + num_bit_count m base)
         = max w (int (length sign + length pre) + max p (int (num_bit_count m base)))"
    by (cases "p \<ge> 0"; cases "w > r1"; cases "has_flag fl FORMAT_ZEROPAD") (auto simp: r1_def z_def s_def z1_def max_def)
  moreover have "p \<le> int (nat z + num_bit_count m base)"
    by (cases "p \<ge> 0") (simp_all add: z_def z1_def)
  ultimately show ?thesis by blast
qed

text \<open>
  C31. A printed integer consists of blanks, a sign, a prefix, zeros, digits and blanks. The digits, read in the
  base, are the magnitude of the number (also of the smallest one), without a leading zero. There is
  padding on one side only, at least \<open>precision\<close> digits with the zeros, and the whole text is as long
  as the field, or as what is needed when that is more.
\<close>

theorem number_format:
  assumes "\<forall>n>FORMAT_STACK_CACHE_SIZE. alloc n"
  shows "\<exists>left sign prefix zeros digs right.
      number_text alloc num w p fl base = left @ sign @ prefix @ zeros @ digs @ right
    \<and> int (read_digits (if has_flag fl FORMAT_LARGE then large_digits else small_digits) (unat (base_value base)) digs)
        = (if has_flag fl FORMAT_SIGNED then abs (sint num) else uint num)
    \<and> (length digs = 1 \<or> hd digs \<noteq> CHR ''0'')
    \<and> sign = (if has_flag fl FORMAT_SIGNED \<and> sint num < 0 then ''-'' else if has_flag fl FORMAT_PLUS then ''+''
              else if has_flag fl FORMAT_SPACE then '' '' else [])
    \<and> length prefix = (if has_flag fl FORMAT_SPECIAL
                       then (case base of BASE_TYPE_DEC \<Rightarrow> 0 | BASE_TYPE_OCT \<Rightarrow> 1 | _ \<Rightarrow> 2) else 0)
    \<and> set left \<union> set right \<subseteq> {CHR '' ''} \<and> (if has_flag fl FORMAT_LEFT then left = [] else right = [])
    \<and> set zeros \<subseteq> {CHR ''0''} \<and> p \<le> int (length zeros + length digs)
    \<and> int (length (number_text alloc num w p fl base))
        = max w (int (length sign + length prefix) + max p (int (length digs)))"
proof -
  let ?m = "if has_flag fl FORMAT_SIGNED \<and> sint num < 0 then - num else num"
  let ?dg = "if has_flag fl FORMAT_LARGE then large_digits else small_digits"
  let ?pre = "if has_flag fl FORMAT_SPECIAL
                then (case base of BASE_TYPE_OCT \<Rightarrow> ''0''
                      | BASE_TYPE_HEX \<Rightarrow> if has_flag fl FORMAT_LARGE then ''0X'' else ''0x''
                      | BASE_TYPE_BIN \<Rightarrow> if has_flag fl FORMAT_LARGE then ''0B'' else ''0b''
                      | BASE_TYPE_DEC \<Rightarrow> [])
                else []"
  let ?sign = "if has_flag fl FORMAT_SIGNED \<and> sint num < 0 then ''-'' else if has_flag fl FORMAT_PLUS then ''+''
              else if has_flag fl FORMAT_SPACE then '' '' else []"
  let ?digs = "number_buf ?dg base (num_bit_count ?m base) ?m"
  have dg: "?dg = small_digits \<or> ?dg = large_digits" by simp
  have v: "int (read_digits ?dg (unat (base_value base)) ?digs) = (if has_flag fl FORMAT_SIGNED then abs (sint num) else uint num)"
    unfolding number_digits(1)[OF dg] using magnitude[of num] by (auto split: if_splits)
  have h: "length ?digs = 1 \<or> hd ?digs \<noteq> CHR ''0''" using number_digits(2)[OF dg] unfolding length_number_buf .
  have l: "length ?pre = (if has_flag fl FORMAT_SPECIAL then (case base of BASE_TYPE_DEC \<Rightarrow> 0 | BASE_TYPE_OCT \<Rightarrow> 1 | _ \<Rightarrow> 2) else 0)"
    by (cases base) simp_all
  obtain z s where zs: "number_text alloc num w p fl base
      = (if \<not> has_flag fl FORMAT_LEFT then replicate s CHR '' '' else [])
        @ ?sign @ ?pre @ replicate z CHR ''0''
        @ ?digs @ (if has_flag fl FORMAT_LEFT then replicate s CHR '' '' else [])"
    "int (length ?sign + length ?pre + s + z + num_bit_count ?m base)
         = max w (int (length ?sign + length ?pre) + max p (int (num_bit_count ?m base)))"
    "p \<le> int (z + num_bit_count ?m base)"
    using number_text_parts[OF assms, of num w p fl base] by blast
  let ?left = "if \<not> has_flag fl FORMAT_LEFT then replicate s CHR '' '' else []"
  let ?right = "if has_flag fl FORMAT_LEFT then replicate s CHR '' '' else []"
  have "length (number_text alloc num w p fl base) = length ?sign + length ?pre + s + z + num_bit_count ?m base"
    unfolding zs(1) length_append length_number_buf length_replicate by (cases "has_flag fl FORMAT_LEFT") simp_all
  then have len: "int (length (number_text alloc num w p fl base))
      = max w (int (length ?sign + length ?pre) + max p (int (length ?digs)))"
    using zs(2) by (simp only: length_number_buf)
  have "set ?left \<union> set ?right \<subseteq> {CHR '' ''}" "if has_flag fl FORMAT_LEFT then ?left = [] else ?right = []"
    "set (replicate z CHR ''0'') \<subseteq> {CHR ''0''}" "p \<le> int (length (replicate z CHR ''0'') + length ?digs)"
    using zs(3) by auto
  with zs(1) v h l len show ?thesis by blast
qed

theorem number_format_witness:
  "\<exists>left sign prefix zeros digs right.
      number_text (\<lambda>n. True) 0xFF00 12 6 (FORMAT_SPECIAL OR FORMAT_LEFT) BASE_TYPE_HEX = left @ sign @ prefix @ zeros @ digs @ right
    \<and> read_digits small_digits 16 digs = 0xFF00 \<and> left = []"
  using number_format[of "\<lambda>n. True" "0xFF00" 12 6 "FORMAT_SPECIAL OR FORMAT_LEFT" BASE_TYPE_HEX]
  by (simp add: has_flag_def FORMAT_LARGE_def FORMAT_SPECIAL_def FORMAT_LEFT_def FORMAT_SIGNED_def) blast

lemma stream_equivalence_witness:
  "\<exists>f. eh_stream_printf (\<lambda>n. True) (Some (eh_stream_function_init 4)) ''a%%b'' [] = Some (3, Some (Function_Stream f))"
proof -
  have "printed (\<lambda>n. True) ''a%%b'' [] = Some (3, ''a%b'')" by code_simp
  then show ?thesis using stream_equivalence[of 4 "\<lambda>n. True" "''a%%b''" "[]"] by auto
qed

text \<open>Decimal digits are what \<open>skip_atoi\<close> reads.\<close>

lemma decimal_digit:
  assumes "d < 10"
  shows "isdigit (small_digits ! d)" "digit_value (small_digits ! d) = int d"
proof -
  have "d \<in> {0, 1, 2, 3, 4, 5, 6, 7, 8, 9}" using assms by auto
  then show "isdigit (small_digits ! d)" "digit_value (small_digits ! d) = int d"
    by (auto simp: isdigit_def digit_value_def small_digits_def)
qed

lemma skip_atoi_digits:
  assumes "set t \<subseteq> (!) small_digits ` {..<10}" "0 \<le> i"
    "int (foldl (\<lambda>v c. v * 10 + digit_index small_digits c) (nat i) t) \<le> 2147483647"
  shows "skip_atoi i (t @ rest) = skip_atoi (int (foldl (\<lambda>v c. v * 10 + digit_index small_digits c) (nat i) t)) rest"
  using assms
proof (induction t arbitrary: i)
  case (Cons c t)
  obtain d where d: "d < 10" "c = small_digits ! d" using Cons.prems(1) by auto
  have ix: "digit_index small_digits c = d" using digit_table(1)[of small_digits d] d by simp
  have mono: "v \<le> foldl (\<lambda>v c. v * 10 + digit_index small_digits c) v t" for v
  proof (induction t arbitrary: v)
    case (Cons x t)
    have "v \<le> v * 10 + digit_index small_digits x" by simp
    also note Cons[of "v * 10 + digit_index small_digits x"]
    finally show ?case by simp
  qed simp
  have n: "nat i * 10 + d = nat (i * 10 + int d)" using Cons.prems(2) by simp
  have "nat i * 10 + d \<le> 2147483647"
    using mono[of "nat i * 10 + d"] Cons.prems(3) by (simp add: ix)
  then have "\<not> i * 10 + int d > 2147483647" unfolding n by simp
  then show ?case
    using Cons.IH[of "i * 10 + int d"] Cons.prems decimal_digit[OF d(1)] by (simp add: ix n flip: d(2))
qed simp

text \<open>Unsigned decimal numbers are printed with all their digits.\<close>

lemma printed_unsigned:
  assumes "uint x \<le> 2147483647"
  shows "\<exists>t. printed alloc ''%u'' [VInt x] = Some (int (length t), t)
    \<and> set t \<subseteq> (!) small_digits ` {..<10} \<and> t \<noteq> [] \<and> length t \<le> 10 \<and> read_digits small_digits 10 t = unat x"
proof -
  let ?n = "ucast x :: u64"
  let ?c = "num_bit_count ?n BASE_TYPE_DEC"
  let ?t = "number_buf small_digits BASE_TYPE_DEC ?c ?n"
  have "unat x < 2 ^ 64" using unsigned_less[of x, where ?'a = nat] by simp
  then have n: "unat ?n = unat x" by (simp add: unsigned_ucast_eq take_bit_nat_eq_self)
  have "int (unat x) \<le> 2147483647" using assms by simp
  then have "unat ?n \<le> 2147483647" unfolding n by linarith
  have c: "?c \<le> 10"
  proof (rule ccontr)
    assume "\<not> ?c \<le> 10"
    then have "10 \<le> ?c - 1" "?c \<noteq> Suc 0" by simp_all
    then have "10 ^ 10 \<le> (10 :: nat) ^ (?c - 1)" by (intro power_increasing) simp_all
    also have "\<dots> \<le> unat ?n" using num_bit_count_bounds[of ?n BASE_TYPE_DEC] \<open>?c \<noteq> Suc 0\<close> by simp
    finally show False using \<open>unat ?n \<le> 2147483647\<close> by simp
  qed
  have s: "set (number_buf small_digits BASE_TYPE_DEC i m) \<subseteq> (!) small_digits ` {..<10}" for i m
    by (induction i arbitrary: m) (auto simp: num_rsh_def unat_mod)
  have nt: "number_text alloc ?n (-1) (-1) 0 BASE_TYPE_DEC = ?t"
    using c by (simp add: number_text_def Let_def has_flag_def FORMAT_STACK_CACHE_SIZE_def)
  have "printed alloc ''%u'' [VInt x] = Some (int (length ?t), ?t)"
    unfolding printed_def eh_stream_function_no_cache_init_def
    by (simp add: streamout_vprintf.simps(2) conversion_def parse_width_def parse_precision_def parse_qualifier_def isdigit_def
        print_conversion_def Let_def print_number_def number_arg_def has_flag_def vprintf_number_def nt put_no_cache)
  moreover have "read_digits small_digits 10 ?t = unat x" using number_digits(1)[of small_digits BASE_TYPE_DEC ?n] n by simp
  moreover have "?t \<noteq> []" using num_bit_count_bounds[of ?n BASE_TYPE_DEC] length_number_buf[of small_digits BASE_TYPE_DEC ?c ?n]
    by (metis length_0_conv less_irrefl)
  ultimately show ?thesis using s c by (intro exI[of _ ?t]) simp
qed

text \<open>
  C32. What \<open>eh_snprintf\<close> prints for \<open>%u\<close>, the module's own number reader \<open>skip_atoi\<close> reads back: into a buffer of
  eleven bytes or more, every number that fits an \<open>int\<close> is printed so that reading stops at the terminating NUL with the
  number as its value.
\<close>

theorem decimal_roundtrip:
  assumes "uint x \<le> 2147483647" "10 < length buf"
  shows "\<exists>n buf' rest. eh_snprintf alloc buf ''%u'' [VInt x] = Some (n, buf') \<and> 0 < n \<and> n \<le> 10
    \<and> skip_atoi 0 buf' = Some (uint x, CHR 0x00 # rest)"
proof -
  obtain t where t: "printed alloc ''%u'' [VInt x] = Some (int (length t), t)" "set t \<subseteq> (!) small_digits ` {..<10}"
    "t \<noteq> []" "length t \<le> 10" "read_digits small_digits 10 t = unat x" using printed_unsigned[OF assms(1)] by blast
  have "buf \<noteq> []" "min (length t) (length buf - 1) = length t" using assms(2) t(4) by auto
  then have p: "eh_snprintf alloc buf ''%u'' [VInt x] = Some (int (length t), t @ CHR 0x00 # drop (Suc (length t)) buf)"
    unfolding eh_snprintf_def eh_vsnprintf_def vprintf_printed(1) t(1) by (simp add: finish_memory Let_def)
  have f: "int (foldl (\<lambda>v c. v * 10 + digit_index small_digits c) (nat 0) t) = uint x"
    using t(5) by (simp add: read_digits_def)
  have "skip_atoi 0 (t @ CHR 0x00 # drop (Suc (length t)) buf) = skip_atoi (uint x) (CHR 0x00 # drop (Suc (length t)) buf)"
    using skip_atoi_digits[OF t(2) order_refl, of "CHR 0x00 # drop (Suc (length t)) buf"] assms(1) unfolding f by blast
  also have "\<dots> = Some (uint x, CHR 0x00 # drop (Suc (length t)) buf)" by (simp add: isdigit_def)
  finally have "skip_atoi 0 (t @ CHR 0x00 # drop (Suc (length t)) buf) = Some (uint x, CHR 0x00 # drop (Suc (length t)) buf)" .
  moreover have "0 < int (length t)" "int (length t) \<le> 10" using t(3,4) by simp_all
  ultimately show ?thesis using p by blast
qed

lemma decimal_roundtrip_witness:
  "\<exists>n buf' rest. eh_snprintf (\<lambda>n. False) (replicate 12 CHR ''x'') ''%u'' [VInt 2147483647] = Some (n, buf')
    \<and> skip_atoi 0 buf' = Some (2147483647, CHR 0x00 # rest)"
  using decimal_roundtrip[of 2147483647 "replicate 12 CHR ''x''" "\<lambda>n. False"] by simp blast

text \<open>
  The count leaves out the percent sign of a conversion that is not known, and a tie in the last place does not carry:
  0.95 with one decimal place becomes the integral part 0 and the fractional part 10.
\<close>

lemma unknown_conversion_count: "printed alloc ''%y'' [] = Some (1, ''%y'')"
  by (simp add: printed_def eh_stream_function_no_cache_init_def streamout_vprintf.simps(2) conversion_def parse_width_def
      parse_precision_def parse_qualifier_def isdigit_def print_conversion_def Let_def)

lemma float_half_carry:
  "float_decentralized False (rnd (95 / 100)) 1 = \<lparr>integral = 0, fractional = 10, is_negative = False\<rparr>"
  by code_simp

end
