(* ===== verification/Eh_Event_Cb_Spec.thy ===== *)
theory Eh_Event_Cb_Spec
  imports Eh_Event_Cb "HOL-Library.Sublist"
begin

text \<open>
  What the event loop does with the slots of a trigger while their functions disconnect slots from it: which
  are run, in which order, and which are connected afterwards.
\<close>

text \<open>
  \<open>disconnects call e tr D obs\<close>: a slot function called for the event \<open>e\<close> with the parameter \<open>p\<close>
  disconnects the slots \<open>D p\<close> from the trigger \<open>tr\<close>, connects none to it, leaves the contents of slots
  alone, and \<open>obs\<close> observes the calls.
\<close>

definition disconnects ::
  "(ptr \<Rightarrow> ptr \<Rightarrow> ptr \<Rightarrow> cb_state \<Rightarrow> cb_state) \<Rightarrow> ptr \<Rightarrow> ptr \<Rightarrow> (ptr \<Rightarrow> ptr set) \<Rightarrow> (cb_state \<Rightarrow> ptr list) \<Rightarrow> bool" where
  "disconnects call e tr D obs \<longleftrightarrow>
     (\<forall>fn p c. distinct (tr_head (triggers c tr) @ tr_used (triggers c tr)) \<longrightarrow>
        tr_head (triggers (call fn e p c) tr) = filter (\<lambda>s. s \<notin> D p) (tr_head (triggers c tr))
      \<and> tr_used (triggers (call fn e p c) tr) = filter (\<lambda>s. s \<notin> D p) (tr_used (triggers c tr))
      \<and> slots (call fn e p c) = slots c \<and> obs (call fn e p c) = obs c @ [p])
   \<and> (\<forall>f c. obs (update_trigger tr f c) = obs c) \<and> (\<forall>c. obs (cb_free tr c) = obs c)"

text \<open>The slots that the slot \<open>s\<close> disconnects when it is run.\<close>

definition slot_disconnects :: "(ptr \<Rightarrow> ptr set) \<Rightarrow> cb_state \<Rightarrow> ptr \<Rightarrow> ptr set" where
  "slot_disconnects D c s = (if slot_function (slots c s) = NULL then {} else D (slot_param (slots c s)))"

text \<open>\<open>served R H S\<close>: of the slots \<open>H\<close>, in order, those are served that no served one in front of them disconnects.\<close>

definition served :: "(ptr \<Rightarrow> ptr set) \<Rightarrow> ptr list \<Rightarrow> ptr list \<Rightarrow> bool" where
  "served R H S \<longleftrightarrow> subseq S H \<and> (\<forall>xs x ys. H = xs @ x # ys \<longrightarrow> (x \<in> set S \<longleftrightarrow> (\<forall>t\<in>set xs \<inter> set S. x \<notin> R t)))"

lemma served_Cons:
  assumes "served R (filter (\<lambda>x. x \<notin> R s) H) S" "distinct (s # H)"
  shows "served R (s # H) (s # S)"
proof -
  have sub: "subseq S (filter (\<lambda>x. x \<notin> R s) H)" using assms(1) by (simp add: served_def)
  have "set S \<subseteq> set (filter (\<lambda>x. x \<notin> R s) H)" by (rule subsetI) (use list_emb_set[OF sub] in blast)
  then have S: "set S \<subseteq> set H" "\<And>x. x \<in> set S \<Longrightarrow> x \<notin> R s" by auto
  have "x \<in> set (s # S) \<longleftrightarrow> (\<forall>t\<in>set xs \<inter> set (s # S). x \<notin> R t)" if h: "s # H = xs @ x # ys" for xs x ys
  proof (cases xs)
    case Nil
    then show ?thesis using h by simp
  next
    case (Cons a xs1)
    then have H: "H = xs1 @ x # ys" "a = s" using h by auto
    have xs: "x \<noteq> s" "s \<notin> set xs1" using assms(2) H by auto
    show ?thesis
    proof (cases "x \<in> R s")
      case True
      then show ?thesis using S(2) xs Cons H by auto
    next
      case False
      then have "filter (\<lambda>x. x \<notin> R s) H = filter (\<lambda>x. x \<notin> R s) xs1 @ x # filter (\<lambda>x. x \<notin> R s) ys" using H by simp
      then have "x \<in> set S \<longleftrightarrow> (\<forall>t\<in>set (filter (\<lambda>x. x \<notin> R s) xs1) \<inter> set S. x \<notin> R t)"
        using assms(1) unfolding served_def by blast
      also have "set (filter (\<lambda>x. x \<notin> R s) xs1) \<inter> set S = set xs1 \<inter> set S" using S(2) by auto
      finally show ?thesis using False xs Cons H by auto
    qed
  qed
  moreover have "subseq (s # S) (s # H)" using sub subseq_order.trans[OF sub subseq_filter_left] by simp
  ultimately show ?thesis unfolding served_def by blast
qed

lemma update_trigger_simps [simp]:
  "triggers (update_trigger tr f c) tr = f (triggers c tr)" "slots (update_trigger tr f c) = slots c"
  "cb_kernel (update_trigger tr f c) = cb_kernel c"
  by (simp_all add: update_trigger_def)

lemma run_slots_served:
  assumes "disconnects call e tr D obs" "distinct (H @ U)" "tr_head (triggers c tr) = H" "tr_used (triggers c tr) = U"
  shows "\<exists>S c'. run_slots call e tr c = Some c' \<and> served (slot_disconnects D c) H S \<and> slots c' = slots c
    \<and> obs c' = obs c @ map (\<lambda>s. slot_param (slots c s)) (filter (\<lambda>s. slot_function (slots c s) \<noteq> NULL) S)
    \<and> tr_head (triggers c' tr) = []
    \<and> tr_used (triggers c' tr) = filter (\<lambda>s. \<forall>t\<in>set S. s \<notin> slot_disconnects D c t) (U @ H)"
  using assms(2-4)
proof (induction "length H" arbitrary: H U c rule: less_induct)
  case less
  show ?case
  proof (cases H)
    case Nil
    then show ?thesis using less.prems by (subst run_slots.simps) (auto simp: served_def)
  next
    case (Cons s H1)
    define c1 where "c1 = update_trigger tr (\<lambda>t. t\<lparr>tr_head := tl (tr_head t), tr_used := tr_used t @ [s]\<rparr>) c"
    define c2 where "c2 = (if slot_function (slots c1 s) \<noteq> NULL then call (slot_function (slots c1 s)) e (slot_param (slots c1 s)) c1 else c1)"
    let ?R = "slot_disconnects D c"
    have c1: "tr_head (triggers c1 tr) = H1" "tr_used (triggers c1 tr) = U @ [s]" "slots c1 = slots c" "obs c1 = obs c"
      using less.prems Cons assms(1) by (simp_all add: c1_def disconnects_def)
    have "distinct (tr_head (triggers c1 tr) @ tr_used (triggers c1 tr))" using less.prems(1) Cons c1 by auto
    then have c2: "tr_head (triggers c2 tr) = filter (\<lambda>x. x \<notin> ?R s) H1" "tr_used (triggers c2 tr) = filter (\<lambda>x. x \<notin> ?R s) (U @ [s])"
      "slots c2 = slots c" "obs c2 = obs c @ (if slot_function (slots c s) \<noteq> NULL then [slot_param (slots c s)] else [])"
      using assms(1) c1 unfolding c2_def disconnects_def slot_disconnects_def by simp_all
    have r: "run_slots call e tr c = run_slots call e tr c2"
      using less.prems Cons by (subst run_slots.simps) (simp add: Let_def c2_def c1_def)
    have "length (filter (\<lambda>x. x \<notin> ?R s) H1) < length H" using Cons length_filter_le[of _ H1] by (simp add: less_Suc_eq_le)
    note lt = this
    have dis: "distinct (filter (\<lambda>x. x \<notin> ?R s) H1 @ filter (\<lambda>x. x \<notin> ?R s) (U @ [s]))" using less.prems(1) Cons by auto
    have R: "slot_disconnects D c2 = ?R" using c2(3) by (simp add: slot_disconnects_def fun_eq_iff)
    obtain S c' where S: "run_slots call e tr c2 = Some c'" "served ?R (filter (\<lambda>x. x \<notin> ?R s) H1) S" "slots c' = slots c"
      "obs c' = obs c2 @ map (\<lambda>s. slot_param (slots c s)) (filter (\<lambda>s. slot_function (slots c s) \<noteq> NULL) S)"
      "tr_head (triggers c' tr) = []"
      "tr_used (triggers c' tr) = filter (\<lambda>s. \<forall>t\<in>set S. s \<notin> ?R t) (filter (\<lambda>x. x \<notin> ?R s) (U @ [s]) @ filter (\<lambda>x. x \<notin> ?R s) H1)"
      using less.hyps[OF lt dis c2(1,2)] unfolding R c2(3) by blast
    have "served ?R H (s # S)" unfolding Cons using served_Cons[OF S(2)] less.prems(1) Cons by auto
    moreover have "tr_used (triggers c' tr) = filter (\<lambda>x. \<forall>t\<in>set (s # S). x \<notin> ?R t) (U @ H)"
      unfolding S(6) Cons by (simp add: conj_commute)
    ultimately show ?thesis using S(1,3-5) r c2(4) by (intro exI[of _ "s # S"] exI[of _ c']) simp
  qed
qed

text \<open>
  C33. The event loop runs the slots connected to an event in the order of their connection list, each at most once and with its
  parameter, although their functions may disconnect slots, themselves included: exactly those are
  run that no slot run before has disconnected. The pass ends, and leaves connected exactly the slots that none
  of them disconnected, in their old order. A trigger without connections is released then.
\<close>

theorem callback_dispatch:
  assumes "disconnects call e tr D obs" "distinct (tr_head (triggers c tr))"
  shows "\<exists>S c'. run_trigger call e tr c = Some c' \<and> served (slot_disconnects D c) (tr_head (triggers c tr)) S
    \<and> obs c' = obs c @ map (\<lambda>s. slot_param (slots c s)) (filter (\<lambda>s. slot_function (slots c s) \<noteq> NULL) S)
    \<and> tr_head (triggers c' tr) = filter (\<lambda>s. \<forall>t\<in>set S. s \<notin> slot_disconnects D c t) (tr_head (triggers c tr))
    \<and> (connect_cnt (triggers c' tr) = 0 \<longrightarrow> tr \<in> set (freed (cb_kernel c')))"
proof -
  define c1 where "c1 = update_trigger tr (\<lambda>t. t\<lparr>tr_used := []\<rparr>) c"
  have c1: "tr_head (triggers c1 tr) = tr_head (triggers c tr)" "tr_used (triggers c1 tr) = []" "slots c1 = slots c" "obs c1 = obs c"
    using assms(1) by (simp_all add: c1_def disconnects_def)
  have R: "slot_disconnects D c1 = slot_disconnects D c" using c1(3) by (simp add: slot_disconnects_def fun_eq_iff)
  obtain S c2 where S: "run_slots call e tr c1 = Some c2" "served (slot_disconnects D c) (tr_head (triggers c tr)) S"
    "obs c2 = obs c @ map (\<lambda>s. slot_param (slots c s)) (filter (\<lambda>s. slot_function (slots c s) \<noteq> NULL) S)"
    "tr_head (triggers c2 tr) = []"
    "tr_used (triggers c2 tr) = filter (\<lambda>s. \<forall>t\<in>set S. s \<notin> slot_disconnects D c t) (tr_head (triggers c tr))"
    using run_slots_served[OF assms(1) _ c1(1,2)] assms(2) unfolding R c1(3,4) by auto
  define c3 where "c3 = update_trigger tr (\<lambda>t. t\<lparr>tr_head := tr_used t @ tr_head t, tr_used := []\<rparr>) c2"
  have "obs (trigger_forced_release_ref tr c3) = obs c2"
    using assms(1) by (simp add: trigger_forced_release_ref_def Let_def c3_def disconnects_def)
  moreover have "tr_head (triggers (trigger_forced_release_ref tr c3) tr) = tr_used (triggers c2 tr)"
    using S(4) by (simp add: trigger_forced_release_ref_def Let_def c3_def cb_free_def)
  moreover have "connect_cnt (triggers (trigger_forced_release_ref tr c3) tr) = 0 \<longrightarrow> tr \<in> set (freed (cb_kernel (trigger_forced_release_ref tr c3)))"
    by (simp add: trigger_forced_release_ref_def Let_def cb_free_def k_free_def)
  moreover have "run_trigger call e tr c = Some (trigger_forced_release_ref tr c3)"
    using S(1) by (simp add: run_trigger_def c1_def[symmetric] c3_def[symmetric] Let_def)
  ultimately show ?thesis using S(2,3,5) by auto
qed

text \<open>Three slots on a trigger; the first one disconnects the second.\<close>

definition demo_call :: "ptr \<Rightarrow> ptr \<Rightarrow> ptr \<Rightarrow> cb_state \<Rightarrow> cb_state" where
  "demo_call fn e p c =
     (let c = (if p = 11 then snd (trigger_disconnect 5 12 c) else c)
      in c\<lparr>cb_kernel := (cb_kernel c)\<lparr>ready_list := ready_list (cb_kernel c) @ [p]\<rparr>\<rparr>)"

definition demo_state :: "kernel \<Rightarrow> cb_state" where
  "demo_state k = \<lparr>cb_kernel = k\<lparr>ready_list := []\<rparr>,
     triggers = (\<lambda>_. \<lparr>tr_head = [11, 12, 13], tr_used = [], connect_cnt = 3, forced_ref = True\<rparr>),
     slots = (\<lambda>s. \<lparr>slot_function = 1, slot_param = s, slot_task = NULL\<rparr>)\<rparr>"

lemma demo_disconnects:
  "disconnects demo_call e 5 (\<lambda>p. if p = 11 then {12} else {}) (\<lambda>c. ready_list (cb_kernel c))"
  by (auto simp: disconnects_def demo_call_def trigger_disconnect_def slot_unlink_def update_trigger_def Let_def cb_free_def k_free_def
      distinct_remove1_removeAll removeAll_filter_not_eq intro!: filter_cong)

lemma callback_dispatch_witness:
  "\<forall>k. \<exists>S c'. run_trigger demo_call 9 5 (demo_state k) = Some c' \<and> ready_list (cb_kernel c') = map id S
    \<and> served (slot_disconnects (\<lambda>p. if p = 11 then {12} else {}) (demo_state k)) [11, 12, 13] S"
proof
  fix k
  show "\<exists>S c'. run_trigger demo_call 9 5 (demo_state k) = Some c' \<and> ready_list (cb_kernel c') = map id S
    \<and> served (slot_disconnects (\<lambda>p. if p = 11 then {12} else {}) (demo_state k)) [11, 12, 13] S"
    using callback_dispatch[OF demo_disconnects[of 9], of "demo_state k"] by (auto simp: demo_state_def)
qed

end
