(* ===== verification/Eh_Epoll_Spec.thy ===== *)
theory Eh_Epoll_Spec
  imports Eh_Epoll Eh_Flags_Spec
begin

text \<open>
  What a poller promises under every interleaving: it is a queue of the events that happened since they were
  last read, each once, and no task waits on a poller whose queue is not empty.
\<close>

subsection \<open>Reading\<close>

lemma flag_masks:
  "\<not> r_any (r\<lparr>r_flags := r_flags r AND NOT RECEPTOR_MASK\<rparr>)" "\<not> r_error (r\<lparr>r_flags := r_flags r AND NOT RECEPTOR_MASK\<rparr>)"
  "r_uepoll (r\<lparr>r_flags := r_flags r AND NOT RECEPTOR_MASK\<rparr>) = r_uepoll r"
  "r_any (r\<lparr>r_flags := r_flags r OR RECEPTOR_TRIGGER\<rparr>)" "r_any (r\<lparr>r_flags := r_flags r OR RECEPTOR_ERROR\<rparr>)"
  "r_error (r\<lparr>r_flags := r_flags r OR RECEPTOR_ERROR\<rparr>)"
proof -
  have "(w AND - 4) AND 3 = 0" "(w AND - 4) AND 2 = 0" "(w AND - 4) AND 4 = w AND 4" for w :: u32
    by (simp_all add: and.assoc)
  then show "\<not> r_any (r\<lparr>r_flags := r_flags r AND NOT RECEPTOR_MASK\<rparr>)" "\<not> r_error (r\<lparr>r_flags := r_flags r AND NOT RECEPTOR_MASK\<rparr>)"
    "r_uepoll (r\<lparr>r_flags := r_flags r AND NOT RECEPTOR_MASK\<rparr>) = r_uepoll r"
    by (simp_all add: r_any_def r_error_def r_uepoll_def RECEPTOR_MASK_def RECEPTOR_ERROR_def RECEPTOR_EPOLL_def RECEPTOR_TRIGGER_def)
  have "(w OR 1) AND 3 \<noteq> 0" "(w OR 2) AND 3 \<noteq> 0" "(w OR 2) AND 2 \<noteq> 0" for w :: u32
    by (simp_all add: bit.conj_disj_distrib2 or_eq_0_iff)
  then show "r_any (r\<lparr>r_flags := r_flags r OR RECEPTOR_TRIGGER\<rparr>)" "r_any (r\<lparr>r_flags := r_flags r OR RECEPTOR_ERROR\<rparr>)"
    "r_error (r\<lparr>r_flags := r_flags r OR RECEPTOR_ERROR\<rparr>)"
    by (simp_all add: r_any_def r_error_def RECEPTOR_MASK_def RECEPTOR_ERROR_def RECEPTOR_TRIGGER_def)
qed

text \<open>Reading takes the first \<open>n\<close> pending nodes, at least one, and clears their flags.\<close>

lemma pending_read_effect:
  fixes n :: int and k :: kernel
  assumes "e_pending (epolls k ep) = Q" "distinct Q" "\<forall>r\<in>set Q. r_any (receptors k r)"
  defines "m \<equiv> nat (max 1 n)"
  shows "fst (pending_read Q n k) = map (epoll_slot_of k) (take m Q)
    \<and> e_pending (epolls (snd (pending_read Q n k)) ep) = drop m Q
    \<and> e_wakeup (epolls (snd (pending_read Q n k)) ep) = e_wakeup (epolls k ep)
    \<and> receptors (snd (pending_read Q n k)) = (\<lambda>r. if r \<in> set (take m Q)
        then (receptors k r)\<lparr>r_flags := r_flags (receptors k r) AND NOT RECEPTOR_MASK\<rparr> else receptors k r)
    \<and> tasks (snd (pending_read Q n k)) = tasks k \<and> current_task (snd (pending_read Q n k)) = current_task k
    \<and> epoll_nodes (snd (pending_read Q n k)) = epoll_nodes k \<and> receptor_list (snd (pending_read Q n k)) = receptor_list k"
  using assms(1-3) unfolding m_def
proof (induction Q n k rule: pending_read.induct)
  case (1 n k)
  then show ?case by simp
next
  case (2 r rs n k)
  let ?k = "pending_unlink r (clear_receptor_flags r RECEPTOR_MASK k)"
  have any: "r_any (receptors k r)" using 2 by simp
  have k1: "e_pending (epolls ?k ep) = rs" "e_wakeup (epolls ?k ep) = e_wakeup (epolls k ep)" "tasks ?k = tasks k"
    "current_task ?k = current_task k" "epoll_nodes ?k = epoll_nodes k" "receptor_list ?k = receptor_list k"
    "receptors ?k = (receptors k)(r := (receptors k r)\<lparr>r_flags := r_flags (receptors k r) AND NOT RECEPTOR_MASK\<rparr>)"
    using 2 by (simp_all add: pending_unlink_def clear_receptor_flags_def)
  show ?case
  proof (cases "n \<le> 1")
    case True
    then have m: "nat (max 1 n) = 1" by simp
    have "pending_read (r # rs) n k = ([epoll_slot_of k r], ?k)" using any True by (simp add: Let_def)
    then show ?thesis unfolding m using k1 by (auto simp: fun_eq_iff)
  next
    case False
    then have m: "nat (max 1 n) = Suc (nat (max 1 (n - 1)))" by (simp add: max_def Suc_nat_eq_nat_zadd1)
    have p: "pending_read (r # rs) n k = (epoll_slot_of k r # fst (pending_read rs (n - 1) ?k), snd (pending_read rs (n - 1) ?k))"
      using any False by (simp add: Let_def split_beta)
    have r: "r \<notin> set rs" using 2 by simp
    have "\<forall>x\<in>set rs. r_any (receptors ?k x)" "distinct rs" using 2 r by (auto simp: k1)
    note IH = 2(1)[OF _ refl refl False k1(1) this(2,1)]
    have "epoll_slot_of ?k x = epoll_slot_of k x" if "x \<in> set rs" for x
      using that r by (auto simp: epoll_slot_of_def k1)
    then have "map (epoll_slot_of ?k) (take j rs) = map (epoll_slot_of k) (take j rs)" for j
      by (auto dest: in_set_takeD)
    then show ?thesis using IH any r unfolding m p by (auto simp: k1 fun_eq_iff dest: in_set_takeD)
  qed
qed

text \<open>Cleaning an event appends the receptors of a poller that are not pending yet.\<close>

lemma clean_pending:
  "distinct rs \<Longrightarrow> e_pending (epolls (clean_receptors rs k) ep) = e_pending (epolls k ep)
     @ filter (\<lambda>r. is_poll_receptor k ep r \<and> r \<notin> set (e_pending (epolls k ep))) rs"
proof (induction rs arbitrary: k)
  case (Cons r rs)
  define k1 where "k1 = set_receptor_flag r RECEPTOR_ERROR k"
  define k2 where "k2 = eh_event_trigger_receptor_no_lock r k1"
  note eff = trigger_receptor_effect[where r = r and k = k1, folded k2_def]
  have ip: "is_poll_receptor (eh_event_remove_receptor_no_lock r k2) ep x = is_poll_receptor k ep x"
    "is_poll_receptor k1 ep x = is_poll_receptor k ep x" for x
    using eff(2) by (simp_all add: is_poll_receptor_def k1_def flag_keeps_uepoll)
  have p: "e_pending (epolls k2 ep) = (if is_poll_receptor k ep r \<and> r \<notin> set (e_pending (epolls k ep))
            then e_pending (epolls k ep) @ [r] else e_pending (epolls k ep))"
    using eff(7)[where ep = ep] unfolding ip by (simp add: k1_def)
  have "filter (\<lambda>x. is_poll_receptor k ep x \<and> x \<notin> set (e_pending (epolls k2 ep))) rs
       = filter (\<lambda>x. is_poll_receptor k ep x \<and> x \<notin> set (e_pending (epolls k ep))) rs"
    using Cons.prems by (intro filter_cong) (auto simp: p split: if_splits)
  then show ?case
    using Cons.IH[of "eh_event_remove_receptor_no_lock r k2"] Cons.prems
    by (simp add: ip p k2_def[symmetric] k1_def[symmetric])
qed simp

subsection \<open>The life of a poller\<close>

text \<open>
  The abstract poller: \<open>N\<close> gives the event and the user data of each node, \<open>Q\<close> is the queue of the nodes whose
  event happened, and \<open>X\<close> the nodes of \<open>Q\<close> whose event was cleaned.
\<close>

definition new_ready :: "(ptr \<rightharpoonup> ptr \<times> ptr) \<Rightarrow> ptr list \<Rightarrow> ptr list \<Rightarrow> ptr list" where
  "new_ready N Q rs = filter (\<lambda>r. r \<in> dom N \<and> r \<notin> set Q) rs"

definition slot_for :: "(ptr \<rightharpoonup> ptr \<times> ptr) \<Rightarrow> ptr set \<Rightarrow> ptr \<Rightarrow> epoll_slot" where
  "slot_for N X r = \<lparr>sl_event = fst (the (N r)), sl_userdata = snd (the (N r)),
     sl_affair = (if r \<in> X then AFFAIR_ERROR else AFFAIR_TRIGGER)\<rparr>"

abbreviation slots_read :: "int \<Rightarrow> nat" where "slots_read n \<equiv> nat (max 1 n)"

text \<open>A receptor is in an event's list once, and the poller's receptors are its nodes.\<close>

definition lists_ok :: "ptr \<Rightarrow> ptr set \<Rightarrow> kernel \<Rightarrow> bool" where
  "lists_ok ep R k \<longleftrightarrow> (\<forall>e. distinct (receptor_list k e) \<and> (\<forall>r\<in>set (receptor_list k e). is_poll_receptor k ep r \<longrightarrow> r \<in> R))"

definition poll_undisturbed :: "ptr \<Rightarrow> ptr set \<Rightarrow> kernel \<Rightarrow> kernel \<Rightarrow> bool" where
  "poll_undisturbed ep R k k' \<longleftrightarrow> e_pending (epolls k' ep) = e_pending (epolls k ep) \<and> e_wakeup (epolls k' ep) = e_wakeup (epolls k ep)
     \<and> (\<forall>r\<in>R. receptors k' r = receptors k r \<and> epoll_nodes k' r = epoll_nodes k r)
     \<and> (t_state (tasks k (e_wakeup (epolls k ep))) \<noteq> WAIT \<longrightarrow> t_state (tasks k' (e_wakeup (epolls k ep))) \<noteq> WAIT)
     \<and> lists_ok ep R k'"

inductive poll_run :: "ptr \<Rightarrow> kernel \<Rightarrow> (ptr \<rightharpoonup> ptr \<times> ptr) \<Rightarrow> ptr list \<Rightarrow> ptr set \<Rightarrow> bool" for ep where
  new: "eh_epoll_new (Some ep) k0 = (Inr ep, k) \<Longrightarrow> ep \<noteq> NULL \<Longrightarrow> lists_ok ep {} k0 \<Longrightarrow> poll_run ep k (\<lambda>_. None) [] {}"
| add: "poll_run ep k N Q X \<Longrightarrow> N r = None \<Longrightarrow> r \<noteq> NULL \<Longrightarrow> eh_epoll_add_event ep e u (Some r) k = Some (ret, k') \<Longrightarrow>
    poll_run ep k' (if ret = EH_RET_OK then N(r \<mapsto> (e, u)) else N) Q X"
| del: "poll_run ep k N Q X \<Longrightarrow> r \<in> dom N \<Longrightarrow> eh_epoll_del_event_from_handle_no_lock ep r k = Some k' \<Longrightarrow>
    poll_run ep k' (N(r := None)) (remove1 r Q) (X - {r})"
| notify: "poll_run ep k N Q X \<Longrightarrow> e \<noteq> NULL \<Longrightarrow> eh_event_notify e k = (ret, k') \<Longrightarrow>
    poll_run ep k' N (Q @ new_ready N Q (receptor_list k e)) X"
| notify_some: "poll_run ep k N Q X \<Longrightarrow> e \<noteq> NULL \<Longrightarrow>
    eh_event_notify_and_reorder e num k = (ret, k') \<Longrightarrow>
    poll_run ep k' N (Q @ new_ready N Q (take (nat num) (receptor_list k e))) X"
| clean: "poll_run ep k N Q X \<Longrightarrow> e \<noteq> NULL \<Longrightarrow> eh_event_clean e k = k' \<Longrightarrow>
    poll_run ep k' N (Q @ new_ready N Q (receptor_list k e)) (X \<union> dom N \<inter> set (receptor_list k e))"
| wait: "poll_run ep k N Q X \<Longrightarrow> epoll_wait_round ep n k = (res, k') \<Longrightarrow>
    poll_run ep k' N (drop (slots_read n) Q) (X - set (take (slots_read n) Q))"
| wait_now: "poll_run ep k N Q X \<Longrightarrow> eh_epoll_wait_now ep n k = (res, k') \<Longrightarrow>
    poll_run ep k' N (drop (slots_read n) Q) (X - set (take (slots_read n) Q))"
| other: "poll_run ep k N Q X \<Longrightarrow> poll_undisturbed ep (dom N) k k' \<Longrightarrow> poll_run ep k' N Q X"

definition node_ok :: "ptr \<Rightarrow> kernel \<Rightarrow> (ptr \<rightharpoonup> ptr \<times> ptr) \<Rightarrow> ptr list \<Rightarrow> ptr set \<Rightarrow> ptr \<Rightarrow> bool" where
  "node_ok ep k N Q X r \<longleftrightarrow> r \<noteq> NULL \<and> is_poll_receptor k ep r \<and> (r_any (receptors k r) \<longleftrightarrow> r \<in> set Q) \<and> (r_error (receptors k r) \<longleftrightarrow> r \<in> X)
     \<and> N r = Some (n_event (epoll_nodes k r), n_userdata (epoll_nodes k r))"

definition poll_ok :: "ptr \<Rightarrow> kernel \<Rightarrow> (ptr \<rightharpoonup> ptr \<times> ptr) \<Rightarrow> ptr list \<Rightarrow> ptr set \<Rightarrow> bool" where
  "poll_ok ep k N Q X \<longleftrightarrow> ep \<noteq> NULL \<and> e_pending (epolls k ep) = Q \<and> distinct Q \<and> set Q \<subseteq> dom N \<and> X \<subseteq> set Q
     \<and> lists_ok ep (dom N) k \<and> (\<forall>r\<in>dom N. node_ok ep k N Q X r)
     \<and> (Q \<noteq> [] \<longrightarrow> e_wakeup (epolls k ep) \<noteq> NULL \<longrightarrow> t_state (tasks k (e_wakeup (epolls k ep))) \<noteq> WAIT)"

lemma poll_okD:
  assumes "poll_ok ep k N Q X"
  shows "ep \<noteq> NULL" "e_pending (epolls k ep) = Q" "distinct Q" "set Q \<subseteq> dom N" "X \<subseteq> set Q"
    "lists_ok ep (dom N) k" "\<And>r. r \<in> dom N \<Longrightarrow> node_ok ep k N Q X r"
    "Q \<noteq> [] \<Longrightarrow> e_wakeup (epolls k ep) \<noteq> NULL \<Longrightarrow> t_state (tasks k (e_wakeup (epolls k ep))) \<noteq> WAIT"
  using assms unfolding poll_ok_def by blast+

lemma poll_okI:
  assumes "ep \<noteq> NULL" "e_pending (epolls k ep) = Q" "distinct Q" "set Q \<subseteq> dom N" "X \<subseteq> set Q"
    "lists_ok ep (dom N) k" "\<And>r. r \<in> dom N \<Longrightarrow> node_ok ep k N Q X r"
    "Q \<noteq> [] \<Longrightarrow> e_wakeup (epolls k ep) \<noteq> NULL \<Longrightarrow> t_state (tasks k (e_wakeup (epolls k ep))) \<noteq> WAIT"
  shows "poll_ok ep k N Q X"
  using assms unfolding poll_ok_def by blast

lemma any_not_error: "r_any r \<Longrightarrow> \<not> r_error r \<Longrightarrow> r_trigger r"
proof -
  have "w AND 3 = (w AND 1) OR (w AND 2)" for w :: u32 by (simp add: bit.conj_disj_distrib[symmetric])
  then show "r_any r \<Longrightarrow> \<not> r_error r \<Longrightarrow> r_trigger r"
    by (auto simp: r_any_def r_error_def r_trigger_def RECEPTOR_MASK_def RECEPTOR_ERROR_def RECEPTOR_TRIGGER_def or_eq_0_iff)
qed

lemma poll_ok_slots:
  assumes "poll_ok ep k N Q X"
  shows "map (epoll_slot_of k) (take m Q) = map (slot_for N X) (take m Q)"
proof (rule map_cong[OF refl])
  fix r assume "r \<in> set (take m Q)"
  then have r: "r \<in> set Q" by (rule in_set_takeD)
  then have "node_ok ep k N Q X r" using assms by (auto simp: poll_ok_def)
  then show "epoll_slot_of k r = slot_for N X r"
    using any_not_error r by (simp add: epoll_slot_of_def slot_for_def node_ok_def)
qed

lemma lists_ok_shrink:
  assumes "lists_ok ep R k" "\<forall>e. set (receptor_list k' e) \<subseteq> set (receptor_list k e) \<and> distinct (receptor_list k' e)"
    "\<forall>r. is_poll_receptor k' ep r \<longrightarrow> is_poll_receptor k ep r"
  shows "lists_ok ep R k'"
  using assms unfolding lists_ok_def by blast

text \<open>What notifications and cleaning do to the poller: \<open>f\<close> is the flag they set.\<close>

lemma poll_ok_flagged:
  assumes ok: "poll_ok ep k N Q X" and d: "distinct rs" and f: "f = RECEPTOR_TRIGGER \<or> f = RECEPTOR_ERROR"
    and own: "\<forall>r\<in>set rs. is_poll_receptor k ep r \<longrightarrow> r \<in> dom N"
    and p: "e_pending (epolls k' ep) = e_pending (epolls k ep)
      @ filter (\<lambda>r. is_poll_receptor k ep r \<and> r \<notin> set (e_pending (epolls k ep))) rs" "e_wakeup (epolls k' ep) = e_wakeup (epolls k ep)"
    and r: "receptors k' = (\<lambda>r. if r \<in> set rs
         then (receptors k r)\<lparr>r_flags := r_flags (receptors k r) OR f\<rparr> else receptors k r)"
    and nd: "epoll_nodes k' = epoll_nodes k" and w: "woken (\<Union>r\<in>set rs. wake_target k r) k k'"
    and l: "\<forall>e. set (receptor_list k' e) \<subseteq> set (receptor_list k e) \<and> distinct (receptor_list k' e)"
  shows "poll_ok ep k' N (Q @ new_ready N Q rs) (if f = RECEPTOR_ERROR then X \<union> dom N \<inter> set rs else X)"
proof -
  have nodes: "\<forall>x\<in>dom N. node_ok ep k N Q X x" using poll_okD(7)[OF ok] by blast
  then have "\<forall>x\<in>dom N. is_poll_receptor k ep x" by (simp add: node_ok_def)
  then have own': "is_poll_receptor k ep x \<longleftrightarrow> x \<in> dom N" if "x \<in> set rs" for x
    using that own by blast
  note q = poll_okD(2)[OF ok]
  have "filter (\<lambda>r. is_poll_receptor k ep r \<and> r \<notin> set Q) rs = new_ready N Q rs"
    unfolding new_ready_def by (rule filter_cong[OF refl]) (simp add: own')
  then have p': "e_pending (epolls k' ep) = Q @ new_ready N Q rs" using p(1) by (simp add: q)
  have up: "r_uepoll (r\<lparr>r_flags := r_flags r OR f\<rparr>) = r_uepoll r" for r
  proof -
    have "(w OR 1) AND 4 = w AND (4 :: u32)" "(w OR 2) AND 4 = w AND (4 :: u32)" for w
      by (simp_all add: bit.conj_disj_distrib2)
    then show ?thesis using f by (auto simp: r_uepoll_def RECEPTOR_TRIGGER_def RECEPTOR_ERROR_def RECEPTOR_EPOLL_def)
  qed
  then have ip: "is_poll_receptor k' ep x = is_poll_receptor k ep x" for x by (simp add: is_poll_receptor_def r)
  have wake: "t_state (tasks k' (e_wakeup (epolls k ep))) \<noteq> WAIT"
    if ne: "Q @ new_ready N Q rs \<noteq> []" "e_wakeup (epolls k ep) \<noteq> NULL"
  proof (cases "Q = []")
    case False
    then have "t_state (tasks k (e_wakeup (epolls k ep))) \<noteq> WAIT" using poll_okD(8)[OF ok] that(2) by blast
    then show ?thesis using w by (simp add: woken_def)
  next
    case True
    then obtain x where x: "x \<in> set rs" "x \<in> dom N" using ne(1) by (auto simp: new_ready_def filter_empty_conv)
    then have "is_poll_receptor k ep x" using own' by blast
    then have "e_wakeup (epolls k ep) \<in> wake_target k x" using that(2) by (simp add: wake_target_def is_poll_receptor_def)
    then show ?thesis using w x by (auto simp: woken_def)
  qed
  have "node_ok ep k' N (Q @ new_ready N Q rs) (if f = RECEPTOR_ERROR then X \<union> dom N \<inter> set rs else X) x" if x: "x \<in> dom N" for x
  proof -
    have n: "node_ok ep k N Q X x" using nodes x by (rule bspec)
    have te: "RECEPTOR_TRIGGER \<noteq> RECEPTOR_ERROR" by (simp add: RECEPTOR_TRIGGER_def RECEPTOR_ERROR_def)
    have "x \<in> set (new_ready N Q rs) \<longleftrightarrow> x \<in> set rs \<and> x \<notin> set Q" using x by (simp add: new_ready_def)
    then show ?thesis using n f te x flag_masks(4-6) flag_keeps_error unfolding node_ok_def ip nd
      by (cases "x \<in> set rs") (auto simp: r)
  qed
  moreover have "lists_ok ep (dom N) k'"
    by (rule lists_ok_shrink[OF poll_okD(6)[OF ok] l]) (simp add: ip)
  moreover have "distinct (Q @ new_ready N Q rs)" "set (Q @ new_ready N Q rs) \<subseteq> dom N"
    "(if f = RECEPTOR_ERROR then X \<union> dom N \<inter> set rs else X) \<subseteq> set (Q @ new_ready N Q rs)"
    using poll_okD(3-5)[OF ok] d by (auto simp: new_ready_def)
  ultimately show ?thesis using poll_okD(1)[OF ok] p' wake by (intro poll_okI) (simp_all add: p(2))
qed

lemma poll_ok_notify:
  assumes ok: "poll_ok ep k N Q X" and d: "distinct rs" and s: "set rs \<subseteq> set (receptor_list k e)"
  shows "poll_ok ep (notify_receptors rs k) N (Q @ new_ready N Q rs) X"
proof -
  have l: "\<forall>e. distinct (receptor_list k e)" "\<forall>r\<in>set rs. is_poll_receptor k ep r \<longrightarrow> r \<in> dom N"
    using poll_okD(6)[OF ok] s unfolding lists_ok_def by blast+
  have te: "RECEPTOR_TRIGGER \<noteq> RECEPTOR_ERROR" by (simp add: RECEPTOR_TRIGGER_def RECEPTOR_ERROR_def)
  from notify_receptors_effect[OF d, of k] have "poll_ok ep (notify_receptors rs k) N (Q @ new_ready N Q rs)
    (if RECEPTOR_TRIGGER = RECEPTOR_ERROR then X \<union> dom N \<inter> set rs else X)"
    using l(1) by (intro poll_ok_flagged[OF ok d _ l(2)]) (simp_all add: notified_def event_eq_def)
  then show ?thesis using te by simp
qed

lemma fold_remove1_shrink: "distinct xs \<Longrightarrow> set (fold remove1 rs xs) \<subseteq> set xs \<and> distinct (fold remove1 rs xs)"
proof (induction rs arbitrary: xs)
  case (Cons r rs)
  have "set (remove1 r xs) \<subseteq> set xs" by (rule set_remove1_subset)
  then show ?case using Cons.IH[of "remove1 r xs"] Cons.prems by auto
qed simp

lemma poll_ok_clean:
  assumes ok: "poll_ok ep k N Q X"
  shows "poll_ok ep (clean_receptors (receptor_list k e) k) N (Q @ new_ready N Q (receptor_list k e))
    (X \<union> dom N \<inter> set (receptor_list k e))"
proof -
  let ?rs = "receptor_list k e"
  have l: "\<forall>e. distinct (receptor_list k e)" "\<forall>r\<in>set ?rs. is_poll_receptor k ep r \<longrightarrow> r \<in> dom N"
    using poll_okD(6)[OF ok] unfolding lists_ok_def by blast+
  then have d: "distinct ?rs" by blast
  have f: "\<forall>e'. set (fold remove1 ?rs (receptor_list k e')) \<subseteq> set (receptor_list k e') \<and> distinct (fold remove1 ?rs (receptor_list k e'))"
    by (intro allI fold_remove1_shrink) (simp add: l(1))
  from clean_receptors_effect[OF d, of k] have "poll_ok ep (clean_receptors ?rs k) N (Q @ new_ready N Q ?rs)
    (if RECEPTOR_ERROR = RECEPTOR_ERROR then X \<union> dom N \<inter> set ?rs else X)"
    using f clean_pending[OF d]
    by (intro poll_ok_flagged[OF ok d _ l(2)]) (simp_all add: cleaned_def)
  then show ?thesis by simp
qed

text \<open>Reading leaves the poller well-formed; its queue has lost the nodes read.\<close>

lemma poll_ok_read:
  assumes ok: "poll_ok ep k N Q X" and rd: "eh_epoll_pending_read_on_lock ep n k = (ss, k')"
  shows "ss = map (slot_for N X) (take (slots_read n) Q)" "poll_ok ep k' N (drop (slots_read n) Q) (X - set (take (slots_read n) Q))"
    "current_task k' = current_task k"
proof -
  let ?m = "slots_read n"
  note D = poll_okD[OF ok]
  have "\<forall>r\<in>set Q. r_any (receptors k r)" using D(4,7) by (auto simp: node_ok_def)
  note pr = pending_read_effect[OF D(2,3) this, of n]
  have k': "ss = fst (pending_read Q n k)" "k' = snd (pending_read Q n k)"
    using rd by (simp_all add: eh_epoll_pending_read_on_lock_def D(2))
  show "ss = map (slot_for N X) (take ?m Q)" using pr poll_ok_slots[OF ok] by (simp add: k')
  show "current_task k' = current_task k" using pr by (simp add: k')
  have r: "receptors k' = (\<lambda>r. if r \<in> set (take ?m Q)
        then (receptors k r)\<lparr>r_flags := r_flags (receptors k r) AND NOT RECEPTOR_MASK\<rparr> else receptors k r)"
    "e_pending (epolls k' ep) = drop ?m Q" "e_wakeup (epolls k' ep) = e_wakeup (epolls k ep)" "tasks k' = tasks k"
    "epoll_nodes k' = epoll_nodes k" "receptor_list k' = receptor_list k"
    using pr by (simp_all add: k')
  have ip: "is_poll_receptor k' ep x = is_poll_receptor k ep x" for x by (simp add: is_poll_receptor_def r(1) flag_masks(3))
  have Q: "set Q = set (take ?m Q) \<union> set (drop ?m Q)" "set (take ?m Q) \<inter> set (drop ?m Q) = {}"
    using D(3) by (metis append_take_drop_id set_append, metis append_take_drop_id distinct_append)
  show "poll_ok ep k' N (drop ?m Q) (X - set (take ?m Q))"
  proof (rule poll_okI)
    show "node_ok ep k' N (drop ?m Q) (X - set (take ?m Q)) x" if "x \<in> dom N" for x
      using D(7)[OF that] Q flag_masks(1,2) unfolding node_ok_def ip r(5) by (auto simp: r(1))
    show "lists_ok ep (dom N) k'" by (rule lists_ok_shrink[OF D(6)]) (use D(6) in \<open>simp_all add: r(6) ip lists_ok_def\<close>)
    show "t_state (tasks k' (e_wakeup (epolls k' ep))) \<noteq> WAIT" if "drop ?m Q \<noteq> []" "e_wakeup (epolls k' ep) \<noteq> NULL"
      using D(8) that by (cases "Q = []") (simp_all add: r(3,4))
    show "set (drop ?m Q) \<subseteq> dom N" "X - set (take ?m Q) \<subseteq> set (drop ?m Q)" using D(4,5) Q by auto
  qed (use D(1,3) r(2) in simp_all)
qed

lemma poll_ok_frame:
  assumes ok: "poll_ok ep k N Q X" and u: "poll_undisturbed ep (dom N) k k'"
  shows "poll_ok ep k' N Q X"
proof (rule poll_okI)
  note D = poll_okD[OF ok]
  show "ep \<noteq> NULL" "distinct Q" "set Q \<subseteq> dom N" "X \<subseteq> set Q" by (rule D)+
  show "e_pending (epolls k' ep) = Q" "lists_ok ep (dom N) k'" using u D(2) by (simp_all add: poll_undisturbed_def)
  show "node_ok ep k' N Q X r" if "r \<in> dom N" for r
    using D(7)[OF that] u that unfolding poll_undisturbed_def node_ok_def is_poll_receptor_def by metis
  show "t_state (tasks k' (e_wakeup (epolls k' ep))) \<noteq> WAIT" if "Q \<noteq> []" "e_wakeup (epolls k' ep) \<noteq> NULL"
    using D(8) u that by (simp add: poll_undisturbed_def)
qed

text \<open>Sleeping, and forgetting who sleeps.\<close>

lemma poll_ok_wakeup:
  assumes "poll_ok ep k N Q X" "Q = [] \<or> t = NULL"
    "receptors k' = receptors k" "epoll_nodes k' = epoll_nodes k" "receptor_list k' = receptor_list k"
    "epolls k' = (epolls k)(ep := (epolls k ep)\<lparr>e_wakeup := t\<rparr>)"
  shows "poll_ok ep k' N Q X"
proof (rule poll_okI)
  note D = poll_okD[OF assms(1)]
  show "ep \<noteq> NULL" "distinct Q" "set Q \<subseteq> dom N" "X \<subseteq> set Q" by (rule D)+
  have "is_poll_receptor k' = is_poll_receptor k" by (simp add: fun_eq_iff is_poll_receptor_def assms(3))
  then show "lists_ok ep (dom N) k'" "\<And>r. r \<in> dom N \<Longrightarrow> node_ok ep k' N Q X r"
    using D(6,7) by (simp_all add: lists_ok_def node_ok_def assms(3-5))
qed (use assms(2,6) poll_okD(2)[OF assms(1)] in auto)

lemma wait_round_poll_ok:
  assumes ok: "poll_ok ep k N Q X" and w: "epoll_wait_round ep n k = (res, k')"
  shows "res = (if Q = [] then None else Some (map (slot_for N X) (take (slots_read n) Q)))"
    "poll_ok ep k' N (drop (slots_read n) Q) (X - set (take (slots_read n) Q))"
proof -
  obtain ss k1 where rd: "eh_epoll_pending_read_on_lock ep n k = (ss, k1)" by force
  note R = poll_ok_read[OF ok rd]
  have ss: "ss = [] \<longleftrightarrow> Q = []" by (simp add: R(1))
  show "res = (if Q = [] then None else Some (map (slot_for N X) (take (slots_read n) Q)))"
    using w R(1) ss by (auto simp: epoll_wait_round_def rd)
  show "poll_ok ep k' N (drop (slots_read n) Q) (X - set (take (slots_read n) Q))"
  proof (cases "Q = []")
    case True
    then have k': "k' = update_epoll ep (\<lambda>p. p\<lparr>e_wakeup := current_task k1\<rparr>) (eh_task_set_current_state WAIT k1)"
      using w ss by (auto simp: epoll_wait_round_def rd eh_task_set_current_state_def)
    show ?thesis
      by (rule poll_ok_wakeup[OF R(2)]) (simp_all add: k' True update_epoll_def eh_task_set_current_state_def)
  next
    case False
    then have k': "k' = update_epoll ep (\<lambda>p. p\<lparr>e_wakeup := NULL\<rparr>) k1"
      using w ss by (auto simp: epoll_wait_round_def rd)
    show ?thesis by (rule poll_ok_wakeup[OF R(2), where t = NULL]) (simp_all add: k' update_epoll_def)
  qed
qed

lemma add_poll_ok:
  assumes ok: "poll_ok ep k N Q X" and r: "N r = None" "r \<noteq> NULL"
    and a: "eh_epoll_add_event ep e u (Some r) k = Some (ret, k')"
  shows "poll_ok ep k' (if ret = EH_RET_OK then N(r \<mapsto> (e, u)) else N) Q X"
proof -
  note D = poll_okD[OF ok]
  show ?thesis
  proof (cases "ret = EH_RET_OK")
    case False
    then have "k' = k" using a
      by (auto simp: eh_epoll_add_event_def eh_epoll_add_event_advanced_def eh_ret split: if_splits bind_splits prod.splits)
    then show ?thesis using ok False by simp
  next
    case True
    then obtain tree where k': "k' = set_userdata r u (eh_event_add_receptor_no_lock e r
        (update_epoll ep (\<lambda>p. p\<lparr>e_tree := tree\<rparr>) (epoll_new_node r ep e k)))"
      using a by (auto simp: eh_epoll_add_event_def eh_epoll_add_event_advanced_def eh_ret split: if_splits bind_splits prod.splits)
    have rQ: "r \<notin> set Q" "r \<notin> X" using D(4,5) r(1) by auto
    have f: "receptors k' = (receptors k)(r := \<lparr>r_wakeup = ep, r_flags = RECEPTOR_EPOLL\<rparr>)"
      "epoll_nodes k' = (epoll_nodes k)(r := \<lparr>n_event = e, n_userdata = u\<rparr>)"
      "e_pending (epolls k' ep) = remove1 r Q" "e_wakeup (epolls k' ep) = e_wakeup (epolls k ep)" "tasks k' = tasks k"
      "\<forall>x. receptor_list k' x = remove1 r (receptor_list k x) @ (if x = e then [r] else [])"
      by (simp_all add: k' set_userdata_def eh_event_add_receptor_no_lock_def update_epoll_def epoll_new_node_def
        eh_event_receptor_epoll_init_def pending_unlink_def D(2) Let_def)
    have ip: "is_poll_receptor k' ep x \<longleftrightarrow> x = r \<or> is_poll_receptor k ep x" for x
      using D(1) by (simp add: is_poll_receptor_def f(1) r_uepoll_def RECEPTOR_EPOLL_def)
    have l: "lists_ok ep (dom (N(r \<mapsto> (e, u)))) k'"
      using D(6) set_remove1_subset unfolding lists_ok_def ip by (fastforce simp: f(6))
    have "node_ok ep k' (N(r \<mapsto> (e, u))) Q X x" if "x \<in> dom (N(r \<mapsto> (e, u)))" for x
    proof (cases "x = r")
      case True
      then show ?thesis using rQ by (simp add: node_ok_def ip f(1,2) r(2) r_any_def r_error_def RECEPTOR_EPOLL_def RECEPTOR_MASK_def
        RECEPTOR_ERROR_def RECEPTOR_TRIGGER_def)
    next
      case False
      then show ?thesis using D(7)[of x] that by (simp add: node_ok_def ip f(1,2))
    qed
    then have "poll_ok ep k' (N(r \<mapsto> (e, u))) Q X"
    proof (intro poll_okI)
      show "t_state (tasks k' (e_wakeup (epolls k' ep))) \<noteq> WAIT" if "Q \<noteq> []" "e_wakeup (epolls k' ep) \<noteq> NULL"
        using D(8) that by (simp add: f(4,5))
    qed (use D(1,3,4,5) l rQ(1) in \<open>auto simp: f(3) remove1_idem\<close>)
    then show ?thesis using True by simp
  qed
qed

lemma del_poll_ok:
  assumes ok: "poll_ok ep k N Q X" and r: "r \<in> dom N"
    and a: "eh_epoll_del_event_from_handle_no_lock ep r k = Some k'"
  shows "poll_ok ep k' (N(r := None)) (remove1 r Q) (X - {r})"
proof -
  note D = poll_okD[OF ok]
  have "r \<noteq> NULL" using D(7)[OF r] by (simp add: node_ok_def)
  then obtain tree where k': "k' = k_free r (update_epoll ep (\<lambda>p. p\<lparr>e_tree := tree\<rparr>)
      (pending_unlink r (eh_event_remove_receptor_no_lock r k)))"
    using a D(1) by (auto simp: eh_epoll_del_event_from_handle_no_lock_def epoll_remove_node_def Let_def split: bind_splits)
  have f: "receptors k' = receptors k" "epoll_nodes k' = epoll_nodes k" "e_pending (epolls k' ep) = remove1 r Q"
    "e_wakeup (epolls k' ep) = e_wakeup (epolls k ep)" "tasks k' = tasks k"
    "\<forall>e. receptor_list k' e = remove1 r (receptor_list k e)"
    by (simp_all add: k' k_free_def update_epoll_def pending_unlink_def D(2))
  have ip: "is_poll_receptor k' ep x \<longleftrightarrow> is_poll_receptor k ep x" for x by (simp add: is_poll_receptor_def f(1))
  have s: "set (remove1 r Q) = set Q - {r}" using D(3) by simp
  have "lists_ok ep (dom (N(r := None))) k'" using D(6) unfolding lists_ok_def ip by (auto simp: f(6))
  moreover have "node_ok ep k' (N(r := None)) (remove1 r Q) (X - {r}) x" if "x \<in> dom (N(r := None))" for x
    using D(7)[of x] that unfolding node_ok_def ip s by (auto simp: f(1,2) split: if_splits)
  ultimately show ?thesis
    using D(1,3-5,8) f(3-5) by (cases "Q = []"; intro poll_okI) (auto simp: s)
qed

lemma poll_run_ok: "poll_run ep k N Q X \<Longrightarrow> poll_ok ep k N Q X"
proof (induction rule: poll_run.induct)
  case (new k0 k)
  then have k: "k = update_epoll ep (\<lambda>p. p\<lparr>e_pending := [], e_tree := eh_rb_root_init (e_tree p), e_wakeup := NULL\<rparr>) k0"
    by (simp add: eh_epoll_new_def)
  have "receptors k = receptors k0" "receptor_list k = receptor_list k0" by (simp_all add: k update_epoll_def)
  then have "lists_ok ep {} k" using new(3) by (simp add: lists_ok_def is_poll_receptor_def)
  then show ?case using new(2) by (intro poll_okI) (auto simp: k update_epoll_def)
next
  case (add k N Q X r e u ret k')
  show ?case by (rule add_poll_ok[OF add.IH add.hyps(2-4)])
next
  case (del k N Q X r k')
  show ?case by (rule del_poll_ok[OF del.IH del.hyps(2,3)])
next
  case (notify k N Q X e ret k')
  then have "distinct (receptor_list k e)" using poll_okD(6) by (auto simp: lists_ok_def)
  then show ?case using poll_ok_notify[of ep k N Q X "receptor_list k e" e] notify by (auto simp: eh_event_notify_def)
next
  case (notify_some k N Q X e num ret k')
  let ?rs = "take (nat num) (receptor_list k e)"
  have d: "distinct (receptor_list k e)" using notify_some poll_okD(6) by (auto simp: lists_ok_def)
  have ok: "poll_ok ep (notify_receptors ?rs k) N (Q @ new_ready N Q ?rs) X"
    by (rule poll_ok_notify[where e = e]) (use notify_some d in \<open>auto dest: in_set_takeD\<close>)
  show ?case
  proof (cases "num \<le> 0")
    case True
    then show ?thesis using notify_some by (auto simp: eh_event_notify_and_reorder_def new_ready_def)
  next
    case False
    then have k': "k' = notify_receptors ?rs k\<lparr>receptor_list := (receptor_list (notify_receptors ?rs k))(e := drop (nat num) (receptor_list k e) @ ?rs)\<rparr>"
      using notify_some by (auto simp: eh_event_notify_and_reorder_def Let_def)
    have rl: "receptor_list (notify_receptors ?rs k) = receptor_list k"
      using notify_receptors_effect[of ?rs k] d by (simp add: notified_def event_eq_def)
    have sp: "set (drop (nat num) (receptor_list k e) @ ?rs) = set (receptor_list k e)"
      by (metis append_take_drop_id set_append Un_commute)
    have ds: "distinct (drop (nat num) (receptor_list k e) @ ?rs)"
      using d by (metis append_take_drop_id distinct_append Int_commute)
    note D = poll_okD[OF ok]
    have l: "lists_ok ep (dom N) k'"
      by (rule lists_ok_shrink[OF D(6)]) (use D(6) sp ds in \<open>simp_all add: k' rl lists_ok_def is_poll_receptor_def\<close>)
    show ?thesis
      by (rule poll_okI) (use D l in \<open>simp_all add: k' node_ok_def is_poll_receptor_def\<close>)
  qed
next
  case (clean k N Q X e k')
  then show ?case using poll_ok_clean[of ep k N Q X e] by (simp add: eh_event_clean_def)
next
  case (wait k N Q X n res k')
  show ?case by (rule wait_round_poll_ok(2)[OF wait.IH wait.hyps(2)])
next
  case (wait_now k N Q X n res k')
  obtain ss k1 where rd: "eh_epoll_pending_read_on_lock ep n k = (ss, k1)"
    by (cases "eh_epoll_pending_read_on_lock ep n k")
  then have "k' = k1" using wait_now by (simp add: eh_epoll_wait_now_def)
  then show ?case using poll_ok_read(2)[OF wait_now.IH rd] by simp
next
  case (other k N Q X k')
  show ?case by (rule poll_ok_frame[OF other.IH other.hyps(2)])
qed

text \<open>A kernel whose task 1 sleeps on the poller 400, which has the node 700 for the event 500.\<close>

definition ex_poll_new :: kernel where
  "ex_poll_new = snd (eh_epoll_new (Some 400) demo)"

definition ex_poll_waits :: "rbtree \<Rightarrow> kernel" where
  "ex_poll_waits tree = snd (epoll_wait_round 400 8 (set_userdata 700 42 (eh_event_add_receptor_no_lock 500 700
     (update_epoll 400 (\<lambda>p. p\<lparr>e_tree := tree\<rparr>) (epoll_new_node 700 400 500 ex_poll_new)))))"

lemma ex_poll_new_run: "poll_run 400 ex_poll_new (\<lambda>_. None) [] {}"
proof -
  have "lists_ok 400 {} demo" by (simp add: lists_ok_def is_poll_receptor_def demo_def)
  then show ?thesis by (intro poll_run.new[of _ demo]) (simp_all add: ex_poll_new_def eh_epoll_new_def)
qed

lemma ex_poll_added:
  "\<exists>tree. eh_epoll_add_event 400 500 42 (Some 700) ex_poll_new = Some (EH_RET_OK, set_userdata 700 42 (eh_event_add_receptor_no_lock 500 700
     (update_epoll 400 (\<lambda>p. p\<lparr>e_tree := tree\<rparr>) (epoll_new_node 700 400 500 ex_poll_new))))"
proof -
  have "rb_rep (e_tree (epolls ex_poll_new 400)) []"
    using rb_rep_init by (simp add: ex_poll_new_def eh_epoll_new_def update_epoll_def)
  from eh_rb_find_new_add_rep[OF this, of "epoll_rbtree_match ex_poll_new 500" "Some 700"]
  show ?thesis
    by (auto simp: graded_def eh_epoll_add_event_def eh_epoll_add_event_advanced_def Let_def eh_ret)
qed

lemma ex_poll_waits_fields:
  "receptor_list (ex_poll_waits tree) 500 = [700]" "e_wakeup (epolls (ex_poll_waits tree) 400) = current_task demo"
  by (simp_all add: ex_poll_waits_def epoll_wait_round_def eh_epoll_pending_read_on_lock_def epoll_new_node_def ex_poll_new_def
      eh_epoll_new_def update_epoll_def pending_unlink_def eh_event_receptor_epoll_init_def eh_event_add_receptor_no_lock_def
      set_userdata_def eh_task_set_current_state_def Let_def demo_def)

lemma ex_poll_waits_run: "\<exists>tree. poll_run 400 (ex_poll_waits tree) [700 \<mapsto> (500, 42)] [] {}"
proof -
  obtain tree where a: "eh_epoll_add_event 400 500 42 (Some 700) ex_poll_new = Some (EH_RET_OK, set_userdata 700 42
     (eh_event_add_receptor_no_lock 500 700 (update_epoll 400 (\<lambda>p. p\<lparr>e_tree := tree\<rparr>) (epoll_new_node 700 400 500 ex_poll_new))))"
    using ex_poll_added by blast
  have "poll_run 400 (ex_poll_waits tree) [700 \<mapsto> (500, 42)] [] {}"
    using poll_run.wait[OF poll_run.add[OF ex_poll_new_run _ _ a], of 8] by (simp add: ex_poll_waits_def prod_eq_iff)
  then show ?thesis by blast
qed

lemma ex_poll_run:
  "\<exists>k. poll_run 400 k [700 \<mapsto> (500, 42)] [700] {} \<and> e_wakeup (epolls k 400) = current_task demo"
proof -
  obtain tree where r: "poll_run 400 (ex_poll_waits tree) [700 \<mapsto> (500, 42)] [] {}" using ex_poll_waits_run by blast
  let ?w = "ex_poll_waits tree"
  have "poll_run 400 (snd (eh_event_notify 500 ?w)) [700 \<mapsto> (500, 42)] [700] {}"
    using poll_run.notify[OF r, of 500] by (simp add: new_ready_def prod_eq_iff ex_poll_waits_fields)
  moreover have "e_wakeup (epolls (snd (eh_event_notify 500 ?w)) 400) = current_task demo"
    using notify_receptors_effect[of "[700]" ?w] by (simp add: eh_event_notify_def notified_def ex_poll_waits_fields)
  ultimately show ?thesis by blast
qed

text \<open>
  C26. The queue of a poller is faithful under every interleaving of registrations, notifications, cleanings and
  reads: the next wait returns, in order, a slot with event, user data and affair for each of the first nodes of the
  abstract queue, it sleeps only when that queue is empty, and no task sleeps on the poller while it is not.
\<close>

theorem poll_delivery:
  assumes "poll_run ep k N Q X"
  shows "fst (epoll_wait_round ep n k) = (if Q = [] then None else Some (map (slot_for N X) (take (nat (max 1 n)) Q)))
    \<and> distinct Q \<and> set Q \<subseteq> dom N
    \<and> (Q \<noteq> [] \<longrightarrow> e_wakeup (epolls k ep) \<noteq> NULL \<longrightarrow> t_state (tasks k (e_wakeup (epolls k ep))) \<noteq> WAIT)"
proof -
  note ok = poll_run_ok[OF assms]
  have "fst (epoll_wait_round ep n k) = (if Q = [] then None else Some (map (slot_for N X) (take (slots_read n) Q)))"
    by (rule wait_round_poll_ok(1)[OF ok]) (simp add: prod_eq_iff)
  then show ?thesis using poll_okD(3,4,8)[OF ok] by simp
qed

lemma poll_delivery_witness:
  "\<exists>k. fst (epoll_wait_round 400 8 k) = Some [\<lparr>sl_event = 500, sl_userdata = 42, sl_affair = AFFAIR_TRIGGER\<rparr>]
    \<and> e_wakeup (epolls k 400) = current_task demo \<and> t_state (tasks k (current_task demo)) \<noteq> WAIT"
proof -
  obtain k where k: "poll_run 400 k [700 \<mapsto> (500, 42)] [700] {}" "e_wakeup (epolls k 400) = current_task demo"
    using ex_poll_run by blast
  have "current_task demo \<noteq> NULL" by simp
  then show ?thesis using poll_delivery[OF k(1), of 8] k(2) by (intro exI[of _ k]) (simp add: slot_for_def)
qed

end
