(* ===== verification/Eh_Event_Loop_Spec.thy ===== *)
theory Eh_Event_Loop_Spec
  imports Eh_Event_Cb Eh_Epoll_Spec
begin

text \<open>
  The event loop of a task ends when it is asked to: the request wakes the task if it sleeps on its poller, and
  the round that runs then is the last one.
\<close>

definition quit_requested :: "ptr \<Rightarrow> kernel \<Rightarrow> bool" where
  "quit_requested t k \<longleftrightarrow> t_flags (tasks k t) AND EH_TASK_FLAGS_INTERIOR_REQUEST_QUIT \<noteq> 0"

subsection \<open>What keeps the flags of a task\<close>

definition same_flags :: "kernel \<Rightarrow> kernel \<Rightarrow> bool" where
  "same_flags k k' \<longleftrightarrow> (\<forall>t. t_flags (tasks k' t) = t_flags (tasks k t) \<and> t_event (tasks k' t) = t_event (tasks k t))"

lemma same_flags_refl [simp]: "same_flags k k"
  by (simp add: same_flags_def)

lemma same_flags_trans: "same_flags k k' \<Longrightarrow> same_flags k' k'' \<Longrightarrow> same_flags k k''"
  by (simp add: same_flags_def)

lemma same_flags_tasks: "tasks k' = tasks k \<Longrightarrow> same_flags k k'"
  by (simp add: same_flags_def)

lemma same_flags_woken: "woken T k k' \<Longrightarrow> same_flags k k'"
  by (simp add: same_flags_def woken_def)

lemma same_flags_quit: "same_flags k k' \<Longrightarrow> quit_requested t k' = quit_requested t k"
  by (simp add: same_flags_def quit_requested_def)

lemma notify_receptors_flags: "same_flags k (notify_receptors rs k)"
proof (induction rs arbitrary: k)
  case (Cons r rs)
  have "same_flags (set_receptor_flag r RECEPTOR_TRIGGER k) (eh_event_trigger_receptor_no_lock r (set_receptor_flag r RECEPTOR_TRIGGER k))"
    by (rule same_flags_woken[OF trigger_receptor_effect(3)])
  then show ?case using Cons.IH same_flags_trans by (auto simp: same_flags_def)
qed simp

lemma event_notify_flags: "same_flags k (snd (eh_event_notify e k))"
  by (simp add: eh_event_notify_def notify_receptors_flags)

lemma timer_fire_flags: "timer_fire t k = Some k' \<Longrightarrow> same_flags k k'"
  using event_notify_flags[of k t]
  by (auto simp: timer_fire_def Let_def timer_remove_def eh_timer_start_no_lock_def set_timer_def same_flags_def
      split: if_splits bind_splits prod.splits)

lemma timer_check_loop_flags: "timer_check_loop k = Some k' \<Longrightarrow> same_flags k k'"
proof (rule timer_check_loop.raw_induct[of same_flags])
  fix loop k k'
  assume IH: "\<And>k k'. loop k = Some k' \<Longrightarrow> same_flags k k'"
    and r: "(let t = eh_rb_first (timer_tree k)
        in if t \<noteq> NULL \<and> eh_remaining_time (timer_now k) (timers k t) \<le> 0
           then do { k \<leftarrow> timer_fire t k; loop k } else Some k) = Some k'"
  show "same_flags k k'"
    using r timer_fire_flags IH same_flags_trans by (fastforce simp: Let_def split: if_splits bind_splits)
qed

lemma timer_check_flags: "eh_timer_check k = Some k' \<Longrightarrow> same_flags k k'"
  using timer_check_loop_flags[of "update_timer_now k" k']
  by (auto simp: eh_timer_check_def Let_def same_flags_def update_timer_now_def eh_get_clock_monotonic_time_def split: if_splits)

lemma epoll_del_flags: "eh_epoll_del_event ep e k = Some (ret, k') \<Longrightarrow> same_flags k k'"
  by (auto simp: eh_epoll_del_event_def epoll_remove_node_def Let_def k_free_def update_epoll_def pending_unlink_def same_flags_def
      split: if_splits bind_splits)

lemma pending_read_tasks: "tasks (snd (pending_read Q n k)) = tasks k"
  by (induction Q n k rule: pending_read.induct)
    (simp_all add: pending_unlink_def clear_receptor_flags_def Let_def split_beta)

lemma wait_round_flags: "same_flags k (snd (epoll_wait_round ep n k))"
  using pending_read_tasks[of "e_pending (epolls k ep)" n k]
  by (simp add: epoll_wait_round_def eh_epoll_pending_read_on_lock_def split_beta Let_def same_flags_def update_epoll_def
      eh_task_set_current_state_def)

lemma trigger_kernel_flags [simp]:
  "cb_kernel (update_trigger tr f c) = cb_kernel c" "same_flags (cb_kernel c) (cb_kernel (cb_free tr c))"
  "same_flags (cb_kernel c) (cb_kernel (trigger_clean tr c))"
  "same_flags (cb_kernel c) (cb_kernel (trigger_forced_release_ref tr c))"
  "cb_kernel (trigger_forced_get_ref tr c) = cb_kernel c"
  by (simp_all add: update_trigger_def cb_free_def k_free_def trigger_clean_def trigger_forced_release_ref_def
      trigger_forced_get_ref_def Let_def same_flags_def)

lemma mark_flags: "event_loop_mark ep ss c = Some (ss', c') \<Longrightarrow> same_flags (cb_kernel c) (cb_kernel c')"
proof (induction ss arbitrary: c ss' c')
  case (Cons s ss)
  show ?case
  proof (cases "sl_affair s = AFFAIR_ERROR")
    case True
    let ?c = "if sl_userdata s \<noteq> NULL then trigger_clean (sl_userdata s) c else c"
    obtain ret k ss1 where r: "eh_epoll_del_event ep (sl_event s) (cb_kernel ?c) = Some (ret, k)"
      "event_loop_mark ep ss (?c\<lparr>cb_kernel := k\<rparr>) = Some (ss1, c')"
      using Cons.prems True by (auto simp: Let_def split: bind_splits)
    have "same_flags (cb_kernel c) (cb_kernel ?c)" by simp
    moreover have "same_flags k (cb_kernel c')" using Cons.IH[OF r(2)] by simp
    ultimately show ?thesis using epoll_del_flags[OF r(1)] by (simp add: same_flags_def)
  next
    case False
    let ?c = "if sl_userdata s = NULL then c else trigger_forced_get_ref (sl_userdata s) c"
    obtain ss1 where r: "event_loop_mark ep ss ?c = Some (ss1, c')"
      using Cons.prems False by (auto simp: Let_def split: bind_splits)
    show ?thesis using Cons.IH[OF r] by (simp split: if_splits)
  qed
qed simp

subsection \<open>The round\<close>

text \<open>The slot functions do not take a request back.\<close>

definition keeps_request :: "(ptr \<Rightarrow> ptr \<Rightarrow> ptr \<Rightarrow> cb_state \<Rightarrow> cb_state) \<Rightarrow> ptr \<Rightarrow> bool" where
  "keeps_request call t \<longleftrightarrow> (\<forall>fn e p c. quit_requested t (cb_kernel c) \<longrightarrow> quit_requested t (cb_kernel (call fn e p c)))"

lemma run_slots_request:
  "run_slots call e tr c = Some c' \<Longrightarrow> keeps_request call t \<longrightarrow> quit_requested t (cb_kernel c) \<longrightarrow> quit_requested t (cb_kernel c')"
proof (rule run_slots.raw_induct[of "\<lambda>call e tr c c'. keeps_request call t \<longrightarrow> quit_requested t (cb_kernel c) \<longrightarrow> quit_requested t (cb_kernel c')"])
  fix loop call e tr c c'
  assume IH: "\<And>call e tr c c'. loop call e tr c = Some c' \<Longrightarrow>
      keeps_request call t \<longrightarrow> quit_requested t (cb_kernel c) \<longrightarrow> quit_requested t (cb_kernel c')"
    and r: "(case tr_head (triggers c tr) of [] \<Rightarrow> Some c
      | s # _ \<Rightarrow> (let c = update_trigger tr (\<lambda>t. t\<lparr>tr_head := tl (tr_head t), tr_used := tr_used t @ [s]\<rparr>) c;
               sl = slots c s;
               c = (if slot_function sl \<noteq> NULL then call (slot_function sl) e (slot_param sl) c else c)
           in loop call e tr c)) = Some c'"
  show "keeps_request call t \<longrightarrow> quit_requested t (cb_kernel c) \<longrightarrow> quit_requested t (cb_kernel c')"
  proof (cases "tr_head (triggers c tr)")
    case Nil
    then show ?thesis using r by simp
  next
    case (Cons s ss)
    let ?c = "update_trigger tr (\<lambda>t. t\<lparr>tr_head := tl (tr_head t), tr_used := tr_used t @ [s]\<rparr>) c"
    let ?c1 = "if slot_function (slots ?c s) \<noteq> NULL then call (slot_function (slots ?c s)) e (slot_param (slots ?c s)) ?c else ?c"
    have "loop call e tr ?c1 = Some c'" using r Cons by (simp add: Let_def cong: if_cong)
    moreover have "keeps_request call t \<Longrightarrow> quit_requested t (cb_kernel c) \<Longrightarrow> quit_requested t (cb_kernel ?c1)"
      by (simp add: keeps_request_def)
    ultimately show ?thesis using IH by blast
  qed
qed

lemma dispatch_request:
  "event_loop_dispatch call ss n c = Some (n', c') \<Longrightarrow> keeps_request call t \<Longrightarrow> quit_requested t (cb_kernel c) \<Longrightarrow> quit_requested t (cb_kernel c')"
proof (induction ss arbitrary: n c)
  case (Cons s ss)
  show ?case
  proof (cases "sl_userdata s = NULL")
    case True
    then show ?thesis using Cons by simp
  next
    case False
    then obtain c1 c2 where r: "run_trigger call (sl_event s) (sl_userdata s) c = Some c1"
      "c2 = c1 \<or> (\<exists>k. eh_timer_check (cb_kernel c1) = Some k \<and> c2 = c1\<lparr>cb_kernel := k\<rparr>)"
      "event_loop_dispatch call ss (n + 1) c2 = Some (n', c')"
      using Cons.prems(1) by (auto simp: Let_def split: bind_splits if_splits)
    obtain c0 where c0: "run_slots call (sl_event s) (sl_userdata s) (update_trigger (sl_userdata s) (\<lambda>t. t\<lparr>tr_used := []\<rparr>) c) = Some c0"
      "same_flags (cb_kernel c0) (cb_kernel c1)"
      using r(1) by (auto simp: run_trigger_def Let_def same_flags_def trigger_forced_release_ref_def cb_free_def k_free_def update_trigger_def split: bind_splits)
    have "quit_requested t (cb_kernel c0)" using run_slots_request[OF c0(1)] Cons.prems(2,3) by simp
    then have "quit_requested t (cb_kernel c1)" using same_flags_quit[OF c0(2)] by simp
    then have "quit_requested t (cb_kernel c2)" using r(2) same_flags_quit[OF timer_check_flags] by auto
    then show ?thesis by (rule Cons.IH[OF r(3) Cons.prems(2)])
  qed
qed simp

lemma update_task_poll_run:
  assumes "poll_run ep k N Q X" "\<And>x. t_state (f x) = t_state x"
  shows "poll_run ep (update_task t f k) N Q X"
proof (rule poll_run.other[OF assms(1)])
  have "lists_ok ep (dom N) k" by (rule poll_okD(6)[OF poll_run_ok[OF assms(1)]])
  then show "poll_undisturbed ep (dom N) k (update_task t f k)"
    using assms(2) by (simp add: poll_undisturbed_def update_task_def lists_ok_def is_poll_receptor_def)
qed

lemma request_effect:
  assumes "poll_run ep k N Q X" "r \<in> dom N" "t_event (tasks k t) \<noteq> NULL" "r \<in> set (receptor_list k (t_event (tasks k t)))"
  shows "poll_run ep (eh_event_loop_request_quit t k) N (Q @ new_ready N Q (receptor_list k (t_event (tasks k t)))) X"
    "Q @ new_ready N Q (receptor_list k (t_event (tasks k t))) \<noteq> []" "quit_requested t (eh_event_loop_request_quit t k)"
proof -
  let ?e = "t_event (tasks k t)"
  let ?Q = "Q @ new_ready N Q (receptor_list k ?e)"
  have q: "eh_event_loop_request_quit t k
    = update_task t (\<lambda>tk. tk\<lparr>t_flags := t_flags tk OR EH_TASK_FLAGS_INTERIOR_REQUEST_QUIT\<rparr>) (snd (eh_event_notify ?e k))"
    by (simp add: eh_event_loop_request_quit_def split_beta)
  have "poll_run ep (snd (eh_event_notify ?e k)) N ?Q X"
    by (rule poll_run.notify[OF assms(1,3)]) (simp add: prod_eq_iff)
  then show "poll_run ep (eh_event_loop_request_quit t k) N ?Q X"
    unfolding q by (rule update_task_poll_run) simp
  show "?Q \<noteq> []" using assms(2,4) by (cases Q) (auto simp: new_ready_def filter_empty_conv)
  have "(w OR 0x80000000) AND 0x80000000 \<noteq> 0" for w :: u32 by (simp add: bit.conj_disj_distrib2 or_eq_0_iff)
  then show "quit_requested t (eh_event_loop_request_quit t k)"
    unfolding q by (simp add: quit_requested_def update_task_def EH_TASK_FLAGS_INTERIOR_REQUEST_QUIT_def)
qed


text \<open>A task whose event has the node 700 of the sleeping poller; its trigger has no slots.\<close>

definition ex_loop :: "rbtree \<Rightarrow> cb_state" where
  "ex_loop tree = \<lparr>cb_kernel = eh_event_loop_request_quit 5 (update_task 5 (\<lambda>tk. tk\<lparr>t_event := 500\<rparr>) (ex_poll_waits tree)),
     triggers = (\<lambda>_. \<lparr>tr_head = [], tr_used = [], connect_cnt = 0, forced_ref = False\<rparr>),
     slots = (\<lambda>_. \<lparr>slot_function = NULL, slot_param = NULL, slot_task = NULL\<rparr>)\<rparr>"


end
