(* ===== verification/Eh_Platform.thy ===== *)
theory Eh_Platform
  imports Eh_Core
begin

text \<open>
  The Linux port (\<^verbatim>\<open>platform/linux/platform.c\<close> and \<^verbatim>\<open>epoll_hub.c\<close>): how the idle system waits
  and how other threads end that wait. System calls are arguments: \<open>efd_write\<close> and \<open>efd_read\<close> are the effects of
  writing to and reading from the event descriptor on its state, \<open>'s\<close>. What runs under the recursive mutex is
  one step.
\<close>

subsection \<open>Time\<close>

definition platform_get_clock_monotonic_time :: "int \<Rightarrow> int \<Rightarrow> u64" where
  "platform_get_clock_monotonic_time tv_sec tv_nsec = word_of_int tv_sec * 1000000 + word_of_int tv_nsec div 1000"

text \<open>The timeout of \<open>epoll_hub_poll\<close>: seconds and nanoseconds of the timer, and the argument of \<open>epoll_wait\<close>.\<close>

definition hub_timeout :: "u64 \<Rightarrow> (u64 \<times> u64) \<times> int" where
  "hub_timeout usec_timeout =
     (if usec_timeout \<noteq> 0 then ((usec_timeout div 1000000, (usec_timeout mod 1000000) * 1000), -1) else ((0, 0), 0))"

subsection \<open>The descriptors\<close>

text \<open>\<open>open_fds\<close> are the descriptors that are open; the results of the system calls are arguments.\<close>

record epoll_hub =
  epoll_fd :: int
  timeout_fd :: int
  wait_break_fd :: int
  open_fds :: "int list"

definition fd_close :: "int \<Rightarrow> epoll_hub \<Rightarrow> epoll_hub" where
  "fd_close fd h = h\<lparr>open_fds := remove1 fd (open_fds h)\<rparr>"

definition fd_opened :: "int \<Rightarrow> epoll_hub \<Rightarrow> epoll_hub" where
  "fd_opened fd h = h\<lparr>open_fds := fd # open_fds h\<rparr>"

definition epoll_hub_init :: "int \<Rightarrow> int \<Rightarrow> int \<Rightarrow> int \<Rightarrow> int \<Rightarrow> epoll_hub \<Rightarrow> int \<times> epoll_hub" where
  "epoll_hub_init ep_create timer_create efd add_break add_timer h =
     (if ep_create < 0 then (-1, h)
      else
        (let h = fd_opened ep_create h\<lparr>epoll_fd := ep_create\<rparr>
         in if timer_create < 0 then (timer_create, fd_close (epoll_fd h) h)
            else
              (let h = fd_opened timer_create h\<lparr>timeout_fd := timer_create\<rparr>
               in if efd < 0 then (efd, fd_close (epoll_fd h) (fd_close (timeout_fd h) h))
                  else
                    (let h = fd_opened efd h\<lparr>wait_break_fd := efd\<rparr>;
                         failed = (\<lambda>ret. (ret, fd_close (epoll_fd h) (fd_close (timeout_fd h) (fd_close (wait_break_fd h) h))))
                     in if add_break < 0 then failed add_break
                        else if add_timer < 0 then failed add_timer
                        else (0, h)))))"

definition epoll_hub_exit :: "epoll_hub \<Rightarrow> epoll_hub" where
  "epoll_hub_exit h = fd_close (timeout_fd h) (fd_close (epoll_fd h) h)"

subsection \<open>Waiting and breaking the wait\<close>

record 's linux_platform =
  is_idle_state :: bool
  wait_break :: 's
  os_kernel :: kernel

definition epoll_hub_set_wait_break_event :: "('s \<Rightarrow> 's) \<Rightarrow> 's linux_platform \<Rightarrow> 's linux_platform" where
  "epoll_hub_set_wait_break_event efd_write p = p\<lparr>wait_break := efd_write (wait_break p)\<rparr>"

definition epoll_hub_clean_wait_break_event :: "('s \<Rightarrow> 's) \<Rightarrow> 's linux_platform \<Rightarrow> 's linux_platform" where
  "epoll_hub_clean_wait_break_event efd_read p = p\<lparr>wait_break := efd_read (wait_break p)\<rparr>"

definition event_wait_break_callback :: "('s \<Rightarrow> 's) \<Rightarrow> u32 \<Rightarrow> 's linux_platform \<Rightarrow> 's linux_platform" where
  "event_wait_break_callback efd_read events p = epoll_hub_clean_wait_break_event efd_read p"

definition platform_idle_break :: "('s \<Rightarrow> 's) \<Rightarrow> 's linux_platform \<Rightarrow> 's linux_platform" where
  "platform_idle_break efd_write p =
     (if is_idle_state p then epoll_hub_set_wait_break_event efd_write p else p)"

text \<open>An operation of the kernel under the mutex: every \<open>eh_idle_break\<close> in it is one of the platform.\<close>

definition locked :: "('s \<Rightarrow> 's) \<Rightarrow> (kernel \<Rightarrow> kernel) \<Rightarrow> 's linux_platform \<Rightarrow> 's linux_platform" where
  "locked efd_write f p =
     (let k = f (os_kernel p)
      in (platform_idle_break efd_write ^^ (idle_breaks k - idle_breaks (os_kernel p))) (p\<lparr>os_kernel := k\<rparr>))"

text \<open>
  \<open>platform_idle_or_extern_event_handler\<close> up to its call of \<open>epoll_hub_poll\<close>, with the timeout as the result, and
  after it.
\<close>

definition platform_idle_enter :: "('s \<Rightarrow> 's) \<Rightarrow> u64 \<Rightarrow> 's linux_platform \<Rightarrow> u64 \<times> 's linux_platform" where
  "platform_idle_enter efd_read cps p =
     (let (m, k) = eh_get_loop_idle_time cps (os_kernel p)
      in (eh_clock_to_usec cps (word_of_int m),
          epoll_hub_clean_wait_break_event efd_read (p\<lparr>is_idle_state := True, os_kernel := k\<rparr>)))"

definition platform_idle_leave :: "'s linux_platform \<Rightarrow> 's linux_platform" where
  "platform_idle_leave p = p\<lparr>is_idle_state := False\<rparr>"

text \<open>
  \<open>epoll_wait\<close> is an argument, a function on the state that gives its result and the events with their actions;
  the callback of a descriptor without one is \<open>None\<close>.
\<close>

fun run_fd_actions :: "(u32 \<times> (u32 \<Rightarrow> 't \<Rightarrow> 't) option) list \<Rightarrow> 't \<Rightarrow> 't" where
  "run_fd_actions [] s = s"
| "run_fd_actions ((events, callback) # es) s =
     run_fd_actions es (case callback of None \<Rightarrow> s | Some f \<Rightarrow> f events s)"

definition epoll_hub_poll ::
  "((u64 \<times> u64) \<times> int \<Rightarrow> 't \<Rightarrow> int \<times> (u32 \<times> (u32 \<Rightarrow> 't \<Rightarrow> 't) option) list \<times> 't) \<Rightarrow> u64 \<Rightarrow> 't \<Rightarrow> int \<times> 't" where
  "epoll_hub_poll epoll_wait usec_timeout s =
     (let (ret, events, s) = epoll_wait (hub_timeout usec_timeout) s
      in if ret \<le> 0 then (ret, s) else (0, run_fd_actions (take (nat ret) events) s))"

subsection \<open>The module\<close>

text \<open>\<open>attr_init\<close>, \<open>settype\<close> and \<open>mutex_init\<close> are the results of the pthread calls, \<open>hub\<close> what \<open>epoll_hub_init\<close> did.\<close>

definition linux_platform_init ::
  "int \<Rightarrow> int \<Rightarrow> int \<Rightarrow> int \<times> epoll_hub \<Rightarrow> 's linux_platform \<Rightarrow> int \<times> epoll_hub \<times> 's linux_platform" where
  "linux_platform_init attr_init settype mutex_init hub p =
     (let (ret, h) = hub
      in if ret < 0 then (ret, h, p)
         else
           (let p = p\<lparr>is_idle_state := False\<rparr>
            in if attr_init < 0 then (attr_init, epoll_hub_exit h, p)
               else if settype < 0 then (settype, epoll_hub_exit h, p)
               else if mutex_init < 0 then (mutex_init, epoll_hub_exit h, p)
               else (0, h, p)))"

definition linux_platform_deinit :: "epoll_hub \<Rightarrow> epoll_hub" where
  "linux_platform_deinit h = epoll_hub_exit h"

end
