(* ===== verification/Eh_Platform_Spec.thy ===== *)
theory Eh_Platform_Spec
  imports Eh_Platform Eh_Timer_Spec "HOL-Library.Multiset"
begin

text \<open>
  What the Linux port promises: the idle system does not sleep through a wake-up by another thread, and which
  descriptors are open after initialisation and exit.
\<close>

subsection \<open>Announced changes\<close>

text \<open>
  \<open>announced k k'\<close>: from \<open>k\<close> to \<open>k'\<close> tasks were made ready only after \<open>eh_idle_break\<close>, and no timer was touched.
\<close>

definition announced :: "kernel \<Rightarrow> kernel \<Rightarrow> bool" where
  "announced k k' \<longleftrightarrow> idle_breaks k \<le> idle_breaks k' \<and> current_task k' = current_task k
     \<and> timer_tree k' = timer_tree k \<and> timers k' = timers k \<and> timer_now k' = timer_now k
     \<and> (idle_breaks k' = idle_breaks k \<longrightarrow> tasks k' = tasks k \<and> ready_list k' = ready_list k)"

lemma announced_refl [simp]: "announced k k"
  by (simp add: announced_def)

lemma announced_trans: "announced k k' \<Longrightarrow> announced k' k'' \<Longrightarrow> announced k k''"
  by (auto simp: announced_def)

lemma wake_up_announced: "announced k (eh_task_wake_up t k)"
  by (simp add: announced_def eh_task_wake_up_def eh_idle_break_def Let_def task_move_next_def task_move_last_def task_unlink_def
      set_task_state_def)

lemma trigger_announced: "announced k (eh_event_trigger_receptor_no_lock r k)"
proof -
  have "announced k (epoll_pending_add ep r k)" for ep by (simp add: announced_def epoll_pending_add_def)
  then show ?thesis
    by (auto simp: eh_event_trigger_receptor_no_lock_def Let_def intro: announced_trans wake_up_announced)
qed

lemma flag_announced: "announced k (set_receptor_flag r f k)"
  by (simp add: announced_def set_receptor_flag_def)

lemma notify_receptors_announced: "announced k (notify_receptors rs k)"
proof (induction rs arbitrary: k)
  case (Cons r rs)
  have "announced k (eh_event_trigger_receptor_no_lock r (set_receptor_flag r RECEPTOR_TRIGGER k))"
    by (rule announced_trans[OF flag_announced trigger_announced])
  from announced_trans[OF this Cons.IH] show ?case by simp
qed simp

lemma clean_receptors_announced: "announced k (clean_receptors rs k)"
proof (induction rs arbitrary: k)
  case (Cons r rs)
  let ?k = "eh_event_trigger_receptor_no_lock r (set_receptor_flag r RECEPTOR_ERROR k)"
  have "announced k ?k" by (rule announced_trans[OF flag_announced trigger_announced])
  moreover have "announced ?k (eh_event_remove_receptor_no_lock r ?k)"
    by (simp add: announced_def eh_event_remove_receptor_no_lock_def)
  ultimately have "announced k (eh_event_remove_receptor_no_lock r ?k)" by (rule announced_trans)
  from announced_trans[OF this Cons.IH] show ?case by simp
qed simp

lemma event_announced:
  "announced k (snd (eh_event_notify e k))" "announced k (eh_event_clean e k)"
  "announced k (snd (eh_event_notify_and_reorder e n k))"
  using notify_receptors_announced clean_receptors_announced
  by (auto simp: eh_event_notify_def eh_event_clean_def eh_event_notify_and_reorder_def Let_def announced_def)

text \<open>A timer operation moves no task, and breaks the wait once if the timer became the first one.\<close>

definition timer_announced :: "int \<Rightarrow> kernel \<Rightarrow> kernel \<Rightarrow> bool" where
  "timer_announced ret k k' \<longleftrightarrow> tasks k' = tasks k \<and> ready_list k' = ready_list k \<and> current_task k' = current_task k
     \<and> idle_breaks k' = idle_breaks k + (if ret = FIRST_TIMER_UPDATE then 1 else 0)"

lemma timer_ops_announced:
  "eh_timer_start t k = Some (ret, k') \<Longrightarrow> timer_announced ret k k'"
  "eh_timer_restart t k = Some (ret, k') \<Longrightarrow> timer_announced ret k k'"
  "eh_timer_stop t k = Some (ret, k') \<Longrightarrow> timer_announced ret k k'"
  by (auto simp: timer_announced_def eh_timer_start_def eh_timer_restart_def eh_timer_stop_def eh_timer_start_no_lock_def timer_remove_def
      update_timer_now_def eh_get_clock_monotonic_time_def set_timer_def eh_idle_break_def Let_def eh_ret FIRST_TIMER_UPDATE_def
      split: if_splits bind_splits)

subsection \<open>The wait of the idle system\<close>

definition runnable :: "kernel \<Rightarrow> bool" where
  "runnable k \<longleftrightarrow> ready_list k \<noteq> [] \<or> eh_task_get_current_state k = READY \<or> eh_task_get_current_state k = RUNING"

text \<open>
  \<open>idle_run u m p ns el\<close>: the idle system took the decision to wait for \<open>m\<close> clocks, \<open>u\<close> microseconds, and since then
  other threads and interrupts did what they do under the mutex; now the platform is in the state \<open>p\<close>, the running timers
  are \<open>ns\<close>, and the last reading of the clock is \<open>el\<close> after the one the decision was based on.
\<close>

inductive idle_run ::
  "('s \<Rightarrow> 's) \<Rightarrow> ('s \<Rightarrow> 's) \<Rightarrow> u64 \<Rightarrow> u64 \<Rightarrow> int \<Rightarrow> 's linux_platform \<Rightarrow> ptr list \<Rightarrow> int \<Rightarrow> bool" for W R cps where
  enter: "timers_ok (os_kernel p0) ns \<Longrightarrow> in_time (os_kernel p0) ns \<Longrightarrow> first_timer_max_time cps \<ge> 0 \<Longrightarrow>
    platform_idle_enter R cps p0 = (u, p) \<Longrightarrow> m = fst (eh_get_loop_idle_time cps (os_kernel p0)) \<Longrightarrow> idle_run W R cps u m p ns 0"
| wake_up: "idle_run W R cps u m p ns el \<Longrightarrow> idle_run W R cps u m (locked W (eh_task_wake_up t) p) ns el"
| notify: "idle_run W R cps u m p ns el \<Longrightarrow> idle_run W R cps u m (locked W (\<lambda>k. snd (eh_event_notify e k)) p) ns el"
| notify_some: "idle_run W R cps u m p ns el \<Longrightarrow> idle_run W R cps u m (locked W (\<lambda>k. snd (eh_event_notify_and_reorder e n k)) p) ns el"
| clean: "idle_run W R cps u m p ns el \<Longrightarrow> idle_run W R cps u m (locked W (eh_event_clean e) p) ns el"
| start: "idle_run W R cps u m p ns el \<Longrightarrow> in_time (os_kernel p) ns \<Longrightarrow> t \<noteq> NULL \<Longrightarrow> t \<in> set ns \<or> timer_node_is_empty (os_kernel p) t \<Longrightarrow>
    0 \<le> sint (interval (timers (os_kernel p) t)) \<Longrightarrow> eh_timer_start t (os_kernel p) = Some (ret, k') \<Longrightarrow>
    timers_ok k' ns' \<Longrightarrow> set ns' = insert t (set ns) \<Longrightarrow>
    idle_run W R cps u m (locked W (\<lambda>_. k') p) ns' (el + uint (clock_step (os_kernel p)))"
| restart: "idle_run W R cps u m p ns el \<Longrightarrow> in_time (os_kernel p) ns \<Longrightarrow> t \<noteq> NULL \<Longrightarrow> t \<in> set ns \<or> timer_node_is_empty (os_kernel p) t \<Longrightarrow>
    0 \<le> sint (interval (timers (os_kernel p) t)) \<Longrightarrow> eh_timer_restart t (os_kernel p) = Some (ret, k') \<Longrightarrow>
    timers_ok k' ns' \<Longrightarrow> set ns' = insert t (set ns) \<Longrightarrow>
    idle_run W R cps u m (locked W (\<lambda>_. k') p) ns' (el + uint (clock_step (os_kernel p)))"
| stop: "idle_run W R cps u m p ns el \<Longrightarrow> t \<in> set ns \<Longrightarrow> eh_timer_stop t (os_kernel p) = Some (ret, k') \<Longrightarrow>
    idle_run W R cps u m (locked W (\<lambda>_. k') p) (remove1 t ns) el"

definition idle_ok :: "('s \<Rightarrow> bool) \<Rightarrow> u64 \<Rightarrow> int \<Rightarrow> 's linux_platform \<Rightarrow> ptr list \<Rightarrow> int \<Rightarrow> bool" where
  "idle_ok readable u m p ns el \<longleftrightarrow> is_idle_state p \<and> timers_ok (os_kernel p) ns
     \<and> (u = 0 \<or> readable (wait_break p)
        \<or> \<not> runnable (os_kernel p) \<and> (\<forall>t\<in>set ns. m \<le> remaining (os_kernel p) t + el))"

lemma breaks_fields:
  fixes W :: "'s \<Rightarrow> 's"
  shows "is_idle_state ((platform_idle_break W ^^ n) p) = is_idle_state p" "os_kernel ((platform_idle_break W ^^ n) p) = os_kernel p"
  "\<forall>s. readable (W s) \<Longrightarrow> is_idle_state p \<Longrightarrow> readable (wait_break ((platform_idle_break W ^^ n) p)) \<longleftrightarrow> n > 0 \<or> readable (wait_break p)"
  by (induction n) (auto simp: platform_idle_break_def epoll_hub_set_wait_break_event_def)

lemma locked_fields:
  assumes "\<forall>s. readable (W s)" "is_idle_state p"
  shows "is_idle_state (locked W f p)" "os_kernel (locked W f p) = f (os_kernel p)"
    "readable (wait_break (locked W f p)) \<longleftrightarrow> idle_breaks (f (os_kernel p)) > idle_breaks (os_kernel p) \<or> readable (wait_break p)"
proof -
  let ?q = "p\<lparr>os_kernel := f (os_kernel p)\<rparr>"
  have q: "is_idle_state ?q" "wait_break ?q = wait_break p" using assms(2) by simp_all
  show "is_idle_state (locked W f p)" "os_kernel (locked W f p) = f (os_kernel p)"
    using assms(2) by (simp_all add: locked_def Let_def breaks_fields(1,2))
  show "readable (wait_break (locked W f p)) \<longleftrightarrow> idle_breaks (f (os_kernel p)) > idle_breaks (os_kernel p) \<or> readable (wait_break p)"
    using breaks_fields(3)[of readable W ?q, OF assms(1) q(1)] q(2) by (simp add: locked_def Let_def)
qed

lemma announced_idle_ok:
  assumes W: "\<forall>s. readable (W s)" and ok: "idle_ok readable u m p ns el" and a: "announced (os_kernel p) (f (os_kernel p))"
  shows "idle_ok readable u m (locked W f p) ns el"
proof -
  have i: "is_idle_state p" using ok by (simp add: idle_ok_def)
  note L = locked_fields[where readable = readable and W = W and p = p and f = f, OF W i]
  have r: "remaining (f (os_kernel p)) = remaining (os_kernel p)" using a by (simp add: announced_def remaining_def fun_eq_iff)
  have "timers_ok (f (os_kernel p)) ns"
    using ok a timers_ok_cong[of "f (os_kernel p)" "os_kernel p" ns] by (simp add: idle_ok_def announced_def r)
  moreover have "idle_breaks (f (os_kernel p)) = idle_breaks (os_kernel p) \<Longrightarrow> runnable (f (os_kernel p)) = runnable (os_kernel p)"
    using a by (simp add: announced_def runnable_def eh_task_get_current_state_def)
  moreover have "idle_breaks (os_kernel p) \<le> idle_breaks (f (os_kernel p))" using a by (simp add: announced_def)
  ultimately show ?thesis using ok L r by (auto simp: idle_ok_def)
qed

text \<open>\<open>t\<close> was started: the other timers kept their time, and \<open>t\<close> is the first one exactly when the wait is broken.\<close>

lemma started_idle_ok:
  assumes W: "\<forall>s. readable (W s)" and ok: "idle_ok readable u m p ns el" and a: "timer_announced ret (os_kernel p) k'"
    and ns': "timers_ok k' ns'" "set ns' = insert t (set ns)"
    and rem: "\<forall>x\<in>set ns - {t}. remaining k' x = remaining (os_kernel p) x - d"
    and t: "t \<in> set ns \<and> remaining k' t = remaining (os_kernel p) t - d
      \<or> ret = (if \<forall>x\<in>set ns - {t}. remaining k' t < remaining k' x then FIRST_TIMER_UPDATE else EH_RET_OK)"
  shows "idle_ok readable u m (locked W (\<lambda>_. k') p) ns' (el + d)"
proof -
  have i: "is_idle_state p" using ok by (simp add: idle_ok_def)
  note L = locked_fields[where readable = readable and W = W and p = p and f = "\<lambda>_. k'", OF W i]
  have run: "runnable k' = runnable (os_kernel p)"
    using a by (simp add: timer_announced_def runnable_def eh_task_get_current_state_def)
  have "\<forall>x\<in>set ns'. m \<le> remaining k' x + (el + d)"
    if n: "ret \<noteq> FIRST_TIMER_UPDATE" "\<forall>x\<in>set ns. m \<le> remaining (os_kernel p) x + el"
  proof -
    have o: "\<forall>x\<in>set ns - {t}. m \<le> remaining k' x + (el + d)" using rem n(2) by auto
    have "m \<le> remaining k' t + (el + d)"
    proof (cases "t \<in> set ns \<and> remaining k' t = remaining (os_kernel p) t - d")
      case True
      then show ?thesis using n(2) by auto
    next
      case False
      then obtain x where x: "x \<in> set ns - {t}" "remaining k' x \<le> remaining k' t" using t n(1) by (auto simp: not_less split: if_splits)
      then have "m \<le> remaining k' x + (el + d)" using o by blast
      then show ?thesis using x(2) by linarith
    qed
    then show ?thesis using o ns'(2) by auto
  qed
  then show ?thesis using ok L run ns'(1) a unfolding idle_ok_def timer_announced_def by (cases "ret = FIRST_TIMER_UPDATE") auto
qed

lemma busy_start:
  assumes "timers_ok k ns" "in_time k ns" "t \<in> set ns" "0 \<le> sint (interval (timers k t))" "eh_timer_start t k = Some (ret, k')"
  shows "remaining k' t = remaining k t - uint (clock_step k)"
proof -
  have t: "t \<noteq> NULL" using timers_ok_distinct[OF assms(1)] assms(3) by metis
  have "\<not> timer_node_is_empty (update_timer_now k) t"
    using rb_rep_node_not_empty assms(1,3) by (auto simp: timers_ok_def timer_node_is_empty_def)
  then have "k' = update_timer_now k"
    using assms(4,5) t by (auto simp: eh_timer_start_def Let_def eh_timer_start_no_lock_def eh_ret FIRST_TIMER_UPDATE_def)
  then show ?thesis using assms(2,3) remaining_update_now by (simp add: in_time_def)
qed

lemma enter_idle_ok:
  assumes ok: "timers_ok (os_kernel p0) ns" "in_time (os_kernel p0) ns" "first_timer_max_time cps \<ge> 0"
    and e: "platform_idle_enter R cps p0 = (u, p)" and m: "m = fst (eh_get_loop_idle_time cps (os_kernel p0))"
  shows "u = eh_clock_to_usec cps (word_of_int m)" "idle_ok readable u m p ns 0"
proof -
  let ?k = "os_kernel p0"
  obtain k1 where g: "eh_get_loop_idle_time cps ?k = (m, k1)" using m by (metis prod.collapse)
  then have p: "u = eh_clock_to_usec cps (word_of_int m)" "is_idle_state p" "os_kernel p = k1"
    using e by (auto simp: platform_idle_enter_def epoll_hub_clean_wait_break_event_def)
  then show "u = eh_clock_to_usec cps (word_of_int m)" by simp
  show "idle_ok readable u m p ns 0"
  proof (cases "runnable ?k")
    case True
    then have "m = 0" "k1 = ?k" using g by (auto simp: eh_get_loop_idle_time_def runnable_def)
    then show ?thesis using ok p by (simp add: idle_ok_def eh_clock_to_usec_def)
  next
    case False
    then have f: "eh_timer_get_first_remaining_time_on_lock cps ?k = (m, k1)"
      using g by (auto simp: eh_get_loop_idle_time_def runnable_def)
    then have k1: "k1 = update_timer_now ?k" "0 \<le> m" "\<forall>t\<in>set ns. m \<le> max 0 (remaining k1 t)"
      using timer_first_remaining_spec[OF ok] by auto
    have "\<not> runnable k1" using False by (simp add: k1(1) runnable_def eh_task_get_current_state_def)
    moreover have "timers_ok k1 ns" unfolding k1(1) by (rule update_now_ok[OF ok(1,2)])
    moreover have "u = 0 \<or> (\<forall>t\<in>set ns. m \<le> remaining k1 t)"
    proof (cases "m = 0")
      case True
      then show ?thesis using p(1) by (simp add: eh_clock_to_usec_def)
    next
      case False
      then show ?thesis using k1(2,3) by fastforce
    qed
    ultimately show ?thesis using p by (auto simp: idle_ok_def)
  qed
qed

lemma idle_run_ok:
  assumes W: "\<forall>s. readable (W s)"
  shows "idle_run W R cps u m p ns el \<Longrightarrow> idle_ok readable u m p ns el \<and> u = eh_clock_to_usec cps (word_of_int m)"
proof (induction rule: idle_run.induct)
  case (enter p0 ns u p m)
  then show ?case using enter_idle_ok[OF enter(1-5)] by blast
next
  case (wake_up u m p ns el t)
  have "idle_ok readable u m (locked W (eh_task_wake_up t) p) ns el"
    by (rule announced_idle_ok[where readable = readable]) (use W wake_up.IH wake_up_announced in blast)+
  then show ?case using wake_up.IH by blast
next
  case (notify u m p ns el e)
  have "idle_ok readable u m (locked W (\<lambda>k. snd (eh_event_notify e k)) p) ns el"
    by (rule announced_idle_ok[where readable = readable]) (use W notify.IH event_announced(1) in blast)+
  then show ?case using notify.IH by blast
next
  case (notify_some u m p ns el e n)
  have "idle_ok readable u m (locked W (\<lambda>k. snd (eh_event_notify_and_reorder e n k)) p) ns el"
    by (rule announced_idle_ok[where readable = readable]) (use W notify_some.IH event_announced(3) in blast)+
  then show ?case using notify_some.IH by blast
next
  case (clean u m p ns el e)
  have "idle_ok readable u m (locked W (eh_event_clean e) p) ns el"
    by (rule announced_idle_ok[where readable = readable]) (use W clean.IH event_announced(2) in blast)+
  then show ?case using clean.IH by blast
next
  case (start u m p ns el t ret k' ns')
  then have ok: "idle_ok readable u m p ns el" and u: "u = eh_clock_to_usec cps (word_of_int m)" by blast+
  have tok: "timers_ok (os_kernel p) ns" using ok by (simp add: idle_ok_def)
  have sp: "\<forall>x\<in>set ns - {t}. remaining k' x = remaining (os_kernel p) x - uint (clock_step (os_kernel p))"
    "t \<notin> set ns \<Longrightarrow> ret = (if \<forall>x\<in>set ns. remaining k' t < remaining k' x then FIRST_TIMER_UPDATE else EH_RET_OK)"
    using timer_start_spec[OF tok start.hyps(2-4)] start.hyps(5,6) by auto
  have "idle_ok readable u m (locked W (\<lambda>_. k') p) ns' (el + uint (clock_step (os_kernel p)))"
    by (rule started_idle_ok[OF W ok timer_ops_announced(1)[OF start.hyps(6)] start.hyps(7,8) sp(1)])
      (use sp(2) busy_start[OF tok start.hyps(2) _ start.hyps(5,6)] in \<open>cases "t \<in> set ns"; simp\<close>)
  then show ?case using u by blast
next
  case (restart u m p ns el t ret k' ns')
  then have ok: "idle_ok readable u m p ns el" and u: "u = eh_clock_to_usec cps (word_of_int m)" by blast+
  have tok: "timers_ok (os_kernel p) ns" using ok by (simp add: idle_ok_def)
  obtain r2 k2 where r2: "eh_timer_restart t (os_kernel p) = Some (r2, k2)"
    "\<forall>x\<in>set ns - {t}. remaining k2 x = remaining (os_kernel p) x - uint (clock_step (os_kernel p))"
    "r2 = (if \<forall>x\<in>set ns - {t}. remaining k2 t < remaining k2 x then FIRST_TIMER_UPDATE else EH_RET_OK)"
    using timer_restart_stop_spec[OF tok restart.hyps(2-5)] by blast
  have "r2 = ret" "k2 = k'" using r2(1) restart.hyps(6) by simp_all
  then have sp: "\<forall>x\<in>set ns - {t}. remaining k' x = remaining (os_kernel p) x - uint (clock_step (os_kernel p))"
    "ret = (if \<forall>x\<in>set ns - {t}. remaining k' t < remaining k' x then FIRST_TIMER_UPDATE else EH_RET_OK)"
    using r2(2,3) by blast+
  have "idle_ok readable u m (locked W (\<lambda>_. k') p) ns' (el + uint (clock_step (os_kernel p)))"
    by (rule started_idle_ok[OF W ok timer_ops_announced(2)[OF restart.hyps(6)] restart.hyps(7,8) sp(1)]) (rule disjI2[OF sp(2)])
  then show ?case using u by blast
next
  case (stop u m p ns el t ret k')
  then have ok: "idle_ok readable u m p ns el" and u: "u = eh_clock_to_usec cps (word_of_int m)" by blast+
  have tok: "timers_ok (os_kernel p) ns" and i: "is_idle_state p" using ok by (simp_all add: idle_ok_def)
  have t: "t \<noteq> NULL" using timers_ok_distinct[OF tok] stop.hyps(2) by metis
  have "\<not> timer_node_is_empty (os_kernel p) t"
    using rb_rep_node_not_empty tok stop.hyps(2) by (auto simp: timers_ok_def timer_node_is_empty_def)
  then have rm: "removed t ns (os_kernel p) k'" "ret = EH_RET_OK"
    using timer_remove_effect[OF tok stop.hyps(2)] stop.hyps(3) t by (auto simp: eh_timer_stop_def)
  then have rem: "remaining k' = remaining (os_kernel p)"
    by (simp add: fun_eq_iff remaining_def removed_def timer_eq_def)
  note a = timer_ops_announced(3)[OF stop.hyps(3)]
  have "idle_breaks k' = idle_breaks (os_kernel p)" "runnable k' = runnable (os_kernel p)"
    using a rm(2) by (simp_all add: timer_announced_def runnable_def eh_task_get_current_state_def eh_ret FIRST_TIMER_UPDATE_def)
  then have "idle_ok readable u m (locked W (\<lambda>_. k') p) (remove1 t ns) el"
    using ok rm(1) rem locked_fields[where readable = readable and W = W and p = p and f = "\<lambda>_. k'", OF W i]
    by (auto simp: idle_ok_def removed_def dest: set_mp[OF set_remove1_subset])
  then show ?case using u by blast
qed

text \<open>
  C35. The idle system sleeps through no wake-up. Whatever other threads and interrupts do between its decision to wait
  and the wait itself: either it does not wait, or the wait is broken at once, or still no task can run and every
  running timer expires no earlier than the wait ends. The event descriptor is readable once written.
\<close>

theorem idle_no_lost_wakeup:
  assumes "idle_run W R cps u m p ns el" "\<forall>s. readable (W s)"
  shows "u = eh_clock_to_usec cps (word_of_int m)
    \<and> (u = 0 \<or> readable (wait_break p)
       \<or> ready_list (os_kernel p) = [] \<and> eh_task_get_current_state (os_kernel p) \<notin> {READY, RUNING}
         \<and> (\<forall>t\<in>set ns. m \<le> remaining (os_kernel p) t + el))"
  using idle_run_ok[OF assms(2,1)] by (auto simp: idle_ok_def runnable_def)

text \<open>All tasks wait; after the decision to wait for a minute, the task 2 is woken.\<close>

definition ex_idle :: "nat linux_platform" where
  "ex_idle = \<lparr>is_idle_state = False, wait_break = 0, os_kernel = eh_task_set_current_state WAIT demo\<rparr>"

lemma ex_idle_timers:
  "timers_ok (os_kernel ex_idle) []" "in_time (os_kernel ex_idle) []" "first_timer_max_time 1000000 = 60000000"
proof -
  have "rb_rep empty_tree []" by (simp add: rb_rep_def rbt_def hd0_def empty_tree_def)
  then show "timers_ok (os_kernel ex_idle) []"
    by (simp add: timers_ok_def by_key_def ex_idle_def eh_task_set_current_state_def)
  show "in_time (os_kernel ex_idle) []" by (simp add: in_time_def)
  show "first_timer_max_time 1000000 = 60000000" by (simp add: first_timer_max_time_def eh_msec_to_clock_def Let_def)
qed

lemma idle_no_lost_wakeup_witness:
  "0 < wait_break (locked Suc (eh_task_wake_up 2) (snd (platform_idle_enter (\<lambda>_. 0) 1000000 ex_idle)))"
proof -
  obtain u p where e: "platform_idle_enter (\<lambda>_. 0) 1000000 ex_idle = (u, p)" by fastforce
  let ?m = "fst (eh_get_loop_idle_time 1000000 (os_kernel ex_idle))"
  have run: "idle_run Suc (\<lambda>_. 0) 1000000 u ?m (locked Suc (eh_task_wake_up 2) p) [] 0"
    by (intro idle_run.wake_up idle_run.enter[OF ex_idle_timers(1,2) _ e refl]) (simp add: ex_idle_timers(3))
  have g: "eh_get_loop_idle_time 1000000 (os_kernel ex_idle) = (60000000, update_timer_now (os_kernel ex_idle))"
    using timer_first_remaining_spec[OF ex_idle_timers(1,2), of 1000000]
    by (simp add: eh_get_loop_idle_time_def ex_idle_timers(3) eh_task_get_current_state_def)
      (simp add: ex_idle_def eh_task_set_current_state_def)
  have p: "u \<noteq> 0" "os_kernel p = update_timer_now (os_kernel ex_idle)" "is_idle_state p"
    using e g by (auto simp: platform_idle_enter_def epoll_hub_clean_wait_break_event_def eh_clock_to_usec_def Let_def)
  have "ready_list (eh_task_wake_up 2 (os_kernel p)) \<noteq> []"
    by (simp add: p(2) ex_idle_def eh_task_set_current_state_def eh_task_wake_up_def Let_def is_system_task_def task_move_last_def
        eh_idle_break_def task_unlink_def)
  then show ?thesis
    using idle_no_lost_wakeup[OF run, of "\<lambda>s. 0 < s"] p(1) locked_fields(2)[of "\<lambda>s. 0 < s" Suc p] p(3) e by simp
qed

subsection \<open>Descriptors\<close>

text \<open>
  A failed initialisation of the hub reports an error and leaves no descriptor open; a successful one opens three, of
  which the exit leaves the event descriptor open.
\<close>

theorem hub_descriptors:
  fixes c t e a b :: int and h :: epoll_hub
  defines "r \<equiv> epoll_hub_init c t e a b h"
  shows "if c < 0 \<or> t < 0 \<or> e < 0 \<or> a < 0 \<or> b < 0 then fst r < 0 \<and> open_fds (snd r) = open_fds h
    else fst r = 0 \<and> open_fds (snd r) = [e, t, c] @ open_fds h
      \<and> mset (open_fds (epoll_hub_exit (snd r))) = add_mset e (mset (open_fds h))"
proof -
  have "mset (remove1 t (remove1 c ([e, t, c] @ open_fds h))) = add_mset e (mset (open_fds h))" by simp
  then show ?thesis by (auto simp: r_def epoll_hub_init_def Let_def fd_opened_def fd_close_def epoll_hub_exit_def)
qed

end
