(* ===== verification/Eh_Llist.thy ===== *)
theory Eh_Llist
  imports Eh_Prelude
begin

text \<open>
  The singly linked list of \<^verbatim>\<open>src/src/general/eh_llist.c\<close> and its header, which serves as a stack and
  as a queue. A memory gives the \<open>next\<close> field of every node and the \<open>last\<close> field of every head. The field
  \<open>first\<close> of a head is its first member, and the code uses the head as a node in front of the
  first: \<open>first\<close> is the \<open>next\<close> field at the address of the head. \<open>llist\<close> says which nodes a
  head carries, and every sequence of operations is shown to be one of a HOL list.
\<close>

subsection \<open>The operations\<close>

record llmem =
  ll_next :: "ptr \<Rightarrow> ptr"
  ll_last :: "ptr \<Rightarrow> ptr"

definition set_ll_next :: "ptr \<Rightarrow> ptr \<Rightarrow> llmem \<Rightarrow> llmem" where
  "set_ll_next p v m = m\<lparr>ll_next := (ll_next m)(p := v)\<rparr>"

definition set_ll_last :: "ptr \<Rightarrow> ptr \<Rightarrow> llmem \<Rightarrow> llmem" where
  "set_ll_last h v m = m\<lparr>ll_last := (ll_last m)(h := v)\<rparr>"

lemma llmem_rw [simp]:
  "ll_next (set_ll_next p v m) = (ll_next m)(p := v)" "ll_last (set_ll_next p v m) = ll_last m"
  "ll_last (set_ll_last p v m) = (ll_last m)(p := v)" "ll_next (set_ll_last p v m) = ll_next m"
  by (simp_all add: set_ll_next_def set_ll_last_def)

definition eh_llist_head_init :: "ptr \<Rightarrow> llmem \<Rightarrow> llmem" where
  "eh_llist_head_init h m = set_ll_last h NULL (set_ll_next h NULL m)"

definition eh_llist_head_move_init :: "ptr \<Rightarrow> ptr \<Rightarrow> llmem \<Rightarrow> llmem" where
  "eh_llist_head_move_init old_list new_list m =
     (let m = set_ll_next new_list (ll_next m old_list) m;
          m = set_ll_last new_list (ll_last m old_list) m;
          m = set_ll_next old_list NULL m
      in set_ll_last old_list NULL m)"

definition eh_llist_node_init :: "ptr \<Rightarrow> llmem \<Rightarrow> llmem" where
  "eh_llist_node_init node m = set_ll_next node node m"

definition eh_llist_on_list :: "ptr \<Rightarrow> llmem \<Rightarrow> bool" where
  "eh_llist_on_list node m \<longleftrightarrow> ll_next m node \<noteq> node"

definition eh_llist_empty :: "ptr \<Rightarrow> llmem \<Rightarrow> bool" where
  "eh_llist_empty head m \<longleftrightarrow> ll_next m head = NULL"

definition eh_llist_next :: "ptr \<Rightarrow> llmem \<Rightarrow> ptr" where
  "eh_llist_next node m = ll_next m node"

definition eh_llist_first :: "ptr \<Rightarrow> llmem \<Rightarrow> ptr" where
  "eh_llist_first head m = ll_next m head"

definition eh_llist_last :: "ptr \<Rightarrow> llmem \<Rightarrow> ptr" where
  "eh_llist_last head m = ll_last m head"

definition eh_llist_peek :: "ptr \<Rightarrow> llmem \<Rightarrow> ptr" where
  "eh_llist_peek head m = eh_llist_first head m"

definition eh_llist_add_batch :: "ptr \<Rightarrow> ptr \<Rightarrow> ptr \<Rightarrow> llmem \<Rightarrow> bool \<times> llmem" where
  "eh_llist_add_batch new_first new_last head m =
     (let m = set_ll_next new_last (ll_next m head) m;
          m = set_ll_next head new_first m
      in if ll_next m new_last = NULL then (True, set_ll_last head new_last m) else (False, m))"

definition eh_llist_add_batch_tail :: "ptr \<Rightarrow> ptr \<Rightarrow> ptr \<Rightarrow> llmem \<Rightarrow> bool \<times> llmem" where
  "eh_llist_add_batch_tail new_first new_last head m =
     (let m = set_ll_next new_last NULL m
      in if eh_llist_empty head m then (True, set_ll_last head new_last (set_ll_next head new_first m))
         else (False, set_ll_last head new_last (set_ll_next (ll_last m head) new_first m)))"

definition eh_llist_insert :: "ptr \<Rightarrow> ptr \<Rightarrow> ptr \<Rightarrow> llmem \<Rightarrow> llmem" where
  "eh_llist_insert prev new head m =
     (let m = set_ll_next new (ll_next m prev) m;
          m = set_ll_next prev new m
      in if ll_next m new = NULL then set_ll_last head new m else m)"

definition eh_llist_add :: "ptr \<Rightarrow> ptr \<Rightarrow> llmem \<Rightarrow> bool \<times> llmem" where
  "eh_llist_add new head m = eh_llist_add_batch new new head m"

definition eh_llist_add_tail :: "ptr \<Rightarrow> ptr \<Rightarrow> llmem \<Rightarrow> bool \<times> llmem" where
  "eh_llist_add_tail new head m = eh_llist_add_batch_tail new new head m"

definition llist_del :: "ptr \<Rightarrow> ptr \<Rightarrow> llmem \<Rightarrow> llmem" where
  "llist_del prev_node del_node m = set_ll_next prev_node (ll_next m del_node) m"

definition llist_del_init :: "ptr \<Rightarrow> ptr \<Rightarrow> llmem \<Rightarrow> llmem" where
  "llist_del_init prev_node del_node m = eh_llist_node_init del_node (llist_del prev_node del_node m)"

text \<open>Deleting the first node of an empty list reads through \<open>NULL\<close>.\<close>

definition eh_llist_del_first :: "ptr \<Rightarrow> llmem \<Rightarrow> llmem option" where
  "eh_llist_del_first head m = (if ll_next m head = NULL then None else Some (llist_del head (ll_next m head) m))"

definition eh_llist_del_first_init :: "ptr \<Rightarrow> llmem \<Rightarrow> llmem option" where
  "eh_llist_del_first_init head m = (if ll_next m head = NULL then None else Some (llist_del_init head (ll_next m head) m))"

definition eh_llist_push :: "ptr \<Rightarrow> ptr \<Rightarrow> llmem \<Rightarrow> llmem" where
  "eh_llist_push new head m = snd (eh_llist_add new head m)"

definition eh_llist_pop :: "ptr \<Rightarrow> llmem \<Rightarrow> ptr \<times> llmem" where
  "eh_llist_pop head m =
     (let node = ll_next m head in (node, if node \<noteq> NULL then llist_del_init head node m else m))"

definition eh_llist_enqueue :: "ptr \<Rightarrow> ptr \<Rightarrow> llmem \<Rightarrow> llmem" where
  "eh_llist_enqueue new head m = snd (eh_llist_add_tail new head m)"

definition eh_llist_dequeue :: "ptr \<Rightarrow> llmem \<Rightarrow> ptr \<times> llmem" where
  "eh_llist_dequeue head m = eh_llist_pop head m"

definition eh_llist_del_node_in_for_each_safe :: "ptr \<Rightarrow> ptr \<Rightarrow> ptr \<Rightarrow> llmem \<Rightarrow> llmem" where
  "eh_llist_del_node_in_for_each_safe list prev nxt m =
     (let m = set_ll_next prev nxt m in if nxt = NULL then set_ll_last list prev m else m)"

text \<open>The iterations; \<open>head_or_prev\<close> may be \<open>NULL\<close>. The body of the safe one gets \<open>prev\<close>, \<open>pos\<close> and \<open>_next\<close>.\<close>

partial_function (option) llist_nodes_from :: "ptr \<Rightarrow> llmem \<Rightarrow> ptr list option" where
  "llist_nodes_from pos m =
     (if pos = NULL then Some []
      else Option.bind (llist_nodes_from (ll_next m pos) m) (\<lambda>ns. Some (pos # ns)))"

definition eh_llist_for_each :: "ptr \<Rightarrow> llmem \<Rightarrow> ptr list option" where
  "eh_llist_for_each head_or_prev m =
     llist_nodes_from (if head_or_prev \<noteq> NULL then ll_next m head_or_prev else NULL) m"

partial_function (option) llist_safe_from ::
  "(ptr \<Rightarrow> ptr \<Rightarrow> ptr \<Rightarrow> 's \<Rightarrow> llmem \<Rightarrow> 's \<times> llmem) \<Rightarrow> ptr \<Rightarrow> ptr \<Rightarrow> 's \<Rightarrow> llmem \<Rightarrow> ('s \<times> llmem) option" where
  "llist_safe_from body prev pos s m =
     (if pos = NULL then Some (s, m)
      else
        (let nxt = ll_next m pos;
             r = body prev pos nxt s m
         in llist_safe_from body (if ll_next (snd r) prev = nxt then prev else pos) nxt (fst r) (snd r)))"

definition eh_llist_for_each_safe ::
  "(ptr \<Rightarrow> ptr \<Rightarrow> ptr \<Rightarrow> 's \<Rightarrow> llmem \<Rightarrow> 's \<times> llmem) \<Rightarrow> ptr \<Rightarrow> 's \<Rightarrow> llmem \<Rightarrow> ('s \<times> llmem) option" where
  "eh_llist_for_each_safe body head_or_prev s m =
     llist_safe_from body head_or_prev (if head_or_prev \<noteq> NULL then ll_next m head_or_prev else NULL) s m"

text \<open>Going on behind \<open>prev\<close>.\<close>

definition eh_llist_for_each_safe_continue ::
  "(ptr \<Rightarrow> ptr \<Rightarrow> ptr \<Rightarrow> 's \<Rightarrow> llmem \<Rightarrow> 's \<times> llmem) \<Rightarrow> ptr \<Rightarrow> 's \<Rightarrow> llmem \<Rightarrow> ('s \<times> llmem) option" where
  "eh_llist_for_each_safe_continue body prev s m =
     llist_safe_from body prev (if prev \<noteq> NULL then ll_next m prev else NULL) s m"

declare llist_nodes_from.simps [code] llist_safe_from.simps [code]

subsection \<open>The list of a head\<close>

definition llist :: "llmem \<Rightarrow> ptr \<Rightarrow> ptr list \<Rightarrow> bool" where
  "llist m h ns \<longleftrightarrow> path (ll_next m) (ll_next m h) ns NULL \<and> distinct (h # ns) \<and> (ns \<noteq> [] \<longrightarrow> ll_last m h = last ns)"

lemma llist_init: "llist (eh_llist_head_init h m) h []"
  by (simp add: llist_def eh_llist_head_init_def)

text \<open>The list from one of its places on: \<open>prev\<close> is the last node of \<open>h # ks\<close>.\<close>

lemma llist_at:
  "llist m h (ks @ ws) \<Longrightarrow> ll_next m (last (h # ks)) = (case ws of [] \<Rightarrow> NULL | w # _ \<Rightarrow> w)"
  by (cases ks rule: rev_cases) (auto simp: llist_def dest!: path_start)

lemma llist_not_null: "llist m h ns \<Longrightarrow> NULL \<notin> set ns"
  by (auto simp: llist_def dest: path_not_null)

lemma path_relink:
  assumes "path nx (nx h) (ks @ ws) NULL" "distinct (h # ks @ ws)" "prev = last (h # ks)" "path nx v vs NULL" "prev \<notin> set vs"
  shows "path (nx(prev := v)) ((nx(prev := v)) h) (ks @ vs) NULL"
proof (cases ks rule: rev_cases)
  case Nil
  then show ?thesis using assms by simp
next
  case (snoc ks' k)
  then have "h \<noteq> prev" "prev \<notin> set ks'" "prev = k" using assms(2,3) by auto
  then show ?thesis using assms snoc by auto
qed

text \<open>A change of \<open>prev\<close> that drops \<open>p\<close>, with or without marking \<open>p\<close> as unlinked.\<close>

lemma llist_unlink:
  assumes "llist m h (ks @ p # ws)" "prev = last (h # ks)" "ll_next m' = (ll_next m)(prev := ll_next m p)"
    "ks @ ws \<noteq> [] \<longrightarrow> ll_last m' h = last (ks @ ws)"
  shows "llist m' h (ks @ ws)" "llist (eh_llist_node_init p m') h (ks @ ws)"
proof -
  have d: "distinct (h # ks @ p # ws)" and n: "path (ll_next m) (ll_next m p) ws NULL"
    using assms(1) by (auto simp: llist_def)
  have "prev \<in> set (h # ks)" using assms(2) last_in_set by blast
  then have "prev \<notin> set ws" using d by auto
  then have pa: "path (ll_next m') (ll_next m' h) (ks @ ws) NULL"
    using path_relink[of "ll_next m" h ks "p # ws" prev "ll_next m p" ws] assms(1,2) n d unfolding assms(3) llist_def by blast
  then show l: "llist m' h (ks @ ws)" using d assms(4) by (simp add: llist_def)
  have p: "p \<notin> set (ks @ ws)" "p \<noteq> h" using d by auto
  have "path (ll_next (eh_llist_node_init p m')) (ll_next (eh_llist_node_init p m') h) (ks @ ws) NULL"
    using pa path_update[OF p(1), of "ll_next m'" p "ll_next m' h"] p(2) by (simp add: eh_llist_node_init_def del: path_append)
  then show "llist (eh_llist_node_init p m') h (ks @ ws)" using l by (simp add: llist_def eh_llist_node_init_def)
qed

lemma llist_link:
  assumes "llist m h (ks @ ws)" "prev = last (h # ks)" "new \<notin> set (h # ks @ ws)" "new \<noteq> NULL"
    "ll_next m' = (ll_next m)(new := ll_next m prev, prev := new)" "ll_last m' h = last (ks @ new # ws)"
  shows "llist m' h (ks @ new # ws)"
proof -
  let ?nx = "(ll_next m)(new := ll_next m prev)"
  have d: "distinct (h # ks @ ws)" using assms(1) by (auto simp: llist_def)
  have "prev \<in> set (h # ks)" using assms(2) last_in_set by blast
  then have np: "new \<noteq> prev" "new \<notin> set ws" "prev \<notin> set ws" using assms(3) d by auto
  have w: "path (ll_next m) (ll_next m prev) ws NULL"
    using assms(1) unfolding assms(2) by (cases ks rule: rev_cases) (auto simp: llist_def)
  have "path ?nx (?nx h) (ks @ ws) NULL"
    using assms(1,3) path_update[of new "ks @ ws" "ll_next m"] by (simp add: llist_def del: path_append)
  moreover have "path ?nx new (new # ws) NULL" using w np assms(4) by simp
  moreover have "prev \<notin> set (new # ws)" using np by simp
  ultimately have "path (?nx(prev := new)) ((?nx(prev := new)) h) (ks @ new # ws) NULL"
    using path_relink[of ?nx h ks ws prev new "new # ws"] d assms(2) by blast
  then show ?thesis using d assms(3,6) unfolding llist_def assms(5) by auto
qed

subsection \<open>What each operation does to the list\<close>

lemma llist_insert:
  assumes "llist m h (ks @ ws)" "prev = last (h # ks)" "new \<notin> set (h # ks @ ws)" "new \<noteq> NULL"
  shows "llist (eh_llist_insert prev new h m) h (ks @ new # ws)"
proof (rule llist_link[OF assms])
  have pr: "new \<noteq> prev" using assms(2,3) last_in_set[of "h # ks"] by auto
  then show "ll_next (eh_llist_insert prev new h m) = (ll_next m)(new := ll_next m prev, prev := new)"
    by (simp add: eh_llist_insert_def Let_def)
  have "ll_next m prev = (case ws of [] \<Rightarrow> NULL | w # _ \<Rightarrow> w)" using llist_at[OF assms(1)] assms(2) by simp
  moreover have "NULL \<notin> set ws" using llist_not_null[OF assms(1)] by simp
  ultimately show "ll_last (eh_llist_insert prev new h m) h = last (ks @ new # ws)"
    using pr assms(1) by (cases ws) (auto simp: eh_llist_insert_def Let_def llist_def)
qed

lemma llist_push:
  assumes "llist m h ns" "new \<notin> set (h # ns)" "new \<noteq> NULL"
  shows "llist (eh_llist_push new h m) h (new # ns)"
proof -
  have "eh_llist_push new h m = eh_llist_insert h new h m"
    using assms(2) by (simp add: eh_llist_push_def eh_llist_add_def eh_llist_add_batch_def eh_llist_insert_def Let_def)
  then show ?thesis using llist_insert[of m h "[]" ns h new] assms by simp
qed

lemma llist_enqueue:
  assumes "llist m h ns" "new \<notin> set (h # ns)" "new \<noteq> NULL"
  shows "llist (eh_llist_enqueue new h m) h (ns @ [new])"
proof -
  have e: "ll_next m h = NULL \<longleftrightarrow> ns = []" using llist_at[of m h "[]" ns] assms(1) llist_not_null[OF assms(1)] by (cases ns) auto
  have l: "ll_next m (last (h # ns)) = NULL" using llist_at[of m h ns "[]"] assms(1) by simp
  have pr: "new \<noteq> last (h # ns)" using assms(2) last_in_set[of "h # ns"] by auto
  have "(if ns = [] then h else ll_last m h) = last (h # ns)" using assms(1) by (simp add: llist_def)
  then have "ll_next (eh_llist_enqueue new h m) = (ll_next m)(new := ll_next m (last (h # ns)), last (h # ns) := new)"
    "ll_last (eh_llist_enqueue new h m) h = new"
    using assms(2) e unfolding l
    by (auto simp: eh_llist_enqueue_def eh_llist_add_tail_def eh_llist_add_batch_tail_def eh_llist_empty_def Let_def)
  then show ?thesis using llist_link[of m h ns "[]" "last (h # ns)" new] assms by simp
qed

lemma llist_pop:
  assumes "llist m h ns"
  shows "fst (eh_llist_pop h m) = (case ns of [] \<Rightarrow> NULL | n # _ \<Rightarrow> n)"
    "llist (snd (eh_llist_pop h m)) h (tl ns)"
    "ns \<noteq> [] \<Longrightarrow> \<not> eh_llist_on_list (hd ns) (snd (eh_llist_pop h m))"
proof -
  have f: "ll_next m h = (case ns of [] \<Rightarrow> NULL | n # _ \<Rightarrow> n)" using llist_at[of m h "[]" ns] assms by simp
  then show "fst (eh_llist_pop h m) = (case ns of [] \<Rightarrow> NULL | n # _ \<Rightarrow> n)" by (simp add: eh_llist_pop_def Let_def)
  show "llist (snd (eh_llist_pop h m)) h (tl ns)"
  proof (cases ns)
    case Nil
    then show ?thesis using f assms by (simp add: eh_llist_pop_def Let_def)
  next
    case (Cons n ws)
    have n: "n \<noteq> NULL" using llist_not_null[OF assms] Cons by auto
    have "ll_last (llist_del h n m) h = ll_last m h" by (simp add: llist_del_def)
    then show ?thesis
      using llist_unlink(2)[of m h "[]" n ws h "llist_del h n m"] assms n f
      by (auto simp: Cons eh_llist_pop_def llist_del_init_def llist_del_def Let_def llist_def)
  qed
  show "ns \<noteq> [] \<Longrightarrow> \<not> eh_llist_on_list (hd ns) (snd (eh_llist_pop h m))"
    using f llist_not_null[OF assms]
    by (cases ns) (auto simp: eh_llist_pop_def Let_def llist_del_init_def eh_llist_node_init_def eh_llist_on_list_def)
qed

lemma llist_move:
  assumes "llist m h ns" "h' \<notin> set (h # ns)"
  shows "llist (eh_llist_head_move_init h h' m) h' ns" "llist (eh_llist_head_move_init h h' m) h []"
  using assms path_update[of h ns "(ll_next m)(h' := ll_next m h)"] path_update[of h' ns "ll_next m"]
  by (auto simp: llist_def eh_llist_head_move_init_def Let_def)

lemma llist_iterate:
  assumes "llist m h ns" "h \<noteq> NULL"
  shows "eh_llist_for_each h m = Some ns"
proof -
  have "path (ll_next m) p ns NULL \<Longrightarrow> llist_nodes_from p m = Some ns" for p
    by (induction ns arbitrary: p) (subst llist_nodes_from.simps, auto)+
  then show ?thesis using assms by (simp add: eh_llist_for_each_def llist_def)
qed

text \<open>An iteration that deletes the nodes with a property.\<close>

definition remove_body :: "ptr \<Rightarrow> (ptr \<Rightarrow> bool) \<Rightarrow> ptr \<Rightarrow> ptr \<Rightarrow> ptr \<Rightarrow> ptr list \<Rightarrow> llmem \<Rightarrow> ptr list \<times> llmem" where
  "remove_body h P prev pos nxt rs m =
     (if P pos then (rs @ [pos], eh_llist_del_node_in_for_each_safe h prev nxt m) else (rs, m))"

lemma llist_del_at:
  assumes "llist m h (ks @ p # ws)" "prev = last (h # ks)"
  shows "llist (eh_llist_del_node_in_for_each_safe h prev (ll_next m p) m) h (ks @ ws)"
proof -
  have n: "ll_next m p = (case ws of [] \<Rightarrow> NULL | w # _ \<Rightarrow> w)" using llist_at[of m h "ks @ [p]" ws] assms(1) by simp
  have "NULL \<notin> set ws" using llist_not_null[OF assms(1)] by simp
  then have "ks @ ws \<noteq> [] \<longrightarrow> ll_last (eh_llist_del_node_in_for_each_safe h prev (ll_next m p) m) h = last (ks @ ws)"
    using n assms by (cases ws) (auto simp: eh_llist_del_node_in_for_each_safe_def Let_def llist_def)
  then show ?thesis using llist_unlink(1)[OF assms] by (simp add: eh_llist_del_node_in_for_each_safe_def Let_def)
qed

lemma llist_remove_from:
  assumes "llist m h (ks @ ws)"
  shows "\<exists>m'. llist_safe_from (remove_body h P) (last (h # ks)) (case ws of [] \<Rightarrow> NULL | w # _ \<Rightarrow> w) rs m = Some (rs @ filter P ws, m')
    \<and> llist m' h (ks @ filter (\<lambda>n. \<not> P n) ws)
    \<and> (\<forall>q. q \<notin> set (h # ks @ ws) \<longrightarrow> ll_next m' q = ll_next m q) \<and> (\<forall>q. q \<noteq> h \<longrightarrow> ll_last m' q = ll_last m q)"
  using assms
proof (induction ws arbitrary: ks rs m)
  case Nil
  then show ?case by (subst llist_safe_from.simps) simp
next
  case (Cons p ws)
  let ?prev = "last (h # ks)"
  have n: "ll_next m p = (case ws of [] \<Rightarrow> NULL | w # _ \<Rightarrow> w)" using llist_at[of m h "ks @ [p]" ws] Cons.prems by simp
  have p: "p \<noteq> NULL" using llist_not_null[OF Cons.prems] by auto
  have d: "distinct (h # ks @ p # ws)" using Cons.prems by (simp add: llist_def)
  have pr: "?prev \<in> set (h # ks)" using last_in_set by blast
  show ?case
  proof (cases "P p")
    case True
    let ?m = "eh_llist_del_node_in_for_each_safe h ?prev (ll_next m p) m"
    have l: "llist ?m h (ks @ ws)" by (rule llist_del_at[OF Cons.prems refl])
    have "ll_next ?m ?prev = ll_next m p" by (simp add: eh_llist_del_node_in_for_each_safe_def Let_def)
    then have step: "llist_safe_from (remove_body h P) ?prev p rs m = llist_safe_from (remove_body h P) ?prev (ll_next m p) (rs @ [p]) ?m"
      using True p by (subst llist_safe_from.simps) (simp add: Let_def remove_body_def)
    have "ll_next ?m q = ll_next m q" if "q \<notin> set (h # ks)" for q
      using that pr by (auto simp: eh_llist_del_node_in_for_each_safe_def Let_def)
    moreover have "ll_last ?m q = ll_last m q" if "q \<noteq> h" for q
      using that by (simp add: eh_llist_del_node_in_for_each_safe_def Let_def)
    ultimately show ?thesis using Cons.IH[OF l, of "rs @ [p]"] True step n by auto
  next
    case False
    have "?prev \<noteq> p" using pr d by auto
    have "ll_next m ?prev = p" using llist_at[OF Cons.prems] by simp
    moreover have "p \<noteq> ll_next m p" using d n p by (cases ws) auto
    ultimately have step: "llist_safe_from (remove_body h P) ?prev p rs m = llist_safe_from (remove_body h P) p (ll_next m p) rs m"
      using False p by (subst llist_safe_from.simps) (simp add: Let_def remove_body_def)
    show ?thesis using Cons.IH[of m "ks @ [p]" rs] Cons.prems False step n by auto
  qed
qed

lemma llist_remove:
  assumes "llist m h ns" "h \<noteq> NULL"
  shows "\<exists>m'. eh_llist_for_each_safe (remove_body h P) h [] m = Some (filter P ns, m') \<and> llist m' h (filter (\<lambda>n. \<not> P n) ns)
    \<and> (\<forall>q. q \<notin> set (h # ns) \<longrightarrow> ll_next m' q = ll_next m q) \<and> (\<forall>q. q \<noteq> h \<longrightarrow> ll_last m' q = ll_last m q)"
  using llist_remove_from[of m h "[]" ns P "[]"] llist_at[of m h "[]" ns] assms by (simp add: eh_llist_for_each_safe_def)

subsection \<open>Histories\<close>

text \<open>Sequences of operations, with a result each, on states and on the values they represent.\<close>

primrec run_ops :: "('op \<Rightarrow> 's \<Rightarrow> ('r \<times> 's) option) \<Rightarrow> 'op list \<Rightarrow> 's \<Rightarrow> ('r list \<times> 's) option" where
  "run_ops step [] s = Some ([], s)"
| "run_ops step (op # ops) s =
     (case step op s of None \<Rightarrow> None
      | Some (r, s) \<Rightarrow> (case run_ops step ops s of None \<Rightarrow> None | Some (rs, s) \<Rightarrow> Some (r # rs, s)))"

primrec run_spec :: "('op \<Rightarrow> 'v \<Rightarrow> 'r \<times> 'v) \<Rightarrow> 'op list \<Rightarrow> 'v \<Rightarrow> 'r list \<times> 'v" where
  "run_spec spec [] v = ([], v)"
| "run_spec spec (op # ops) v =
     (let (r, v) = spec op v; (rs, v) = run_spec spec ops v in (r # rs, v))"

primrec run_allowed :: "('op \<Rightarrow> 'v \<Rightarrow> 'r \<times> 'v) \<Rightarrow> ('op \<Rightarrow> 'v \<Rightarrow> bool) \<Rightarrow> 'op list \<Rightarrow> 'v \<Rightarrow> bool" where
  "run_allowed spec allowed [] v \<longleftrightarrow> True"
| "run_allowed spec allowed (op # ops) v \<longleftrightarrow> allowed op v \<and> run_allowed spec allowed ops (snd (spec op v))"

text \<open>
  A component whose states \<open>rep\<close>resent values, and whose operations do to the value what \<open>spec\<close> says: then
  so do all sequences of allowed operations, with the same results.
\<close>

locale simulated =
  fixes rep :: "'s \<Rightarrow> 'v \<Rightarrow> bool"
    and step :: "'op \<Rightarrow> 's \<Rightarrow> ('r \<times> 's) option"
    and spec :: "'op \<Rightarrow> 'v \<Rightarrow> 'r \<times> 'v"
    and allowed :: "'op \<Rightarrow> 'v \<Rightarrow> bool"
  assumes step_ok: "rep s v \<Longrightarrow> allowed op v \<Longrightarrow> \<exists>s'. step op s = Some (fst (spec op v), s') \<and> rep s' (snd (spec op v))"
begin

lemma history:
  assumes "rep s v" "run_allowed spec allowed ops v"
  shows "\<exists>s'. run_ops step ops s = Some (fst (run_spec spec ops v), s') \<and> rep s' (snd (run_spec spec ops v))"
  using assms
proof (induction ops arbitrary: s v)
  case (Cons op ops)
  obtain s1 where s1: "step op s = Some (fst (spec op v), s1)" "rep s1 (snd (spec op v))"
    using step_ok[OF Cons.prems(1)] Cons.prems(2) by auto
  then show ?case using Cons.IH[OF s1(2)] Cons.prems(2) by (auto simp: Let_def split_beta)
qed simp

end

text \<open>The operations on the list of one head, and what they do to a HOL list.\<close>

datatype llist_op = Push ptr | Enqueue ptr | Insert ptr ptr | Pop | Dequeue | Remove "ptr \<Rightarrow> bool" | Iterate

fun llist_do :: "ptr \<Rightarrow> llist_op \<Rightarrow> llmem \<Rightarrow> (ptr list \<times> llmem) option" where
  "llist_do h (Push n) m = Some ([], eh_llist_push n h m)"
| "llist_do h (Enqueue n) m = Some ([], eh_llist_enqueue n h m)"
| "llist_do h (Insert p n) m = Some ([], eh_llist_insert p n h m)"
| "llist_do h Pop m = (let (n, m) = eh_llist_pop h m in Some (if n = NULL then [] else [n], m))"
| "llist_do h Dequeue m = (let (n, m) = eh_llist_dequeue h m in Some (if n = NULL then [] else [n], m))"
| "llist_do h (Remove P) m = eh_llist_for_each_safe (remove_body h P) h [] m"
| "llist_do h Iterate m = map_option (\<lambda>ns. (ns, m)) (eh_llist_for_each h m)"

fun list_do :: "ptr \<Rightarrow> llist_op \<Rightarrow> ptr list \<Rightarrow> ptr list \<times> ptr list" where
  "list_do h (Push n) ns = ([], n # ns)"
| "list_do h (Enqueue n) ns = ([], ns @ [n])"
| "list_do h (Insert p n) ns =
     ([], if p = h then n # ns else takeWhile (\<lambda>q. q \<noteq> p) ns @ p # n # tl (dropWhile (\<lambda>q. q \<noteq> p) ns))"
| "list_do h Pop ns = (case ns of [] \<Rightarrow> [] | n # _ \<Rightarrow> [n], tl ns)"
| "list_do h Dequeue ns = (case ns of [] \<Rightarrow> [] | n # _ \<Rightarrow> [n], tl ns)"
| "list_do h (Remove P) ns = (filter P ns, filter (\<lambda>n. \<not> P n) ns)"
| "list_do h Iterate ns = (ns, ns)"

text \<open>A node that is added belongs to the memory of the list (\<open>F\<close>) and is not on it.\<close>

fun list_allows :: "ptr \<Rightarrow> ptr set \<Rightarrow> llist_op \<Rightarrow> ptr list \<Rightarrow> bool" where
  "list_allows h F (Push n) ns \<longleftrightarrow> n \<in> F \<and> n \<noteq> NULL \<and> n \<notin> set (h # ns)"
| "list_allows h F (Enqueue n) ns \<longleftrightarrow> n \<in> F \<and> n \<noteq> NULL \<and> n \<notin> set (h # ns)"
| "list_allows h F (Insert p n) ns \<longleftrightarrow> p \<in> set (h # ns) \<and> n \<in> F \<and> n \<noteq> NULL \<and> n \<notin> set (h # ns)"
| "list_allows h F op ns \<longleftrightarrow> True"

text \<open>The memory \<open>m\<close> carries the list and agrees with \<open>m0\<close> outside of \<open>F\<close> and the head.\<close>

definition llist_in :: "llmem \<Rightarrow> ptr set \<Rightarrow> ptr \<Rightarrow> llmem \<Rightarrow> ptr list \<Rightarrow> bool" where
  "llist_in m0 F h m ns \<longleftrightarrow> h \<noteq> NULL \<and> llist m h ns \<and> set ns \<subseteq> F
     \<and> (\<forall>q. q \<notin> insert h F \<longrightarrow> ll_next m q = ll_next m0 q) \<and> (\<forall>q. q \<noteq> h \<longrightarrow> ll_last m q = ll_last m0 q)"

lemma llist_in_step:
  assumes "llist_in m0 F h m ns" "llist m' h ns'" "set ns' \<subseteq> F"
    "\<And>q. q \<notin> insert h F \<Longrightarrow> ll_next m' q = ll_next m q" "\<And>q. q \<noteq> h \<Longrightarrow> ll_last m' q = ll_last m q"
  shows "llist_in m0 F h m' ns'"
  using assms by (simp add: llist_in_def)

lemma list_do_insert:
  assumes "distinct (h # ns)" "p \<in> set (h # ns)"
  shows "\<exists>ks ws. ns = ks @ ws \<and> p = last (h # ks) \<and> snd (list_do h (Insert p n) ns) = ks @ n # ws"
proof (cases "p = h")
  case True
  then show ?thesis by (intro exI[of _ "[]"] exI[of _ ns]) simp
next
  case False
  then obtain xs ys where s: "ns = xs @ p # ys" "p \<notin> set xs" using assms(2) by (auto dest: split_list_first)
  then have "takeWhile (\<lambda>q. q \<noteq> p) ns = xs" "dropWhile (\<lambda>q. q \<noteq> p) ns = p # ys"
    by (auto simp: takeWhile_append dropWhile_append)
  then show ?thesis using False s by (intro exI[of _ "xs @ [p]"] exI[of _ ys]) simp
qed

lemma llist_do_step:
  assumes "llist_in m0 F h m ns" "list_allows h F op ns"
  shows "\<exists>m'. llist_do h op m = Some (fst (list_do h op ns), m') \<and> llist_in m0 F h m' (snd (list_do h op ns))"
proof -
  have l: "llist m h ns" "h \<noteq> NULL" and F: "set ns \<subseteq> F" using assms(1) by (auto simp: llist_in_def)
  have pop: "fst (eh_llist_pop h m) = (case ns of [] \<Rightarrow> NULL | n # _ \<Rightarrow> n)" "llist_in m0 F h (snd (eh_llist_pop h m)) (tl ns)"
  proof -
    show f: "fst (eh_llist_pop h m) = (case ns of [] \<Rightarrow> NULL | n # _ \<Rightarrow> n)" by (rule llist_pop[OF l(1)])
    show "llist_in m0 F h (snd (eh_llist_pop h m)) (tl ns)"
    proof (rule llist_in_step[OF assms(1) llist_pop(2)[OF l(1)]])
      show "set (tl ns) \<subseteq> F" using F by (cases ns) auto
      show "ll_next (snd (eh_llist_pop h m)) q = ll_next m q" if "q \<notin> insert h F" for q
        using that F f by (cases ns) (auto simp: eh_llist_pop_def Let_def llist_del_init_def llist_del_def eh_llist_node_init_def)
      show "ll_last (snd (eh_llist_pop h m)) q = ll_last m q" for q
        by (simp add: eh_llist_pop_def Let_def llist_del_init_def llist_del_def eh_llist_node_init_def)
    qed
  qed
  have n0: "NULL \<notin> set ns" by (rule llist_not_null[OF l(1)])
  show ?thesis
  proof (cases op)
    case (Push n)
    then have n: "n \<in> F" "n \<noteq> NULL" "n \<notin> set (h # ns)" using assms(2) by auto
    have "llist_in m0 F h (eh_llist_push n h m) (n # ns)"
      by (rule llist_in_step[OF assms(1) llist_push[OF l(1) n(3,2)]])
        (use n F in \<open>auto simp: eh_llist_push_def eh_llist_add_def eh_llist_add_batch_def Let_def\<close>)
    then show ?thesis using Push by simp
  next
    case (Enqueue n)
    then have n: "n \<in> F" "n \<noteq> NULL" "n \<notin> set (h # ns)" using assms(2) by auto
    have e: "ll_next m h \<noteq> NULL \<Longrightarrow> ll_last m h \<in> F"
      using l(1) F llist_at[of m h "[]" ns] by (cases "ns = []") (auto simp: llist_def)
    have "llist_in m0 F h (eh_llist_enqueue n h m) (ns @ [n])"
      by (rule llist_in_step[OF assms(1) llist_enqueue[OF l(1) n(3,2)]])
        (use n F e in \<open>auto simp: eh_llist_enqueue_def eh_llist_add_tail_def eh_llist_add_batch_tail_def eh_llist_empty_def Let_def\<close>)
    then show ?thesis using Enqueue by simp
  next
    case (Insert p n)
    then have n: "n \<in> F" "n \<noteq> NULL" "n \<notin> set (h # ns)" and p: "p \<in> set (h # ns)" using assms(2) by auto
    have "distinct (h # ns)" using l(1) by (simp add: llist_def)
    then obtain ks ws where kw: "ns = ks @ ws" "p = last (h # ks)" "snd (list_do h (Insert p n) ns) = ks @ n # ws"
      using list_do_insert p by blast
    have "llist_in m0 F h (eh_llist_insert p n h m) (ks @ n # ws)"
    proof (rule llist_in_step[OF assms(1) llist_insert[of m h ks ws p n]])
      show "llist m h (ks @ ws)" "p = last (h # ks)" "n \<notin> set (h # ks @ ws)" "n \<noteq> NULL" using l n kw by auto
      show "set (ks @ n # ws) \<subseteq> F" using F n kw by auto
      show "ll_next (eh_llist_insert p n h m) q = ll_next m q" if "q \<notin> insert h F" for q
        using that p n F by (auto simp: eh_llist_insert_def Let_def)
      show "ll_last (eh_llist_insert p n h m) q = ll_last m q" if "q \<noteq> h" for q
        using that by (simp add: eh_llist_insert_def Let_def)
    qed
    then show ?thesis using Insert kw(3) by simp
  next
    case Pop
    then show ?thesis using pop n0 by (cases ns) (auto simp: split_beta)
  next
    case Dequeue
    then show ?thesis using pop n0 by (cases ns) (auto simp: split_beta eh_llist_dequeue_def)
  next
    case (Remove P)
    obtain m' where m': "eh_llist_for_each_safe (remove_body h P) h [] m = Some (filter P ns, m')"
      "llist m' h (filter (\<lambda>n. \<not> P n) ns)" "\<forall>q. q \<notin> set (h # ns) \<longrightarrow> ll_next m' q = ll_next m q"
      "\<forall>q. q \<noteq> h \<longrightarrow> ll_last m' q = ll_last m q" using llist_remove[OF l, of P] by blast
    have "llist_in m0 F h m' (filter (\<lambda>n. \<not> P n) ns)"
      by (rule llist_in_step[OF assms(1) m'(2)]) (use m' F in auto)
    then show ?thesis using Remove m'(1) by simp
  next
    case Iterate
    then show ?thesis using llist_iterate[OF l] assms(1) by simp
  qed
qed

interpretation llq: simulated "llist_in m0 F h" "llist_do h" "list_do h" "list_allows h F" for m0 F h
  by unfold_locales (rule llist_do_step)

text \<open>
  C39. A singly linked list is a list: every sequence of pushing, enqueuing, inserting behind a node, popping, dequeuing,
  deleting nodes during an iteration and iterating, in which nodes are added that are not on it, returns the nodes
  that the sequence returns on a HOL list and ends with that list. So it is a stack and a queue at once,
  also when it runs empty in between. Nothing is written but the head and nodes of the list.
\<close>

theorem llist_refines:
  assumes "llist m h ns" "h \<noteq> NULL" "set ns \<subseteq> F" "run_allowed (list_do h) (list_allows h F) ops ns"
  shows "\<exists>m'. run_ops (llist_do h) ops m = Some (fst (run_spec (list_do h) ops ns), m')
    \<and> llist m' h (snd (run_spec (list_do h) ops ns))
    \<and> (\<forall>q. q \<notin> insert h F \<longrightarrow> ll_next m' q = ll_next m q) \<and> (\<forall>q. q \<noteq> h \<longrightarrow> ll_last m' q = ll_last m q)"
proof -
  have "llist_in m F h m ns" using assms by (simp add: llist_in_def)
  from llq.history[OF this assms(4)] show ?thesis by (auto simp: llist_in_def)
qed

lemma llist_refines_witness:
  "\<exists>m'. run_ops (llist_do 9) [Push 2, Enqueue 3, Insert 2 4, Pop, Remove (\<lambda>n. n = 3), Iterate, Dequeue, Enqueue 2]
      (eh_llist_head_init 9 \<lparr>ll_next = \<lambda>_. 0, ll_last = \<lambda>_. 0\<rparr>) = Some ([[], [], [], [2], [3], [4], [4], []], m')
    \<and> llist m' 9 [2]"
  using llist_refines[OF llist_init[of 9 "\<lparr>ll_next = \<lambda>_. 0, ll_last = \<lambda>_. 0\<rparr>"], where F = "{2, 3, 4}"
    and ops = "[Push 2, Enqueue 3, Insert 2 4, Pop, Remove (\<lambda>n. n = 3), Iterate, Dequeue, Enqueue 2]"]
  by auto

end
