(* ===== verification/Eh_Module.thy ===== *)
theory Eh_Module
  imports Eh_Core
begin

text \<open>
  Starting and stopping: the table of modules of \<^verbatim>\<open>include/eh_module.h\<close> and the functions of \<^verbatim>\<open>eh_core.c\<close>
  that run it. What the modules do is an argument: each is a pair of functions on a state of any type,
  which the kernel state is an instance of. The linker sorts the table by level; it is an argument too.
\<close>

subsection \<open>The table of modules\<close>

record 's eh_module =
  m_init :: "('s \<Rightarrow> int \<times> 's) option"
  m_exit :: "('s \<Rightarrow> 's) option"

text \<open>The exit functions of modules, in the order given.\<close>

primrec exit_modules :: "'s eh_module list \<Rightarrow> 's \<Rightarrow> 's" where
  "exit_modules [] s = s"
| "exit_modules (m # ms) s = exit_modules ms (case m_exit m of None \<Rightarrow> s | Some f \<Rightarrow> f s)"

text \<open>The loop of \<open>module_group_init\<close>: \<open>prior\<close> are the modules of smaller index, the nearest first.\<close>

primrec init_modules :: "'s eh_module list \<Rightarrow> 's eh_module list \<Rightarrow> int \<Rightarrow> 's \<Rightarrow> int \<times> 's" where
  "init_modules prior [] ret s = (ret, s)"
| "init_modules prior (m # ms) ret s =
     (case m_init m of
        None \<Rightarrow> init_modules (m # prior) ms ret s
      | Some f \<Rightarrow>
          (let (ret, s) = f s
           in if ret < 0 then (ret, exit_modules prior s) else init_modules (m # prior) ms ret s))"

definition module_group_init :: "'s eh_module list \<Rightarrow> 's \<Rightarrow> int \<times> 's" where
  "module_group_init ms s = init_modules [] ms 0 s"

definition module_group_exit :: "'s eh_module list \<Rightarrow> 's \<Rightarrow> 's" where
  "module_group_exit ms s = exit_modules (rev ms) s"

subsection \<open>The kernel\<close>

text \<open>
  \<open>section_init\<close> is the result of \<open>eh_module_section_init\<close>. When it fails, \<open>interior_init\<close> returns before
  it reads the table, which stays empty. \<open>eh_global_init\<close> does not look at that.
\<close>

definition module_table :: "int \<Rightarrow> 's eh_module list \<Rightarrow> 's eh_module list" where
  "module_table section_init ms = (if section_init < 0 then [] else ms)"

definition eh_global_init :: "int \<Rightarrow> kernel eh_module list \<Rightarrow> kernel \<Rightarrow> int \<times> kernel" where
  "eh_global_init section_init ms k = module_group_init (module_table section_init ms) (interior_init k)"

definition eh_global_exit :: "hooks \<Rightarrow> kernel eh_module list \<Rightarrow> kernel \<Rightarrow> kernel" where
  "eh_global_exit h ms k = module_group_exit ms (kernel_clear h k)"

definition main_task_exit :: "hooks \<Rightarrow> ptr \<Rightarrow> kernel \<Rightarrow> kernel" where
  "main_task_exit h m k = (if t_system_data (tasks k m) \<noteq> NULL \<and> t_destruct (tasks k m) \<noteq> NULL then h_destruct h (t_destruct (tasks k m)) m k else k)"

definition main_task_module :: "hooks \<Rightarrow> ptr \<Rightarrow> kernel eh_module" where
  "main_task_module h m = \<lparr>m_init = Some (\<lambda>k. (0, main_task_init m k)), m_exit = Some (main_task_exit h m)\<rparr>"

subsection \<open>What starting does\<close>

definition start :: "'s eh_module \<Rightarrow> 's \<Rightarrow> int \<times> 's" where
  "start m s = (case m_init m of None \<Rightarrow> (0, s) | Some f \<Rightarrow> f s)"

definition stop :: "'s eh_module \<Rightarrow> 's \<Rightarrow> 's" where
  "stop m s = (case m_exit m of None \<Rightarrow> s | Some f \<Rightarrow> f s)"

text \<open>The state after starting modules that all succeed.\<close>

primrec started :: "'s eh_module list \<Rightarrow> 's \<Rightarrow> 's" where
  "started [] s = s"
| "started (m # ms) s = started ms (snd (start m s))"

primrec all_start :: "'s eh_module list \<Rightarrow> 's \<Rightarrow> bool" where
  "all_start [] s \<longleftrightarrow> True"
| "all_start (m # ms) s \<longleftrightarrow> 0 \<le> fst (start m s) \<and> all_start ms (snd (start m s))"

text \<open>The exit function of a module takes back its initialisation, and one that fails has done nothing.\<close>

definition undoes :: "'s eh_module \<Rightarrow> bool" where
  "undoes m \<longleftrightarrow> (\<forall>s. if fst (start m s) < 0 then snd (start m s) = s else stop m (snd (start m s)) = s)"

lemma exit_modules_simps [simp]: "exit_modules (m # ms) s = exit_modules ms (stop m s)"
  by (simp add: stop_def)

lemma init_modules_step: "init_modules prior (m # ms) ret s =
    (if fst (start m s) < 0 then (fst (start m s), exit_modules prior (snd (start m s)))
     else init_modules (m # prior) ms (case m_init m of None \<Rightarrow> ret | Some f \<Rightarrow> fst (start m s)) (snd (start m s)))"
  by (simp add: start_def Let_def split_beta split: option.split)

declare exit_modules.simps(2) [simp del] init_modules.simps(2) [simp del]

lemma init_modules_cases:
  assumes "0 \<le> ret"
  shows "if all_start ms s then snd (init_modules prior ms ret s) = started ms s \<and> 0 \<le> fst (init_modules prior ms ret s)
    else (\<exists>ok m after. ms = ok @ m # after \<and> all_start ok s \<and> fst (start m (started ok s)) < 0
      \<and> init_modules prior ms ret s
        = (fst (start m (started ok s)), exit_modules (rev ok @ prior) (snd (start m (started ok s)))))"
  using assms
proof (induction ms arbitrary: prior ret s)
  case (Cons m ms)
  obtain r s1 where st: "start m s = (r, s1)" by fastforce
  show ?case
  proof (cases "r < 0")
    case True
    have "m # ms = [] @ m # ms" "all_start [] s" "fst (start m (started [] s)) < 0"
      "init_modules prior (m # ms) ret s = (fst (start m (started [] s)), exit_modules (rev [] @ prior) (snd (start m (started [] s))))"
      using st True by (simp_all add: init_modules_step)
    moreover have "\<not> all_start (m # ms) s" using st True by simp
    ultimately show ?thesis by (simp only: if_False) blast
  next
    case False
    then obtain ret' where e: "init_modules prior (m # ms) ret s = init_modules (m # prior) ms ret' s1" "0 \<le> ret'"
      using st Cons.prems by (auto simp: init_modules_step split: option.split)
    show ?thesis
    proof (cases "all_start ms s1")
      case True
      then show ?thesis using Cons.IH[OF e(2), of s1 "m # prior"] e(1) st False by simp
    next
      case no: False
      then obtain ok m' after where i: "ms = ok @ m' # after" "all_start ok s1" "fst (start m' (started ok s1)) < 0"
        "init_modules (m # prior) ms ret' s1
          = (fst (start m' (started ok s1)), exit_modules (rev ok @ m # prior) (snd (start m' (started ok s1))))"
        using Cons.IH[OF e(2), of s1 "m # prior"] by auto
      have "m # ms = (m # ok) @ m' # after" "all_start (m # ok) s" "fst (start m' (started (m # ok) s)) < 0"
        "init_modules prior (m # ms) ret s
          = (fst (start m' (started (m # ok) s)), exit_modules (rev (m # ok) @ prior) (snd (start m' (started (m # ok) s))))"
        using i e(1) st False by simp_all
      moreover have "\<not> all_start (m # ms) s" using no st by simp
      ultimately show ?thesis by (simp only: if_False) blast
    qed
  qed
qed simp

lemma exit_undoes:
  assumes "\<forall>m\<in>set ms. undoes m" "all_start ms s"
  shows "exit_modules (rev ms) (started ms s) = s"
  using assms
proof (induction ms arbitrary: s rule: rev_induct)
  case (snoc m ms)
  have split: "started (ms @ [m]) s = snd (start m (started ms s))" "all_start (ms @ [m]) s \<longleftrightarrow> all_start ms s \<and> 0 \<le> fst (start m (started ms s))"
    for s by (induction ms arbitrary: s) auto
  then have "stop m (snd (start m (started ms s))) = started ms s" using snoc.prems by (simp add: undoes_def)
  then show ?case using snoc split by simp
qed simp


text \<open>Modules that push a number and pop it; the last one fails when the number 2 is there.\<close>

definition demo_module :: "nat \<Rightarrow> nat list eh_module" where
  "demo_module n = \<lparr>m_init = Some (\<lambda>s. if 2 \<in> set s then (-7, s) else (0, n # s)), m_exit = Some tl\<rparr>"


text \<open>When the section of modules cannot be read, nothing is started and yet no error returned.\<close>

lemma global_init_unread: "section_init < 0 \<Longrightarrow> eh_global_init section_init ms k = (0, interior_init k)"
  by (simp add: eh_global_init_def module_table_def module_group_init_def)

end
