(* ===== verification/Eh_Signal.thy ===== *)
theory Eh_Signal
  imports Eh_Event_Cb Eh_Timer Eh_Clock Eh_Module
begin

text \<open>
  Signals (\<^verbatim>\<open>include/eh_signal.h\<close>): names for events with callbacks. A signal is a structure around an
  event, at the address of the event. The component timers (\<^verbatim>\<open>components/eh_comp_timer.c\<close>) are three
  signals around periodic timers.
\<close>

subsection \<open>Signals and slots\<close>

definition eh_signal_init :: "ptr \<Rightarrow> kernel \<Rightarrow> kernel" where
  "eh_signal_init signal k = snd (eh_event_init signal k)"

definition eh_signal_to_custom_event :: "ptr \<Rightarrow> ptr" where
  "eh_signal_to_custom_event signal = signal"

definition eh_signal_from_event :: "ptr \<Rightarrow> ptr" where
  "eh_signal_from_event e = e"

definition eh_signal_slot_init :: "ptr \<Rightarrow> ptr \<Rightarrow> ptr \<Rightarrow> cb_state \<Rightarrow> cb_state" where
  "eh_signal_slot_init slot fn param c = eh_event_cb_slot_init slot fn param c"

definition eh_signal_slot_connect_to_task ::
  "ptr option \<Rightarrow> ptr option \<Rightarrow> ptr option \<Rightarrow> ptr option \<Rightarrow> bool \<Rightarrow> ptr \<Rightarrow> ptr \<Rightarrow> ptr \<Rightarrow> cb_state \<Rightarrow> (int \<times> cb_state) option" where
  "eh_signal_slot_connect_to_task mem_ep mem_own mem_node mem_tr on_list signal slot t c =
     eh_event_cb_connect mem_ep mem_own mem_node mem_tr on_list signal slot t c"

definition eh_signal_slot_connect ::
  "ptr option \<Rightarrow> ptr option \<Rightarrow> ptr option \<Rightarrow> ptr option \<Rightarrow> bool \<Rightarrow> ptr \<Rightarrow> ptr \<Rightarrow> cb_state \<Rightarrow> (int \<times> cb_state) option" where
  "eh_signal_slot_connect mem_ep mem_own mem_node mem_tr on_list signal slot c =
     eh_event_cb_connect mem_ep mem_own mem_node mem_tr on_list signal slot (eh_task_self (cb_kernel c)) c"

definition eh_signal_slot_connect_to_main ::
  "ptr option \<Rightarrow> ptr option \<Rightarrow> ptr option \<Rightarrow> ptr option \<Rightarrow> bool \<Rightarrow> ptr \<Rightarrow> ptr \<Rightarrow> cb_state \<Rightarrow> (int \<times> cb_state) option" where
  "eh_signal_slot_connect_to_main mem_ep mem_own mem_node mem_tr on_list signal slot c =
     eh_event_cb_connect mem_ep mem_own mem_node mem_tr on_list signal slot (eh_task_main (cb_kernel c)) c"

definition eh_signal_slot_disconnect :: "bool \<Rightarrow> ptr \<Rightarrow> ptr \<Rightarrow> cb_state \<Rightarrow> cb_state option" where
  "eh_signal_slot_disconnect on_list signal slot c = eh_event_cb_disconnect on_list signal slot c"

definition eh_signal_slot_clean :: "ptr \<Rightarrow> cb_state \<Rightarrow> cb_state option" where
  "eh_signal_slot_clean signal c = eh_event_cb_clean_from_task signal (eh_task_self (cb_kernel c)) c"

definition eh_signal_slot_clean_from_task :: "ptr \<Rightarrow> ptr \<Rightarrow> cb_state \<Rightarrow> cb_state option" where
  "eh_signal_slot_clean_from_task signal t c = eh_event_cb_clean_from_task signal t c"

definition eh_signal_notify :: "ptr \<Rightarrow> kernel \<Rightarrow> int \<times> kernel" where
  "eh_signal_notify signal k = eh_event_notify signal k"

definition eh_signal_dispatch_loop_request_quit :: "kernel \<Rightarrow> kernel" where
  "eh_signal_dispatch_loop_request_quit k = eh_event_loop_request_quit (eh_task_self k) k"

definition eh_signal_dispatch_loop_request_quit_from_task :: "ptr \<Rightarrow> kernel \<Rightarrow> kernel" where
  "eh_signal_dispatch_loop_request_quit_from_task t k = eh_event_loop_request_quit t k"

subsection \<open>Component timers\<close>

text \<open>The configured signals, with their periods in milliseconds, in the order of the code; the results of the calls are not looked at.\<close>

record comp_timers =
  comp_timer_1s :: "ptr option"
  comp_timer_500ms :: "ptr option"
  comp_timer_100ms :: "ptr option"

definition comp_timer_begin :: "u64 \<Rightarrow> u64 \<Rightarrow> ptr option \<Rightarrow> kernel \<Rightarrow> kernel option" where
  "comp_timer_begin cps msec signal k =
     (case signal of
        None \<Rightarrow> Some k
      | Some s \<Rightarrow> do {
          let t = eh_signal_to_custom_event s;
          let (_, k) = eh_timer_advanced_init t (eh_msec_to_clock cps msec) EH_TIMER_ATTR_AUTO_CIRCULATION k;
          (_, k) \<leftarrow> eh_timer_start t k;
          Some k
        })"

definition ehip_comp_timer_init :: "comp_timers \<Rightarrow> u64 \<Rightarrow> kernel \<Rightarrow> (int \<times> kernel) option" where
  "ehip_comp_timer_init cfg cps k =
     do {
       k \<leftarrow> comp_timer_begin cps (1000 * 1) (comp_timer_1s cfg) k;
       k \<leftarrow> comp_timer_begin cps (100 * 5) (comp_timer_500ms cfg) k;
       k \<leftarrow> comp_timer_begin cps (100 * 1) (comp_timer_100ms cfg) k;
       Some (0, k)
     }"

definition comp_timer_end :: "ptr option \<Rightarrow> kernel \<Rightarrow> kernel option" where
  "comp_timer_end signal k =
     (case signal of
        None \<Rightarrow> Some k
      | Some s \<Rightarrow> do { (_, k) \<leftarrow> eh_timer_stop (eh_signal_to_custom_event s) k; Some k })"

definition ehip_comp_timer_exit :: "comp_timers \<Rightarrow> kernel \<Rightarrow> kernel option" where
  "ehip_comp_timer_exit cfg k =
     do {
       k \<leftarrow> comp_timer_end (comp_timer_100ms cfg) k;
       k \<leftarrow> comp_timer_end (comp_timer_500ms cfg) k;
       comp_timer_end (comp_timer_1s cfg) k
     }"

end
