(* ===== verification/Eh_Swab.thy ===== *)
theory Eh_Swab
  imports Eh_Prelude
begin

text \<open>
  Byte swapping (\<^verbatim>\<open>src/src/include/eh_swab.h\<close>) on a little-endian machine: the macros for
  compilers without the builtin functions, those with them, and the conversions to and from network order. \<open>bytes\<close>
  is a word as it lies in memory. The swaps of \<open>float\<close> and \<open>double\<close> act on their bit patterns.
\<close>

unbundle bit_operations_syntax

definition bytes :: "'a::len word \<Rightarrow> u8 list" where
  "bytes x = map (\<lambda>i. ucast (drop_bit (8 * i) x)) [0..<LENGTH('a) div 8]"

primrec of_bytes :: "u8 list \<Rightarrow> 'a::len word" where
  "of_bytes [] = 0"
| "of_bytes (b # bs) = ucast b OR push_bit 8 (of_bytes bs)"

subsection \<open>The operations\<close>

type_synonym u16 = "16 word"

definition eh_constant_swab16 :: "u16 \<Rightarrow> u16" where
  "eh_constant_swab16 x = push_bit 8 (x AND 0x00ff) OR drop_bit 8 (x AND 0xff00)"

definition eh_constant_swab32 :: "u32 \<Rightarrow> u32" where
  "eh_constant_swab32 x =
     push_bit 24 (x AND 0x000000ff) OR push_bit 8 (x AND 0x0000ff00)
     OR drop_bit 8 (x AND 0x00ff0000) OR drop_bit 24 (x AND 0xff000000)"

definition eh_constant_swab64 :: "u64 \<Rightarrow> u64" where
  "eh_constant_swab64 x =
     push_bit 56 (x AND 0x00000000000000ff) OR push_bit 40 (x AND 0x000000000000ff00)
     OR push_bit 24 (x AND 0x0000000000ff0000) OR push_bit 8 (x AND 0x00000000ff000000)
     OR drop_bit 8 (x AND 0x000000ff00000000) OR drop_bit 24 (x AND 0x0000ff0000000000)
     OR drop_bit 40 (x AND 0x00ff000000000000) OR drop_bit 56 (x AND 0xff00000000000000)"

text \<open>The compiler's functions reverse the bytes.\<close>

definition eh_swab16 :: "u16 \<Rightarrow> u16" where "eh_swab16 x = of_bytes (rev (bytes x))"
definition eh_swab32 :: "u32 \<Rightarrow> u32" where "eh_swab32 x = of_bytes (rev (bytes x))"
definition eh_swab64 :: "u64 \<Rightarrow> u64" where "eh_swab64 x = of_bytes (rev (bytes x))"
definition eh_long_swab :: "u64 \<Rightarrow> u64" where "eh_long_swab x = eh_swab64 x"
definition eh_float_swab :: "u32 \<Rightarrow> u32" where "eh_float_swab x = eh_swab32 x"
definition eh_double_swab :: "u64 \<Rightarrow> u64" where "eh_double_swab x = eh_swab64 x"

text \<open>Objects of other types are swapped byte by byte, with three exclusive ors.\<close>

definition xor_swap :: "nat \<Rightarrow> u8 list \<Rightarrow> u8 list" where
  "xor_swap i p =
     (let j = length p - i - 1;
          p = p[j := p ! j XOR p ! i];
          p = p[i := p ! i XOR p ! j]
      in p[j := p ! j XOR p ! i])"

definition eh_complex_swab :: "u8 list \<Rightarrow> u8 list" where
  "eh_complex_swab p = fold xor_swap [0..<length p div 2] p"

definition eh_cpu_to_be16 :: "u16 \<Rightarrow> u16" where "eh_cpu_to_be16 x = eh_swab16 x"
definition eh_cpu_to_be32 :: "u32 \<Rightarrow> u32" where "eh_cpu_to_be32 x = eh_swab32 x"
definition eh_cpu_to_be64 :: "u64 \<Rightarrow> u64" where "eh_cpu_to_be64 x = eh_swab64 x"
definition eh_cpu_to_le16 :: "u16 \<Rightarrow> u16" where "eh_cpu_to_le16 x = x"
definition eh_cpu_to_le32 :: "u32 \<Rightarrow> u32" where "eh_cpu_to_le32 x = x"
definition eh_cpu_to_le64 :: "u64 \<Rightarrow> u64" where "eh_cpu_to_le64 x = x"
definition eh_be16_to_cpu :: "u16 \<Rightarrow> u16" where "eh_be16_to_cpu x = eh_swab16 x"
definition eh_be32_to_cpu :: "u32 \<Rightarrow> u32" where "eh_be32_to_cpu x = eh_swab32 x"
definition eh_be64_to_cpu :: "u64 \<Rightarrow> u64" where "eh_be64_to_cpu x = eh_swab64 x"
definition eh_le16_to_cpu :: "u16 \<Rightarrow> u16" where "eh_le16_to_cpu x = x"
definition eh_le32_to_cpu :: "u32 \<Rightarrow> u32" where "eh_le32_to_cpu x = x"
definition eh_le64_to_cpu :: "u64 \<Rightarrow> u64" where "eh_le64_to_cpu x = x"
definition eh_ntoh16 :: "u16 \<Rightarrow> u16" where "eh_ntoh16 x = eh_be16_to_cpu x"
definition eh_ntoh32 :: "u32 \<Rightarrow> u32" where "eh_ntoh32 x = eh_be32_to_cpu x"
definition eh_ntoh64 :: "u64 \<Rightarrow> u64" where "eh_ntoh64 x = eh_be64_to_cpu x"
definition eh_hton16 :: "u16 \<Rightarrow> u16" where "eh_hton16 x = eh_cpu_to_be16 x"
definition eh_hton32 :: "u32 \<Rightarrow> u32" where "eh_hton32 x = eh_cpu_to_be32 x"
definition eh_hton64 :: "u64 \<Rightarrow> u64" where "eh_hton64 x = eh_cpu_to_be64 x"

subsection \<open>Words and their bytes\<close>

lemma length_bytes [simp]: "length (bytes (x :: 'a::len word)) = LENGTH('a) div 8"
  by (simp add: bytes_def)

lemma bit_of_bytes: "bit (of_bytes bs :: 'a::len word) n \<longleftrightarrow> n < LENGTH('a) \<and> n < 8 * length bs \<and> bit (bs ! (n div 8)) (n mod 8)"
proof (induction bs arbitrary: n)
  case (Cons b bs)
  show ?case
  proof (cases "n < 8")
    case True
    then show ?thesis by (auto simp: bit_simps)
  next
    case False
    then have "n div 8 = Suc ((n - 8) div 8)" "n mod 8 = (n - 8) mod 8" by (simp_all add: div_if mod_if)
    moreover have "\<not> bit b n" using False bit_imp_le_length[of b n] by auto
    ultimately show ?thesis using False Cons.IH[of "n - 8"] by (auto simp: bit_simps)
  qed
qed simp

lemma bit_bytes: "n < 8 * (LENGTH('a) div 8) \<Longrightarrow> bit (bytes (x :: 'a::len word) ! (n div 8)) (n mod 8) \<longleftrightarrow> bit x n"
  by (simp add: bytes_def bit_simps less_mult_imp_div_less mult.commute)

lemma bytes_of_bytes: "8 * length bs = LENGTH('a) \<Longrightarrow> bytes (of_bytes bs :: 'a::len word) = bs"
proof (rule nth_equalityI)
  assume l: "8 * length bs = LENGTH('a)"
  then show "length (bytes (of_bytes bs :: 'a word)) = length bs" by (simp flip: l)
  fix i
  assume "i < length (bytes (of_bytes bs :: 'a word))"
  then have i: "i < length bs" by (simp flip: l)
  show "bytes (of_bytes bs :: 'a word) ! i = bs ! i"
    using i by (intro bit_word_eqI) (auto simp: bytes_def bit_simps bit_of_bytes simp flip: l)
qed

lemma of_bytes_bytes: "LENGTH('a) mod 8 = 0 \<Longrightarrow> of_bytes (bytes x) = (x :: 'a::len word)"
proof (rule bit_word_eqI)
  fix n
  assume l: "LENGTH('a) mod 8 = 0" and n: "n < LENGTH('a)"
  have "8 * (LENGTH('a) div 8) = LENGTH('a)" using l by (metis mult_div_mod_eq add_0_right)
  then show "bit (of_bytes (bytes x) :: 'a word) n \<longleftrightarrow> bit x n" using n bit_bytes[of n x] by (simp add: bit_of_bytes)
qed

lemma bytes_inj: "LENGTH('a) mod 8 = 0 \<Longrightarrow> bytes x = bytes (y :: 'a::len word) \<Longrightarrow> x = y"
  by (metis of_bytes_bytes)

lemma bytes_swab:
  "bytes (eh_swab16 x) = rev (bytes x)" "bytes (eh_swab32 y) = rev (bytes y)" "bytes (eh_swab64 z) = rev (bytes z)"
  by (simp_all add: eh_swab16_def eh_swab32_def eh_swab64_def bytes_of_bytes)

lemma swab_swab: "eh_swab16 (eh_swab16 x) = x" "eh_swab32 (eh_swab32 y) = y" "eh_swab64 (eh_swab64 z) = z"
  by (rule bytes_inj; simp add: bytes_swab)+

lemma upt_bytes: "[0..<2] = [0, 1 :: nat]" "[0..<4] = [0, 1, 2, 3 :: nat]" "[0..<8] = [0, 1, 2, 3, 4, 5, 6, 7 :: nat]"
  by (simp_all add: upt_rec)

lemma masks: "0xff = (mask 8 :: 'a::len word)" "0xff00 = push_bit 8 (mask 8 :: 'a word)"
  "0xff0000 = push_bit 16 (mask 8 :: 'a word)" "0xff000000 = push_bit 24 (mask 8 :: 'a word)"
  "0xff00000000 = push_bit 32 (mask 8 :: 'a word)" "0xff0000000000 = push_bit 40 (mask 8 :: 'a word)"
  "0xff000000000000 = push_bit 48 (mask 8 :: 'a word)" "0xff00000000000000 = push_bit 56 (mask 8 :: 'a word)"
  by (simp_all add: mask_eq_exp_minus_1 push_bit_eq_mult)

lemma constant_swab16: "eh_constant_swab16 x = eh_swab16 x"
  by (rule bit_word_eqI)
    (auto simp: eh_constant_swab16_def eh_swab16_def masks bit_of_bytes bytes_def upt_bytes bit_simps div_if mod_if)

lemma constant_swab32_byte:
  assumes "i < 4"
  shows "ucast (drop_bit (8 * i) (eh_constant_swab32 x)) = (ucast (drop_bit (24 - 8 * i) x) :: u8)"
proof (rule bit_word_eqI)
  fix n
  assume "n < LENGTH(8)"
  then have n: "n < 8" by simp
  have "i \<in> {0, 1, 2, 3}" using assms by auto
  then show "bit (ucast (drop_bit (8 * i) (eh_constant_swab32 x)) :: u8) n \<longleftrightarrow> bit (ucast (drop_bit (24 - 8 * i) x) :: u8) n"
    using n unfolding eh_constant_swab32_def masks by (elim insertE emptyE) (simp_all add: bit_simps)
qed

lemma constant_swab32: "eh_constant_swab32 x = eh_swab32 x"
proof (rule bytes_inj)
  have "bytes (eh_constant_swab32 x) = rev (bytes x)"
    by (rule nth_equalityI) (auto simp: bytes_def rev_nth constant_swab32_byte diff_mult_distrib2)
  then show "bytes (eh_constant_swab32 x) = bytes (eh_swab32 x)" by (simp add: bytes_swab)
qed simp

lemma constant_swab64_byte:
  assumes "i < 8"
  shows "ucast (drop_bit (8 * i) (eh_constant_swab64 x)) = (ucast (drop_bit (56 - 8 * i) x) :: u8)"
proof (rule bit_word_eqI)
  fix n
  assume "n < LENGTH(8)"
  then have n: "n < 8" by simp
  have "i \<in> {0, 1, 2, 3, 4, 5, 6, 7}" using assms by auto
  then show "bit (ucast (drop_bit (8 * i) (eh_constant_swab64 x)) :: u8) n \<longleftrightarrow> bit (ucast (drop_bit (56 - 8 * i) x) :: u8) n"
    using n unfolding eh_constant_swab64_def masks by (elim insertE emptyE) (simp_all add: bit_simps)
qed

lemma constant_swab64: "eh_constant_swab64 x = eh_swab64 x"
proof (rule bytes_inj)
  have "bytes (eh_constant_swab64 x) = rev (bytes x)"
    by (rule nth_equalityI) (auto simp: bytes_def rev_nth constant_swab64_byte diff_mult_distrib2)
  then show "bytes (eh_constant_swab64 x) = bytes (eh_swab64 x)" by (simp add: bytes_swab)
qed simp

subsection \<open>Swapping in place\<close>

lemma length_xor_swap [simp]: "length (xor_swap i p) = length p"
  by (simp add: xor_swap_def Let_def)

lemma xor_swap_nth:
  assumes "i < length p div 2" "k < length p"
  shows "xor_swap i p ! k = (if k = i then p ! (length p - i - 1) else if k = length p - i - 1 then p ! i else p ! k)"
  using assms by (auto simp: xor_swap_def Let_def nth_list_update xor.assoc xor.commute xor.left_commute)

lemma fold_xor_swap:
  assumes "n \<le> length p div 2"
  shows "length (fold xor_swap [0..<n] p) = length p \<and>
    (\<forall>k<length p. fold xor_swap [0..<n] p ! k = (if k < n \<or> length p - n \<le> k then p ! (length p - k - 1) else p ! k))"
  using assms
proof (induction n)
  case (Suc n)
  let ?q = "fold xor_swap [0..<n] p"
  have q: "length ?q = length p" "\<And>k. k < length p \<Longrightarrow> ?q ! k = (if k < n \<or> length p - n \<le> k then p ! (length p - k - 1) else p ! k)"
    using Suc by auto
  have "xor_swap n ?q ! k = (if k < Suc n \<or> length p - Suc n \<le> k then p ! (length p - k - 1) else p ! k)" if "k < length p" for k
    using that Suc.prems by (auto simp: xor_swap_nth q)
  then show ?case using q(1) by simp
qed simp

lemma complex_swab_rev: "eh_complex_swab p = rev p"
proof (rule nth_equalityI)
  have l: "length (eh_complex_swab p) = length p" using fold_xor_swap[of "length p div 2" p] by (simp add: eh_complex_swab_def)
  then show "length (eh_complex_swab p) = length (rev p)" by simp
  fix k
  assume "k < length (eh_complex_swab p)"
  then have k: "k < length p" using l by simp
  have e: "eh_complex_swab p ! k = (if k < length p div 2 \<or> length p - length p div 2 \<le> k then p ! (length p - k - 1) else p ! k)"
    using fold_xor_swap[of "length p div 2" p] k by (simp add: eh_complex_swab_def)
  show "eh_complex_swab p ! k = rev p ! k"
  proof (cases "k < length p div 2 \<or> length p - length p div 2 \<le> k")
    case True
    then show ?thesis using e k by (simp add: rev_nth)
  next
    case False
    then have "length p - k - 1 = k" using k by linarith
    then show ?thesis using False e k by (simp add: rev_nth)
  qed
qed

text \<open>
  The macros for shifting and masking, the compiler's functions and the byte-wise swap agree: each reverses the
  bytes of the word in memory. So a word in network order lies in memory most significant byte
  first, and the conversions to network order and back are the identity.
\<close>

theorem swab_spec:
  "eh_constant_swab16 x = eh_swab16 x \<and> eh_constant_swab32 y = eh_swab32 y \<and> eh_constant_swab64 z = eh_swab64 z
   \<and> bytes (eh_hton16 x) = rev (bytes x) \<and> bytes (eh_hton32 y) = rev (bytes y) \<and> bytes (eh_hton64 z) = rev (bytes z)
   \<and> eh_complex_swab (bytes z) = bytes (eh_swab64 z)
   \<and> eh_ntoh16 (eh_hton16 x) = x \<and> eh_ntoh32 (eh_hton32 y) = y \<and> eh_ntoh64 (eh_hton64 z) = z"
  by (simp add: constant_swab16 constant_swab32 constant_swab64 bytes_swab swab_swab complex_swab_rev
      eh_hton16_def eh_hton32_def eh_hton64_def eh_cpu_to_be16_def eh_cpu_to_be32_def eh_cpu_to_be64_def
      eh_ntoh16_def eh_ntoh32_def eh_ntoh64_def eh_be16_to_cpu_def eh_be32_to_cpu_def eh_be64_to_cpu_def)

end
