(* ===== verification/Eh_Debug.thy ===== *)
theory Eh_Debug
  imports Eh_Formatio_Spec Eh_Clock
begin

text \<open>
  Debug output (\<^verbatim>\<open>src/src/general/eh_debug.c\<close>) on the standard output stream. The state has the level, the
  readings of the clock and the stream. \<open>cps\<close> is the frequency of the clock.
\<close>

unbundle bit_operations_syntax

record debug =
  dbg_level :: nat
  dbg_clock :: "nat \<Rightarrow> u64"
  dbg_reads :: nat
  dbg_out :: stream

definition EH_DBG_ERR :: nat where "EH_DBG_ERR = 1"
definition EH_DBG_WARNING :: nat where "EH_DBG_WARNING = 2"
definition EH_DBG_SYS :: nat where "EH_DBG_SYS = 3"
definition EH_DBG_INFO :: nat where "EH_DBG_INFO = 4"
definition EH_DBG_DEBUG :: nat where "EH_DBG_DEBUG = 5"
definition EH_DBG_FLAGS_MONOTONIC_CLOCK :: u32 where "EH_DBG_FLAGS_MONOTONIC_CLOCK = 0x02"
definition EH_DBG_FLAGS_DEBUG_TAG :: u32 where "EH_DBG_FLAGS_DEBUG_TAG = 0x04"
definition EH_DEBUG_ENTER_SIGN :: string where "EH_DEBUG_ENTER_SIGN = [CHR 0x0D, CHR 0x0A]"

definition eh_dbg_level_str :: "string list" where
  "eh_dbg_level_str = [''UNDEF'', ''ERR'', ''WARN'', ''SYS'', ''INFO'', ''DBG'']"

definition eh_dbg_set_level :: "nat \<Rightarrow> debug \<Rightarrow> int \<times> debug" where
  "eh_dbg_set_level level d = (0, d\<lparr>dbg_level := level\<rparr>)"

text \<open>Printing to the stream of the state.\<close>

definition dbg_print :: "(nat \<Rightarrow> bool) \<Rightarrow> char list \<Rightarrow> va_arg list \<Rightarrow> debug \<Rightarrow> (int \<times> debug) option" where
  "dbg_print alloc fmt args d = map_option (\<lambda>(n, st). (n, d\<lparr>dbg_out := st\<rparr>)) (eh_vprintf alloc fmt args (dbg_out d))"

definition eh_dbg_vprintf ::
  "u64 \<Rightarrow> (nat \<Rightarrow> bool) \<Rightarrow> nat \<Rightarrow> u32 \<Rightarrow> char list \<Rightarrow> va_arg list \<Rightarrow> debug \<Rightarrow> (int \<times> debug) option" where
  "eh_dbg_vprintf cps alloc level flags fmt args d =
     (let now_usec = eh_clock_to_usec cps (dbg_clock d (dbg_reads d));
          d = d\<lparr>dbg_reads := Suc (dbg_reads d)\<rparr>
      in do {
        (n1, d) \<leftarrow>
          (if flags AND EH_DBG_FLAGS_MONOTONIC_CLOCK \<noteq> 0
           then dbg_print alloc ''[%5u.%06u] '' [VInt (ucast (now_usec div 1000000)), VInt (ucast (now_usec mod 1000000))] d
           else Some (0, d));
        (n2, d) \<leftarrow>
          (if flags AND EH_DBG_FLAGS_DEBUG_TAG \<noteq> 0 \<and> EH_DBG_ERR \<le> level \<and> level \<le> EH_DBG_DEBUG
           then dbg_print alloc ''[%4s] '' [VStr (Some (eh_dbg_level_str ! level))] d
           else Some (0, d));
        (n3, d) \<leftarrow> dbg_print alloc fmt args d;
        Some (n1 + n2 + n3, d)
      })"

definition eh_vdbg_raw ::
  "u64 \<Rightarrow> (nat \<Rightarrow> bool) \<Rightarrow> nat \<Rightarrow> u32 \<Rightarrow> char list \<Rightarrow> va_arg list \<Rightarrow> debug \<Rightarrow> (int \<times> debug) option" where
  "eh_vdbg_raw cps alloc level flags fmt args d =
     (if level > dbg_level d then Some (0, d) else eh_dbg_vprintf cps alloc level flags fmt args d)"

definition eh_dbg_raw ::
  "u64 \<Rightarrow> (nat \<Rightarrow> bool) \<Rightarrow> nat \<Rightarrow> u32 \<Rightarrow> char list \<Rightarrow> va_arg list \<Rightarrow> debug \<Rightarrow> (int \<times> debug) option" where
  "eh_dbg_raw cps alloc level flags fmt args d =
     (if level > dbg_level d then Some (0, d) else eh_dbg_vprintf cps alloc level flags fmt args d)"

text \<open>
  A hexadecimal dump. The rows of sixteen bytes pass the number of bytes as an \<open>int\<close>, as \<open>*\<close> reads it; the last, shorter
  row passes it as a \<open>size_t\<close>, which has no defined result.
\<close>

definition hex_row_format :: "char list" where
  "hex_row_format = ''|0x%08x| %-47.*hhq||'' @ EH_DEBUG_ENTER_SIGN"

primrec hex_rows ::
  "u64 \<Rightarrow> (nat \<Rightarrow> bool) \<Rightarrow> nat \<Rightarrow> u32 \<Rightarrow> u8 list \<Rightarrow> nat \<Rightarrow> nat \<Rightarrow> debug \<Rightarrow> (int \<times> debug) option" where
  "hex_rows cps alloc level flags buf i 0 d = Some (0, d)"
| "hex_rows cps alloc level flags buf i (Suc rows) d =
     do {
       (n, d) \<leftarrow> eh_dbg_raw cps alloc level flags hex_row_format
                   [VInt (word_of_nat (i * 16)), VInt 16, VBytes (drop (i * 16) buf)] d;
       (m, d) \<leftarrow> hex_rows cps alloc level flags buf (Suc i) rows d;
       Some (n + m, d)
     }"

definition eh_dbg_hex :: "u64 \<Rightarrow> (nat \<Rightarrow> bool) \<Rightarrow> nat \<Rightarrow> u32 \<Rightarrow> u8 list \<Rightarrow> debug \<Rightarrow> (int \<times> debug) option" where
  "eh_dbg_hex cps alloc level flags buf d =
     (if level > dbg_level d then Some (0, d)
      else
        (let y_n = length buf div 16;
             x_n = length buf mod 16;
             line = (\<lambda>s d. eh_dbg_raw cps alloc level flags (s @ EH_DEBUG_ENTER_SIGN) [] d)
         in do {
           (n1, d) \<leftarrow> line (replicate 62 CHR ''_'') d;
           (n2, d) \<leftarrow> line ''            | 0| 1| 2| 3| 4| 5| 6| 7| 8| 9| A| B| C| D| E| F||'' d;
           (n3, d) \<leftarrow> line (replicate 62 CHR ''-'') d;
           (n4, d) \<leftarrow> hex_rows cps alloc level flags buf 0 y_n d;
           (n5, d) \<leftarrow> (if x_n \<noteq> 0
                      then eh_dbg_raw cps alloc level flags hex_row_format
                             [VInt (word_of_nat (y_n * 16)), VLong (word_of_nat x_n), VBytes (drop (y_n * 16) buf)] d
                      else Some (0, d));
           (n6, d) \<leftarrow> line (replicate 62 CHR ''-'') d;
           Some (n1 + n2 + n3 + n4 + n5 + n6, d)
         }))"

end
