(* ===== verification/Eh_Machine.thy ===== *)
theory Eh_Machine
  imports Eh_Prelude
begin

text \<open>
  The memory of a little-endian machine as the context switches see it: bytes at addresses of \<open>'a\<close> bits, and the loads
  and stores of words of several lengths. Lengths are below 2^28 bytes and addresses have 32 bits or more.
\<close>

type_synonym 'a memory = "'a word \<Rightarrow> u8"

primrec mem_load :: "nat \<Rightarrow> 'a::len word \<Rightarrow> 'a memory \<Rightarrow> 'b::len word" where
  "mem_load 0 a m = 0"
| "mem_load (Suc n) a m = ucast (m a) OR push_bit 8 (mem_load n (a + 1) m)"

definition mem_store :: "nat \<Rightarrow> 'a::len word \<Rightarrow> 'b::len word \<Rightarrow> 'a memory \<Rightarrow> 'a memory" where
  "mem_store n a v m = (\<lambda>x. if unat (x - a) < n then ucast (drop_bit (8 * unat (x - a)) v) else m x)"

text \<open>The \<open>n\<close> bytes from \<open>a\<close> on.\<close>

definition region :: "'a::len word \<Rightarrow> nat \<Rightarrow> 'a word set" where
  "region a n = {x. unat (x - a) < n}"

lemma bit_mem_load:
  "bit (mem_load n a m :: 'b::len word) j \<longleftrightarrow> j < LENGTH('b) \<and> j < 8 * n \<and> bit (m (a + of_nat (j div 8))) (j mod 8)"
proof (induction n arbitrary: a j)
  case (Suc n)
  show ?case
  proof (cases "j < 8")
    case True
    then show ?thesis by (auto simp: bit_simps)
  next
    case False
    then obtain i where i: "j = i + 8" using le_iff_add by (metis add.commute not_less)
    have "\<not> bit (m a) j" using False bit_imp_le_length[of "m a" j] by auto
    moreover have "(i + 8) div 8 = Suc (i div 8)" by simp
    ultimately show ?thesis using Suc[of "a + 1" i] by (auto simp: bit_simps i add.assoc)
  qed
qed simp

lemma unat_of_nat_small: "i < 2 ^ 32 \<Longrightarrow> 32 \<le> LENGTH('a) \<Longrightarrow> unat (of_nat i :: 'a::len word) = i"
proof -
  assume "i < 2 ^ 32" "32 \<le> LENGTH('a)"
  then have "i < 2 ^ LENGTH('a)" by (meson less_le_trans one_le_numeral power_increasing)
  then show ?thesis by (simp add: unat_of_nat take_bit_nat_eq_self)
qed

lemma mem_load_cong:
  assumes "\<And>i. i < n \<Longrightarrow> m' (a + of_nat i) = m (a + of_nat i)"
  shows "mem_load n a m' = mem_load n a m"
  by (rule bit_word_eqI) (use assms in \<open>auto simp: bit_mem_load\<close>)

lemma mem_load_region:
  fixes a :: "'a::len word"
  assumes "\<forall>x\<in>region a n. m' x = m x" "n < 2 ^ 28" "32 \<le> LENGTH('a)"
  shows "mem_load n a m' = mem_load n a m"
proof (rule mem_load_cong)
  fix i assume "i < n"
  moreover from this have "unat (of_nat i :: 'a word) = i" using assms(2,3) by (intro unat_of_nat_small) simp_all
  ultimately show "m' (a + of_nat i) = m (a + of_nat i)" using assms(1) by (simp add: region_def)
qed

lemma load_store_same:
  fixes v :: "'b::len word" and a :: "'a::len word"
  assumes "LENGTH('b) \<le> 8 * n" "n < 2 ^ 28" "32 \<le> LENGTH('a)"
  shows "mem_load n a (mem_store n a v m) = v"
proof (rule bit_word_eqI)
  fix j assume j: "j < LENGTH('b)"
  then have d: "j div 8 < n" "j < 8 * n" using assms(1) by auto
  have "unat (of_nat (j div 8) :: 'a word) = j div 8" by (rule unat_of_nat_small) (use d assms(2,3) in simp_all)
  then show "bit (mem_load n a (mem_store n a v m) :: 'b word) j = bit v j"
    using j d by (simp add: bit_mem_load mem_store_def bit_simps)
qed

lemma unat_uminus: "d \<noteq> 0 \<Longrightarrow> unat (- d :: 'a::len word) + unat d = 2 ^ LENGTH('a)"
proof -
  assume "d \<noteq> 0"
  then have "uint d \<noteq> 0" "uint d < 2 ^ LENGTH('a)" "0 \<le> uint d" using uint_lt2p[of d] by (simp_all add: uint_0_iff)
  then have "uint (- d) = 2 ^ LENGTH('a) - uint d" by (simp add: uint_word_ariths(4) zmod_zminus1_eq_if)
  then have "int (unat (- d) + unat d) = int (2 ^ LENGTH('a))" by simp
  then show ?thesis by (simp only: of_nat_eq_iff)
qed

lemma store_outside: "x \<notin> region a n \<Longrightarrow> mem_store n a v m x = m x"
  by (simp add: region_def mem_store_def)

text \<open>Separate places; the distances are taken modulo the address space.\<close>

lemma region_disjoint:
  fixes a b :: "'a::len word"
  assumes "of_nat n \<le> b - a" "of_nat k \<le> a - b" "n < 2 ^ 28" "k < 2 ^ 28" "32 \<le> LENGTH('a)"
  shows "region a n \<inter> region b k = {}"
proof -
  have u: "unat (of_nat n :: 'a word) = n" "unat (of_nat k :: 'a word) = k" using assms(3-5) by (simp_all add: unat_of_nat_small)
  have False if x: "unat (x - a) < n" "unat (x - b) < k" for x
  proof -
    have k: "k \<le> unat (a - b)" "n \<le> unat (b - a)" using assms(1,2) u by (simp_all add: word_le_nat_alt)
    have "unat (x - a) + unat (a - b) < 2 ^ LENGTH('a)"
    proof (cases "a = b")
      case False
      then have "unat (b - a) + unat (a - b) = 2 ^ LENGTH('a)" using unat_uminus[of "a - b"] by simp
      then show ?thesis using k(2) x(1) by linarith
    qed (use x k in simp)
    then have "unat (x - b) = unat (x - a) + unat (a - b)"
      using unat_add_lem[THEN iffD1, of "x - a" "a - b"] by simp
    then show False using k(1) x by simp
  qed
  then show ?thesis by (auto simp: region_def)
qed

lemma load_store_other:
  fixes a b :: "'a::len word"
  assumes "of_nat k \<le> a - b" "of_nat n \<le> b - a" "n < 2 ^ 28" "k < 2 ^ 28" "32 \<le> LENGTH('a)"
  shows "mem_load n a (mem_store k b v m) = mem_load n a m"
  using region_disjoint[OF assms(2,1,3,4,5)] assms(3,5) by (auto intro!: mem_load_region store_outside)

text \<open>\<open>bzero\<close>.\<close>

definition mem_zero :: "nat \<Rightarrow> 'a::len word \<Rightarrow> 'a memory \<Rightarrow> 'a memory" where
  "mem_zero n a m = (\<lambda>x. if x \<in> region a n then 0 else m x)"

lemma zero_outside: "x \<notin> region a n \<Longrightarrow> mem_zero n a m x = m x"
  by (simp add: mem_zero_def)

lemma load_zero:
  fixes a b :: "'a::len word"
  assumes "region b k \<subseteq> region a n" "k < 2 ^ 28" "32 \<le> LENGTH('a)"
  shows "mem_load k b (mem_zero n a m) = 0"
proof -
  have "mem_load k b (mem_zero n a m) = mem_load k b (\<lambda>_. 0)"
    by (rule mem_load_region[OF _ assms(2,3)]) (use assms(1) in \<open>auto simp: mem_zero_def\<close>)
  also have "\<dots> = 0" by (rule bit_word_eqI) (simp add: bit_mem_load)
  finally show ?thesis .
qed

end
