(* ===== verification/Eh_Coroutine.thy ===== *)
theory Eh_Coroutine
  imports Eh_Machine
begin

text \<open>
  The context switches of \<^verbatim>\<open>coroutine/linux-x64\<close>, \<^verbatim>\<open>coroutine/windows-x64\<close> and
  \<^verbatim>\<open>coroutine/macos-arm64\<close>: the assembly of each, instruction by instruction, on a machine with the registers it
  uses. Condition flags are left out, as nothing reads them; \<open>None\<close> is the fault of a misaligned access.
\<close>

subsection \<open>The x86-64 machine\<close>

datatype reg64 = RAX | RBX | RCX | RDX | RSI | RDI | RBP | RSP | R8 | R9 | R12 | R13 | R14 | R15

record x86 =
  gpr :: "reg64 \<Rightarrow> u64"
  xmm :: "nat \<Rightarrow> 128 word"
  mxcsr :: u32
  x87_cw :: u16
  rip :: u64
  x86_mem :: "64 memory"

text \<open>Operands are in the order of the assembler (source, destination); memory operands are displacement and base.\<close>

datatype x86_instr =
    Leaq int reg64 reg64
  | LeaqLabel u64 reg64
  | Movq reg64 reg64
  | MovqStore reg64 int reg64
  | MovqLoad int reg64 reg64
  | Andq int reg64
  | Stmxcsr int reg64
  | Fnstcw int reg64
  | Ldmxcsr int reg64
  | Fldcw int reg64
  | Xorps nat nat
  | MovapsStore nat int reg64
  | MovapsLoad int reg64 nat
  | Pushq reg64
  | Jmp reg64
  | Ret

definition ea :: "int \<Rightarrow> reg64 \<Rightarrow> x86 \<Rightarrow> u64" where
  "ea disp base s = gpr s base + word_of_int disp"

definition set_gpr :: "reg64 \<Rightarrow> u64 \<Rightarrow> x86 \<Rightarrow> x86" where
  "set_gpr r v s = s\<lparr>gpr := (gpr s)(r := v)\<rparr>"

fun x86_exec :: "x86_instr \<Rightarrow> x86 \<Rightarrow> x86 option" where
  "x86_exec (Leaq d b r) s = Some (set_gpr r (ea d b s) s)"
| "x86_exec (LeaqLabel l r) s = Some (set_gpr r l s)"
| "x86_exec (Movq r q) s = Some (set_gpr q (gpr s r) s)"
| "x86_exec (MovqStore r d b) s = Some (s\<lparr>x86_mem := mem_store 8 (ea d b s) (gpr s r) (x86_mem s)\<rparr>)"
| "x86_exec (MovqLoad d b r) s = Some (set_gpr r (mem_load 8 (ea d b s) (x86_mem s)) s)"
| "x86_exec (Andq i r) s = Some (set_gpr r (gpr s r AND word_of_int i) s)"
| "x86_exec (Stmxcsr d b) s = Some (s\<lparr>x86_mem := mem_store 4 (ea d b s) (mxcsr s) (x86_mem s)\<rparr>)"
| "x86_exec (Fnstcw d b) s = Some (s\<lparr>x86_mem := mem_store 2 (ea d b s) (x87_cw s) (x86_mem s)\<rparr>)"
| "x86_exec (Ldmxcsr d b) s = Some (s\<lparr>mxcsr := mem_load 4 (ea d b s) (x86_mem s)\<rparr>)"
| "x86_exec (Fldcw d b) s = Some (s\<lparr>x87_cw := mem_load 2 (ea d b s) (x86_mem s)\<rparr>)"
| "x86_exec (Xorps x y) s = Some (s\<lparr>xmm := (xmm s)(y := xmm s y XOR xmm s x)\<rparr>)"
| "x86_exec (MovapsStore x d b) s =
     (if ea d b s AND 15 \<noteq> 0 then None else Some (s\<lparr>x86_mem := mem_store 16 (ea d b s) (xmm s x) (x86_mem s)\<rparr>))"
| "x86_exec (MovapsLoad d b x) s =
     (if ea d b s AND 15 \<noteq> 0 then None else Some (s\<lparr>xmm := (xmm s)(x := mem_load 16 (ea d b s) (x86_mem s))\<rparr>))"
| "x86_exec (Pushq r) s =
     (let sp = gpr s RSP - 8
      in Some (set_gpr RSP sp (s\<lparr>x86_mem := mem_store 8 sp (gpr s r) (x86_mem s)\<rparr>)))"
| "x86_exec (Jmp r) s = Some (s\<lparr>rip := gpr s r\<rparr>)"
| "x86_exec Ret s = Some (set_gpr RSP (gpr s RSP + 8) (s\<lparr>rip := mem_load 8 (gpr s RSP) (x86_mem s)\<rparr>))"

fun x86_run :: "x86_instr list \<Rightarrow> x86 \<Rightarrow> x86 option" where
  "x86_run [] s = Some s"
| "x86_run (i # is) s = Option.bind (x86_exec i s) (x86_run is)"

subsection \<open>Linux\<close>

definition linux_save_code :: "x86_instr list" where
  "linux_save_code =
     [Leaq (-0x38) RSP RSP,
      Stmxcsr 0 RSP, Fnstcw 0x4 RSP,
      MovqStore R12 0x8 RSP, MovqStore R13 0x10 RSP, MovqStore R14 0x18 RSP, MovqStore R15 0x20 RSP,
      MovqStore RBX 0x28 RSP, MovqStore RBP 0x30 RSP,
      MovqStore RSP 0 RSI]"

definition linux_load_code :: "x86_instr list" where
  "linux_load_code =
     [MovqLoad 0 RDX RSP,
      MovqLoad 0x38 RSP R8,
      Ldmxcsr 0 RSP, Fldcw 0x4 RSP,
      MovqLoad 0x8 RSP R12, MovqLoad 0x10 RSP R13, MovqLoad 0x18 RSP R14, MovqLoad 0x20 RSP R15,
      MovqLoad 0x28 RSP RBX, MovqLoad 0x30 RSP RBP,
      Leaq 0x40 RSP RSP,
      Movq RDI RAX,
      Jmp R8]"

definition linux_swap_code :: "x86_instr list" where
  "linux_swap_code = linux_save_code @ linux_load_code"

definition linux_co_context_swap :: "x86 \<Rightarrow> x86 option" where
  "linux_co_context_swap s = x86_run linux_swap_code s"

text \<open>The addresses of the labels \<open>trampoline\<close> and \<open>finish\<close> are those the linker gives.\<close>

definition linux_co_context_make :: "u64 \<Rightarrow> u64 \<Rightarrow> x86 \<Rightarrow> x86 option" where
  "linux_co_context_make trampoline finish s =
     x86_run
      [Movq RSI RAX,
       Andq (-16) RAX,
       Leaq (-0x40) RAX RAX,
       Stmxcsr 0 RAX, Fnstcw 0x4 RAX,
       LeaqLabel trampoline RCX, MovqStore RCX 0x38 RAX,
       LeaqLabel finish RCX, MovqStore RCX 0x30 RAX,
       MovqStore RDX 0x28 RAX,
       Ret] s"

definition linux_trampoline :: "x86 \<Rightarrow> x86 option" where
  "linux_trampoline s = x86_run [Pushq RBP, Jmp RBX] s"

subsection \<open>Windows\<close>

definition windows_save_code :: "x86_instr list" where
  "windows_save_code =
     [Leaq (-0xE8) RSP RSP,
      MovapsStore 6 0x00 RSP, MovapsStore 7 0x10 RSP, MovapsStore 8 0x20 RSP, MovapsStore 9 0x30 RSP, MovapsStore 10 0x40 RSP,
      MovapsStore 11 0x50 RSP, MovapsStore 12 0x60 RSP, MovapsStore 13 0x70 RSP, MovapsStore 14 0x80 RSP, MovapsStore 15 0x90 RSP,
      Stmxcsr 0xA0 RSP, Fnstcw 0xA4 RSP,
      MovqStore R12 0xA8 RSP, MovqStore R13 0xB0 RSP, MovqStore R14 0xB8 RSP, MovqStore R15 0xC0 RSP,
      MovqStore RBX 0xC8 RSP, MovqStore RBP 0xD0 RSP, MovqStore RSI 0xD8 RSP, MovqStore RDI 0xE0 RSP,
      MovqStore RSP 0 RDX]"

definition windows_load_code :: "x86_instr list" where
  "windows_load_code =
     [MovqLoad 0 R8 RSP,
      MovqLoad 0xE8 RSP R9,
      MovapsLoad 0x00 RSP 6, MovapsLoad 0x10 RSP 7, MovapsLoad 0x20 RSP 8, MovapsLoad 0x30 RSP 9, MovapsLoad 0x40 RSP 10,
      MovapsLoad 0x50 RSP 11, MovapsLoad 0x60 RSP 12, MovapsLoad 0x70 RSP 13, MovapsLoad 0x80 RSP 14, MovapsLoad 0x90 RSP 15,
      Ldmxcsr 0xA0 RSP, Fldcw 0xA4 RSP,
      MovqLoad 0xA8 RSP R12, MovqLoad 0xB0 RSP R13, MovqLoad 0xB8 RSP R14, MovqLoad 0xC0 RSP R15,
      MovqLoad 0xC8 RSP RBX, MovqLoad 0xD0 RSP RBP, MovqLoad 0xD8 RSP RSI, MovqLoad 0xE0 RSP RDI,
      Leaq 0xF0 RSP RSP,
      Movq RCX RAX,
      Jmp R9]"

definition windows_swap_code :: "x86_instr list" where
  "windows_swap_code = windows_save_code @ windows_load_code"

definition windows_co_context_swap :: "x86 \<Rightarrow> x86 option" where
  "windows_co_context_swap s = x86_run windows_swap_code s"

definition windows_co_context_make :: "u64 \<Rightarrow> u64 \<Rightarrow> x86 \<Rightarrow> x86 option" where
  "windows_co_context_make trampoline finish s =
     x86_run
      [Movq RDX RAX,
       Andq (-16) RAX,
       Leaq (-0xF0) RAX RAX,
       Xorps 0 0,
       MovapsStore 0 0x00 RAX, MovapsStore 0 0x10 RAX, MovapsStore 0 0x20 RAX, MovapsStore 0 0x30 RAX, MovapsStore 0 0x40 RAX,
       MovapsStore 0 0x50 RAX, MovapsStore 0 0x60 RAX, MovapsStore 0 0x70 RAX, MovapsStore 0 0x80 RAX, MovapsStore 0 0x90 RAX,
       Stmxcsr 0xA0 RAX, Fnstcw 0xA4 RAX,
       LeaqLabel trampoline R9, MovqStore R9 0xE8 RAX,
       LeaqLabel finish R9, MovqStore R9 0xD0 RAX,
       MovqStore R8 0xC8 RAX,
       Ret] s"

definition windows_trampoline :: "x86 \<Rightarrow> x86 option" where
  "windows_trampoline s = x86_run [Pushq RBP, Jmp RBX] s"

subsection \<open>The arm64 machine\<close>

text \<open>
  \<open>xreg\<close> has the general registers \<open>x0\<close> to \<open>x30\<close> (\<open>fp\<close> is \<open>x29\<close>, \<open>lr\<close> is \<open>x30\<close>) and \<open>dreg\<close> the low halves of the
  vector registers, which are those a function must keep. An access through \<open>sp\<close> needs \<open>sp\<close> to be a multiple of 16.
\<close>

record arm64 =
  xreg :: "nat \<Rightarrow> u64"
  dreg :: "nat \<Rightarrow> u64"
  asp :: u64
  pc :: u64
  arm_mem :: "64 memory"

datatype arm_instr =
    SubSp u64
  | AddSp u64
  | StpD nat nat u64
  | StpX nat nat u64
  | LdpD nat nat u64
  | LdpX nat nat u64
  | MovFromSp nat
  | MovToSp nat
  | StrX nat nat u64
  | LdrX nat nat u64
  | Blr nat u64
  | RetX nat

definition set_x :: "nat \<Rightarrow> u64 \<Rightarrow> arm64 \<Rightarrow> arm64" where
  "set_x r v s = s\<lparr>xreg := (xreg s)(r := v)\<rparr>"

definition at_sp :: "arm64 \<Rightarrow> (arm64 \<Rightarrow> arm64) \<Rightarrow> arm64 option" where
  "at_sp s f = (if asp s AND 15 \<noteq> 0 then None else Some (f s))"

text \<open>\<open>Blr r a\<close> is the call through \<open>r\<close> at the address before \<open>a\<close>.\<close>

fun arm_exec :: "arm_instr \<Rightarrow> arm64 \<Rightarrow> arm64 option" where
  "arm_exec (SubSp i) s = Some (s\<lparr>asp := asp s - i\<rparr>)"
| "arm_exec (AddSp i) s = Some (s\<lparr>asp := asp s + i\<rparr>)"
| "arm_exec (StpD a b d) s = at_sp s (\<lambda>s. s\<lparr>arm_mem := mem_store 8 (asp s + (d + 8)) (dreg s b) (mem_store 8 (asp s + d) (dreg s a) (arm_mem s))\<rparr>)"
| "arm_exec (StpX a b d) s = at_sp s (\<lambda>s. s\<lparr>arm_mem := mem_store 8 (asp s + (d + 8)) (xreg s b) (mem_store 8 (asp s + d) (xreg s a) (arm_mem s))\<rparr>)"
| "arm_exec (LdpD a b d) s = at_sp s (\<lambda>s. s\<lparr>dreg := (dreg s)(a := mem_load 8 (asp s + d) (arm_mem s), b := mem_load 8 (asp s + (d + 8)) (arm_mem s))\<rparr>)"
| "arm_exec (LdpX a b d) s = at_sp s (\<lambda>s. s\<lparr>xreg := (xreg s)(a := mem_load 8 (asp s + d) (arm_mem s), b := mem_load 8 (asp s + (d + 8)) (arm_mem s))\<rparr>)"
| "arm_exec (MovFromSp r) s = Some (set_x r (asp s) s)"
| "arm_exec (MovToSp r) s = Some (s\<lparr>asp := xreg s r\<rparr>)"
| "arm_exec (StrX r b d) s = Some (s\<lparr>arm_mem := mem_store 8 (xreg s b + d) (xreg s r) (arm_mem s)\<rparr>)"
| "arm_exec (LdrX r b d) s = Some (set_x r (mem_load 8 (xreg s b + d) (arm_mem s)) s)"
| "arm_exec (Blr r a) s = Some (set_x 30 a (s\<lparr>pc := xreg s r\<rparr>))"
| "arm_exec (RetX r) s = Some (s\<lparr>pc := xreg s r\<rparr>)"

fun arm_run :: "arm_instr list \<Rightarrow> arm64 \<Rightarrow> arm64 option" where
  "arm_run [] s = Some s"
| "arm_run (i # is) s = Option.bind (arm_exec i s) (arm_run is)"

subsection \<open>macOS\<close>

definition macos_save_code :: "arm_instr list" where
  "macos_save_code =
     [SubSp 0xA0,
      StpD 8 9 0x00, StpD 10 11 0x10, StpD 12 13 0x20, StpD 14 15 0x30,
      StpX 19 20 0x40, StpX 21 22 0x50, StpX 23 24 0x60, StpX 25 26 0x70, StpX 27 28 0x80, StpX 29 30 0x90,
      MovFromSp 3, StrX 3 1 0]"

definition macos_load_code :: "arm_instr list" where
  "macos_load_code =
     [LdrX 3 2 0, MovToSp 3,
      LdpD 8 9 0x00, LdpD 10 11 0x10, LdpD 12 13 0x20, LdpD 14 15 0x30,
      LdpX 19 20 0x40, LdpX 21 22 0x50, LdpX 23 24 0x60, LdpX 25 26 0x70, LdpX 27 28 0x80, LdpX 29 30 0x90,
      AddSp 0xA0,
      RetX 30]"

definition macos_swap_code :: "arm_instr list" where
  "macos_swap_code = macos_save_code @ macos_load_code"

definition macos_co_context_swap :: "arm64 \<Rightarrow> arm64 option" where
  "macos_co_context_swap s = arm_run macos_swap_code s"

text \<open>\<open>loop_addr\<close> is the address of the endless loop after the call, \<open>start_task\<close> that of \<open>__start_task\<close>.\<close>

definition macos_start_task :: "u64 \<Rightarrow> arm64 \<Rightarrow> arm64 option" where
  "macos_start_task loop_addr s = arm_run [Blr 19 loop_addr] s"

text \<open>\<open>sizeof(struct stack_init_context)\<close> is 160; \<open>x19\<close> and \<open>lr\<close> are its members at 0x40 and 0x98.\<close>

definition macos_co_context_make :: "u64 \<Rightarrow> u64 \<Rightarrow> u64 \<Rightarrow> 64 memory \<Rightarrow> u64 \<times> 64 memory" where
  "macos_co_context_make start_task stack_top func m =
     (let ul_stack_top = stack_top AND NOT 0xF;
          context = ul_stack_top - 160;
          m = mem_store 8 (context + 0x40) func m;
          m = mem_store 8 (context + 0x98) start_task m
      in (context, m))"

end
