(* ===== verification/Eh_Coroutine_Spec.thy ===== *)
theory Eh_Coroutine_Spec
  imports Eh_Coroutine
begin

text \<open>
  What coroutines rely on: a coroutine that switches away is resumed where it stopped, with its registers, whatever
  the others do in between. The locale \<open>context_switch\<close> states what a port promises of its switch; the history of
  coroutines is proved correct once in it and holds for the ports by interpretation.
\<close>

subsection \<open>Regions\<close>

lemma region_shift:
  fixes a d :: "'a::len word"
  assumes "unat d + n \<le> k"
  shows "region (a + d) n \<subseteq> region a k"
proof
  fix x assume "x \<in> region (a + d) n"
  then have i: "unat (x - (a + d)) < n" by (simp add: region_def)
  let ?i = "x - (a + d)"
  have "unat (y + d) \<le> unat y + unat d" for y :: "'a word" unfolding unat_word_ariths(1) by (rule mod_less_eq_dividend)
  from this[of ?i] show "x \<in> region a k" using i assms by (simp add: region_def algebra_simps)
qed

lemma store_shift:
  assumes "x \<notin> region a k" "unat (b - a) + n \<le> k"
  shows "mem_store n b v m x = m x"
  using region_shift[of "b - a" n k a] assms by (auto intro!: store_outside)

lemma load_outside:
  fixes a :: "'a::len word"
  assumes "region a n \<inter> A = {}" "\<forall>x. x \<notin> A \<longrightarrow> m' x = m x" "n < 2 ^ 28" "32 \<le> LENGTH('a)"
  shows "mem_load n a m' = mem_load n a m"
  by (rule mem_load_region) (use assms in auto)

subsection \<open>Ports\<close>

text \<open>
  A port of the switch for machine states \<open>'s\<close>, addresses \<open>'w\<close> and contexts \<open>'c\<close>: the code, the bytes of an address, the context that a call is to return to
  and the context that is running, the arguments of the call and its result, the stack frame the switch writes, and
  for a variable of type \<open>context_t\<close> the context parked there, the memory it occupies, the part of it that resuming overwrites
  and whether it can be resumed.
\<close>

record ('s, 'w, 'c) switcher =
  sw_run :: "'s \<Rightarrow> 's option"
  sw_word :: nat
  sw_mem :: "'s \<Rightarrow> 'w \<Rightarrow> u8"
  sw_calling :: "'s \<Rightarrow> 'c"
  sw_current :: "'s \<Rightarrow> 'c"
  sw_arg :: "'s \<Rightarrow> 'w"
  sw_from :: "'s \<Rightarrow> 'w"
  sw_to :: "'s \<Rightarrow> 'w"
  sw_result :: "'s \<Rightarrow> 'w"
  sw_aligned :: "'s \<Rightarrow> bool"
  sw_frame :: "'s \<Rightarrow> 'w set"
  sw_parked :: "('w \<Rightarrow> u8) \<Rightarrow> 'w \<Rightarrow> 'c"
  sw_foot :: "('w \<Rightarrow> u8) \<Rightarrow> 'w \<Rightarrow> 'w set"
  sw_touch :: "('w \<Rightarrow> u8) \<Rightarrow> 'w \<Rightarrow> 'w set"
  sw_valid :: "('w \<Rightarrow> u8) \<Rightarrow> 'w \<Rightarrow> bool"

definition sw_writes :: "('s, 'a::len word, 'c) switcher \<Rightarrow> 's \<Rightarrow> 'a word set" where
  "sw_writes W s = sw_frame W s \<union> region (sw_from W s) (sw_word W)"

definition switched :: "('s, 'a::len word, 'c) switcher \<Rightarrow> 's \<Rightarrow> 's \<Rightarrow> bool" where
  "switched W s s' \<longleftrightarrow> sw_current W s' = sw_parked W (sw_mem W s) (sw_to W s) \<and> sw_result W s' = sw_arg W s
     \<and> sw_parked W (sw_mem W s') (sw_from W s) = sw_calling W s \<and> sw_valid W (sw_mem W s') (sw_from W s)
     \<and> sw_foot W (sw_mem W s') (sw_from W s) = sw_writes W s
     \<and> (\<forall>x. x \<notin> sw_writes W s \<union> sw_touch W (sw_mem W s) (sw_to W s) \<longrightarrow> sw_mem W s' x = sw_mem W s x)"

locale context_switch =
  fixes W :: "('s, 'a::len word, 'c) switcher"
  assumes foot_cong: "\<forall>x\<in>sw_foot W m p. m' x = m x \<Longrightarrow>
      sw_foot W m' p = sw_foot W m p \<and> sw_parked W m' p = sw_parked W m p \<and> sw_valid W m' p = sw_valid W m p"
    and touch_foot: "sw_touch W m p \<subseteq> sw_foot W m p"
    and swap: "sw_aligned W s \<Longrightarrow> sw_valid W (sw_mem W s) (sw_to W s) \<Longrightarrow> sw_writes W s \<inter> sw_foot W (sw_mem W s) (sw_to W s) = {} \<Longrightarrow>
      sw_frame W s \<inter> region (sw_from W s) (sw_word W) = {} \<Longrightarrow> \<exists>s'. sw_run W s = Some s' \<and> switched W s s'"

subsection \<open>The history of coroutines\<close>

text \<open>
  \<open>can_switch W P s\<close>: the machine is about to switch to a parked coroutine, on a stack of its own, with the parked
  contexts \<open>P\<close>. \<open>co_run W s P\<close>: a history with the steps of running code, making and forgetting coroutines and switching has come
  to the machine state \<open>s\<close>; \<open>P\<close> has the context of each parked coroutine as it was when it stopped.
\<close>

definition can_switch :: "('s, 'a::len word, 'c) switcher \<Rightarrow> ('a word \<rightharpoonup> 'c) \<Rightarrow> 's \<Rightarrow> bool" where
  "can_switch W P s \<longleftrightarrow> sw_aligned W s \<and> sw_to W s \<in> dom P \<and> sw_from W s \<notin> dom P
     \<and> sw_frame W s \<inter> region (sw_from W s) (sw_word W) = {}
     \<and> (\<forall>p\<in>dom P. sw_writes W s \<inter> sw_foot W (sw_mem W s) p = {})"

inductive co_run :: "('s, 'a::len word, 'c) switcher \<Rightarrow> 's \<Rightarrow> ('a word \<rightharpoonup> 'c) \<Rightarrow> bool" for W where
  start: "co_run W s (\<lambda>_. None)"
| compute: "co_run W s P \<Longrightarrow> (\<forall>p\<in>dom P. \<forall>x\<in>sw_foot W (sw_mem W s) p. sw_mem W s' x = sw_mem W s x) \<Longrightarrow> co_run W s' P"
| make: "co_run W s P \<Longrightarrow> p \<notin> dom P \<Longrightarrow> sw_valid W (sw_mem W s) p \<Longrightarrow>
    (\<forall>q\<in>dom P. sw_foot W (sw_mem W s) p \<inter> sw_foot W (sw_mem W s) q = {}) \<Longrightarrow>
    co_run W s (P(p \<mapsto> sw_parked W (sw_mem W s) p))"
| forget: "co_run W s P \<Longrightarrow> co_run W s (P |` D)"
| switch: "co_run W s P \<Longrightarrow> can_switch W P s \<Longrightarrow> sw_run W s = Some s' \<Longrightarrow>
    co_run W s' (P(sw_to W s := None, sw_from W s \<mapsto> sw_calling W s))"

definition co_ok :: "('s, 'a::len word, 'c) switcher \<Rightarrow> 's \<Rightarrow> ('a word \<rightharpoonup> 'c) \<Rightarrow> bool" where
  "co_ok W s P \<longleftrightarrow>
     (\<forall>p\<in>dom P. P p = Some (sw_parked W (sw_mem W s) p) \<and> sw_valid W (sw_mem W s) p
        \<and> (\<forall>q\<in>dom P. p \<noteq> q \<longrightarrow> sw_foot W (sw_mem W s) p \<inter> sw_foot W (sw_mem W s) q = {}))"

context context_switch
begin

lemma keeps_ok:
  assumes "co_ok W s P" "\<forall>p\<in>dom P. \<forall>x\<in>sw_foot W (sw_mem W s) p. sw_mem W s' x = sw_mem W s x"
  shows "co_ok W s' P"
proof -
  have c: "sw_foot W (sw_mem W s') p = sw_foot W (sw_mem W s) p \<and> sw_parked W (sw_mem W s') p = sw_parked W (sw_mem W s) p
     \<and> sw_valid W (sw_mem W s') p = sw_valid W (sw_mem W s) p" if "p \<in> dom P" for p
    by (rule foot_cong) (use assms(2) that in blast)
  then show ?thesis using assms(1) unfolding co_ok_def by metis
qed

lemma sub_ok: "co_ok W s P \<Longrightarrow> co_ok W s (P(p := None))"
  unfolding co_ok_def by auto

lemma switch_step:
  assumes ok: "co_ok W s P" and c: "can_switch W P s"
  shows "\<exists>s'. sw_run W s = Some s' \<and> switched W s s' \<and> P (sw_to W s) = Some (sw_current W s')
    \<and> co_ok W s' (P(sw_to W s := None, sw_from W s \<mapsto> sw_calling W s))"
proof -
  have t: "sw_to W s \<in> dom P" "sw_from W s \<notin> dom P" using c by (simp_all add: can_switch_def)
  then have p: "P (sw_to W s) = Some (sw_parked W (sw_mem W s) (sw_to W s))" "sw_valid W (sw_mem W s) (sw_to W s)"
    using ok unfolding co_ok_def by blast+
  obtain s' where s': "sw_run W s = Some s'" "switched W s s'"
    using swap[of s] c p(2) t(1) unfolding can_switch_def by blast
  let ?P = "P(sw_to W s := None)"
  have dj: "sw_touch W (sw_mem W s) (sw_to W s) \<inter> sw_foot W (sw_mem W s) q = {}" if "q \<in> dom ?P" for q
    using ok t(1) that touch_foot[of "sw_mem W s" "sw_to W s"] unfolding co_ok_def by (auto split: if_splits)
  have keep: "\<forall>q\<in>dom ?P. \<forall>x\<in>sw_foot W (sw_mem W s) q. sw_mem W s' x = sw_mem W s x"
  proof (intro ballI)
    fix q x assume q: "q \<in> dom ?P" and x: "x \<in> sw_foot W (sw_mem W s) q"
    then have "q \<in> dom P" by (auto split: if_splits)
    then have "x \<notin> sw_writes W s \<union> sw_touch W (sw_mem W s) (sw_to W s)" using c x dj[OF q] unfolding can_switch_def by blast
    then show "sw_mem W s' x = sw_mem W s x" using s'(2) unfolding switched_def by blast
  qed
  have ok': "co_ok W s' ?P" by (rule keeps_ok[OF sub_ok[OF ok] keep])
  have f: "sw_foot W (sw_mem W s') q = sw_foot W (sw_mem W s) q" if "q \<in> dom ?P" for q
    using foot_cong keep that by blast
  have w: "sw_foot W (sw_mem W s') (sw_from W s) \<inter> sw_foot W (sw_mem W s') q = {}" if q: "q \<in> dom ?P" for q
  proof -
    have "q \<in> dom P" using q by (auto split: if_splits)
    then show ?thesis using c s'(2) unfolding can_switch_def switched_def f[OF q] by blast
  qed
  have "co_ok W s' (?P(sw_from W s \<mapsto> sw_calling W s))"
    using ok' w s'(2) t(2) unfolding co_ok_def switched_def by (auto simp: Int_commute)
  then show ?thesis using s' p(1) by (auto simp: switched_def)
qed

lemma history_ok: "co_run W s P \<Longrightarrow> co_ok W s P"
proof (induction rule: co_run.induct)
  case (start s)
  then show ?case by (simp add: co_ok_def)
next
  case (compute s P s')
  then show ?case using keeps_ok by blast
next
  case (make s P p)
  then show ?case unfolding co_ok_def by (auto simp: Int_commute)
next
  case (forget s P D)
  have "dom (P |` D) = dom P \<inter> D" by (simp add: dom_restrict)
  then show ?case using forget.IH unfolding co_ok_def by (metis IntD1 IntD2 restrict_in)
next
  case (switch s P s')
  from switch_step[OF switch.IH switch.hyps(2)] switch.hyps(3) show ?case by (metis option.inject)
qed

lemma history_switch:
  assumes "co_run W s P" "can_switch W P s"
  shows "\<exists>s'. sw_run W s = Some s' \<and> P (sw_to W s) = Some (sw_current W s') \<and> sw_result W s' = sw_arg W s
    \<and> (\<forall>x. x \<notin> sw_writes W s \<union> sw_touch W (sw_mem W s) (sw_to W s) \<longrightarrow> sw_mem W s' x = sw_mem W s x)"
  using switch_step[OF history_ok[OF assms(1)] assms(2)] by (auto simp: switched_def)

end

subsection \<open>Switching by a stack frame\<close>

text \<open>
  How the ports do it: the context is saved in a frame below the stack pointer and the variable of type \<open>context_t\<close> holds the
  address of the frame. The frame at \<open>sp\<close> has \<open>K sp m\<close> bytes, of which resuming overwrites \<open>T sp m\<close>; \<open>ctx sp m\<close> reads the
  context back from it, \<open>fr\<close> is the address of the frame of a switch, \<open>frame s\<close> the memory once it is written, and \<open>A\<close> and \<open>V\<close> are
  what the code needs of variables and frames.
\<close>

locale stack_switch =
  fixes W :: "('s, 'a::len word, 'c) switcher" and K :: "'a word \<Rightarrow> 'a memory \<Rightarrow> nat" and T :: "'a word \<Rightarrow> 'a memory \<Rightarrow> 'a word set"
    and ctx :: "'a word \<Rightarrow> 'a memory \<Rightarrow> 'c" and A :: "'a word \<Rightarrow> bool" and V :: "'a word \<Rightarrow> 'a memory \<Rightarrow> bool"
    and fr :: "'s \<Rightarrow> 'a word" and frame :: "'s \<Rightarrow> 'a memory"
  assumes word_size: "LENGTH('a) \<le> 8 * sw_word W" "sw_word W < 2 ^ 28" "32 \<le> LENGTH('a)"
    and selectors: "sw_frame W s = region (fr s) (K (fr s) (frame s))" "sw_parked W m p = ctx (mem_load (sw_word W) p m) m"
      "sw_foot W m p = region p (sw_word W) \<union> region (mem_load (sw_word W) p m) (K (mem_load (sw_word W) p m) m)"
      "sw_touch W m p = T (mem_load (sw_word W) p m) m"
      "sw_valid W m p = (A p \<and> V (mem_load (sw_word W) p m) m)"
      "sw_aligned W s = (A (sw_from W s) \<and> V (fr s) (frame s))"
    and frame_cong: "\<forall>x\<in>region sp (K sp m). m' x = m x \<Longrightarrow> K sp m' = K sp m \<and> ctx sp m' = ctx sp m \<and> V sp m' = V sp m"
    and touch: "T sp m \<subseteq> region sp (K sp m)"
    and touch_cong: "\<forall>x\<in>region sp (K sp m). m' x = m x \<Longrightarrow> T sp m' = T sp m"
    and frame_saved: "ctx (fr s) (frame s) = sw_calling W s"
    and frame_out: "x \<notin> region (fr s) (K (fr s) (frame s)) \<Longrightarrow> frame s x = sw_mem W s x"
    and resume: "A (sw_from W s) \<Longrightarrow> V (fr s) (frame s) \<Longrightarrow> region (fr s) (K (fr s) (frame s)) \<inter> region (sw_from W s) (sw_word W) = {} \<Longrightarrow> A (sw_to W s) \<Longrightarrow>
      m = mem_store (sw_word W) (sw_from W s) (fr s) (frame s) \<Longrightarrow> sp = mem_load (sw_word W) (sw_to W s) m \<Longrightarrow> V sp m \<Longrightarrow>
      \<exists>s'. sw_run W s = Some s' \<and> (\<forall>x. x \<notin> T sp m \<longrightarrow> sw_mem W s' x = m x) \<and> sw_result W s' = sw_arg W s \<and> sw_current W s' = ctx sp m"
begin

lemma frame_foot_cong:
  assumes m: "\<forall>x\<in>sw_foot W m p. m' x = m x"
  shows "sw_foot W m' p = sw_foot W m p \<and> sw_parked W m' p = sw_parked W m p \<and> sw_valid W m' p = sw_valid W m p"
    and "sw_touch W m' p = sw_touch W m p"
proof -
  have p: "mem_load (sw_word W) p m' = (mem_load (sw_word W) p m :: 'a word)" by (rule mem_load_region) (use m word_size in \<open>auto simp: selectors\<close>)
  have f: "\<forall>x\<in>region (mem_load (sw_word W) p m) (K (mem_load (sw_word W) p m) m). m' x = m x" using m by (simp add: selectors)
  show "sw_foot W m' p = sw_foot W m p \<and> sw_parked W m' p = sw_parked W m p \<and> sw_valid W m' p = sw_valid W m p"
    using p frame_cong[OF f] by (simp add: selectors)
  show "sw_touch W m' p = sw_touch W m p" using p touch_cong[OF f] by (simp add: selectors)
qed

lemma touch_in_foot: "sw_touch W m p \<subseteq> sw_foot W m p"
  using touch by (auto simp: selectors)

lemma frame_swap:
  assumes a: "sw_aligned W s" and v: "sw_valid W (sw_mem W s) (sw_to W s)"
    and d: "sw_writes W s \<inter> sw_foot W (sw_mem W s) (sw_to W s) = {}" and f: "sw_frame W s \<inter> region (sw_from W s) (sw_word W) = {}"
  shows "\<exists>s'. sw_run W s = Some s' \<and> switched W s s'"
proof -
  let ?m = "mem_store (sw_word W) (sw_from W s) (fr s) (frame s)" and ?to = "sw_to W s"
  let ?sp = "mem_load (sw_word W) ?to ?m" and ?K = "K (fr s) (frame s)"
  have w: "sw_writes W s = region (fr s) ?K \<union> region (sw_from W s) (sw_word W)" by (simp add: sw_writes_def selectors)
  have o: "\<forall>x. x \<notin> sw_writes W s \<longrightarrow> ?m x = sw_mem W s x" unfolding w by (simp add: store_outside frame_out)
  then have "\<forall>x\<in>sw_foot W (sw_mem W s) ?to. ?m x = sw_mem W s x" using d by blast
  note to = frame_foot_cong[OF this]
  have lt: "?sp = (mem_load (sw_word W) ?to (sw_mem W s) :: 'a word)"
    by (rule load_outside[OF _ o]) (use d word_size in \<open>auto simp: selectors\<close>)
  have r: "A (sw_from W s)" "V (fr s) (frame s)" "region (fr s) ?K \<inter> region (sw_from W s) (sw_word W) = {}" "A ?to" "V ?sp ?m"
    using a v f to(1) by (simp_all add: selectors)
  from resume[OF r(1-4) refl refl r(5)] obtain s' where s': "sw_run W s = Some s'" "\<forall>x. x \<notin> T ?sp ?m \<longrightarrow> sw_mem W s' x = ?m x"
    "sw_result W s' = sw_arg W s" "sw_current W s' = ctx ?sp ?m" by blast
  have t: "T ?sp ?m = sw_touch W (sw_mem W s) ?to" using to(2) by (simp add: selectors)
  have k: "sw_mem W s' x = ?m x" if "x \<in> sw_writes W s" for x
    using s'(2) touch_in_foot[of "sw_mem W s" ?to] d that unfolding t by blast
  have lf: "mem_load (sw_word W) (sw_from W s) ?m = fr s" by (rule load_store_same) (use word_size in simp_all)
  have "\<forall>x\<in>region (fr s) ?K. ?m x = frame s x" using f by (auto simp: selectors intro!: store_outside)
  note fm = frame_cong[OF this]
  have "sw_foot W ?m (sw_from W s) = sw_writes W s" using lf fm by (auto simp: selectors w)
  moreover from this k have "\<forall>x\<in>sw_foot W ?m (sw_from W s). sw_mem W s' x = ?m x" by simp
  ultimately have from': "sw_foot W (sw_mem W s') (sw_from W s) = sw_writes W s"
    "sw_parked W (sw_mem W s') (sw_from W s) = sw_parked W ?m (sw_from W s)" "sw_valid W (sw_mem W s') (sw_from W s) = sw_valid W ?m (sw_from W s)"
    using frame_foot_cong(1) by blast+
  have "sw_parked W ?m (sw_from W s) = sw_calling W s" "sw_valid W ?m (sw_from W s)" using lf fm r(1,2) by (simp_all add: selectors frame_saved)
  moreover have "sw_current W s' = sw_parked W (sw_mem W s) ?to" using s'(4) to(1) by (simp add: selectors)
  moreover have "\<forall>x. x \<notin> sw_writes W s \<union> sw_touch W (sw_mem W s) ?to \<longrightarrow> sw_mem W s' x = sw_mem W s x" using s'(2) o unfolding t by simp
  ultimately have "switched W s s'" unfolding switched_def using s'(3) from' by simp
  then show ?thesis using s'(1) by blast
qed

end

sublocale stack_switch \<subseteq> context_switch
  by unfold_locales (use frame_foot_cong touch_in_foot frame_swap in blast)+

text \<open>The common case: frames of one size, which resuming does not write.\<close>

locale frame_switch =
  fixes W :: "('s, 'a::len word, 'c) switcher" and K :: nat and ctx :: "'a word \<Rightarrow> 'a memory \<Rightarrow> 'c"
    and A :: "'a word \<Rightarrow> bool" and V :: "'a word \<Rightarrow> bool" and fr :: "'s \<Rightarrow> 'a word" and frame :: "'s \<Rightarrow> 'a memory"
  assumes word: "LENGTH('a) \<le> 8 * sw_word W" "sw_word W < 2 ^ 28" "32 \<le> LENGTH('a)"
    and sel: "sw_frame W s = region (fr s) K" "sw_parked W m p = ctx (mem_load (sw_word W) p m) m"
      "sw_foot W m p = region p (sw_word W) \<union> region (mem_load (sw_word W) p m) K" "sw_touch W m p = {}"
      "sw_valid W m p = (A p \<and> V (mem_load (sw_word W) p m))" "sw_aligned W s = (A (sw_from W s) \<and> V (fr s))"
    and ctx_cong: "\<forall>x\<in>region sp K. m' x = m x \<Longrightarrow> ctx sp m' = ctx sp m"
    and frame: "ctx (fr s) (frame s) = sw_calling W s"
    and out: "x \<notin> region (fr s) K \<Longrightarrow> frame s x = sw_mem W s x"
    and run: "A (sw_from W s) \<Longrightarrow> V (fr s) \<Longrightarrow> A (sw_to W s) \<Longrightarrow> m = mem_store (sw_word W) (sw_from W s) (fr s) (frame s) \<Longrightarrow> sp = mem_load (sw_word W) (sw_to W s) m \<Longrightarrow> V sp \<Longrightarrow>
      \<exists>s'. sw_run W s = Some s' \<and> sw_mem W s' = m \<and> sw_result W s' = sw_arg W s \<and> sw_current W s' = ctx sp m"

begin

lemma run_outside:
  assumes "A (sw_from W s)" "V (fr s)" "A (sw_to W s)" "m = mem_store (sw_word W) (sw_from W s) (fr s) (frame s)"
    "sp = mem_load (sw_word W) (sw_to W s) m" "V sp"
  shows "\<exists>s'. sw_run W s = Some s' \<and> (\<forall>x. x \<notin> {} \<longrightarrow> sw_mem W s' x = m x) \<and> sw_result W s' = sw_arg W s \<and> sw_current W s' = ctx sp m"
  using run[OF assms] by blast

end

sublocale frame_switch \<subseteq> stack_switch W "\<lambda>_ _. K" "\<lambda>_ _. {}" ctx A "\<lambda>sp _. V sp" fr frame
proof unfold_locales
  show "A (sw_from W s) \<Longrightarrow> V (fr s) \<Longrightarrow> A (sw_to W s) \<Longrightarrow> m = mem_store (sw_word W) (sw_from W s) (fr s) (frame s) \<Longrightarrow>
      sp = mem_load (sw_word W) (sw_to W s) m \<Longrightarrow> V sp \<Longrightarrow>
      \<exists>s'. sw_run W s = Some s' \<and> (\<forall>x. x \<notin> {} \<longrightarrow> sw_mem W s' x = m x) \<and> sw_result W s' = sw_arg W s \<and> sw_current W s' = ctx sp m" for s m sp
    by (rule run_outside)
qed (use word sel ctx_cong frame out in auto)

end
