(* ===== verification/Eh_Coroutine_Ports.thy ===== *)
theory Eh_Coroutine_Ports
  imports Eh_Coroutine_Spec
begin

text \<open>
  The ports of the context switch are instances of \<open>frame_switch\<close>: the assembly of each saves and loads one frame of
  its layout. From the interpretations follow what holds after any history of coroutines, and how a new coroutine is
  entered.
\<close>

subsection \<open>The x86-64 ports\<close>

text \<open>
  The layout of a frame: where the callee-saved registers are, and the registers of the arguments. The return address
  is the last word; \<open>lay_movaps\<close> is whether the frame must be aligned.
\<close>

record layout =
  lay_gprs :: "(reg64 \<times> u64) list"
  lay_xmms :: "(nat \<times> u64) list"
  lay_csr :: u64
  lay_cw :: u64
  lay_rip :: u64
  lay_args :: "reg64 \<times> reg64 \<times> reg64"
  lay_movaps :: bool

record x86_context =
  c_gprs :: "u64 list"
  c_xmms :: "128 word list"
  c_mxcsr :: u32
  c_cw :: u16
  c_rsp :: u64
  c_rip :: u64

definition lay_size :: "layout \<Rightarrow> nat" where "lay_size L = unat (lay_rip L) + 8"

definition layout_ok :: "layout \<Rightarrow> bool" where
  "layout_ok L \<longleftrightarrow> lay_size L < 2 ^ 28 \<and> (\<forall>(r, d)\<in>set (lay_gprs L). unat d + 8 \<le> lay_size L)
     \<and> (\<forall>(x, d)\<in>set (lay_xmms L). unat d + 16 \<le> lay_size L) \<and> unat (lay_csr L) + 4 \<le> lay_size L \<and> unat (lay_cw L) + 2 \<le> lay_size L"

definition frame_ctx :: "layout \<Rightarrow> u64 \<Rightarrow> 64 memory \<Rightarrow> x86_context" where
  "frame_ctx L sp m =
     \<lparr>c_gprs = map (\<lambda>(r, d). mem_load 8 (sp + d) m) (lay_gprs L), c_xmms = map (\<lambda>(x, d). mem_load 16 (sp + d) m) (lay_xmms L),
      c_mxcsr = mem_load 4 (sp + lay_csr L) m, c_cw = mem_load 2 (sp + lay_cw L) m,
      c_rsp = sp + lay_rip L + 8, c_rip = mem_load 8 (sp + lay_rip L) m\<rparr>"

definition register_ctx :: "layout \<Rightarrow> u64 \<Rightarrow> u64 \<Rightarrow> x86 \<Rightarrow> x86_context" where
  "register_ctx L sp ip s =
     \<lparr>c_gprs = map (\<lambda>(r, d). gpr s r) (lay_gprs L), c_xmms = map (\<lambda>(x, d). xmm s x) (lay_xmms L),
      c_mxcsr = mxcsr s, c_cw = x87_cw s, c_rsp = sp, c_rip = ip\<rparr>"

definition frame_of :: "layout \<Rightarrow> x86 \<Rightarrow> u64" where
  "frame_of L s = gpr s RSP - lay_rip L"

definition x86_switcher :: "layout \<Rightarrow> (x86 \<Rightarrow> x86 option) \<Rightarrow> (x86, u64, x86_context) switcher" where
  "x86_switcher L code =
     \<lparr>sw_run = code, sw_word = 8, sw_mem = x86_mem,
      sw_calling = (\<lambda>s. register_ctx L (gpr s RSP + 8) (mem_load 8 (gpr s RSP) (x86_mem s)) s),
      sw_current = (\<lambda>s. register_ctx L (gpr s RSP) (rip s) s),
      sw_arg = (\<lambda>s. gpr s (fst (lay_args L))), sw_from = (\<lambda>s. gpr s (fst (snd (lay_args L)))), sw_to = (\<lambda>s. gpr s (snd (snd (lay_args L)))),
      sw_result = (\<lambda>s. gpr s RAX), sw_aligned = (\<lambda>s. lay_movaps L \<longrightarrow> frame_of L s AND 15 = 0),
      sw_frame = (\<lambda>s. region (frame_of L s) (lay_size L)),
      sw_parked = (\<lambda>m p. frame_ctx L (mem_load 8 p m) m),
      sw_foot = (\<lambda>m p. region p 8 \<union> region (mem_load 8 p m) (lay_size L)),
      sw_touch = (\<lambda>_ _. {}),
      sw_valid = (\<lambda>m p. lay_movaps L \<longrightarrow> (mem_load 8 p m :: u64) AND 15 = 0)\<rparr>"

lemma x86_sel:
  "sw_run (x86_switcher L code) = code" "sw_word (x86_switcher L code) = 8" "sw_mem (x86_switcher L code) = x86_mem"
  "sw_calling (x86_switcher L code) s = register_ctx L (gpr s RSP + 8) (mem_load 8 (gpr s RSP) (x86_mem s)) s"
  "sw_current (x86_switcher L code) s = register_ctx L (gpr s RSP) (rip s) s"
  "sw_arg (x86_switcher L code) s = gpr s (fst (lay_args L))"
  "sw_from (x86_switcher L code) s = gpr s (fst (snd (lay_args L)))"
  "sw_to (x86_switcher L code) s = gpr s (snd (snd (lay_args L)))"
  "sw_result (x86_switcher L code) s = gpr s RAX"
  "sw_aligned (x86_switcher L code) s = (lay_movaps L \<longrightarrow> frame_of L s AND 15 = 0)"
  "sw_frame (x86_switcher L code) s = region (frame_of L s) (lay_size L)"
  "sw_parked (x86_switcher L code) m p = frame_ctx L (mem_load 8 p m) m"
  "sw_foot (x86_switcher L code) m p = region p 8 \<union> region (mem_load 8 p m) (lay_size L)"
  "sw_touch (x86_switcher L code) m p = {}"
  "sw_valid (x86_switcher L code) m p = (lay_movaps L \<longrightarrow> (mem_load 8 p m :: u64) AND 15 = 0)"
  by (simp_all add: x86_switcher_def)

definition linux_layout :: layout where
  "linux_layout = \<lparr>lay_gprs = [(R12, 0x8), (R13, 0x10), (R14, 0x18), (R15, 0x20), (RBX, 0x28), (RBP, 0x30)], lay_xmms = [],
     lay_csr = 0, lay_cw = 4, lay_rip = 0x38, lay_args = (RDI, RSI, RDX), lay_movaps = False\<rparr>"

definition windows_layout :: layout where
  "windows_layout =
     \<lparr>lay_gprs = [(R12, 0xA8), (R13, 0xB0), (R14, 0xB8), (R15, 0xC0), (RBX, 0xC8), (RBP, 0xD0), (RSI, 0xD8), (RDI, 0xE0)],
      lay_xmms = [(6, 0), (7, 0x10), (8, 0x20), (9, 0x30), (10, 0x40), (11, 0x50), (12, 0x60), (13, 0x70), (14, 0x80), (15, 0x90)],
      lay_csr = 0xA0, lay_cw = 0xA4, lay_rip = 0xE8, lay_args = (RCX, RDX, R8), lay_movaps = True\<rparr>"

definition linux_x64 :: "(x86, u64, x86_context) switcher" where
  "linux_x64 = x86_switcher linux_layout linux_co_context_swap"

definition windows_x64 :: "(x86, u64, x86_context) switcher" where
  "windows_x64 = x86_switcher windows_layout windows_co_context_swap"

lemma layouts_ok: "layout_ok linux_layout" "layout_ok windows_layout"
  by (simp_all add: layout_ok_def lay_size_def linux_layout_def windows_layout_def)

lemma linux_sel:
  "lay_size linux_layout = 0x40" "lay_movaps linux_layout = False" "lay_args linux_layout = (RDI, RSI, RDX)"
  "frame_of linux_layout s = gpr s RSP - 0x38"
  by (simp_all add: lay_size_def linux_layout_def frame_of_def)

lemma windows_sel:
  "lay_size windows_layout = 0xF0" "lay_movaps windows_layout = True" "lay_args windows_layout = (RCX, RDX, R8)"
  "frame_of windows_layout s = gpr s RSP - 0xE8"
  by (simp_all add: lay_size_def windows_layout_def frame_of_def)

lemma frame_ctx_cong:
  assumes L: "layout_ok L" and m: "\<forall>x\<in>region sp (lay_size L). m' x = m x"
  shows "frame_ctx L sp m' = frame_ctx L sp m"
proof -
  have e: "mem_load n (sp + d) m' = (mem_load n (sp + d) m :: 'b::len word)" if "unat d + n \<le> lay_size L" for n d
  proof -
    have s: "region (sp + d) n \<subseteq> region sp (lay_size L)" by (rule region_shift[OF that])
    show ?thesis by (rule mem_load_region) (use s m that L in \<open>auto simp: layout_ok_def\<close>)
  qed
  have "map (\<lambda>(r, d). mem_load 8 (sp + d) m') (lay_gprs L) = map (\<lambda>(r, d). mem_load 8 (sp + d) m :: u64) (lay_gprs L)"
    "map (\<lambda>(x, d). mem_load 16 (sp + d) m') (lay_xmms L) = map (\<lambda>(x, d). mem_load 16 (sp + d) m :: 128 word) (lay_xmms L)"
    using L by (auto simp: layout_ok_def intro!: e)
  moreover have "mem_load 4 (sp + lay_csr L) m' = (mem_load 4 (sp + lay_csr L) m :: u32)"
    "mem_load 2 (sp + lay_cw L) m' = (mem_load 2 (sp + lay_cw L) m :: u16)"
    "mem_load 8 (sp + lay_rip L) m' = (mem_load 8 (sp + lay_rip L) m :: u64)"
    by (rule e, use L in \<open>simp add: layout_ok_def lay_size_def\<close>)+
  ultimately show ?thesis by (simp add: frame_ctx_def)
qed

text \<open>The code that saves is independent of the code that loads.\<close>

lemma x86_run_append: "x86_run (xs @ ys) s = Option.bind (x86_run xs s) (x86_run ys)"
  by (induction xs arbitrary: s) (auto split: Option.bind_splits)

lemma arm_run_append: "arm_run (xs @ ys) s = Option.bind (arm_run xs s) (arm_run ys)"
  by (induction xs arbitrary: s) (auto split: Option.bind_splits)

definition linux_frame :: "x86 \<Rightarrow> 64 memory" where
  "linux_frame s =
     (let sp = gpr s RSP - 0x38 in
      mem_store 8 (sp + 0x30) (gpr s RBP) (mem_store 8 (sp + 0x28) (gpr s RBX) (mem_store 8 (sp + 0x20) (gpr s R15)
     (mem_store 8 (sp + 0x18) (gpr s R14) (mem_store 8 (sp + 0x10) (gpr s R13) (mem_store 8 (sp + 0x8) (gpr s R12)
     (mem_store 2 (sp + 0x4) (x87_cw s) (mem_store 4 sp (mxcsr s) (x86_mem s)))))))))"

lemma linux_save:
  "x86_run linux_save_code s = Some (s\<lparr>gpr := (gpr s)(RSP := gpr s RSP - 0x38),
     x86_mem := mem_store 8 (gpr s RSI) (gpr s RSP - 0x38) (linux_frame s)\<rparr>)"
  by (simp add: linux_save_code_def set_gpr_def ea_def linux_frame_def Let_def)

lemma linux_load:
  "\<exists>s'. x86_run linux_load_code s = Some s' \<and> x86_mem s' = x86_mem s \<and> gpr s' RAX = gpr s RDI
     \<and> register_ctx linux_layout (gpr s' RSP) (rip s') s' = frame_ctx linux_layout (mem_load 8 (gpr s RDX) (x86_mem s)) (x86_mem s)"
  by (simp add: linux_load_code_def set_gpr_def ea_def frame_ctx_def register_ctx_def linux_layout_def)

lemma linux_swap:
  assumes "m = mem_store 8 (gpr s RSI) (gpr s RSP - 0x38) (linux_frame s)"
  shows "\<exists>s'. linux_co_context_swap s = Some s' \<and> x86_mem s' = m \<and> gpr s' RAX = gpr s RDI
     \<and> register_ctx linux_layout (gpr s' RSP) (rip s') s' = frame_ctx linux_layout (mem_load 8 (gpr s RDX) m) m"
  using linux_load[of "s\<lparr>gpr := (gpr s)(RSP := gpr s RSP - 0x38), x86_mem := m\<rparr>"] assms
  by (simp add: linux_co_context_swap_def linux_swap_code_def x86_run_append linux_save)

interpretation lx: frame_switch linux_x64 "0x40" "frame_ctx linux_layout" "\<lambda>_. True" "\<lambda>_. True" "frame_of linux_layout" linux_frame
proof
  fix s :: x86 and x
  show "frame_ctx linux_layout (frame_of linux_layout s) (linux_frame s) = sw_calling linux_x64 s"
    by (simp add: linux_x64_def x86_sel frame_ctx_def register_ctx_def frame_of_def linux_layout_def linux_frame_def Let_def
        load_store_same load_store_other)
  assume "x \<notin> region (frame_of linux_layout s) 0x40"
  then have "x \<notin> region (gpr s RSP - 0x38) 0x40" by (simp add: frame_of_def linux_layout_def)
  then show "linux_frame s x = sw_mem linux_x64 s x"
    by (simp add: linux_frame_def Let_def store_shift linux_x64_def x86_sel)
next
  fix s :: x86 and m and sp :: u64
  assume "m = mem_store (sw_word linux_x64) (sw_from linux_x64 s) (frame_of linux_layout s) (linux_frame s)" "sp = mem_load (sw_word linux_x64) (sw_to linux_x64 s) m"
  then show "\<exists>s'. sw_run linux_x64 s = Some s' \<and> sw_mem linux_x64 s' = m \<and> sw_result linux_x64 s' = sw_arg linux_x64 s
      \<and> sw_current linux_x64 s' = frame_ctx linux_layout sp m"
    using linux_swap[of m s] by (auto simp: linux_x64_def x86_sel linux_sel)
qed (simp_all add: linux_x64_def x86_sel frame_ctx_cong layouts_ok linux_sel)

text \<open>On Windows the vector registers 6 to 15 are saved too, each at a multiple of 16.\<close>

lemma aligned_iff: "w AND 15 = 0 \<longleftrightarrow> unat w mod 16 = 0" for w :: u64
proof -
  have "w AND 15 = w mod 16" using take_bit_eq_mask[of 4 w] by (simp add: mask_numeral take_bit_eq_mod)
  then show ?thesis by (simp add: word_unat_eq_iff unat_mod)
qed

lemma aligned_shift:
  fixes a b :: u64
  assumes "a AND 15 = 0" "unat (b - a) mod 16 = 0"
  shows "b AND 15 = 0"
proof -
  have "unat b = (unat (b - a) + unat a) mod 2 ^ 64" using unat_word_ariths(1)[of "b - a" a] by simp
  moreover have "16 dvd unat (b - a) + unat a" using assms by (intro dvd_add) (simp_all only: aligned_iff mod_eq_0_iff_dvd)
  ultimately have "16 dvd unat b" by (simp add: dvd_mod)
  then show ?thesis by (simp only: aligned_iff mod_eq_0_iff_dvd)
qed

definition windows_frame :: "x86 \<Rightarrow> 64 memory" where
  "windows_frame s =
     (let sp = gpr s RSP - 0xE8 in
      mem_store 8 (sp + 0xE0) (gpr s RDI) (mem_store 8 (sp + 0xD8) (gpr s RSI) (mem_store 8 (sp + 0xD0) (gpr s RBP)
     (mem_store 8 (sp + 0xC8) (gpr s RBX) (mem_store 8 (sp + 0xC0) (gpr s R15) (mem_store 8 (sp + 0xB8) (gpr s R14)
     (mem_store 8 (sp + 0xB0) (gpr s R13) (mem_store 8 (sp + 0xA8) (gpr s R12) (mem_store 2 (sp + 0xA4) (x87_cw s)
     (mem_store 4 (sp + 0xA0) (mxcsr s) (mem_store 16 (sp + 0x90) (xmm s 15) (mem_store 16 (sp + 0x80) (xmm s 14)
     (mem_store 16 (sp + 0x70) (xmm s 13) (mem_store 16 (sp + 0x60) (xmm s 12) (mem_store 16 (sp + 0x50) (xmm s 11)
     (mem_store 16 (sp + 0x40) (xmm s 10) (mem_store 16 (sp + 0x30) (xmm s 9) (mem_store 16 (sp + 0x20) (xmm s 8)
     (mem_store 16 (sp + 0x10) (xmm s 7) (mem_store 16 sp (xmm s 6) (x86_mem s)))))))))))))))))))))"

lemma windows_save:
  assumes "gpr s RSP - 0xE8 AND 15 = 0"
  shows "x86_run windows_save_code s = Some (s\<lparr>gpr := (gpr s)(RSP := gpr s RSP - 0xE8),
     x86_mem := mem_store 8 (gpr s RDX) (gpr s RSP - 0xE8) (windows_frame s)\<rparr>)"
  by (simp add: windows_save_code_def set_gpr_def ea_def windows_frame_def Let_def assms aligned_shift[OF assms])

lemma windows_load:
  assumes "mem_load 8 (gpr s R8) (x86_mem s) = sp" "sp AND 15 = 0"
  shows "\<exists>s'. x86_run windows_load_code s = Some s' \<and> x86_mem s' = x86_mem s \<and> gpr s' RAX = gpr s RCX
     \<and> register_ctx windows_layout (gpr s' RSP) (rip s') s' = frame_ctx windows_layout sp (x86_mem s)"
  by (simp add: windows_load_code_def set_gpr_def ea_def frame_ctx_def register_ctx_def windows_layout_def assms aligned_shift[OF assms(2)])

lemma windows_swap:
  assumes "gpr s RSP - 0xE8 AND 15 = 0" "m = mem_store 8 (gpr s RDX) (gpr s RSP - 0xE8) (windows_frame s)"
    "mem_load 8 (gpr s R8) m = sp" "sp AND 15 = 0"
  shows "\<exists>s'. windows_co_context_swap s = Some s' \<and> x86_mem s' = m \<and> gpr s' RAX = gpr s RCX
     \<and> register_ctx windows_layout (gpr s' RSP) (rip s') s' = frame_ctx windows_layout sp m"
  using windows_load[of "s\<lparr>gpr := (gpr s)(RSP := gpr s RSP - 0xE8), x86_mem := m\<rparr>" sp] windows_save[OF assms(1)] assms(2-4)
  by (simp add: windows_co_context_swap_def windows_swap_code_def x86_run_append)

interpretation wx: frame_switch windows_x64 "0xF0" "frame_ctx windows_layout" "\<lambda>_. True" "\<lambda>sp. sp AND 15 = 0"
  "frame_of windows_layout" windows_frame
proof
  fix s :: x86 and x
  show "frame_ctx windows_layout (frame_of windows_layout s) (windows_frame s) = sw_calling windows_x64 s"
    by (simp add: windows_x64_def x86_sel frame_ctx_def register_ctx_def frame_of_def windows_layout_def windows_frame_def Let_def
        load_store_same load_store_other)
  assume "x \<notin> region (frame_of windows_layout s) 0xF0"
  then have "x \<notin> region (gpr s RSP - 0xE8) 0xF0" by (simp add: frame_of_def windows_layout_def)
  note store_shift[OF this, simp]
  show "windows_frame s x = sw_mem windows_x64 s x" by (simp add: windows_frame_def Let_def windows_x64_def x86_sel)
next
  fix s :: x86 and m and sp :: u64
  assume a: "frame_of windows_layout s AND 15 = 0" and m: "m = mem_store (sw_word windows_x64) (sw_from windows_x64 s) (frame_of windows_layout s) (windows_frame s)"
    and sp: "sp = mem_load (sw_word windows_x64) (sw_to windows_x64 s) m" and v: "sp AND 15 = 0"
  show "\<exists>s'. sw_run windows_x64 s = Some s' \<and> sw_mem windows_x64 s' = m \<and> sw_result windows_x64 s' = sw_arg windows_x64 s
      \<and> sw_current windows_x64 s' = frame_ctx windows_layout sp m"
    using windows_swap[of s m sp] a m sp v by (auto simp: windows_x64_def x86_sel windows_sel)
qed (simp_all add: windows_x64_def x86_sel frame_ctx_cong layouts_ok windows_sel)

subsection \<open>The arm64 port\<close>

record arm_context =
  a_x :: "u64 list"
  a_d :: "u64 list"
  a_sp :: u64
  a_pc :: u64

definition arm_frame_ctx :: "u64 \<Rightarrow> 64 memory \<Rightarrow> arm_context" where
  "arm_frame_ctx sp m =
     \<lparr>a_x = map (\<lambda>i. mem_load 8 (sp + (0x40 + 8 * of_nat i)) m) [0..<12], a_d = map (\<lambda>i. mem_load 8 (sp + 8 * of_nat i) m) [0..<8],
      a_sp = sp + 0xA0, a_pc = mem_load 8 (sp + 0x98) m\<rparr>"

definition arm_register_ctx :: "u64 \<Rightarrow> arm64 \<Rightarrow> arm_context" where
  "arm_register_ctx ip s = \<lparr>a_x = map (xreg s) [19..<31], a_d = map (dreg s) [8..<16], a_sp = asp s, a_pc = ip\<rparr>"

definition macos_arm64 :: "(arm64, u64, arm_context) switcher" where
  "macos_arm64 =
     \<lparr>sw_run = macos_co_context_swap, sw_word = 8, sw_mem = arm_mem, sw_calling = (\<lambda>s. arm_register_ctx (xreg s 30) s),
      sw_current = (\<lambda>s. arm_register_ctx (pc s) s), sw_arg = (\<lambda>s. xreg s 0), sw_from = (\<lambda>s. xreg s 1), sw_to = (\<lambda>s. xreg s 2),
      sw_result = (\<lambda>s. xreg s 0), sw_aligned = (\<lambda>s. (asp s - 0xA0) AND 15 = 0), sw_frame = (\<lambda>s. region (asp s - 0xA0) 0xA0),
      sw_parked = (\<lambda>m p. arm_frame_ctx (mem_load 8 p m) m),
      sw_foot = (\<lambda>m p. region p 8 \<union> region (mem_load 8 p m) 0xA0),
      sw_touch = (\<lambda>_ _. {}),
      sw_valid = (\<lambda>m p. (mem_load 8 p m :: u64) AND 15 = 0)\<rparr>"

definition macos_frame :: "arm64 \<Rightarrow> 64 memory" where
  "macos_frame s =
     (let sp = asp s - 0xA0 in
      mem_store 8 (sp + 0x98) (xreg s 30) (mem_store 8 (sp + 0x90) (xreg s 29) (mem_store 8 (sp + 0x88) (xreg s 28)
     (mem_store 8 (sp + 0x80) (xreg s 27) (mem_store 8 (sp + 0x78) (xreg s 26) (mem_store 8 (sp + 0x70) (xreg s 25)
     (mem_store 8 (sp + 0x68) (xreg s 24) (mem_store 8 (sp + 0x60) (xreg s 23) (mem_store 8 (sp + 0x58) (xreg s 22)
     (mem_store 8 (sp + 0x50) (xreg s 21) (mem_store 8 (sp + 0x48) (xreg s 20) (mem_store 8 (sp + 0x40) (xreg s 19)
     (mem_store 8 (sp + 0x38) (dreg s 15) (mem_store 8 (sp + 0x30) (dreg s 14) (mem_store 8 (sp + 0x28) (dreg s 13)
     (mem_store 8 (sp + 0x20) (dreg s 12) (mem_store 8 (sp + 0x18) (dreg s 11) (mem_store 8 (sp + 0x10) (dreg s 10)
     (mem_store 8 (sp + 0x8) (dreg s 9) (mem_store 8 sp (dreg s 8) (arm_mem s)))))))))))))))))))))"

lemma arm_frame_ctx_cong:
  assumes m: "\<forall>x\<in>region sp 0xA0. m' x = m x"
  shows "arm_frame_ctx sp m' = arm_frame_ctx sp m"
proof -
  have e: "mem_load 8 (sp + d) m' = (mem_load 8 (sp + d) m :: u64)" if "unat d + 8 \<le> 0xA0" for d
    by (rule mem_load_region) (use region_shift[OF that, of sp] m in auto)
  show ?thesis by (simp add: arm_frame_ctx_def e upt_rec e[of 0, simplified])
qed

lemma macos_save:
  assumes "asp s - 0xA0 AND 15 = 0"
  shows "arm_run macos_save_code s = Some (s\<lparr>xreg := (xreg s)(3 := asp s - 0xA0), asp := asp s - 0xA0,
     arm_mem := mem_store 8 (xreg s 1) (asp s - 0xA0) (macos_frame s)\<rparr>)"
  by (simp add: macos_save_code_def set_x_def at_sp_def macos_frame_def Let_def assms)

lemma macos_load:
  assumes "mem_load 8 (xreg s 2) (arm_mem s) = sp" "sp AND 15 = 0"
  shows "\<exists>s'. arm_run macos_load_code s = Some s' \<and> arm_mem s' = arm_mem s \<and> xreg s' 0 = xreg s 0
     \<and> arm_register_ctx (pc s') s' = arm_frame_ctx sp (arm_mem s)"
  by (simp add: macos_load_code_def set_x_def at_sp_def arm_frame_ctx_def arm_register_ctx_def upt_rec assms)

lemma macos_swap:
  assumes "asp s - 0xA0 AND 15 = 0" "m = mem_store 8 (xreg s 1) (asp s - 0xA0) (macos_frame s)"
    "mem_load 8 (xreg s 2) m = sp" "sp AND 15 = 0"
  shows "\<exists>s'. macos_co_context_swap s = Some s' \<and> arm_mem s' = m \<and> xreg s' 0 = xreg s 0
     \<and> arm_register_ctx (pc s') s' = arm_frame_ctx sp m"
  using macos_load[of "s\<lparr>xreg := (xreg s)(3 := asp s - 0xA0), asp := asp s - 0xA0, arm_mem := m\<rparr>" sp] macos_save[OF assms(1)] assms(2-4)
  by (simp add: macos_co_context_swap_def macos_swap_code_def arm_run_append)

interpretation mx: frame_switch macos_arm64 "0xA0" arm_frame_ctx "\<lambda>_. True" "\<lambda>sp. sp AND 15 = 0" "\<lambda>s. asp s - 0xA0" macos_frame
proof
  fix s :: arm64 and x
  show "arm_frame_ctx (asp s - 0xA0) (macos_frame s) = sw_calling macos_arm64 s"
    by (simp add: macos_arm64_def arm_frame_ctx_def arm_register_ctx_def macos_frame_def Let_def load_store_same load_store_other upt_rec)
  assume "x \<notin> region (asp s - 0xA0) 0xA0"
  note store_shift[OF this, simp]
  show "macos_frame s x = sw_mem macos_arm64 s x" by (simp add: macos_frame_def Let_def macos_arm64_def)
next
  fix s :: arm64 and m and sp :: u64
  assume "(asp s - 0xA0) AND 15 = 0" "m = mem_store (sw_word macos_arm64) (sw_from macos_arm64 s) (asp s - 0xA0) (macos_frame s)"
    "sp = mem_load (sw_word macos_arm64) (sw_to macos_arm64 s) m" "sp AND 15 = 0"
  then show "\<exists>s'. sw_run macos_arm64 s = Some s' \<and> sw_mem macos_arm64 s' = m \<and> sw_result macos_arm64 s' = sw_arg macos_arm64 s
      \<and> sw_current macos_arm64 s' = arm_frame_ctx sp m"
    using macos_swap[of s m sp] by (simp add: macos_arm64_def)
qed (simp_all add: macos_arm64_def arm_frame_ctx_cong)

subsection \<open>New coroutines\<close>

lemma linux_make:
  "\<exists>s'. linux_co_context_make tr fi s = Some s' \<and> gpr s' RAX = (gpr s RSI AND NOT 0xF) - 0x40
    \<and> (\<exists>a b c d. frame_ctx linux_layout (gpr s' RAX) (x86_mem s') =
         \<lparr>c_gprs = [a, b, c, d, gpr s RDX, fi], c_xmms = [], c_mxcsr = mxcsr s, c_cw = x87_cw s,
          c_rsp = gpr s RSI AND NOT 0xF, c_rip = tr\<rparr>)"
  by (simp add: linux_co_context_make_def set_gpr_def ea_def frame_ctx_def linux_layout_def load_store_same load_store_other)

lemma aligned_top: "(a AND NOT 0xF) AND 15 = 0" for a :: u64
  by (rule bit_word_eqI) (auto simp: bit_simps)

lemma aligned_same: "a AND 15 = 0 \<Longrightarrow> a AND NOT 0xF = a" for a :: u64
proof -
  have "a = (a AND NOT 0xF) OR (a AND 15)" by (rule bit_word_eqI) (auto simp: bit_simps)
  then show "a AND 15 = 0 \<Longrightarrow> a AND NOT 0xF = a" by simp
qed

lemma above_disjoint:
  fixes a :: u64
  assumes "n < 2 ^ 28"
  shows "region (a + of_nat n) 0x20 \<inter> region a n = {}"
proof (cases "n = 0")
  case False
  have u: "unat (of_nat n :: u64) = n" by (rule unat_of_nat_small) (use assms in simp_all)
  then have "(of_nat n :: u64) \<noteq> 0" using False by force
  from unat_uminus[OF this] have "unat (- of_nat n :: u64) + n = 2 ^ LENGTH(64)" by (simp only: u)
  then show ?thesis using assms by (intro region_disjoint) (simp_all add: word_le_nat_alt)
qed (simp add: region_def)

lemma replicate_10: "replicate 10 x = [x, x, x, x, x, x, x, x, x, x]"
  by (simp add: numeral_eq_Suc)

text \<open>The context is made as an aligned frame at \<open>c\<close>; the zeroed area first, then the words of the entry.\<close>

lemma windows_make:
  "\<exists>s'. windows_co_context_make tr fi s = Some s' \<and> gpr s' RAX = (gpr s RDX AND NOT 0xF) - 0xF0
    \<and> (\<exists>a b c d e f. frame_ctx windows_layout (gpr s' RAX) (x86_mem s') =
         \<lparr>c_gprs = [a, b, c, d, gpr s R8, fi, e, f], c_xmms = replicate 10 0, c_mxcsr = mxcsr s, c_cw = x87_cw s,
          c_rsp = gpr s RDX AND NOT 0xF, c_rip = tr\<rparr>)"
proof -
  have al: "(gpr s RDX AND - 16) - 0xF0 AND 15 = 0" using aligned_shift[OF aligned_top[of "gpr s RDX"], of "(gpr s RDX AND - 16) - 0xF0"] by simp
  show ?thesis
    by (simp add: windows_co_context_make_def set_gpr_def ea_def frame_ctx_def windows_layout_def load_store_same load_store_other
        replicate_10 al aligned_shift[OF al])
qed

lemma macos_make:
  "\<exists>c m'. macos_co_context_make start stk f m = (c, m') \<and> c = (stk AND NOT 0xF) - 0xA0 \<and> hd (a_x (arm_frame_ctx c m')) = f
     \<and> a_sp (arm_frame_ctx c m') = stk AND NOT 0xF \<and> a_pc (arm_frame_ctx c m') = start"
  by (simp add: macos_co_context_make_def arm_frame_ctx_def Let_def load_store_same load_store_other hd_map)

text \<open>The switch leaves the argument registers alone, so a new coroutine gets \<open>arg\<close> as its argument.\<close>

fun target :: "x86_instr \<Rightarrow> reg64 option" where
  "target (Leaq d b r) = Some r"
| "target (LeaqLabel l r) = Some r"
| "target (Movq r q) = Some q"
| "target (MovqLoad d b r) = Some r"
| "target (Andq i r) = Some r"
| "target (Pushq r) = Some RSP"
| "target Ret = Some RSP"
| "target _ = None"

lemma run_keeps: "x86_run code s = Some s' \<Longrightarrow> \<forall>i\<in>set code. target i \<noteq> Some r \<Longrightarrow> gpr s' r = gpr s r"
proof (induction code arbitrary: s)
  case (Cons i code)
  then obtain t where t: "x86_exec i s = Some t" "x86_run code t = Some s'" by (auto simp: bind_eq_Some_conv)
  have "gpr t r = gpr s r" using t(1) Cons.prems(2) by (cases i) (auto simp: set_gpr_def Let_def split: if_splits)
  then show ?case using Cons.IH[OF t(2)] Cons.prems(2) by simp
qed simp

lemma linux_kept: "linux_co_context_swap s = Some s' \<Longrightarrow> gpr s' RDI = gpr s RDI"
  unfolding linux_co_context_swap_def by (erule run_keeps) (simp add: linux_swap_code_def linux_save_code_def linux_load_code_def)

lemma windows_kept: "windows_co_context_swap s = Some s' \<Longrightarrow> gpr s' RCX = gpr s RCX"
  unfolding windows_co_context_swap_def by (erule run_keeps) (simp add: windows_swap_code_def windows_save_code_def windows_load_code_def)

text \<open>What the two calls of \<open>co_context_make\<close> and \<open>co_context_swap\<close> leave to the trampoline.\<close>

lemma linux_entry:
  assumes make: "linux_co_context_make tr fi s0 = Some s1"
    and c: "register_ctx linux_layout (gpr s RSP) (rip s) s = frame_ctx linux_layout (gpr s1 RAX) (x86_mem s1)"
  shows "rip s = tr \<and> (\<exists>s'. linux_trampoline s = Some s' \<and> rip s' = gpr s0 RDX \<and> gpr s' RDI = gpr s RDI
    \<and> gpr s' RSP = (gpr s0 RSI AND NOT 0xF) - 8 \<and> mem_load 8 (gpr s' RSP) (x86_mem s') = fi \<and> mxcsr s' = mxcsr s0 \<and> x87_cw s' = x87_cw s0)"
  using linux_make[of tr fi s0] assms
  by (auto simp: register_ctx_def linux_layout_def linux_trampoline_def set_gpr_def Let_def load_store_same)

lemma windows_entry:
  assumes make: "windows_co_context_make tr fi s0 = Some s1"
    and c: "register_ctx windows_layout (gpr s RSP) (rip s) s = frame_ctx windows_layout (gpr s1 RAX) (x86_mem s1)"
  shows "rip s = tr \<and> (\<exists>s'. windows_trampoline s = Some s' \<and> rip s' = gpr s0 R8 \<and> gpr s' RCX = gpr s RCX
    \<and> gpr s' RSP = (gpr s0 RDX AND NOT 0xF) - 8 \<and> mem_load 8 (gpr s' RSP) (x86_mem s') = fi \<and> mxcsr s' = mxcsr s0 \<and> x87_cw s' = x87_cw s0)"
  using windows_make[of tr fi s0] assms
  by (auto simp: register_ctx_def windows_layout_def windows_trampoline_def set_gpr_def Let_def load_store_same)

text \<open>Small machines: a coroutine is made below \<open>0x2000\<close> and parked in the variable at \<open>0x3000\<close>.\<close>

definition demo_regs :: "(reg64 \<times> u64) list \<Rightarrow> x86" where
  "demo_regs rs = \<lparr>gpr = (\<lambda>r. case map_of rs r of Some v \<Rightarrow> v | None \<Rightarrow> 0), xmm = (\<lambda>_. 3), mxcsr = 0x1F80, x87_cw = 0x37F, rip = 0,
     x86_mem = (\<lambda>_. 0)\<rparr>"

definition linux_made :: x86 where
  "linux_made = the (linux_co_context_make 0x4000 0x4100 (demo_regs [(RSI, 0x2000), (RDX, 0x5000), (RSP, 0x1800)]))"

definition linux_demo :: x86 where
  "linux_demo = (demo_regs [(RSP, 0x1800), (RDI, 7), (RSI, 0x3008), (RDX, 0x3000)])\<lparr>x86_mem := mem_store 8 0x3000 (gpr linux_made RAX) (x86_mem linux_made)\<rparr>"

lemma linux_made: "linux_co_context_make 0x4000 0x4100 (demo_regs [(RSI, 0x2000), (RDX, 0x5000), (RSP, 0x1800)]) = Some linux_made"
  "gpr linux_made RAX = 0x1FC0"
  by (simp_all add: linux_made_def linux_co_context_make_def set_gpr_def ea_def demo_regs_def)

lemma linux_demo_parked:
  "mem_load 8 0x3000 (x86_mem linux_demo) = (0x1FC0 :: u64)"
  "sw_parked linux_x64 (x86_mem linux_demo) 0x3000 = frame_ctx linux_layout (gpr linux_made RAX) (x86_mem linux_made)"
proof -
  show l: "mem_load 8 0x3000 (x86_mem linux_demo) = (0x1FC0 :: u64)" by (simp add: linux_demo_def linux_made load_store_same)
  have "frame_ctx linux_layout 0x1FC0 (x86_mem linux_demo) = frame_ctx linux_layout 0x1FC0 (x86_mem linux_made)"
    by (simp add: frame_ctx_def linux_layout_def linux_demo_def load_store_other)
  then show "sw_parked linux_x64 (x86_mem linux_demo) 0x3000 = frame_ctx linux_layout (gpr linux_made RAX) (x86_mem linux_made)"
    by (simp add: linux_x64_def x86_sel l linux_made)
qed

lemma linux_demo:
  "co_run linux_x64 linux_demo [0x3000 \<mapsto> frame_ctx linux_layout (gpr linux_made RAX) (x86_mem linux_made)]"
  "can_switch linux_x64 [0x3000 \<mapsto> frame_ctx linux_layout (gpr linux_made RAX) (x86_mem linux_made)] linux_demo"
  "gpr linux_demo RDX = 0x3000" "gpr linux_demo RSP = 0x1800" "gpr linux_demo RSI = 0x3008" "gpr linux_demo RDI = 7"
proof -
  note l = linux_demo_parked(1)
  have v: "sw_valid linux_x64 (x86_mem linux_demo) 0x3000" by (simp add: linux_x64_def x86_sel linux_sel)
  have m: "sw_mem linux_x64 linux_demo = x86_mem linux_demo" by (simp add: linux_x64_def x86_sel)
  show "co_run linux_x64 linux_demo [0x3000 \<mapsto> frame_ctx linux_layout (gpr linux_made RAX) (x86_mem linux_made)]"
    using co_run.make[OF co_run.start, where W = linux_x64 and s = linux_demo and p = "0x3000"] v
    by (simp add: m linux_demo_parked(2))
  show "can_switch linux_x64 [0x3000 \<mapsto> frame_ctx linux_layout (gpr linux_made RAX) (x86_mem linux_made)] linux_demo"
    by (simp add: can_switch_def sw_writes_def linux_x64_def x86_sel linux_sel l Int_Un_distrib Int_Un_distrib2 region_disjoint)
      (simp add: linux_demo_def demo_regs_def region_disjoint)
qed (simp_all add: linux_demo_def demo_regs_def)

definition windows_made :: x86 where
  "windows_made = the (windows_co_context_make 0x4000 0x4100 (demo_regs [(RDX, 0x1000 + of_nat 0x1000), (R8, 0x5000), (RSP, 0x1808)]))"

definition windows_demo :: x86 where
  "windows_demo = (demo_regs [(RSP, 0x1808), (RCX, 7), (RDX, 0x3008), (R8, 0x3000)])\<lparr>x86_mem := mem_store 8 0x3000 (gpr windows_made RAX) (x86_mem windows_made)\<rparr>"

lemma windows_made: "windows_co_context_make 0x4000 0x4100 (demo_regs [(RDX, 0x1000 + of_nat 0x1000), (R8, 0x5000), (RSP, 0x1808)]) = Some windows_made"
  "gpr windows_made RAX = 0x1F10"
  by (simp_all add: windows_made_def windows_co_context_make_def set_gpr_def ea_def demo_regs_def)

lemma windows_demo:
  "co_run windows_x64 windows_demo [0x3000 \<mapsto> frame_ctx windows_layout (gpr windows_made RAX) (x86_mem windows_made)]"
  "can_switch windows_x64 [0x3000 \<mapsto> frame_ctx windows_layout (gpr windows_made RAX) (x86_mem windows_made)] windows_demo"
  "gpr windows_demo R8 = 0x3000"
proof -
  have l: "mem_load 8 0x3000 (x86_mem windows_demo) = (0x1F10 :: u64)" by (simp add: windows_demo_def windows_made load_store_same)
  have c: "frame_ctx windows_layout 0x1F10 (x86_mem windows_demo) = frame_ctx windows_layout 0x1F10 (x86_mem windows_made)"
    by (simp add: frame_ctx_def windows_layout_def windows_demo_def load_store_other)
  show "co_run windows_x64 windows_demo [0x3000 \<mapsto> frame_ctx windows_layout (gpr windows_made RAX) (x86_mem windows_made)]"
    using co_run.make[OF co_run.start, where W = windows_x64 and s = windows_demo and p = "0x3000"]
    by (simp add: windows_x64_def x86_sel windows_sel windows_made l c)
  show "can_switch windows_x64 [0x3000 \<mapsto> frame_ctx windows_layout (gpr windows_made RAX) (x86_mem windows_made)] windows_demo"
    by (simp add: can_switch_def sw_writes_def windows_x64_def x86_sel windows_sel l Int_Un_distrib Int_Un_distrib2 region_disjoint)
      (simp add: windows_demo_def demo_regs_def region_disjoint)
qed (simp add: windows_demo_def demo_regs_def)

definition macos_demo :: arm64 where
  "macos_demo = \<lparr>xreg = (\<lambda>_. 0)(0 := 7, 1 := 0x3008, 2 := 0x3000), dreg = (\<lambda>_. 0), asp = 0x1800, pc = 0,
     arm_mem = (case macos_co_context_make 0x4000 0x2000 0x5000 (\<lambda>_. 0) of (c, m) \<Rightarrow> mem_store 8 0x3000 c m)\<rparr>"

lemma macos_demo:
  "co_run macos_arm64 macos_demo [0x3000 \<mapsto> arm_frame_ctx 0x1F60 (arm_mem macos_demo)]"
  "can_switch macos_arm64 [0x3000 \<mapsto> arm_frame_ctx 0x1F60 (arm_mem macos_demo)] macos_demo"
proof -
  have l: "mem_load 8 0x3000 (arm_mem macos_demo) = (0x1F60 :: u64)"
    by (simp add: macos_demo_def macos_co_context_make_def Let_def load_store_same)
  show "co_run macos_arm64 macos_demo [0x3000 \<mapsto> arm_frame_ctx 0x1F60 (arm_mem macos_demo)]"
    using co_run.make[OF co_run.start, where W = macos_arm64 and s = macos_demo and p = "0x3000"] by (simp add: macos_arm64_def l)
  show "can_switch macos_arm64 [0x3000 \<mapsto> arm_frame_ctx 0x1F60 (arm_mem macos_demo)] macos_demo"
    by (simp add: can_switch_def sw_writes_def macos_arm64_def l Int_Un_distrib Int_Un_distrib2 region_disjoint)
      (simp add: macos_demo_def region_disjoint)
qed

text \<open>
  After any history of coroutines, a switch on Linux (\<open>rdi\<close> is \<open>arg\<close>, \<open>rsi\<close> is \<open>from\<close>, \<open>rdx\<close> is \<open>to\<close>) resumes
  the coroutine of \<open>to\<close> exactly in the context it was parked with, whenever that was: the callee-saved registers, the
  control words, the stack pointer and the address to go on at. \<open>co_context_swap\<close> returns \<open>arg\<close> there, and no memory is
  written outside the frame below the stack pointer and \<open>*from\<close>.
\<close>

theorem linux_coroutine_resumed:
  assumes "co_run linux_x64 s P" "can_switch linux_x64 P s"
  shows "\<exists>s'. linux_co_context_swap s = Some s' \<and> P (gpr s RDX) = Some (register_ctx linux_layout (gpr s' RSP) (rip s') s')
    \<and> gpr s' RAX = gpr s RDI
    \<and> (\<forall>x. x \<notin> region (gpr s RSP - 0x38) 0x40 \<union> region (gpr s RSI) 8 \<longrightarrow> x86_mem s' x = x86_mem s x)"
  using lx.history_switch[OF assms] by (simp add: linux_x64_def x86_sel linux_sel sw_writes_def)

theorem linux_coroutine_resumed_witness:
  "\<exists>P s'. linux_co_context_swap linux_demo = Some s' \<and> P 0x3000 = Some (register_ctx linux_layout (gpr s' RSP) (rip s') s')
    \<and> gpr s' RAX = 7 \<and> P 0x3000 = Some (frame_ctx linux_layout (gpr linux_made RAX) (x86_mem linux_made))"
  using linux_coroutine_resumed[OF linux_demo(1,2)] linux_demo(3,6) by (metis fun_upd_same)

text \<open>
  The same on arm64, where \<open>x0\<close> to \<open>x2\<close> are \<open>arg\<close>, \<open>from\<close> and \<open>to\<close> and the context has \<open>x19\<close> to \<open>x30\<close> and
  \<open>d8\<close> to \<open>d15\<close>: the coroutine goes on at its link register with its registers and its stack, and its call returns \<open>arg\<close>.
\<close>

lemma macos_coroutine_resumed:
  assumes "co_run macos_arm64 s P" "can_switch macos_arm64 P s"
  shows "\<exists>s'. macos_co_context_swap s = Some s' \<and> P (xreg s 2) = Some (arm_register_ctx (pc s') s') \<and> xreg s' 0 = xreg s 0
    \<and> (\<forall>x. x \<notin> region (asp s - 0xA0) 0xA0 \<union> region (xreg s 1) 8 \<longrightarrow> arm_mem s' x = arm_mem s x)"
  using mx.history_switch[OF assms] by (simp add: macos_arm64_def sw_writes_def)

lemma macos_coroutine_resumed_witness:
  "\<exists>s'. macos_co_context_swap macos_demo = Some s' \<and> arm_register_ctx (pc s') s' = arm_frame_ctx 0x1F60 (arm_mem macos_demo)"
proof -
  have "xreg macos_demo 2 = 0x3000" by (simp add: macos_demo_def)
  then show ?thesis using macos_coroutine_resumed[OF macos_demo] by auto
qed

text \<open>
  A coroutine made on Linux by \<open>co_context_make(stack_lim, stack_top, func)\<close> that is still parked, after any history,
  is entered by the switch at the trampoline, which goes to \<open>func\<close> with \<open>arg\<close> of the switch as its argument, with
  \<open>finish\<close> as the return address on the aligned top of its stack, 16 bytes aligned as the calling convention has it,
  and with the control words of its maker.
\<close>

theorem linux_first_entry:
  assumes "linux_co_context_make tr fi s0 = Some s1" "co_run linux_x64 s P" "can_switch linux_x64 P s"
    and "P (gpr s RDX) = Some (frame_ctx linux_layout (gpr s1 RAX) (x86_mem s1))"
  shows "\<exists>s' s''. linux_co_context_swap s = Some s' \<and> rip s' = tr \<and> linux_trampoline s' = Some s''
    \<and> rip s'' = gpr s0 RDX \<and> gpr s'' RDI = gpr s RDI
    \<and> gpr s'' RSP = (gpr s0 RSI AND NOT 0xF) - 8 \<and> (gpr s'' RSP + 8) AND 15 = 0 \<and> mem_load 8 (gpr s'' RSP) (x86_mem s'') = fi
    \<and> mxcsr s'' = mxcsr s0 \<and> x87_cw s'' = x87_cw s0"
proof -
  obtain s' where s': "linux_co_context_swap s = Some s'"
    "register_ctx linux_layout (gpr s' RSP) (rip s') s' = frame_ctx linux_layout (gpr s1 RAX) (x86_mem s1)"
    using lx.history_switch[OF assms(2,3)] assms(4) by (auto simp: linux_x64_def x86_sel linux_sel)
  then have "gpr s' RDI = gpr s RDI" using linux_kept by blast
  with s' linux_entry[OF assms(1) s'(2)] aligned_top[of "gpr s0 RSI"] show ?thesis by (metis diff_add_cancel)
qed

theorem linux_first_entry_witness:
  "\<exists>s' s''. linux_co_context_swap linux_demo = Some s' \<and> linux_trampoline s' = Some s'' \<and> rip s'' = 0x5000 \<and> gpr s'' RDI = 7
    \<and> gpr s'' RSP = 0x1FF8 \<and> mem_load 8 (gpr s'' RSP) (x86_mem s'') = (0x4100 :: u64)"
  using linux_first_entry[OF linux_made(1) linux_demo(1,2)] by (auto simp: linux_demo) (auto simp: demo_regs_def)

text \<open>
  C11. The same on Windows, where the calling convention gives \<open>func\<close> 32 bytes above its return address to store its
  register arguments in. When \<open>stack_top\<close> is aligned, as it is for the \<open>n\<close> bytes of a stack from the heap, the first
  coroutine function has this space outside of its stack, in whatever lies behind it.
\<close>

theorem windows_home_space:
  assumes "windows_co_context_make tr fi s0 = Some s1" "co_run windows_x64 s P" "can_switch windows_x64 P s"
    and "P (gpr s R8) = Some (frame_ctx windows_layout (gpr s1 RAX) (x86_mem s1))"
    and "gpr s0 RDX = lim + of_nat n" "gpr s0 RDX AND 15 = 0" "n < 2 ^ 28"
  shows "\<exists>s' s''. windows_co_context_swap s = Some s' \<and> rip s' = tr \<and> windows_trampoline s' = Some s''
    \<and> rip s'' = gpr s0 R8 \<and> gpr s'' RCX = gpr s RCX \<and> gpr s'' RSP + 8 = lim + of_nat n
    \<and> region (gpr s'' RSP + 8) 0x20 \<inter> region lim n = {}"
proof -
  obtain s' where s': "windows_co_context_swap s = Some s'"
    "register_ctx windows_layout (gpr s' RSP) (rip s') s' = frame_ctx windows_layout (gpr s1 RAX) (x86_mem s1)"
    using wx.history_switch[OF assms(2,3)] assms(4) by (auto simp: windows_x64_def x86_sel windows_sel)
  then have "gpr s' RCX = gpr s RCX" using windows_kept by blast
  then show ?thesis
    using s' windows_entry[OF assms(1) s'(2)] aligned_same[OF assms(6)] assms(5) above_disjoint[OF assms(7), of lim]
    by (metis diff_add_cancel)
qed

theorem windows_home_space_witness:
  "\<exists>s' s''. windows_co_context_swap windows_demo = Some s' \<and> windows_trampoline s' = Some s'' \<and> rip s'' = 0x5000
    \<and> gpr s'' RSP + 8 = 0x2000 \<and> region (gpr s'' RSP + 8) 0x20 \<inter> region 0x1000 0x1000 = {}"
  using windows_home_space[OF windows_made(1) windows_demo(1,2), of "0x1000" "0x1000"]
  by (auto simp: windows_demo) (auto simp: demo_regs_def)

end
