(* ===== verification/Eh_Coroutine32.thy ===== *)
theory Eh_Coroutine32
  imports Eh_Machine
begin

text \<open>
  The context switches of the microcontrollers that switch in an ordinary function: \<^verbatim>\<open>coroutine/cortex-m0/coroutine_psp.c\<close>,
  \<^verbatim>\<open>coroutine/cortex-m3/coroutine_psp.c\<close> and \<^verbatim>\<open>coroutine/riscv32-bumblebee-n200\<close>, on 32-bit machines. \<open>None\<close> is the fault of a
  misaligned access.
\<close>

subsection \<open>The Cortex-M machine\<close>

text \<open>
  \<open>creg\<close> has the registers \<open>r0\<close> to \<open>r12\<close>, \<open>sp\<close> (13), \<open>lr\<close> (14) and \<open>pc\<close> (15). The two low bits of \<open>sp\<close> are always 0;
  \<open>pc\<close> is an interworking address, whose bit 0 stays 1.
\<close>

record cortex =
  creg :: "nat \<Rightarrow> u32"
  c_mem :: "32 memory"

datatype thumb_instr =
    CPush "nat list"
  | CPop "nat list"
  | CMov nat nat
  | CStr nat nat
  | CLdr nat nat
  | CBlx nat u32

definition set_creg :: "nat \<Rightarrow> u32 \<Rightarrow> cortex \<Rightarrow> cortex" where
  "set_creg r v s = s\<lparr>creg := (creg s)(r := if r = 13 then v AND NOT 3 else v)\<rparr>"

fun store_words :: "u32 \<Rightarrow> u32 list \<Rightarrow> 32 memory \<Rightarrow> 32 memory" where
  "store_words a [] m = m"
| "store_words a (v # vs) m = store_words (a + 4) vs (mem_store 4 a v m)"

fun load_words :: "u32 \<Rightarrow> nat list \<Rightarrow> cortex \<Rightarrow> cortex" where
  "load_words a [] s = s"
| "load_words a (r # rs) s = load_words (a + 4) rs (set_creg r (mem_load 4 a (c_mem s)) s)"

fun thumb_exec :: "thumb_instr \<Rightarrow> cortex \<Rightarrow> cortex option" where
  "thumb_exec (CPush rs) s =
     (let sp = creg s 13 - 4 * of_nat (length rs)
      in if sp AND 3 \<noteq> 0 then None else Some (set_creg 13 sp (s\<lparr>c_mem := store_words sp (map (creg s) rs) (c_mem s)\<rparr>)))"
| "thumb_exec (CPop rs) s =
     (let sp = creg s 13
      in if sp AND 3 \<noteq> 0 then None else Some (set_creg 13 (sp + 4 * of_nat (length rs)) (load_words sp rs s)))"
| "thumb_exec (CMov d r) s = Some (set_creg d (creg s r) s)"
| "thumb_exec (CStr r b) s =
     (if creg s b AND 3 \<noteq> 0 then None else Some (s\<lparr>c_mem := mem_store 4 (creg s b) (creg s r) (c_mem s)\<rparr>))"
| "thumb_exec (CLdr r b) s =
     (if creg s b AND 3 \<noteq> 0 then None else Some (set_creg r (mem_load 4 (creg s b) (c_mem s)) s))"
| "thumb_exec (CBlx r ret) s = Some (set_creg 15 (creg s r) (set_creg 14 ret s))"

fun thumb_run :: "thumb_instr list \<Rightarrow> cortex \<Rightarrow> cortex option" where
  "thumb_run [] s = Some s"
| "thumb_run (i # is) s = Option.bind (thumb_exec i s) (thumb_run is)"

subsection \<open>Cortex-M0\<close>

definition m0_save_code :: "thumb_instr list" where
  "m0_save_code =
     [CPush [4, 5, 6, 7, 14],
      CMov 4 8, CMov 5 9, CMov 6 10, CMov 7 11,
      CPush [4, 5, 6, 7],
      CMov 4 12,
      CPush [4],
      CMov 3 13, CStr 3 1]"

definition m0_load_code :: "thumb_instr list" where
  "m0_load_code =
     [CLdr 3 2, CMov 13 3,
      CPop [4],
      CMov 12 4,
      CPop [4, 5, 6, 7],
      CMov 8 4, CMov 9 5, CMov 10 6, CMov 11 7,
      CPop [4, 5, 6, 7, 15]]"

definition m0_co_context_swap :: "cortex \<Rightarrow> cortex option" where
  "m0_co_context_swap s = thumb_run (m0_save_code @ m0_load_code) s"

text \<open>\<open>ret\<close> is the address of the endless loop after the call.\<close>

definition m0_start_task :: "u32 \<Rightarrow> cortex \<Rightarrow> cortex option" where
  "m0_start_task ret s = thumb_run [CBlx 7 ret] s"

text \<open>\<open>sizeof(struct stack_init_context)\<close> is 40, with \<open>r7\<close> at 32 and \<open>lr\<close> at 36.\<close>

definition m0_co_context_make :: "u32 \<Rightarrow> u32 \<Rightarrow> u32 \<Rightarrow> 32 memory \<Rightarrow> u32 \<times> 32 memory" where
  "m0_co_context_make start_task stack_top func m =
     (let u32_stack_top = stack_top AND NOT 7;
          context_m0 = u32_stack_top - 40;
          m = mem_zero 40 context_m0 m;
          m = mem_store 4 (context_m0 + 36) start_task m;
          m = mem_store 4 (context_m0 + 32) func m
      in (context_m0, m))"

subsection \<open>Cortex-M3\<close>

definition m3_save_code :: "thumb_instr list" where
  "m3_save_code = [CPush [4, 5, 6, 7, 8, 9, 10, 11, 12, 14], CMov 3 13, CStr 3 1]"

definition m3_load_code :: "thumb_instr list" where
  "m3_load_code = [CLdr 3 2, CMov 13 3, CPop [4, 5, 6, 7, 8, 9, 10, 11, 12, 15]]"

definition m3_co_context_swap :: "cortex \<Rightarrow> cortex option" where
  "m3_co_context_swap s = thumb_run (m3_save_code @ m3_load_code) s"

definition m3_start_task :: "u32 \<Rightarrow> cortex \<Rightarrow> cortex option" where
  "m3_start_task ret s = thumb_run [CBlx 7 ret] s"

text \<open>Here \<open>r7\<close> is at 12.\<close>

definition m3_co_context_make :: "u32 \<Rightarrow> u32 \<Rightarrow> u32 \<Rightarrow> 32 memory \<Rightarrow> u32 \<times> 32 memory" where
  "m3_co_context_make start_task stack_top func m =
     (let u32_stack_top = stack_top AND NOT 7;
          context_m3 = u32_stack_top - 40;
          m = mem_zero 40 context_m3 m;
          m = mem_store 4 (context_m3 + 36) start_task m;
          m = mem_store 4 (context_m3 + 12) func m
      in (context_m3, m))"

subsection \<open>The RISC-V machine\<close>

text \<open>
  Registers by number: \<open>ra\<close> is \<open>x1\<close>, \<open>sp\<close> is \<open>x2\<close>, \<open>s0\<close> and \<open>s1\<close> are \<open>x8\<close> and \<open>x9\<close>, \<open>a0\<close> to \<open>a2\<close> are \<open>x10\<close> to \<open>x12\<close>,
  \<open>s2\<close> to \<open>s11\<close> are \<open>x18\<close> to \<open>x27\<close>.
\<close>

record riscv =
  xr :: "nat \<Rightarrow> u32"
  rv_pc :: u32
  rv_mem :: "32 memory"

datatype rv_instr =
    RvAddi nat nat int
  | RvSw nat int nat
  | RvLw nat int nat
  | RvRet
  | RvJalr nat nat u32

definition set_xr :: "nat \<Rightarrow> u32 \<Rightarrow> riscv \<Rightarrow> riscv" where
  "set_xr r v s = s\<lparr>xr := (xr s)(r := v)\<rparr>"

fun rv_exec :: "rv_instr \<Rightarrow> riscv \<Rightarrow> riscv option" where
  "rv_exec (RvAddi d r i) s = Some (set_xr d (xr s r + word_of_int i) s)"
| "rv_exec (RvSw r off b) s =
     (let a = xr s b + word_of_int off in if a AND 3 \<noteq> 0 then None else Some (s\<lparr>rv_mem := mem_store 4 a (xr s r) (rv_mem s)\<rparr>))"
| "rv_exec (RvLw r off b) s =
     (let a = xr s b + word_of_int off in if a AND 3 \<noteq> 0 then None else Some (set_xr r (mem_load 4 a (rv_mem s)) s))"
| "rv_exec RvRet s = Some (s\<lparr>rv_pc := xr s 1 AND NOT 1\<rparr>)"
| "rv_exec (RvJalr d r ret) s = Some (set_xr d ret (s\<lparr>rv_pc := xr s r AND NOT 1\<rparr>))"

fun rv_run :: "rv_instr list \<Rightarrow> riscv \<Rightarrow> riscv option" where
  "rv_run [] s = Some s"
| "rv_run (i # is) s = Option.bind (rv_exec i s) (rv_run is)"

definition riscv_save_code :: "rv_instr list" where
  "riscv_save_code =
     [RvAddi 2 2 (- 52),
      RvSw 8 0 2, RvSw 9 4 2, RvSw 18 8 2, RvSw 19 12 2, RvSw 20 16 2, RvSw 21 20 2, RvSw 22 24 2,
      RvSw 23 28 2, RvSw 24 32 2, RvSw 25 36 2, RvSw 26 40 2, RvSw 27 44 2, RvSw 1 48 2,
      RvSw 2 0 11]"

definition riscv_load_code :: "rv_instr list" where
  "riscv_load_code =
     [RvLw 2 0 12,
      RvLw 1 48 2, RvLw 27 44 2, RvLw 26 40 2, RvLw 25 36 2, RvLw 24 32 2, RvLw 23 28 2, RvLw 22 24 2,
      RvLw 21 20 2, RvLw 20 16 2, RvLw 19 12 2, RvLw 18 8 2, RvLw 9 4 2, RvLw 8 0 2,
      RvAddi 2 2 52,
      RvRet]"

definition riscv_co_context_swap :: "riscv \<Rightarrow> riscv option" where
  "riscv_co_context_swap s = rv_run (riscv_save_code @ riscv_load_code) s"

definition riscv_start_task :: "u32 \<Rightarrow> riscv \<Rightarrow> riscv option" where
  "riscv_start_task ret s = rv_run [RvJalr 1 8 ret] s"

text \<open>The context has 52 bytes, with \<open>s0\<close> at 0 and \<open>ra\<close> at 48.\<close>

definition riscv_co_context_make :: "u32 \<Rightarrow> u32 \<Rightarrow> u32 \<Rightarrow> 32 memory \<Rightarrow> u32 \<times> 32 memory" where
  "riscv_co_context_make start_task stack_top func m =
     (let stack_top = stack_top AND NOT 0xF;
          ctx = stack_top - 52;
          m = mem_zero 52 ctx m;
          m = mem_store 4 (ctx + 48) start_task m;
          m = mem_store 4 ctx func m
      in (ctx, m))"

end
