(* ===== verification/Eh_Coroutine32_Ports.thy ===== *)
theory Eh_Coroutine32_Ports
  imports Eh_Coroutine32 Eh_Coroutine_Ports
begin

text \<open>
  The switches of the microcontrollers are instances of \<open>frame_switch\<close> as well, with frames of 40 bytes on Cortex-M and
  of 52 on RISC-V, and variables and frames at multiples of 4.
\<close>

lemma aligned3_iff: "w AND 3 = 0 \<longleftrightarrow> unat w mod 4 = 0" for w :: u32
proof -
  have "w AND 3 = w mod 4" using take_bit_eq_mask[of 2 w] by (simp add: mask_numeral take_bit_eq_mod)
  then show ?thesis by (simp add: word_unat_eq_iff unat_mod)
qed

lemma aligned3_shift:
  fixes a b :: u32
  assumes "a AND 3 = 0" "unat (b - a) mod 4 = 0"
  shows "b AND 3 = 0"
proof -
  have "unat b = (unat (b - a) + unat a) mod 2 ^ 32" using unat_word_ariths(1)[of "b - a" a] by simp
  moreover have "4 dvd unat (b - a) + unat a" using assms by (intro dvd_add) (simp_all only: aligned3_iff mod_eq_0_iff_dvd)
  ultimately have "4 dvd unat b" by (simp add: dvd_mod)
  then show ?thesis by (simp only: aligned3_iff mod_eq_0_iff_dvd)
qed

lemma aligned3_same: "a AND 3 = 0 \<Longrightarrow> a AND - 4 = a" for a :: u32
proof -
  have "a = (a AND NOT 3) OR (a AND 3)" by (rule bit_word_eqI) (auto simp: bit_simps)
  then show "a AND 3 = 0 \<Longrightarrow> a AND - 4 = a" by simp
qed

subsection \<open>Cortex-M\<close>

record cortex_context =
  cx_r :: "u32 list"
  cx_sp :: u32
  cx_pc :: u32

text \<open>\<open>offs\<close> are the places of \<open>r4\<close> to \<open>r12\<close> in a frame; the return address is the last word.\<close>

definition m0_offs :: "u32 list" where "m0_offs = [20, 24, 28, 32, 4, 8, 12, 16, 0]"
definition m3_offs :: "u32 list" where "m3_offs = [0, 4, 8, 12, 16, 20, 24, 28, 32]"

definition cortex_frame_ctx :: "u32 list \<Rightarrow> u32 \<Rightarrow> 32 memory \<Rightarrow> cortex_context" where
  "cortex_frame_ctx offs sp m = \<lparr>cx_r = map (\<lambda>d. mem_load 4 (sp + d) m) offs, cx_sp = sp + 40, cx_pc = mem_load 4 (sp + 36) m\<rparr>"

definition cortex_register_ctx :: "u32 \<Rightarrow> cortex \<Rightarrow> cortex_context" where
  "cortex_register_ctx ip s = \<lparr>cx_r = map (creg s) [4, 5, 6, 7, 8, 9, 10, 11, 12], cx_sp = creg s 13, cx_pc = ip\<rparr>"

definition cortex_switcher :: "u32 list \<Rightarrow> (cortex \<Rightarrow> cortex option) \<Rightarrow> (cortex, u32, cortex_context) switcher" where
  "cortex_switcher offs code =
     \<lparr>sw_run = code, sw_word = 4, sw_mem = c_mem, sw_calling = (\<lambda>s. cortex_register_ctx (creg s 14) s),
      sw_current = (\<lambda>s. cortex_register_ctx (creg s 15) s), sw_arg = (\<lambda>s. creg s 0), sw_from = (\<lambda>s. creg s 1), sw_to = (\<lambda>s. creg s 2),
      sw_result = (\<lambda>s. creg s 0), sw_aligned = (\<lambda>s. creg s 1 AND 3 = 0 \<and> (creg s 13 - 40) AND 3 = 0),
      sw_frame = (\<lambda>s. region (creg s 13 - 40) 40),
      sw_parked = (\<lambda>m p. cortex_frame_ctx offs (mem_load 4 p m) m),
      sw_foot = (\<lambda>m p. region p 4 \<union> region (mem_load 4 p m) 40),
      sw_touch = (\<lambda>_ _. {}),
      sw_valid = (\<lambda>m p. p AND 3 = 0 \<and> (mem_load 4 p m :: u32) AND 3 = 0)\<rparr>"

definition cortex_m0 :: "(cortex, u32, cortex_context) switcher" where
  "cortex_m0 = cortex_switcher m0_offs m0_co_context_swap"

definition cortex_m3 :: "(cortex, u32, cortex_context) switcher" where
  "cortex_m3 = cortex_switcher m3_offs m3_co_context_swap"

lemma cortex_frame_ctx_cong:
  assumes m: "\<forall>x\<in>region sp 40. m' x = m x" and offs: "\<forall>d\<in>set offs. unat d + 4 \<le> 40"
  shows "cortex_frame_ctx offs sp m' = cortex_frame_ctx offs sp m"
proof -
  have e: "mem_load 4 (sp + d) m' = (mem_load 4 (sp + d) m :: u32)" if "unat d + 4 \<le> 40" for d
    by (rule mem_load_region) (use region_shift[OF that, of sp] m in auto)
  show ?thesis using offs by (auto simp: cortex_frame_ctx_def e)
qed

lemma thumb_run_append: "thumb_run (xs @ ys) s = Option.bind (thumb_run xs s) (thumb_run ys)"
  by (induction xs arbitrary: s) (auto split: Option.bind_splits)

definition m3_frame :: "cortex \<Rightarrow> 32 memory" where
  "m3_frame s = store_words (creg s 13 - 40) (map (creg s) [4, 5, 6, 7, 8, 9, 10, 11, 12, 14]) (c_mem s)"

lemma m3_save:
  assumes "creg s 13 - 40 AND 3 = 0" "creg s 1 AND 3 = 0"
  shows "thumb_run m3_save_code s = Some (s\<lparr>creg := (creg s)(13 := creg s 13 - 40, 3 := creg s 13 - 40),
     c_mem := mem_store 4 (creg s 1) (creg s 13 - 40) (m3_frame s)\<rparr>)"
  by (simp add: m3_save_code_def set_creg_def m3_frame_def Let_def assms assms(2)[unfolded One_nat_def] aligned3_same[OF assms(1)])

lemma m3_load:
  assumes "mem_load 4 (creg s 2) (c_mem s) = sp" "sp AND 3 = 0" "creg s 2 AND 3 = 0"
  shows "\<exists>s'. thumb_run m3_load_code s = Some s' \<and> c_mem s' = c_mem s \<and> creg s' 0 = creg s 0
     \<and> cortex_register_ctx (creg s' 15) s' = cortex_frame_ctx m3_offs sp (c_mem s)"
  by (simp add: m3_load_code_def set_creg_def cortex_register_ctx_def cortex_frame_ctx_def m3_offs_def Let_def assms aligned3_same[OF assms(2)]
      aligned3_same[OF aligned3_shift[OF assms(2)]] add.commute[of sp])

lemma m3_swap:
  assumes "creg s 1 AND 3 = 0" "creg s 13 - 40 AND 3 = 0" "creg s 2 AND 3 = 0"
    "m = mem_store 4 (creg s 1) (creg s 13 - 40) (m3_frame s)" "mem_load 4 (creg s 2) m = sp" "sp AND 3 = 0"
  shows "\<exists>s'. m3_co_context_swap s = Some s' \<and> c_mem s' = m \<and> creg s' 0 = creg s 0
     \<and> cortex_register_ctx (creg s' 15) s' = cortex_frame_ctx m3_offs sp m"
  using m3_load[of "s\<lparr>creg := (creg s)(13 := creg s 13 - 40, 3 := creg s 13 - 40), c_mem := m\<rparr>" sp] m3_save[OF assms(2,1)] assms(3-6)
  by (simp add: m3_co_context_swap_def thumb_run_append)

interpretation m3: frame_switch cortex_m3 40 "cortex_frame_ctx m3_offs" "\<lambda>p. p AND 3 = 0" "\<lambda>sp. sp AND 3 = 0" "\<lambda>s. creg s 13 - 40" m3_frame
proof
  fix s :: cortex and x
  show "cortex_frame_ctx m3_offs (creg s 13 - 40) (m3_frame s) = sw_calling cortex_m3 s"
    by (simp add: cortex_m3_def cortex_switcher_def cortex_frame_ctx_def cortex_register_ctx_def m3_offs_def m3_frame_def
        load_store_same load_store_other)
  assume "x \<notin> region (creg s 13 - 40) 40"
  note store_shift[OF this, simp]
  show "m3_frame s x = sw_mem cortex_m3 s x" by (simp add: m3_frame_def cortex_m3_def cortex_switcher_def)
next
  fix s :: cortex and m and sp :: u32
  assume "sw_from cortex_m3 s AND 3 = 0" "creg s 13 - 40 AND 3 = 0" "sw_to cortex_m3 s AND 3 = 0"
    "m = mem_store (sw_word cortex_m3) (sw_from cortex_m3 s) (creg s 13 - 40) (m3_frame s)"
    "sp = mem_load (sw_word cortex_m3) (sw_to cortex_m3 s) m" "sp AND 3 = 0"
  then show "\<exists>s'. sw_run cortex_m3 s = Some s' \<and> sw_mem cortex_m3 s' = m \<and> sw_result cortex_m3 s' = sw_arg cortex_m3 s
      \<and> sw_current cortex_m3 s' = cortex_frame_ctx m3_offs sp m"
    using m3_swap[of s m sp] by (simp add: cortex_m3_def cortex_switcher_def)
qed (auto simp: cortex_m3_def cortex_switcher_def m3_offs_def intro!: cortex_frame_ctx_cong)

text \<open>The Cortex-M0 stores the high registers through the low ones.\<close>

definition m0_frame :: "cortex \<Rightarrow> 32 memory" where
  "m0_frame s =
     (let sp = creg s 13 - 40 in
      store_words sp [creg s 12] (store_words (sp + 4) (map (creg s) [8, 9, 10, 11]) (store_words (sp + 20) (map (creg s) [4, 5, 6, 7, 14]) (c_mem s))))"

lemma m0_save:
  assumes "creg s 13 - 40 AND 3 = 0" "creg s 1 AND 3 = 0"
  shows "thumb_run m0_save_code s = Some (s\<lparr>creg := (creg s)(5 := creg s 9, 6 := creg s 10, 7 := creg s 11, 4 := creg s 12,
       13 := creg s 13 - 40, 3 := creg s 13 - 40),
     c_mem := mem_store 4 (creg s 1) (creg s 13 - 40) (m0_frame s)\<rparr>)"
  by (simp add: m0_save_code_def set_creg_def m0_frame_def Let_def assms assms(2)[unfolded One_nat_def]
      aligned3_shift[OF assms(1)] aligned3_same[OF assms(1)] aligned3_same[OF aligned3_shift[OF assms(1)]])

lemma m0_load:
  assumes "mem_load 4 (creg s 2) (c_mem s) = sp" "sp AND 3 = 0" "creg s 2 AND 3 = 0"
  shows "\<exists>s'. thumb_run m0_load_code s = Some s' \<and> c_mem s' = c_mem s \<and> creg s' 0 = creg s 0
     \<and> cortex_register_ctx (creg s' 15) s' = cortex_frame_ctx m0_offs sp (c_mem s)"
  by (simp add: m0_load_code_def set_creg_def cortex_register_ctx_def cortex_frame_ctx_def m0_offs_def Let_def assms aligned3_same[OF assms(2)]
      aligned3_shift[OF assms(2)] aligned3_same[OF aligned3_shift[OF assms(2)]] add.commute[of sp])

lemma m0_swap:
  assumes "creg s 1 AND 3 = 0" "creg s 13 - 40 AND 3 = 0" "creg s 2 AND 3 = 0"
    "m = mem_store 4 (creg s 1) (creg s 13 - 40) (m0_frame s)" "mem_load 4 (creg s 2) m = sp" "sp AND 3 = 0"
  shows "\<exists>s'. m0_co_context_swap s = Some s' \<and> c_mem s' = m \<and> creg s' 0 = creg s 0
     \<and> cortex_register_ctx (creg s' 15) s' = cortex_frame_ctx m0_offs sp m"
proof -
  obtain r where r: "thumb_run m0_save_code s = Some (s\<lparr>creg := r, c_mem := m\<rparr>)" "r 0 = creg s 0" "r 2 = creg s 2"
    using m0_save[OF assms(2,1)] assms(4) by auto
  then show ?thesis using m0_load[of "s\<lparr>creg := r, c_mem := m\<rparr>" sp] assms(3,5,6)
    by (simp add: m0_co_context_swap_def thumb_run_append)
qed

interpretation m0: frame_switch cortex_m0 40 "cortex_frame_ctx m0_offs" "\<lambda>p. p AND 3 = 0" "\<lambda>sp. sp AND 3 = 0" "\<lambda>s. creg s 13 - 40" m0_frame
proof
  fix s :: cortex and x
  show "cortex_frame_ctx m0_offs (creg s 13 - 40) (m0_frame s) = sw_calling cortex_m0 s"
    by (simp add: cortex_m0_def cortex_switcher_def cortex_frame_ctx_def cortex_register_ctx_def m0_offs_def m0_frame_def Let_def
        load_store_same load_store_other)
  assume "x \<notin> region (creg s 13 - 40) 40"
  note store_shift[OF this, simp]
  show "m0_frame s x = sw_mem cortex_m0 s x" by (simp add: m0_frame_def cortex_m0_def cortex_switcher_def Let_def)
next
  fix s :: cortex and m and sp :: u32
  assume "sw_from cortex_m0 s AND 3 = 0" "creg s 13 - 40 AND 3 = 0" "sw_to cortex_m0 s AND 3 = 0"
    "m = mem_store (sw_word cortex_m0) (sw_from cortex_m0 s) (creg s 13 - 40) (m0_frame s)"
    "sp = mem_load (sw_word cortex_m0) (sw_to cortex_m0 s) m" "sp AND 3 = 0"
  then show "\<exists>s'. sw_run cortex_m0 s = Some s' \<and> sw_mem cortex_m0 s' = m \<and> sw_result cortex_m0 s' = sw_arg cortex_m0 s
      \<and> sw_current cortex_m0 s' = cortex_frame_ctx m0_offs sp m"
    using m0_swap[of s m sp] by (simp add: cortex_m0_def cortex_switcher_def)
qed (auto simp: cortex_m0_def cortex_switcher_def m0_offs_def intro!: cortex_frame_ctx_cong)

subsection \<open>RISC-V\<close>

record rv_context =
  rx_s :: "u32 list"
  rx_sp :: u32
  rx_pc :: u32

definition rv_frame_ctx :: "u32 \<Rightarrow> 32 memory \<Rightarrow> rv_context" where
  "rv_frame_ctx sp m =
     \<lparr>rx_s = map (\<lambda>d. mem_load 4 (sp + d) m) [0, 4, 8, 12, 16, 20, 24, 28, 32, 36, 40, 44, 48], rx_sp = sp + 52,
      rx_pc = mem_load 4 (sp + 48) m AND NOT 1\<rparr>"

definition rv_register_ctx :: "u32 \<Rightarrow> riscv \<Rightarrow> rv_context" where
  "rv_register_ctx ip s =
     \<lparr>rx_s = map (xr s) [8, 9, 18, 19, 20, 21, 22, 23, 24, 25, 26, 27, 1], rx_sp = xr s 2, rx_pc = ip\<rparr>"

definition riscv32 :: "(riscv, u32, rv_context) switcher" where
  "riscv32 =
     \<lparr>sw_run = riscv_co_context_swap, sw_word = 4, sw_mem = rv_mem, sw_calling = (\<lambda>s. rv_register_ctx (xr s 1 AND NOT 1) s),
      sw_current = (\<lambda>s. rv_register_ctx (rv_pc s) s), sw_arg = (\<lambda>s. xr s 10), sw_from = (\<lambda>s. xr s 11), sw_to = (\<lambda>s. xr s 12),
      sw_result = (\<lambda>s. xr s 10), sw_aligned = (\<lambda>s. xr s 11 AND 3 = 0 \<and> (xr s 2 - 52) AND 3 = 0),
      sw_frame = (\<lambda>s. region (xr s 2 - 52) 52),
      sw_parked = (\<lambda>m p. rv_frame_ctx (mem_load 4 p m) m),
      sw_foot = (\<lambda>m p. region p 4 \<union> region (mem_load 4 p m) 52),
      sw_touch = (\<lambda>_ _. {}),
      sw_valid = (\<lambda>m p. p AND 3 = 0 \<and> (mem_load 4 p m :: u32) AND 3 = 0)\<rparr>"

lemma rv_frame_ctx_cong:
  assumes m: "\<forall>x\<in>region sp 52. m' x = m x"
  shows "rv_frame_ctx sp m' = rv_frame_ctx sp m"
proof -
  have e: "mem_load 4 (sp + d) m' = (mem_load 4 (sp + d) m :: u32)" if "unat d + 4 \<le> 52" for d
    by (rule mem_load_region) (use region_shift[OF that, of sp] m in auto)
  show ?thesis by (simp add: rv_frame_ctx_def e e[of 0, simplified])
qed

lemma rv_run_append: "rv_run (xs @ ys) s = Option.bind (rv_run xs s) (rv_run ys)"
  by (induction xs arbitrary: s) (auto split: Option.bind_splits)

definition riscv_frame :: "riscv \<Rightarrow> 32 memory" where
  "riscv_frame s =
     (let sp = xr s 2 - 52 in
      mem_store 4 (sp + 48) (xr s 1) (mem_store 4 (sp + 44) (xr s 27) (mem_store 4 (sp + 40) (xr s 26) (mem_store 4 (sp + 36) (xr s 25)
     (mem_store 4 (sp + 32) (xr s 24) (mem_store 4 (sp + 28) (xr s 23) (mem_store 4 (sp + 24) (xr s 22) (mem_store 4 (sp + 20) (xr s 21)
     (mem_store 4 (sp + 16) (xr s 20) (mem_store 4 (sp + 12) (xr s 19) (mem_store 4 (sp + 8) (xr s 18) (mem_store 4 (sp + 4) (xr s 9)
     (mem_store 4 sp (xr s 8) (rv_mem s))))))))))))))"

lemma riscv_save:
  assumes "xr s 2 - 52 AND 3 = 0" "xr s 11 AND 3 = 0"
  shows "rv_run riscv_save_code s = Some (s\<lparr>xr := (xr s)(2 := xr s 2 - 52),
     rv_mem := mem_store 4 (xr s 11) (xr s 2 - 52) (riscv_frame s)\<rparr>)"
  by (simp add: riscv_save_code_def set_xr_def riscv_frame_def Let_def assms aligned3_shift[OF assms(1)])

lemma riscv_load:
  assumes "mem_load 4 (xr s 12) (rv_mem s) = sp" "sp AND 3 = 0" "xr s 12 AND 3 = 0"
  shows "\<exists>s'. rv_run riscv_load_code s = Some s' \<and> rv_mem s' = rv_mem s \<and> xr s' 10 = xr s 10
     \<and> rv_register_ctx (rv_pc s') s' = rv_frame_ctx sp (rv_mem s)"
  by (simp add: riscv_load_code_def set_xr_def rv_register_ctx_def rv_frame_ctx_def Let_def assms aligned3_shift[OF assms(2)])

lemma riscv_swap:
  assumes "xr s 11 AND 3 = 0" "xr s 2 - 52 AND 3 = 0" "xr s 12 AND 3 = 0"
    "m = mem_store 4 (xr s 11) (xr s 2 - 52) (riscv_frame s)" "mem_load 4 (xr s 12) m = sp" "sp AND 3 = 0"
  shows "\<exists>s'. riscv_co_context_swap s = Some s' \<and> rv_mem s' = m \<and> xr s' 10 = xr s 10
     \<and> rv_register_ctx (rv_pc s') s' = rv_frame_ctx sp m"
  using riscv_load[of "s\<lparr>xr := (xr s)(2 := xr s 2 - 52), rv_mem := m\<rparr>" sp] riscv_save[OF assms(2,1)] assms(3-6)
  by (simp add: riscv_co_context_swap_def rv_run_append)

interpretation rv: frame_switch riscv32 52 rv_frame_ctx "\<lambda>p. p AND 3 = 0" "\<lambda>sp. sp AND 3 = 0" "\<lambda>s. xr s 2 - 52" riscv_frame
proof
  fix s :: riscv and x
  show "rv_frame_ctx (xr s 2 - 52) (riscv_frame s) = sw_calling riscv32 s"
    by (simp add: riscv32_def rv_frame_ctx_def rv_register_ctx_def riscv_frame_def Let_def load_store_same load_store_other)
  assume "x \<notin> region (xr s 2 - 52) 52"
  note store_shift[OF this, simp]
  show "riscv_frame s x = sw_mem riscv32 s x" by (simp add: riscv_frame_def riscv32_def Let_def)
next
  fix s :: riscv and m and sp :: u32
  assume "sw_from riscv32 s AND 3 = 0" "xr s 2 - 52 AND 3 = 0" "sw_to riscv32 s AND 3 = 0"
    "m = mem_store (sw_word riscv32) (sw_from riscv32 s) (xr s 2 - 52) (riscv_frame s)"
    "sp = mem_load (sw_word riscv32) (sw_to riscv32 s) m" "sp AND 3 = 0"
  then show "\<exists>s'. sw_run riscv32 s = Some s' \<and> sw_mem riscv32 s' = m \<and> sw_result riscv32 s' = sw_arg riscv32 s
      \<and> sw_current riscv32 s' = rv_frame_ctx sp m"
    using riscv_swap[of s m sp] by (simp add: riscv32_def)
qed (auto simp: riscv32_def intro!: rv_frame_ctx_cong)

subsection \<open>New coroutines\<close>

text \<open>The context that is made starts at \<open>start\<close>, with the function in the register that \<open>__start_task\<close> calls.\<close>

lemma load_zeroed:
  fixes a b :: u32
  assumes "unat (b - a) + k \<le> n" "k < 2 ^ 28"
  shows "mem_load k b (mem_zero n a m) = 0"
  by (rule load_zero) (use region_shift[OF assms(1), of a] assms(2) in simp_all)

lemma cortex_make:
  "\<exists>m'. m0_co_context_make start stk f m = ((stk AND NOT 7) - 40, m') \<and> cortex_frame_ctx m0_offs ((stk AND NOT 7) - 40) m' =
     \<lparr>cx_r = [0, 0, 0, f, 0, 0, 0, 0, 0], cx_sp = stk AND NOT 7, cx_pc = start\<rparr>"
  "\<exists>m'. m3_co_context_make start stk f m = ((stk AND NOT 7) - 40, m') \<and> cortex_frame_ctx m3_offs ((stk AND NOT 7) - 40) m' =
     \<lparr>cx_r = [0, 0, 0, f, 0, 0, 0, 0, 0], cx_sp = stk AND NOT 7, cx_pc = start\<rparr>"
  by (simp_all add: m0_co_context_make_def m3_co_context_make_def Let_def cortex_frame_ctx_def m0_offs_def m3_offs_def
      load_store_same load_store_other load_zeroed)

lemma riscv_make:
  "\<exists>m'. riscv_co_context_make start stk f m = ((stk AND NOT 0xF) - 52, m') \<and> rv_frame_ctx ((stk AND NOT 0xF) - 52) m' =
     \<lparr>rx_s = [f, 0, 0, 0, 0, 0, 0, 0, 0, 0, 0, 0, start], rx_sp = stk AND NOT 0xF, rx_pc = start AND NOT 1\<rparr>"
  by (simp add: riscv_co_context_make_def Let_def rv_frame_ctx_def load_store_same load_store_other load_zeroed)

text \<open>
  After any history a new coroutine is entered at \<open>func\<close>, with \<open>arg\<close> in the first argument register and its aligned stack
  empty.
\<close>

theorem m3_first_entry:
  assumes "m3_co_context_make start stk f m = (c, m')" "co_run cortex_m3 s P" "can_switch cortex_m3 P s"
    and "P (creg s 2) = Some (cortex_frame_ctx m3_offs c m')"
  shows "\<exists>s' s''. m3_co_context_swap s = Some s' \<and> creg s' 15 = start \<and> m3_start_task ret s' = Some s''
    \<and> creg s'' 15 = f \<and> creg s'' 0 = creg s 0 \<and> creg s'' 13 = stk AND NOT 7 \<and> creg s'' 14 = ret"
proof -
  obtain s' where s': "m3_co_context_swap s = Some s'" "creg s' 0 = creg s 0"
    "cortex_register_ctx (creg s' 15) s' = cortex_frame_ctx m3_offs c m'"
    using m3.history_switch[OF assms(2,3)] assms(4) by (auto simp: cortex_m3_def cortex_switcher_def)
  then show ?thesis using cortex_make(2)[of start stk f m] assms(1)
    by (auto simp: cortex_register_ctx_def m3_start_task_def set_creg_def)
qed

theorem m0_first_entry:
  assumes "m0_co_context_make start stk f m = (c, m')" "co_run cortex_m0 s P" "can_switch cortex_m0 P s"
    and "P (creg s 2) = Some (cortex_frame_ctx m0_offs c m')"
  shows "\<exists>s' s''. m0_co_context_swap s = Some s' \<and> creg s' 15 = start \<and> m0_start_task ret s' = Some s''
    \<and> creg s'' 15 = f \<and> creg s'' 0 = creg s 0 \<and> creg s'' 13 = stk AND NOT 7 \<and> creg s'' 14 = ret"
proof -
  obtain s' where s': "m0_co_context_swap s = Some s'" "creg s' 0 = creg s 0"
    "cortex_register_ctx (creg s' 15) s' = cortex_frame_ctx m0_offs c m'"
    using m0.history_switch[OF assms(2,3)] assms(4) by (auto simp: cortex_m0_def cortex_switcher_def)
  then show ?thesis using cortex_make(1)[of start stk f m] assms(1)
    by (auto simp: cortex_register_ctx_def m0_start_task_def set_creg_def)
qed

theorem riscv_first_entry:
  assumes "riscv_co_context_make start stk f m = (c, m')" "co_run riscv32 s P" "can_switch riscv32 P s"
    and "P (xr s 12) = Some (rv_frame_ctx c m')"
  shows "\<exists>s' s''. riscv_co_context_swap s = Some s' \<and> rv_pc s' = start AND NOT 1 \<and> riscv_start_task ret s' = Some s''
    \<and> rv_pc s'' = f AND NOT 1 \<and> xr s'' 10 = xr s 10 \<and> xr s'' 2 = stk AND NOT 0xF \<and> xr s'' 1 = ret"
proof -
  obtain s' where s': "riscv_co_context_swap s = Some s'" "xr s' 10 = xr s 10"
    "rv_register_ctx (rv_pc s') s' = rv_frame_ctx c m'"
    using rv.history_switch[OF assms(2,3)] assms(4) by (auto simp: riscv32_def)
  then show ?thesis using riscv_make[of start stk f m] assms(1)
    by (auto simp: rv_register_ctx_def riscv_start_task_def set_xr_def)
qed

end
