(* ===== verification/Eh_Pendsv.thy ===== *)
theory Eh_Pendsv
  imports Eh_Coroutine32
begin

text \<open>
  The context switches in the PendSV handlers of \<^verbatim>\<open>coroutine/cortex-m0\<close>, \<^verbatim>\<open>cortex-m3\<close>, \<^verbatim>\<open>cortex-m4\<close> and \<^verbatim>\<open>cortex-m7\<close>
  (\<^verbatim>\<open>coroutine_pendsv.c\<close>; the last two have the same code). The handler switches between the frames that the processor pushes at
  exception entry, so entry and return are part of the machine here, as the ARMv6-M and ARMv7-M manuals describe them.
\<close>

subsection \<open>The processor\<close>

text \<open>
  \<open>vreg\<close> has the registers \<open>r0\<close> to \<open>r12\<close>, \<open>lr\<close> (14) and \<open>pc\<close> (15, the address to go on at); coroutines run on \<open>psp\<close>. \<open>sreg\<close> are the
  registers of the floating point extension and \<open>fpca\<close> is set while they belong to the running code. \<open>pendsv_set\<close> is the bit
  \<open>PENDSVSET\<close> of the register \<open>ICSR\<close>.
\<close>

record cortex_v7 =
  vreg :: "nat \<Rightarrow> u32"
  psp :: u32
  xpsr :: u32
  fpca :: bool
  sreg :: "nat \<Rightarrow> u32"
  fpscr :: u32
  pendsv_set :: bool
  v_mem :: "32 memory"

definition ICSR_REGISTER_ADDRESS :: u32 where "ICSR_REGISTER_ADDRESS = 0xE000ED04"
definition ICSR_PENDSVSET_BIT :: u32 where "ICSR_PENDSVSET_BIT = push_bit 28 1"

datatype v7_instr =
    VMrsPsp nat
  | VMsrPsp nat
  | VMov nat nat
  | VMovi nat u32
  | VAddi nat int
  | VTst nat u32
  | VStr nat nat u32
  | VLdr nat nat u32
  | VStmia nat "nat list"
  | VStmdb nat "nat list"
  | VLdmia nat "nat list"
  | VStmdbEq nat "nat list"
  | VLdmiaEq nat "nat list"
  | VPush "nat list"
  | VPop "nat list"
  | VBx nat
  | VBlx nat u32

fun loads :: "u32 \<Rightarrow> nat \<Rightarrow> 32 memory \<Rightarrow> u32 list" where
  "loads a 0 m = []"
| "loads a (Suc n) m = mem_load 4 a m # loads (a + 4) n m"

fun set_regs :: "nat list \<Rightarrow> u32 list \<Rightarrow> (nat \<Rightarrow> u32) \<Rightarrow> nat \<Rightarrow> u32" where
  "set_regs (r # rs) (v # vs) f = set_regs rs vs (f(r := v))"
| "set_regs _ _ f = f"

definition set_nz :: "u32 \<Rightarrow> u32 \<Rightarrow> u32" where
  "set_nz v x = (x AND 0x3FFFFFFF) OR (if bit v 31 then 0x80000000 else 0) OR (if v = 0 then 0x40000000 else 0)"

abbreviation set_vreg :: "nat \<Rightarrow> u32 \<Rightarrow> cortex_v7 \<Rightarrow> cortex_v7" where
  "set_vreg r v s \<equiv> s\<lparr>vreg := (vreg s)(r := v)\<rparr>"

text \<open>
  The conditional instructions are those of a block \<open>it eq\<close>, on floating point registers; executing one takes the extension
  into use. \<open>VPush\<close> and \<open>VPop\<close> are those of a coroutine.
\<close>

fun v7_exec :: "v7_instr \<Rightarrow> cortex_v7 \<Rightarrow> cortex_v7 option" where
  "v7_exec (VMrsPsp d) s = Some (set_vreg d (psp s) s)"
| "v7_exec (VMsrPsp r) s = Some (s\<lparr>psp := vreg s r AND NOT 3\<rparr>)"
| "v7_exec (VMov d r) s = Some (set_vreg d (vreg s r) s)"
| "v7_exec (VMovi d v) s = Some (set_vreg d v s)"
| "v7_exec (VAddi d i) s = Some (let v = vreg s d + word_of_int i in (set_vreg d v s)\<lparr>xpsr := set_nz v (xpsr s)\<rparr>)"
| "v7_exec (VTst r v) s = Some (s\<lparr>xpsr := set_nz (vreg s r AND v) (xpsr s)\<rparr>)"
| "v7_exec (VStr r b off) s =
     (let a = vreg s b + off in
      if a AND 3 \<noteq> 0 then None
      else if a = ICSR_REGISTER_ADDRESS then Some (s\<lparr>pendsv_set := pendsv_set s \<or> vreg s r AND ICSR_PENDSVSET_BIT \<noteq> 0\<rparr>)
      else Some (s\<lparr>v_mem := mem_store 4 a (vreg s r) (v_mem s)\<rparr>))"
| "v7_exec (VLdr r b off) s =
     (let a = vreg s b + off in if a AND 3 \<noteq> 0 then None else Some (set_vreg r (mem_load 4 a (v_mem s)) s))"
| "v7_exec (VStmia b rs) s =
     (let a = vreg s b
      in if a AND 3 \<noteq> 0 then None
         else Some ((set_vreg b (a + 4 * of_nat (length rs)) s)\<lparr>v_mem := store_words a (map (vreg s) rs) (v_mem s)\<rparr>))"
| "v7_exec (VStmdb b rs) s =
     (let a = vreg s b - 4 * of_nat (length rs)
      in if a AND 3 \<noteq> 0 then None else Some ((set_vreg b a s)\<lparr>v_mem := store_words a (map (vreg s) rs) (v_mem s)\<rparr>))"
| "v7_exec (VLdmia b rs) s =
     (let a = vreg s b
      in if a AND 3 \<noteq> 0 then None
         else Some (s\<lparr>vreg := (set_regs rs (loads a (length rs) (v_mem s)) (vreg s))(b := a + 4 * of_nat (length rs))\<rparr>))"
| "v7_exec (VStmdbEq b rs) s =
     (if \<not> bit (xpsr s) 30 then Some s
      else let a = vreg s b - 4 * of_nat (length rs)
        in if a AND 3 \<noteq> 0 then None
           else Some ((set_vreg b a s)\<lparr>fpca := True, v_mem := store_words a (map (sreg s) rs) (v_mem s)\<rparr>))"
| "v7_exec (VLdmiaEq b rs) s =
     (if \<not> bit (xpsr s) 30 then Some s
      else let a = vreg s b
        in if a AND 3 \<noteq> 0 then None
           else Some ((set_vreg b (a + 4 * of_nat (length rs)) s)\<lparr>fpca := True, sreg := set_regs rs (loads a (length rs) (v_mem s)) (sreg s)\<rparr>))"
| "v7_exec (VPush rs) s =
     (let a = psp s - 4 * of_nat (length rs)
      in if a AND 3 \<noteq> 0 then None else Some (s\<lparr>psp := a, v_mem := store_words a (map (vreg s) rs) (v_mem s)\<rparr>))"
| "v7_exec (VPop rs) s =
     (let a = psp s
      in if a AND 3 \<noteq> 0 then None
         else Some (s\<lparr>psp := a + 4 * of_nat (length rs), vreg := set_regs rs (loads a (length rs) (v_mem s)) (vreg s)\<rparr>))"
| "v7_exec (VBx r) s = Some (set_vreg 15 (vreg s r) s)"
| "v7_exec (VBlx r ret) s = Some (s\<lparr>vreg := (vreg s)(14 := ret, 15 := vreg s r)\<rparr>)"

fun v7_run :: "v7_instr list \<Rightarrow> cortex_v7 \<Rightarrow> cortex_v7 option" where
  "v7_run [] s = Some s"
| "v7_run (i # is) s = Option.bind (v7_exec i s) (v7_run is)"

text \<open>
  Entry from a coroutine, with the stack alignment of \<open>CCR.STKALIGN\<close>, which is set after reset: eight words, and if \<open>ext\<close> (the extension exists and is
  in use) 18 more, of which the last is left free. Bit 9 of the pushed \<open>xPSR\<close> says whether a word was skipped to align the frame.
  The floating point registers are written at once: when the processor defers that, \<open>vstmdbeq\<close> makes it happen first.
\<close>

definition exc_return :: "bool \<Rightarrow> u32" where
  "exc_return ext = (if ext then 0xFFFFFFED else 0xFFFFFFFD)"

definition exception_entry :: "bool \<Rightarrow> cortex_v7 \<Rightarrow> cortex_v7" where
  "exception_entry have_fp s =
     (let ext = have_fp \<and> fpca s;
          frame = (psp s - (if ext then 0x68 else 0x20)) AND NOT 4;
          psr = (xpsr s AND NOT 0x200) OR (if bit (psp s) 2 then 0x200 else 0);
          m = store_words frame (map (vreg s) [0, 1, 2, 3, 12, 14, 15] @ [psr]) (v_mem s);
          m = (if ext then store_words (frame + 0x20) (map (sreg s) [0..<16] @ [fpscr s]) m else m)
      in s\<lparr>vreg := (vreg s)(14 := exc_return ext), psp := frame, xpsr := (xpsr s AND NOT 0x1FF) OR 14, fpca := False, pendsv_set := False,
           v_mem := m\<rparr>)"

text \<open>
  Return to a coroutine. \<open>None\<close> is a fault (the popped \<open>xPSR\<close> names an exception or does not have the bit of the Thumb state) and a return to another
  mode or stack.
\<close>

definition exception_return :: "bool \<Rightarrow> u32 \<Rightarrow> cortex_v7 \<Rightarrow> cortex_v7 option" where
  "exception_return have_fp ret s =
     (let ext = (ret = exc_return True);
          frame = psp s;
          psr = mem_load 4 (frame + 28) (v_mem s)
      in if ret \<noteq> exc_return False \<and> \<not> (have_fp \<and> ext) \<or> psr AND 0x010001FF \<noteq> 0x01000000 then None
         else Some (s\<lparr>vreg := set_regs [0, 1, 2, 3, 12, 14, 15] (loads frame 7 (v_mem s)) (vreg s),
                      psp := (frame + (if ext then 0x68 else 0x20)) OR (if bit psr 9 then 4 else 0),
                      xpsr := psr AND NOT 0x200, fpca := ext,
                      sreg := (if ext then set_regs [0..<16] (loads (frame + 0x20) 16 (v_mem s)) (sreg s) else sreg s),
                      fpscr := (if ext then mem_load 4 (frame + 0x60) (v_mem s) else fpscr s)\<rparr>))"

text \<open>A PendSV exception: the handler ends with \<open>bx lr\<close>, which returns.\<close>

definition pendsv :: "bool \<Rightarrow> v7_instr list \<Rightarrow> cortex_v7 \<Rightarrow> cortex_v7 option" where
  "pendsv have_fp handler s =
     Option.bind (v7_run handler (exception_entry have_fp s)) (\<lambda>s'. exception_return have_fp (vreg s' 14) s')"

subsection \<open>Requesting a switch\<close>

text \<open>
  \<open>co_context_swap\<close> is the same on all these processors: it pends PendSV, which has the lowest priority and is taken before the \<open>pop\<close> because of the
  barriers; \<open>at\<close> is the address where it is taken. The handler reads the arguments from the pushed \<open>r0\<close> to \<open>r2\<close>.
  A coroutine that is resumed at \<open>at\<close> then runs \<open>swap_return\<close>.
\<close>

definition swap_request_code :: "v7_instr list" where
  "swap_request_code = [VPush [4, 5], VMovi 4 ICSR_PENDSVSET_BIT, VMovi 5 ICSR_REGISTER_ADDRESS, VStr 4 5 0]"

definition swap_return_code :: "v7_instr list" where
  "swap_return_code = [VPop [4, 5], VBx 14]"

definition pendsv_co_context_swap :: "bool \<Rightarrow> v7_instr list \<Rightarrow> u32 \<Rightarrow> cortex_v7 \<Rightarrow> cortex_v7 option" where
  "pendsv_co_context_swap have_fp handler at s =
     Option.bind (v7_run swap_request_code s)
       (\<lambda>s. if pendsv_set s then pendsv have_fp handler (set_vreg 15 at s) else v7_run swap_return_code s)"

definition pendsv_start_task :: "u32 \<Rightarrow> cortex_v7 \<Rightarrow> cortex_v7 option" where
  "pendsv_start_task ret s = v7_run [VBlx 7 ret] s"

subsection \<open>Cortex-M3\<close>

definition m3_pendsv_save :: "v7_instr list" where
  "m3_pendsv_save = [VMrsPsp 0, VMov 1 0, VStmdb 0 [4, 5, 6, 7, 8, 9, 10, 11], VLdr 2 1 4, VStr 0 2 0]"

definition m3_pendsv_load :: "v7_instr list" where
  "m3_pendsv_load = [VLdr 0 1 8, VLdr 1 1 0, VLdr 0 0 0, VLdmia 0 [4, 5, 6, 7, 8, 9, 10, 11], VStr 1 0 0, VMsrPsp 0]"

definition m3_PendSV_Handler :: "cortex_v7 \<Rightarrow> cortex_v7 option" where
  "m3_PendSV_Handler s = pendsv False (m3_pendsv_save @ m3_pendsv_load) s"

text \<open>The context has 64 bytes: \<open>r7\<close> at 12, the return address at 56 and \<open>xPSR\<close> at 60.\<close>

definition m3_pendsv_make :: "u32 \<Rightarrow> u32 \<Rightarrow> u32 \<Rightarrow> 32 memory \<Rightarrow> u32 \<times> 32 memory" where
  "m3_pendsv_make start_task stack_top func m =
     (let u32_stack_top = stack_top AND NOT 7;
          context_m3 = u32_stack_top - 64;
          m = mem_zero 64 context_m3 m;
          m = mem_store 4 (context_m3 + 56) start_task m;
          m = mem_store 4 (context_m3 + 60) (0x01000000 :: u32) m;
          m = mem_store 4 (context_m3 + 12) func m
      in (context_m3, m))"

subsection \<open>Cortex-M4 and M7\<close>

text \<open>
  Here \<open>lr\<close> is part of the saved context, since it says whether the pushed frame has the floating point registers; \<open>s16\<close> to \<open>s31\<close>
  are saved if it does. \<open>fpu\<close> is \<open>__FPU_USED__\<close>.
\<close>

definition m4_pendsv_save :: "bool \<Rightarrow> v7_instr list" where
  "m4_pendsv_save fpu =
     [VMrsPsp 0, VMov 1 0] @ (if fpu then [VTst 14 0x10, VStmdbEq 0 [16..<32]] else [])
     @ [VStmdb 0 [4, 5, 6, 7, 8, 9, 10, 11, 14], VLdr 2 1 4, VStr 0 2 0]"

definition m4_pendsv_load :: "bool \<Rightarrow> v7_instr list" where
  "m4_pendsv_load fpu =
     [VLdr 0 1 8, VLdr 1 1 0, VLdr 0 0 0, VLdmia 0 [4, 5, 6, 7, 8, 9, 10, 11, 14]]
     @ (if fpu then [VTst 14 0x10, VLdmiaEq 0 [16..<32]] else [])
     @ [VStr 1 0 0, VMsrPsp 0]"

definition m4_PendSV_Handler :: "bool \<Rightarrow> cortex_v7 \<Rightarrow> cortex_v7 option" where
  "m4_PendSV_Handler fpu s = pendsv True (m4_pendsv_save fpu @ m4_pendsv_load fpu) s"

text \<open>The context has 68 bytes, with \<open>exc_return_lr\<close> at 32.\<close>

definition m4_pendsv_make :: "u32 \<Rightarrow> u32 \<Rightarrow> u32 \<Rightarrow> 32 memory \<Rightarrow> u32 \<times> 32 memory" where
  "m4_pendsv_make start_task stack_top func m =
     (let u32_stack_top = stack_top AND NOT 7;
          context_m4 = u32_stack_top - 68;
          m = mem_zero 68 context_m4 m;
          m = mem_store 4 (context_m4 + 60) start_task m;
          m = mem_store 4 (context_m4 + 64) (0x01000000 :: u32) m;
          m = mem_store 4 (context_m4 + 12) func m;
          m = mem_store 4 (context_m4 + 32) (0xfffffffd :: u32) m
      in (context_m4, m))"

subsection \<open>Cortex-M0\<close>

text \<open>The same frames as on M3, written through the low registers and after the variable; \<open>subs\<close> and \<open>adds\<close> set flags.\<close>

definition m0_pendsv_save :: "v7_instr list" where
  "m0_pendsv_save =
     [VMrsPsp 0, VMov 1 0, VLdr 2 1 4, VAddi 0 (- 32), VStr 0 2 0,
      VStmia 0 [4, 5, 6, 7], VMov 4 8, VMov 5 9, VMov 6 10, VMov 7 11, VStmia 0 [4, 5, 6, 7]]"

definition m0_pendsv_load :: "v7_instr list" where
  "m0_pendsv_load =
     [VLdr 0 1 8, VLdr 1 1 0, VLdr 0 0 0,
      VAddi 0 16, VLdmia 0 [4, 5, 6, 7], VMov 8 4, VMov 9 5, VMov 10 6, VMov 11 7,
      VStr 1 0 0, VMsrPsp 0,
      VAddi 0 (- 32), VLdmia 0 [4, 5, 6, 7]]"

definition m0_PendSV_Handler :: "cortex_v7 \<Rightarrow> cortex_v7 option" where
  "m0_PendSV_Handler s = pendsv False (m0_pendsv_save @ m0_pendsv_load) s"

definition m0_pendsv_make :: "u32 \<Rightarrow> u32 \<Rightarrow> u32 \<Rightarrow> 32 memory \<Rightarrow> u32 \<times> 32 memory" where
  "m0_pendsv_make start_task stack_top func m =
     (let u32_stack_top = stack_top AND NOT 7;
          context_m0 = u32_stack_top - 64;
          m = mem_zero 64 context_m0 m;
          m = mem_store 4 (context_m0 + 56) start_task m;
          m = mem_store 4 (context_m0 + 60) (0x01000000 :: u32) m;
          m = mem_store 4 (context_m0 + 12) func m
      in (context_m0, m))"

end
