(* ===== verification/Eh_Pendsv_Spec.thy ===== *)
theory Eh_Pendsv_Spec
  imports Eh_Pendsv Eh_Coroutine32_Ports
begin

text \<open>
  The PendSV switches are instances of \<open>stack_switch\<close>: their frames have several sizes, and resuming writes the result into the
  frame. A coroutine goes on with all registers, also those that a function call would not keep.
\<close>

subsection \<open>Sequences of words\<close>

lemma loads_length [simp]: "length (loads a n m) = n"
  by (induction n arbitrary: a) auto

lemma next_word:
  fixes a b :: u32
  assumes "unat (a - b) + 4 * Suc n \<le> k"
  shows "unat (a + 4 - b) + 4 * n \<le> k"
proof -
  have l: "unat (a - b + 4) \<le> unat (a - b) + unat (4 :: u32)" unfolding unat_word_ariths(1) by (rule mod_less_eq_dividend)
  have f: "unat (4 :: u32) = 4" by simp
  have e: "a - b + 4 = a + 4 - b" by simp
  show ?thesis using assms l unfolding f e mult_Suc_right by linarith
qed

lemma loads_cong:
  assumes "\<forall>x\<in>region b k. m' x = m x" "unat (a - b) + 4 * n \<le> k"
  shows "loads a n m' = loads a n m"
  using assms(2)
proof (induction n arbitrary: a)
  case (Suc n)
  have s: "region a 4 \<subseteq> region b k" using region_shift[of "a - b" 4 k b] Suc.prems by simp
  have "mem_load 4 a m' = (mem_load 4 a m :: u32)" by (rule mem_load_region) (use s assms(1) in auto)
  moreover have "unat (a + 4 - b) + 4 * n \<le> k" by (rule next_word) (use Suc.prems in simp)
  ultimately show ?case using Suc.IH by simp
qed simp

lemma store_words_outside:
  assumes "x \<notin> region b k" "unat (a - b) + 4 * length vs \<le> k"
  shows "store_words a vs m x = m x"
  using assms(2)
proof (induction vs arbitrary: a m)
  case (Cons v vs)
  have "unat (a + 4 - b) + 4 * length vs \<le> k" by (rule next_word) (use Cons.prems in simp)
  moreover have "mem_store 4 a v m x = m x" by (rule store_shift[OF assms(1)]) (use Cons.prems in simp)
  ultimately show ?case using Cons.IH by simp
qed simp

lemma load_store_words_other:
  fixes a b :: u32
  assumes "of_nat (4 * length vs) \<le> a - b" "of_nat k \<le> b - a" "k < 2 ^ 28" "4 * length vs < 2 ^ 28"
  shows "mem_load k a (store_words b vs m) = mem_load k a m"
proof -
  have "region b (4 * length vs) \<inter> region a k = {}" using assms by (intro region_disjoint) simp_all
  then show ?thesis using assms(3)
    by (intro mem_load_region) (auto intro: store_words_outside[where b = b and k = "4 * length vs"])
qed

lemma loads_store_words:
  fixes a b :: u32
  assumes "of_nat (4 * length vs) \<le> a - b" "of_nat (4 * n) \<le> b - a" "4 * n < 2 ^ 28" "4 * length vs < 2 ^ 28"
  shows "loads a n (store_words b vs m) = loads a n m"
proof -
  have d: "region b (4 * length vs) \<inter> region a (4 * n) = {}" using assms by (intro region_disjoint) simp_all
  show ?thesis
    by (rule loads_cong[where b = a and k = "4 * n"])
      (use d in \<open>auto intro: store_words_outside[where b = b and k = "4 * length vs"]\<close>)
qed

lemma loads_store_same:
  "4 * length vs < 2 ^ 28 \<Longrightarrow> loads a (length vs) (store_words a vs m) = vs"
proof (induction vs arbitrary: a m)
  case (Cons v vs)
  have "mem_load 4 a (store_words (a + 4) vs (mem_store 4 a v m)) = (mem_load 4 a (mem_store 4 a v m) :: u32)"
  proof (rule mem_load_region)
    have "region (a + 4) (4 * length vs) \<inter> region a 4 = {}"
    proof (rule region_disjoint)
      have "unat (of_nat (4 * length vs) :: u32) = 4 * length vs" by (rule unat_of_nat_small) (use Cons.prems in simp_all)
      moreover have "unat (- 4 :: u32) = 2 ^ 32 - 4" by simp
      moreover have "a - (a + 4) = - 4" by simp
      ultimately show "of_nat (4 * length vs) \<le> a - (a + 4)" using Cons.prems by (simp only: word_le_nat_alt) simp
    qed (use Cons.prems in simp_all)
    then show "\<forall>x\<in>region a 4. store_words (a + 4) vs (mem_store 4 a v m) x = mem_store 4 a v m x"
      by (auto intro: store_words_outside[where b = "a + 4" and k = "4 * length vs"])
  qed simp_all
  then show ?case using Cons by (simp add: load_store_same)
qed simp

lemma set_regs_other: "r \<notin> set rs \<Longrightarrow> set_regs rs vs f r = f r"
  by (induction rs vs f rule: set_regs.induct) auto

lemma map_set_regs: "distinct rs \<Longrightarrow> length rs = length vs \<Longrightarrow> map (set_regs rs vs f) rs = vs"
  by (induction rs vs f rule: set_regs.induct) (auto simp: set_regs_other)

subsection \<open>Frames\<close>

text \<open>
  The context of a coroutine. \<open>e\<close> tells the processors with the floating point extension, whose frames start with \<open>r4\<close> to \<open>r11\<close> and
  \<open>EXC_RETURN\<close>, followed by \<open>s16\<close> to \<open>s31\<close> if that says so; the others have \<open>r4\<close> to \<open>r11\<close> only. Then comes what the processor pushed.
\<close>

record v7_context =
  vx_low :: "u32 list"
  vx_high :: "u32 list"
  vx_sp :: u32
  vx_psr :: u32
  vx_fp :: "(u32 list \<times> u32 list) option"

definition frame_exc :: "bool \<Rightarrow> u32 \<Rightarrow> 32 memory \<Rightarrow> u32" where
  "frame_exc e sp m = (if e then mem_load 4 (sp + 32) m else exc_return False)"

definition frame_ext :: "bool \<Rightarrow> u32 \<Rightarrow> 32 memory \<Rightarrow> bool" where
  "frame_ext e sp m \<longleftrightarrow> frame_exc e sp m = exc_return True"

definition pushed :: "bool \<Rightarrow> u32 \<Rightarrow> 32 memory \<Rightarrow> u32" where
  "pushed e sp m = sp + (if e then if frame_ext e sp m then 100 else 36 else 32)"

definition frame_size :: "bool \<Rightarrow> u32 \<Rightarrow> 32 memory \<Rightarrow> nat" where
  "frame_size e sp m = (if e then if frame_ext e sp m then 204 else 68 else 64)"

definition v7_frame_ctx :: "bool \<Rightarrow> u32 \<Rightarrow> 32 memory \<Rightarrow> v7_context" where
  "v7_frame_ctx e sp m =
     (let h = pushed e sp m; x = frame_ext e sp m; psr = mem_load 4 (h + 28) m
      in \<lparr>vx_low = loads sp 8 m, vx_high = loads (h + 4) 6 m,
          vx_sp = (h + (if x then 0x68 else 0x20)) OR (if bit psr 9 then 4 else 0), vx_psr = psr AND NOT 0x200,
          vx_fp = (if x then Some (loads (sp + 36) 16 m, loads (h + 32) 17 m) else None)\<rparr>)"

definition v7_register_ctx :: "bool \<Rightarrow> cortex_v7 \<Rightarrow> v7_context" where
  "v7_register_ctx e s =
     \<lparr>vx_low = map (vreg s) [4, 5, 6, 7, 8, 9, 10, 11], vx_high = map (vreg s) [1, 2, 3, 12, 14, 15], vx_sp = psp s,
      vx_psr = xpsr s AND NOT 0x200,
      vx_fp = (if e \<and> fpca s then Some (map (sreg s) [16..<32], map (sreg s) [0..<16] @ [fpscr s]) else None)\<rparr>"

text \<open>What exception return needs of a frame, and the code of variables.\<close>

definition var_ok :: "u32 \<Rightarrow> bool" where
  "var_ok p \<longleftrightarrow> p AND 3 = 0 \<and> p \<noteq> ICSR_REGISTER_ADDRESS"

definition frame_ok :: "bool \<Rightarrow> bool \<Rightarrow> u32 \<Rightarrow> 32 memory \<Rightarrow> bool" where
  "frame_ok e fpu sp m \<longleftrightarrow> sp AND 3 = 0 \<and> pushed e sp m \<noteq> ICSR_REGISTER_ADDRESS
     \<and> (frame_exc e sp m = exc_return False \<or> fpu \<and> frame_ext e sp m)
     \<and> mem_load 4 (pushed e sp m + 28) m AND (0x010001FF :: u32) = 0x01000000"

lemma load_region_shift:
  fixes sp d :: u32
  assumes "\<forall>x\<in>region sp k. m' x = m x" "unat d + 4 \<le> k"
  shows "mem_load 4 (sp + d) m' = (mem_load 4 (sp + d) m :: u32)"
  by (rule mem_load_region) (use region_shift[OF assms(2), of sp] assms(1) in auto)

lemma loads_region_shift:
  assumes "\<forall>x\<in>region sp k. m' x = m x" "unat d + 4 * n \<le> k"
  shows "loads (sp + d) n m' = loads (sp + d) n m"
  by (rule loads_cong[OF assms(1)]) (use assms(2) in simp)

lemma v7_frame_cong:
  assumes m: "\<forall>x\<in>region sp (frame_size e sp m). m' x = m x"
  shows "frame_size e sp m' = frame_size e sp m" "pushed e sp m' = pushed e sp m" "v7_frame_ctx e sp m' = v7_frame_ctx e sp m"
    "frame_ok e fpu sp m' = frame_ok e fpu sp m"
proof -
  note ls = load_region_shift[OF m] and lss = loads_region_shift[OF m]
  have x: "frame_exc e sp m' = frame_exc e sp m" by (auto simp: frame_exc_def frame_size_def intro!: ls)
  then have x': "frame_ext e sp m' = frame_ext e sp m" by (simp add: frame_ext_def)
  then show p: "frame_size e sp m' = frame_size e sp m" "pushed e sp m' = pushed e sp m" by (auto simp: frame_size_def pushed_def)
  have ps: "mem_load 4 (pushed e sp m + 28) m' = (mem_load 4 (pushed e sp m + 28) m :: u32)"
    using ls[of "pushed e sp m - sp + 28"] by (auto simp: pushed_def frame_size_def add.assoc)
  then show "frame_ok e fpu sp m' = frame_ok e fpu sp m" by (simp add: frame_ok_def x x' p)
  have "loads sp 8 m' = loads sp 8 m" using lss[of 0 8] by (simp add: frame_size_def)
  moreover have "loads (pushed e sp m + 4) 6 m' = loads (pushed e sp m + 4) 6 m"
    using lss[of "pushed e sp m - sp + 4" 6] by (auto simp: pushed_def frame_size_def add.assoc)
  moreover have "loads (sp + 36) 16 m' = loads (sp + 36) 16 m \<and> loads (pushed e sp m + 32) 17 m' = loads (pushed e sp m + 32) 17 m" if f: "frame_ext e sp m"
  proof -
    have "e" using f by (auto simp: frame_ext_def frame_exc_def exc_return_def split: if_splits)
    then show ?thesis using f lss[of 36 16] lss[of "132" 17] by (simp add: pushed_def frame_size_def add.assoc)
  qed
  ultimately show "v7_frame_ctx e sp m' = v7_frame_ctx e sp m" by (simp add: v7_frame_ctx_def Let_def x' p ps)
qed

subsection \<open>Saving\<close>

lemma store_words_append: "store_words a (vs @ ws) m = store_words (a + 4 * of_nat (length vs)) ws (store_words a vs m)"
  by (induction vs arbitrary: a m) (auto simp: algebra_simps)

text \<open>\<open>v7_pushed\<close> and \<open>v7_fr\<close> are the addresses of the frames of the processor and of the switch, \<open>v7_saved\<close> the memory with both.\<close>

definition v7_pushed :: "bool \<Rightarrow> cortex_v7 \<Rightarrow> u32" where
  "v7_pushed e s = (psp s - (if e \<and> fpca s then 0x68 else 0x20)) AND NOT 4"

definition v7_fr :: "bool \<Rightarrow> cortex_v7 \<Rightarrow> u32" where
  "v7_fr e s = v7_pushed e s - (if e then if fpca s then 100 else 36 else 32)"

definition v7_saved :: "bool \<Rightarrow> cortex_v7 \<Rightarrow> 32 memory" where
  "v7_saved e s =
     (let m = v_mem (exception_entry e s);
          m = (if e \<and> fpca s then store_words (v7_pushed e s - 64) (map (sreg s) [16..<32]) m else m);
          m = store_words (v7_fr e s) (map (vreg s) [4, 5, 6, 7, 8, 9, 10, 11]) m
      in if e then mem_store 4 (v7_fr e s + 32) (exc_return (fpca s)) m else m)"

lemma eight_words:
  "store_words h (map f [0, 1, 2, 3, 12, 14, 15] @ [p]) m =
     mem_store 4 (h + 28) p (store_words (h + 4) (map f [1, 2, 3, 12, 14, 15]) (mem_store 4 h (f 0) m))"
  by (simp add: add.commute[of h])

lemma entry_mem:
  "v_mem (exception_entry e s) =
     (let h = v7_pushed e s;
          m = store_words (h + 4) (map (vreg s) [1, 2, 3, 12, 14, 15]) (mem_store 4 h (vreg s 0) (v_mem s));
          m = mem_store 4 (h + 28) ((xpsr s AND NOT 0x200) OR (if bit (psp s) 2 then 0x200 else 0)) m
      in if e \<and> fpca s then store_words (h + 32) (map (sreg s) [0..<16] @ [fpscr s]) m else m)"
  unfolding exception_entry_def v7_pushed_def Let_def eight_words by simp

lemma load_store_outside:
  fixes a b v :: u32
  assumes "of_nat (4 * n) \<le> b - a" "4 \<le> a - b" "4 * n < 2 ^ 28"
  shows "loads a n (mem_store 4 b v m) = loads a n m"
  using loads_store_words[of "[v]" a b n m] assms by simp

lemma realign:
  fixes p c :: u32
  assumes "c AND 7 = 0"
  shows "(((p - c) AND NOT 4) + c) OR (if bit p 2 then 4 else 0) = p" "bit (p - c) 2 = bit p 2"
proof -
  have w: "bit x 2 \<longleftrightarrow> unat x mod 8 div 4 = 1" for x :: u32
  proof -
    have "bit x 2 \<longleftrightarrow> bit (unat x) 2" by (simp add: bit_unsigned_iff)
    also have "\<dots> \<longleftrightarrow> odd (unat x div 4)" by (simp add: bit_iff_odd)
    also have "\<dots> \<longleftrightarrow> unat x mod 8 div 4 = 1" using mod_mult2_eq[of "unat x" 4 2] by (simp add: odd_iff_mod_2_eq_one)
    finally show ?thesis .
  qed
  have "c mod 8 = 0" using assms take_bit_eq_mask[of 3 c] by (simp add: mask_numeral take_bit_eq_mod)
  then have c: "8 dvd unat c" by (simp add: word_unat_eq_iff unat_mod mod_eq_0_iff_dvd)
  have "unat p = (unat (p - c) + unat c) mod 2 ^ 32" using unat_word_ariths(1)[of "p - c" c] by simp
  then have "unat p mod 8 = (unat (p - c) + unat c) mod 8" by (simp add: mod_mod_cancel)
  then have "unat p mod 8 = unat (p - c) mod 8" using c by (metis add.right_neutral mod_add_right_eq mod_eq_0_iff_dvd)
  then show b: "bit (p - c) 2 = bit p 2" by (simp add: w)
  have d: "x AND NOT 4 = x - (x AND 4)" for x :: u32
  proof -
    have "(x AND NOT 4) + (x AND 4) = (x AND NOT 4) OR (x AND 4)" by (rule disjunctive_add) (auto simp: bit_simps)
    also have "\<dots> = x" by (rule bit_word_eqI) (auto simp: bit_simps)
    finally show ?thesis by (simp add: algebra_simps)
  qed
  have f: "x AND 4 = (if bit x 2 then 4 else 0)" for x :: u32
  proof (rule bit_word_eqI)
    fix n assume "n < LENGTH(32)"
    have "bit (push_bit 2 1 :: u32) n \<longleftrightarrow> n = 2" by (auto simp: bit_push_bit_iff bit_1_iff simp del: push_bit_of_1)
    moreover have "push_bit 2 1 = (4 :: u32)" by simp
    ultimately show "bit (x AND 4) n = bit (if bit x 2 then 4 else 0 :: u32) n" by (auto simp: bit_and_iff)
  qed
  have "((p - c) AND NOT 4) + c = p AND NOT 4" unfolding d f b by simp
  then have "(((p - c) AND NOT 4) + c) OR (if bit p 2 then 4 else 0) = (p AND NOT 4) OR (p AND 4)" unfolding f by simp
  also have "\<dots> = p" by (rule bit_word_eqI) (auto simp: bit_simps)
  finally show "(((p - c) AND NOT 4) + c) OR (if bit p 2 then 4 else 0) = p" .
qed

lemma loads_store_all: "n = length vs \<Longrightarrow> 4 * n < 2 ^ 28 \<Longrightarrow> loads a n (store_words a vs m) = vs"
  by (simp add: loads_store_same)

lemmas mem_read = loads_store_all load_store_same load_store_other load_store_words_other loads_store_words load_store_outside

lemma exc_return_inj [simp]: "exc_return x = exc_return y \<longleftrightarrow> x = y"
  by (simp add: exc_return_def)

lemma saved_exc:
  "frame_exc e (v7_fr e s) (v7_saved e s) = exc_return (e \<and> fpca s)"
  "frame_ext e (v7_fr e s) (v7_saved e s) \<longleftrightarrow> e \<and> fpca s"
  "pushed e (v7_fr e s) (v7_saved e s) = v7_pushed e s"
proof -
  show x: "frame_exc e (v7_fr e s) (v7_saved e s) = exc_return (e \<and> fpca s)"
    by (simp add: frame_exc_def v7_saved_def Let_def load_store_same)
  then show y: "frame_ext e (v7_fr e s) (v7_saved e s) \<longleftrightarrow> e \<and> fpca s" by (simp add: frame_ext_def)
  show "pushed e (v7_fr e s) (v7_saved e s) = v7_pushed e s" unfolding pushed_def y by (simp add: v7_fr_def)
qed

lemma saved_words:
  fixes e s
  defines "h \<equiv> v7_pushed e s" and "m \<equiv> v7_saved e s"
  shows "mem_load 4 h m = vreg s 0" "loads (h + 4) 6 m = map (vreg s) [1, 2, 3, 12, 14, 15]"
    "mem_load 4 (h + 28) m = (xpsr s AND NOT 0x200) OR (if bit (psp s) 2 then 0x200 else 0)"
    "loads (v7_fr e s) 8 m = map (vreg s) [4, 5, 6, 7, 8, 9, 10, 11]"
    "e \<and> fpca s \<Longrightarrow> loads (v7_fr e s + 36) 16 m = map (sreg s) [16..<32]"
    "e \<and> fpca s \<Longrightarrow> loads (h + 32) 17 m = map (sreg s) [0..<16] @ [fpscr s]"
proof -
  note d = m_def v7_saved_def v7_fr_def entry_mem Let_def h_def[symmetric]
  show "mem_load 4 h m = vreg s 0" unfolding d by (simp add: mem_read del: store_words.simps list.map)
  show "loads (h + 4) 6 m = map (vreg s) [1, 2, 3, 12, 14, 15]"
    unfolding d by (simp add: mem_read del: store_words.simps list.map loads.simps)
  show "mem_load 4 (h + 28) m = (xpsr s AND NOT 0x200) OR (if bit (psp s) 2 then 0x200 else 0)"
    unfolding d by (simp add: mem_read del: store_words.simps list.map)
  show "loads (v7_fr e s) 8 m = map (vreg s) [4, 5, 6, 7, 8, 9, 10, 11]"
    unfolding d by (simp add: mem_read del: store_words.simps list.map loads.simps)
  show "e \<and> fpca s \<Longrightarrow> loads (v7_fr e s + 36) 16 m = map (sreg s) [16..<32]"
    unfolding d by (simp add: mem_read del: store_words.simps list.map loads.simps upt.simps)
  show "e \<and> fpca s \<Longrightarrow> loads (h + 32) 17 m = map (sreg s) [0..<16] @ [fpscr s]"
    unfolding d by (simp add: mem_read del: store_words.simps list.map loads.simps upt.simps)
qed

lemma psr_bits:
  fixes x :: u32
  shows "bit ((x AND NOT 0x200) OR (if b then 0x200 else 0)) 9 = b"
    "((x AND NOT 0x200) OR (if b then 0x200 else 0)) AND NOT 0x200 = x AND NOT 0x200"
    "((x AND NOT 0x200) OR (if b then 0x200 else 0)) AND 0x010001FF = x AND 0x010001FF"
  by (cases b; simp add: bit_simps bit.conj_disj_distrib2 and.assoc)+

lemma saved_ctx: "v7_frame_ctx e (v7_fr e s) (v7_saved e s) = v7_register_ctx e s"
proof -
  have "(v7_pushed e s + (if e \<and> fpca s then 0x68 else 0x20)) OR (if bit (psp s) 2 then 4 else 0) = psp s"
    using realign(1)[of "0x68" "psp s"] realign(1)[of "0x20" "psp s"] unfolding v7_pushed_def by (auto split: if_splits)
  then show ?thesis
    unfolding v7_frame_ctx_def v7_register_ctx_def Let_def saved_exc saved_words(1-4) psr_bits by (auto simp: saved_words)
qed

lemma saved_size: "frame_size e (v7_fr e s) (v7_saved e s) = (if e then if fpca s then 204 else 68 else 64)"
  unfolding frame_size_def saved_exc by simp

lemma saved_outside:
  assumes "x \<notin> region (v7_fr e s) (frame_size e (v7_fr e s) (v7_saved e s))"
  shows "v7_saved e s x = v_mem s x"
proof -
  have r: "x \<notin> region (v7_fr e s) (if e then if fpca s then 204 else 68 else 64)" using assms by (simp add: saved_size)
  note o = store_words_outside[OF r] store_shift[OF r]
  show ?thesis unfolding v7_saved_def Let_def entry_mem
    by (cases e; cases "fpca s"; simp add: o v7_fr_def del: store_words.simps list.map)
qed

subsection \<open>Returning\<close>

lemma loads_snoc: "loads a (Suc n) m = loads a n m @ [mem_load 4 (a + 4 * of_nat n) m]"
proof (induction n arbitrary: a)
  case (Suc n)
  have "loads a (Suc (Suc n)) m = mem_load 4 a m # loads (a + 4) (Suc n) m" by (simp only: loads.simps(2))
  also have "\<dots> = (mem_load 4 a m # loads (a + 4) n m) @ [mem_load 4 (a + 4 + 4 * of_nat n) m]" by (simp only: Suc.IH append_Cons)
  also have "\<dots> = loads a (Suc n) m @ [mem_load 4 (a + 4 * of_nat (Suc n)) m]" by (simp add: algebra_simps)
  finally show ?case .
qed simp

lemma frame_ext_exc: "frame_ext e sp m \<Longrightarrow> e \<and> frame_exc e sp m = exc_return True"
  by (auto simp: frame_ext_def frame_exc_def split: if_splits)

text \<open>The handler has loaded \<open>r4\<close> to \<open>r11\<close>, perhaps \<open>s16\<close> to \<open>s31\<close>, and has written the result into the frame.\<close>

lemma return_ctx:
  assumes "frame_ok e fpu sp m" and p: "psp t = pushed e sp m" and m: "v_mem t = mem_store 4 (pushed e sp m) arg m"
    and x: "vreg t 14 = frame_exc e sp m" and low: "map (vreg t) [4, 5, 6, 7, 8, 9, 10, 11] = loads sp 8 m"
    and fp: "frame_ext e sp m \<Longrightarrow> map (sreg t) [16..<32] = loads (sp + 36) 16 m"
  shows "\<exists>s'. exception_return e (vreg t 14) t = Some s' \<and> v_mem s' = v_mem t \<and> vreg s' 0 = arg \<and> v7_register_ctx e s' = v7_frame_ctx e sp m"
proof -
  let ?h = "pushed e sp m"
  have h: "mem_load 4 ?h (v_mem t) = arg" "loads (?h + 4) 6 (v_mem t) = loads (?h + 4) 6 m"
    "mem_load 4 (?h + 28) (v_mem t) = (mem_load 4 (?h + 28) m :: u32)" "loads (?h + 32) 17 (v_mem t) = loads (?h + 32) 17 m"
    unfolding m by (simp_all add: mem_read del: loads.simps)
  have seven: "loads ?h 7 (v_mem t) = arg # loads (?h + 4) 6 m" using h(1,2) by (simp add: numeral_eq_Suc)
  have regs: "set_regs [0, 1, 2, 3, 12, 14, 15] (arg # vs) f 0 = arg" "map (set_regs [0, 1, 2, 3, 12, 14, 15] (arg # vs) f) [1, 2, 3, 12, 14, 15] = vs"
    "map (set_regs [0, 1, 2, 3, 12, 14, 15] (arg # vs) f) [4, 5, 6, 7, 8, 9, 10, 11] = map f [4, 5, 6, 7, 8, 9, 10, 11]"
    if "length vs = 6" for vs and f :: "nat \<Rightarrow> u32"
    using that map_set_regs[of "[0, 1, 2, 3, 12, 14, 15]" "arg # vs" f] by (auto simp: set_regs_other)
  have sregs: "map (set_regs [0..<16] vs f) [0..<16] = vs" "map (set_regs [0..<16] vs f) [16..<32] = map f [16..<32]"
    if "length vs = 16" for vs and f :: "nat \<Rightarrow> u32"
    using that map_set_regs[of "[0..<16]" vs f] by (simp_all add: set_regs_other del: upt.simps)
  have f17: "loads (?h + 32) 17 m = loads (?h + 32) 16 (v_mem t) @ [mem_load 4 (?h + 96) (v_mem t)]"
    using loads_snoc[of "?h + 32" 16 "v_mem t"] h(4) by (simp add: add.commute[of 96])
  have psr: "mem_load 4 (?h + 28) m AND (0x010001FF :: u32) = 0x01000000" using assms(1) by (simp add: frame_ok_def)
  have ok: "frame_exc e sp m = exc_return (frame_ext e sp m)" "frame_ext e sp m \<Longrightarrow> e"
    using assms(1) frame_ext_exc[of e sp m] by (auto simp: frame_ok_def)
  define s' where "s' = the (exception_return e (vreg t 14) t)"
  have s': "exception_return e (vreg t 14) t = Some s'" "v_mem s' = v_mem t" "psp s' = vx_sp (v7_frame_ctx e sp m)"
    "vreg s' = set_regs [0, 1, 2, 3, 12, 14, 15] (arg # loads (?h + 4) 6 m) (vreg t)" "xpsr s' = mem_load 4 (?h + 28) m AND NOT 0x200"
    "fpca s' = frame_ext e sp m"
    "frame_ext e sp m \<Longrightarrow> sreg s' = set_regs [0..<16] (loads (?h + 32) 16 (v_mem t)) (sreg t) \<and> fpscr s' = mem_load 4 (?h + 96) (v_mem t)"
    using ok(2) unfolding s'_def exception_return_def Let_def x ok(1) p h(3) psr seven v7_frame_ctx_def by auto
  have r: "vreg s' 0 = arg" "map (vreg s') [1, 2, 3, 12, 14, 15] = loads (?h + 4) 6 m" "map (vreg s') [4, 5, 6, 7, 8, 9, 10, 11] = loads sp 8 m"
    unfolding s'(4) low[symmetric] by (rule regs; simp)+
  have "xpsr s' AND NOT 0x200 = mem_load 4 (?h + 28) m AND NOT 0x200" unfolding s'(5) by (simp only: and.assoc and.idem)
  moreover have "(if e \<and> fpca s' then Some (map (sreg s') [16..<32], map (sreg s') [0..<16] @ [fpscr s']) else None)
      = (if frame_ext e sp m then Some (loads (sp + 36) 16 m, loads (?h + 32) 17 m) else None)"
  proof (cases "frame_ext e sp m")
    case True
    note q = s'(7)[OF True, THEN conjunct1] s'(7)[OF True, THEN conjunct2]
    have "map (sreg s') [16..<32] = loads (sp + 36) 16 m" by (simp only: q sregs(2)[OF loads_length] fp[OF True])
    moreover have "map (sreg s') [0..<16] @ [fpscr s'] = loads (?h + 32) 17 m" by (simp only: q sregs(1)[OF loads_length] f17)
    ultimately show ?thesis using True ok(2) s'(6) by (simp only: if_True simp_thms)
  qed (simp add: s'(6))
  ultimately have "v7_register_ctx e s' = v7_frame_ctx e sp m"
    unfolding v7_register_ctx_def r(2,3) s'(3) unfolding v7_frame_ctx_def Let_def by simp
  then show ?thesis using s'(1,2) r(1) by blast
qed

subsection \<open>The handlers\<close>

lemma v7_run_append: "v7_run (xs @ ys) s = Option.bind (v7_run xs s) (v7_run ys)"
  by (induction xs arbitrary: s) (auto split: Option.bind_splits)

lemma set_nz_zero: "bit (set_nz v x) 30 \<longleftrightarrow> v = 0"
  by (simp add: set_nz_def bit_simps)

lemma exc_return_frame: "exc_return x AND 0x10 = 0 \<longleftrightarrow> x"
  by (simp add: exc_return_def)

lemma nine_words:
  "store_words h (map f [4, 5, 6, 7, 8, 9, 10, 11, 14]) m = mem_store 4 (h + 32) (f 14) (store_words h (map f [4, 5, 6, 7, 8, 9, 10, 11]) m)"
  by (simp add: add.commute[of h])

text \<open>The handler of M4 from the state after exception entry, and from where the new frame has been recorded.\<close>

lemma m4_pendsv_save_run:
  assumes x: "vreg t 14 = exc_return x" "x \<Longrightarrow> fpu" and a: "psp t = h" "fr = h - (if x then 100 else 36)" "fr AND 3 = 0"
    and m: "m = mem_store 4 (fr + 32) (exc_return x) (store_words fr (map (vreg t) [4, 5, 6, 7, 8, 9, 10, 11])
       (if x then store_words (h - 64) (map (sreg t) [16..<32]) (v_mem t) else v_mem t))"
    and f: "mem_load 4 (h + 4) m = from" "var_ok from"
  shows "\<exists>t'. v7_run (m4_pendsv_save fpu) t = Some t' \<and> v_mem t' = mem_store 4 from fr m \<and> vreg t' 1 = h"
proof -
  have h: "h - 64 AND 3 = 0" if x using aligned3_shift[OF a(3), of "h - 64"] a(2) that by simp
  have h4: "h + 4 AND 3 = 0" using aligned3_shift[OF a(3), of "h + 4"] a(2) by (simp split: if_splits)
  show ?thesis
  proof (cases x)
    case True
    show ?thesis using True x a h h4 f unfolding m
      by (simp add: m4_pendsv_save_def Let_def set_nz_zero exc_return_frame nine_words var_ok_def del: upt.simps list.map store_words.simps)
  next
    case False
    show ?thesis using False x a h4 f unfolding m
      by (cases fpu) (simp_all add: m4_pendsv_save_def Let_def set_nz_zero exc_return_frame nine_words var_ok_def del: upt.simps list.map store_words.simps)
  qed
qed

lemma ldmia_exec:
  "n = length rs \<Longrightarrow> vreg s b AND 3 = 0 \<Longrightarrow> v7_exec (VLdmia b rs) s =
     Some (s\<lparr>vreg := (set_regs rs (loads (vreg s b) n (v_mem s)) (vreg s))(b := vreg s b + 4 * of_nat n)\<rparr>)"
  by (simp add: Let_def)

lemma ldmiaeq_exec:
  "n = length rs \<Longrightarrow> bit (xpsr s) 30 \<Longrightarrow> vreg s b AND 3 = 0 \<Longrightarrow> v7_exec (VLdmiaEq b rs) s =
     Some (s\<lparr>vreg := (vreg s)(b := vreg s b + 4 * of_nat n), fpca := True, sreg := set_regs rs (loads (vreg s b) n (v_mem s)) (sreg s)\<rparr>)"
  by (simp add: Let_def)

lemma sixteen_regs:
  "map (set_regs [16, 17, 18, 19, 20, 21, 22, 23, 24, 25, 26, 27, 28, 29, 30, 31] (loads a 16 m) f)
     [16, 17, 18, 19, 20, 21, 22, 23, 24, 25, 26, 27, 28, 29, 30, 31] = loads a 16 m"
  by (rule map_set_regs) simp_all

lemma nine_regs:
  "length vs = 8 \<Longrightarrow> map (set_regs [4, 5, 6, 7, 8, 9, 10, 11, 14] (vs @ [v]) f) [4, 5, 6, 7, 8, 9, 10, 11] = vs"
  "length vs = 8 \<Longrightarrow> set_regs [4, 5, 6, 7, 8, 9, 10, 11, 14] (vs @ [v]) f 14 = v"
  using map_set_regs[of "[4, 5, 6, 7, 8, 9, 10, 11, 14]" "vs @ [v]" f] by (simp_all del: set_regs.simps)

lemma m4_pendsv_load_run:
  fixes arg :: u32
  assumes t: "v_mem t = m" "vreg t 1 = h" "h AND 3 = 0" and m: "mem_load 4 h m = arg" "mem_load 4 (h + 8) m = to" "to AND 3 = 0" "mem_load 4 to m = sp"
    and ok: "frame_ok True fpu sp m"
  shows "\<exists>t'. v7_run (m4_pendsv_load fpu) t = Some t' \<and> v_mem t' = mem_store 4 (pushed True sp m) arg m \<and> psp t' = pushed True sp m
     \<and> vreg t' 14 = frame_exc True sp m \<and> map (vreg t') [4, 5, 6, 7, 8, 9, 10, 11] = loads sp 8 m
     \<and> (frame_ext True sp m \<longrightarrow> map (sreg t') [16..<32] = loads (sp + 36) 16 m)"
proof -
  have a: "sp AND 3 = 0" "sp + 36 AND 3 = 0" "sp + 100 AND 3 = 0" "h + 8 AND 3 = 0"
    using ok t(3) aligned3_shift[of sp "sp + 36"] aligned3_shift[of sp "sp + 100"] aligned3_shift[of h "h + 8"] by (simp_all add: frame_ok_def)
  have n: "pushed True sp m \<noteq> ICSR_REGISTER_ADDRESS" using ok by (simp add: frame_ok_def)
  have x: "frame_exc True sp m = exc_return (frame_ext True sp m)" using ok by (auto simp: frame_ok_def frame_ext_def)
  have e: "mem_load 4 (sp + 32) m = exc_return (frame_ext True sp m)" using x by (simp add: frame_exc_def)
  have nine: "loads sp 9 m = loads sp 8 m @ [exc_return (frame_ext True sp m)]" using loads_snoc[of sp 8 m] e by (simp del: loads.simps)
  show ?thesis
  proof (cases "frame_ext True sp m")
    case True
    then have "fpu" using ok by (simp add: frame_ok_def x)
    then show ?thesis using True t m a n unfolding x
      by (simp add: m4_pendsv_load_def Let_def set_nz_zero exc_return_frame nine nine_regs set_regs_other ldmia_exec[of 9] ldmiaeq_exec[of 16] sixteen_regs pushed_def aligned3_same
          add.commute[of 100] del: v7_exec.simps(11,13) upt.simps list.map loads.simps set_regs.simps)
  next
    case False
    show ?thesis using False t m a n unfolding x
      by (cases fpu) (simp_all add: m4_pendsv_load_def Let_def set_nz_zero exc_return_frame nine nine_regs set_regs_other ldmia_exec[of 9] pushed_def
          aligned3_same add.commute[of 36] del: v7_exec.simps(11) upt.simps list.map loads.simps set_regs.simps)
  qed
qed

lemma entry_fields:
  "vreg (exception_entry e s) = (vreg s)(14 := exc_return (e \<and> fpca s))" "psp (exception_entry e s) = v7_pushed e s"
  "sreg (exception_entry e s) = sreg s"
  by (simp_all add: exception_entry_def v7_pushed_def Let_def)

lemma six_loads: "loads a 6 m = mem_load 4 a m # mem_load 4 (a + 4) m # loads (a + 8) 4 m"
proof -
  have "loads a (Suc (Suc 4)) m = mem_load 4 a m # mem_load 4 (a + 4) m # loads (a + 8) 4 m" by (simp only: loads.simps add.assoc) simp
  then show ?thesis by simp
qed

lemma saved_args:
  fixes e s
  defines "fr \<equiv> v7_fr e s" and "h \<equiv> v7_pushed e s"
  assumes d: "region fr (frame_size e fr (v7_saved e s)) \<inter> region from 4 = {}" and m: "m = mem_store 4 from fr (v7_saved e s)"
  shows "mem_load 4 h m = vreg s 0" "mem_load 4 (h + 8) m = vreg s 2" "mem_load 4 (h + 4) (v7_saved e s) = vreg s 1"
proof -
  have k: "\<forall>x\<in>region fr (frame_size e fr (v7_saved e s)). m x = v7_saved e s x" using d unfolding m by (auto intro: store_outside)
  have w: "mem_load 4 (h + 4) (v7_saved e s) = vreg s 1" "mem_load 4 (h + 8) (v7_saved e s) = vreg s 2"
    using saved_words(2)[of e s] unfolding six_loads by (simp_all add: h_def add.commute[of 8])
  then show "mem_load 4 (h + 4) (v7_saved e s) = vreg s 1" by simp
  have a: "unat (h - fr) + 12 \<le> frame_size e fr (v7_saved e s)" unfolding fr_def saved_size by (simp add: h_def v7_fr_def)
  have "mem_load 4 h m = (mem_load 4 h (v7_saved e s) :: u32)" using load_region_shift[OF k, of "h - fr"] a by simp
  then show "mem_load 4 h m = vreg s 0" using saved_words(1)[of e s] by (simp add: h_def)
  have "unat (h - fr + 8) \<le> unat (h - fr) + unat (8 :: u32)" unfolding unat_word_ariths(1) by (rule mod_less_eq_dividend)
  moreover have "unat (8 :: u32) = 8" by simp
  ultimately have "unat (h - fr + 8) + 4 \<le> frame_size e fr (v7_saved e s)" using a by linarith
  from load_region_shift[OF k this] have "mem_load 4 (h + 8) m = (mem_load 4 (h + 8) (v7_saved e s) :: u32)" by (simp add: algebra_simps)
  then show "mem_load 4 (h + 8) m = vreg s 2" using w by simp
qed

text \<open>What is to be shown of each handler.\<close>

definition pend_swaps :: "bool \<Rightarrow> bool \<Rightarrow> (cortex_v7 \<Rightarrow> cortex_v7 option) \<Rightarrow> bool" where
  "pend_swaps e fpu handler \<longleftrightarrow> (\<forall>s m sp. var_ok (vreg s 1) \<longrightarrow> frame_ok e fpu (v7_fr e s) (v7_saved e s) \<longrightarrow>
     region (v7_fr e s) (frame_size e (v7_fr e s) (v7_saved e s)) \<inter> region (vreg s 1) 4 = {} \<longrightarrow> var_ok (vreg s 2) \<longrightarrow>
     m = mem_store 4 (vreg s 1) (v7_fr e s) (v7_saved e s) \<longrightarrow> sp = mem_load 4 (vreg s 2) m \<longrightarrow> frame_ok e fpu sp m \<longrightarrow>
     (\<exists>s'. handler s = Some s' \<and> (\<forall>x. x \<notin> region (pushed e sp m) 4 \<longrightarrow> v_mem s' x = m x) \<and> vreg s' 0 = vreg s 0
        \<and> v7_register_ctx e s' = v7_frame_ctx e sp m))"

lemma pend_swapsI:
  assumes "\<And>s m sp. var_ok (vreg s 1) \<Longrightarrow> frame_ok e fpu (v7_fr e s) (v7_saved e s) \<Longrightarrow>
      region (v7_fr e s) (frame_size e (v7_fr e s) (v7_saved e s)) \<inter> region (vreg s 1) 4 = {} \<Longrightarrow> var_ok (vreg s 2) \<Longrightarrow>
      m = mem_store 4 (vreg s 1) (v7_fr e s) (v7_saved e s) \<Longrightarrow> sp = mem_load 4 (vreg s 2) m \<Longrightarrow> frame_ok e fpu sp m \<Longrightarrow>
      \<exists>t. v7_run code (exception_entry e s) = Some t \<and> v_mem t = mem_store 4 (pushed e sp m) (vreg s 0) m \<and> psp t = pushed e sp m
        \<and> vreg t 14 = frame_exc e sp m \<and> map (vreg t) [4, 5, 6, 7, 8, 9, 10, 11] = loads sp 8 m
        \<and> (frame_ext e sp m \<longrightarrow> map (sreg t) [16..<32] = loads (sp + 36) 16 m)"
  shows "pend_swaps e fpu (pendsv e code)"
  unfolding pend_swaps_def
proof (intro allI impI)
  fix s m sp
  assume a: "var_ok (vreg s 1)" "frame_ok e fpu (v7_fr e s) (v7_saved e s)"
    "region (v7_fr e s) (frame_size e (v7_fr e s) (v7_saved e s)) \<inter> region (vreg s 1) 4 = {}" "var_ok (vreg s 2)"
    "m = mem_store 4 (vreg s 1) (v7_fr e s) (v7_saved e s)" "sp = mem_load 4 (vreg s 2) m" "frame_ok e fpu sp m"
  from assms[OF a] obtain t where t: "v7_run code (exception_entry e s) = Some t" "v_mem t = mem_store 4 (pushed e sp m) (vreg s 0) m"
    "psp t = pushed e sp m" "vreg t 14 = frame_exc e sp m" "map (vreg t) [4, 5, 6, 7, 8, 9, 10, 11] = loads sp 8 m"
    "frame_ext e sp m \<Longrightarrow> map (sreg t) [16..<32] = loads (sp + 36) 16 m" by blast
  from return_ctx[OF a(7) t(3,2,4,5,6)] obtain s' where s': "exception_return e (vreg t 14) t = Some s'" "v_mem s' = v_mem t"
    "vreg s' 0 = vreg s 0" "v7_register_ctx e s' = v7_frame_ctx e sp m" by blast
  have "\<forall>x. x \<notin> region (pushed e sp m) 4 \<longrightarrow> v_mem s' x = m x" using s'(2) t(2) by (simp add: store_outside)
  then show "\<exists>s'. pendsv e code s = Some s' \<and> (\<forall>x. x \<notin> region (pushed e sp m) 4 \<longrightarrow> v_mem s' x = m x) \<and> vreg s' 0 = vreg s 0
        \<and> v7_register_ctx e s' = v7_frame_ctx e sp m" using s'(1,3,4) t(1) by (simp add: pendsv_def)
qed

lemma m4_swaps: "pend_swaps True fpu (m4_PendSV_Handler fpu)"
  unfolding m4_PendSV_Handler_def
proof (rule pend_swapsI)
  fix s m and sp :: u32
  assume a: "var_ok (vreg s 1)" "frame_ok True fpu (v7_fr True s) (v7_saved True s)"
    "region (v7_fr True s) (frame_size True (v7_fr True s) (v7_saved True s)) \<inter> region (vreg s 1) 4 = {}" "var_ok (vreg s 2)"
    "m = mem_store 4 (vreg s 1) (v7_fr True s) (v7_saved True s)" "sp = mem_load 4 (vreg s 2) m" "frame_ok True fpu sp m"
  note arg = saved_args[OF a(3,5)]
  have fr: "v7_fr True s AND 3 = 0" "fpca s \<Longrightarrow> fpu" using a(2) by (auto simp: frame_ok_def saved_exc)
  have h: "v7_pushed True s AND 3 = 0" using aligned3_shift[OF fr(1), of "v7_pushed True s"] by (simp add: v7_fr_def)
  have "\<exists>t. v7_run (m4_pendsv_save fpu) (exception_entry True s) = Some t \<and> v_mem t = m \<and> vreg t 1 = v7_pushed True s"
    unfolding a(5) by (rule m4_pendsv_save_run[where x = "fpca s"])
      (use fr arg(3) a(1) in \<open>simp_all add: entry_fields v7_fr_def v7_saved_def Let_def del: store_words.simps\<close>)
  then obtain t where t: "v7_run (m4_pendsv_save fpu) (exception_entry True s) = Some t" "v_mem t = m" "vreg t 1 = v7_pushed True s" by blast
  show "\<exists>t. v7_run (m4_pendsv_save fpu @ m4_pendsv_load fpu) (exception_entry True s) = Some t
      \<and> v_mem t = mem_store 4 (pushed True sp m) (vreg s 0) m \<and> psp t = pushed True sp m
      \<and> vreg t 14 = frame_exc True sp m \<and> map (vreg t) [4, 5, 6, 7, 8, 9, 10, 11] = loads sp 8 m
      \<and> (frame_ext True sp m \<longrightarrow> map (sreg t) [16..<32] = loads (sp + 36) 16 m)"
    using m4_pendsv_load_run[OF t(2,3) h arg(1,2) _ a(6)[symmetric] a(7)] a(4) t(1) by (simp add: v7_run_append var_ok_def)
qed

text \<open>Without the floating point extension.\<close>

lemma eight_regs:
  "length vs = 8 \<Longrightarrow> map (set_regs [4, 5, 6, 7, 8, 9, 10, 11] vs f) [4, 5, 6, 7, 8, 9, 10, 11] = vs"
  by (rule map_set_regs) simp_all

lemma m3_swaps: "pend_swaps False fpu m3_PendSV_Handler"
  unfolding m3_PendSV_Handler_def
proof (rule pend_swapsI)
  fix s m and sp :: u32
  let ?E = "exception_entry False s" and ?h = "v7_pushed False s" and ?fr = "v7_fr False s"
  assume a: "var_ok (vreg s 1)" "frame_ok False fpu ?fr (v7_saved False s)"
    "region ?fr (frame_size False ?fr (v7_saved False s)) \<inter> region (vreg s 1) 4 = {}" "var_ok (vreg s 2)"
    "m = mem_store 4 (vreg s 1) ?fr (v7_saved False s)" "sp = mem_load 4 (vreg s 2) m" "frame_ok False fpu sp m"
  note arg = saved_args[OF a(3,5)]
  have fr: "?fr AND 3 = 0" "?fr = ?h - 32" using a(2) by (simp_all add: frame_ok_def v7_fr_def)
  have h: "?h AND 3 = 0" "?h + 4 AND 3 = 0" "?h + 8 AND 3 = 0"
    using aligned3_shift[OF fr(1), of ?h] aligned3_shift[OF fr(1), of "?h + 4"] aligned3_shift[OF fr(1), of "?h + 8"] by (simp_all add: fr(2))
  have sv: "v7_saved False s = store_words ?fr (map (vreg s) [4, 5, 6, 7, 8, 9, 10, 11]) (v_mem ?E)" by (simp add: v7_saved_def Let_def)
  obtain t where t: "v7_run m3_pendsv_save ?E = Some t" "v_mem t = m" "vreg t 1 = ?h" "vreg t 14 = exc_return False"
    using a(1,5) fr(1)[unfolded fr(2)] h(2) arg(3) unfolding sv fr(2)
    by (simp add: m3_pendsv_save_def Let_def entry_fields var_ok_def del: store_words.simps list.map)
  have p: "pushed False sp m = sp + 32" "frame_exc False sp m = exc_return False" "\<not> frame_ext False sp m" by (simp_all add: pushed_def frame_exc_def frame_ext_def)
  have ok: "sp AND 3 = 0" "sp + 32 AND 3 = 0" "sp + 32 \<noteq> ICSR_REGISTER_ADDRESS" "vreg s 2 AND 3 = 0"
    using a(4,7) aligned3_shift[of sp "sp + 32"] by (simp_all add: frame_ok_def p var_ok_def)
  show "\<exists>t. v7_run (m3_pendsv_save @ m3_pendsv_load) ?E = Some t
      \<and> v_mem t = mem_store 4 (pushed False sp m) (vreg s 0) m \<and> psp t = pushed False sp m
      \<and> vreg t 14 = frame_exc False sp m \<and> map (vreg t) [4, 5, 6, 7, 8, 9, 10, 11] = loads sp 8 m
      \<and> (frame_ext False sp m \<longrightarrow> map (sreg t) [16..<32] = loads (sp + 36) 16 m)"
    using t h ok arg(1,2) a(6)[symmetric]
    by (simp add: v7_run_append m3_pendsv_load_def Let_def p ldmia_exec[of 8] eight_regs set_regs_other aligned3_same add.commute[of 32]
        del: v7_exec.simps(11) list.map loads.simps set_regs.simps)
qed

text \<open>The Cortex-M0 records the frame before it has written it, which makes no difference for a variable outside of it.\<close>

lemma store_commute:
  assumes "region a n \<inter> region b k = {}"
  shows "mem_store n a v (mem_store k b w m) = mem_store k b w (mem_store n a v m)"
  using assms by (intro ext) (auto simp: mem_store_def region_def)

lemma store_words_commute:
  fixes b w :: u32
  assumes "region c n \<inter> region b 4 = {}" "unat (a - c) + 4 * length vs \<le> n"
  shows "store_words a vs (mem_store 4 b w m) = mem_store 4 b w (store_words a vs m)"
  using assms(2)
proof (induction vs arbitrary: a m)
  case (Cons v vs)
  have "region a 4 \<subseteq> region c n" using region_shift[of "a - c" 4 n c] Cons.prems by simp
  then have "region a 4 \<inter> region b 4 = {}" using assms(1) by blast
  moreover have "unat (a + 4 - c) + 4 * length vs \<le> n" by (rule next_word) (use Cons.prems in simp)
  ultimately show ?case using Cons.IH by (simp add: store_commute[of a 4 b 4])
qed simp

lemma m0_regs:
  assumes "length vs = 4" "length ws = 4"
  shows "map (set_regs [4, 5, 6, 7] ws f) [4, 5, 6, 7] = ws"
    and "map ((f(4 := x4, 5 := x5, 6 := x6, 7 := x7, 8 := set_regs [4, 5, 6, 7] ws g 4, 9 := set_regs [4, 5, 6, 7] ws g 5,
       10 := set_regs [4, 5, 6, 7] ws g 6, 11 := set_regs [4, 5, 6, 7] ws g 7)) :: nat \<Rightarrow> u32) [8, 9, 10, 11] = ws"
  using map_set_regs[of "[4, 5, 6, 7]" ws f] map_set_regs[of "[4, 5, 6, 7]" ws g] assms by simp_all

lemma loads_append: "loads a (n + k) m = loads a n m @ loads (a + 4 * of_nat n) k m"
  by (induction n arbitrary: a) (simp_all add: algebra_simps)

lemma m0_pendsv_save_run:
  assumes h: "psp t = h" "h AND 3 = 0" "v_mem t = me" "mem_load 4 (h + 4) me = from" "var_ok from"
    and d: "region (h - 32) 64 \<inter> region from 4 = {}"
  shows "\<exists>t'. v7_run m0_pendsv_save t = Some t'
     \<and> v_mem t' = mem_store 4 from (h - 32) (store_words (h - 32) (map (vreg t) [4, 5, 6, 7, 8, 9, 10, 11]) me)
     \<and> vreg t' 1 = h \<and> vreg t' 14 = vreg t 14"
proof -
  have a: "h + 4 AND 3 = 0" "h - 32 AND 3 = 0" "h - 16 AND 3 = 0"
    using aligned3_shift[OF h(2), of "h + 4"] aligned3_shift[OF h(2), of "h - 32"] aligned3_shift[OF h(2), of "h - 16"] by simp_all
  have w: "store_words (h - 16) (map (vreg t) [8, 9, 10, 11]) (store_words (h - 32) (map (vreg t) [4, 5, 6, 7]) me)
      = store_words (h - 32) (map (vreg t) [4, 5, 6, 7, 8, 9, 10, 11]) me"
    using store_words_append[of "h - 32" "map (vreg t) [4, 5, 6, 7]" "map (vreg t) [8, 9, 10, 11]" me] by simp
  have c: "store_words (h - 16) (map (vreg t) [8, 9, 10, 11]) (store_words (h - 32) (map (vreg t) [4, 5, 6, 7]) (mem_store 4 from (h - 32) me))
      = mem_store 4 from (h - 32) (store_words (h - 32) (map (vreg t) [4, 5, 6, 7, 8, 9, 10, 11]) me)"
    unfolding w[symmetric] by (simp add: store_words_commute[OF d] del: store_words.simps list.map)
  then show ?thesis using h a by (simp add: m0_pendsv_save_def Let_def var_ok_def)
qed

lemma m0_pendsv_load_run:
  fixes arg :: u32
  assumes t: "v_mem t = m" "vreg t 1 = h" "h AND 3 = 0" and m: "mem_load 4 h m = arg" "mem_load 4 (h + 8) m = to" "to AND 3 = 0" "mem_load 4 to m = sp"
    and ok: "sp AND 3 = 0" "sp + 32 \<noteq> ICSR_REGISTER_ADDRESS"
  shows "\<exists>t'. v7_run m0_pendsv_load t = Some t' \<and> v_mem t' = mem_store 4 (sp + 32) arg m \<and> psp t' = sp + 32
     \<and> vreg t' 14 = vreg t 14 \<and> map (vreg t') [4, 5, 6, 7, 8, 9, 10, 11] = loads sp 8 m"
proof -
  have a: "sp + 16 AND 3 = 0" "sp + 32 AND 3 = 0" "h + 8 AND 3 = 0"
    using ok(1) t(3) aligned3_shift[of sp "sp + 16"] aligned3_shift[of sp "sp + 32"] aligned3_shift[of h "h + 8"] by simp_all
  have l: "loads sp 4 (mem_store 4 (sp + 32) arg m) = loads sp 4 m" by (simp add: load_store_outside del: loads.simps)
  have e: "loads sp 8 m = loads sp 4 m @ loads (sp + 16) 4 m" using loads_append[of sp 4 4 m] by (simp del: loads.simps)
  obtain x0 x1 x2 x3 where x: "loads sp 4 m = [x0, x1, x2, x3]" by (simp add: numeral_eq_Suc)
  obtain y0 y1 y2 y3 where y: "loads (sp + 16) 4 m = [y0, y1, y2, y3]" by (simp add: numeral_eq_Suc)
  show ?thesis using t m ok a
    by (simp add: m0_pendsv_load_def Let_def e x y l ldmia_exec[of 4] aligned3_same add.commute[of 32] add.commute[of 16]
        del: v7_exec.simps(11) loads.simps)
qed

lemma m0_swaps: "pend_swaps False fpu m0_PendSV_Handler"
  unfolding m0_PendSV_Handler_def
proof (rule pend_swapsI)
  fix s m and sp :: u32
  let ?E = "exception_entry False s" and ?h = "v7_pushed False s" and ?fr = "v7_fr False s"
  assume a: "var_ok (vreg s 1)" "frame_ok False fpu ?fr (v7_saved False s)"
    "region ?fr (frame_size False ?fr (v7_saved False s)) \<inter> region (vreg s 1) 4 = {}" "var_ok (vreg s 2)"
    "m = mem_store 4 (vreg s 1) ?fr (v7_saved False s)" "sp = mem_load 4 (vreg s 2) m" "frame_ok False fpu sp m"
  note arg = saved_args[OF a(3,5)]
  have fr: "?fr AND 3 = 0" "?fr = ?h - 32" using a(2) by (simp_all add: frame_ok_def v7_fr_def)
  have h: "?h AND 3 = 0" using aligned3_shift[OF fr(1), of ?h] by (simp add: fr(2))
  have sv: "v7_saved False s = store_words (?h - 32) (map (vreg s) [4, 5, 6, 7, 8, 9, 10, 11]) (v_mem ?E)" by (simp add: v7_saved_def v7_fr_def Let_def)
  have rd: "mem_load 4 (?h + 4) (v_mem ?E) = vreg s 1"
    using arg(3) unfolding sv by (simp add: load_store_words_other del: store_words.simps list.map)
  have d: "region (?h - 32) 64 \<inter> region (vreg s 1) 4 = {}" using a(3) by (simp add: saved_size fr(2)[symmetric])
  obtain t where t: "v7_run m0_pendsv_save ?E = Some t" "v_mem t = m" "vreg t 1 = ?h" "vreg t 14 = exc_return False"
    using m0_pendsv_save_run[OF _ h refl rd a(1) d] a(5) unfolding sv fr(2) by (auto simp: entry_fields simp del: store_words.simps)
  have p: "pushed False sp m = sp + 32" "frame_exc False sp m = exc_return False" "\<not> frame_ext False sp m" by (simp_all add: pushed_def frame_exc_def frame_ext_def)
  have ok: "sp AND 3 = 0" "sp + 32 \<noteq> ICSR_REGISTER_ADDRESS" "vreg s 2 AND 3 = 0" using a(4,7) by (simp_all add: frame_ok_def p var_ok_def)
  from m0_pendsv_load_run[OF t(2,3) h arg(1,2) ok(3) a(6)[symmetric] ok(1,2)]
  show "\<exists>t. v7_run (m0_pendsv_save @ m0_pendsv_load) ?E = Some t
      \<and> v_mem t = mem_store 4 (pushed False sp m) (vreg s 0) m \<and> psp t = pushed False sp m
      \<and> vreg t 14 = frame_exc False sp m \<and> map (vreg t) [4, 5, 6, 7, 8, 9, 10, 11] = loads sp 8 m
      \<and> (frame_ext False sp m \<longrightarrow> map (sreg t) [16..<32] = loads (sp + 36) 16 m)"
    using t(1,4) p by (simp add: v7_run_append)
qed

subsection \<open>The ports\<close>

definition pend_switcher :: "bool \<Rightarrow> bool \<Rightarrow> (cortex_v7 \<Rightarrow> cortex_v7 option) \<Rightarrow> (cortex_v7, u32, v7_context) switcher" where
  "pend_switcher e fpu handler =
     \<lparr>sw_run = handler, sw_word = 4, sw_mem = v_mem, sw_calling = v7_register_ctx e, sw_current = v7_register_ctx e,
      sw_arg = (\<lambda>s. vreg s 0), sw_from = (\<lambda>s. vreg s 1), sw_to = (\<lambda>s. vreg s 2), sw_result = (\<lambda>s. vreg s 0),
      sw_aligned = (\<lambda>s. var_ok (vreg s 1) \<and> v7_fr e s AND 3 = 0 \<and> v7_pushed e s \<noteq> ICSR_REGISTER_ADDRESS \<and> (e \<and> fpca s \<longrightarrow> fpu)
        \<and> xpsr s AND 0x010001FF = 0x01000000),
      sw_frame = (\<lambda>s. region (v7_fr e s) (if e then if fpca s then 204 else 68 else 64)),
      sw_parked = (\<lambda>m p. v7_frame_ctx e (mem_load 4 p m) m),
      sw_foot = (\<lambda>m p. region p 4 \<union> region (mem_load 4 p m) (frame_size e (mem_load 4 p m) m)),
      sw_touch = (\<lambda>m p. region (pushed e (mem_load 4 p m) m) 4),
      sw_valid = (\<lambda>m p. var_ok p \<and> frame_ok e fpu (mem_load 4 p m) m)\<rparr>"

lemma saved_ok:
  "frame_ok e fpu (v7_fr e s) (v7_saved e s) \<longleftrightarrow> v7_fr e s AND 3 = 0 \<and> v7_pushed e s \<noteq> ICSR_REGISTER_ADDRESS \<and> (e \<and> fpca s \<longrightarrow> fpu)
     \<and> xpsr s AND 0x010001FF = 0x01000000"
  unfolding frame_ok_def saved_exc saved_words(3) psr_bits by auto

lemma pend_stack_switch:
  assumes "pend_swaps e fpu handler"
  shows "stack_switch (pend_switcher e fpu handler) (frame_size e) (\<lambda>sp m. region (pushed e sp m) 4) (v7_frame_ctx e) var_ok (frame_ok e fpu)
     (v7_fr e) (v7_saved e)"
proof
  fix s m and sp :: u32
  let ?W = "pend_switcher e fpu handler"
  assume "var_ok (sw_from ?W s)" "frame_ok e fpu (v7_fr e s) (v7_saved e s)"
    "region (v7_fr e s) (frame_size e (v7_fr e s) (v7_saved e s)) \<inter> region (sw_from ?W s) (sw_word ?W) = {}" "var_ok (sw_to ?W s)"
    "m = mem_store (sw_word ?W) (sw_from ?W s) (v7_fr e s) (v7_saved e s)" "sp = mem_load (sw_word ?W) (sw_to ?W s) m" "frame_ok e fpu sp m"
  then show "\<exists>s'. sw_run ?W s = Some s' \<and> (\<forall>x. x \<notin> region (pushed e sp m) 4 \<longrightarrow> sw_mem ?W s' x = m x)
      \<and> sw_result ?W s' = sw_arg ?W s \<and> sw_current ?W s' = v7_frame_ctx e sp m"
    using assms by (auto simp: pend_switcher_def pend_swaps_def)
next
  fix sp :: u32 and m
  have "unat (pushed e sp m - sp) + 4 \<le> frame_size e sp m" by (simp add: pushed_def frame_size_def)
  from region_shift[OF this, of sp] show "region (pushed e sp m) 4 \<subseteq> region sp (frame_size e sp m)" by simp
next
  fix sp :: u32 and m m' assume "\<forall>x\<in>region sp (frame_size e sp m). m' x = m x"
  note c = v7_frame_cong[OF this]
  show "frame_size e sp m' = frame_size e sp m \<and> v7_frame_ctx e sp m' = v7_frame_ctx e sp m \<and> frame_ok e fpu sp m' = frame_ok e fpu sp m"
    using c by blast
  show "region (pushed e sp m') 4 = region (pushed e sp m) 4" unfolding c ..
next
  fix x s assume "x \<notin> region (v7_fr e s) (frame_size e (v7_fr e s) (v7_saved e s))"
  then show "v7_saved e s x = sw_mem (pend_switcher e fpu handler) s x" by (simp add: saved_outside pend_switcher_def)
qed (simp_all add: pend_switcher_def saved_ok saved_size saved_ctx)

definition cortex_m4_pendsv :: "bool \<Rightarrow> (cortex_v7, u32, v7_context) switcher" where
  "cortex_m4_pendsv fpu = pend_switcher True fpu (m4_PendSV_Handler fpu)"

definition cortex_m3_pendsv :: "(cortex_v7, u32, v7_context) switcher" where
  "cortex_m3_pendsv = pend_switcher False False m3_PendSV_Handler"

definition cortex_m0_pendsv :: "(cortex_v7, u32, v7_context) switcher" where
  "cortex_m0_pendsv = pend_switcher False False m0_PendSV_Handler"

interpretation p4: stack_switch "cortex_m4_pendsv fpu" "frame_size True" "\<lambda>sp m. region (pushed True sp m) 4" "v7_frame_ctx True" var_ok
    "frame_ok True fpu" "v7_fr True" "v7_saved True" for fpu
  unfolding cortex_m4_pendsv_def by (rule pend_stack_switch[OF m4_swaps])

interpretation p3: stack_switch cortex_m3_pendsv "frame_size False" "\<lambda>sp m. region (pushed False sp m) 4" "v7_frame_ctx False" var_ok
    "frame_ok False False" "v7_fr False" "v7_saved False"
  unfolding cortex_m3_pendsv_def by (rule pend_stack_switch[OF m3_swaps])

interpretation p0: stack_switch cortex_m0_pendsv "frame_size False" "\<lambda>sp m. region (pushed False sp m) 4" "v7_frame_ctx False" var_ok
    "frame_ok False False" "v7_fr False" "v7_saved False"
  unfolding cortex_m0_pendsv_def by (rule pend_stack_switch[OF m0_swaps])

subsection \<open>Calls\<close>

text \<open>A coroutine that has called \<open>co_context_swap\<close> in the state \<open>s\<close> when its PendSV is taken.\<close>

definition requested :: "u32 \<Rightarrow> cortex_v7 \<Rightarrow> cortex_v7" where
  "requested at s = s\<lparr>vreg := (vreg s)(4 := ICSR_PENDSVSET_BIT, 5 := ICSR_REGISTER_ADDRESS, 15 := at), psp := psp s - 8, pendsv_set := True,
     v_mem := store_words (psp s - 8) [vreg s 4, vreg s 5] (v_mem s)\<rparr>"

lemma swap_is_pendsv:
  assumes "psp s AND 3 = 0"
  shows "pendsv_co_context_swap e code at s = pendsv e code (requested at s)"
proof -
  have "psp s - 8 AND 3 = 0" using aligned3_shift[OF assms, of "psp s - 8"] by simp
  then show ?thesis
    by (cases s) (simp add: pendsv_co_context_swap_def swap_request_code_def Let_def requested_def ICSR_REGISTER_ADDRESS_def ICSR_PENDSVSET_BIT_def
        fun_upd_twist)
qed

lemma swap_return:
  assumes "psp s AND 3 = 0" "loads (psp s) 2 (v_mem s) = [x, y]"
  shows "v7_run swap_return_code s = Some (s\<lparr>vreg := (vreg s)(4 := x, 5 := y, 15 := vreg s 14), psp := psp s + 8\<rparr>)"
  using assms by (simp add: swap_return_code_def Let_def numeral_eq_Suc)

lemma callee_registers:
  assumes "v7_register_ctx True s' = v7_register_ctx True (requested at c)"
  shows "map (vreg s') [6, 7, 8, 9, 10, 11] = map (vreg c) [6, 7, 8, 9, 10, 11]" "vreg s' 14 = vreg c 14" "vreg s' 15 = at" "psp s' = psp c - 8"
    "fpca s' = fpca c" "fpca c \<Longrightarrow> map (sreg s') [16..<32] = map (sreg c) [16..<32]"
  using assms by (auto simp: v7_register_ctx_def requested_def split: if_splits)

text \<open>
  C10. After any history on Cortex-M4 or M7, a call \<open>co_context_swap(arg, from, to)\<close> resumes a coroutine that had called \<open>co_context_swap\<close> itself in
  the state \<open>c\<close>, at the place where its PendSV had been taken. Its call returns \<open>arg\<close> with the registers of the caller, \<open>s16\<close> to
  \<open>s31\<close> among them if the floating point extension was in use, and with its stack, as long as nobody has overwritten the two words that it pushed.
\<close>

theorem m4_swap_returns:
  fixes fpu at s c
  defines "W \<equiv> cortex_m4_pendsv fpu" and "r \<equiv> requested at s"
  assumes "co_run W r P" "can_switch W P r" "P (vreg s 2) = Some (v7_register_ctx True (requested at c))"
    and "psp s AND 3 = 0" "psp c AND 3 = 0" "loads (psp c - 8) 2 (v_mem r) = [vreg c 4, vreg c 5]"
    and "region (psp c - 8) 8 \<inter> (sw_writes W r \<union> sw_touch W (v_mem r) (vreg s 2)) = {}"
  shows "\<exists>s' s''. pendsv_co_context_swap True (m4_pendsv_save fpu @ m4_pendsv_load fpu) at s = Some s' \<and> vreg s' 15 = at
    \<and> v7_run swap_return_code s' = Some s'' \<and> vreg s'' 15 = vreg c 14 \<and> vreg s'' 0 = vreg s 0 \<and> psp s'' = psp c
    \<and> map (vreg s'') [4, 5, 6, 7, 8, 9, 10, 11] = map (vreg c) [4, 5, 6, 7, 8, 9, 10, 11]
    \<and> fpca s'' = fpca c \<and> (fpca c \<longrightarrow> map (sreg s'') [16..<32] = map (sreg c) [16..<32])"
proof -
  have rf: "vreg r 0 = vreg s 0" "vreg r 2 = vreg s 2" by (simp_all add: r_def requested_def)
  have "\<exists>s'. sw_run W r = Some s' \<and> P (sw_to W r) = Some (sw_current W s') \<and> sw_result W s' = sw_arg W r
     \<and> (\<forall>x. x \<notin> sw_writes W r \<union> sw_touch W (sw_mem W r) (sw_to W r) \<longrightarrow> sw_mem W s' x = sw_mem W r x)"
    using p4.history_switch[of fpu r P] assms(3,4) unfolding W_def by blast
  then obtain s' where s': "m4_PendSV_Handler fpu r = Some s'" "P (vreg s 2) = Some (v7_register_ctx True s')" "vreg s' 0 = vreg s 0"
    "\<forall>x. x \<notin> sw_writes W r \<union> sw_touch W (v_mem r) (vreg s 2) \<longrightarrow> v_mem s' x = v_mem r x"
    by (auto simp: W_def cortex_m4_pendsv_def pend_switcher_def rf)
  have "v7_register_ctx True s' = v7_register_ctx True (requested at c)" using s'(2) assms(5) by simp
  note c = callee_registers[OF this]
  have "\<forall>x\<in>region (psp c - 8) 8. v_mem s' x = v_mem r x" using s'(4) assms(9) by blast
  then have "loads (psp s') 2 (v_mem s') = [vreg c 4, vreg c 5]"
    using loads_cong[of "psp c - 8" 8 "v_mem s'" "v_mem r" "psp c - 8" 2] assms(8) by (simp add: c(4))
  moreover have "psp s' AND 3 = 0" using aligned3_shift[OF assms(7), of "psp c - 8"] by (simp add: c(4))
  ultimately have "v7_run swap_return_code s' = Some (s'\<lparr>vreg := (vreg s')(4 := vreg c 4, 5 := vreg c 5, 15 := vreg s' 14), psp := psp s' + 8\<rparr>)"
    by (rule swap_return[rotated])
  then show ?thesis using s'(1,3) c swap_is_pendsv[OF assms(6)] by (simp add: m4_PendSV_Handler_def r_def del: upt.simps)
qed

subsection \<open>New coroutines\<close>

lemma loads_list:
  "loads a 8 m = [mem_load 4 a m, mem_load 4 (a + 4) m, mem_load 4 (a + 8) m, mem_load 4 (a + 12) m, mem_load 4 (a + 16) m,
     mem_load 4 (a + 20) m, mem_load 4 (a + 24) m, mem_load 4 (a + 28) m]"
  "loads a 6 m = [mem_load 4 a m, mem_load 4 (a + 4) m, mem_load 4 (a + 8) m, mem_load 4 (a + 12) m, mem_load 4 (a + 16) m, mem_load 4 (a + 20) m]"
proof -
  have n: "(8 :: nat) = Suc (Suc (Suc (Suc (Suc (Suc (Suc (Suc 0)))))))" "(6 :: nat) = Suc (Suc (Suc (Suc (Suc (Suc 0)))))" by simp_all
  show "loads a 8 m = [mem_load 4 a m, mem_load 4 (a + 4) m, mem_load 4 (a + 8) m, mem_load 4 (a + 12) m, mem_load 4 (a + 16) m,
     mem_load 4 (a + 20) m, mem_load 4 (a + 24) m, mem_load 4 (a + 28) m]" unfolding n(1) loads.simps by (simp add: add.commute[of _ a])
  show "loads a 6 m = [mem_load 4 a m, mem_load 4 (a + 4) m, mem_load 4 (a + 8) m, mem_load 4 (a + 12) m, mem_load 4 (a + 16) m,
     mem_load 4 (a + 20) m]" unfolding n(2) loads.simps by (simp add: add.commute[of _ a])
qed

definition new_ctx :: "u32 \<Rightarrow> u32 \<Rightarrow> u32 \<Rightarrow> v7_context" where
  "new_ctx start stk f =
     \<lparr>vx_low = [0, 0, 0, f, 0, 0, 0, 0], vx_high = [0, 0, 0, 0, 0, start], vx_sp = stk AND NOT 7, vx_psr = 0x01000000, vx_fp = None\<rparr>"

lemma m4_make:
  "\<exists>m'. m4_pendsv_make start stk f m = ((stk AND NOT 7) - 68, m') \<and> v7_frame_ctx True ((stk AND NOT 7) - 68) m' = new_ctx start stk f"
proof -
  define a where "a = stk AND NOT 7"
  obtain m' where m': "m4_pendsv_make start stk f m = (a - 68, m')" by (simp add: m4_pendsv_make_def Let_def a_def)
  have x: "\<not> frame_ext True (a - 68) m'"
    using m' by (auto simp: m4_pendsv_make_def Let_def a_def frame_ext_def frame_exc_def exc_return_def load_store_same load_store_other)
  have "v7_frame_ctx True (a - 68) m' = new_ctx start stk f"
    using m' x unfolding a_def
    by (auto simp: m4_pendsv_make_def Let_def v7_frame_ctx_def pushed_def new_ctx_def loads_list load_store_same load_store_other load_zeroed bit_simps)
  then show ?thesis using m' by (simp add: a_def)
qed

lemma basic_make:
  "\<exists>m'. m3_pendsv_make start stk f m = ((stk AND NOT 7) - 64, m') \<and> v7_frame_ctx False ((stk AND NOT 7) - 64) m' = new_ctx start stk f"
  "m0_pendsv_make start stk f m = m3_pendsv_make start stk f m"
proof -
  show "\<exists>m'. m3_pendsv_make start stk f m = ((stk AND NOT 7) - 64, m') \<and> v7_frame_ctx False ((stk AND NOT 7) - 64) m' = new_ctx start stk f"
    by (simp add: m3_pendsv_make_def Let_def v7_frame_ctx_def pushed_def frame_ext_def frame_exc_def new_ctx_def loads_list load_store_same
        load_store_other load_zeroed bit_simps)
  show "m0_pendsv_make start stk f m = m3_pendsv_make start stk f m" by (simp add: m0_pendsv_make_def m3_pendsv_make_def)
qed

text \<open>After any history a new coroutine is entered at \<open>func\<close> with \<open>arg\<close>, on its empty stack of 8 byte alignment.\<close>

lemma enter_new:
  assumes "v7_register_ctx e s' = new_ctx start stk f"
  shows "vreg s' 15 = start \<and> (\<exists>s''. pendsv_start_task ret s' = Some s'' \<and> vreg s'' 15 = f \<and> vreg s'' 0 = vreg s' 0 \<and> psp s'' = stk AND NOT 7 \<and> vreg s'' 14 = ret)"
  using assms by (simp add: v7_register_ctx_def new_ctx_def pendsv_start_task_def)

lemma pend_first_entry:
  assumes "context_switch (pend_switcher e fpu handler)" "co_run (pend_switcher e fpu handler) s P" "can_switch (pend_switcher e fpu handler) P s"
    and "P (vreg s 2) = Some (new_ctx start stk f)"
  shows "\<exists>s' s''. handler s = Some s' \<and> vreg s' 15 = start \<and> pendsv_start_task ret s' = Some s''
    \<and> vreg s'' 15 = f \<and> vreg s'' 0 = vreg s 0 \<and> psp s'' = stk AND NOT 7 \<and> vreg s'' 14 = ret"
proof -
  obtain s' where s': "handler s = Some s'" "v7_register_ctx e s' = new_ctx start stk f" "vreg s' 0 = vreg s 0"
    using context_switch.history_switch[OF assms(1-3)] assms(4) by (auto simp: pend_switcher_def)
  then show ?thesis using enter_new[OF s'(2), of ret] by auto
qed

theorem m4_pendsv_first_entry:
  assumes "m4_pendsv_make start stk f m = (c, m')" "co_run (cortex_m4_pendsv fpu) s P" "can_switch (cortex_m4_pendsv fpu) P s"
    and "P (vreg s 2) = Some (v7_frame_ctx True c m')"
  shows "\<exists>s' s''. m4_PendSV_Handler fpu s = Some s' \<and> vreg s' 15 = start \<and> pendsv_start_task ret s' = Some s''
    \<and> vreg s'' 15 = f \<and> vreg s'' 0 = vreg s 0 \<and> psp s'' = stk AND NOT 7 \<and> vreg s'' 14 = ret"
proof (rule pend_first_entry[where e = True and fpu = fpu, folded cortex_m4_pendsv_def])
  show "P (vreg s 2) = Some (new_ctx start stk f)" using assms(1,4) m4_make[of start stk f m] by auto
qed (use assms(2,3) p4.context_switch_axioms in \<open>simp_all add: cortex_m4_pendsv_def\<close>)

theorem m3_pendsv_first_entry:
  assumes "m3_pendsv_make start stk f m = (c, m')" "co_run cortex_m3_pendsv s P" "can_switch cortex_m3_pendsv P s"
    and "P (vreg s 2) = Some (v7_frame_ctx False c m')"
  shows "\<exists>s' s''. m3_PendSV_Handler s = Some s' \<and> vreg s' 15 = start \<and> pendsv_start_task ret s' = Some s''
    \<and> vreg s'' 15 = f \<and> vreg s'' 0 = vreg s 0 \<and> psp s'' = stk AND NOT 7 \<and> vreg s'' 14 = ret"
proof (rule pend_first_entry[where e = False and fpu = False, folded cortex_m3_pendsv_def])
  show "P (vreg s 2) = Some (new_ctx start stk f)" using assms(1,4) basic_make(1)[of start stk f m] by auto
qed (use assms(2,3) p3.context_switch_axioms in \<open>simp_all add: cortex_m3_pendsv_def\<close>)

theorem m0_pendsv_first_entry:
  assumes "m0_pendsv_make start stk f m = (c, m')" "co_run cortex_m0_pendsv s P" "can_switch cortex_m0_pendsv P s"
    and "P (vreg s 2) = Some (v7_frame_ctx False c m')"
  shows "\<exists>s' s''. m0_PendSV_Handler s = Some s' \<and> vreg s' 15 = start \<and> pendsv_start_task ret s' = Some s''
    \<and> vreg s'' 15 = f \<and> vreg s'' 0 = vreg s 0 \<and> psp s'' = stk AND NOT 7 \<and> vreg s'' 14 = ret"
proof (rule pend_first_entry[where e = False and fpu = False, folded cortex_m0_pendsv_def])
  show "P (vreg s 2) = Some (new_ctx start stk f)" using assms(1,4) basic_make(1)[of start stk f m] by (auto simp: basic_make(2))
qed (use assms(2,3) p0.context_switch_axioms in \<open>simp_all add: cortex_m0_pendsv_def\<close>)

text \<open>
  A small example: a coroutine that uses the floating point extension has called \<open>co_context_swap\<close> with the stack pointer \<open>0x2000\<close>, and its frame is recorded at
  \<open>0x3000\<close>; another one, on the stack below \<open>0x1800\<close>, switches to it.
\<close>

definition parked_demo :: cortex_v7 where
  "parked_demo = \<lparr>vreg = (\<lambda>_. 0)(7 := 21, 14 := 0x4001), psp = 0x2000, xpsr = 0x01000000, fpca = True, sreg = (\<lambda>_. 5), fpscr = 0,
     pendsv_set = False, v_mem = (\<lambda>_. 0)\<rparr>"

definition calling_demo :: cortex_v7 where
  "calling_demo = \<lparr>vreg = (\<lambda>_. 0)(0 := 7, 1 := 0x3008, 2 := 0x3000), psp = 0x1804, xpsr = 0x01000000, fpca = False, sreg = (\<lambda>_. 0), fpscr = 0,
     pendsv_set = False, v_mem = mem_store 4 0x3000 (v7_fr True (requested 0x8001 parked_demo)) (v7_saved True (requested 0x8001 parked_demo))\<rparr>"

lemma parked_demo:
  fixes rc
  defines "rc \<equiv> requested 0x8001 parked_demo" and "m \<equiv> v_mem (requested 0x8001 calling_demo)"
  shows "v7_fr True rc = 0x1F2C" "mem_load 4 0x3000 m = (0x1F2C :: u32)" "frame_size True 0x1F2C m = 204" "frame_ok True True 0x1F2C m"
    "v7_frame_ctx True 0x1F2C m = v7_register_ctx True rc" "pushed True 0x1F2C m = 0x1F90" "loads 0x1FF8 2 m = [0, 0]"
proof -
  have p: "psp rc = 0x1FF8" "fpca rc" "xpsr rc = 0x01000000" by (simp_all add: rc_def requested_def parked_demo_def)
  have pu: "v7_pushed True rc = 0x1F90" by (simp add: v7_pushed_def p)
  show fr: "v7_fr True rc = 0x1F2C" by (simp add: v7_fr_def pu p)
  have "v_mem calling_demo = mem_store 4 0x3000 (0x1F2C :: u32) (v7_saved True rc)"
    unfolding calling_demo_def rc_def[symmetric] fr by simp
  moreover have "psp calling_demo - 8 = 0x17FC" "vreg calling_demo 4 = 0" "vreg calling_demo 5 = 0" by (simp_all add: calling_demo_def)
  moreover have "m = store_words (psp calling_demo - 8) [vreg calling_demo 4, vreg calling_demo 5] (v_mem calling_demo)"
    unfolding m_def requested_def by simp
  ultimately have m: "m = store_words 0x17FC [0, 0] (mem_store 4 0x3000 (0x1F2C :: u32) (v7_saved True rc))"
    by simp
  show "mem_load 4 0x3000 m = (0x1F2C :: u32)" by (simp add: m load_store_same load_store_other)
  have sz: "frame_size True 0x1F2C (v7_saved True rc) = 204" using saved_size[of True rc] by (simp add: fr p)
  have d: "region (0x1F2C :: u32) 204 \<inter> region 0x17FC 4 = {}" "region (0x1F2C :: u32) 204 \<inter> region 0x1800 4 = {}"
    "region (0x1F2C :: u32) 204 \<inter> region 0x3000 4 = {}" by (rule region_disjoint; simp)+
  then have "\<forall>x\<in>region 0x1F2C (frame_size True 0x1F2C (v7_saved True rc)). m x = v7_saved True rc x"
    unfolding sz m by (auto simp: store_outside disjoint_iff)
  note c = v7_frame_cong[OF this]
  show "frame_size True 0x1F2C m = 204" using c(1) sz by simp
  show "frame_ok True True 0x1F2C m" unfolding c(4) using saved_ok[of True True rc] by (simp add: fr pu p ICSR_REGISTER_ADDRESS_def)
  show "v7_frame_ctx True 0x1F2C m = v7_register_ctx True rc" unfolding c(3) using saved_ctx[of True rc] by (simp add: fr)
  show "pushed True 0x1F2C m = 0x1F90" unfolding c(2) using saved_exc(3)[of True rc] by (simp add: fr pu)
  have e: "region (0x1FF8 :: u32) 8 \<inter> region 0x17FC 4 = {}" "region (0x1FF8 :: u32) 8 \<inter> region 0x1800 4 = {}"
    "region (0x1FF8 :: u32) 8 \<inter> region 0x3000 4 = {}" "region (0x1FF8 :: u32) 8 \<inter> region 0x1F2C 204 = {}" by (rule region_disjoint; simp)+
  have "\<forall>x\<in>region 0x1FF8 8. m x = v_mem rc x"
    unfolding m using e saved_outside[of _ True rc] by (auto simp: store_outside disjoint_iff fr sz)
  then have "loads 0x1FF8 2 m = loads 0x1FF8 2 (v_mem rc)" by (rule loads_cong) simp
  also have "v_mem rc = store_words 0x1FF8 [0, 0] (\<lambda>_. 0)" by (simp add: rc_def requested_def parked_demo_def)
  also have "loads 0x1FF8 2 \<dots> = [0, 0]" by (rule loads_store_all) simp_all
  finally show "loads 0x1FF8 2 m = [0, 0]" .
qed

theorem m4_swap_returns_witness:
  "\<exists>s' s''. pendsv_co_context_swap True (m4_pendsv_save True @ m4_pendsv_load True) 0x8001 calling_demo = Some s'
    \<and> v7_run swap_return_code s' = Some s'' \<and> vreg s'' 15 = 0x4001 \<and> vreg s'' 0 = 7 \<and> psp s'' = 0x2000 \<and> vreg s'' 7 = 21"
proof -
  let ?W = "cortex_m4_pendsv True" and ?r = "requested 0x8001 calling_demo"
  let ?P = "[0x3000 \<mapsto> v7_register_ctx True (requested 0x8001 parked_demo)]"
  note w = cortex_m4_pendsv_def pend_switcher_def
  have q: "psp ?r = 0x17FC" "\<not> fpca ?r" "xpsr ?r = 0x01000000" "vreg ?r 1 = 0x3008" "vreg ?r 2 = 0x3000"
    by (simp_all add: requested_def calling_demo_def)
  have h: "v7_pushed True ?r = 0x17D8" by (simp add: v7_pushed_def q)
  have fr: "v7_fr True ?r = 0x17B4" by (simp add: v7_fr_def h q)
  have run: "co_run ?W ?r ?P"
    using co_run.make[OF co_run.start, where W = ?W and s = ?r and p = "0x3000"] parked_demo(2,4,5)
    by (simp add: w var_ok_def ICSR_REGISTER_ADDRESS_def)
  have wr: "sw_writes ?W ?r = region 0x17B4 68 \<union> region 0x3008 4" by (simp add: sw_writes_def w fr q q(4)[unfolded One_nat_def])
  have ft: "sw_foot ?W (sw_mem ?W ?r) 0x3000 = region 0x3000 4 \<union> region 0x1F2C 204" using parked_demo(2,3) by (simp add: w)
  have "(region 0x17B4 68 \<union> region 0x3008 4) \<inter> (region 0x3000 4 \<union> region 0x1F2C 204) = ({} :: u32 set)"
    "region 0x17B4 68 \<inter> region (0x3008 :: u32) 4 = {}"
    by (simp_all add: Int_Un_distrib Int_Un_distrib2 region_disjoint)
  then have can: "can_switch ?W ?P ?r"
    unfolding can_switch_def wr using ft
    by (simp add: w fr h q q(4)[unfolded One_nat_def] var_ok_def ICSR_REGISTER_ADDRESS_def)
  have keep: "region (psp parked_demo - 8) 8 \<inter> (sw_writes ?W ?r \<union> sw_touch ?W (v_mem ?r) (vreg calling_demo 2)) = {}"
    using parked_demo(2,6) unfolding wr
    by (simp add: w parked_demo_def calling_demo_def Int_Un_distrib region_disjoint)
  have ld: "loads (psp parked_demo - 8) 2 (v_mem ?r) = [vreg parked_demo 4, vreg parked_demo 5]"
    using parked_demo(7) by (simp add: parked_demo_def)
  show ?thesis
    using m4_swap_returns[OF run can _ _ _ ld keep] by (auto simp: calling_demo_def parked_demo_def simp del: upt.simps)
qed

end
