(* ===== verification/Eh_Task_Switch_Spec.thy ===== *)
theory Eh_Task_Switch_Spec
  imports Eh_Coroutine_Ports Eh_Sched_Spec
begin

text \<open>
  The scheduler on a machine: the kernel state, in which a switch is a change of \<open>current_task\<close>, together with the
  machine, on which it is \<open>co_context_swap(NULL, &current_task->context, &to->context)\<close>. The lists of the scheduler guarantee
  what a port asks of a switch, except for room on the stack: that the caller is not parked and the callee is.
\<close>

lemma insert_remove1: "insert t (set (remove1 t xs)) = insert t (set xs)"
  by (auto dest: in_set_remove1[THEN iffD2, rotated] notin_set_remove1)

lemma wake_up_linked:
  "t_state (tasks k t) = WAIT \<Longrightarrow> t \<noteq> current_task k \<Longrightarrow> set (linked (eh_task_wake_up t k)) = insert t (set (linked k))"
  using insert_remove1[of t "ready_list k"] insert_remove1[of t "task_wait_list k"] insert_remove1[of t "task_finish_list k"]
    insert_remove1[of t "task_finish_auto_destruct_list k"]
  by (auto simp: eh_task_wake_up_def task_move_next_def task_move_last_def task_unlink_def eh_idle_break_def Let_def linked_def)

lemma create_linked:
  assumes "t \<notin> live k" "sched_inv k"
  shows "set (linked (snd (task_create_stack (Some t) name static flags sp n arg fn k))) = insert t (set (linked k))"
proof -
  let ?k1 = "update_task t (\<lambda>tk. tk\<lparr>t_name := name\<rparr>) k"
  let ?k2 = "task_struct_init t static flags sp (replicate n EH_STACK_PAD_BYTE) arg fn ?k1"
  have l: "t \<notin> live ?k1" "linked ?k1 = linked k" "current_task ?k1 = current_task k"
    using assms by (auto simp: live_def linked_def update_task_def)
  note e = struct_init_effect[OF l(1) refl, where static = static and flags = flags and sp = sp
      and stack = "replicate n EH_STACK_PAD_BYTE" and arg = arg and fn = fn]
  have "t \<noteq> current_task ?k2" using e(2) l(3) assms(1) by (auto simp: live_def)
  then show ?thesis using wake_up_linked[OF e(4)] e(1) l(2) by (simp add: task_create_stack_def Let_def)
qed

lemma switch_linked:
  assumes "sched_inv k" "ready_list k \<noteq> []"
  shows "current_task (task_switch fresh k) = hd (ready_list k)"
    "set (linked (task_switch fresh k)) = insert (current_task k) (set (linked k)) - {hd (ready_list k)}"
proof -
  obtain to rest where r: "ready_list k = to # rest" using assms(2) by (cases "ready_list k") auto
  show c: "current_task (task_switch fresh k) = hd (ready_list k)" using r by (simp add: task_switch_effect[OF r])
  have m: "set (current_task (task_switch fresh k) # linked (task_switch fresh k)) = set (current_task k # linked k)"
    using switch_live[OF assms(2), of fresh] by (metis set_mset_mset)
  have "distinct (current_task (task_switch fresh k) # linked (task_switch fresh k))"
    using switch_inv[OF assms, of fresh] by (simp add: sched_inv_def)
  then show "set (linked (task_switch fresh k)) = insert (current_task k) (set (linked k)) - {hd (ready_list k)}"
    using m c by auto
qed

text \<open>
  \<open>stack_room W P s\<close>: the frame of the switch fits on the stack of the caller, that is, it overlaps neither the variable it
  is recorded in nor what is parked. \<open>ctx t\<close> is the address of the context of task \<open>t\<close>.
\<close>

definition stack_room :: "('s, 'a::len word, 'c) switcher \<Rightarrow> ('a word \<rightharpoonup> 'c) \<Rightarrow> 's \<Rightarrow> bool" where
  "stack_room W P s \<longleftrightarrow> sw_aligned W s \<and> sw_frame W s \<inter> region (sw_from W s) (sw_word W) = {}
     \<and> (\<forall>p\<in>dom P. sw_writes W s \<inter> sw_foot W (sw_mem W s) p = {})"

inductive system_run ::
  "('s, 'a::len word, 'c) switcher \<Rightarrow> (ptr \<Rightarrow> 'a word) \<Rightarrow> hooks \<Rightarrow> ptr set \<Rightarrow> kernel \<Rightarrow> 's \<Rightarrow> ('a word \<rightharpoonup> 'c) \<Rightarrow> bool" for W ctx h fresh where
  boot: "system_run W ctx h fresh (main_task_init m (interior_init k)) s (\<lambda>_. None)"
| compute: "system_run W ctx h fresh k s P \<Longrightarrow> (\<forall>p\<in>dom P. \<forall>x\<in>sw_foot W (sw_mem W s) p. sw_mem W s' x = sw_mem W s x) \<Longrightarrow>
    system_run W ctx h fresh k s' P"
| kernel: "system_run W ctx h fresh k s P \<Longrightarrow> sched_step h fresh k k' \<Longrightarrow> current_task k' = current_task k \<Longrightarrow>
    set (linked k') \<subseteq> set (linked k) \<Longrightarrow> system_run W ctx h fresh k' s (P |` (ctx ` set (linked k')))"
| create: "system_run W ctx h fresh k s P \<Longrightarrow> t \<notin> live k \<Longrightarrow> ctx t \<notin> ctx ` live k \<Longrightarrow>
    k' = snd (task_create_stack (Some t) name static flags sp n arg fn k) \<Longrightarrow> sw_valid W (sw_mem W s) (ctx t) \<Longrightarrow>
    (\<forall>p\<in>dom P. sw_foot W (sw_mem W s) (ctx t) \<inter> sw_foot W (sw_mem W s) p = {}) \<Longrightarrow>
    system_run W ctx h fresh k' s (P(ctx t \<mapsto> sw_parked W (sw_mem W s) (ctx t)))"
| switch: "system_run W ctx h fresh k s P \<Longrightarrow> ready_list k \<noteq> [] \<Longrightarrow> sw_from W s = ctx (current_task k) \<Longrightarrow>
    sw_to W s = ctx (hd (ready_list k)) \<Longrightarrow> stack_room W P s \<Longrightarrow> sw_run W s = Some s' \<Longrightarrow>
    system_run W ctx h fresh (task_switch fresh k) s' (P(sw_to W s := None, sw_from W s \<mapsto> sw_calling W s))"

definition system_ok :: "('s, 'a::len word, 'c) switcher \<Rightarrow> (ptr \<Rightarrow> 'a word) \<Rightarrow> kernel \<Rightarrow> 's \<Rightarrow> ('a word \<rightharpoonup> 'c) \<Rightarrow> bool" where
  "system_ok W ctx k s P \<longleftrightarrow> sched_inv k \<and> inj_on ctx (live k) \<and> dom P = ctx ` set (linked k) \<and> co_run W s P"

text \<open>The lists of the scheduler guarantee the conditions of a switch.\<close>

lemma system_can_switch:
  assumes "system_ok W ctx k s P" "ready_list k \<noteq> []" "sw_from W s = ctx (current_task k)" "sw_to W s = ctx (hd (ready_list k))"
    "stack_room W P s"
  shows "can_switch W P s"
proof -
  have "hd (ready_list k) \<in> set (linked k)" using assms(2) by (simp add: linked_def)
  moreover have "current_task k \<notin> set (linked k)" using assms(1) by (simp add: system_ok_def sched_inv_def)
  ultimately show ?thesis using assms by (auto simp: can_switch_def stack_room_def system_ok_def live_def inj_on_def)
qed

lemma system_run_ok:
  assumes h: "hooks_keep sched_inv h"
  shows "system_run W ctx h fresh k s P \<Longrightarrow> system_ok W ctx k s P"
proof (induction rule: system_run.induct)
  case (boot m k s)
  have "linked (main_task_init m (interior_init k)) = []"
    using main_task_init_inv[of m k] unfolding live_def sched_inv_def
    by (metis distinct.simps(2) insert_iff list.set_intros(1) list.simps(15) neq_Nil_conv singletonD)
  then show ?case using main_task_init_inv(1,2)[of m k] by (simp add: system_ok_def co_run.start)
next
  case (compute k s P s')
  have "co_run W s' P" by (rule co_run.compute[OF _ compute.hyps(2)]) (use compute.IH in \<open>simp add: system_ok_def\<close>)
  then show ?case using compute.IH by (simp add: system_ok_def)
next
  case (kernel k s P k')
  have "live k' \<subseteq> live k" using kernel.hyps by (auto simp: live_def)
  then show ?case
    using kernel sched_step_inv[OF kernel.hyps(2) h] by (auto simp: system_ok_def intro: inj_on_subset co_run.forget)
next
  case (create k s P t k' name static flags sp n arg fn)
  have ok: "system_ok W ctx k s P" by (rule create.IH)
  then have inv: "sched_inv k" by (simp add: system_ok_def)
  have c: "current_task k' = current_task k" "sched_inv k'"
    using create_stack_effect(2,5)[OF create.hyps(2) inv refl] create.hyps(4) by auto
  have l: "set (linked k') = insert t (set (linked k))" using create_linked[OF create.hyps(2) inv] create.hyps(4) by simp
  have live: "live k' = insert t (live k)" using c(1) l by (auto simp: live_def)
  have P: "ctx t \<notin> dom P" using ok create.hyps(3) by (auto simp: system_ok_def live_def)
  have "co_run W s (P(ctx t \<mapsto> sw_parked W (sw_mem W s) (ctx t)))"
    by (rule co_run.make[OF _ P create.hyps(5,6)]) (use ok in \<open>simp add: system_ok_def\<close>)
  moreover have "dom (P(ctx t \<mapsto> sw_parked W (sw_mem W s) (ctx t))) = ctx ` set (linked k')"
    using ok l by (simp add: system_ok_def)
  moreover have "inj_on ctx (live k')" using ok live create.hyps(2,3) by (auto simp: system_ok_def inj_on_insert)
  ultimately show ?case using c(2) unfolding system_ok_def by blast
next
  case (switch k s P s')
  have ok: "system_ok W ctx k s P" by (rule switch.IH)
  then have inv: "sched_inv k" by (simp add: system_ok_def)
  note sl = switch_linked[OF inv switch.hyps(2), of fresh]
  have "hd (ready_list k) \<in> set (linked k)" using switch.hyps(2) by (simp add: linked_def)
  then have live: "live (task_switch fresh k) = live k" using sl by (auto simp: live_def)
  have "co_run W s' (P(sw_to W s := None, sw_from W s \<mapsto> sw_calling W s))"
    by (rule co_run.switch[OF _ system_can_switch[OF ok switch.hyps(2-5)] switch.hyps(6)]) (use ok in \<open>simp add: system_ok_def\<close>)
  moreover have "dom (P(sw_to W s := None, sw_from W s \<mapsto> sw_calling W s)) = ctx ` set (linked (task_switch fresh k))"
    using ok sl \<open>hd (ready_list k) \<in> set (linked k)\<close> switch.hyps(3,4) by (auto simp: system_ok_def live_def inj_on_def sched_inv_def)
  moreover have "sched_inv (task_switch fresh k)" by (rule switch_inv[OF inv switch.hyps(2)])
  moreover have "inj_on ctx (live (task_switch fresh k))" using ok live by (simp add: system_ok_def)
  ultimately show ?case unfolding system_ok_def by blast
qed

text \<open>
  C9. The scheduler and the context switch together, on Linux: whatever the kernel did and the tasks computed, when a task gives
  the processor away, with room for the frame on its stack, then \<open>co_context_swap\<close> goes on with the first ready task exactly
  where that task had stopped or was made to start, with its registers and its stack; and every task that does not run
  now is parked, the caller with the context it has to return to.
\<close>

theorem linux_task_resumed:
  assumes "hooks_keep sched_inv h" "system_run linux_x64 ctx h fresh k s P" "ready_list k \<noteq> []"
    and "gpr s RSI = ctx (current_task k)" "gpr s RDX = ctx (hd (ready_list k))" "stack_room linux_x64 P s"
  shows "\<exists>s'. linux_co_context_swap s = Some s'
    \<and> P (ctx (current_task (task_switch fresh k))) = Some (register_ctx linux_layout (gpr s' RSP) (rip s') s')
    \<and> sw_parked linux_x64 (x86_mem s') (ctx (current_task k))
        = register_ctx linux_layout (gpr s RSP + 8) (mem_load 8 (gpr s RSP) (x86_mem s)) s
    \<and> (\<forall>t\<in>set (linked (task_switch fresh k)) - {current_task k}. P (ctx t) = Some (sw_parked linux_x64 (x86_mem s') (ctx t)))"
proof -
  have ok: "system_ok linux_x64 ctx k s P" by (rule system_run_ok[OF assms(1,2)])
  then have inv: "sched_inv k" by (simp add: system_ok_def)
  have ft: "sw_from linux_x64 s = ctx (current_task k)" "sw_to linux_x64 s = ctx (hd (ready_list k))"
    using assms(4,5) by (simp_all add: linux_x64_def x86_sel linux_sel)
  have can: "can_switch linux_x64 P s" by (rule system_can_switch[OF ok assms(3) ft assms(6)])
  have "co_ok linux_x64 s P" using ok by (simp add: system_ok_def lx.history_ok)
  from lx.switch_step[OF this can] obtain s' where s': "sw_run linux_x64 s = Some s'" "switched linux_x64 s s'"
    "P (sw_to linux_x64 s) = Some (sw_current linux_x64 s')"
    "co_ok linux_x64 s' (P(sw_to linux_x64 s := None, sw_from linux_x64 s \<mapsto> sw_calling linux_x64 s))" by blast
  note sl = switch_linked[OF inv assms(3), of fresh]
  have rest: "P (ctx t) = Some (sw_parked linux_x64 (x86_mem s') (ctx t))"
    if t: "t \<in> set (linked (task_switch fresh k)) - {current_task k}" for t
  proof -
    have m: "t \<in> live k" "hd (ready_list k) \<in> live k" "current_task k \<in> live k" "t \<noteq> hd (ready_list k)" "t \<noteq> current_task k" "t \<in> set (linked k)"
      using t sl(2) assms(3) by (auto simp: live_def linked_def)
    then have n: "ctx t \<noteq> ctx (hd (ready_list k))" "ctx t \<noteq> ctx (current_task k)" "ctx t \<in> dom P"
      using ok by (auto simp: system_ok_def inj_on_def)
    then have "(P(sw_to linux_x64 s := None, sw_from linux_x64 s \<mapsto> sw_calling linux_x64 s)) (ctx t) = P (ctx t)"
      by (simp add: ft)
    moreover from this n(3) have "ctx t \<in> dom (P(sw_to linux_x64 s := None, sw_from linux_x64 s \<mapsto> sw_calling linux_x64 s))" by auto
    ultimately show ?thesis using s'(4) unfolding co_ok_def by (metis linux_x64_def x86_sel(3))
  qed
  show ?thesis
    using s' rest ft sl(1) by (auto simp: switched_def linux_x64_def x86_sel)
qed

text \<open>For the witness: the task 5 is created, its context made below \<open>0x2000\<close>; then the main task yields.\<close>

definition ex_ctx :: "ptr \<Rightarrow> u64" where
  "ex_ctx t = (if t = 5 then 0x3000 else 0x3008)"

definition ex_kernel :: kernel where
  "ex_kernel = snd (task_create_stack (Some 5) ''t'' True 0 0 0 0 7 (main_task_init 9 (interior_init demo)))"

lemma ex_kernel: "current_task ex_kernel = 9" "ready_list ex_kernel = [5]"
proof -
  let ?k = "main_task_init 9 (interior_init demo)"
  have m: "sched_inv ?k" "live ?k = {9}" "current_task ?k = 9" by (simp_all add: main_task_init_inv)
  have f: "5 \<notin> live ?k" using m(2) by simp
  note e = create_stack_effect[OF f m(1) refl, where name = "''t''" and static = True and flags = 0 and sp = 0 and n = 0 and arg = 0 and fn = 7,
      folded ex_kernel_def]
  show "current_task ex_kernel = 9" using e(5) m(3) by simp
  have "9 \<notin> set (linked ?k)" "set (linked ?k) \<subseteq> {9}" using m by (auto simp: sched_inv_def live_def)
  then have "set (linked ?k) = {}" by (metis subset_singletonD insertI1)
  then have "set (linked ex_kernel) = {5}" using create_linked[OF f m(1)] by (simp add: ex_kernel_def)
  then have "set (ready_list ex_kernel) = {5}" "distinct (ready_list ex_kernel)"
    using e(2,4) by (auto simp: linked_def sched_inv_def)
  then show "ready_list ex_kernel = [5]" by (cases "ready_list ex_kernel"; cases "tl (ready_list ex_kernel)") auto
qed

theorem linux_task_resumed_witness:
  "\<exists>s'. linux_co_context_swap linux_demo = Some s'
    \<and> frame_ctx linux_layout (gpr linux_made RAX) (x86_mem linux_made) = register_ctx linux_layout (gpr s' RSP) (rip s') s'"
proof -
  let ?P = "[0x3000 \<mapsto> frame_ctx linux_layout (gpr linux_made RAX) (x86_mem linux_made)]"
  have m: "live (main_task_init 9 (interior_init demo)) = {9}" by (rule main_task_init_inv(2))
  have "system_run linux_x64 ex_ctx no_hooks {} ex_kernel linux_demo ((\<lambda>_. None)(ex_ctx 5 \<mapsto> sw_parked linux_x64 (sw_mem linux_x64 linux_demo) (ex_ctx 5)))"
    by (rule system_run.create[OF system_run.boot _ _ ex_kernel_def]) (simp_all add: m ex_ctx_def linux_x64_def x86_sel linux_sel)
  then have run: "system_run linux_x64 ex_ctx no_hooks {} ex_kernel linux_demo ?P"
    using linux_demo_parked(2) by (simp add: ex_ctx_def linux_x64_def x86_sel)
  have room: "stack_room linux_x64 ?P linux_demo" using linux_demo(2) by (simp add: stack_room_def can_switch_def)
  have "current_task (task_switch {} ex_kernel) = 5" using ex_kernel(2) by (simp add: task_switch_effect)
  then show ?thesis
    using linux_task_resumed[OF no_hooks_keep run _ _ _ room] linux_demo(3,5) ex_kernel by (auto simp: ex_ctx_def)
qed

end
