(* ===== verification/Eh_Ports.thy ===== *)
theory Eh_Ports
  imports Eh_Platform
begin

text \<open>
  The ports besides Linux: \<^verbatim>\<open>platform/windows\<close> (\<^verbatim>\<open>platform.c\<close>, \<^verbatim>\<open>iocp_hub.c\<close>) and \<^verbatim>\<open>platform/macos\<close>
  (\<^verbatim>\<open>platform.c\<close>, \<^verbatim>\<open>kqueue_hub.c\<close>). They have the shape of the Linux port, so their platform state is the record
  \<open>linux_platform\<close>, as it is named on macOS too, with a state of their own for what breaks the wait. System calls are arguments.
\<close>

subsection \<open>Windows: the clock\<close>

definition windows_get_clock_monotonic_time :: "u64 \<Rightarrow> u64 \<Rightarrow> u64" where
  "windows_get_clock_monotonic_time perf_freq counter = counter * 1000000 div perf_freq"

subsection \<open>Windows: the completion port\<close>

text \<open>
  \<open>port_queue\<close> is the queue of the port, \<open>wakeup_action\<close> whether the callback of the wake-up is set, \<open>0\<close> the \<open>NULL\<close>
  handle. \<open>post key q\<close> is \<open>PostQueuedCompletionStatus\<close>; \<open>dequeue ms q\<close> is \<open>GetQueuedCompletionStatusEx\<close> with its
  result, the keys of the entries it removed and the queue it left.
\<close>

definition IOCP_HUB_WAKEUP_KEY :: u64 where "IOCP_HUB_WAKEUP_KEY = 1"

record 'q iocp_hub =
  iocp_port :: int
  wakeup_pending :: bool
  wakeup_action :: bool
  port_queue :: 'q

definition wakeup_callback :: "'q iocp_hub \<Rightarrow> 'q iocp_hub" where
  "wakeup_callback h = h\<lparr>wakeup_pending := False\<rparr>"

definition iocp_hub_set_wait_break_event :: "(u64 \<Rightarrow> 'q \<Rightarrow> 'q) \<Rightarrow> 'q iocp_hub \<Rightarrow> 'q iocp_hub" where
  "iocp_hub_set_wait_break_event post h =
     (if \<not> wakeup_pending h then h\<lparr>wakeup_pending := True, port_queue := post IOCP_HUB_WAKEUP_KEY (port_queue h)\<rparr> else h)"

definition iocp_hub_clean_wait_break_event :: "'q iocp_hub \<Rightarrow> 'q iocp_hub" where
  "iocp_hub_clean_wait_break_event h = h"

definition iocp_hub_add_handle :: "int \<Rightarrow> int" where
  "iocp_hub_add_handle create = (if create = 0 then -1 else 0)"

definition iocp_hub_del_handle :: int where
  "iocp_hub_del_handle = 0"

definition iocp_timeout :: "u64 \<Rightarrow> u32" where
  "iocp_timeout timeout_usec =
     (if timeout_usec = 0 then 0 else if timeout_usec = -1 then -1 else ucast (timeout_usec div 1000))"

definition iocp_dispatch :: "u64 \<Rightarrow> 'q iocp_hub \<Rightarrow> 'q iocp_hub" where
  "iocp_dispatch key h = (if key = IOCP_HUB_WAKEUP_KEY then (if wakeup_action h then wakeup_callback h else h) else h)"

definition iocp_hub_poll :: "(u32 \<Rightarrow> 'q \<Rightarrow> bool \<times> u64 list \<times> 'q) \<Rightarrow> u64 \<Rightarrow> 'q iocp_hub \<Rightarrow> int \<times> 'q iocp_hub" where
  "iocp_hub_poll dequeue timeout_usec h =
     (let (ok, keys, q) = dequeue (iocp_timeout timeout_usec) (port_queue h);
          h = h\<lparr>port_queue := q\<rparr>
      in if \<not> ok \<or> keys = [] then (0, h) else (0, fold iocp_dispatch keys h))"

definition iocp_hub_init :: "int \<Rightarrow> 'q \<Rightarrow> 'q iocp_hub \<Rightarrow> int \<times> 'q iocp_hub" where
  "iocp_hub_init create q h =
     (let h = h\<lparr>iocp_port := create\<rparr>
      in if create = 0 then (-1, h)
         else (0, h\<lparr>wakeup_pending := False, wakeup_action := True, port_queue := q\<rparr>))"

text \<open>The handles that are closed, with the hub after it.\<close>

definition iocp_hub_exit :: "'q iocp_hub \<Rightarrow> int list \<times> 'q iocp_hub" where
  "iocp_hub_exit h = (if iocp_port h \<noteq> 0 then ([iocp_port h], h\<lparr>iocp_port := 0\<rparr>) else ([], h))"

subsection \<open>Windows: the platform\<close>

definition windows_idle_break :: "(u64 \<Rightarrow> 'q \<Rightarrow> 'q) \<Rightarrow> 'q iocp_hub linux_platform \<Rightarrow> 'q iocp_hub linux_platform" where
  "windows_idle_break post p =
     (if is_idle_state p then p\<lparr>wait_break := iocp_hub_set_wait_break_event post (wait_break p)\<rparr> else p)"

definition windows_idle_enter :: "u64 \<Rightarrow> 'q iocp_hub linux_platform \<Rightarrow> u64 \<times> 'q iocp_hub linux_platform" where
  "windows_idle_enter cps p =
     (let p = p\<lparr>is_idle_state := True\<rparr>;
          (m, k) = eh_get_loop_idle_time cps (os_kernel p);
          p = p\<lparr>os_kernel := k\<rparr>
      in (eh_clock_to_usec cps (word_of_int m), p\<lparr>wait_break := iocp_hub_clean_wait_break_event (wait_break p)\<rparr>))"

definition windows_idle_leave :: "'q iocp_hub linux_platform \<Rightarrow> 'q iocp_hub linux_platform" where
  "windows_idle_leave p = p\<lparr>is_idle_state := False\<rparr>"

definition win_platform_init :: "int \<Rightarrow> 'q \<Rightarrow> 'q iocp_hub linux_platform \<Rightarrow> int \<times> 'q iocp_hub linux_platform" where
  "win_platform_init create q p =
     (let (ret, h) = iocp_hub_init create q (wait_break p); p = p\<lparr>wait_break := h\<rparr>
      in if ret < 0 then (ret, p) else (0, p\<lparr>is_idle_state := False\<rparr>))"

definition win_platform_deinit :: "'q iocp_hub linux_platform \<Rightarrow> int list \<times> 'q iocp_hub linux_platform" where
  "win_platform_deinit p = (let (closed, h) = iocp_hub_exit (wait_break p) in (closed, p\<lparr>wait_break := h\<rparr>))"

subsection \<open>macOS: the pipe and the queue of events\<close>

text \<open>
  \<open>'p\<close> is the state of the pipe; \<open>pipe_read\<close> is \<open>read\<close> of at most 1024 bytes, with its result. The loop that empties the
  pipe is a recursion that need not end.
\<close>

partial_function (option) kqueue_hub_clean_wait_break_event :: "('p \<Rightarrow> int \<times> 'p) \<Rightarrow> 'p \<Rightarrow> 'p option" where
  "kqueue_hub_clean_wait_break_event pipe_read s =
     (let (n, s) = pipe_read s in if n = 1024 then kqueue_hub_clean_wait_break_event pipe_read s else Some s)"

definition kqueue_hub_set_wait_break_event :: "('p \<Rightarrow> 'p) \<Rightarrow> 'p \<Rightarrow> 'p" where
  "kqueue_hub_set_wait_break_event pipe_write s = pipe_write s"

definition kqueue_event_wait_break_callback :: "('p \<Rightarrow> int \<times> 'p) \<Rightarrow> 'p \<Rightarrow> 'p option" where
  "kqueue_event_wait_break_callback pipe_read s = kqueue_hub_clean_wait_break_event pipe_read s"

definition kqueue_timeout :: "u64 \<Rightarrow> u64 \<times> u64" where
  "kqueue_timeout timeout = (if timeout \<noteq> 0 then (timeout div 1000000, (timeout mod 1000000) * 1000) else (0, 0))"

fun run_kevents :: "('t \<Rightarrow> 't) option list \<Rightarrow> 't \<Rightarrow> 't" where
  "run_kevents [] s = s"
| "run_kevents (action # es) s = run_kevents es (case action of None \<Rightarrow> s | Some f \<Rightarrow> f s)"

definition kqueue_hub_poll ::
  "(u64 \<times> u64 \<Rightarrow> 't \<Rightarrow> int \<times> ('t \<Rightarrow> 't) option list \<times> 't) \<Rightarrow> u64 \<Rightarrow> 't \<Rightarrow> int \<times> 't" where
  "kqueue_hub_poll kevent timeout s =
     (let (ret, events, s) = kevent (kqueue_timeout timeout) s
      in if ret \<le> 0 then (ret, s) else (0, run_kevents (take (nat ret) events) s))"

record kqueue_hub =
  kqueue_fd :: int
  kq_wait_break_fd :: int
  wake_up_fd :: int
  kq_open :: "int list"

definition kq_close :: "int \<Rightarrow> kqueue_hub \<Rightarrow> kqueue_hub" where
  "kq_close fd h = h\<lparr>kq_open := remove1 fd (kq_open h)\<rparr>"

text \<open>The results of \<open>kqueue\<close>, \<open>pipe\<close> with its descriptors, \<open>kqueue_event_set_nonblocking\<close> and \<open>kqueue_hub_add_fd\<close>.\<close>

definition kqueue_hub_init :: "int \<Rightarrow> int \<Rightarrow> int \<times> int \<Rightarrow> int \<Rightarrow> int \<Rightarrow> kqueue_hub \<Rightarrow> int \<times> kqueue_hub" where
  "kqueue_hub_init kq pipe pipefd nonblock add h =
     (if kq < 0 then (-1, h)
      else
        (let h = h\<lparr>kqueue_fd := kq, kq_open := kq # kq_open h\<rparr>
         in if pipe < 0 then (-1, kq_close (kqueue_fd h) h)
            else
              (let h = h\<lparr>kq_wait_break_fd := fst pipefd, wake_up_fd := snd pipefd, kq_open := fst pipefd # snd pipefd # kq_open h\<rparr>;
                   failed = (\<lambda>ret. (ret, kq_close (kqueue_fd h) (kq_close (snd pipefd) (kq_close (fst pipefd) h))))
               in if nonblock < 0 then failed nonblock
                  else if add < 0 then failed add
                  else (0, h))))"

definition kqueue_hub_exit :: "kqueue_hub \<Rightarrow> kqueue_hub" where
  "kqueue_hub_exit h = kq_close (kqueue_fd h) (kq_close (wake_up_fd h) (kq_close (kq_wait_break_fd h) h))"

definition kqueue_event_set_nonblocking :: "int \<Rightarrow> (int \<Rightarrow> int) \<Rightarrow> int" where
  "kqueue_event_set_nonblocking getfl setfl = (if getfl = -1 then -1 else setfl (or getfl 4))"

subsection \<open>macOS: the platform\<close>

definition macos_get_clock_monotonic_time :: "int \<Rightarrow> int \<Rightarrow> u64" where
  "macos_get_clock_monotonic_time tv_sec tv_nsec = word_of_int tv_sec * 1000000 + word_of_int tv_nsec div 1000"

definition macos_idle_break :: "('p \<Rightarrow> 'p) \<Rightarrow> 'p linux_platform \<Rightarrow> 'p linux_platform" where
  "macos_idle_break pipe_write p =
     (if is_idle_state p then p\<lparr>wait_break := kqueue_hub_set_wait_break_event pipe_write (wait_break p)\<rparr> else p)"

definition macos_idle_enter :: "('p \<Rightarrow> int \<times> 'p) \<Rightarrow> u64 \<Rightarrow> 'p linux_platform \<Rightarrow> (u64 \<times> 'p linux_platform) option" where
  "macos_idle_enter pipe_read cps p =
     (let p = p\<lparr>is_idle_state := True\<rparr>;
          (m, k) = eh_get_loop_idle_time cps (os_kernel p);
          p = p\<lparr>os_kernel := k\<rparr>
      in map_option (\<lambda>s. (eh_clock_to_usec cps (word_of_int m), p\<lparr>wait_break := s\<rparr>))
           (kqueue_hub_clean_wait_break_event pipe_read (wait_break p)))"

definition macos_idle_leave :: "'p linux_platform \<Rightarrow> 'p linux_platform" where
  "macos_idle_leave p = p\<lparr>is_idle_state := False\<rparr>"

definition macos_platform_init ::
  "int \<Rightarrow> int \<Rightarrow> int \<Rightarrow> int \<times> kqueue_hub \<Rightarrow> 'p linux_platform \<Rightarrow> int \<times> kqueue_hub \<times> 'p linux_platform" where
  "macos_platform_init attr_init settype mutex_init hub p =
     (let (ret, h) = hub
      in if ret < 0 then (ret, h, p)
         else
           (let p = p\<lparr>is_idle_state := False\<rparr>
            in if attr_init < 0 then (attr_init, kqueue_hub_exit h, p)
               else if settype < 0 then (settype, kqueue_hub_exit h, p)
               else if mutex_init < 0 then (mutex_init, kqueue_hub_exit h, p)
               else (0, h, p)))"

definition macos_platform_deinit :: "kqueue_hub \<Rightarrow> kqueue_hub" where
  "macos_platform_deinit h = kqueue_hub_exit h"

end
