(* ===== verification/Eh_Ports_Spec.thy ===== *)
theory Eh_Ports_Spec
  imports Eh_Ports Eh_Platform_Spec
begin

text \<open>
  What the Windows and macOS ports promise: their idle systems are the one of the Linux port, on a completion port and on
  a pipe, and sleep through no wake-up either; the Windows clock is right for as long as its product fits a word.
\<close>

subsection \<open>The idle system\<close>

lemma windows_idle: "windows_idle_break post = platform_idle_break (iocp_hub_set_wait_break_event post)"
  "windows_idle_enter = platform_idle_enter iocp_hub_clean_wait_break_event" "windows_idle_leave = platform_idle_leave"
  by (simp_all add: fun_eq_iff windows_idle_break_def platform_idle_break_def epoll_hub_set_wait_break_event_def windows_idle_enter_def
      platform_idle_enter_def epoll_hub_clean_wait_break_event_def windows_idle_leave_def platform_idle_leave_def Let_def split_beta)

lemma macos_idle:
  assumes "\<And>s. kqueue_hub_clean_wait_break_event rd s = Some (R s)"
  shows "macos_idle_break W = platform_idle_break W" "macos_idle_enter rd cps p = Some (platform_idle_enter R cps p)"
    "macos_idle_leave = platform_idle_leave"
  by (simp_all add: fun_eq_iff macos_idle_break_def platform_idle_break_def epoll_hub_set_wait_break_event_def macos_idle_enter_def
      kqueue_hub_set_wait_break_event_def platform_idle_enter_def epoll_hub_clean_wait_break_event_def macos_idle_leave_def
      platform_idle_leave_def Let_def split_beta assms)

text \<open>A pipe as the number of bytes in it; a read of an empty one fails, and the loop always empties it.\<close>

definition pipe_read :: "nat \<Rightarrow> int \<times> nat" where
  "pipe_read n = (if n = 0 then -1 else int (min n 1024), n - min n 1024)"

lemma clean_empties: "kqueue_hub_clean_wait_break_event pipe_read n = Some 0"
proof (induction n rule: less_induct)
  case (less n)
  show ?case
  proof (cases "n < 1024")
    case True
    then show ?thesis by (subst kqueue_hub_clean_wait_break_event.simps) (simp add: pipe_read_def)
  next
    case False
    then show ?thesis using less[of "n - 1024"]
      by (subst kqueue_hub_clean_wait_break_event.simps) (simp add: pipe_read_def[of n])
  qed
qed

text \<open>
  \<open>iocp_reach post dequeue h taken\<close>: operations of the hub, in any order and from any thread, lead to the hub \<open>h\<close>,
  and the poll under way has removed the entries \<open>taken\<close> from the port and not yet looked at them.
\<close>

inductive iocp_reach :: "(u64 \<Rightarrow> 'q \<Rightarrow> 'q) \<Rightarrow> (u32 \<Rightarrow> 'q \<Rightarrow> bool \<times> u64 list \<times> 'q) \<Rightarrow> 'q iocp_hub \<Rightarrow> u64 list \<Rightarrow> bool"
  for post dequeue where
  init: "iocp_hub_init create q h0 = (0, h) \<Longrightarrow> iocp_reach post dequeue h []"
| set_event: "iocp_reach post dequeue h taken \<Longrightarrow> iocp_reach post dequeue (iocp_hub_set_wait_break_event post h) taken"
| clean_event: "iocp_reach post dequeue h taken \<Longrightarrow> iocp_reach post dequeue (iocp_hub_clean_wait_break_event h) taken"
| packet: "iocp_reach post dequeue h taken \<Longrightarrow> iocp_reach post dequeue (h\<lparr>port_queue := post key (port_queue h)\<rparr>) taken"
| remove: "iocp_reach post dequeue h [] \<Longrightarrow> dequeue (iocp_timeout u) (port_queue h) = (ok, keys, q) \<Longrightarrow>
    iocp_reach post dequeue (h\<lparr>port_queue := q\<rparr>) (if ok then keys else [])"
| dispatch: "iocp_reach post dequeue h (key # taken) \<Longrightarrow> iocp_reach post dequeue (iocp_dispatch key h) taken"

lemma iocp_fold: "iocp_reach post dequeue h keys \<Longrightarrow> iocp_reach post dequeue (fold iocp_dispatch keys h) []"
  by (induction keys arbitrary: h) (auto intro: iocp_reach.dispatch)

lemma iocp_poll_reach:
  assumes "iocp_reach post dequeue h []"
  shows "iocp_reach post dequeue (snd (iocp_hub_poll dequeue u h)) []"
proof -
  obtain ok keys q where d: "dequeue (iocp_timeout u) (port_queue h) = (ok, keys, q)" by (metis prod_cases3)
  show ?thesis using iocp_fold[OF iocp_reach.remove[OF assms d]]
    by (auto simp: iocp_hub_poll_def d Let_def)
qed

text \<open>The operations of the kernel under the lock only break the wait.\<close>

lemma reach_locked:
  assumes "iocp_reach post dequeue (wait_break p) taken"
  shows "iocp_reach post dequeue (wait_break (locked (iocp_hub_set_wait_break_event post) f p)) taken"
proof -
  have "iocp_reach post dequeue (wait_break q) taken \<Longrightarrow>
      iocp_reach post dequeue (wait_break ((platform_idle_break (iocp_hub_set_wait_break_event post) ^^ n) q)) taken" for n q
    by (induction n) (auto simp: platform_idle_break_def epoll_hub_set_wait_break_event_def intro: iocp_reach.set_event)
  from this[of "p\<lparr>os_kernel := f (os_kernel p)\<rparr>"] assms show ?thesis by (simp add: locked_def Let_def)
qed

text \<open>
  What the port does: \<open>keys q\<close> are the keys of the entries in the queue; a posted entry is in the queue until it
  is removed.
\<close>

definition port_ok :: "('q \<Rightarrow> u64 list) \<Rightarrow> (u64 \<Rightarrow> 'q \<Rightarrow> 'q) \<Rightarrow> (u32 \<Rightarrow> 'q \<Rightarrow> bool \<times> u64 list \<times> 'q) \<Rightarrow> bool" where
  "port_ok keys post dequeue \<longleftrightarrow> (\<forall>k q. set (keys (post k q)) = insert k (set (keys q)))
     \<and> (\<forall>ms q. case dequeue ms q of (ok, ks, q') \<Rightarrow> set (keys q) = (if ok then set ks \<union> set (keys q') else set (keys q')))"

lemma iocp_pending:
  assumes "port_ok keys post dequeue"
  shows "iocp_reach post dequeue h taken \<Longrightarrow> wakeup_action h
    \<and> (wakeup_pending h \<longrightarrow> IOCP_HUB_WAKEUP_KEY \<in> set (keys (port_queue h)) \<union> set taken)"
proof (induction rule: iocp_reach.induct)
  case (remove h u ok ks q)
  then show ?case using assms unfolding port_ok_def by (cases ok) (force split: prod.splits)+
qed (use assms in \<open>auto simp: port_ok_def iocp_hub_init_def iocp_hub_set_wait_break_event_def iocp_hub_clean_wait_break_event_def
    iocp_dispatch_def wakeup_callback_def Let_def split: if_splits\<close>)

text \<open>
  C36. The idle system of the Windows port sleeps through no wake-up, although it posts one wake-up at a time: whatever
  other threads did since it decided to wait, either it does not wait, or a wake-up is queued in the completion port,
  or still no task can run and every running timer expires no earlier than the wait ends.
\<close>

theorem windows_no_lost_wakeup:
  assumes "idle_run (iocp_hub_set_wait_break_event post) iocp_hub_clean_wait_break_event cps u m p ns el"
    and "iocp_reach post dequeue (wait_break p) []" "port_ok keys post dequeue"
  shows "u = eh_clock_to_usec cps (word_of_int m)
    \<and> (u = 0 \<or> IOCP_HUB_WAKEUP_KEY \<in> set (keys (port_queue (wait_break p)))
       \<or> ready_list (os_kernel p) = [] \<and> eh_task_get_current_state (os_kernel p) \<notin> {READY, RUNING}
         \<and> (\<forall>t\<in>set ns. m \<le> remaining (os_kernel p) t + el))"
proof -
  let ?readable = "\<lambda>h. wakeup_pending h \<or> IOCP_HUB_WAKEUP_KEY \<in> set (keys (port_queue h))"
  have "\<forall>h. ?readable (iocp_hub_set_wait_break_event post h)" by (simp add: iocp_hub_set_wait_break_event_def)
  from idle_run_ok[OF this assms(1)] iocp_pending[OF assms(3,2)] show ?thesis
    by (auto simp: idle_ok_def runnable_def)
qed

text \<open>A queue as the list of its keys. All tasks wait; after the decision to wait for a minute, the task 2 is woken.\<close>

definition ex_post :: "u64 \<Rightarrow> u64 list \<Rightarrow> u64 list" where
  "ex_post k q = q @ [k]"

definition ex_dequeue :: "u32 \<Rightarrow> u64 list \<Rightarrow> bool \<times> u64 list \<times> u64 list" where
  "ex_dequeue ms q = (q \<noteq> [], q, [])"

definition ex_windows :: "u64 list iocp_hub linux_platform" where
  "ex_windows = \<lparr>is_idle_state = False, wait_break = \<lparr>iocp_port = 5, wakeup_pending = False, wakeup_action = True, port_queue = []\<rparr>,
     os_kernel = eh_task_set_current_state WAIT demo\<rparr>"

lemma windows_no_lost_wakeup_witness:
  "IOCP_HUB_WAKEUP_KEY \<in> set (port_queue (wait_break (locked (iocp_hub_set_wait_break_event ex_post) (eh_task_wake_up 2)
     (snd (windows_idle_enter 1000000 ex_windows)))))"
proof -
  let ?W = "iocp_hub_set_wait_break_event ex_post"
  have k: "os_kernel ex_windows = os_kernel ex_idle" by (simp add: ex_windows_def ex_idle_def)
  obtain u p where e: "platform_idle_enter iocp_hub_clean_wait_break_event 1000000 ex_windows = (u, p)" by fastforce
  let ?m = "fst (eh_get_loop_idle_time 1000000 (os_kernel ex_windows))"
  have run: "idle_run ?W iocp_hub_clean_wait_break_event 1000000 u ?m (locked ?W (eh_task_wake_up 2) p) [] 0"
    by (intro idle_run.wake_up idle_run.enter[OF ex_idle_timers(1,2)[folded k] _ e refl]) (simp add: ex_idle_timers(3))
  have g: "eh_get_loop_idle_time 1000000 (os_kernel ex_windows) = (60000000, update_timer_now (os_kernel ex_windows))"
    using timer_first_remaining_spec[OF ex_idle_timers(1,2)[folded k], of 1000000]
    by (simp add: eh_get_loop_idle_time_def ex_idle_timers(3) eh_task_get_current_state_def)
      (simp add: ex_windows_def eh_task_set_current_state_def)
  have p: "u \<noteq> 0" "os_kernel p = update_timer_now (os_kernel ex_windows)" "is_idle_state p" "wait_break p = wait_break ex_windows"
    using e g by (auto simp: platform_idle_enter_def epoll_hub_clean_wait_break_event_def eh_clock_to_usec_def Let_def
        iocp_hub_clean_wait_break_event_def)
  have "iocp_reach ex_post ex_dequeue (wait_break ex_windows) []"
    by (rule iocp_reach.init[where create = 5 and q = "[]" and ?h0.0 = "wait_break ex_windows"]) (simp add: iocp_hub_init_def ex_windows_def)
  then have r: "iocp_reach ex_post ex_dequeue (wait_break (locked ?W (eh_task_wake_up 2) p)) []" using p(4) by (simp add: reach_locked)
  have ok: "port_ok (\<lambda>q. q) ex_post ex_dequeue" by (auto simp: port_ok_def ex_post_def ex_dequeue_def)
  have "ready_list (eh_task_wake_up 2 (os_kernel p)) \<noteq> []"
    by (simp add: p(2) ex_windows_def eh_task_set_current_state_def eh_task_wake_up_def Let_def is_system_task_def task_move_last_def
        eh_idle_break_def task_unlink_def)
  then show ?thesis
    using windows_no_lost_wakeup[OF run r ok] p(1) locked_fields(2)[of "\<lambda>_. True" ?W p] p(3) e by (simp add: windows_idle)
qed

subsection \<open>The Windows clock\<close>

text \<open>
  C37. The clock of the Windows port is the number of microseconds while the performance counter is below 2^64 / 10^6; there the
  product wraps around, and the next count sets the clock back to almost 0 (after 21 days at the usual frequency of 10 MHz).
\<close>

theorem windows_clock_range:
  fixes f :: u64
  assumes "0 < f" "unat f < 10 ^ 18"
  shows "(\<forall>d. unat d < 18446744073710 \<longrightarrow> unat (windows_get_clock_monotonic_time f d) = unat d * 1000000 div unat f)
    \<and> unat (windows_get_clock_monotonic_time f 18446744073710) = 448384 div unat f
    \<and> windows_get_clock_monotonic_time f 18446744073710 < windows_get_clock_monotonic_time f 18446744073709"
proof -
  have "unat (d * 1000000) = unat d * 1000000" if "unat d < 18446744073710" for d :: u64
    using that unat_word_ariths(2)[of d 1000000] by simp
  then have "unat (windows_get_clock_monotonic_time f d) = unat d * 1000000 div unat f" if "unat d < 18446744073710" for d
    using that by (simp add: windows_get_clock_monotonic_time_def unat_div)
  moreover have "448384 div unat f < 18446744073709000000 div unat f"
  proof -
    have f: "0 < unat f" using assms(1) by (simp add: word_less_nat_alt)
    have "(448384 + unat f) div unat f \<le> 18446744073709000000 div unat f" by (rule div_le_mono) (use assms(2) in simp)
    moreover have "(448384 + unat f) div unat f = 448384 div unat f + 1" using f by (simp only: div_add_self2)
    ultimately show ?thesis by linarith
  qed
  ultimately show ?thesis by (simp add: windows_get_clock_monotonic_time_def word_less_nat_alt unat_div)
qed

theorem windows_clock_range_witness:
  "windows_get_clock_monotonic_time 10000000 18446744073710 < windows_get_clock_monotonic_time 10000000 18446744073709
    \<and> unat (windows_get_clock_monotonic_time 10000000 18446744073709) = 1844674407370"
  using windows_clock_range[of 10000000] by simp

subsection \<open>The descriptors of the macOS hub\<close>

text \<open>Unlike the Linux hub, this one closes on its exit what its initialisation opened.\<close>

lemma kqueue_descriptors:
  assumes "kqueue_hub_init kq pipe (a, b) nonblock add h = (ret, h')"
  shows "if kq < 0 \<or> pipe < 0 \<or> nonblock < 0 \<or> add < 0 then ret < 0 \<and> mset (kq_open h') = mset (kq_open h)
    else ret = 0 \<and> mset (kq_open h') = mset (kq_open h) + {#kq, a, b#} \<and> mset (kq_open (kqueue_hub_exit h')) = mset (kq_open h)"
  using assms by (auto simp: kqueue_hub_init_def kqueue_hub_exit_def kq_close_def Let_def split: if_splits)

end
