(* ===== verification/Eh_Section.thy ===== *)
theory Eh_Section
  imports Eh_Prelude "HOL-Library.List_Lexorder" "HOL-Library.Char_ord"
begin

text \<open>
  How the table of modules is put together where the linker does not do it: \<^verbatim>\<open>platform/windows/module_section.c\<close>
  and \<^verbatim>\<open>platform/macos/module_section.c\<close> look for the sections of modules in the image of the program and copy
  them in the order of their names. Every section has the modules of one level, and the level is its name.
\<close>

subsection \<open>Strings\<close>

text \<open>A C string ends at its first NUL; \<open>strcmp\<close> has the sign of the first difference.\<close>

definition cstr :: "string \<Rightarrow> string" where
  "cstr s = takeWhile (\<lambda>c. c \<noteq> CHR 0x00) s"

fun strcmp :: "string \<Rightarrow> string \<Rightarrow> int" where
  "strcmp [] [] = 0"
| "strcmp [] (d # t) = -1"
| "strcmp (c # s) [] = 1"
| "strcmp (c # s) (d # t) = (if c = d then strcmp s t else if (of_char c :: nat) < of_char d then -1 else 1)"

definition is_digit :: "char \<Rightarrow> bool" where
  "is_digit c \<longleftrightarrow> (of_char c :: nat) \<in> {48..57}"

definition atoi :: "string \<Rightarrow> int" where
  "atoi s =
     (let s = dropWhile (\<lambda>c. (of_char c :: nat) \<in> {32, 9, 10, 11, 12, 13}) s;
          neg = (s \<noteq> [] \<and> hd s = CHR ''-'');
          s = (if s \<noteq> [] \<and> hd s \<in> {CHR ''-'', CHR ''+''} then tl s else s);
          n = foldl (\<lambda>n c. 10 * n + (of_char c - 48)) 0 (takeWhile is_digit s)
      in if neg then - n else n)"

text \<open>Bytes of a file as numbers, the low byte first; what is past the end of the file reads as 0.\<close>

definition le :: "string \<Rightarrow> int" where
  "le bs = foldr (\<lambda>b n. of_char b + 256 * n) bs 0"

subsection \<open>Sorting\<close>

text \<open>
  A section as the image has it, its name and its bytes, and the sections of the two loops: \<open>gt a b\<close> is the test that
  exchanges \<open>a\<close> and its successor \<open>b\<close>.
\<close>

record image_section =
  sec_name :: string
  sec_data :: "u8 list"

definition bubble_step :: "('a \<Rightarrow> 'a \<Rightarrow> bool) \<Rightarrow> 'a list \<Rightarrow> nat \<Rightarrow> 'a list" where
  "bubble_step gt xs j = (if gt (xs ! j) (xs ! (j + 1)) then xs[j := xs ! (j + 1), j + 1 := xs ! j] else xs)"

definition bubble_pass :: "('a \<Rightarrow> 'a \<Rightarrow> bool) \<Rightarrow> 'a list \<Rightarrow> nat \<Rightarrow> 'a list" where
  "bubble_pass gt xs i = foldl (bubble_step gt) xs [0..<length xs - i - 1]"

definition bubble_sort :: "('a \<Rightarrow> 'a \<Rightarrow> bool) \<Rightarrow> 'a list \<Rightarrow> 'a list" where
  "bubble_sort gt xs = foldl (bubble_pass gt) xs [0..<length xs]"

text \<open>The table: \<open>s_eh_module_section\<close>, \<open>None\<close> while it is \<open>NULL\<close>; its length is \<open>s_eh_module_section_len\<close>.\<close>

type_synonym table = "u8 list option"

definition SIZEOF_EH_MODULE :: nat where "SIZEOF_EH_MODULE = 16"

text \<open>\<open>malloc\<close> tells whether an allocation of that size succeeds.\<close>

definition copy_sections :: "(nat \<Rightarrow> bool) \<Rightarrow> nat \<Rightarrow> image_section list \<Rightarrow> int \<times> table" where
  "copy_sections malloc total_size ss =
     (if \<not> malloc total_size then (EH_RET_MALLOC_ERROR, None)
      else (0, Some (foldl (\<lambda>t s. t @ sec_data s) [] ss)))"

definition eh_module_section_exit :: "table \<Rightarrow> table" where
  "eh_module_section_exit t = None"

subsection \<open>macOS\<close>

text \<open>The load commands of the image: segments with their sections, and others.\<close>

datatype load_command = Segment string "image_section list" | Other_Command

fun find_segment :: "load_command list \<Rightarrow> image_section list option \<Rightarrow> image_section list option" where
  "find_segment [] seg = seg"
| "find_segment (Segment segname ss # cmds) seg =
     find_segment cmds (if strcmp (cstr segname) ''__EH_IFA_DATA'' = 0 then Some ss else seg)"
| "find_segment (Other_Command # cmds) seg = find_segment cmds seg"

fun macos_collect :: "image_section list \<Rightarrow> image_section list \<Rightarrow> nat \<Rightarrow> (image_section list \<times> nat) option" where
  "macos_collect [] arr actual_used_size = Some (arr, actual_used_size)"
| "macos_collect (s # ss) arr actual_used_size =
     (if length (sec_data s) mod SIZEOF_EH_MODULE \<noteq> 0 then None
      else macos_collect ss (arr @ [s]) (actual_used_size + length (sec_data s)))"

definition macos_gt :: "image_section \<Rightarrow> image_section \<Rightarrow> bool" where
  "macos_gt a b \<longleftrightarrow> strcmp (cstr (sec_name a)) (cstr (sec_name b)) > 0"

definition macos_module_section_init :: "(nat \<Rightarrow> bool) \<Rightarrow> load_command list option \<Rightarrow> table \<Rightarrow> int \<times> table" where
  "macos_module_section_init malloc mh t =
     (case mh of
        None \<Rightarrow> (EH_RET_INVALID_STATE, t)
      | Some cmds \<Rightarrow>
          (case find_segment cmds None of
             None \<Rightarrow> (EH_RET_INVALID_STATE, t)
           | Some seg \<Rightarrow>
               (case macos_collect seg [] 0 of
                  None \<Rightarrow> (EH_RET_INVALID_STATE, t)
                | Some (arr, actual_used_size) \<Rightarrow> copy_sections malloc actual_used_size (bubble_sort macos_gt arr))))"

subsection \<open>Windows\<close>

text \<open>
  Reading the image file: \<open>fseek\<close> to a negative offset fails and leaves the position. Opening it and allocating memory
  are arguments: \<open>file\<close> is \<open>None\<close> when it cannot be opened, \<open>memory n\<close> is what is in \<open>n\<close> fresh bytes, if there are any.
\<close>

definition fseek :: "int \<Rightarrow> nat \<Rightarrow> nat" where
  "fseek off pos = (if 0 \<le> off then nat off else pos)"

definition fread :: "nat \<Rightarrow> string \<Rightarrow> nat \<Rightarrow> string \<times> nat" where
  "fread n f pos = (let bs = take n (drop pos f) in (bs, pos + length bs))"

definition long32 :: "int \<Rightarrow> int" where
  "long32 n = sint (word_of_int n :: u32)"

definition load_coff_string_table :: "(nat \<Rightarrow> string option) \<Rightarrow> string option \<Rightarrow> string option \<Rightarrow> string option" where
  "load_coff_string_table memory file tab =
     (if tab \<noteq> None then tab
      else case file of
        None \<Rightarrow> None
      | Some f \<Rightarrow>
          (let (b, pos) = fread 4 f (fseek 0x3C 0); e_lfanew = long32 (le b);
               (_, pos) = fread 2 f (fseek (e_lfanew + 6) pos);
               (_, pos) = fread 2 f (fseek (e_lfanew + 20) pos);
               (b, pos) = fread 4 f (fseek (e_lfanew + 12) pos); sym_table_ptr = le b;
               (b, pos) = fread 4 f pos; num_symbols = le b
           in if sym_table_ptr > 0 \<and> num_symbols > 0
              then
                (let str_tab_offset = long32 (sym_table_ptr + num_symbols * 18);
                     (b, pos) = fread 4 f (fseek str_tab_offset pos); str_tab_size = le b
                 in if str_tab_size > 4 \<and> str_tab_size < 65536
                    then map_option (\<lambda>m. let bs = fst (fread (nat str_tab_size) f (fseek str_tab_offset pos)) in bs @ drop (length bs) m)
                           (memory (nat str_tab_size))
                    else None)
              else None))"

text \<open>\<open>tab\<close> is \<open>s_coff_string_table\<close> after loading; its first four bytes are its size.\<close>

definition get_section_name :: "string option \<Rightarrow> image_section \<Rightarrow> string" where
  "get_section_name tab s =
     (if take 1 (sec_name s) \<noteq> ''/'' then cstr (sec_name s)
      else case tab of
        None \<Rightarrow> cstr (sec_name s)
      | Some t \<Rightarrow>
          (let idx = atoi (cstr (tl (sec_name s)));
               str_tab_size = le (take 4 t)
           in if idx > 0 \<and> idx < str_tab_size then take 63 (cstr (drop (nat idx) t)) else cstr (sec_name s)))"

fun windows_collect ::
  "string option \<Rightarrow> image_section list \<Rightarrow> image_section list \<Rightarrow> nat \<Rightarrow> (image_section list \<times> nat) option" where
  "windows_collect tab [] matched total_size = Some (matched, total_size)"
| "windows_collect tab (s # ss) matched total_size =
     (if \<not> length matched < 64 then Some (matched, total_size)
      else if take 4 (get_section_name tab s) = ''.ehm''
      then
        (if length (sec_data s) mod SIZEOF_EH_MODULE \<noteq> 0 then None
         else windows_collect tab ss (matched @ [s]) (total_size + length (sec_data s)))
      else windows_collect tab ss matched total_size)"

text \<open>The names are copied into arrays of 64 characters before they are compared; names of sections are shorter.\<close>

definition windows_gt :: "string option \<Rightarrow> image_section \<Rightarrow> image_section \<Rightarrow> bool" where
  "windows_gt tab a b \<longleftrightarrow> strcmp (take 63 (get_section_name tab a)) (take 63 (get_section_name tab b)) > 0"

text \<open>The image is its DOS magic, the signature of its headers and its sections; \<open>None\<close> when the module has no handle.\<close>

definition windows_module_section_init ::
  "(nat \<Rightarrow> bool) \<Rightarrow> string option \<Rightarrow> (u16 \<times> u32 \<times> image_section list) option \<Rightarrow> table \<Rightarrow> int \<times> table" where
  "windows_module_section_init malloc tab base t =
     (case base of
        None \<Rightarrow> (EH_RET_INVALID_STATE, t)
      | Some (e_magic, sig, sections) \<Rightarrow>
          if e_magic \<noteq> 0x5A4D then (EH_RET_INVALID_STATE, t)
          else if sig \<noteq> 0x4550 then (EH_RET_INVALID_STATE, t)
          else (case windows_collect tab sections [] 0 of
                  None \<Rightarrow> (EH_RET_INVALID_STATE, t)
                | Some (matched, total_size) \<Rightarrow>
                    if matched = [] then (EH_RET_INVALID_STATE, t)
                    else copy_sections malloc total_size (bubble_sort (windows_gt tab) matched)))"

end
