(* ===== verification/Eh_Section_Spec.thy ===== *)
theory Eh_Section_Spec
  imports Eh_Section "HOL-Library.Multiset"
begin

text \<open>
  The loops of both ports are a stable sort, so the modules of a program are started level by level, and within a
  level in the order the linker left them in.
\<close>

subsection \<open>Comparing names\<close>

lemma strcmp_zero: "strcmp s t = 0 \<longleftrightarrow> s = t"
  by (induction s t rule: strcmp.induct) auto

lemma strcmp_less: "strcmp s t > 0 \<longleftrightarrow> t < s"
proof (induction s t rule: strcmp.induct)
  case (4 c s d t)
  have "c \<noteq> d \<Longrightarrow> \<not> of_char c < (of_char d :: nat) \<Longrightarrow> d < c"
    by (metis less_char_def linorder_neqE_nat of_char_eq_iff)
  with 4 show ?case by (auto simp: less_char_def)
qed auto

subsection \<open>Bubble sort\<close>

text \<open>\<open>gt\<close> is the comparison of keys.\<close>

locale keyed =
  fixes gt :: "'a \<Rightarrow> 'a \<Rightarrow> bool" and f :: "'a \<Rightarrow> 'b::linorder"
  assumes gt: "gt a b \<longleftrightarrow> f b < f a"
begin

lemma step_parts:
  assumes "j + 1 < length xs"
  shows "\<exists>us a b vs. xs = us @ [a, b] @ vs \<and> length us = j \<and> bubble_step gt xs j = us @ (if f b < f a then [b, a] else [a, b]) @ vs"
proof -
  have "xs = take j xs @ [xs ! j, xs ! (j + 1)] @ drop (j + 2) xs"
    using assms by (simp add: Cons_nth_drop_Suc)
  moreover have "length (take j xs) = j" using assms by simp
  ultimately obtain us a b vs where xs: "xs = us @ [a, b] @ vs" and j: "length us = j" by blast
  have "bubble_step gt xs j = us @ (if f b < f a then [b, a] else [a, b]) @ vs"
    by (simp add: bubble_step_def gt xs nth_append list_update_append flip: j)
  then show ?thesis using xs j by blast
qed

lemma step_length [simp]: "length (bubble_step gt xs j) = length xs"
  by (simp add: bubble_step_def)

lemma step_same:
  assumes "j + 1 < length xs"
  shows "mset (bubble_step gt xs j) = mset xs" "filter (\<lambda>x. f x = k) (bubble_step gt xs j) = filter (\<lambda>x. f x = k) xs"
    "i > j + 1 \<Longrightarrow> bubble_step gt xs j ! i = xs ! i"
  using step_parts[OF assms] by (auto simp: bubble_step_def)

lemma step_max:
  assumes "j + 1 < length xs" "\<forall>k\<le>j. f (xs ! k) \<le> f (xs ! j)" "k \<le> j + 1"
  shows "f (bubble_step gt xs j ! k) \<le> f (bubble_step gt xs j ! (j + 1))"
proof (cases "k = j + 1")
  case False
  then have k: "k \<le> j" using assms(3) by simp
  then have "f (xs ! k) \<le> f (xs ! j)" using assms(2) by blast
  then show ?thesis using assms(1) k by (auto simp: bubble_step_def gt nth_list_update not_less)
qed simp

text \<open>One pass over the first \<open>m + 1\<close> elements moves their maximum to the end.\<close>

lemma pass_invariant:
  "j < length xs \<Longrightarrow> (let ys = foldl (bubble_step gt) xs [0..<j] in length ys = length xs \<and> mset ys = mset xs
     \<and> filter (\<lambda>x. f x = k) ys = filter (\<lambda>x. f x = k) xs \<and> (\<forall>i>j. ys ! i = xs ! i) \<and> (\<forall>i\<le>j. f (ys ! i) \<le> f (ys ! j)))"
proof (induction j)
  case (Suc j)
  let ?ys = "foldl (bubble_step gt) xs [0..<j]"
  from Suc have ys: "length ?ys = length xs" "mset ?ys = mset xs" "filter (\<lambda>x. f x = k) ?ys = filter (\<lambda>x. f x = k) xs"
    "\<forall>i>j. ?ys ! i = xs ! i" "\<forall>i\<le>j. f (?ys ! i) \<le> f (?ys ! j)" by (simp_all add: Let_def)
  have j: "j + 1 < length ?ys" using ys(1) Suc.prems by simp
  show ?case using ys step_same[OF j] step_max[OF j ys(5)] by (simp add: Let_def)
qed simp

text \<open>After \<open>i\<close> passes the last \<open>i\<close> elements are in place.\<close>

lemma sort_invariant:
  "i \<le> length xs \<Longrightarrow> (let ys = foldl (bubble_pass gt) xs [0..<i] in length ys = length xs \<and> mset ys = mset xs
     \<and> filter (\<lambda>x. f x = k) ys = filter (\<lambda>x. f x = k) xs
     \<and> (\<forall>a b. a < b \<longrightarrow> length xs - i \<le> b \<longrightarrow> b < length xs \<longrightarrow> f (ys ! a) \<le> f (ys ! b)))"
proof (induction i)
  case (Suc i)
  let ?ys = "foldl (bubble_pass gt) xs [0..<i]" and ?m = "length xs - Suc i"
  let ?zs = "foldl (bubble_step gt) ?ys [0..<?m]"
  from Suc have ys: "length ?ys = length xs" "mset ?ys = mset xs" "filter (\<lambda>x. f x = k) ?ys = filter (\<lambda>x. f x = k) xs"
    "\<And>a b. a < b \<Longrightarrow> length xs - i \<le> b \<Longrightarrow> b < length xs \<Longrightarrow> f (?ys ! a) \<le> f (?ys ! b)" by (simp_all add: Let_def)
  have m: "?m < length ?ys" using Suc.prems ys(1) by simp
  note p = pass_invariant[OF m, of k, unfolded Let_def]
  then have zs: "length ?zs = length xs" "mset ?zs = mset xs" "filter (\<lambda>x. f x = k) ?zs = filter (\<lambda>x. f x = k) xs"
    "\<And>i. i > ?m \<Longrightarrow> ?zs ! i = ?ys ! i" "\<And>i. i \<le> ?m \<Longrightarrow> f (?zs ! i) \<le> f (?zs ! ?m)"
    using ys(1-3) by auto
  have "f (?zs ! a) \<le> f (?zs ! b)" if ab: "a < b" "?m \<le> b" "b < length xs" for a b
  proof (cases "b = ?m")
    case True
    then show ?thesis using zs(5)[of a] ab by simp
  next
    case False
    then have b: "?m < b" "length xs - i \<le> b" using ab by simp_all
    have "?zs ! a \<in> set (take b ?ys)"
    proof -
      have "drop b ?zs = drop b ?ys" using zs(1,4) ys(1) b(1) by (intro nth_equalityI) auto
      then have "mset (take b ?zs) = mset (take b ?ys)"
        using p by (metis add_right_cancel append_take_drop_id mset_append)
      then have "set (take b ?zs) = set (take b ?ys)" by (metis set_mset_mset)
      moreover have "?zs ! a \<in> set (take b ?zs)" using ab zs(1) by (metis in_set_conv_nth length_take min.absorb4 nth_take)
      ultimately show ?thesis by simp
    qed
    then obtain c where c: "c < b" "?zs ! a = ?ys ! c" by (auto simp: in_set_conv_nth)
    then show ?thesis using ys(4)[OF c(1) b(2) ab(3)] zs(4)[OF b(1)] by simp
  qed
  moreover have "foldl (bubble_pass gt) xs [0..<Suc i] = ?zs" by (simp add: bubble_pass_def ys(1))
  ultimately show ?case using zs by (simp only: Let_def) blast
qed simp

lemma bubble_sort_key: "bubble_sort gt xs = sort_key f xs"
proof -
  let ?ys = "bubble_sort gt xs"
  have i: "length ?ys = length xs \<and> mset ?ys = mset xs \<and> filter (\<lambda>x. f x = k) ?ys = filter (\<lambda>x. f x = k) xs
     \<and> (\<forall>a b. a < b \<longrightarrow> b < length xs \<longrightarrow> f (?ys ! a) \<le> f (?ys ! b))" for k
    using sort_invariant[of "length xs" xs k] by (simp add: Let_def bubble_sort_def)
  have "sorted (map f ?ys)" using i by (auto simp: sorted_iff_nth_mono_less)
  moreover have "filter (\<lambda>x. f k = f x) ?ys = filter (\<lambda>x. f k = f x) xs" for k
    using i[of "f k"] by (simp add: eq_commute)
  ultimately show ?thesis using i by (intro properties_for_sort_key[symmetric]) auto
qed

end

interpretation macos: keyed macos_gt "\<lambda>s. cstr (sec_name s)"
  by unfold_locales (simp add: macos_gt_def strcmp_less)

interpretation windows: keyed "windows_gt tab" "\<lambda>s. take 63 (get_section_name tab s)" for tab
  by unfold_locales (simp add: windows_gt_def strcmp_less)

subsection \<open>The table of modules\<close>

definition whole :: "image_section \<Rightarrow> bool" where
  "whole s \<longleftrightarrow> length (sec_data s) mod SIZEOF_EH_MODULE = 0"

definition data_size :: "image_section list \<Rightarrow> nat" where
  "data_size ss = sum_list (map (\<lambda>s. length (sec_data s)) ss)"

lemma macos_collect:
  "macos_collect ss arr n = (if \<forall>s\<in>set ss. whole s then Some (arr @ ss, n + data_size ss) else None)"
  by (induction ss arr n rule: macos_collect.induct) (auto simp: whole_def data_size_def)

definition is_ehm :: "string option \<Rightarrow> image_section \<Rightarrow> bool" where
  "is_ehm tab s \<longleftrightarrow> take 4 (get_section_name tab s) = ''.ehm''"

lemma windows_collect:
  "windows_collect tab ss matched n =
     (let ms = take (64 - length matched) (filter (is_ehm tab) ss)
      in if \<forall>s\<in>set ms. whole s then Some (matched @ ms, n + data_size ms) else None)"
proof (induction tab ss matched n rule: windows_collect.induct)
  case (2 tab s ss matched n)
  show ?case
  proof (cases "length matched < 64 \<and> is_ehm tab s")
    case True
    then have "64 - length matched = Suc (64 - length (matched @ [s]))" by auto
    then show ?thesis using True 2(1) by (simp add: Let_def is_ehm_def whole_def data_size_def)
  next
    case False
    then show ?thesis using 2(2) by (auto simp: Let_def is_ehm_def data_size_def)
  qed
qed (simp add: Let_def data_size_def)

lemma copy_sections:
  "copy_sections malloc n ss = (if \<not> malloc n then (EH_RET_MALLOC_ERROR, None) else (0, Some (concat (map sec_data ss))))"
proof -
  have "foldl (\<lambda>t s. t @ sec_data s) t ss = t @ concat (map sec_data ss)" for t by (induction ss arbitrary: t) simp_all
  then show ?thesis by (simp add: copy_sections_def)
qed

text \<open>
  C38. The table of modules on Windows and on macOS, on every branch: the contents of the sections of modules (at most 64
  on Windows) in a stable order of their names; an image without them, or with one that is no whole number of modules, is an
  invalid state, and only a failed allocation loses the old table.
\<close>

theorem module_table_order:
  "windows_module_section_init malloc tab (Some (magic, sig, ss)) t =
     (let ms = take 64 (filter (\<lambda>s. take 4 (get_section_name tab s) = ''.ehm'') ss)
      in if magic \<noteq> 0x5A4D \<or> sig \<noteq> 0x4550 \<or> ms = [] \<or> (\<exists>s\<in>set ms. length (sec_data s) mod 16 \<noteq> 0) then (EH_RET_INVALID_STATE, t)
         else if \<not> malloc (data_size ms) then (EH_RET_MALLOC_ERROR, None)
         else (0, Some (concat (map sec_data (sort_key (\<lambda>s. take 63 (get_section_name tab s)) ms)))))
   \<and> macos_module_section_init malloc (Some cmds) t =
     (case find_segment cmds None of
        None \<Rightarrow> (EH_RET_INVALID_STATE, t)
      | Some ms \<Rightarrow>
          if \<exists>s\<in>set ms. length (sec_data s) mod 16 \<noteq> 0 then (EH_RET_INVALID_STATE, t)
          else if \<not> malloc (data_size ms) then (EH_RET_MALLOC_ERROR, None)
          else (0, Some (concat (map sec_data (sort_key (\<lambda>s. cstr (sec_name s)) ms)))))"
proof -
  have e: "is_ehm tab = (\<lambda>s. take 4 (get_section_name tab s) = ''.ehm'')" by (simp add: is_ehm_def fun_eq_iff)
  have w: "whole = (\<lambda>s. length (sec_data s) mod 16 = 0)" by (simp add: whole_def SIZEOF_EH_MODULE_def fun_eq_iff)
  show ?thesis
    by (auto simp: windows_module_section_init_def windows_collect macos_module_section_init_def macos_collect copy_sections Let_def
        windows.bubble_sort_key macos.bubble_sort_key w e[symmetric] split: option.splits)
qed

definition ex_sections :: "image_section list" where
  "ex_sections = [\<lparr>sec_name = ''.ehm1.1'', sec_data = replicate 16 1\<rparr>, \<lparr>sec_name = ''.text'', sec_data = [9]\<rparr>,
     \<lparr>sec_name = ''.ehm1.0'', sec_data = replicate 16 0\<rparr>]"

theorem module_table_order_witness:
  "windows_module_section_init (\<lambda>_. True) None (Some (0x5A4D, 0x4550, ex_sections)) None = (0, Some (replicate 16 0 @ replicate 16 1))"
proof -
  have f: "filter (\<lambda>s. take 4 (get_section_name None s) = ''.ehm'') ex_sections = [hd ex_sections, last ex_sections]"
    by (simp add: ex_sections_def get_section_name_def cstr_def)
  have k: "take 63 (get_section_name None (last ex_sections)) < take 63 (get_section_name None (hd ex_sections))"
    by (simp add: ex_sections_def get_section_name_def cstr_def less_char_def)
  then have "sort_key (\<lambda>s. take 63 (get_section_name None s)) [hd ex_sections, last ex_sections] = [last ex_sections, hd ex_sections]"
    by simp
  then show ?thesis
    using module_table_order[THEN conjunct1, of "\<lambda>_. True" None "0x5A4D" "0x4550" ex_sections None]
    unfolding f by (simp add: Let_def) (simp add: ex_sections_def)
qed

end
