(* ===== verification/Spec2Isabelle.thy ===== *)
theory Spec2Isabelle
  imports Eh_List Eh_Rbtree_Spec Eh_Event_Spec Eh_Timer_Spec Eh_Sched_Spec Eh_Event_Cb
    Eh_Mem_Spec Eh_Mem_Pool Eh_Ringbuf_Spec Eh_Hashtbl_Spec Eh_Flags_Spec Eh_Formatio_Spec
    Eh_Event_Cb_Spec Eh_Event_Loop_Spec Eh_Platform_Spec Eh_Llist Eh_Module Eh_Signal Eh_Swab Eh_Debug
    Eh_Coroutine_Ports Eh_Coroutine32_Ports Eh_Pendsv_Spec Eh_Task_Switch_Spec Eh_Ports_Spec Eh_Section_Spec
begin

text \<open>
  EventHub OS is a small cooperative operating system in C: tasks are coroutines that run until they
  wait for an event, and everything that can be waited for (timers, semaphores, mutexes, event
  flags, pollers, the end of a task) is an event. This development models its core under
  \<^verbatim>\<open>src/src\<close> and proves what its parts promise. File names below are relative to that directory.

  How the parts interact. The kernel has one state, the record \<open>kernel\<close> of \<open>Eh_Kernel\<close>: the task
  lists and the tasks, the receptors of every event, the timers, the pollers. A task that waits
  adds a receptor to an event and gives the processor away; notifying the event sets the flags of its
  receptors and moves the waiting tasks to the ready list; the scheduler takes the first task of
  that list. A timer is an event in a red-black tree that the poll loop of the scheduler checks. The
  containers (list, tree, heap, pool, ring buffer, hash table) have states of their own, with nodes
  named by the addresses the C code links, and are used by the kernel and by applications.

  Theories, in the order they build on each other:
  \<^item> \<open>Eh_Prelude\<close>: type names, the error codes and error pointers of \<^verbatim>\<open>include/eh_error.h\<close>, and
    the lemmas on words and linked paths that the components share.
  \<^item> \<open>Eh_List\<close>: the intrusive list of \<^verbatim>\<open>general/include/eh_list.h\<close> as a memory of next and prev
    pointers. \<open>dll\<close> says which ring a list head carries; each function is shown to act on it, and the
    locale \<open>node_ring\<close> states what clients may rely on (interpretation \<open>ring\<close>). The kernel model uses
    HOL lists for its lists on this ground.
  \<^item> \<open>Eh_Rbtree\<close>: \<^verbatim>\<open>general/eh_rbtree.c\<close> and its header statement by statement, on child
    pointers and words packing parent and colour; the loops are \<open>partial_function\<close>s, so that looping
    forever is \<open>None\<close>. \<open>Eh_Rbtree_Fun\<close> has the algorithms on trees, \<open>Eh_Rbtree_Sim\<close> and
    \<open>Eh_Rbtree_Del\<close> the simulation between the two, \<open>Eh_Rbtree_Ops\<close> the contract of each function and the
    locale \<open>ordered_index\<close> (interpretation \<open>rbx\<close>), \<open>Eh_Rbtree_Spec\<close> the properties.
  \<^item> \<open>Eh_Kernel\<close>: the kernel state of \<^verbatim>\<open>include/eh_internal.h\<close>, \<open>eh_task_wake_up\<close>, receptors and the
    functions on events of \<^verbatim>\<open>eh_event.c\<close>. \<open>Eh_Event_Spec\<close>: notification reaches every receptor and wakes
    every waiting task, cleaning reports an error to all, notifying one at a time is fair.
  \<^item> \<open>Eh_Clock\<close>: the conversions between clocks and milli- or microseconds of \<^verbatim>\<open>eh_core.c\<close>.
  \<^item> \<open>Eh_Timer\<close>: \<^verbatim>\<open>eh_timer.c\<close>, on the red-black tree above. \<open>Eh_Timer_Lemmas\<close> has the order of
    the tree by remaining time and why advancing the clock keeps it; \<open>Eh_Timer_Spec\<close> what starting, stopping,
    restarting and checking do, and that a check returns.
  \<^item> \<open>Eh_Core\<close>: the scheduler and the life of a task of \<^verbatim>\<open>eh_core.c\<close>. A context switch is the change of
    \<open>current_task\<close>. \<open>Eh_Sched_Spec\<close>: the task lists stay disjoint and complete over every history of
    operations (\<open>sched_inv\<close>), tasks run round robin, woken tasks in order, system tasks first.
  \<^item> \<open>Eh_Wait\<close>: waiting for events and conditions, with and without time-out, joining a task, sleeping.
    A wait is cut at its suspension points: entering it, then one round per resumption.
  \<^item> \<open>Eh_Sync\<close>: \<^verbatim>\<open>eh_sem.c\<close>, \<^verbatim>\<open>eh_mutex.c\<close> and \<^verbatim>\<open>eh_event_flags.c\<close> on these waits. \<open>Eh_Sync_Spec\<close>
    takes every interleaving of waits, posts, unlocks and steps of the rest of the system (\<open>undisturbed\<close>): the
    locale \<open>handoff\<close> (interpretations \<open>semaphore\<close> and \<open>mutexes\<close>) shows that waking one waiter at a time with
    rotation forgets none (\<open>wake_ok\<close>); semaphores count exactly, mutexes exclude. \<open>Eh_Flags_Spec\<close> does the same for
    event flags and shows the case in which a waiter is forgotten.
  \<^item> \<open>Eh_Epoll\<close>: the poller of \<^verbatim>\<open>eh_event.c\<close>. \<open>Eh_Epoll_Spec\<close> shows that under every interleaving it is
    a queue of the nodes whose event happened, and that no task sleeps on it while it is not empty. \<open>Eh_Event_Cb\<close>: the callbacks of \<^verbatim>\<open>eh_event_cb.c\<close>,
    which run on a poller of the task. \<open>Eh_Event_Cb_Spec\<close> says which slots a pass of the event loop runs while they
    disconnect each other; \<open>Eh_Event_Loop_Spec\<close> that a request to quit ends the loop. \<open>Eh_Signal\<close>: the names of \<^verbatim>\<open>include/eh_signal.h\<close> for these, and the periodic signals of
    \<^verbatim>\<open>components/eh_comp_timer.c\<close> (beside \<^verbatim>\<open>src\<close>).
  \<^item> \<open>Eh_Platform\<close>: the Linux port (\<^verbatim>\<open>platform/linux\<close>): the idle wait, how other threads break it, and the
    descriptors. \<open>Eh_Platform_Spec\<close> shows that no wake-up and no timer is slept through (\<open>idle_run\<close> takes every
    interleaving of kernel operations between the decision to wait and the wait), and which descriptors stay open.
  \<^item> \<open>Eh_Module\<close>: the table of modules that \<^verbatim>\<open>eh_core.c\<close> starts and stops, and that a failed start is rolled back.
  \<^item> \<open>Eh_Mem\<close>: the first-fit heap of \<^verbatim>\<open>eh_mem.c\<close> on 64-bit addresses; \<open>Eh_Mem_Lemmas\<close> has the free list as a
    list of intervals, \<open>Eh_Mem_Spec\<close> that blocks handed out are disjoint parts of the heaps over every history
    of calls, that releasing everything restores the heap, and the accounting of free bytes.
  \<^item> \<open>Eh_Mem_Pool\<close>: \<^verbatim>\<open>eh_mem_pool.c\<close> and its properties.
  \<^item> \<open>Eh_Ringbuf\<close>: \<^verbatim>\<open>general/eh_ringbuf.c\<close> on 32-bit indices. \<open>Eh_Ringbuf_Spec\<close> has the locale
    \<open>byte_fifo\<close>, a bounded queue of bytes, the ring buffer as its interpretation \<open>ringq\<close>, and that every
    sequence of writes and reads is one of the queue.
  \<^item> \<open>Eh_Hashtbl\<close>: \<^verbatim>\<open>general/eh_hashtbl.c\<close> with its incremental rehashing. \<open>Eh_Hashtbl_Lemmas\<close> says in
    which bucket a node is while some buckets need remaking (\<open>home\<close>) and keeps the invariant;
    \<open>Eh_Hashtbl_Spec\<close> shows that the table is a finite map over every history of operations.
  \<^item> \<open>Eh_Formatio\<close>: \<^verbatim>\<open>general/eh_formatio.c\<close>: streams, the format language and the conversions, with a
    \<open>double\<close> as a rational that is rounded after every operation (\<open>rnd\<close>). \<open>Eh_Formatio_Spec\<close> shows that what a
    format prints does not depend on the stream (\<open>printed\<close>, the lemmas \<open>prints\<close>), what the buffer of \<open>eh_snprintf\<close> and
    the writes of a cached stream hold of it, and that integers can be read back. \<open>Eh_Debug\<close>: \<^verbatim>\<open>general/eh_debug.c\<close>.
  \<^item> \<open>Eh_Llist\<close>: the singly linked list of \<^verbatim>\<open>general/eh_llist.c\<close>. The locale \<open>simulated\<close> takes steps to
    histories; its interpretation \<open>llq\<close> gives that the list is a HOL list under all its operations.
  \<^item> \<open>Eh_Swab\<close>: byte swapping (\<^verbatim>\<open>include/eh_swab.h\<close>).
  \<^item> \<open>Eh_Machine\<close>: bytes in memory. \<open>Eh_Coroutine\<close>: the assembly of the context switches of \<^verbatim>\<open>coroutine/linux-x64\<close>,
    \<^verbatim>\<open>coroutine/windows-x64\<close> and \<^verbatim>\<open>coroutine/macos-arm64\<close>, instruction by instruction on the registers it uses.
    \<open>Eh_Coroutine_Spec\<close>: the locale \<open>context_switch\<close> (what a port promises), the history of coroutines \<open>co_run\<close> over it, and
    the locales \<open>stack_switch\<close> and \<open>frame_switch\<close> that give it for switches that save their context in a stack frame (of any or of one
    size). \<open>Eh_Coroutine_Ports\<close>: the three
    interpretations (\<open>lx\<close>, \<open>wx\<close>, \<open>mx\<close>), resuming a coroutine and entering a new one. \<open>Eh_Coroutine32\<close> and
    \<open>Eh_Coroutine32_Ports\<close>: the same for \<^verbatim>\<open>cortex-m0\<close> and \<^verbatim>\<open>cortex-m3\<close> (\<^verbatim>\<open>coroutine_psp.c\<close>) and \<^verbatim>\<open>riscv32-bumblebee-n200\<close>.
  \<^item> \<open>Eh_Pendsv\<close>: the switches in the PendSV handlers of \<^verbatim>\<open>cortex-m0\<close>, \<^verbatim>\<open>cortex-m3\<close>, \<^verbatim>\<open>cortex-m4\<close> and \<^verbatim>\<open>cortex-m7\<close>
    (\<^verbatim>\<open>coroutine_pendsv.c\<close>), with exception entry and return as steps of the processor. \<open>Eh_Pendsv_Spec\<close>: they are instances of the
    locale \<open>stack_switch\<close> (interpretations \<open>p0\<close>, \<open>p3\<close>, \<open>p4\<close>), with frames of several sizes that are written when resumed;
    what a call of \<open>co_context_swap\<close> returns with, and the first entry.
  \<^item> \<open>Eh_Task_Switch_Spec\<close>: the scheduler and the context switch together. In \<open>system_run\<close> the kernel steps, tasks compute and are
    created, and a switch is a step of both. The lists of the scheduler give what a port asks of a switch, so the fact of the
    interpretation \<open>lx\<close> applies: the first ready task goes on where it had stopped.
  \<^item> \<open>Eh_Ports\<close>: \<^verbatim>\<open>platform/windows\<close> and \<^verbatim>\<open>platform/macos\<close>, clock, idle wait and hubs. \<open>Eh_Ports_Spec\<close>: their idle
    systems lose no wake-up either, and how far the Windows clock is right.
  \<^item> \<open>Eh_Section\<close>: how these two build the table of modules (\<^verbatim>\<open>module_section.c\<close>). \<open>Eh_Section_Spec\<close>: the locale \<open>keyed\<close>, in
    which the two loops are a stable sort by name.

  Conventions. Pointers are natural numbers with \<open>NULL = 0\<close>, except where the code calculates with
  addresses, which are 64-bit words there. Machine integers are words of their C width, so overflow
  is part of the model. Results of fallible functions are error codes or sums with the error code on the left; an
  allocation is an argument that says what it returned. Loops that C leaves unbounded are
  \<open>partial_function\<close>s, and the theorems state that they return; no fuel is used anywhere. Dereferencing
  \<open>NULL\<close> is modelled as \<open>None\<close> where it can happen (hash table). Callbacks and user conditions are arguments.

  Bounds assumed by theorems, each in the statement: a ring buffer of at most \<open>2 ^ 30\<close> bytes (beyond, it is
  wrong: \<open>ringbuf_large_size\<close>); no running timer overdue by half the range of the 64-bit clock; heaps inside the
  address space; a hash table of less than \<open>2 ^ 31\<close> buckets.

  Not modelled: the atomic operations, which are builtin functions of the compiler; on the microcontrollers, the context switches of
  Cortex-M33 (its stack limits and security states), interrupt masking, exception priorities, the change of stacks at start and end, and
  fault handlers; what happens when a coroutine function returns to the operating system; tests and examples.
\<close>

end
